(* ===== verification/LW_Prelude.thy ===== *)
theory LW_Prelude
  imports
    Main
    "HOL-Library.Word"
    "HOL-Library.Mapping"
    "HOL-Library.AList_Mapping"
    "HOL-Library.Sublist"
    "HOL-Library.Monad_Syntax"
begin

text \<open>
  Shared vocabulary of the development.

  \<^item> names for Rust's machine integers and for byte strings;
  \<^item> the parts of Rust's \<^verbatim>\<open>str\<close> / \<^verbatim>\<open>[u8]\<close> API the sources use, on the UTF-8 bytes of a
    string (a HOL \<^typ>\<open>char\<close> is one byte);
  \<^item> conversions between integer widths (\<^verbatim>\<open>try_from\<close>, \<^verbatim>\<open>saturating_*\<close>, little and big endian);
  \<^item> labelled runs of a step relation and the locale \<open>lts_invariant\<close>, which lifts a step
    invariant to every run and which every state machine of the development interprets;
  \<^item> the collections \<open>str_simps\<close>, \<open>word_simps\<close> used by the component proofs.
\<close>

named_theorems str_simps \<open>evaluation of the string functions\<close>
named_theorems word_simps \<open>bounds and values of machine integers\<close>

section \<open>Machine integers\<close>

type_synonym u8 = "8 word"
type_synonym u16 = "16 word"
type_synonym u32 = "32 word"
type_synonym u64 = "64 word"
type_synonym bytes = "8 word list"

text \<open>Signed 64-bit values are kept as \<^typ>\<open>int\<close>; these are the bounds of \<^verbatim>\<open>i64\<close>.\<close>

definition i64_min :: int where "i64_min = - (2 ^ 63)"
definition i64_max :: int where "i64_max = 2 ^ 63 - 1"

definition is_i64 :: "int \<Rightarrow> bool" where
  "is_i64 i \<longleftrightarrow> i64_min \<le> i \<and> i \<le> i64_max"

text \<open>\<^verbatim>\<open>i64::try_from(u64).ok()\<close> and \<^verbatim>\<open>u64::try_from(i64).ok()\<close>.\<close>

definition i64_try_from_u64 :: "u64 \<Rightarrow> int option" where
  "i64_try_from_u64 w = (if uint w \<le> i64_max then Some (uint w) else None)"

definition u64_try_from_i64 :: "int \<Rightarrow> u64 option" where
  "u64_try_from_i64 i = (if 0 \<le> i then Some (word_of_int i) else None)"

lemma i64_try_from_u64_Some:
  "i64_try_from_u64 w = Some i \<longleftrightarrow> uint w = i \<and> i \<le> i64_max"
  by (auto simp: i64_try_from_u64_def)

lemma i64_try_from_u64_inject:
  "i64_try_from_u64 v = Some i \<Longrightarrow> i64_try_from_u64 w = Some i \<Longrightarrow> v = w"
  by (metis i64_try_from_u64_Some word_uint_eq_iff)

lemma word_less_add_one: "(w :: 'a::len word) + 1 \<noteq> 0 \<Longrightarrow> w < w + 1"
  using unatSuc [of w] by (simp add: word_less_nat_alt add.commute)

section \<open>Lists\<close>

lemma take_split: "n \<le> m \<Longrightarrow> take m xs = take n xs @ take (m - n) (drop n xs)"
  by (metis le_add_diff_inverse take_add)

section \<open>Labelled runs and invariants\<close>

inductive lts_run :: "('s \<Rightarrow> 'e \<Rightarrow> 's \<Rightarrow> bool) \<Rightarrow> 's \<Rightarrow> 'e list \<Rightarrow> 's \<Rightarrow> bool"
  for step :: "'s \<Rightarrow> 'e \<Rightarrow> 's \<Rightarrow> bool" where
  run_nil: "lts_run step s [] s"
| run_cons: "step s e s' \<Longrightarrow> lts_run step s' es s'' \<Longrightarrow> lts_run step s (e # es) s''"

inductive_cases lts_run_NilE [elim!]: "lts_run step s [] t"
inductive_cases lts_run_ConsE [elim]: "lts_run step s (e # es) t"

lemma lts_run_append:
  "lts_run step s es t \<Longrightarrow> lts_run step t fs u \<Longrightarrow> lts_run step s (es @ fs) u"
  by (induction rule: lts_run.induct) (auto intro: lts_run.intros)

lemma lts_run_snoc:
  "lts_run step s es t \<Longrightarrow> step t e u \<Longrightarrow> lts_run step s (es @ [e]) u"
  by (rule lts_run_append) (auto intro: lts_run.intros)

locale lts_invariant =
  fixes step :: "'s \<Rightarrow> 'e \<Rightarrow> 's \<Rightarrow> bool"
    and init :: "'s \<Rightarrow> bool"
    and inv :: "'s \<Rightarrow> bool"
  assumes inv_init: "init s \<Longrightarrow> inv s"
    and inv_step: "inv s \<Longrightarrow> step s e t \<Longrightarrow> inv t"
begin

lemma inv_from: "lts_run step s es t \<Longrightarrow> inv s \<Longrightarrow> inv t"
  by (induction rule: lts_run.induct) (auto intro: inv_step)

lemma inv_run: "init s \<Longrightarrow> lts_run step s es t \<Longrightarrow> inv t"
  by (blast intro: inv_init inv_from)

end

text \<open>Running an executable step function over a list of events.\<close>

fun exec_all :: "('s \<Rightarrow> 'e \<Rightarrow> 's option) \<Rightarrow> 's \<Rightarrow> 'e list \<Rightarrow> 's option" where
  "exec_all f s [] = Some s"
| "exec_all f s (e # es) = (case f s e of None \<Rightarrow> None | Some t \<Rightarrow> exec_all f t es)"

locale executable_lts =
  fixes exec :: "'s \<Rightarrow> 'e \<Rightarrow> 's option"
    and step :: "'s \<Rightarrow> 'e \<Rightarrow> 's \<Rightarrow> bool"
  assumes exec_step: "exec s e = Some t \<Longrightarrow> step s e t"
begin

lemma exec_all_sound: "exec_all exec s es = Some t \<Longrightarrow> lts_run step s es t"
  by (induction es arbitrary: s) (auto split: option.splits intro: lts_run.intros exec_step)

lemma exec_all_run: "exec_all exec s es \<noteq> None \<Longrightarrow> lts_run step s es (the (exec_all exec s es))"
  by (auto intro: exec_all_sound)

end

section \<open>Mappings\<close>

lemma lookup_delete_if:
  "Mapping.lookup (Mapping.delete k m) k' = (if k = k' then None else Mapping.lookup m k')"
  by simp

lemma lookup_is_empty: "Mapping.is_empty m \<Longrightarrow> Mapping.lookup m k = None"
  by (simp add: Mapping.is_empty_def keys_dom_lookup)

lemmas mapping_simps = lookup_update' lookup_delete_if lookup_is_empty

section \<open>Errors of the backend interface\<close>

text \<open>\<^verbatim>\<open>BackendError\<close> of \<^verbatim>\<open>litewire-backend/src/lib.rs\<close>, and its \<^verbatim>\<open>Display\<close> text.\<close>

datatype backend_error = Sqlite string | Other string

fun backend_error_to_string :: "backend_error \<Rightarrow> string" where
  "backend_error_to_string (Sqlite m) = ''SQLite error: '' @ m"
| "backend_error_to_string (Other m) = ''backend error: '' @ m"

end
