(* ===== verification/User_Lock.thy ===== *)
theory User_Lock
  imports LW_Prelude
begin

text \<open>
  MySQL named locks: the registry behind \<^verbatim>\<open>GET_LOCK()\<close>, \<^verbatim>\<open>RELEASE_LOCK()\<close>,
  \<^verbatim>\<open>RELEASE_ALL_LOCKS()\<close>, \<^verbatim>\<open>IS_FREE_LOCK()\<close>, \<^verbatim>\<open>IS_USED_LOCK()\<close> and \<^verbatim>\<open>CONNECTION_ID()\<close>
  (\<^verbatim>\<open>src/crates/litewire-backend/src/user_lock.rs\<close>).

  \<^item> \<open>held\<close>, \<open>inner\<close>, \<open>registry\<close>, \<open>lock_session\<close> are the structs of the source. An
    \<^verbatim>\<open>Arc<Notify>\<close> is its identity, a number; the registry hands out fresh ones
    (\<open>next_notify\<close>), as \<^verbatim>\<open>Arc::new\<close> does, and \<open>notified\<close> logs every \<^verbatim>\<open>notify_waiters\<close> call,
    which is all the registry does with them. A \<^verbatim>\<open>HashSet\<close> is a duplicate-free list.
  \<^item> one definition per method; the acquisition counter is a 32-bit word that wraps, as it does
    in a release build.
  \<^item> \<open>acquire_step\<close> is one atomic section of the loop of \<^verbatim>\<open>LockSession::acquire\<close>, and
    \<open>lock_step\<close> interleaves the sections of any number of sessions.
\<close>

section \<open>Data\<close>

type_synonym notify = nat

record held =
  owner :: u64
  count :: u32
  released :: notify

record inner =
  locks :: "(string, (string, held) mapping) mapping"
  by_session :: "(u64, string list) mapping"

record registry =
  tab :: inner
  next_id :: u64
  next_notify :: notify
  notified :: "notify list"

record lock_session =
  namespace :: string
  session_id :: u64

text \<open>A \<^verbatim>\<open>Duration\<close> is a number of nanoseconds.\<close>

datatype lock_timeout = Immediate | Wait nat | Forever

definition from_seconds :: "int \<Rightarrow> lock_timeout" where
  "from_seconds seconds =
     (if seconds < 0 then Forever
      else if seconds = 0 then Immediate
      else Wait (nat \<bar>seconds\<bar> * 1000000000))"

datatype user_lock_op =
    Get string lock_timeout
  | Release string
  | ReleaseAll
  | IsFree string
  | IsUsed string
  | ConnectionId

type_synonym user_lock_reply = "int option"

section \<open>The registry's operations\<close>

definition empty_inner :: inner where
  "empty_inner = \<lparr>locks = Mapping.empty, by_session = Mapping.empty\<rparr>"

definition registry_new :: registry where
  "registry_new = \<lparr>tab = empty_inner, next_id = 0, next_notify = 0, notified = []\<rparr>"

definition session :: "registry \<Rightarrow> string \<Rightarrow> lock_session \<times> registry" where
  "session r ns =
     (\<lparr>namespace = ns, session_id = next_id r + 1\<rparr>, r\<lparr>next_id := next_id r + 1\<rparr>)"

definition held_in :: "registry \<Rightarrow> string \<Rightarrow> nat" where
  "held_in r ns = (case Mapping.lookup (locks (tab r)) ns of None \<Rightarrow> 0 | Some m \<Rightarrow> Mapping.size m)"

text \<open>\<^verbatim>\<open>inner.locks.get(ns)?.get(name)\<close>\<close>

definition lookup_held :: "inner \<Rightarrow> string \<Rightarrow> string \<Rightarrow> held option" where
  "lookup_held inn ns name =
     (case Mapping.lookup (locks inn) ns of None \<Rightarrow> None | Some m \<Rightarrow> Mapping.lookup m name)"

text \<open>
  The namespace's table after a removal: \<^verbatim>\<open>if ns.is_empty() { inner.locks.remove(ns) }\<close>.
\<close>

definition put_table :: "string \<Rightarrow> (string, held) mapping \<Rightarrow> inner \<Rightarrow> inner" where
  "put_table ns m inn =
     inn\<lparr>locks := (if Mapping.is_empty m then Mapping.delete ns (locks inn)
                   else Mapping.update ns m (locks inn))\<rparr>"

text \<open>\<^verbatim>\<open>notify_waiters\<close> on one notify, and the log it leaves.\<close>

definition notify_waiters :: "registry \<Rightarrow> notify \<Rightarrow> registry" where
  "notify_waiters r n = r\<lparr>notified := notified r @ [n]\<rparr>"

text \<open>
  The loop \<^verbatim>\<open>for name in names\<close> of \<^verbatim>\<open>release_all\<close>: the namespace's table, the count released
  and the notifies woken.
\<close>

fun release_names ::
  "string list \<Rightarrow> (string, held) mapping \<Rightarrow> u64 \<Rightarrow> notify list \<Rightarrow>
     (string, held) mapping \<times> u64 \<times> notify list" where
  "release_names [] m n log = (m, n, log)"
| "release_names (name # names) m n log =
     (case Mapping.lookup m name of
        None \<Rightarrow> release_names names m n log
      | Some h \<Rightarrow>
          release_names names (Mapping.delete name m) (n + ucast (count h)) (log @ [released h]))"

definition registry_release_all :: "registry \<Rightarrow> u64 \<Rightarrow> string \<Rightarrow> u64 \<times> registry" where
  "registry_release_all r sid ns =
     (let inn = tab r in
      case Mapping.lookup (by_session inn) sid of
        None \<Rightarrow> (0, r)
      | Some names \<Rightarrow>
          (let inn1 = inn\<lparr>by_session := Mapping.delete sid (by_session inn)\<rparr> in
           case Mapping.lookup (locks inn1) ns of
             None \<Rightarrow> (0, r\<lparr>tab := inn1\<rparr>)
           | Some m \<Rightarrow>
               (let (m', n, log) = release_names names m 0 []
                in (n, r\<lparr>tab := put_table ns m' inn1, notified := notified r @ log\<rparr>))))"

text \<open>
  \<^verbatim>\<open>try_acquire\<close>: \<^verbatim>\<open>Ok(())\<close> is \<open>Inr ()\<close>, \<^verbatim>\<open>Err(notify)\<close> is \<open>Inl\<close> of the holder's notify.
\<close>

definition try_acquire :: "registry \<Rightarrow> string \<Rightarrow> string \<Rightarrow> u64 \<Rightarrow> (notify + unit) \<times> registry" where
  "try_acquire r ns name sid =
     (let inn = tab r;
          m = (case Mapping.lookup (locks inn) ns of Some m \<Rightarrow> m | None \<Rightarrow> Mapping.empty);
          inn0 = inn\<lparr>locks := Mapping.update ns m (locks inn)\<rparr>
      in case Mapping.lookup m name of
           Some h \<Rightarrow>
             (if owner h = sid then
                (Inr (), r\<lparr>tab := inn0\<lparr>locks := Mapping.update ns
                   (Mapping.update name (h\<lparr>count := count h + 1\<rparr>) m) (locks inn0)\<rparr>\<rparr>)
              else (Inl (released h), r\<lparr>tab := inn0\<rparr>))
         | None \<Rightarrow>
             (Inr (), r\<lparr>tab := inn0\<lparr>
                  locks := Mapping.update ns
                    (Mapping.update name \<lparr>owner = sid, count = 1, released = next_notify r\<rparr> m)
                    (locks inn0),
                  by_session := Mapping.update sid
                    (List.insert name (case Mapping.lookup (by_session inn0) sid of
                                         Some l \<Rightarrow> l | None \<Rightarrow> []))
                    (by_session inn0)\<rparr>,
                next_notify := next_notify r + 1\<rparr>))"

definition release :: "registry \<Rightarrow> lock_session \<Rightarrow> string \<Rightarrow> user_lock_reply \<times> registry" where
  "release r s name =
     (let inn = tab r in
      case Mapping.lookup (locks inn) (namespace s) of
        None \<Rightarrow> (None, r)
      | Some m \<Rightarrow>
          (case Mapping.lookup m name of
             None \<Rightarrow> (None, r)
           | Some h \<Rightarrow>
               if owner h \<noteq> session_id s then (Some 0, r)
               else
                 (let c = count h - 1 in
                  if c = 0 then
                    (let inn1 = put_table (namespace s) (Mapping.delete name m) inn;
                         inn2 = (case Mapping.lookup (by_session inn1) (session_id s) of
                             None \<Rightarrow> inn1
                           | Some names \<Rightarrow>
                               (let names' = removeAll name names in
                                inn1\<lparr>by_session :=
                                  (if names' = [] then Mapping.delete (session_id s) (by_session inn1)
                                   else Mapping.update (session_id s) names' (by_session inn1))\<rparr>))
                     in (Some 1, notify_waiters (r\<lparr>tab := inn2\<rparr>) (released h)))
                  else
                    (Some 1, r\<lparr>tab := inn\<lparr>locks := Mapping.update (namespace s)
                       (Mapping.update name (h\<lparr>count := c\<rparr>) m) (locks inn)\<rparr>\<rparr>))))"

definition holder_of :: "registry \<Rightarrow> lock_session \<Rightarrow> string \<Rightarrow> u64 option" where
  "holder_of r s name = map_option owner (lookup_held (tab r) (namespace s) name)"

definition is_held :: "registry \<Rightarrow> lock_session \<Rightarrow> string \<Rightarrow> bool" where
  "is_held r s name \<longleftrightarrow> holder_of r s name \<noteq> None"

definition release_all :: "registry \<Rightarrow> lock_session \<Rightarrow> u64 \<times> registry" where
  "release_all r s = registry_release_all r (session_id s) (namespace s)"

text \<open>\<^verbatim>\<open>impl Drop for LockSession\<close>\<close>

definition drop_session :: "registry \<Rightarrow> lock_session \<Rightarrow> registry" where
  "drop_session r s = snd (release_all r s)"

text \<open>
  \<^verbatim>\<open>LockSession::apply\<close> for every operation but \<^verbatim>\<open>Get\<close>, which may wait and is the machine
  \<open>acquire_step\<close> below.
\<close>

fun apply_now :: "registry \<Rightarrow> lock_session \<Rightarrow> user_lock_op \<Rightarrow> (user_lock_reply \<times> registry) option" where
  "apply_now r s (Get name timeout) = None"
| "apply_now r s (Release name) = Some (release r s name)"
| "apply_now r s ReleaseAll =
     (let (n, r') = release_all r s in Some (i64_try_from_u64 n, r'))"
| "apply_now r s (IsFree name) = Some (Some (if is_held r s name then 0 else 1), r)"
| "apply_now r s (IsUsed name) = Some (Option.bind (holder_of r s name) i64_try_from_u64, r)"
| "apply_now r s ConnectionId = Some (i64_try_from_u64 (session_id s), r)"

section \<open>Waiting: the loop of LockSession::acquire\<close>

text \<open>
  Where a \<^verbatim>\<open>GET_LOCK\<close> call is in its loop. \<open>AcEnabled n k\<close> and \<open>AcWaiting n k\<close> carry the
  notify the call waits on and the length of the notify log when its future was enabled: a
  \<^verbatim>\<open>notify_waiters\<close> call made later wakes it.
\<close>

datatype acquire_pc =
    AcTry
  | AcSeen notify
  | AcEnabled notify nat
  | AcWaiting notify nat
  | AcDone user_lock_reply

record acquire_call =
  call_name :: string
  call_timeout :: lock_timeout
  deadline :: "nat option"
  pc :: acquire_pc

definition acquire_begin :: "nat \<Rightarrow> string \<Rightarrow> lock_timeout \<Rightarrow> acquire_call" where
  "acquire_begin now name timeout =
     \<lparr>call_name = name, call_timeout = timeout,
      deadline = (case timeout of Wait d \<Rightarrow> Some (now + d) | Immediate \<Rightarrow> None | Forever \<Rightarrow> None),
      pc = AcTry\<rparr>"

definition still_that_lock :: "registry \<Rightarrow> lock_session \<Rightarrow> string \<Rightarrow> notify \<Rightarrow> bool" where
  "still_that_lock r s name n \<longleftrightarrow>
     (case lookup_held (tab r) (namespace s) name of
        None \<Rightarrow> False | Some h \<Rightarrow> released h = n)"

text \<open>One atomic section of the loop; \<open>AcWaiting\<close> is the \<^verbatim>\<open>.await\<close>, which these do not leave.\<close>

definition acquire_step ::
  "registry \<Rightarrow> lock_session \<Rightarrow> acquire_call \<Rightarrow> acquire_call \<times> registry" where
  "acquire_step r s c =
     (case pc c of
        AcTry \<Rightarrow>
          (case try_acquire r (namespace s) (call_name c) (session_id s) of
             (Inr _, r') \<Rightarrow> (c\<lparr>pc := AcDone (Some 1)\<rparr>, r')
           | (Inl n, r') \<Rightarrow>
               (if call_timeout c = Immediate then (c\<lparr>pc := AcDone (Some 0)\<rparr>, r')
                else (c\<lparr>pc := AcSeen n\<rparr>, r')))
      | AcSeen n \<Rightarrow> (c\<lparr>pc := AcEnabled n (length (notified r))\<rparr>, r)
      | AcEnabled n k \<Rightarrow>
          (if still_that_lock r s (call_name c) n then (c\<lparr>pc := AcWaiting n k\<rparr>, r)
           else (c\<lparr>pc := AcTry\<rparr>, r))
      | AcWaiting n k \<Rightarrow> (c, r)
      | AcDone v \<Rightarrow> (c, r))"

text \<open>The awaited future completes once its notify was signalled after it was enabled.\<close>

definition woken :: "registry \<Rightarrow> acquire_call \<Rightarrow> bool" where
  "woken r c \<longleftrightarrow>
     (case pc c of AcWaiting n k \<Rightarrow> n \<in> set (drop k (notified r)) | _ \<Rightarrow> False)"

definition expired :: "acquire_call \<Rightarrow> nat \<Rightarrow> bool" where
  "expired c now \<longleftrightarrow>
     (case (pc c, deadline c) of (AcWaiting n k, Some d) \<Rightarrow> d \<le> now | _ \<Rightarrow> False)"

section \<open>Sessions interleaved\<close>

record lock_sys =
  reg :: registry
  sessions :: "u64 \<Rightarrow> lock_session option"
  calls :: "u64 \<Rightarrow> acquire_call option"

definition lock_sys_init :: lock_sys where
  "lock_sys_init = \<lparr>reg = registry_new, sessions = Map.empty, calls = Map.empty\<rparr>"

datatype lock_event =
    EOpen string
  | EGet u64 string lock_timeout nat
  | ESection u64
  | EWake u64
  | EExpire u64 nat
  | EReturn u64 user_lock_reply
  | EOp u64 user_lock_op user_lock_reply
  | EClose u64

inductive lock_step :: "lock_sys \<Rightarrow> lock_event \<Rightarrow> lock_sys \<Rightarrow> bool" where
  open_session:
    "next_id (reg y) + 1 \<noteq> 0 \<Longrightarrow> session (reg y) ns = (s, r') \<Longrightarrow>
     lock_step y (EOpen ns)
       (y\<lparr>reg := r', sessions := (sessions y)(session_id s \<mapsto> s)\<rparr>)"
| get_call:
    "sessions y i = Some s \<Longrightarrow> calls y i = None \<Longrightarrow>
     lock_step y (EGet i name timeout now)
       (y\<lparr>calls := (calls y)(i \<mapsto> acquire_begin now name timeout)\<rparr>)"
| section_of:
    "sessions y i = Some s \<Longrightarrow> calls y i = Some c \<Longrightarrow> acquire_step (reg y) s c = (c', r') \<Longrightarrow>
     lock_step y (ESection i) (y\<lparr>reg := r', calls := (calls y)(i \<mapsto> c')\<rparr>)"
| wake:
    "calls y i = Some c \<Longrightarrow> woken (reg y) c \<Longrightarrow>
     lock_step y (EWake i) (y\<lparr>calls := (calls y)(i \<mapsto> c\<lparr>pc := AcTry\<rparr>)\<rparr>)"
| expire:
    "calls y i = Some c \<Longrightarrow> expired c now \<Longrightarrow>
     lock_step y (EExpire i now) (y\<lparr>calls := (calls y)(i \<mapsto> c\<lparr>pc := AcDone (Some 0)\<rparr>)\<rparr>)"
| return_call:
    "calls y i = Some c \<Longrightarrow> pc c = AcDone v \<Longrightarrow>
     lock_step y (EReturn i v) (y\<lparr>calls := (calls y)(i := None)\<rparr>)"
| other_op:
    "sessions y i = Some s \<Longrightarrow> calls y i = None \<Longrightarrow> apply_now (reg y) s opr = Some (v, r') \<Longrightarrow>
     lock_step y (EOp i opr v) (y\<lparr>reg := r'\<rparr>)"
| close_session:
    "sessions y i = Some s \<Longrightarrow>
     lock_step y (EClose i)
       (y\<lparr>reg := drop_session (reg y) s, sessions := (sessions y)(i := None),
          calls := (calls y)(i := None)\<rparr>)"

section \<open>What each operation does to the table\<close>

lemma lookup_held_update_ns [simp]:
  "lookup_held (inn\<lparr>locks := Mapping.update ns m (locks inn)\<rparr>) ns' name =
     (if ns' = ns then Mapping.lookup m name else lookup_held inn ns' name)"
  by (simp add: lookup_held_def lookup_update')

lemma lookup_held_by_session [simp]:
  "lookup_held (inn\<lparr>by_session := b\<rparr>) = lookup_held inn"
  by (simp add: lookup_held_def fun_eq_iff)

lemma lookup_held_table:
  "Mapping.lookup (locks inn) ns = Some m \<Longrightarrow> Mapping.lookup m name = lookup_held inn ns name"
  by (simp add: lookup_held_def)

text \<open>Dropping an empty namespace table and storing it are the same to a lookup.\<close>

lemma lookup_held_put_table [simp]:
  "lookup_held (put_table ns m inn) ns' name =
     (if ns' = ns then Mapping.lookup m name else lookup_held inn ns' name)"
  by (auto simp: put_table_def lookup_held_def mapping_simps)

lemma by_session_put_table [simp]: "by_session (put_table ns m inn) = by_session inn"
  by (simp add: put_table_def)

lemma try_acquire_lookup:
  assumes "try_acquire r ns name sid = (res, r')"
  shows "lookup_held (tab r') ns' name' =
    (if ns' = ns \<and> name' = name
     then (case lookup_held (tab r) ns name of
             None \<Rightarrow> Some \<lparr>owner = sid, count = 1, released = next_notify r\<rparr>
           | Some h \<Rightarrow> Some (if owner h = sid then h\<lparr>count := count h + 1\<rparr> else h))
     else lookup_held (tab r) ns' name')"
  using assms
  by (auto simp: try_acquire_def Let_def lookup_held_def lookup_update'
      split: option.splits if_splits)

lemma try_acquire_result:
  assumes "try_acquire r ns name sid = (res, r')"
  shows "res = (case lookup_held (tab r) ns name of
           None \<Rightarrow> Inr () | Some h \<Rightarrow> if owner h = sid then Inr () else Inl (released h))"
  using assms
  by (auto simp: try_acquire_def Let_def lookup_held_def split: option.splits if_splits)

lemma try_acquire_frame:
  assumes "try_acquire r ns name sid = (res, r')"
  shows "next_id r' = next_id r" and "notified r' = notified r"
    and "next_notify r' = (if lookup_held (tab r) ns name = None then next_notify r + 1 else next_notify r)"
    and "Mapping.lookup (by_session (tab r')) i =
      (if i = sid \<and> lookup_held (tab r) ns name = None
       then Some (List.insert name (case Mapping.lookup (by_session (tab r)) sid of Some l \<Rightarrow> l | None \<Rightarrow> []))
       else Mapping.lookup (by_session (tab r)) i)"
  using assms
  by (auto simp: try_acquire_def Let_def lookup_held_def lookup_update' split: option.splits if_splits)

text \<open>The last acquisition of a name by its owner: its entry goes and its waiters are notified.\<close>

definition last_release :: "registry \<Rightarrow> lock_session \<Rightarrow> string \<Rightarrow> held \<Rightarrow> bool" where
  "last_release r s name h \<longleftrightarrow>
     lookup_held (tab r) (namespace s) name = Some h \<and> owner h = session_id s \<and> count h = 1"

lemma release_result:
  "fst (release r s name) =
     (case lookup_held (tab r) (namespace s) name of
        None \<Rightarrow> None
      | Some h \<Rightarrow> Some (if owner h = session_id s then 1 else 0))"
  by (auto simp: release_def Let_def lookup_held_def split: option.splits)

text \<open>The three shapes of a release: nothing to do, one acquisition less, the last one.\<close>

lemma release_idle:
  assumes "case lookup_held (tab r) (namespace s) name of None \<Rightarrow> True | Some h \<Rightarrow> owner h \<noteq> session_id s"
  shows "snd (release r s name) = r"
  using assms by (auto simp: release_def Let_def lookup_held_def split: option.splits)

lemma release_more:
  assumes "lookup_held (tab r) (namespace s) name = Some h" "owner h = session_id s" "count h \<noteq> 1"
  shows "lookup_held (tab (snd (release r s name))) ns' name' =
       (if ns' = namespace s \<and> name' = name then Some (h\<lparr>count := count h - 1\<rparr>)
        else lookup_held (tab r) ns' name')"
    and "by_session (tab (snd (release r s name))) = by_session (tab r)"
    and "notified (snd (release r s name)) = notified r"
    and "next_id (snd (release r s name)) = next_id r"
    and "next_notify (snd (release r s name)) = next_notify r"
  using assms
  by (auto simp: release_def Let_def lookup_held_def lookup_update' split: option.splits)

lemma release_last:
  assumes "last_release r s name h"
  shows "lookup_held (tab (snd (release r s name))) ns' name' =
       (if ns' = namespace s \<and> name' = name then None else lookup_held (tab r) ns' name')"
    and "Mapping.lookup (by_session (tab (snd (release r s name)))) i =
       (if i = session_id s
        then (case Mapping.lookup (by_session (tab r)) i of
                None \<Rightarrow> None
              | Some names \<Rightarrow> if removeAll name names = [] then None else Some (removeAll name names))
        else Mapping.lookup (by_session (tab r)) i)"
    and "notified (snd (release r s name)) = notified r @ [released h]"
    and "next_id (snd (release r s name)) = next_id r"
    and "next_notify (snd (release r s name)) = next_notify r"
proof -
  from assms obtain m where m: "Mapping.lookup (locks (tab r)) (namespace s) = Some m"
      "Mapping.lookup m name = Some h" "owner h = session_id s" "count h = 1"
    by (auto simp: last_release_def lookup_held_def split: option.splits)
  note rel = release_def Let_def notify_waiters_def
  show "lookup_held (tab (snd (release r s name))) ns' name' =
       (if ns' = namespace s \<and> name' = name then None else lookup_held (tab r) ns' name')"
    using m by (simp add: rel lookup_delete_if lookup_held_table split: option.split)
  show "Mapping.lookup (by_session (tab (snd (release r s name)))) i =
       (if i = session_id s
        then (case Mapping.lookup (by_session (tab r)) i of
                None \<Rightarrow> None
              | Some names \<Rightarrow> if removeAll name names = [] then None else Some (removeAll name names))
        else Mapping.lookup (by_session (tab r)) i)"
    using m by (simp add: rel mapping_simps split: option.split)
  show "notified (snd (release r s name)) = notified r @ [released h]"
    using m by (simp add: rel split: option.split)
  show "next_id (snd (release r s name)) = next_id r"
    using m by (simp add: rel split: option.split)
  show "next_notify (snd (release r s name)) = next_notify r"
    using m by (simp add: rel split: option.split)
qed

lemma release_cases [case_names idle more last]:
  obtains (idle) "snd (release r s name) = r"
      "\<And>h. lookup_held (tab r) (namespace s) name = Some h \<Longrightarrow> owner h \<noteq> session_id s"
  | (more) h where "lookup_held (tab r) (namespace s) name = Some h" "owner h = session_id s" "count h \<noteq> 1"
  | (last) h where "lookup_held (tab r) (namespace s) name = Some h" "owner h = session_id s" "count h = 1"
      "last_release r s name h"
proof (cases "\<exists>h. lookup_held (tab r) (namespace s) name = Some h \<and> owner h = session_id s")
  case False
  then have "snd (release r s name) = r" by (auto intro: release_idle split: option.splits)
  with False idle show thesis by blast
next
  case True
  then show thesis using more last by (auto simp: last_release_def)
qed

lemma release_names_lookup:
  "release_names names m n log = (m', n', log') \<Longrightarrow>
   Mapping.lookup m' name = (if name \<in> set names then None else Mapping.lookup m name)"
  by (induction names m n log rule: release_names.induct)
    (auto split: option.splits simp: lookup_delete_if)

lemma release_names_log:
  "release_names names m n log = (m', n', log') \<Longrightarrow>
   set log' = set log \<union> {released h |h name. name \<in> set names \<and> Mapping.lookup m name = Some h}"
proof (induction names m n log rule: release_names.induct)
  case (2 name names m n log)
  show ?case
  proof (cases "Mapping.lookup m name")
    case None
    with 2 show ?thesis by auto
  next
    case (Some h)
    with "2.prems" "2.IH"(2) have
      "set log' = set (log @ [released h]) \<union>
         {released h' |h' n'. n' \<in> set names \<and> Mapping.lookup (Mapping.delete name m) n' = Some h'}"
      by simp
    also have "\<dots> = set log \<union> {released h' |h' n'. n' \<in> set (name # names) \<and> Mapping.lookup m n' = Some h'}"
      using Some by (auto simp: lookup_delete_if split: if_splits) (metis option.inject)+
    finally show ?thesis .
  qed
qed auto

lemma release_names_prefix:
  "release_names names m n log = (m', n', log') \<Longrightarrow> \<exists>more. log' = log @ more"
  by (induction names m n log rule: release_names.induct) (auto split: option.splits)

lemma release_names_sum:
  "release_names names m n log = (m', n', log') \<Longrightarrow> distinct names \<Longrightarrow>
   n' = n + (\<Sum>name\<leftarrow>names. case Mapping.lookup m name of None \<Rightarrow> 0 | Some h \<Rightarrow> ucast (count h))"
proof (induction names m n log rule: release_names.induct)
  case (2 name names m n log)
  have same: "map (\<lambda>x. case Mapping.lookup (Mapping.delete name m) x of None \<Rightarrow> 0 | Some h \<Rightarrow> (ucast (count h) :: u64)) names
      = map (\<lambda>x. case Mapping.lookup m x of None \<Rightarrow> 0 | Some h \<Rightarrow> ucast (count h)) names"
    using "2.prems"(2) by (intro map_cong) (auto simp: lookup_delete_if)
  show ?case
  proof (cases "Mapping.lookup m name")
    case None
    with 2 show ?thesis by simp
  next
    case (Some h)
    with 2 same show ?thesis by (simp add: algebra_simps)
  qed
qed auto

lemma release_all_none:
  "Mapping.lookup (by_session (tab r)) sid = None \<Longrightarrow> registry_release_all r sid ns = (0, r)"
  by (simp add: registry_release_all_def)

lemma release_all_some:
  assumes names: "Mapping.lookup (by_session (tab r)) sid = Some names"
    and m: "Mapping.lookup (locks (tab r)) ns = Some m"
    and rel: "release_names names m 0 [] = (m', n, log)"
    and res: "registry_release_all r sid ns = (v, r')"
  shows "v = n" and "notified r' = notified r @ log" and "next_id r' = next_id r"
    and "next_notify r' = next_notify r"
    and "by_session (tab r') = Mapping.delete sid (by_session (tab r))"
    and "lookup_held (tab r') ns' name =
      (if ns' = ns \<and> name \<in> set names then None else lookup_held (tab r) ns' name)"
proof -
  show "v = n" "notified r' = notified r @ log" "next_id r' = next_id r"
    "next_notify r' = next_notify r"
    "by_session (tab r') = Mapping.delete sid (by_session (tab r))"
    using res by (auto simp: registry_release_all_def names m rel Let_def split: if_splits)
  have "lookup_held (tab r') ns' name =
      (if ns' = ns then Mapping.lookup m' name else lookup_held (tab r) ns' name)"
    using res by (auto simp: registry_release_all_def names m rel Let_def)
  then show "lookup_held (tab r') ns' name =
      (if ns' = ns \<and> name \<in> set names then None else lookup_held (tab r) ns' name)"
    by (auto simp: release_names_lookup [OF rel] lookup_held_table [OF m])
qed

section \<open>Invariant of the registry\<close>

definition entries_ok :: "(u64 \<Rightarrow> lock_session option) \<Rightarrow> registry \<Rightarrow> bool" where
  "entries_ok ss r \<longleftrightarrow>
     (\<forall>ns name h. lookup_held (tab r) ns name = Some h \<longrightarrow>
        released h < next_notify r \<and>
        (\<exists>s names. ss (owner h) = Some s \<and> namespace s = ns \<and>
           Mapping.lookup (by_session (tab r)) (owner h) = Some names \<and> name \<in> set names))"

definition index_ok :: "(u64 \<Rightarrow> lock_session option) \<Rightarrow> registry \<Rightarrow> bool" where
  "index_ok ss r \<longleftrightarrow>
     (\<forall>i names. Mapping.lookup (by_session (tab r)) i = Some names \<longrightarrow>
        distinct names \<and> names \<noteq> [] \<and>
        (\<exists>s. ss i = Some s \<and>
           (\<forall>name \<in> set names. \<exists>h. lookup_held (tab r) (namespace s) name = Some h \<and> owner h = i)))"

definition notifies_ok :: "registry \<Rightarrow> bool" where
  "notifies_ok r \<longleftrightarrow>
     (\<forall>ns name h ns' name' h'.
        lookup_held (tab r) ns name = Some h \<longrightarrow> lookup_held (tab r) ns' name' = Some h' \<longrightarrow>
        released h = released h' \<longrightarrow> ns = ns' \<and> name = name')"

definition sessions_ok :: "(u64 \<Rightarrow> lock_session option) \<Rightarrow> registry \<Rightarrow> bool" where
  "sessions_ok ss r \<longleftrightarrow> (\<forall>i s. ss i = Some s \<longrightarrow> session_id s = i \<and> 0 < i \<and> i \<le> next_id r)"

definition reg_inv :: "(u64 \<Rightarrow> lock_session option) \<Rightarrow> registry \<Rightarrow> bool" where
  "reg_inv ss r \<longleftrightarrow> sessions_ok ss r \<and> entries_ok ss r \<and> index_ok ss r \<and> notifies_ok r"

lemma reg_invI:
  "sessions_ok ss r \<Longrightarrow> entries_ok ss r \<Longrightarrow> index_ok ss r \<Longrightarrow> notifies_ok r \<Longrightarrow> reg_inv ss r"
  by (simp add: reg_inv_def)

lemma entries_okD:
  assumes "entries_ok ss r" "lookup_held (tab r) ns name = Some h"
  obtains s names where "released h < next_notify r" "ss (owner h) = Some s" "namespace s = ns"
    "Mapping.lookup (by_session (tab r)) (owner h) = Some names" "name \<in> set names"
  using assms unfolding entries_ok_def by blast

lemma index_okD:
  assumes "index_ok ss r" "Mapping.lookup (by_session (tab r)) i = Some names"
  obtains s where "distinct names" "names \<noteq> []" "ss i = Some s"
    "\<forall>name \<in> set names. \<exists>h. lookup_held (tab r) (namespace s) name = Some h \<and> owner h = i"
  using assms unfolding index_ok_def by blast

lemma notifies_okD:
  "notifies_ok r \<Longrightarrow> lookup_held (tab r) ns name = Some h \<Longrightarrow> lookup_held (tab r) ns' name' = Some h' \<Longrightarrow>
   released h = released h' \<Longrightarrow> ns = ns' \<and> name = name'"
  unfolding notifies_ok_def by blast

text \<open>The names a session holds are exactly its entries in its own namespace.\<close>

lemma owned_names:
  assumes inv: "reg_inv ss r" and s: "ss i = Some s"
    and names: "Mapping.lookup (by_session (tab r)) i = Some names"
  shows "(\<exists>h. lookup_held (tab r) ns name = Some h \<and> owner h = i) \<longleftrightarrow> ns = namespace s \<and> name \<in> set names"
proof
  assume "\<exists>h. lookup_held (tab r) ns name = Some h \<and> owner h = i"
  then obtain h where h: "lookup_held (tab r) ns name = Some h" "owner h = i" by blast
  from inv have "entries_ok ss r" by (simp add: reg_inv_def)
  then show "ns = namespace s \<and> name \<in> set names"
    using h s names by (auto elim!: entries_okD)
next
  from inv have "index_ok ss r" by (simp add: reg_inv_def)
  then show "ns = namespace s \<and> name \<in> set names \<Longrightarrow>
      \<exists>h. lookup_held (tab r) ns name = Some h \<and> owner h = i"
    using s names by (auto elim!: index_okD)
qed

lemma owns_nothing:
  assumes inv: "reg_inv ss r" and none: "Mapping.lookup (by_session (tab r)) i = None"
    and h: "lookup_held (tab r) ns name = Some h"
  shows "owner h \<noteq> i"
  using assms by (auto simp: reg_inv_def elim!: entries_okD)

text \<open>
  The invariant does not look at the counts: it carries over to a table whose entries keep
  their owner and notify.
\<close>

definition same_entries :: "registry \<Rightarrow> registry \<Rightarrow> bool" where
  "same_entries r r' \<longleftrightarrow>
     (\<forall>ns name. map_option (\<lambda>h. (owner h, released h)) (lookup_held (tab r') ns name) =
                map_option (\<lambda>h. (owner h, released h)) (lookup_held (tab r) ns name)) \<and>
     Mapping.lookup (by_session (tab r')) = Mapping.lookup (by_session (tab r)) \<and>
     next_id r' = next_id r \<and> next_notify r' = next_notify r"

lemma same_entriesD:
  assumes "same_entries r r'" "lookup_held (tab r') ns name = Some h"
  shows "\<exists>g. lookup_held (tab r) ns name = Some g \<and> owner g = owner h \<and> released g = released h"
proof -
  have "map_option (\<lambda>h. (owner h, released h)) (lookup_held (tab r') ns name) =
      map_option (\<lambda>h. (owner h, released h)) (lookup_held (tab r) ns name)"
    using assms(1) by (simp add: same_entries_def)
  with assms(2) show ?thesis by (cases "lookup_held (tab r) ns name") auto
qed

lemma same_entries_sym: "same_entries r r' \<Longrightarrow> same_entries r' r"
  by (simp add: same_entries_def)

lemma reg_inv_same_entries:
  assumes inv: "reg_inv ss r" and same: "same_entries r r'"
  shows "reg_inv ss r'"
proof (rule reg_invI)
  have eqs: "Mapping.lookup (by_session (tab r')) = Mapping.lookup (by_session (tab r))"
    "next_id r' = next_id r" "next_notify r' = next_notify r"
    using same by (auto simp: same_entries_def)
  note old = same_entriesD [OF same] and new = same_entriesD [OF same_entries_sym [OF same]]
  show "sessions_ok ss r'" using inv eqs by (simp add: reg_inv_def sessions_ok_def)
  show "entries_ok ss r'" using inv eqs unfolding reg_inv_def entries_ok_def by (metis old)
  show "index_ok ss r'"
    unfolding index_ok_def
  proof (intro allI impI)
    fix i names
    assume "Mapping.lookup (by_session (tab r')) i = Some names"
    with inv eqs obtain s where s: "distinct names" "names \<noteq> []" "ss i = Some s"
        "\<forall>name \<in> set names. \<exists>h. lookup_held (tab r) (namespace s) name = Some h \<and> owner h = i"
      by (auto simp: reg_inv_def elim: index_okD)
    then have "\<exists>h. lookup_held (tab r') (namespace s) name = Some h \<and> owner h = i" if "name \<in> set names" for name
      using that by (auto dest!: bspec new)
    with s show "distinct names \<and> names \<noteq> [] \<and> (\<exists>s. ss i = Some s \<and>
        (\<forall>name \<in> set names. \<exists>h. lookup_held (tab r') (namespace s) name = Some h \<and> owner h = i))"
      by blast
  qed
  show "notifies_ok r'" using inv unfolding reg_inv_def notifies_ok_def by (metis old)
qed

subsection \<open>Taking a lock\<close>

lemma try_acquire_held_same:
  assumes "try_acquire r ns name i = (res, r')" "lookup_held (tab r) ns name \<noteq> None"
  shows "same_entries r r'"
  using assms(2)
  by (auto simp: same_entries_def try_acquire_lookup [OF assms(1)] try_acquire_frame [OF assms(1)])

lemma try_acquire_free:
  assumes eq: "try_acquire r ns name i = (res, r')" and free: "lookup_held (tab r) ns name = None"
  shows "lookup_held (tab r') ns' name' =
      (if ns' = ns \<and> name' = name then Some \<lparr>owner = i, count = 1, released = next_notify r\<rparr>
       else lookup_held (tab r) ns' name')"
    and "next_notify r' = next_notify r + 1"
    and "Mapping.lookup (by_session (tab r')) j =
      (if j = i then Some (List.insert name (case Mapping.lookup (by_session (tab r)) i of
                             Some l \<Rightarrow> l | None \<Rightarrow> []))
       else Mapping.lookup (by_session (tab r)) j)"
  using free by (auto simp: try_acquire_lookup [OF eq] try_acquire_frame [OF eq])

lemma try_acquire_free_entries:
  assumes old: "entries_ok ss r" and s: "ss i = Some s"
    and eq: "try_acquire r (namespace s) name i = (res, r')"
    and free: "lookup_held (tab r) (namespace s) name = None"
  shows "entries_ok ss r'"
  unfolding entries_ok_def
proof (intro allI impI)
  note facts = try_acquire_free [OF eq free]
  fix ns' name' h
  assume h: "lookup_held (tab r') ns' name' = Some h"
  show "released h < next_notify r' \<and> (\<exists>s' l. ss (owner h) = Some s' \<and> namespace s' = ns' \<and>
      Mapping.lookup (by_session (tab r')) (owner h) = Some l \<and> name' \<in> set l)"
  proof (cases "ns' = namespace s \<and> name' = name")
    case True
    with h s show ?thesis by (auto simp: facts)
  next
    case False
    with h have "lookup_held (tab r) ns' name' = Some h" by (auto simp: facts split: if_splits)
    with old show ?thesis by (rule entries_okD) (auto simp: facts)
  qed
qed

lemma try_acquire_free_index:
  assumes old: "index_ok ss r" and s: "ss i = Some s"
    and eq: "try_acquire r (namespace s) name i = (res, r')"
    and free: "lookup_held (tab r) (namespace s) name = None"
  shows "index_ok ss r'"
  unfolding index_ok_def
proof (intro allI impI)
  note facts = try_acquire_free [OF eq free]
  define names where "names = (case Mapping.lookup (by_session (tab r)) i of Some l \<Rightarrow> l | None \<Rightarrow> [])"
  have names: "distinct names" "\<forall>n \<in> set names. \<exists>h. lookup_held (tab r) (namespace s) n = Some h \<and> owner h = i"
    by (cases "Mapping.lookup (by_session (tab r)) i"; use old s in \<open>auto simp: names_def elim!: index_okD\<close>)+
  fix j l
  assume l: "Mapping.lookup (by_session (tab r')) j = Some l"
  show "distinct l \<and> l \<noteq> [] \<and> (\<exists>s'. ss j = Some s' \<and>
      (\<forall>n\<in>set l. \<exists>h. lookup_held (tab r') (namespace s') n = Some h \<and> owner h = j))"
  proof (cases "j = i")
    case True
    with l have "l = List.insert name names" by (simp add: facts names_def)
    with True s names show ?thesis by (auto simp: facts List.insert_def)
  next
    case False
    with l have "Mapping.lookup (by_session (tab r)) j = Some l" by (simp add: facts)
    with old obtain s' where s': "distinct l" "l \<noteq> []" "ss j = Some s'"
        "\<forall>n \<in> set l. \<exists>h. lookup_held (tab r) (namespace s') n = Some h \<and> owner h = j"
      by (rule index_okD)
    then show ?thesis using free by (fastforce simp: facts)
  qed
qed

lemma try_acquire_free_notifies:
  assumes old: "notifies_ok r" "entries_ok ss r"
    and eq: "try_acquire r ns name i = (res, r')" and free: "lookup_held (tab r) ns name = None"
  shows "notifies_ok r'"
proof -
  have fresh: "lookup_held (tab r) ns' name' = Some h \<Longrightarrow> released h \<noteq> next_notify r" for ns' name' h
    using old(2) by (auto elim: entries_okD)
  show ?thesis
    unfolding notifies_ok_def try_acquire_free(1) [OF eq free]
    using fresh by (auto dest: notifies_okD [OF old(1)] split: if_splits) (metis)+
qed

lemma try_acquire_inv:
  assumes inv: "reg_inv ss r" and s: "ss i = Some s"
    and eq: "try_acquire r (namespace s) name i = (res, r')"
  shows "reg_inv ss r'"
proof (cases "lookup_held (tab r) (namespace s) name")
  case (Some h)
  with inv show ?thesis by (auto intro: reg_inv_same_entries try_acquire_held_same [OF eq])
next
  case None
  from inv have old: "entries_ok ss r" "index_ok ss r" "notifies_ok r" "sessions_ok ss r"
    by (auto simp: reg_inv_def)
  have "sessions_ok ss r'" using old(4) by (simp add: sessions_ok_def try_acquire_frame [OF eq])
  then show ?thesis
    by (rule reg_invI)
      (use old s eq None in \<open>auto intro: try_acquire_free_entries try_acquire_free_index
        try_acquire_free_notifies\<close>)
qed

subsection \<open>Giving locks back\<close>

text \<open>A step that removes some of the names \<open>D\<close> a session holds, from both tables.\<close>

definition removes_names :: "registry \<Rightarrow> lock_session \<Rightarrow> string list \<Rightarrow> string set \<Rightarrow> registry \<Rightarrow> bool" where
  "removes_names r s names D r' \<longleftrightarrow>
     Mapping.lookup (by_session (tab r)) (session_id s) = Some names \<and> D \<subseteq> set names \<and>
     next_id r' = next_id r \<and> next_notify r' = next_notify r \<and>
     (\<forall>ns name. lookup_held (tab r') ns name =
        (if ns = namespace s \<and> name \<in> D then None else lookup_held (tab r) ns name)) \<and>
     (\<forall>j. Mapping.lookup (by_session (tab r')) j =
        (if j = session_id s
         then (if filter (\<lambda>n. n \<notin> D) names = [] then None else Some (filter (\<lambda>n. n \<notin> D) names))
         else Mapping.lookup (by_session (tab r)) j))"

lemma removes_names_entries:
  assumes inv: "reg_inv ss r" and s: "ss (session_id s) = Some s" and rem: "removes_names r s names D r'"
  shows "entries_ok ss r'"
  unfolding entries_ok_def
proof (intro allI impI)
  fix ns name h
  assume "lookup_held (tab r') ns name = Some h"
  then have h: "lookup_held (tab r) ns name = Some h" and out: "\<not> (ns = namespace s \<and> name \<in> D)"
    using rem by (auto simp: removes_names_def split: if_splits)
  from inv have "entries_ok ss r" by (simp add: reg_inv_def)
  from this h obtain s' l where s': "released h < next_notify r" "ss (owner h) = Some s'" "namespace s' = ns"
      "Mapping.lookup (by_session (tab r)) (owner h) = Some l" "name \<in> set l"
    by (rule entries_okD)
  have "\<exists>l. Mapping.lookup (by_session (tab r')) (owner h) = Some l \<and> name \<in> set l"
  proof (cases "owner h = session_id s")
    case True
    with s s' out have "name \<notin> D" by simp
    with True s' rem have "name \<in> set (filter (\<lambda>n. n \<notin> D) l)" "l = names"
      by (auto simp: removes_names_def)
    then show ?thesis using True rem by (auto simp: removes_names_def filter_empty_conv)
  next
    case False
    with s' rem show ?thesis by (simp add: removes_names_def)
  qed
  with s' rem show "released h < next_notify r' \<and> (\<exists>s l. ss (owner h) = Some s \<and> namespace s = ns \<and>
      Mapping.lookup (by_session (tab r')) (owner h) = Some l \<and> name \<in> set l)"
    by (auto simp: removes_names_def)
qed

lemma removes_names_index:
  assumes inv: "reg_inv ss r" and s: "ss (session_id s) = Some s" and rem: "removes_names r s names D r'"
  shows "index_ok ss r'"
  unfolding index_ok_def
proof (intro allI impI)
  fix j l
  assume l: "Mapping.lookup (by_session (tab r')) j = Some l"
  define l0 where "l0 = (if j = session_id s then names else l)"
  have sub: "distinct l0 \<longrightarrow> distinct l" "set l \<subseteq> set l0" "l \<noteq> [] \<or> l0 = []"
    and l0: "Mapping.lookup (by_session (tab r)) j = Some l0"
    and out: "j = session_id s \<Longrightarrow> set l \<inter> D = {}"
    using l rem by (auto simp: removes_names_def l0_def split: if_splits)
  from inv have "index_ok ss r" by (simp add: reg_inv_def)
  from this l0 obtain s' where s': "distinct l0" "l0 \<noteq> []" "ss j = Some s'"
      "\<forall>n \<in> set l0. \<exists>h. lookup_held (tab r) (namespace s') n = Some h \<and> owner h = j"
    by (rule index_okD)
  have "\<exists>h. lookup_held (tab r') (namespace s') n = Some h \<and> owner h = j" if n: "n \<in> set l" for n
  proof -
    from n sub s' obtain h where h: "lookup_held (tab r) (namespace s') n = Some h" "owner h = j" by blast
    have "\<not> (namespace s' = namespace s \<and> n \<in> D)"
    proof
      assume a: "namespace s' = namespace s \<and> n \<in> D"
      then have mem: "n \<in> set names" and names: "Mapping.lookup (by_session (tab r)) (session_id s) = Some names"
        using rem by (auto simp: removes_names_def)
      from owned_names [OF inv s names, of "namespace s" n] mem a h have "j = session_id s" by auto
      with out n a show False by auto
    qed
    with h rem show ?thesis by (auto simp: removes_names_def)
  qed
  with s' sub show "distinct l \<and> l \<noteq> [] \<and> (\<exists>s. ss j = Some s \<and>
      (\<forall>n\<in>set l. \<exists>h. lookup_held (tab r') (namespace s) n = Some h \<and> owner h = j))"
    by auto
qed

lemma removes_names_inv:
  assumes inv: "reg_inv ss r" and s: "ss (session_id s) = Some s" and rem: "removes_names r s names D r'"
  shows "reg_inv ss r'"
proof (rule reg_invI)
  show "sessions_ok ss r'" using inv rem by (simp add: reg_inv_def sessions_ok_def removes_names_def)
  show "notifies_ok r'"
    using inv rem unfolding reg_inv_def notifies_ok_def removes_names_def
    by (auto split: if_splits)
qed (use assms in \<open>auto intro: removes_names_entries removes_names_index\<close>)

lemma last_release_removes:
  assumes inv: "reg_inv ss r" and s: "ss (session_id s) = Some s" and last: "last_release r s name h"
  obtains names where "removes_names r s names {name} (snd (release r s name))"
proof -
  from last have h: "lookup_held (tab r) (namespace s) name = Some h" "owner h = session_id s"
    by (auto simp: last_release_def)
  moreover from inv have "entries_ok ss r" by (simp add: reg_inv_def)
  ultimately obtain names where names: "Mapping.lookup (by_session (tab r)) (session_id s) = Some names"
      "name \<in> set names"
    by (auto elim!: entries_okD)
  moreover have "removeAll name names = filter (\<lambda>n. n \<notin> {name}) names"
    by (auto simp: removeAll_filter_not_eq intro: filter_cong)
  ultimately have "removes_names r s names {name} (snd (release r s name))"
    by (auto simp: removes_names_def release_last [OF last])
  then show thesis by (rule that)
qed

lemma release_inv:
  assumes inv: "reg_inv ss r" and s: "ss (session_id s) = Some s"
  shows "reg_inv ss (snd (release r s name))"
proof (cases rule: release_cases [of r s name])
  case idle
  with inv show ?thesis by simp
next
  case (more h)
  then have "same_entries r (snd (release r s name))"
    by (auto simp: same_entries_def release_more)
  with inv show ?thesis by (rule reg_inv_same_entries)
next
  case (last h)
  with inv s show ?thesis by (blast elim: last_release_removes intro: removes_names_inv)
qed

lemma release_all_removes:
  assumes inv: "reg_inv ss r" and s: "ss (session_id s) = Some s"
    and names: "Mapping.lookup (by_session (tab r)) (session_id s) = Some names"
  shows "removes_names r s names (set names) (snd (release_all r s))"
    and "set (notified (snd (release_all r s))) = set (notified r) \<union>
      {released h |h name. lookup_held (tab r) (namespace s) name = Some h \<and> owner h = session_id s}"
    and "\<exists>more. notified (snd (release_all r s)) = notified r @ more \<and>
      set more = {released h |h name. lookup_held (tab r) (namespace s) name = Some h \<and> owner h = session_id s}"
    and "fst (release_all r s) =
      (\<Sum>name\<leftarrow>names. case lookup_held (tab r) (namespace s) name of None \<Rightarrow> 0 | Some h \<Rightarrow> ucast (count h))"
proof -
  from inv have idx: "index_ok ss r" by (simp add: reg_inv_def)
  from idx names s have held: "distinct names" "names \<noteq> []"
      "\<forall>name \<in> set names. \<exists>h. lookup_held (tab r) (namespace s) name = Some h \<and> owner h = session_id s"
    by (auto elim!: index_okD)
  then obtain m where m: "Mapping.lookup (locks (tab r)) (namespace s) = Some m"
    by (cases names) (auto simp: lookup_held_def split: option.splits)
  obtain m' n log where rel: "release_names names m 0 [] = (m', n, log)" by (cases "release_names names m 0 []") auto
  obtain v r' where res: "registry_release_all r (session_id s) (namespace s) = (v, r')" by fastforce
  note facts = release_all_some [OF names m rel res]
  have all: "release_all r s = (n, r')" using res facts(1) by (simp add: release_all_def)
  have look: "Mapping.lookup m name = lookup_held (tab r) (namespace s) name" for name
    by (rule lookup_held_table [OF m])
  show "removes_names r s names (set names) (snd (release_all r s))"
    by (auto simp: all removes_names_def names facts mapping_simps)
  have mem: "name \<in> set names \<longleftrightarrow> (\<exists>h. lookup_held (tab r) (namespace s) name = Some h \<and> owner h = session_id s)"
    for name using owned_names [OF inv s names, of "namespace s" name] by simp
  have log: "set log = {released h |h name. lookup_held (tab r) (namespace s) name = Some h \<and> owner h = session_id s}"
    by (auto simp: release_names_log [OF rel] look mem)
  then show "set (notified (snd (release_all r s))) = set (notified r) \<union>
      {released h |h name. lookup_held (tab r) (namespace s) name = Some h \<and> owner h = session_id s}"
    by (simp add: all facts(2))
  from log show "\<exists>more. notified (snd (release_all r s)) = notified r @ more \<and>
      set more = {released h |h name. lookup_held (tab r) (namespace s) name = Some h \<and> owner h = session_id s}"
    by (simp add: all facts(2))
  show "fst (release_all r s) =
      (\<Sum>name\<leftarrow>names. case lookup_held (tab r) (namespace s) name of None \<Rightarrow> 0 | Some h \<Rightarrow> ucast (count h))"
    using release_names_sum [OF rel held(1)] by (simp add: all look)
qed

lemma release_all_inv:
  assumes inv: "reg_inv ss r" and s: "ss (session_id s) = Some s"
  shows "reg_inv ss (snd (release_all r s))"
proof (cases "Mapping.lookup (by_session (tab r)) (session_id s)")
  case None
  with inv show ?thesis by (simp add: release_all_def release_all_none)
next
  case (Some names)
  with inv s show ?thesis by (blast intro: removes_names_inv release_all_removes(1))
qed

section \<open>Invariant of the interleaved system\<close>

text \<open>
  A registry evolves: entries keep their owner and notify, or their notify is signalled. This is
  what a waiting call relies on.
\<close>

definition evolves :: "registry \<Rightarrow> registry \<Rightarrow> bool" where
  "evolves r r' \<longleftrightarrow>
     next_notify r \<le> next_notify r' \<and> next_id r' = next_id r \<and>
     (\<exists>more. notified r' = notified r @ more \<and>
        (\<forall>ns name h. lookup_held (tab r) ns name = Some h \<longrightarrow>
           (\<exists>h'. lookup_held (tab r') ns name = Some h' \<and> released h' = released h \<and> owner h' = owner h)
           \<or> released h \<in> set more))"

lemma evolves_refl: "evolves r r"
  by (auto simp: evolves_def)

lemma evolves_try_acquire: "try_acquire r ns name i = (res, r') \<Longrightarrow> evolves r r'"
  by (auto simp: evolves_def try_acquire_frame try_acquire_lookup split: option.splits)

lemma evolves_release: "evolves r (snd (release r s name))"
  by (cases rule: release_cases [of r s name])
    (auto simp: evolves_def evolves_refl release_more release_last)

lemma evolves_release_all:
  assumes inv: "reg_inv ss r" and s: "ss (session_id s) = Some s"
  shows "evolves r (snd (release_all r s))"
proof (cases "Mapping.lookup (by_session (tab r)) (session_id s)")
  case None
  then show ?thesis by (simp add: release_all_def release_all_none evolves_refl)
next
  case (Some names)
  note rem = release_all_removes [OF inv s Some]
  from rem(3) obtain more where more: "notified (snd (release_all r s)) = notified r @ more"
      "set more = {released h |h name. lookup_held (tab r) (namespace s) name = Some h \<and> owner h = session_id s}"
    by blast
  have "\<exists>h'. lookup_held (tab (snd (release_all r s))) ns name = Some h' \<and> released h' = released h \<and> owner h' = owner h"
    if h: "lookup_held (tab r) ns name = Some h" and "released h \<notin> set more" for ns name h
  proof -
    from that more owned_names [OF inv s Some, of ns name] have "\<not> (ns = namespace s \<and> name \<in> set names)"
      by auto
    with rem(1) h show ?thesis by (auto simp: removes_names_def)
  qed
  moreover have "next_id (snd (release_all r s)) = next_id r" "next_notify (snd (release_all r s)) = next_notify r"
    using rem(1) by (simp_all add: removes_names_def)
  ultimately show ?thesis unfolding evolves_def using more(1) by (intro conjI exI [of _ more]) auto
qed

definition call_ok :: "registry \<Rightarrow> lock_session \<Rightarrow> acquire_call \<Rightarrow> bool" where
  "call_ok r s c \<longleftrightarrow>
     (case pc c of
        AcEnabled n k \<Rightarrow> k \<le> length (notified r)
      | AcWaiting n k \<Rightarrow> k \<le> length (notified r) \<and>
          (still_that_lock r s (call_name c) n \<or> n \<in> set (drop k (notified r)))
      | _ \<Rightarrow> True)"

lemma call_ok_evolves:
  assumes ev: "evolves r r'" and ok: "call_ok r s c"
  shows "call_ok r' s c"
proof -
  from ev obtain more where more: "notified r' = notified r @ more"
      "\<And>ns name h. lookup_held (tab r) ns name = Some h \<Longrightarrow>
         (\<exists>h'. lookup_held (tab r') ns name = Some h' \<and> released h' = released h \<and> owner h' = owner h)
         \<or> released h \<in> set more"
    unfolding evolves_def by blast
  have "still_that_lock r' s name n \<or> n \<in> set more" if "still_that_lock r s name n" for name n
  proof -
    from that obtain h where "lookup_held (tab r) (namespace s) name = Some h" "released h = n"
      by (auto simp: still_that_lock_def split: option.splits)
    with more(2) [OF this(1)] show ?thesis by (auto simp: still_that_lock_def)
  qed
  with ok show ?thesis
    by (cases "pc c") (auto simp: call_ok_def more(1))
qed

definition lock_inv :: "lock_sys \<Rightarrow> bool" where
  "lock_inv y \<longleftrightarrow>
     reg_inv (sessions y) (reg y) \<and>
     (\<forall>i c. calls y i = Some c \<longrightarrow> (\<exists>s. sessions y i = Some s \<and> call_ok (reg y) s c))"

lemma lock_inv_init: "lock_inv lock_sys_init"
  by (simp add: lock_inv_def lock_sys_init_def reg_inv_def sessions_ok_def entries_ok_def index_ok_def
      notifies_ok_def registry_new_def empty_inner_def lookup_held_def)

lemma lock_inv_session: "lock_inv y \<Longrightarrow> sessions y i = Some s \<Longrightarrow> session_id s = i"
  by (auto simp: lock_inv_def reg_inv_def sessions_ok_def)

text \<open>A step that only changes the registry, or one call, keeps the invariant.\<close>

lemma lock_inv_reg:
  assumes "lock_inv y" "reg_inv (sessions y) r'" "evolves (reg y) r'"
  shows "lock_inv (y\<lparr>reg := r'\<rparr>)"
  using assms unfolding lock_inv_def by (simp, blast intro: call_ok_evolves)

lemma lock_inv_call:
  assumes "lock_inv y" "sessions y i = Some s" "call_ok (reg y) s c"
  shows "lock_inv (y\<lparr>calls := (calls y)(i \<mapsto> c)\<rparr>)"
  using assms by (auto simp: lock_inv_def)

lemma acquire_step_ok:
  assumes inv: "reg_inv ss r" and s: "ss (session_id s) = Some s" and ok: "call_ok r s c"
    and eq: "acquire_step r s c = (c', r')"
  shows "reg_inv ss r' \<and> evolves r r' \<and> call_ok r' s c'"
proof (cases "pc c")
  case AcTry
  obtain res r1 where t: "try_acquire r (namespace s) (call_name c) (session_id s) = (res, r1)" by fastforce
  have "reg_inv ss r1" "evolves r r1" using try_acquire_inv [OF inv s t] evolves_try_acquire [OF t] by auto
  moreover have "r' = r1 \<and> call_ok r1 s c'"
    using eq AcTry t by (auto simp: acquire_step_def call_ok_def split: sum.splits if_splits)
  ultimately show ?thesis by simp
qed (use eq inv ok in \<open>auto simp: acquire_step_def call_ok_def evolves_refl split: if_splits\<close>)

lemma apply_now_ok:
  assumes inv: "reg_inv ss r" and s: "ss (session_id s) = Some s" and eq: "apply_now r s opr = Some (v, r')"
  shows "reg_inv ss r' \<and> evolves r r'"
proof (cases opr)
  case (Release name)
  with eq have "r' = snd (release r s name)" by (metis apply_now.simps(2) option.inject snd_conv)
  with inv s show ?thesis by (simp add: release_inv evolves_release)
next
  case ReleaseAll
  with eq have "r' = snd (release_all r s)" by (auto simp: Let_def split: prod.splits)
  with inv s show ?thesis by (auto intro: release_all_inv evolves_release_all)
qed (use eq inv in \<open>auto simp: evolves_refl\<close>)

lemma lock_inv_open:
  assumes inv: "lock_inv y" and fresh: "next_id (reg y) + 1 \<noteq> 0" and eq: "session (reg y) ns = (s, r')"
  shows "lock_inv (y\<lparr>reg := r', sessions := (sessions y)(session_id s \<mapsto> s)\<rparr>)"
proof -
  define i where "i = next_id (reg y) + 1"
  have s: "s = \<lparr>namespace = ns, session_id = i\<rparr>" and r': "r' = (reg y)\<lparr>next_id := i\<rparr>"
    using eq by (auto simp: session_def i_def)
  have less: "next_id (reg y) < i" using fresh unfolding i_def by (rule word_less_add_one)
  have old: "sessions_ok (sessions y) (reg y)" "entries_ok (sessions y) (reg y)"
      "index_ok (sessions y) (reg y)" "notifies_ok (reg y)"
    using inv by (auto simp: lock_inv_def reg_inv_def)
  have none: "sessions y i = None"
  proof (cases "sessions y i")
    case (Some t)
    with old(1) have "i \<le> next_id (reg y)" by (auto simp: sessions_ok_def)
    with less show ?thesis by simp
  qed
  define ss where "ss = (sessions y)(i \<mapsto> s)"
  have keep: "sessions y j = Some t \<Longrightarrow> ss j = Some t" for j t using none by (auto simp: ss_def)
  have "reg_inv ss r'"
  proof (rule reg_invI)
    have "j \<le> i" if "sessions y j = Some t" for j t
      using old(1) that less by (fastforce simp: sessions_ok_def)
    then show "sessions_ok ss r'" using old(1) fresh unfolding sessions_ok_def ss_def r' s
      by (auto simp: word_gt_0 i_def)
    show "entries_ok ss r'" using old(2) keep unfolding entries_ok_def r' by fastforce
    show "index_ok ss r'" using old(3) keep unfolding index_ok_def r' by fastforce
    show "notifies_ok r'" using old(4) by (simp add: notifies_ok_def r')
  qed
  moreover have "call_ok r' t c \<longleftrightarrow> call_ok (reg y) t c" for t c
    by (simp add: call_ok_def r' still_that_lock_def split: acquire_pc.split)
  moreover have "calls y i = None" using inv none unfolding lock_inv_def by (metis option.distinct(1) option.exhaust)
  ultimately show ?thesis using inv by (auto simp: lock_inv_def ss_def s)
qed

lemma lock_inv_close:
  assumes inv: "lock_inv y" and s: "sessions y i = Some s"
  shows "lock_inv (y\<lparr>reg := drop_session (reg y) s, sessions := (sessions y)(i := None),
      calls := (calls y)(i := None)\<rparr>)"
proof -
  let ?r = "snd (release_all (reg y) s)"
  have i: "session_id s = i" using lock_inv_session [OF inv s] .
  have old: "reg_inv (sessions y) (reg y)" using inv by (simp add: lock_inv_def)
  have r: "reg_inv (sessions y) ?r" "evolves (reg y) ?r"
    using old s i by (auto intro: release_all_inv evolves_release_all)
  have gone: "Mapping.lookup (by_session (tab ?r)) i = None"
  proof (cases "Mapping.lookup (by_session (tab (reg y))) i")
    case None
    then show ?thesis by (simp add: release_all_def i release_all_none)
  next
    case (Some names)
    with release_all_removes(1) [OF old, of s names] s i show ?thesis by (simp add: removes_names_def)
  qed
  have "reg_inv ((sessions y)(i := None)) ?r"
  proof (rule reg_invI)
    show "sessions_ok ((sessions y)(i := None)) ?r" using r(1) by (auto simp: reg_inv_def sessions_ok_def)
    show "entries_ok ((sessions y)(i := None)) ?r"
      using r(1) owns_nothing [OF r(1) gone] unfolding reg_inv_def entries_ok_def by (simp add: fun_upd_def)
    show "index_ok ((sessions y)(i := None)) ?r"
      using r(1) gone unfolding reg_inv_def index_ok_def by (auto simp: fun_upd_def)
    show "notifies_ok ?r" using r(1) by (simp add: reg_inv_def)
  qed
  with inv r(2) show ?thesis
    by (auto simp: lock_inv_def drop_session_def) (metis call_ok_evolves)
qed

lemma lock_inv_section:
  assumes inv: "lock_inv y" and s: "sessions y i = Some s" and c: "calls y i = Some c"
    and eq: "acquire_step (reg y) s c = (c', r')"
  shows "lock_inv (y\<lparr>reg := r', calls := (calls y)(i \<mapsto> c')\<rparr>)"
proof -
  have i: "session_id s = i" using lock_inv_session [OF inv s] .
  have "call_ok (reg y) s c" "reg_inv (sessions y) (reg y)"
    using inv s c unfolding lock_inv_def by fastforce+
  then have "reg_inv (sessions y) r' \<and> evolves (reg y) r' \<and> call_ok r' s c'"
    using acquire_step_ok eq i s by blast
  then show ?thesis
    using lock_inv_call [OF lock_inv_reg, of y r' i s c'] inv s by simp
qed

lemma lock_inv_step:
  assumes inv: "lock_inv y" and step: "lock_step y e z"
  shows "lock_inv z"
  using step
proof cases
  case (open_session ns s r')
  with inv show ?thesis by (simp add: lock_inv_open)
next
  case (get_call i s name timeout now)
  moreover have "call_ok (reg y) s (acquire_begin now name timeout)"
    by (simp add: call_ok_def acquire_begin_def)
  ultimately show ?thesis using inv by (simp add: lock_inv_call)
next
  case (section_of i s c c' r')
  with inv show ?thesis by (simp add: lock_inv_section)
next
  case (wake i c)
  with inv obtain s where "sessions y i = Some s" by (auto simp: lock_inv_def)
  with inv wake show ?thesis by (auto intro!: lock_inv_call simp: call_ok_def)
next
  case (expire i c now)
  with inv obtain s where "sessions y i = Some s" by (auto simp: lock_inv_def)
  with inv expire show ?thesis by (auto intro!: lock_inv_call simp: call_ok_def)
next
  case (return_call i c v)
  with inv show ?thesis by (auto simp: lock_inv_def)
next
  case (other_op i s opr v r')
  with inv have "reg_inv (sessions y) r' \<and> evolves (reg y) r'"
    by (metis apply_now_ok lock_inv_def lock_inv_session)
  with inv other_op show ?thesis by (simp add: lock_inv_reg)
next
  case (close_session i s)
  with inv show ?thesis by (simp add: lock_inv_close)
qed

interpretation user_locks: lts_invariant lock_step "\<lambda>y. y = lock_sys_init" lock_inv
  by unfold_locales (auto intro: lock_inv_init lock_inv_step)

lemma lock_run_inv: "lts_run lock_step lock_sys_init es y \<Longrightarrow> lock_inv y"
  by (rule user_locks.inv_run) auto

lemma lock_run_reg_inv:
  assumes "lts_run lock_step lock_sys_init es y"
  shows "reg_inv (sessions y) (reg y)"
  using lock_run_inv [OF assms] by (simp add: lock_inv_def)

section \<open>The abstract lock table\<close>

text \<open>
  What the registry promises, without indexes, notifies or per-namespace tables: a partial map
  from (namespace, name) to the owning session and its acquisition count.
\<close>

type_synonym lock_table = "string \<times> string \<Rightarrow> (u64 \<times> u32) option"

definition abs_locks :: "registry \<Rightarrow> lock_table" where
  "abs_locks r = (\<lambda>(ns, name). map_option (\<lambda>h. (owner h, count h)) (lookup_held (tab r) ns name))"

definition spec_get :: "lock_table \<Rightarrow> string \<times> string \<Rightarrow> u64 \<Rightarrow> bool \<times> lock_table" where
  "spec_get M k i =
     (case M k of
        None \<Rightarrow> (True, M(k \<mapsto> (i, 1)))
      | Some (j, c) \<Rightarrow> if j = i then (True, M(k \<mapsto> (j, c + 1))) else (False, M))"

definition spec_release :: "lock_table \<Rightarrow> string \<times> string \<Rightarrow> u64 \<Rightarrow> user_lock_reply \<times> lock_table" where
  "spec_release M k i =
     (case M k of
        None \<Rightarrow> (None, M)
      | Some (j, c) \<Rightarrow>
          if j \<noteq> i then (Some 0, M)
          else (Some 1, if c = 1 then M(k := None) else M(k \<mapsto> (j, c - 1))))"

definition owned_by :: "lock_table \<Rightarrow> u64 \<Rightarrow> (string \<times> string) set" where
  "owned_by M i = {k. \<exists>c. M k = Some (i, c)}"

definition spec_release_all :: "lock_table \<Rightarrow> u64 \<Rightarrow> u64 \<times> lock_table" where
  "spec_release_all M i =
     (\<Sum>k \<in> owned_by M i. ucast (snd (the (M k))), M |` (- owned_by M i))"

lemma abs_try_acquire:
  assumes eq: "try_acquire r ns name i = (res, r')"
  shows "(res = Inr (), abs_locks r') = spec_get (abs_locks r) (ns, name) i"
  by (auto simp: spec_get_def abs_locks_def try_acquire_result [OF eq] try_acquire_lookup [OF eq]
      fun_eq_iff split: option.splits)

lemma abs_release:
  "(fst (release r s name), abs_locks (snd (release r s name))) =
     spec_release (abs_locks r) (namespace s, name) (session_id s)"
  by (cases rule: release_cases [of r s name])
    (auto simp: release_result spec_release_def abs_locks_def release_more release_last fun_eq_iff
      split: option.split)

lemma owned_by_abs:
  "owned_by (abs_locks r) i = {(ns, name). \<exists>h. lookup_held (tab r) ns name = Some h \<and> owner h = i}"
  by (auto simp: owned_by_def abs_locks_def)

lemma owned_by_names:
  assumes inv: "reg_inv ss r" and s: "ss (session_id s) = Some s"
  shows "owned_by (abs_locks r) (session_id s) =
    Pair (namespace s) ` set (case Mapping.lookup (by_session (tab r)) (session_id s) of
                                None \<Rightarrow> [] | Some names \<Rightarrow> names)"
proof (cases "Mapping.lookup (by_session (tab r)) (session_id s)")
  case None
  with owns_nothing [OF inv None] show ?thesis by (auto simp: owned_by_abs)
next
  case (Some names)
  with owned_names [OF inv s Some] show ?thesis by (auto simp: owned_by_abs)
qed

lemma abs_release_all:
  assumes inv: "reg_inv ss r" and s: "ss (session_id s) = Some s"
  shows "(fst (release_all r s), abs_locks (snd (release_all r s))) =
    spec_release_all (abs_locks r) (session_id s)"
proof (cases "Mapping.lookup (by_session (tab r)) (session_id s)")
  case None
  with owned_by_names [OF inv s] show ?thesis
    by (simp add: release_all_def release_all_none spec_release_all_def restrict_map_def)
next
  case (Some names)
  note rem = release_all_removes [OF inv s Some]
  have owned: "owned_by (abs_locks r) (session_id s) = Pair (namespace s) ` set names"
    using owned_by_names [OF inv s] Some by simp
  have d: "distinct names" using inv Some by (auto simp: reg_inv_def elim: index_okD)
  have "fst (release_all r s) = (\<Sum>name \<in> set names. ucast (snd (the (abs_locks r (namespace s, name)))))"
    unfolding rem(4) sum_list_distinct_conv_sum_set [OF d]
  proof (intro sum.cong refl)
    fix x
    assume "x \<in> set names"
    with owned_names [OF inv s Some, of "namespace s" x]
    obtain h where "lookup_held (tab r) (namespace s) x = Some h" by auto
    then show "(case lookup_held (tab r) (namespace s) x of None \<Rightarrow> 0 | Some h \<Rightarrow> ucast (count h)) =
        (ucast (snd (the (abs_locks r (namespace s, x)))) :: u64)"
      by (simp add: abs_locks_def)
  qed
  then have "fst (release_all r s) = (\<Sum>k \<in> owned_by (abs_locks r) (session_id s). ucast (snd (the (abs_locks r k))))"
    by (simp add: owned sum.reindex inj_on_def)
  moreover have "abs_locks (snd (release_all r s)) = abs_locks r |` (- owned_by (abs_locks r) (session_id s))"
    unfolding owned using rem(1)
    by (auto simp: removes_names_def abs_locks_def restrict_map_def fun_eq_iff)
  ultimately show ?thesis by (simp add: spec_release_all_def)
qed

section \<open>Who may change an entry\<close>

text \<open>
  An operation of session \<open>j\<close> in namespace \<open>ns\<close>: the entries of the other sessions and the
  entries of other namespaces are left as they are.
\<close>

definition local_change :: "u64 \<Rightarrow> string \<Rightarrow> registry \<Rightarrow> registry \<Rightarrow> bool" where
  "local_change j ns r r' \<longleftrightarrow>
     (\<forall>ns' name h. lookup_held (tab r) ns' name = Some h \<longrightarrow> owner h \<noteq> j \<longrightarrow>
        lookup_held (tab r') ns' name = Some h) \<and>
     (\<forall>ns' name. ns' \<noteq> ns \<longrightarrow> lookup_held (tab r') ns' name = lookup_held (tab r) ns' name)"

lemma local_change_refl [simp]: "local_change j ns r r"
  by (auto simp: local_change_def)

lemma try_acquire_local:
  assumes "try_acquire r ns name j = (res, r')"
  shows "local_change j ns r r'"
  by (auto simp: local_change_def try_acquire_lookup [OF assms])

lemma release_local: "local_change (session_id s) (namespace s) r (snd (release r s name))"
  by (cases rule: release_cases [of r s name])
    (auto simp: local_change_def release_more release_last)

lemma release_all_local:
  assumes inv: "reg_inv ss r" and s: "ss (session_id s) = Some s"
  shows "local_change (session_id s) (namespace s) r (snd (release_all r s))"
proof (cases "Mapping.lookup (by_session (tab r)) (session_id s)")
  case None
  then show ?thesis by (simp add: release_all_def release_all_none)
next
  case (Some names)
  note rem = release_all_removes(1) [OF inv s Some]
  have "lookup_held (tab (snd (release_all r s))) ns name = Some h"
    if "lookup_held (tab r) ns name = Some h" "owner h \<noteq> session_id s" for ns name h
    using that rem owned_names [OF inv s Some, of ns name] by (auto simp: removes_names_def)
  with rem show ?thesis by (auto simp: local_change_def removes_names_def)
qed

lemma acquire_step_local:
  assumes "acquire_step r s c = (c', r')"
  shows "local_change (session_id s) (namespace s) r r'"
  using assms
  by (auto simp: acquire_step_def split: acquire_pc.splits prod.splits sum.splits if_splits
      intro: try_acquire_local)

lemma apply_now_local:
  assumes inv: "reg_inv ss r" and s: "ss (session_id s) = Some s" and eq: "apply_now r s opr = Some (v, r')"
  shows "local_change (session_id s) (namespace s) r r'"
proof (cases opr)
  case (Release name)
  with eq have "r' = snd (release r s name)" by (metis apply_now.simps(2) option.inject snd_conv)
  then show ?thesis by (simp add: release_local)
next
  case ReleaseAll
  with eq have "r' = snd (release_all r s)" by (auto simp: Let_def split: prod.splits)
  with inv s show ?thesis by (simp add: release_all_local)
qed (use eq in auto)

text \<open>The session whose code an event runs.\<close>

fun actor :: "lock_event \<Rightarrow> u64 option" where
  "actor (EOpen ns) = None"
| "actor (EGet i name timeout now) = Some i"
| "actor (ESection i) = Some i"
| "actor (EWake i) = Some i"
| "actor (EExpire i now) = Some i"
| "actor (EReturn i v) = Some i"
| "actor (EOp i opr v) = Some i"
| "actor (EClose i) = Some i"

lemma lock_step_local:
  assumes inv: "lock_inv y" and step: "lock_step y e z" and i: "actor e = Some i"
    and s: "sessions y i = Some s"
  shows "local_change i (namespace s) (reg y) (reg z)"
proof -
  have id: "session_id s = i" using lock_inv_session [OF inv s] .
  have old: "reg_inv (sessions y) (reg y)" using inv by (simp add: lock_inv_def)
  from step show ?thesis
  proof cases
    case (section_of j t c c' r')
    with i s id show ?thesis by (auto dest: acquire_step_local)
  next
    case (other_op j t opr v r')
    with i s have "t = s" "j = i" by auto
    with other_op s id show ?thesis using apply_now_local [OF old, of s opr v r'] by simp
  next
    case (close_session j t)
    with i s have "t = s" "j = i" by auto
    with close_session s id show ?thesis using release_all_local [OF old, of s] by (simp add: drop_session_def)
  qed (use i in auto)
qed

section \<open>What a finished GET_LOCK means\<close>

definition holds_lock :: "registry \<Rightarrow> lock_session \<Rightarrow> string \<Rightarrow> bool" where
  "holds_lock r s name \<longleftrightarrow> holder_of r s name = Some (session_id s)"

definition reply_ok :: "registry \<Rightarrow> lock_session \<Rightarrow> acquire_call \<Rightarrow> bool" where
  "reply_ok r s c \<longleftrightarrow>
     (deadline c \<noteq> None \<longrightarrow> call_timeout c \<noteq> Forever) \<and>
     (\<forall>v. pc c = AcDone v \<longrightarrow>
        (v = Some 1 \<and> holds_lock r s (call_name c)) \<or> (v = Some 0 \<and> call_timeout c \<noteq> Forever))"

definition replies_ok :: "lock_sys \<Rightarrow> bool" where
  "replies_ok y \<longleftrightarrow>
     (\<forall>i c s. calls y i = Some c \<longrightarrow> sessions y i = Some s \<longrightarrow> reply_ok (reg y) s c)"

lemma holds_lock_local:
  assumes "local_change j ns r r'" "j \<noteq> session_id s" "holds_lock r s name"
  shows "holds_lock r' s name"
  using assms by (auto simp: holds_lock_def holder_of_def local_change_def)

lemma reply_ok_local:
  "local_change j ns r r' \<Longrightarrow> j \<noteq> session_id s \<Longrightarrow> reply_ok r s c \<Longrightarrow> reply_ok r' s c"
  by (auto simp: reply_ok_def intro: holds_lock_local)

lemma acquire_step_reply:
  assumes "acquire_step r s c = (c', r')" "reply_ok r s c"
  shows "reply_ok r' s c'"
proof (cases "pc c")
  case AcTry
  obtain res r1 where t: "try_acquire r (namespace s) (call_name c) (session_id s) = (res, r1)" by fastforce
  have "res = Inr () \<Longrightarrow> holds_lock r1 s (call_name c)"
    by (auto simp: holds_lock_def holder_of_def try_acquire_result [OF t] try_acquire_lookup [OF t]
        split: option.splits if_splits)
  with assms AcTry t show ?thesis
    by (auto simp: acquire_step_def reply_ok_def split: sum.splits if_splits)
qed (use assms in \<open>auto simp: acquire_step_def reply_ok_def split: if_splits\<close>)

lemma replies_okD: "replies_ok y \<Longrightarrow> calls y i = Some c \<Longrightarrow> sessions y i = Some s \<Longrightarrow> reply_ok (reg y) s c"
  by (simp add: replies_ok_def)

lemma reply_ok_others:
  assumes inv: "lock_inv y" and ok: "replies_ok y" and step: "lock_step y e z"
    and e: "actor e = Some j" "sessions y j = Some u"
    and k: "k \<noteq> j" "sessions y k = Some t" "calls y k = Some d"
  shows "reply_ok (reg z) t d"
proof (rule reply_ok_local)
  show "local_change j (namespace u) (reg y) (reg z)" using lock_step_local [OF inv step e] .
  show "j \<noteq> session_id t" using lock_inv_session [OF inv k(2)] k(1) by simp
  show "reply_ok (reg y) t d" using replies_okD [OF ok k(3,2)] .
qed

text \<open>A new session's id belongs to no live session, so it has no call under way.\<close>

lemma open_no_call:
  assumes inv: "lock_inv y" and fresh: "next_id (reg y) + 1 \<noteq> 0" and eq: "session (reg y) ns = (s, r')"
  shows "calls y (session_id s) = None"
proof (rule ccontr)
  assume "calls y (session_id s) \<noteq> None"
  then obtain u where "sessions y (session_id s) = Some u" using inv by (auto simp: lock_inv_def)
  with inv have "session_id s \<le> next_id (reg y)" by (auto simp: lock_inv_def reg_inv_def sessions_ok_def)
  moreover have "session_id s = next_id (reg y) + 1" using eq by (auto simp: session_def)
  ultimately show False using word_less_add_one [OF fresh] by simp
qed

lemma replies_ok_step:
  assumes inv: "lock_inv y" and ok: "replies_ok y" and step: "lock_step y e z"
  shows "replies_ok z"
  unfolding replies_ok_def
proof (intro allI impI)
  fix i c s
  assume c: "calls z i = Some c" and s: "sessions z i = Some s"
  note others = reply_ok_others [OF inv ok step]
  from step show "reply_ok (reg z) s c"
  proof cases
    case (open_session ns t r')
    with c s open_no_call [OF inv open_session(3,4)] have "calls y i = Some c" "sessions y i = Some s"
      by (auto split: if_splits)
    with replies_okD [OF ok] have "reply_ok (reg y) s c" by blast
    moreover have "tab (reg z) = tab (reg y)" using open_session by (auto simp: session_def)
    ultimately show ?thesis by (simp add: reply_ok_def holds_lock_def holder_of_def)
  next
    case (get_call j t name timeout now)
    with c s ok show ?thesis
      by (auto simp: replies_ok_def reply_ok_def acquire_begin_def split: if_splits lock_timeout.splits)
  next
    case (section_of j t d d' r')
    with c s ok others [of j t i s c] show ?thesis
      by (cases "i = j") (auto dest: replies_okD intro: acquire_step_reply)
  next
    case (wake j d)
    with c s ok show ?thesis by (auto simp: replies_ok_def reply_ok_def split: if_splits)
  next
    case (expire j d now)
    then have "deadline d \<noteq> None" by (auto simp: expired_def split: acquire_pc.splits option.splits)
    with expire c s ok show ?thesis by (auto simp: replies_ok_def reply_ok_def split: if_splits)
  next
    case (return_call j d v)
    with c s ok show ?thesis by (auto simp: replies_ok_def split: if_splits)
  next
    case (other_op j t opr v r')
    with c s others [of j t i s c] show ?thesis by (cases "i = j") auto
  next
    case (close_session j t)
    with c s others [of j t i s c] show ?thesis by (auto split: if_splits)
  qed
qed

interpretation lock_replies: lts_invariant lock_step "\<lambda>y. y = lock_sys_init" "\<lambda>y. lock_inv y \<and> replies_ok y"
  by unfold_locales (auto intro: lock_inv_init lock_inv_step replies_ok_step,
      simp add: replies_ok_def lock_sys_init_def)

section \<open>Executing a schedule\<close>

text \<open>\<open>lock_step\<close> as a function of the event: \<open>None\<close> where no rule applies.\<close>

fun lock_exec :: "lock_sys \<Rightarrow> lock_event \<Rightarrow> lock_sys option" where
  "lock_exec y (EOpen ns) =
     (if next_id (reg y) + 1 = 0 then None
      else case session (reg y) ns of
        (s, r') \<Rightarrow> Some (y\<lparr>reg := r', sessions := (sessions y)(session_id s \<mapsto> s)\<rparr>))"
| "lock_exec y (EGet i name timeout now) =
     (case (sessions y i, calls y i) of
        (Some s, None) \<Rightarrow> Some (y\<lparr>calls := (calls y)(i \<mapsto> acquire_begin now name timeout)\<rparr>)
      | _ \<Rightarrow> None)"
| "lock_exec y (ESection i) =
     (case (sessions y i, calls y i) of
        (Some s, Some c) \<Rightarrow>
          (case acquire_step (reg y) s c of
             (c', r') \<Rightarrow> Some (y\<lparr>reg := r', calls := (calls y)(i \<mapsto> c')\<rparr>))
      | _ \<Rightarrow> None)"
| "lock_exec y (EWake i) =
     (case calls y i of
        Some c \<Rightarrow> if woken (reg y) c then Some (y\<lparr>calls := (calls y)(i \<mapsto> c\<lparr>pc := AcTry\<rparr>)\<rparr>) else None
      | None \<Rightarrow> None)"
| "lock_exec y (EExpire i now) =
     (case calls y i of
        Some c \<Rightarrow> if expired c now then Some (y\<lparr>calls := (calls y)(i \<mapsto> c\<lparr>pc := AcDone (Some 0)\<rparr>)\<rparr>) else None
      | None \<Rightarrow> None)"
| "lock_exec y (EReturn i v) =
     (case calls y i of
        Some c \<Rightarrow> if pc c = AcDone v then Some (y\<lparr>calls := (calls y)(i := None)\<rparr>) else None
      | None \<Rightarrow> None)"
| "lock_exec y (EOp i opr v) =
     (case (sessions y i, calls y i) of
        (Some s, None) \<Rightarrow>
          (case apply_now (reg y) s opr of
             Some (w, r') \<Rightarrow> if w = v then Some (y\<lparr>reg := r'\<rparr>) else None
           | None \<Rightarrow> None)
      | _ \<Rightarrow> None)"
| "lock_exec y (EClose i) =
     (case sessions y i of
        Some s \<Rightarrow> Some (y\<lparr>reg := drop_session (reg y) s, sessions := (sessions y)(i := None),
                          calls := (calls y)(i := None)\<rparr>)
      | None \<Rightarrow> None)"

lemma lock_exec_sound: "lock_exec y e = Some z \<Longrightarrow> lock_step y e z"
  by (cases e) (auto split: if_splits option.splits prod.splits intro: lock_step.intros)

interpretation lock_machine: executable_lts lock_exec lock_step
  by unfold_locales (rule lock_exec_sound)

text \<open>
  A schedule for the witnesses: two sessions of one namespace, the first takes a lock, the
  second waits for it without a timeout.
\<close>

definition demo_events :: "lock_event list" where
  "demo_events =
     [EOpen ''shop'', EOpen ''shop'', EGet 1 ''job'' Immediate 0, ESection 1, EReturn 1 (Some 1),
      EGet 2 ''job'' Forever 0, ESection 2, ESection 2, ESection 2]"

definition demo_sys :: lock_sys where
  "demo_sys = the (exec_all lock_exec lock_sys_init demo_events)"

lemma demo_exec: "exec_all lock_exec lock_sys_init demo_events \<noteq> None"
  by code_simp

lemma demo_run: "lts_run lock_step lock_sys_init demo_events demo_sys"
  unfolding demo_sys_def by (rule lock_machine.exec_all_run [OF demo_exec])

lemma demo_sessions:
  "sessions demo_sys 1 = Some \<lparr>namespace = ''shop'', session_id = 1\<rparr>"
  "sessions demo_sys 2 = Some \<lparr>namespace = ''shop'', session_id = 2\<rparr>"
  by code_simp+

lemma demo_calls:
  "calls demo_sys 2 = Some \<lparr>call_name = ''job'', call_timeout = Forever, deadline = None, pc = AcWaiting 0 0\<rparr>"
  by code_simp

section \<open>Closing a session, waiting on a lock\<close>

lemma release_all_lookup:
  assumes inv: "reg_inv ss r" and s: "ss (session_id s) = Some s"
  shows "lookup_held (tab (snd (release_all r s))) ns name =
    (case lookup_held (tab r) ns name of
       None \<Rightarrow> None | Some h \<Rightarrow> if owner h = session_id s then None else Some h)"
proof (cases "Mapping.lookup (by_session (tab r)) (session_id s)")
  case None
  with owns_nothing [OF inv None] show ?thesis
    by (auto simp: release_all_def release_all_none split: option.split)
next
  case (Some names)
  with release_all_removes(1) [OF inv s Some] owned_names [OF inv s Some, of ns name] show ?thesis
    by (auto simp: removes_names_def split: option.split)
qed

lemma close_lookup:
  assumes inv: "lock_inv y" and step: "lock_step y (EClose i) z"
  shows "lookup_held (tab (reg z)) ns name =
    (case lookup_held (tab (reg y)) ns name of
       None \<Rightarrow> None | Some h \<Rightarrow> if owner h = i then None else Some h)"
  using step
proof cases
  case (close_session s)
  moreover have "session_id s = i" using lock_inv_session [OF inv] close_session by blast
  moreover have "reg_inv (sessions y) (reg y)" using inv by (simp add: lock_inv_def)
  ultimately show ?thesis using release_all_lookup [of "sessions y" "reg y" s ns name]
    by (auto simp: drop_session_def split: option.split)
qed

lemma waiting_call:
  assumes inv: "lock_inv y" and c: "calls y i = Some c" "pc c = AcWaiting n k" and asleep: "\<not> woken (reg y) c"
  obtains s h t where "sessions y i = Some s"
    "lookup_held (tab (reg y)) (namespace s) (call_name c) = Some h" "released h = n"
    "sessions y (owner h) = Some t" "namespace t = namespace s"
proof -
  from inv c(1) obtain s where s: "sessions y i = Some s" "call_ok (reg y) s c"
    by (auto simp: lock_inv_def)
  with c(2) asleep obtain h where
    h: "lookup_held (tab (reg y)) (namespace s) (call_name c) = Some h" "released h = n"
    by (auto simp: call_ok_def woken_def still_that_lock_def split: option.splits)
  moreover have "entries_ok (sessions y) (reg y)" using inv by (simp add: lock_inv_def reg_inv_def)
  ultimately show thesis using s(1) that by (blast elim: entries_okD)
qed

section \<open>Properties\<close>

text \<open>
  Property C2 (refinement). In every state any interleaving of sessions can reach, taking,
  releasing and releasing-all on the indexed registry answer and change the table exactly as the
  abstract lock table prescribes: a name is granted if free or already ours (the count goes up),
  \<^verbatim>\<open>RELEASE_LOCK\<close> answers 1, 0 or NULL and drops the entry with its last count, and
  \<^verbatim>\<open>RELEASE_ALL_LOCKS\<close> drops everything the session owns and returns the acquisitions released.
\<close>

theorem registry_refines_table:
  assumes "lts_run lock_step lock_sys_init es y" and "sessions y i = Some s"
  shows "(case try_acquire (reg y) (namespace s) name i of (res, r') \<Rightarrow> (res = Inr (), abs_locks r'))
           = spec_get (abs_locks (reg y)) (namespace s, name) i
       \<and> (case release (reg y) s name of (v, r') \<Rightarrow> (v, abs_locks r'))
           = spec_release (abs_locks (reg y)) (namespace s, name) i
       \<and> (case release_all (reg y) s of (n, r') \<Rightarrow> (n, abs_locks r'))
           = spec_release_all (abs_locks (reg y)) i"
proof -
  have i: "session_id s = i" using lock_inv_session [OF lock_run_inv] assms by blast
  have "(case try_acquire (reg y) (namespace s) name i of (res, r') \<Rightarrow> (res = Inr (), abs_locks r'))
      = spec_get (abs_locks (reg y)) (namespace s, name) i"
    using abs_try_acquire by (auto split: prod.split)
  moreover have "(case release_all (reg y) s of (n, r') \<Rightarrow> (n, abs_locks r'))
      = spec_release_all (abs_locks (reg y)) i"
    using abs_release_all [OF lock_run_reg_inv [OF assms(1)]] assms(2) i by (simp add: case_prod_beta)
  ultimately show ?thesis using abs_release [of "reg y" s name] i by (simp add: case_prod_beta)
qed

theorem registry_refines_table_witness:
  "lts_run lock_step lock_sys_init demo_events demo_sys \<and>
   sessions demo_sys 1 = Some \<lparr>namespace = ''shop'', session_id = 1\<rparr> \<and>
   (case release (reg demo_sys) \<lparr>namespace = ''shop'', session_id = 1\<rparr> ''job'' of (v, r') \<Rightarrow> (v, abs_locks r'))
     = spec_release (abs_locks (reg demo_sys)) (''shop'', ''job'') 1"
  using registry_refines_table [OF demo_run demo_sessions(1), of "''job''"] demo_run demo_sessions(1)
  by simp

text \<open>
  Property C3 (no lost wakeup). A call parked in \<^verbatim>\<open>GET_LOCK\<close> either has its wakeup pending, or
  the name is still held, under the very notify the call waits on, by a session that is alive in
  the same namespace: no call waits for a lock that is gone or for a session that is gone.
\<close>

theorem no_lost_wakeup:
  assumes "lts_run lock_step lock_sys_init es y" and "calls y i = Some c" and "pc c = AcWaiting n k"
  shows "woken (reg y) c \<or>
    (\<exists>s h t. sessions y i = Some s \<and>
       lookup_held (tab (reg y)) (namespace s) (call_name c) = Some h \<and> released h = n \<and>
       sessions y (owner h) = Some t \<and> namespace t = namespace s)"
  using waiting_call [OF lock_run_inv [OF assms(1)] assms(2,3)] by blast

theorem no_lost_wakeup_witness:
  "lts_run lock_step lock_sys_init demo_events demo_sys \<and>
   (\<exists>c. calls demo_sys 2 = Some c \<and> pc c = AcWaiting 0 0 \<and>
     (woken (reg demo_sys) c \<or>
      (\<exists>s h t. sessions demo_sys 2 = Some s \<and>
         lookup_held (tab (reg demo_sys)) (namespace s) (call_name c) = Some h \<and> released h = 0 \<and>
         sessions demo_sys (owner h) = Some t \<and> namespace t = namespace s)))"
  using no_lost_wakeup [OF demo_run demo_calls] demo_run demo_calls by simp

text \<open>
  Fact (locks end with their session). However a session ends, afterwards its entries are
  gone, every entry of every other session is untouched, and every call that was parked on one
  of its locks has its wakeup pending.
\<close>

theorem close_frees_locks:
  assumes "lts_run lock_step lock_sys_init es y" and "lock_step y (EClose i) z"
  shows "(\<forall>ns name. lookup_held (tab (reg z)) ns name =
            (case lookup_held (tab (reg y)) ns name of
               None \<Rightarrow> None | Some h \<Rightarrow> if owner h = i then None else Some h))
       \<and> (\<forall>j c n k s h. calls z j = Some c \<longrightarrow> pc c = AcWaiting n k \<longrightarrow> sessions z j = Some s \<longrightarrow>
            lookup_held (tab (reg y)) (namespace s) (call_name c) = Some h \<longrightarrow> owner h = i \<longrightarrow>
            woken (reg z) c)"
proof (intro conjI allI impI)
  have inv: "lock_inv y" "lock_inv z"
    by (rule lock_run_inv [OF assms(1)], rule lock_run_inv [OF lts_run_snoc [OF assms]])
  note look = close_lookup [OF inv(1) assms(2)]
  show "lookup_held (tab (reg z)) ns name =
      (case lookup_held (tab (reg y)) ns name of None \<Rightarrow> None | Some h \<Rightarrow> if owner h = i then None else Some h)"
    for ns name by (rule look)
  fix j c n k s h
  assume c: "calls z j = Some c" "pc c = AcWaiting n k" and s: "sessions z j = Some s"
    and h: "lookup_held (tab (reg y)) (namespace s) (call_name c) = Some h" "owner h = i"
  show "woken (reg z) c"
  proof (rule ccontr)
    assume "\<not> woken (reg z) c"
    then obtain s' h' t where w: "sessions z j = Some s'"
        "lookup_held (tab (reg z)) (namespace s') (call_name c) = Some h'" "released h' = n"
        "sessions z (owner h') = Some t" "namespace t = namespace s'"
      by (rule waiting_call [OF inv(2) c])
    from s h w(1,2) show False by (simp add: look)
  qed
qed

theorem close_frees_locks_witness:
  "lts_run lock_step lock_sys_init demo_events demo_sys \<and>
   (\<exists>z c. lock_step demo_sys (EClose 1) z \<and> calls z 2 = Some c \<and> woken (reg z) c)"
proof -
  obtain z where z: "lock_exec demo_sys (EClose 1) = Some z" "calls z 2 = calls demo_sys 2"
      "sessions z 2 = sessions demo_sys 2"
    using demo_sessions by auto
  have h: "lookup_held (tab (reg demo_sys)) ''shop'' ''job'' = Some \<lparr>owner = 1, count = 1, released = 0\<rparr>"
    by code_simp
  from close_frees_locks [OF demo_run lock_exec_sound [OF z(1)]] z demo_calls demo_sessions h
  have "woken (reg z) (the (calls z 2))" by fastforce
  with z demo_calls demo_run lock_exec_sound [OF z(1)] show ?thesis by fastforce
qed

text \<open>
  Fact (tenants do not see each other's locks). A step of a session changes no entry of
  another namespace and no entry another session owns.
\<close>

theorem namespace_isolation:
  assumes "lts_run lock_step lock_sys_init es y" and "lock_step y e z"
    and "actor e = Some i" and "sessions y i = Some s"
  shows "(\<forall>ns name. ns \<noteq> namespace s \<longrightarrow> lookup_held (tab (reg z)) ns name = lookup_held (tab (reg y)) ns name)
       \<and> (\<forall>ns name h. lookup_held (tab (reg y)) ns name = Some h \<longrightarrow> owner h \<noteq> i \<longrightarrow>
            lookup_held (tab (reg z)) ns name = Some h)"
  using lock_step_local [OF lock_run_inv [OF assms(1)] assms(2-4)] by (auto simp: local_change_def)

theorem namespace_isolation_witness:
  "lts_run lock_step lock_sys_init demo_events demo_sys \<and>
   (\<exists>z. lock_step demo_sys (EClose 1) z \<and>
      lookup_held (tab (reg z)) ''blog'' ''job'' = lookup_held (tab (reg demo_sys)) ''blog'' ''job'')"
proof -
  obtain z where z: "lock_exec demo_sys (EClose 1) = Some z" using demo_sessions by auto
  with namespace_isolation [OF demo_run lock_exec_sound [OF z] _ demo_sessions(1)]
  show ?thesis using demo_run lock_exec_sound [OF z] by auto
qed

text \<open>
  Fact (a GET_LOCK reply is true). When a \<^verbatim>\<open>GET_LOCK\<close> call has its answer, the answer is 1
  and the session owns the name at that moment, or it is 0 and the call had a finite timeout.
\<close>

theorem get_lock_reply_true:
  assumes "lts_run lock_step lock_sys_init es y" and "calls y i = Some c" and "pc c = AcDone v"
  shows "\<exists>s. sessions y i = Some s \<and>
    ((v = Some 1 \<and> holder_of (reg y) s (call_name c) = Some i) \<or>
     (v = Some 0 \<and> call_timeout c \<noteq> Forever))"
proof -
  have inv: "lock_inv y" "replies_ok y" using lock_replies.inv_run [OF _ assms(1)] by auto
  then obtain s where s: "sessions y i = Some s" using assms(2) by (auto simp: lock_inv_def)
  with replies_okD [OF inv(2) assms(2)] lock_inv_session [OF inv(1)] assms(3) show ?thesis
    by (auto simp: reply_ok_def holds_lock_def)
qed

theorem get_lock_reply_true_witness:
  "\<exists>y c. lts_run lock_step lock_sys_init (take 4 demo_events) y \<and> calls y 1 = Some c \<and>
     pc c = AcDone (Some 1) \<and> (\<exists>s. sessions y 1 = Some s \<and>
       ((Some 1 = Some (1::int) \<and> holder_of (reg y) s (call_name c) = Some 1) \<or>
        (Some 1 = Some (0::int) \<and> call_timeout c \<noteq> Forever)))"
proof -
  have "map_option (\<lambda>y. map_option pc (calls y 1)) (exec_all lock_exec lock_sys_init (take 4 demo_events))
      = Some (Some (AcDone (Some 1)))" by code_simp
  then obtain y c where y: "exec_all lock_exec lock_sys_init (take 4 demo_events) = Some y" "calls y 1 = Some c"
      "pc c = AcDone (Some 1)" by auto
  from get_lock_reply_true [OF lock_machine.exec_all_sound [OF y(1)] y(2,3)] show ?thesis
    using lock_machine.exec_all_sound [OF y(1)] y(2,3) by blast
qed

end
