(* ===== verification/Rust_Str.thy ===== *)
theory Rust_Str
  imports LW_Prelude
begin

text \<open>
  The parts of Rust's \<^verbatim>\<open>str\<close> interface that the sources use. A string is the list of the bytes
  of its UTF-8 encoding, one \<^typ>\<open>char\<close> per byte; \<^verbatim>\<open>trim\<close> therefore recognises the multi-byte
  encodings of the characters with the Unicode property \<^verbatim>\<open>White_Space\<close>.
\<close>

section \<open>Panics\<close>

text \<open>
  An operation that may panic: an index or a slice out of range. \<open>rbind\<close> goes on with the value of one
  that returned.
\<close>

datatype 'a rust_result = Returns 'a | Panics

definition rbind :: "'a rust_result \<Rightarrow> ('a \<Rightarrow> 'b rust_result) \<Rightarrow> 'b rust_result" where
  "rbind x f = (case x of Returns v \<Rightarrow> f v | Panics \<Rightarrow> Panics)"

lemma rbind_simps [simp]: "rbind (Returns v) f = f v" "rbind Panics f = Panics"
  by (simp_all add: rbind_def)

text \<open>\<^verbatim>\<open>xs[i]\<close> and \<^verbatim>\<open>&xs[a..b]\<close> of a slice.\<close>

definition elem_at :: "'a list \<Rightarrow> nat \<Rightarrow> 'a rust_result" where
  "elem_at xs i = (if i < length xs then Returns (xs ! i) else Panics)"

definition slice_of :: "'a list \<Rightarrow> nat \<Rightarrow> nat \<Rightarrow> 'a list rust_result" where
  "slice_of xs a b = (if a \<le> b \<and> b \<le> length xs then Returns (take (b - a) (drop a xs)) else Panics)"

section \<open>Bytes\<close>

definition byte_of :: "char \<Rightarrow> int" where
  "byte_of c = of_char c"

definition is_ascii_whitespace :: "char \<Rightarrow> bool" where
  "is_ascii_whitespace c \<longleftrightarrow> byte_of c = 32 \<or> byte_of c = 9 \<or> byte_of c = 10 \<or> byte_of c = 12 \<or> byte_of c = 13"

definition is_ascii_digit :: "char \<Rightarrow> bool" where
  "is_ascii_digit c \<longleftrightarrow> 48 \<le> byte_of c \<and> byte_of c \<le> 57"

definition is_ascii_alphabetic :: "char \<Rightarrow> bool" where
  "is_ascii_alphabetic c \<longleftrightarrow>
     (65 \<le> byte_of c \<and> byte_of c \<le> 90) \<or> (97 \<le> byte_of c \<and> byte_of c \<le> 122)"

definition is_ascii_alphanumeric :: "char \<Rightarrow> bool" where
  "is_ascii_alphanumeric c \<longleftrightarrow> is_ascii_alphabetic c \<or> is_ascii_digit c"

definition ascii_upper :: "char \<Rightarrow> char" where
  "ascii_upper c = (if 97 \<le> byte_of c \<and> byte_of c \<le> 122 then char_of (byte_of c - 32) else c)"

definition ascii_lower :: "char \<Rightarrow> char" where
  "ascii_lower c = (if 65 \<le> byte_of c \<and> byte_of c \<le> 90 then char_of (byte_of c + 32) else c)"

definition to_ascii_uppercase :: "string \<Rightarrow> string" where
  "to_ascii_uppercase s = map ascii_upper s"

definition to_ascii_lowercase :: "string \<Rightarrow> string" where
  "to_ascii_lowercase s = map ascii_lower s"

definition eq_ignore_ascii_case :: "string \<Rightarrow> string \<Rightarrow> bool" where
  "eq_ignore_ascii_case s t \<longleftrightarrow> to_ascii_lowercase s = to_ascii_lowercase t"

section \<open>Searching\<close>

text \<open>\<^verbatim>\<open>starts_with\<close>, \<^verbatim>\<open>ends_with\<close>, \<^verbatim>\<open>contains\<close>, \<^verbatim>\<open>strip_prefix\<close>, \<^verbatim>\<open>strip_suffix\<close>, \<^verbatim>\<open>find\<close>.\<close>

definition starts_with :: "string \<Rightarrow> string \<Rightarrow> bool" where
  "starts_with s p \<longleftrightarrow> take (length p) s = p"

definition ends_with :: "string \<Rightarrow> string \<Rightarrow> bool" where
  "ends_with s p \<longleftrightarrow> starts_with (rev s) (rev p)"

definition strip_prefix :: "string \<Rightarrow> string \<Rightarrow> string option" where
  "strip_prefix s p = (if starts_with s p then Some (drop (length p) s) else None)"

definition strip_suffix :: "string \<Rightarrow> string \<Rightarrow> string option" where
  "strip_suffix s p = (if ends_with s p then Some (take (length s - length p) s) else None)"

fun find_str :: "string \<Rightarrow> string \<Rightarrow> nat option" where
  "find_str [] p = (if p = [] then Some 0 else None)"
| "find_str (c # s) p = (if starts_with (c # s) p then Some 0 else map_option Suc (find_str s p))"

definition contains_str :: "string \<Rightarrow> string \<Rightarrow> bool" where
  "contains_str s p \<longleftrightarrow> find_str s p \<noteq> None"

fun find_char :: "(char \<Rightarrow> bool) \<Rightarrow> string \<Rightarrow> nat option" where
  "find_char P [] = None"
| "find_char P (c # s) = (if P c then Some 0 else map_option Suc (find_char P s))"

section \<open>Splitting and trimming\<close>

fun split_on :: "(char \<Rightarrow> bool) \<Rightarrow> string \<Rightarrow> string list" where
  "split_on P [] = [[]]"
| "split_on P (c # s) =
     (if P c then [] # split_on P s
      else case split_on P s of w # ws \<Rightarrow> (c # w) # ws | [] \<Rightarrow> [[c]])"

definition split_ascii_whitespace :: "string \<Rightarrow> string list" where
  "split_ascii_whitespace s = filter (\<lambda>w. w \<noteq> []) (split_on is_ascii_whitespace s)"

text \<open>The UTF-8 encodings of the 25 characters with the property \<^verbatim>\<open>White_Space\<close>.\<close>

definition white_space :: "string list" where
  "white_space =
     [[CHR 0x20], [CHR 0x09], [CHR 0x0A], [CHR 0x0B], [CHR 0x0C], [CHR 0x0D],
      [CHR 0xC2, CHR 0x85], [CHR 0xC2, CHR 0xA0], [CHR 0xE1, CHR 0x9A, CHR 0x80],
      [CHR 0xE2, CHR 0x80, CHR 0x80], [CHR 0xE2, CHR 0x80, CHR 0x81], [CHR 0xE2, CHR 0x80, CHR 0x82],
      [CHR 0xE2, CHR 0x80, CHR 0x83], [CHR 0xE2, CHR 0x80, CHR 0x84], [CHR 0xE2, CHR 0x80, CHR 0x85],
      [CHR 0xE2, CHR 0x80, CHR 0x86], [CHR 0xE2, CHR 0x80, CHR 0x87], [CHR 0xE2, CHR 0x80, CHR 0x88],
      [CHR 0xE2, CHR 0x80, CHR 0x89], [CHR 0xE2, CHR 0x80, CHR 0x8A], [CHR 0xE2, CHR 0x80, CHR 0xA8],
      [CHR 0xE2, CHR 0x80, CHR 0xA9], [CHR 0xE2, CHR 0x80, CHR 0xAF], [CHR 0xE2, CHR 0x81, CHR 0x9F],
      [CHR 0xE3, CHR 0x80, CHR 0x80]]"

function trim_with :: "string list \<Rightarrow> string \<Rightarrow> string" where
  "trim_with ws s =
     (case find (\<lambda>w. w \<noteq> [] \<and> starts_with s w) ws of
        None \<Rightarrow> s
      | Some w \<Rightarrow> trim_with ws (drop (length w) s))"
  by pat_completeness auto
termination
proof (relation "measure (\<lambda>(ws, s). length s)", goal_cases)
  case (2 ws s w)
  then have "w \<noteq> []" "take (length w) s = w" by (auto simp: find_Some_iff starts_with_def)
  then show ?case by (cases s) auto
qed simp

declare trim_with.simps [simp del]

definition trim_start :: "string \<Rightarrow> string" where
  "trim_start = trim_with white_space"

definition trim_end :: "string \<Rightarrow> string" where
  "trim_end s = rev (trim_with (map rev white_space) (rev s))"

definition trim :: "string \<Rightarrow> string" where
  "trim s = trim_end (trim_start s)"

text \<open>\<^verbatim>\<open>trim_start_matches(P)\<close>, \<^verbatim>\<open>trim_end_matches(P)\<close> for a predicate on ASCII characters.\<close>

definition trim_end_matches :: "(char \<Rightarrow> bool) \<Rightarrow> string \<Rightarrow> string" where
  "trim_end_matches P s = rev (dropWhile P (rev s))"

section \<open>Formatting\<close>

fun show_digits :: "nat \<Rightarrow> nat \<Rightarrow> string" where
  "show_digits 0 n = []"
| "show_digits (Suc k) n = show_digits k (n div 10) @ [char_of (48 + n mod 10)]"

text \<open>\<^verbatim>\<open>{}\<close> of an unsigned integer: at least one digit, no leading zeros (64-bit values have at most 20).\<close>

definition show_nat :: "nat \<Rightarrow> string" where
  "show_nat n =
     (let ds = dropWhile (\<lambda>c. c = CHR ''0'') (show_digits 20 n) in if ds = [] then ''0'' else ds)"

text \<open>
  \<^verbatim>\<open>{:?}\<close> of a \<^verbatim>\<open>Duration\<close>: the largest unit with a non-zero integer part, the fraction without
  its trailing zeros.
\<close>

definition fmt_fraction :: "nat \<Rightarrow> nat \<Rightarrow> nat \<Rightarrow> string" where
  "fmt_fraction int_part frac width =
     (let ds = rev (dropWhile (\<lambda>c. c = CHR ''0'') (rev (show_digits width frac)))
      in show_nat int_part @ (if ds = [] then [] else ''.'' @ ds))"

definition duration_debug :: "nat \<Rightarrow> string" where
  "duration_debug ns =
     (if 1000000000 \<le> ns then fmt_fraction (ns div 1000000000) (ns mod 1000000000) 9 @ ''s''
      else if 1000000 \<le> ns then fmt_fraction (ns div 1000000) (ns mod 1000000) 6 @ ''ms''
      else if 1000 \<le> ns then fmt_fraction (ns div 1000) (ns mod 1000) 3 @ [CHR 0xC2, CHR 0xB5, CHR ''s'']
      else show_nat ns @ ''ns'')"

section \<open>Laws\<close>

lemma starts_with_iff_prefix: "starts_with s p \<longleftrightarrow> prefix p s"
  by (metis append_eq_conv_conj append_take_drop_id prefix_def starts_with_def)

lemma ends_with_iff_suffix: "ends_with s p \<longleftrightarrow> suffix p s"
  by (simp add: ends_with_def starts_with_iff_prefix suffix_to_prefix)

lemma starts_with_append [simp]: "starts_with (p @ s) p"
  by (simp add: starts_with_def)

lemma length_to_ascii_uppercase [simp]: "length (to_ascii_uppercase s) = length s"
  by (simp add: to_ascii_uppercase_def)

lemma split_on_no_sep: "w \<in> set (split_on P s) \<Longrightarrow> c \<in> set w \<Longrightarrow> \<not> P c"
  by (induction s arbitrary: w c) (auto split: if_splits list.splits, metis list.set_intros)

lemma split_on_nonempty [simp]: "split_on P s \<noteq> []"
  by (induction s) (auto split: list.split)

lemma split_on_append_sep: "P c \<Longrightarrow> split_on P (s @ c # t) = split_on P s @ split_on P t"
  by (induction s) (auto split: list.split)

lemma split_on_none: "(\<And>c. c \<in> set s \<Longrightarrow> \<not> P c) \<Longrightarrow> split_on P s = [s]"
  by (induction s) auto

lemma trim_with_fix: "find (\<lambda>w. w \<noteq> [] \<and> starts_with s w) ws = None \<Longrightarrow> trim_with ws s = s"
  by (subst trim_with.simps) simp

lemma trim_with_idem: "trim_with ws (trim_with ws s) = trim_with ws s"
proof (induction ws s rule: trim_with.induct)
  case (1 ws s)
  then show ?case
    by (cases "find (\<lambda>w. w \<noteq> [] \<and> starts_with s w) ws") (simp_all add: trim_with.simps [of ws s] trim_with_fix)
qed

lemma trim_with_suffix: "\<exists>p. s = p @ trim_with ws s"
proof (induction ws s rule: trim_with.induct)
  case (1 ws s)
  show ?case
  proof (cases "find (\<lambda>w. w \<noteq> [] \<and> starts_with s w) ws")
    case (Some w)
    with 1 [OF Some] show ?thesis
      by (simp add: trim_with.simps [of ws s]) (metis append.assoc append_take_drop_id)
  qed (simp add: trim_with_fix)
qed

section \<open>Case, containment and trimming\<close>

lemma byte_of_char_of: "byte_of (char_of n) = n mod 256"
  by (simp add: byte_of_def)

lemma ascii_upper_lower: "ascii_upper (ascii_lower c) = ascii_upper c"
  by (auto simp: ascii_upper_def ascii_lower_def byte_of_char_of byte_of_def)

lemma to_upper_lower: "to_ascii_uppercase (to_ascii_lowercase s) = to_ascii_uppercase s"
  by (simp add: to_ascii_uppercase_def to_ascii_lowercase_def ascii_upper_lower)

lemma eq_ignore_case_upper: "eq_ignore_ascii_case s t \<Longrightarrow> to_ascii_uppercase s = to_ascii_uppercase t"
  by (metis eq_ignore_ascii_case_def to_upper_lower)

lemma to_ascii_uppercase_append: "to_ascii_uppercase (s @ t) = to_ascii_uppercase s @ to_ascii_uppercase t"
  by (simp add: to_ascii_uppercase_def)

lemma contains_str_iff: "contains_str s p \<longleftrightarrow> sublist p s"
proof (induction s)
  case Nil
  then show ?case by (simp add: contains_str_def)
next
  case (Cons c s)
  then show ?case
    by (simp add: contains_str_def starts_with_iff_prefix sublist_Cons_right)
qed

text \<open>A byte that occurs in no white space character stops the trimming.\<close>

lemma trim_with_stops:
  assumes "\<forall>w\<in>set ws. c \<notin> set w"
  shows "\<exists>m. trim_with ws (n @ c # r) = m @ c # r"
proof (induction "length n" arbitrary: n rule: less_induct)
  case less
  show ?case
  proof (cases "find (\<lambda>w. w \<noteq> [] \<and> starts_with (n @ c # r) w) ws")
    case None
    then show ?thesis by (metis trim_with_fix)
  next
    case (Some w)
    then have w: "w \<noteq> []" "starts_with (n @ c # r) w" "w \<in> set ws" by (auto simp: find_Some_iff)
    have "length w \<le> length n"
    proof (rule ccontr)
      assume "\<not> length w \<le> length n"
      then have "c \<in> set (take (length w) (n @ c # r))" by (cases "length w - length n") (auto simp: take_Cons)
      with w assms show False by (auto simp: starts_with_def)
    qed
    moreover from this have "trim_with ws (n @ c # r) = trim_with ws (drop (length w) n @ c # r)"
      using Some by (simp add: trim_with.simps [of ws "n @ c # r"])
    moreover have "length (drop (length w) n) < length n" using w(1) calculation(1) by (cases n) auto
    ultimately show ?thesis using less by metis
  qed
qed

definition white_bytes :: "char list" where
  "white_bytes = remdups (concat white_space)"

lemma white_bytes_complete: "c \<notin> set white_bytes \<Longrightarrow> \<forall>w\<in>set white_space. c \<notin> set w"
  by (auto simp: white_bytes_def)

lemma trim_start_id: "c \<notin> set white_bytes \<Longrightarrow> trim_start (c # s) = c # s"
proof -
  assume "c \<notin> set white_bytes"
  then have "\<not> starts_with (c # s) w" if "w \<in> set white_space" "w \<noteq> []" for w
    using that white_bytes_complete [of c] by (cases w) (auto simp: starts_with_def)
  then have "find (\<lambda>w. w \<noteq> [] \<and> starts_with (c # s) w) white_space = None" by (auto simp: find_None_iff)
  then show ?thesis by (simp add: trim_start_def trim_with_fix)
qed

lemma trim_end_keeps:
  assumes "c \<notin> set white_bytes"
  shows "\<exists>m. trim_end (p @ c # n) = p @ c # m"
proof -
  have "\<forall>w\<in>set (map rev white_space). c \<notin> set w" using white_bytes_complete [OF assms] by auto
  from trim_with_stops [OF this, of "rev n" "rev p"] obtain m
    where "trim_with (map rev white_space) (rev n @ c # rev p) = m @ c # rev p" by blast
  then show ?thesis by (auto simp: trim_end_def)
qed

lemma trim_keeps_front: "c \<notin> set white_bytes \<Longrightarrow> d \<notin> set white_bytes \<Longrightarrow> \<exists>m. trim (c # p @ d # n) = c # p @ d # m"
  using trim_end_keeps [of d "c # p" n] by (simp add: trim_def trim_start_id)

lemma white_bytes_plain:
  "is_ascii_alphabetic c \<Longrightarrow> c \<notin> set white_bytes" "is_ascii_digit c \<Longrightarrow> c \<notin> set white_bytes"
proof -
  have "list_all (\<lambda>c. \<not> is_ascii_alphabetic c \<and> \<not> is_ascii_digit c) white_bytes" by code_simp
  then show "is_ascii_alphabetic c \<Longrightarrow> c \<notin> set white_bytes" "is_ascii_digit c \<Longrightarrow> c \<notin> set white_bytes"
    by (auto simp: list_all_iff)
qed

end
