(* ===== verification/Write_Admission.thy ===== *)
theory Write_Admission
  imports Rust_Str
begin

text \<open>
  Write admission for single-writer backends (\<^verbatim>\<open>src/crates/litewire-backend/src/write_admission.rs\<close>):
  the classification of a statement by its leading keyword, the shared permit pool and the
  per-session transaction stack with its parked permit.

  \<^verbatim>\<open>tokio::sync::Semaphore\<close> is not part of the sources: it is the parameter \<open>api\<close>, a record of
  the four operations the code calls, with its documented behaviour as the hypothesis
  \<open>semaphore_laws\<close>. An \<^verbatim>\<open>OwnedSemaphorePermit\<close> is a value of type unit: holding one is having
  \<open>Some ()\<close>, dropping it calls \<open>give_back\<close>. How the wait for a permit ends (it completes, the
  semaphore is closed, the timeout elapses) is the environment's choice, \<open>wait_outcome\<close>; a wait
  that completes needs a free permit.
\<close>

section \<open>Classification\<close>

definition leading_keyword :: "string \<Rightarrow> string" where
  "leading_keyword sql =
     to_ascii_uppercase
       (case split_ascii_whitespace (trim sql) of w # _ \<Rightarrow> w | [] \<Rightarrow> [])"

datatype write_intent =
    Read | Write | BeginDeferred | BeginImmediate | Savepoint | ReleaseSavepoint
  | RollbackTo | EndTransaction | Neutral

definition transaction_intent :: "string \<Rightarrow> write_intent" where
  "transaction_intent sql =
     (let ws = split_ascii_whitespace (trim sql);
          first = to_ascii_uppercase (case ws of w # _ \<Rightarrow> w | [] \<Rightarrow> []);
          second = to_ascii_uppercase (case ws of _ # w # _ \<Rightarrow> w | _ \<Rightarrow> [])
      in if first = ''BEGIN'' then
           (if second = ''IMMEDIATE'' \<or> second = ''EXCLUSIVE'' then BeginImmediate else BeginDeferred)
         else if first = ''START'' then BeginDeferred
         else if first = ''SAVEPOINT'' then Savepoint
         else if first = ''RELEASE'' then ReleaseSavepoint
         else if first = ''ROLLBACK'' \<and> second = ''TO'' then RollbackTo
         else EndTransaction)"

definition write_intent_of :: "string \<Rightarrow> write_intent" where
  "write_intent_of sql =
     (let k = leading_keyword sql in
      if k \<in> set [''SELECT'', ''SHOW'', ''DESCRIBE'', ''DESC'', ''EXPLAIN'', ''PRAGMA'', ''VALUES''] then Read
      else if k \<in> set [''INSERT'', ''UPDATE'', ''DELETE'', ''REPLACE''] then Write
      else if k \<in> set [''CREATE'', ''ALTER'', ''DROP'', ''TRUNCATE''] then Write
      else if k \<in> set [''WITH'', ''VACUUM'', ''ANALYZE'', ''REINDEX''] then Write
      else if k = ''END'' then EndTransaction
      else if k \<in> set [''BEGIN'', ''START'', ''COMMIT'', ''ROLLBACK'', ''SAVEPOINT'', ''RELEASE'']
        then transaction_intent sql
      else Neutral)"

definition needs_permit :: "write_intent \<Rightarrow> bool" where
  "needs_permit w \<longleftrightarrow> w = Write \<or> w = BeginImmediate"

section \<open>The pool\<close>

type_synonym permit_token = unit

record 's semaphore_api =
  sem_new :: "nat \<Rightarrow> 's"
  sem_available :: "'s \<Rightarrow> nat"
  take_permit :: "'s \<Rightarrow> 's option"
  give_back :: "'s \<Rightarrow> 's"

definition semaphore_laws :: "'s semaphore_api \<Rightarrow> bool" where
  "semaphore_laws api \<longleftrightarrow>
     (\<forall>n. sem_available api (sem_new api n) = n) \<and>
     (\<forall>s. sem_available api s = 0 \<longleftrightarrow> take_permit api s = None) \<and>
     (\<forall>s t. take_permit api s = Some t \<longrightarrow> sem_available api s = Suc (sem_available api t)) \<and>
     (\<forall>s. sem_available api (give_back api s) = Suc (sem_available api s))"

record 's write_admission =
  sem :: 's
  acquire_timeout :: nat
  permits :: nat

definition write_admission_new :: "'s semaphore_api \<Rightarrow> nat \<Rightarrow> nat \<Rightarrow> 's write_admission option" where
  "write_admission_new api n timeout =
     (if 0 < n then Some \<lparr>sem = sem_new api n, acquire_timeout = timeout, permits = n\<rparr> else None)"

definition available_permits :: "'s semaphore_api \<Rightarrow> 's write_admission \<Rightarrow> nat" where
  "available_permits api a = sem_available api (sem a)"

datatype wait_outcome = Completes | SemClosed | Elapsed

text \<open>\<open>None\<close>: the wait has not completed yet.\<close>

fun acquire ::
  "'s semaphore_api \<Rightarrow> 's write_admission \<Rightarrow> wait_outcome \<Rightarrow>
     ((backend_error + permit_token) \<times> 's write_admission) option" where
  "acquire api a Completes =
     (case take_permit api (sem a) of None \<Rightarrow> None | Some s' \<Rightarrow> Some (Inr (), a\<lparr>sem := s'\<rparr>))"
| "acquire api a SemClosed = Some (Inl (Other ''write admission semaphore closed''), a)"
| "acquire api a Elapsed =
     Some (Inl (Sqlite (''[SQLITE_BUSY] timed out after '' @ duration_debug (acquire_timeout a) @
                        '' waiting for a write permit ('' @ show_nat (permits a) @
                        '' concurrent writes allowed)'')), a)"

section \<open>A session's view\<close>

record session_state =
  begun :: bool
  savepoints :: u32
  permit :: "permit_token option"

definition session_state_default :: session_state where
  "session_state_default = \<lparr>begun = False, savepoints = 0, permit = None\<rparr>"

definition in_transaction :: "session_state \<Rightarrow> bool" where
  "in_transaction st \<longleftrightarrow> begun st \<or> 0 < savepoints st"

definition u32_saturating_inc :: "u32 \<Rightarrow> u32" where
  "u32_saturating_inc w = (if w = - 1 then w else w + 1)"

definition u32_saturating_dec :: "u32 \<Rightarrow> u32" where
  "u32_saturating_dec w = (if w = 0 then w else w - 1)"

type_synonym 's admitted = "((backend_error + permit_token option) \<times> session_state \<times> 's write_admission) option"

text \<open>\<^verbatim>\<open>if state.permit.is_none() { state.permit = Some(admission.acquire().await?) }; Ok(None)\<close>\<close>

definition park_permit ::
  "'s semaphore_api \<Rightarrow> 's write_admission \<Rightarrow> session_state \<Rightarrow> wait_outcome \<Rightarrow> 's admitted" where
  "park_permit api a st out =
     (if permit st = None then
        (case acquire api a out of
           None \<Rightarrow> None
         | Some (Inl e, a') \<Rightarrow> Some (Inl e, st, a')
         | Some (Inr p, a') \<Rightarrow> Some (Inr None, st\<lparr>permit := Some p\<rparr>, a'))
      else Some (Inr None, st, a))"

definition admit ::
  "'s semaphore_api \<Rightarrow> 's write_admission \<Rightarrow> session_state \<Rightarrow> string \<Rightarrow> wait_outcome \<Rightarrow> 's admitted" where
  "admit api a st sql out =
     (case write_intent_of sql of
        Read \<Rightarrow> Some (Inr None, st, a)
      | Neutral \<Rightarrow> Some (Inr None, st, a)
      | RollbackTo \<Rightarrow> Some (Inr None, st, a)
      | BeginDeferred \<Rightarrow> Some (Inr None, st\<lparr>begun := True\<rparr>, a)
      | BeginImmediate \<Rightarrow> park_permit api a (st\<lparr>begun := True\<rparr>) out
      | Savepoint \<Rightarrow> Some (Inr None, st\<lparr>savepoints := u32_saturating_inc (savepoints st)\<rparr>, a)
      | Write \<Rightarrow>
          (if in_transaction st then park_permit api a st out
           else (case acquire api a out of
                   None \<Rightarrow> None
                 | Some (Inl e, a') \<Rightarrow> Some (Inl e, st, a')
                 | Some (Inr p, a') \<Rightarrow> Some (Inr (Some p), st, a')))
      | ReleaseSavepoint \<Rightarrow>
          (let st' = st\<lparr>savepoints := u32_saturating_dec (savepoints st)\<rparr>
           in if in_transaction st' then Some (Inr None, st', a)
              else Some (Inr (permit st'), st'\<lparr>permit := None\<rparr>, a))
      | EndTransaction \<Rightarrow>
          (let st' = st\<lparr>begun := False, savepoints := 0\<rparr>
           in Some (Inr (permit st'), st'\<lparr>permit := None\<rparr>, a)))"

text \<open>
  \<^verbatim>\<open>SessionAdmission\<close>: with admission disabled (\<^verbatim>\<open>None\<close>) nothing is classified or held.
\<close>

definition session_admit ::
  "'s semaphore_api \<Rightarrow> 's write_admission option \<Rightarrow> session_state \<Rightarrow> string \<Rightarrow> wait_outcome \<Rightarrow>
     ((backend_error + permit_token option) \<times> session_state \<times> 's write_admission option) option" where
  "session_admit api adm st sql out =
     (case adm of
        None \<Rightarrow> Some (Inr None, st, None)
      | Some a \<Rightarrow> map_option (\<lambda>(r, st', a'). (r, st', Some a')) (admit api a st sql out))"

definition holds_permit :: "session_state \<Rightarrow> bool" where
  "holds_permit st \<longleftrightarrow> permit st \<noteq> None"

section \<open>Sessions sharing a pool\<close>

text \<open>
  A session admits one statement at a time; \<open>inflight\<close> is the statement it has sent and the
  permit the caller of \<^verbatim>\<open>admit\<close> holds for it. \<open>ACancel\<close> is a future dropped while it waits in
  \<^verbatim>\<open>acquire\<close>: what \<^verbatim>\<open>admit\<close> had already written stays, no permit was handed out.
\<close>

record 's admission_sys =
  pool :: "'s write_admission"
  states :: "nat \<Rightarrow> session_state option"
  inflight :: "nat \<Rightarrow> (string \<times> permit_token option) option"

datatype admission_event =
    AOpen nat
  | AAdmit nat string wait_outcome
  | ACancel nat string
  | AFinish nat
  | AClose nat

definition drop_permit :: "'s semaphore_api \<Rightarrow> permit_token option \<Rightarrow> 's write_admission \<Rightarrow> 's write_admission" where
  "drop_permit api p a = (case p of None \<Rightarrow> a | Some _ \<Rightarrow> a\<lparr>sem := give_back api (sem a)\<rparr>)"

definition guard_of :: "'s admission_sys \<Rightarrow> nat \<Rightarrow> permit_token option" where
  "guard_of y i = Option.bind (inflight y i) snd"

definition parked :: "'s admission_sys \<Rightarrow> nat \<Rightarrow> permit_token option" where
  "parked y i = Option.bind (states y i) permit"

fun admission_exec ::
  "'s semaphore_api \<Rightarrow> 's admission_sys \<Rightarrow> admission_event \<Rightarrow> 's admission_sys option" where
  "admission_exec api y (AOpen i) =
     (if states y i = None
      then Some (y\<lparr>states := (states y)(i \<mapsto> session_state_default)\<rparr>) else None)"
| "admission_exec api y (AAdmit i sql out) =
     (case (states y i, inflight y i) of
        (Some st, None) \<Rightarrow>
          (case admit api (pool y) st sql out of
             None \<Rightarrow> None
           | Some (Inl e, st', a') \<Rightarrow> Some (y\<lparr>pool := a', states := (states y)(i \<mapsto> st')\<rparr>)
           | Some (Inr p, st', a') \<Rightarrow>
               Some (y\<lparr>pool := a', states := (states y)(i \<mapsto> st'), inflight := (inflight y)(i \<mapsto> (sql, p))\<rparr>))
      | _ \<Rightarrow> None)"
| "admission_exec api y (ACancel i sql) =
     (case (states y i, inflight y i) of
        (Some st, None) \<Rightarrow>
          (case admit api (pool y) st sql Elapsed of
             Some (Inl e, st', a') \<Rightarrow> Some (y\<lparr>states := (states y)(i \<mapsto> st')\<rparr>)
           | _ \<Rightarrow> None)
      | _ \<Rightarrow> None)"
| "admission_exec api y (AFinish i) =
     (case inflight y i of
        None \<Rightarrow> None
      | Some (sql, p) \<Rightarrow>
          Some (y\<lparr>pool := drop_permit api p (pool y), inflight := (inflight y)(i := None)\<rparr>))"
| "admission_exec api y (AClose i) =
     (case states y i of
        None \<Rightarrow> None
      | Some st \<Rightarrow>
          Some (y\<lparr>pool := drop_permit api (permit st) (drop_permit api (guard_of y i) (pool y)),
                  states := (states y)(i := None), inflight := (inflight y)(i := None)\<rparr>))"

definition admission_step :: "'s semaphore_api \<Rightarrow> 's admission_sys \<Rightarrow> admission_event \<Rightarrow> 's admission_sys \<Rightarrow> bool" where
  "admission_step api y e z \<longleftrightarrow> admission_exec api y e = Some z"

definition admission_start :: "'s write_admission \<Rightarrow> 's admission_sys" where
  "admission_start a = \<lparr>pool = a, states = Map.empty, inflight = Map.empty\<rparr>"

section \<open>What one admission does\<close>

definition tok :: "permit_token option \<Rightarrow> nat" where
  "tok p = (case p of None \<Rightarrow> 0 | Some _ \<Rightarrow> 1)"

lemma tok_simps [simp]: "tok None = 0" "tok (Some u) = 1"
  by (simp_all add: tok_def)

definition result_permit :: "backend_error + permit_token option \<Rightarrow> permit_token option" where
  "result_permit r = (case r of Inl _ \<Rightarrow> None | Inr p \<Rightarrow> p)"

lemma result_permit_simps [simp]: "result_permit (Inl e) = None" "result_permit (Inr p) = p"
  by (simp_all add: result_permit_def)

definition state_ok :: "session_state \<Rightarrow> bool" where
  "state_ok st \<longleftrightarrow> (permit st \<noteq> None \<longrightarrow> in_transaction st)"

lemma state_ok_default [simp]: "state_ok session_state_default" "permit session_state_default = None"
  by (simp_all add: state_ok_def session_state_default_def)

lemma acquire_cases:
  assumes "semaphore_laws api" and "acquire api a out = Some (r, a')"
  obtains (refused) e where "r = Inl e" "a' = a"
  | (granted) "r = Inr ()" "available_permits api a = Suc (available_permits api a')" "permits a' = permits a"
  using assms by (cases out) (auto simp: semaphore_laws_def available_permits_def split: option.splits)

lemma park_permit_cases:
  assumes "semaphore_laws api" and "park_permit api a st out = Some (r, st', a')"
  obtains (refused) e where "r = Inl e" "a' = a" "st' = st"
  | (parked) "r = Inr None" "permit st' \<noteq> None" "begun st' = begun st" "savepoints st' = savepoints st"
      "available_permits api a + tok (permit st) = Suc (available_permits api a')" "permits a' = permits a"
proof (cases "permit st")
  case None
  then obtain q where q: "acquire api a out = Some (q, a')"
      "(r, st') = (case q of Inl e \<Rightarrow> (Inl e, st) | Inr p \<Rightarrow> (Inr None, st\<lparr>permit := Some p\<rparr>))"
    using assms(2) by (auto simp: park_permit_def split: option.splits sum.splits)
  from assms(1) q(1) show thesis
  proof (cases rule: acquire_cases)
    case (refused e)
    with q(2) show thesis by (intro that(1)) simp_all
  next
    case granted
    with q(2) None show thesis by (intro that(2)) simp_all
  qed
next
  case (Some u)
  with assms(2) have "r = Inr None" "st' = st" "a' = a" by (auto simp: park_permit_def)
  with Some that(2) show thesis by simp
qed

text \<open>Everything the pool's invariant needs of one call of \<open>admit\<close>.\<close>

lemma admit_cases:
  assumes "semaphore_laws api" and "admit api a st sql out = Some (r, st', a')"
  obtains (free) "r = Inr None" "a' = a" "permit st' = permit st" "in_transaction st \<Longrightarrow> in_transaction st'"
      "\<not> needs_permit (write_intent_of sql)"
  | (refused) e where "r = Inl e" "a' = a" "permit st' = permit st" "in_transaction st \<Longrightarrow> in_transaction st'"
      "needs_permit (write_intent_of sql)"
  | (parked) "r = Inr None" "permit st' \<noteq> None" "in_transaction st'"
      "available_permits api a + tok (permit st) = Suc (available_permits api a')" "permits a' = permits a"
  | (autocommit) "r = Inr (Some ())" "st' = st" "\<not> in_transaction st"
      "available_permits api a = Suc (available_permits api a')" "permits a' = permits a"
  | (ended) "r = Inr (permit st)" "permit st' = None" "a' = a" "\<not> needs_permit (write_intent_of sql)"
proof (cases "write_intent_of sql")
  case Write
  show thesis
  proof (cases "in_transaction st")
    case True
    with assms Write have "park_permit api a st out = Some (r, st', a')" by (simp add: admit_def)
    from assms(1) this show thesis
      by (cases rule: park_permit_cases)
        (use that(2,3) True Write in \<open>auto simp: needs_permit_def in_transaction_def\<close>)
  next
    case False
    then obtain q where q: "acquire api a out = Some (q, a')" "st' = st" "r = map_sum id Some q"
      using assms(2) Write by (auto simp: admit_def split: option.splits sum.splits)
    from assms(1) q(1) show thesis
    proof (cases rule: acquire_cases)
      case (refused e)
      with q Write show thesis by (intro that(2)) (simp_all add: needs_permit_def)
    next
      case granted
      with q False show thesis by (intro that(4)) simp_all
    qed
  qed
next
  case BeginImmediate
  with assms have "park_permit api a (st\<lparr>begun := True\<rparr>) out = Some (r, st', a')" by (simp add: admit_def)
  from assms(1) this show thesis
    by (cases rule: park_permit_cases)
      (use that(2,3) BeginImmediate in \<open>auto simp: needs_permit_def in_transaction_def\<close>)
next
  case Savepoint
  have "0 < savepoints st \<Longrightarrow> 0 < u32_saturating_inc (savepoints st)"
    using word_less_add_one [of "savepoints st"]
    by (auto simp: u32_saturating_inc_def word_neq_0_conv [symmetric] eq_neg_iff_add_eq_0)
  with Savepoint assms(2) show thesis
    by (intro that(1)) (auto simp: admit_def needs_permit_def in_transaction_def)
next
  case ReleaseSavepoint
  with assms(2) that(1,5) show thesis
    by (auto simp: admit_def needs_permit_def Let_def split: if_splits)
qed (use assms(2) that(1,5) in \<open>auto simp: admit_def needs_permit_def in_transaction_def Let_def\<close>)

text \<open>One call moves permits, never makes or loses one.\<close>

lemma admit_conserves:
  assumes "semaphore_laws api" and "state_ok st" and "admit api a st sql out = Some (r, st', a')"
  shows "permits a' = permits a
    \<and> available_permits api a' + tok (permit st') + tok (result_permit r) = available_permits api a + tok (permit st)
    \<and> state_ok st'
    \<and> (result_permit r = None \<or> permit st' = None)
    \<and> (\<forall>p. r = Inr p \<longrightarrow> needs_permit (write_intent_of sql) \<longrightarrow> p \<noteq> None \<or> permit st' \<noteq> None)
    \<and> (\<forall>e. r = Inl e \<longrightarrow> permit st' = permit st \<and> a' = a)"
  using assms(1,3)
proof (cases rule: admit_cases)
  case parked
  with assms(2) show ?thesis by (auto simp: state_ok_def)
next
  case autocommit
  with assms(2) show ?thesis by (cases "permit st") (auto simp: state_ok_def)
qed (use assms(2) in \<open>simp_all add: state_ok_def\<close>)

section \<open>The pool's invariant\<close>

text \<open>The permits sessions hold, parked for a transaction or kept for the statement in flight.\<close>

definition held_total :: "'s admission_sys \<Rightarrow> nat" where
  "held_total y = (\<Sum>i\<in>dom (states y). tok (parked y i) + tok (guard_of y i))"

definition admission_inv :: "'s semaphore_api \<Rightarrow> nat \<Rightarrow> 's admission_sys \<Rightarrow> bool" where
  "admission_inv api n y \<longleftrightarrow>
     semaphore_laws api \<and> finite (dom (states y)) \<and> dom (inflight y) \<subseteq> dom (states y) \<and>
     permits (pool y) = n \<and>
     available_permits api (pool y) + held_total y = n \<and>
     (\<forall>i st. states y i = Some st \<longrightarrow> state_ok st) \<and>
     (\<forall>i. parked y i = None \<or> guard_of y i = None) \<and>
     (\<forall>i sql p. inflight y i = Some (sql, p) \<longrightarrow> needs_permit (write_intent_of sql) \<longrightarrow>
        p \<noteq> None \<or> parked y i \<noteq> None)"

lemma held_total_remove:
  assumes "finite (dom (states y))" and "i \<in> dom (states y)"
  shows "held_total y = tok (parked y i) + tok (guard_of y i)
    + (\<Sum>j\<in>dom (states y) - {i}. tok (parked y j) + tok (guard_of y j))"
  using assms by (simp add: held_total_def sum.remove)

text \<open>A step that touches one session only: the rest of the sum stays.\<close>

lemma held_total_other:
  assumes "finite (dom (states y))" and "dom (states z) - {i} = dom (states y) - {i}"
    and "i \<in> dom (states y)" and "i \<in> dom (states z)"
    and "\<And>j. j \<noteq> i \<Longrightarrow> states z j = states y j \<and> inflight z j = inflight y j"
  shows "held_total z + tok (parked y i) + tok (guard_of y i)
       = held_total y + tok (parked z i) + tok (guard_of z i)"
proof -
  have "finite (dom (states z))" by (metis assms(1,2) finite.emptyI finite_Diff2 finite_insert)
  moreover have "(\<Sum>j\<in>dom (states z) - {i}. tok (parked z j) + tok (guard_of z j))
      = (\<Sum>j\<in>dom (states y) - {i}. tok (parked y j) + tok (guard_of y j))"
    using assms(2,5) by (intro sum.cong) (auto simp: parked_def guard_of_def)
  ultimately show ?thesis
    using held_total_remove [OF assms(1,3)] held_total_remove [of z i] assms(4) by simp
qed

lemma drop_permit_effect:
  assumes "semaphore_laws api"
  shows "available_permits api (drop_permit api p a) = available_permits api a + tok p"
    and "permits (drop_permit api p a) = permits a"
  using assms by (auto simp: drop_permit_def available_permits_def semaphore_laws_def split: option.split)

lemma admission_inv_update:
  assumes inv: "admission_inv api n y" and st: "states y i = Some st"
    and z: "states z = (states y)(i \<mapsto> st')" "inflight z = (inflight y)(i := f)"
    and pool: "permits (pool z) = permits (pool y)"
      "available_permits api (pool z) + tok (permit st') + tok (Option.bind f snd)
         = available_permits api (pool y) + tok (permit st) + tok (guard_of y i)"
    and ok: "state_ok st'" "permit st' = None \<or> Option.bind f snd = None"
      "\<And>sql p. f = Some (sql, p) \<Longrightarrow> needs_permit (write_intent_of sql) \<Longrightarrow> p \<noteq> None \<or> permit st' \<noteq> None"
  shows "admission_inv api n z"
proof -
  have "held_total z + tok (parked y i) + tok (guard_of y i)
      = held_total y + tok (parked z i) + tok (guard_of z i)"
    using inv st z by (intro held_total_other) (auto simp: admission_inv_def)
  moreover have "parked z i = permit st'" "guard_of z i = Option.bind f snd" "parked y i = permit st"
    using st z by (simp_all add: parked_def guard_of_def)
  ultimately have "available_permits api (pool z) + held_total z = n"
    using inv pool by (simp add: admission_inv_def)
  moreover have "parked z j = None \<or> guard_of z j = None" for j
    using inv z ok by (cases "j = i") (auto simp: admission_inv_def parked_def guard_of_def)
  moreover have "p \<noteq> None \<or> parked z j \<noteq> None"
    if "inflight z j = Some (sql, p)" "needs_permit (write_intent_of sql)" for j sql p
  proof (cases "j = i")
    case True
    with that z ok(3) show ?thesis by (simp add: parked_def)
  next
    case False
    with that z have "inflight y j = Some (sql, p)" "parked z j = parked y j" by (simp_all add: parked_def)
    with inv that(2) show ?thesis unfolding admission_inv_def by metis
  qed
  ultimately show ?thesis using inv z pool ok(1) st by (auto simp: admission_inv_def)
qed

lemma admission_inv_open:
  assumes inv: "admission_inv api n y" and "states y i = None"
  shows "admission_inv api n (y\<lparr>states := (states y)(i \<mapsto> session_state_default)\<rparr>)" (is "admission_inv api n ?z")
proof -
  have free: "inflight y i = None" "parked y i = None" using inv assms(2) by (auto simp: admission_inv_def parked_def)
  then have same: "parked ?z = parked y" "guard_of ?z = guard_of y" by (auto simp: parked_def guard_of_def fun_eq_iff)
  have "held_total ?z = held_total y"
    using held_total_remove [of ?z i] inv assms(2) free
    by (simp add: admission_inv_def same) (simp add: held_total_def guard_of_def domIff)
  with inv free show ?thesis by (auto simp: admission_inv_def same)
qed

lemma admission_inv_close:
  assumes inv: "admission_inv api n y" and st: "states y i = Some st"
    and z: "states z = (states y)(i := None)" "inflight z = (inflight y)(i := None)"
      "pool z = drop_permit api (permit st) (drop_permit api (guard_of y i) (pool y))"
  shows "admission_inv api n z"
proof -
  have laws: "semaphore_laws api" using inv by (simp add: admission_inv_def)
  have same: "j \<noteq> i \<Longrightarrow> parked z j = parked y j \<and> guard_of z j = guard_of y j" for j
    using z by (simp add: parked_def guard_of_def)
  have gone: "parked z i = None" "guard_of z i = None" using z by (simp_all add: parked_def guard_of_def)
  have "held_total y = tok (parked y i) + tok (guard_of y i) + held_total z"
    using held_total_remove [of y i] inv st same
    by (simp add: admission_inv_def held_total_def z domIff cong: sum.cong_simp)
  then have "available_permits api (pool z) + held_total z = n"
    using inv st by (simp add: admission_inv_def z drop_permit_effect [OF laws] parked_def)
  moreover have "parked z j = None \<or> guard_of z j = None" for j
    using inv same [of j] gone by (cases "j = i") (auto simp: admission_inv_def)
  moreover have "p \<noteq> None \<or> parked z j \<noteq> None"
    if "inflight z j = Some (sql, p)" "needs_permit (write_intent_of sql)" for j sql p
    using inv that same [of j] z(2) unfolding admission_inv_def by (metis fun_upd_apply option.distinct(1))
  ultimately show ?thesis
    using inv by (auto simp: admission_inv_def z drop_permit_effect [OF laws] split: if_splits)
qed

lemma admission_inv_step:
  assumes inv: "admission_inv api n y" and step: "admission_step api y e z"
  shows "admission_inv api n z"
proof -
  have laws: "semaphore_laws api" and ok: "\<And>i st. states y i = Some st \<Longrightarrow> state_ok st"
    using inv by (auto simp: admission_inv_def)
  show ?thesis
  proof (cases e)
    case (AOpen i)
    with step admission_inv_open [OF inv] show ?thesis by (auto simp: admission_step_def split: if_splits)
  next
    case (AAdmit i sql out)
    with step obtain st r st' a' where s: "states y i = Some st" "inflight y i = None"
        "admit api (pool y) st sql out = Some (r, st', a')"
        "pool z = a'" "states z = (states y)(i \<mapsto> st')"
        "inflight z = (inflight y)(i := case r of Inl _ \<Rightarrow> None | Inr p \<Rightarrow> Some (sql, p))"
      by (auto simp: admission_step_def fun_upd_idem split: option.splits sum.splits)
    note c = admit_conserves [OF laws ok [OF s(1)] s(3)]
    show ?thesis
      by (rule admission_inv_update [OF inv s(1), where st' = st' and
            f = "case r of Inl _ \<Rightarrow> None | Inr p \<Rightarrow> Some (sql, p)"])
        (use c s in \<open>auto simp: guard_of_def split: sum.splits\<close>)
  next
    case (ACancel i sql)
    with step obtain st e st' a' where s: "states y i = Some st" "inflight y i = None"
        "admit api (pool y) st sql Elapsed = Some (Inl e, st', a')" "z = y\<lparr>states := (states y)(i \<mapsto> st')\<rparr>"
      by (auto simp: admission_step_def split: option.splits sum.splits)
    note c = admit_conserves [OF laws ok [OF s(1)] s(3)]
    show ?thesis
      by (rule admission_inv_update [OF inv s(1), where st' = st' and f = None])
        (use c s in \<open>auto simp: guard_of_def\<close>)
  next
    case (AFinish i)
    with step obtain sql p where s: "inflight y i = Some (sql, p)"
        "z = y\<lparr>pool := drop_permit api p (pool y), inflight := (inflight y)(i := None)\<rparr>"
      by (auto simp: admission_step_def split: option.splits)
    moreover obtain st where st: "states y i = Some st" using s(1) inv by (auto simp: admission_inv_def)
    ultimately show ?thesis
      by (intro admission_inv_update [OF inv st, where st' = st and f = None])
        (auto simp: guard_of_def drop_permit_effect [OF laws] fun_upd_idem ok)
  next
    case (AClose i)
    with step admission_inv_close [OF inv] show ?thesis by (auto simp: admission_step_def split: option.splits)
  qed
qed

definition admission_init :: "'s semaphore_api \<Rightarrow> nat \<Rightarrow> 's admission_sys \<Rightarrow> bool" where
  "admission_init api n y \<longleftrightarrow>
     semaphore_laws api \<and> (\<exists>a t. write_admission_new api n t = Some a \<and> y = admission_start a)"

interpretation write_pool: lts_invariant "admission_step api" "admission_init api n" "admission_inv api n" for api n
proof
  fix s assume "admission_init api n s"
  then show "admission_inv api n s"
    by (auto simp: admission_init_def admission_inv_def write_admission_new_def admission_start_def
        available_permits_def held_total_def parked_def guard_of_def semaphore_laws_def split: if_splits)
qed (rule admission_inv_step)

lemma busy_sessions_bound:
  assumes inv: "admission_inv api n y"
  shows "card {i. \<exists>sql p. inflight y i = Some (sql, p) \<and> needs_permit (write_intent_of sql)} \<le> held_total y"
    (is "card ?W \<le> _")
proof -
  have sub: "?W \<subseteq> dom (states y)" and fin: "finite (dom (states y))"
    using inv by (auto simp: admission_inv_def)
  have one: "1 \<le> tok (parked y i) + tok (guard_of y i)" if "i \<in> ?W" for i
  proof -
    from that obtain sql p where "inflight y i = Some (sql, p)" "needs_permit (write_intent_of sql)" by blast
    with inv have "guard_of y i \<noteq> None \<or> parked y i \<noteq> None" unfolding admission_inv_def
      by (metis guard_of_def Option.bind.bind_lunit snd_conv)
    then show ?thesis by (auto simp: tok_def)
  qed
  have "card ?W = (\<Sum>i\<in>?W. 1)" by simp
  also have "\<dots> \<le> (\<Sum>i\<in>?W. tok (parked y i) + tok (guard_of y i))" using one by (intro sum_mono) blast
  also have "\<dots> \<le> held_total y" unfolding held_total_def by (rule sum_mono2 [OF fin sub]) simp
  finally show ?thesis .
qed

text \<open>Steps of other sessions leave a session's permits alone; so do its own, until its transaction ends.\<close>

lemma admit_keeps_permit:
  assumes "admit api a st sql out = Some (r, st', a')" and "permit st = Some ()"
    and "write_intent_of sql \<noteq> EndTransaction" "write_intent_of sql \<noteq> ReleaseSavepoint"
  shows "permit st' = Some ()"
  using assms by (auto simp: admit_def park_permit_def split: write_intent.splits if_splits option.splits sum.splits)

lemma admit_waits:
  "admit api a st sql Elapsed = Some (Inl er, st', a') \<Longrightarrow> needs_permit (write_intent_of sql)"
  by (auto simp: admit_def needs_permit_def Let_def split: write_intent.splits if_splits)

lemma permit_kept:
  assumes step: "admission_step api y e z" and p: "parked y i \<noteq> None"
    and e: "e \<noteq> AClose i"
    and s: "\<And>sql out. e = AAdmit i sql out \<Longrightarrow> write_intent_of sql \<noteq> EndTransaction \<and> write_intent_of sql \<noteq> ReleaseSavepoint"
  shows "parked z i \<noteq> None"
proof -
  consider (admit) sql out where "e = AAdmit i sql out" | (cancel) sql where "e = ACancel i sql"
    | (other) "\<forall>sql out. e \<noteq> AAdmit i sql out" "\<forall>sql. e \<noteq> ACancel i sql" by blast
  then show ?thesis
  proof cases
    case admit
    with step p obtain st r st' a' where "states y i = Some st" "permit st = Some ()"
        "admit api (pool y) st sql out = Some (r, st', a')" "states z i = Some st'"
      by (auto simp: admission_step_def parked_def split: option.splits sum.splits)
    with s [OF admit] show ?thesis by (simp add: parked_def admit_keeps_permit)
  next
    case cancel
    with step p obtain st er st' a' where a: "states y i = Some st" "permit st = Some ()"
        "admit api (pool y) st sql Elapsed = Some (Inl er, st', a')" "states z i = Some st'"
      by (auto simp: admission_step_def parked_def split: option.splits sum.splits)
    with admit_waits [OF a(3)] show ?thesis by (auto simp: parked_def needs_permit_def admit_keeps_permit)
  next
    case other
    with step p e show ?thesis
      by (cases e) (auto simp: admission_step_def parked_def split: option.splits sum.splits if_splits)
  qed
qed

text \<open>Ending a transaction: no wait, no permit taken, the parked one handed to the statement.\<close>

lemma end_transaction_admitted:
  assumes "states y i = Some st" and "inflight y i = None" and "write_intent_of sql = EndTransaction"
  shows "admission_step api y (AAdmit i sql out)
    (y\<lparr>states := (states y)(i \<mapsto> session_state_default), inflight := (inflight y)(i \<mapsto> (sql, permit st))\<rparr>)"
  using assms by (cases st) (simp add: admission_step_def admit_def Let_def session_state_default_def)

section \<open>A pool for the witnesses\<close>

definition counter_api :: "nat semaphore_api" where
  "counter_api =
     \<lparr>sem_new = id, sem_available = id,
      take_permit = (\<lambda>n. case n of 0 \<Rightarrow> None | Suc m \<Rightarrow> Some m), give_back = Suc\<rparr>"

lemma counter_laws: "semaphore_laws counter_api"
  by (auto simp: semaphore_laws_def counter_api_def split: nat.splits)

interpretation pool_machine: executable_lts "admission_exec api" "admission_step api" for api
  by unfold_locales (simp add: admission_step_def)

definition demo_pool :: "nat admission_sys" where
  "demo_pool = admission_start \<lparr>sem = 1, acquire_timeout = 30, permits = 1\<rparr>"

definition demo_admissions :: "admission_event list" where
  "demo_admissions =
     [AOpen 1, AAdmit 1 ''BEGIN'' Completes, AFinish 1, AAdmit 1 ''INSERT INTO t VALUES (1)'' Completes]"

definition demo_writer :: "nat admission_sys" where
  "demo_writer = the (exec_all (admission_exec counter_api) demo_pool demo_admissions)"

lemma demo_pool_init: "admission_init counter_api 1 demo_pool"
  using counter_laws by (force simp: admission_init_def demo_pool_def write_admission_new_def counter_api_def)

lemma demo_admissions_exec: "exec_all (admission_exec counter_api) demo_pool demo_admissions \<noteq> None"
  by code_simp

lemma demo_writer_run: "lts_run (admission_step counter_api) demo_pool demo_admissions demo_writer"
  unfolding demo_writer_def by (rule pool_machine.exec_all_run [OF demo_admissions_exec])

lemma demo_writer_state:
  "states demo_writer 1 = Some \<lparr>begun = True, savepoints = 0, permit = Some ()\<rparr>"
  "inflight demo_writer 1 = Some (''INSERT INTO t VALUES (1)'', None)"
  by code_simp+

section \<open>Properties\<close>



text \<open>
  Fact (a transaction keeps its permit until it ends). Once a transaction's permit is
  parked, only closing the session or a statement that ends the transaction (or releases a
  savepoint) can take it away: no read, no further write, no rollback to a savepoint, no timeout
  and no step of another session.
\<close>

theorem transaction_keeps_permit:
  assumes "admission_step api y e z" and "parked y i \<noteq> None" and "e \<noteq> AClose i"
    and "\<And>sql out. e = AAdmit i sql out \<Longrightarrow>
      write_intent_of sql \<noteq> EndTransaction \<and> write_intent_of sql \<noteq> ReleaseSavepoint"
  shows "parked z i \<noteq> None"
  by (rule permit_kept [OF assms])

theorem transaction_keeps_permit_witness:
  "\<exists>z. admission_step counter_api demo_writer (AFinish 1) z \<and> parked demo_writer 1 \<noteq> None \<and> parked z 1 \<noteq> None"
proof -
  obtain z where z: "admission_step counter_api demo_writer (AFinish 1) z"
    using demo_writer_state(2) by (auto simp: admission_step_def)
  moreover have "parked demo_writer 1 \<noteq> None" using demo_writer_state(1) by (simp add: parked_def)
  ultimately show ?thesis using transaction_keeps_permit [OF z] by blast
qed

text \<open>
  Fact (ending a transaction never waits). In every reachable state, even with no permit
  free, a session with nothing in flight can send its \<^verbatim>\<open>COMMIT\<close>, \<^verbatim>\<open>END\<close> or \<^verbatim>\<open>ROLLBACK\<close> at once:
  the pool is untouched while the round trip lasts, and when it is over the transaction's permit is
  back in the pool and the session is out of its transaction.
\<close>

theorem commit_never_waits:
  assumes "admission_init api n y0" and "lts_run (admission_step api) y0 es y"
    and "states y i = Some st" and "inflight y i = None" and "write_intent_of sql = EndTransaction"
  shows "\<exists>z w. admission_step api y (AAdmit i sql out) z \<and> pool z = pool y \<and> guard_of z i = permit st \<and>
    admission_step api z (AFinish i) w \<and>
    available_permits api (pool w) = available_permits api (pool y) + tok (permit st) \<and>
    states w i = Some session_state_default"
proof -
  have laws: "semaphore_laws api" using assms(1) by (simp add: admission_init_def)
  let ?z = "y\<lparr>states := (states y)(i \<mapsto> session_state_default), inflight := (inflight y)(i \<mapsto> (sql, permit st))\<rparr>"
  let ?w = "?z\<lparr>pool := drop_permit api (permit st) (pool y), inflight := (inflight ?z)(i := None)\<rparr>"
  have "admission_step api ?z (AFinish i) ?w" by (simp add: admission_step_def)
  moreover have "guard_of ?z i = permit st" by (simp add: guard_of_def)
  ultimately show ?thesis
    using end_transaction_admitted [OF assms(3-5), of api out] drop_permit_effect(1) [OF laws, of "permit st" "pool y"]
    by (intro exI [of _ ?z] exI [of _ ?w]) simp
qed

theorem commit_never_waits_witness:
  "\<exists>y z. lts_run (admission_step counter_api) demo_pool (demo_admissions @ [AFinish 1]) y \<and>
     available_permits counter_api (pool y) = 0 \<and> admission_step counter_api y (AAdmit 1 ''commit'' Completes) z"
proof -
  have e: "map_option (\<lambda>y. (states y 1, inflight y 1, sem (pool y)))
      (exec_all (admission_exec counter_api) demo_pool (demo_admissions @ [AFinish 1]))
      = Some (Some \<lparr>begun = True, savepoints = 0, permit = Some ()\<rparr>, None, 0)" by code_simp
  then obtain y where y: "exec_all (admission_exec counter_api) demo_pool (demo_admissions @ [AFinish 1]) = Some y"
      "states y 1 = Some \<lparr>begun = True, savepoints = 0, permit = Some ()\<rparr>" "inflight y 1 = None" "sem (pool y) = 0"
    by auto
  moreover have "write_intent_of ''commit'' = EndTransaction" by code_simp
  moreover have "available_permits counter_api (pool y) = 0"
    using y(4) by (simp add: available_permits_def counter_api_def)
  ultimately show ?thesis
    using commit_never_waits [OF demo_pool_init pool_machine.exec_all_sound [OF y(1)] y(2,3)]
      pool_machine.exec_all_sound [OF y(1)] by blast
qed

text \<open>
  Fact (a timed-out \<^verbatim>\<open>BEGIN IMMEDIATE\<close> still opens the session's transaction). The
  documentation of \<^verbatim>\<open>admit\<close> says a timeout leaves the transaction state untouched; for an eager
  begin it sets \<open>begun\<close> before it waits, so the session believes a transaction is open that the
  server never started, and the permit of its next autocommit write is parked instead of returned.
\<close>

theorem begin_immediate_timeout_opens_transaction:
  assumes "semaphore_laws api" and "write_intent_of sql = BeginImmediate" and "permit st = None"
    and "write_intent_of sql' = Write" and "0 < available_permits api a"
  shows "\<exists>e a' st'. admit api a st sql Elapsed = Some (Inl e, st\<lparr>begun := True\<rparr>, a) \<and>
    admit api a (st\<lparr>begun := True\<rparr>) sql' Completes = Some (Inr None, st', a') \<and> permit st' = Some ()"
proof -
  have "take_permit api (sem a) \<noteq> None"
    using assms(1,5) by (metis semaphore_laws_def available_permits_def less_numeral_extra(3))
  then obtain s' where "take_permit api (sem a) = Some s'" by blast
  with assms show ?thesis by (simp add: admit_def park_permit_def in_transaction_def)
qed

theorem begin_immediate_timeout_opens_transaction_witness:
  "write_intent_of ''BEGIN IMMEDIATE'' = BeginImmediate \<and>
   (\<exists>e a'. admit counter_api \<lparr>sem = 1, acquire_timeout = 30, permits = 1\<rparr> session_state_default ''BEGIN IMMEDIATE'' Elapsed
      = Some (Inl e, session_state_default\<lparr>begun := True\<rparr>, a'))"
proof -
  have w: "write_intent_of ''BEGIN IMMEDIATE'' = BeginImmediate" "write_intent_of ''DELETE FROM t'' = Write"
    by code_simp+
  have "0 < available_permits counter_api \<lparr>sem = 1, acquire_timeout = 30, permits = 1\<rparr>"
    by (simp add: available_permits_def counter_api_def)
  from begin_immediate_timeout_opens_transaction [OF counter_laws w(1) state_ok_default(2) w(2) this] w(1)
  show ?thesis by blast
qed

end
