(* ===== verification/Conn_Limit.thy ===== *)
theory Conn_Limit
  imports LW_Prelude
begin

text \<open>
  The accept-time connection cap (\<^verbatim>\<open>src/crates/litewire-backend/src/conn_limit.rs\<close>): the
  compare-exchange loop of \<^verbatim>\<open>try_acquire\<close>, one atomic access of the shared counter at a time, and
  the slots that give their seat back when dropped, for any number of accepting tasks.
  \<^verbatim>\<open>usize\<close> is a 64-bit word.
\<close>

section \<open>The limiter and its tasks\<close>

record limiter =
  limit :: "u64 option"
  live :: u64

definition limiter_new :: "u64 \<Rightarrow> limiter" where
  "limiter_new cap = \<lparr>limit = (if 0 < cap then Some cap else None), live = 0\<rparr>"

definition limiter_unlimited :: limiter where
  "limiter_unlimited = limiter_new 0"

text \<open>
  Where a task is in \<^verbatim>\<open>try_acquire\<close>: before its first access, in the loop with the value it last
  read in \<^verbatim>\<open>current\<close>, holding a slot, or refused.
\<close>

datatype slot_pc = Entered | Loop u64 | HasSlot | Refused

text \<open>
  One atomic access. \<^verbatim>\<open>compare_exchange_weak\<close> may fail although the values agree, which is the
  argument \<open>spurious\<close>; a failure hands back the value it saw.
\<close>

fun slot_step :: "bool \<Rightarrow> limiter \<Rightarrow> slot_pc \<Rightarrow> slot_pc \<times> limiter" where
  "slot_step spurious lim Entered =
     (case limit lim of
        None \<Rightarrow> (HasSlot, lim\<lparr>live := live lim + 1\<rparr>)
      | Some l \<Rightarrow> (Loop (live lim), lim))"
| "slot_step spurious lim (Loop current) =
     (case limit lim of
        None \<Rightarrow> (Loop current, lim)
      | Some l \<Rightarrow>
          if l \<le> current then (Refused, lim)
          else if live lim = current \<and> \<not> spurious then (HasSlot, lim\<lparr>live := current + 1\<rparr>)
          else (Loop (live lim), lim))"
| "slot_step spurious lim HasSlot = (HasSlot, lim)"
| "slot_step spurious lim Refused = (Refused, lim)"

text \<open>\<^verbatim>\<open>impl Drop for ConnectionSlot\<close>\<close>

definition drop_slot :: "limiter \<Rightarrow> limiter" where
  "drop_slot lim = lim\<lparr>live := live lim - 1\<rparr>"

record accept_sys =
  lim :: limiter
  tasks :: "nat \<Rightarrow> slot_pc option"

datatype accept_event = Arrive nat | Access nat bool | Leave nat

inductive accept_step :: "accept_sys \<Rightarrow> accept_event \<Rightarrow> accept_sys \<Rightarrow> bool" where
  arrive: "tasks y t = None \<Longrightarrow> accept_step y (Arrive t) (y\<lparr>tasks := (tasks y)(t \<mapsto> Entered)\<rparr>)"
| access: "tasks y t = Some p \<Longrightarrow> slot_step b (lim y) p = (p', l') \<Longrightarrow>
     accept_step y (Access t b) (y\<lparr>lim := l', tasks := (tasks y)(t \<mapsto> p')\<rparr>)"
| leave_refused: "tasks y t = Some Refused \<Longrightarrow> accept_step y (Leave t) (y\<lparr>tasks := (tasks y)(t := None)\<rparr>)"
| leave_slot: "tasks y t = Some HasSlot \<Longrightarrow>
     accept_step y (Leave t) (y\<lparr>lim := drop_slot (lim y), tasks := (tasks y)(t := None)\<rparr>)"

inductive_cases accept_stepE: "accept_step y e z"

definition accept_init :: "u64 \<Rightarrow> accept_sys" where
  "accept_init cap = \<lparr>lim = limiter_new cap, tasks = Map.empty\<rparr>"

definition slots :: "accept_sys \<Rightarrow> nat set" where
  "slots y = {t. tasks y t = Some HasSlot}"

section \<open>The counter counts the slots\<close>

definition accept_inv :: "u64 \<Rightarrow> accept_sys \<Rightarrow> bool" where
  "accept_inv cap y \<longleftrightarrow>
     finite (slots y) \<and> live (lim y) = of_nat (card (slots y)) \<and>
     limit (lim y) = (if 0 < cap then Some cap else None) \<and>
     (0 < cap \<longrightarrow> card (slots y) \<le> unat cap)"

lemma slots_update [simp]:
  "slots (y\<lparr>lim := l, tasks := (tasks y)(t := p)\<rparr>) = (if p = Some HasSlot then insert t (slots y) else slots y - {t})"
  "slots (y\<lparr>tasks := (tasks y)(t := p)\<rparr>) = (if p = Some HasSlot then insert t (slots y) else slots y - {t})"
  by (auto simp: slots_def)

lemma slots_other: "tasks y t \<noteq> Some HasSlot \<Longrightarrow> slots y - {t} = slots y"
  by (auto simp: slots_def)

text \<open>Below the cap the counter holds the number of slots itself, not only modulo the word size.\<close>

lemma live_exact:
  assumes "accept_inv cap y" and "0 < cap"
  shows "unat (live (lim y)) = card (slots y)"
proof -
  have "unat cap < 2 ^ 64" by (rule order_less_le_trans [OF unsigned_less]) simp
  with assms have "card (slots y) < 2 ^ 64" by (simp add: accept_inv_def)
  with assms(1) show ?thesis by (simp add: accept_inv_def unsigned_of_nat take_bit_nat_eq_self)
qed

lemma accept_inv_access:
  assumes inv: "accept_inv cap y" and p: "tasks y t = Some p" and s: "slot_step b (lim y) p = (p', l')"
  shows "accept_inv cap (y\<lparr>lim := l', tasks := (tasks y)(t \<mapsto> p')\<rparr>)"
proof (cases "p' = HasSlot \<and> p \<noteq> HasSlot")
  case True
  then have t: "t \<notin> slots y" using p by (simp add: slots_def)
  from True s have l': "l' = (lim y)\<lparr>live := live (lim y) + 1\<rparr>"
    and room: "0 < cap \<Longrightarrow> live (lim y) < cap"
    using inv by (cases p; auto simp: accept_inv_def split: option.splits if_splits)+
  have "0 < cap \<Longrightarrow> Suc (card (slots y)) \<le> unat cap"
    using room live_exact [OF inv] by (simp add: word_less_nat_alt)
  with inv True t l' show ?thesis by (auto simp: accept_inv_def)
next
  case False
  then have "l' = lim y" and "p' = HasSlot \<longleftrightarrow> p = HasSlot"
    using s by (cases p; auto split: option.splits if_splits)+
  moreover from this p have "slots (y\<lparr>lim := l', tasks := (tasks y)(t \<mapsto> p')\<rparr>) = slots y"
    by (auto simp: slots_def split: if_splits)
  ultimately show ?thesis using inv by (simp add: accept_inv_def del: slots_update)
qed

lemma accept_inv_step: "accept_inv cap y \<Longrightarrow> accept_step y e z \<Longrightarrow> accept_inv cap z"
proof (erule accept_stepE, goal_cases)
  case (4 t)
  then have t: "t \<in> slots y" "finite (slots y)" by (auto simp: slots_def accept_inv_def)
  then have "card (slots y) = Suc (card (slots y - {t}))" by (metis card_Suc_Diff1)
  with 4 t show ?case by (auto simp: accept_inv_def drop_slot_def simp del: card_Diff_insert)
qed (auto simp: accept_inv_access, auto simp: accept_inv_def slots_other)

interpretation accept_loop: lts_invariant accept_step "\<lambda>y. y = accept_init cap" "accept_inv cap" for cap
proof
  show "s = accept_init cap \<Longrightarrow> accept_inv cap s" for s
    by (simp add: accept_inv_def accept_init_def limiter_new_def slots_def)
qed (rule accept_inv_step)

section \<open>Properties\<close>

fun accept_exec :: "accept_sys \<Rightarrow> accept_event \<Rightarrow> accept_sys option" where
  "accept_exec y (Arrive t) =
     (if tasks y t = None then Some (y\<lparr>tasks := (tasks y)(t \<mapsto> Entered)\<rparr>) else None)"
| "accept_exec y (Access t b) =
     (case tasks y t of None \<Rightarrow> None
      | Some p \<Rightarrow> (case slot_step b (lim y) p of (p', l') \<Rightarrow> Some (y\<lparr>lim := l', tasks := (tasks y)(t \<mapsto> p')\<rparr>)))"
| "accept_exec y (Leave t) =
     (case tasks y t of
        Some Refused \<Rightarrow> Some (y\<lparr>tasks := (tasks y)(t := None)\<rparr>)
      | Some HasSlot \<Rightarrow> Some (y\<lparr>lim := drop_slot (lim y), tasks := (tasks y)(t := None)\<rparr>)
      | _ \<Rightarrow> None)"

lemma accept_exec_sound: "accept_exec y e = Some z \<Longrightarrow> accept_step y e z"
  by (cases e) (auto split: if_splits option.splits prod.splits slot_pc.splits intro: accept_step.intros)

interpretation accept_machine: executable_lts accept_exec accept_step
  by unfold_locales (rule accept_exec_sound)

definition demo_accept_events :: "accept_event list" where
  "demo_accept_events = [Arrive 7, Arrive 8, Access 7 False, Access 8 False, Access 7 False, Access 8 False, Access 8 False]"

definition demo_accept :: accept_sys where
  "demo_accept = the (exec_all accept_exec (accept_init 1) demo_accept_events)"

lemma demo_accept_exec: "\<not> Option.is_none (exec_all accept_exec (accept_init 1) demo_accept_events)"
  by code_simp

lemma demo_accept_run: "lts_run accept_step (accept_init 1) demo_accept_events demo_accept"
  using demo_accept_exec unfolding demo_accept_def Option.is_none_def
  by (rule accept_machine.exec_all_run)

text \<open>
  Property C22 (the cap holds at every instant). In every interleaving of accepting tasks, spurious
  compare-exchange failures included, the counter is the number of live slots, and with a cap
  configured neither the number of slots nor the published counter ever exceeds it.
\<close>

theorem connection_cap:
  assumes "lts_run accept_step (accept_init cap) es y" and "0 < cap"
  shows "finite (slots y) \<and> unat (live (lim y)) = card (slots y) \<and> live (lim y) \<le> cap"
proof -
  have inv: "accept_inv cap y" using accept_loop.inv_run assms(1) by blast
  with live_exact [OF inv assms(2)] assms(2) show ?thesis
    by (auto simp: accept_inv_def word_le_nat_alt)
qed

theorem connection_cap_witness:
  "lts_run accept_step (accept_init 1) demo_accept_events demo_accept \<and> live (lim demo_accept) \<le> 1"
  using connection_cap [OF demo_accept_run] demo_accept_run by simp

text \<open>
  Fact (a free seat is given, a full house refuses). A task whose accesses nobody
  interleaves and whose compare-exchange does not fail spuriously decides after two accesses: it
  gets a slot exactly when the counter is below the cap, and a refusal leaves the counter alone.
\<close>

theorem try_acquire_decides:
  assumes "limit l = Some cap"
  shows "slot_step b l Entered = (Loop (live l), l) \<and>
    slot_step False l (Loop (live l)) =
      (if live l < cap then (HasSlot, l\<lparr>live := live l + 1\<rparr>) else (Refused, l))"
  using assms by (simp add: not_less)

theorem try_acquire_decides_witness:
  "slot_step False \<lparr>limit = Some 2, live = 2\<rparr> (Loop 2) = (Refused, \<lparr>limit = Some 2, live = 2\<rparr>)"
  using try_acquire_decides [of "\<lparr>limit = Some 2, live = 2\<rparr>" 2] by simp

end
