(* ===== verification/Command_Filter.thy ===== *)
theory Command_Filter
  imports Rust_Str
begin

unbundle bit_operations_syntax

text \<open>
  The MySQL command filter between the socket and the protocol library
  (\<^verbatim>\<open>src/crates/litewire-mysql/src/command_filter.rs\<close>): the byte-level state machine behind
  \<^verbatim>\<open>poll_read\<close>, one loop iteration per \<open>filter_iter\<close>, and the packets it synthesises.

  The socket is the environment: \<open>reader\<close> lists what its read half will answer (a chunk, not
  ready, an error; at the end of the list the peer has closed), \<open>write_script\<close> how its write half
  takes bytes (at the end of the list it takes everything), and \<open>sent\<close> is what reached the client.
  A \<^verbatim>\<open>ReadBuf\<close> is the room it has left and the bytes put into it by this call.
\<close>

section \<open>Command bytes and packets\<close>

definition COM_QUIT :: u8 where "COM_QUIT = 0x01"
definition COM_INIT_DB :: u8 where "COM_INIT_DB = 0x02"
definition COM_QUERY :: u8 where "COM_QUERY = 0x03"
definition COM_FIELD_LIST :: u8 where "COM_FIELD_LIST = 0x04"
definition COM_PING :: u8 where "COM_PING = 0x0e"
definition COM_CHANGE_USER :: u8 where "COM_CHANGE_USER = 0x11"
definition COM_STMT_PREPARE :: u8 where "COM_STMT_PREPARE = 0x16"
definition COM_STMT_EXECUTE :: u8 where "COM_STMT_EXECUTE = 0x17"
definition COM_STMT_SEND_LONG_DATA :: u8 where "COM_STMT_SEND_LONG_DATA = 0x18"
definition COM_STMT_CLOSE :: u8 where "COM_STMT_CLOSE = 0x19"
definition COM_STMT_RESET :: u8 where "COM_STMT_RESET = 0x1a"
definition COM_RESET_CONNECTION :: u8 where "COM_RESET_CONNECTION = 0x1f"
definition ER_UNKNOWN_COM_ERROR :: u16 where "ER_UNKNOWN_COM_ERROR = 1047"
definition HEADER_LEN :: nat where "HEADER_LEN = 4"
definition HEADER_AND_COMMAND :: nat where "HEADER_AND_COMMAND = HEADER_LEN + 1"

lemmas filter_lens [simp] = HEADER_LEN_def HEADER_AND_COMMAND_def

definition str_bytes :: "string \<Rightarrow> bytes" where
  "str_bytes s = map of_char s"

definition UNKNOWN_COM_SQLSTATE :: bytes where "UNKNOWN_COM_SQLSTATE = str_bytes ''08S01''"

definition is_handled_upstream :: "u8 \<Rightarrow> bool" where
  "is_handled_upstream command \<longleftrightarrow>
     command \<in> set [COM_QUIT, COM_INIT_DB, COM_QUERY, COM_FIELD_LIST, COM_PING, COM_STMT_PREPARE,
       COM_STMT_EXECUTE, COM_STMT_SEND_LONG_DATA, COM_STMT_CLOSE]"

definition ping_packet :: "u8 \<Rightarrow> bytes" where
  "ping_packet seq = [0x01, 0x00, 0x00, seq, COM_PING]"

definition err_packet :: "u8 \<Rightarrow> u16 \<Rightarrow> bytes \<Rightarrow> bytes \<Rightarrow> bytes" where
  "err_packet seq code sqlstate message =
     (let payload_len = 1 + 2 + 1 + length sqlstate + length message;
          n = of_nat payload_len :: u64
      in [ucast (n AND 0xff), ucast (drop_bit 8 n AND 0xff), ucast (drop_bit 16 n AND 0xff), seq, 0xff,
          ucast code, ucast (drop_bit 8 code), 0x23] @ sqlstate @ message)"

text \<open>\<^verbatim>\<open>format!("0x{command:02x}")\<close>\<close>

definition hex_digit :: "u8 \<Rightarrow> u8" where
  "hex_digit n = (if n < 10 then 48 + n else 87 + n)"

definition command_name :: "u8 \<Rightarrow> bytes" where
  "command_name command = str_bytes ''0x'' @ [hex_digit (drop_bit 4 command), hex_digit (command AND 0xf)]"

text \<open>\<^verbatim>\<open>u32::from_le_bytes([h[0], h[1], h[2], 0]) as usize\<close>\<close>

definition payload_len :: "bytes \<Rightarrow> nat" where
  "payload_len h = unat (ucast (h ! 0) + 256 * ucast (h ! 1) + 65536 * ucast (h ! 2) :: u32)"

section \<open>The state machine\<close>

datatype action = Substitute bytes | Reply bytes

datatype fstate =
    Head bytes nat
  | Emit bytes nat nat nat
  | Pass nat
  | Drain nat action
  | Write bytes nat
  | Eof

definition head :: fstate where
  "head = Head [0, 0, 0, 0, 0] 0"

datatype read_event = Chunk bytes | RNotReady | RFail
datatype write_event = WAccept nat | WNotReady | WFail

datatype io_error = ReadFailed | WriteFailed | WriteZero

record command_filter =
  reader :: "read_event list"
  write_script :: "write_event list"
  sent :: bytes
  reset_pending :: bool
  allow_change_user :: bool
  fst_state :: fstate

definition filter_new :: "read_event list \<Rightarrow> write_event list \<Rightarrow> bool \<Rightarrow> command_filter" where
  "filter_new r w allow =
     \<lparr>reader = r, write_script = w, sent = [], reset_pending = False, allow_change_user = allow, fst_state = head\<rparr>"

datatype 'a poll = Ready 'a | Failed io_error | Pending

text \<open>\<^verbatim>\<open>poll_read\<close> of the socket into a buffer of \<open>cap\<close> bytes; no bytes is the end of the stream.\<close>

fun socket_read :: "nat \<Rightarrow> read_event list \<Rightarrow> bytes poll \<times> read_event list" where
  "socket_read cap [] = (Ready [], [])"
| "socket_read cap (RNotReady # r) = (Pending, r)"
| "socket_read cap (RFail # r) = (Failed ReadFailed, r)"
| "socket_read cap (Chunk bs # r) =
     (Ready (take cap bs), if length bs \<le> cap then r else Chunk (drop cap bs) # r)"

fun socket_write :: "bytes \<Rightarrow> write_event list \<Rightarrow> nat poll \<times> write_event list" where
  "socket_write bs [] = (Ready (length bs), [])"
| "socket_write bs (WNotReady # w) = (Pending, w)"
| "socket_write bs (WFail # w) = (Failed WriteFailed, w)"
| "socket_write bs (WAccept n # w) = (Ready (min n (length bs)), w)"

fun socket_flush :: "write_event list \<Rightarrow> unit poll \<times> write_event list" where
  "socket_flush (WNotReady # w) = (Pending, w)"
| "socket_flush (WFail # w) = (Failed WriteFailed, w)"
| "socket_flush w = (Ready (), w)"

definition classify :: "command_filter \<Rightarrow> bytes \<Rightarrow> nat \<Rightarrow> command_filter" where
  "classify f header body =
     (let command = header ! HEADER_LEN; seq = header ! 3 in
      if is_handled_upstream command then f\<lparr>fst_state := Emit header 0 HEADER_AND_COMMAND body\<rparr>
      else
        let (no_op, f') =
          (if command = COM_STMT_RESET then (True, f)
           else if command = COM_RESET_CONNECTION then (True, f\<lparr>reset_pending := True\<rparr>)
           else if command = COM_CHANGE_USER \<and> allow_change_user f then (True, f\<lparr>reset_pending := True\<rparr>)
           else (False, f))
        in if no_op then f'\<lparr>fst_state := Drain body (Substitute (ping_packet seq))\<rparr>
           else f'\<lparr>fst_state := Drain body (Reply (err_packet (seq + 1) ER_UNKNOWN_COM_ERROR
                    UNKNOWN_COM_SQLSTATE (str_bytes ''Unknown command '' @ command_name command)))\<rparr>)"

text \<open>
  The inner loop of the \<^verbatim>\<open>Write\<close> arm: \<^verbatim>\<open>while *pos < packet.len()\<close>. The progress made is kept when
  the writer is not ready or fails.
\<close>

function write_loop :: "bytes \<Rightarrow> nat \<Rightarrow> write_event list \<Rightarrow> unit poll \<times> nat \<times> write_event list" where
  "write_loop packet pos w =
     (if length packet \<le> pos then (Ready (), pos, w)
      else case socket_write (drop pos packet) w of
          (Pending, w') \<Rightarrow> (Pending, pos, w')
        | (Failed e, w') \<Rightarrow> (Failed e, pos, w')
        | (Ready n, w') \<Rightarrow> (if n = 0 then (Failed WriteZero, pos, w') else write_loop packet (pos + n) w'))"
  by pat_completeness auto
termination by (relation "measure (\<lambda>(packet, pos, w). length packet - pos)") auto

declare write_loop.simps [simp del]

datatype iter = Continue command_filter bytes | Return "unit poll" command_filter bytes

text \<open>
  One iteration of the loop of \<^verbatim>\<open>poll_read\<close> on a buffer with room for \<open>cap\<close> bytes, of which this
  call has filled \<open>out\<close>.
\<close>

definition filter_iter :: "nat \<Rightarrow> command_filter \<Rightarrow> bytes \<Rightarrow> iter" where
  "filter_iter cap f out =
     (let room = cap - length out in
      case fst_state f of
        Eof \<Rightarrow> Return (Ready ()) f out
      | Write packet pos \<Rightarrow>
          (case write_loop packet pos (write_script f) of (res, pos', w') \<Rightarrow>
             (let f1 = f\<lparr>write_script := w', sent := sent f @ take (pos' - pos) (drop pos packet),
                         fst_state := Write packet pos'\<rparr> in
              case res of
                Pending \<Rightarrow> Return Pending f1 out
              | Failed e \<Rightarrow> Return (Failed e) f1 out
              | Ready _ \<Rightarrow>
                  (case socket_flush w' of
                     (Pending, w'') \<Rightarrow> Return Pending (f1\<lparr>write_script := w''\<rparr>) out
                   | (Failed e, w'') \<Rightarrow> Return (Failed e) (f1\<lparr>write_script := w''\<rparr>) out
                   | (Ready _, w'') \<Rightarrow> Continue (f1\<lparr>write_script := w'', fst_state := head\<rparr>) out)))
      | Head buf have \<Rightarrow>
          (let need = (if have < HEADER_LEN then HEADER_LEN else HEADER_AND_COMMAND) in
           case socket_read (need - have) (reader f) of
             (Pending, r') \<Rightarrow> Return Pending (f\<lparr>reader := r'\<rparr>) out
           | (Failed e, r') \<Rightarrow> Return (Failed e) (f\<lparr>reader := r'\<rparr>) out
           | (Ready got, r') \<Rightarrow>
               (let n = length got; f1 = f\<lparr>reader := r'\<rparr> in
                if n = 0 then Return (Ready ()) (f1\<lparr>fst_state := Eof\<rparr>) out
                else
                  let header = take have buf @ got @ drop (have + n) buf;
                      have' = have + n;
                      f2 = f1\<lparr>fst_state := Head header have'\<rparr>
                  in if have' < HEADER_LEN then Continue f2 out
                     else if payload_len header = 0 then
                       Continue (f1\<lparr>fst_state := Emit header 0 HEADER_LEN 0\<rparr>) out
                     else if have' < HEADER_AND_COMMAND then Continue f2 out
                     else if header ! 3 = 0 then Continue (classify f1 header (payload_len header - 1)) out
                     else Continue (f1\<lparr>fst_state := Emit header 0 HEADER_AND_COMMAND (payload_len header - 1)\<rparr>) out))
      | Emit buf pos len body \<Rightarrow>
          (if room = 0 then Return (Ready ()) f out
           else
             let n = min (len - pos) room;
                 out' = out @ take n (drop pos buf);
                 pos' = pos + n
             in if pos' < len then Return (Ready ()) (f\<lparr>fst_state := Emit buf pos' len body\<rparr>) out'
                else if body = 0 then Return (Ready ()) (f\<lparr>fst_state := head\<rparr>) out'
                else Continue (f\<lparr>fst_state := Pass body\<rparr>) out')
      | Pass remaining \<Rightarrow>
          (let c = min remaining room in
           if c = 0 then Return (Ready ()) f out
           else case socket_read c (reader f) of
               (Pending, r') \<Rightarrow> Return (if out \<noteq> [] then Ready () else Pending) (f\<lparr>reader := r'\<rparr>) out
             | (Failed e, r') \<Rightarrow> Return (Failed e) (f\<lparr>reader := r'\<rparr>) out
             | (Ready got, r') \<Rightarrow>
                 (let n = length got; f1 = f\<lparr>reader := r'\<rparr> in
                  if n = 0 then Return (Ready ()) (f1\<lparr>fst_state := Eof\<rparr>) out
                  else Return (Ready ())
                         (f1\<lparr>fst_state := (if remaining - n = 0 then head else Pass (remaining - n))\<rparr>)
                         (out @ got)))
      | Drain remaining act \<Rightarrow>
          (if 0 < remaining then
             (case socket_read (min remaining 256) (reader f) of
                (Pending, r') \<Rightarrow> Return Pending (f\<lparr>reader := r'\<rparr>) out
              | (Failed e, r') \<Rightarrow> Return (Failed e) (f\<lparr>reader := r'\<rparr>) out
              | (Ready got, r') \<Rightarrow>
                  (let n = length got; f1 = f\<lparr>reader := r'\<rparr> in
                   if n = 0 then Return (Ready ()) (f1\<lparr>fst_state := Eof\<rparr>) out
                   else Continue (f1\<lparr>fst_state := Drain (remaining - n) act\<rparr>) out))
           else Continue (f\<lparr>fst_state := (case act of
                    Substitute buf \<Rightarrow> Emit buf 0 HEADER_AND_COMMAND 0
                  | Reply packet \<Rightarrow> Write packet 0)\<rparr>) out))"

section \<open>The loop ends\<close>

fun script_size :: "read_event list \<Rightarrow> nat" where
  "script_size [] = 0"
| "script_size (Chunk bs # r) = Suc (length bs) + script_size r"
| "script_size (e # r) = Suc (script_size r)"

fun rank :: "fstate \<Rightarrow> nat" where
  "rank (Drain n a) = 3"
| "rank (Write p n) = 2"
| "rank (Emit b p l n) = 2"
| "rank (Head b n) = 1"
| "rank (Pass n) = 1"
| "rank Eof = 0"

lemma rank_head [simp]: "rank head = 1"
  by (simp add: head_def)

lemma socket_read_shrinks:
  "socket_read cap r = (Ready got, r') \<Longrightarrow> got \<noteq> [] \<Longrightarrow> script_size r' < script_size r"
  by (cases "(cap, r)" rule: socket_read.cases) (auto split: if_splits)

lemma classify_keeps:
  "reader (classify f h n) = reader f" "write_script (classify f h n) = write_script f" "sent (classify f h n) = sent f"
  "allow_change_user (classify f h n) = allow_change_user f"
  by (simp_all add: classify_def Let_def)

lemma filter_iter_decreases:
  assumes "filter_iter cap f out = Continue f' out'"
  shows "script_size (reader f') < script_size (reader f) \<or>
    script_size (reader f') = script_size (reader f) \<and> rank (fst_state f') < rank (fst_state f)"
proof (cases "fst_state f")
  case (Head buf hv)
  with assms obtain got r' where
      "socket_read ((if hv < HEADER_LEN then HEADER_LEN else HEADER_AND_COMMAND) - hv) (reader f) = (Ready got, r')"
      "got \<noteq> []" "reader f' = r'"
    by (auto simp: filter_iter_def Let_def classify_keeps split: poll.splits prod.splits if_splits)
  then show ?thesis using socket_read_shrinks by blast
next
  case (Drain n a)
  then show ?thesis
    using assms socket_read_shrinks
    by (fastforce simp: filter_iter_def Let_def split: poll.splits prod.splits if_splits action.splits)
qed (use assms in \<open>auto simp: filter_iter_def Let_def split: poll.splits prod.splits if_splits\<close>)

function poll_read :: "nat \<Rightarrow> command_filter \<Rightarrow> bytes \<Rightarrow> unit poll \<times> command_filter \<times> bytes" where
  "poll_read cap f out =
     (case filter_iter cap f out of
        Return res f' out' \<Rightarrow> (res, f', out')
      | Continue f' out' \<Rightarrow> poll_read cap f' out')"
  by pat_completeness auto
termination
proof (relation "measures [\<lambda>(cap, f, out). script_size (reader f), \<lambda>(cap, f, out). rank (fst_state f)]", goal_cases)
  case (2 cap f out f' out')
  then show ?case using filter_iter_decreases by fastforce
qed simp

declare poll_read.simps [simp del]

section \<open>The packet-level specification\<close>

text \<open>
  What a byte stream means, with no chunks, buffers or states: the bytes handed to the protocol
  library, the bytes sent to the client, and whether a session reset is due.
\<close>

type_synonym filtered = "bytes \<times> bytes \<times> bool"

definition then_also :: "filtered \<Rightarrow> filtered \<Rightarrow> filtered" where
  "then_also a b = (fst a @ fst b, fst (snd a) @ fst (snd b), snd (snd a) \<or> snd (snd b))"

definition unknown_command_reply :: "bytes \<Rightarrow> bytes" where
  "unknown_command_reply h =
     err_packet (h ! 3 + 1) ER_UNKNOWN_COM_ERROR UNKNOWN_COM_SQLSTATE
       (str_bytes ''Unknown command '' @ command_name (h ! 4))"

text \<open>The answer to one intercepted command, and the reset it asks for.\<close>

definition housekeeping :: "bool \<Rightarrow> u8 \<Rightarrow> bool" where
  "housekeeping allow command \<longleftrightarrow>
     command = COM_STMT_RESET \<or> command = COM_RESET_CONNECTION \<or> command = COM_CHANGE_USER \<and> allow"

definition asks_reset :: "bool \<Rightarrow> u8 \<Rightarrow> bool" where
  "asks_reset allow command \<longleftrightarrow> command = COM_RESET_CONNECTION \<or> command = COM_CHANGE_USER \<and> allow"

definition announced_length :: "bytes \<Rightarrow> nat" where
  "announced_length s = unat (s ! 0) + 256 * unat (s ! 1) + 65536 * unat (s ! 2)"

function packets_spec :: "bool \<Rightarrow> bytes \<Rightarrow> filtered" where
  "packets_spec allow s =
     (if length s < 4 then ([], [], False)
      else if announced_length s = 0 then then_also (take 4 s, [], False) (packets_spec allow (drop 4 s))
      else if length s < 5 then ([], [], False)
      else
        let total = 4 + announced_length s; command = s ! 4; rest = packets_spec allow (drop total s) in
        if s ! 3 \<noteq> 0 \<or> is_handled_upstream command then then_also (take total s, [], False) rest
        else if length s < total then ([], [], asks_reset allow command)
        else if housekeeping allow command then
          then_also (ping_packet (s ! 3), [], asks_reset allow command) rest
        else then_also ([], unknown_command_reply s, False) rest)"
  by pat_completeness auto
termination by (relation "measure (\<lambda>(allow, s). length s)") auto

declare packets_spec.simps [simp del]

lemma announced_length_payload_len [simp, code]: "announced_length h = payload_len h"
proof -
  have b: "unat (h ! i) < 256" for i using unsigned_less [of "h ! i"] by simp
  have e: "ucast (h ! 0) + 256 * ucast (h ! 1) + 65536 * ucast (h ! 2) = (of_nat (announced_length h) :: u32)"
    by (simp add: announced_length_def unsigned_ucast_eq)
  have "announced_length h < 2 ^ 32" using b [of 0] b [of 1] b [of 2] by (simp add: announced_length_def)
  then show ?thesis unfolding payload_len_def e by (simp add: unsigned_of_nat take_bit_nat_eq_self)
qed

section \<open>The state machine implements the specification\<close>

fun stream :: "read_event list \<Rightarrow> bytes" where
  "stream [] = []"
| "stream (Chunk bs # r) = bs @ stream r"
| "stream (e # r) = stream r"

definition script_ok :: "read_event list \<Rightarrow> bool" where
  "script_ok r \<longleftrightarrow> Chunk [] \<notin> set r"

fun action_effect :: "action \<Rightarrow> filtered" where
  "action_effect (Substitute p) = (take 5 p, [], False)"
| "action_effect (Reply p) = ([], p, False)"

text \<open>What the machine will still do, from a state and the bytes to come.\<close>

fun future :: "bool \<Rightarrow> fstate \<Rightarrow> bytes \<Rightarrow> filtered" where
  "future allow (Head buf hv) rest = packets_spec allow (take hv buf @ rest)"
| "future allow (Emit buf pos len body) rest =
     then_also (take (len - pos) (drop pos buf) @ take body rest, [], False) (packets_spec allow (drop body rest))"
| "future allow (Pass n) rest = then_also (take n rest, [], False) (packets_spec allow (drop n rest))"
| "future allow (Drain n act) rest =
     (if length rest < n then ([], [], False)
      else then_also (action_effect act) (packets_spec allow (drop n rest)))"
| "future allow (Write p pos) rest = then_also ([], drop pos p, False) (packets_spec allow rest)"
| "future allow Eof rest = ([], [], False)"

fun fstate_ok :: "fstate \<Rightarrow> bool" where
  "fstate_ok (Head buf hv) \<longleftrightarrow> length buf = 5 \<and> hv \<le> 4 \<and> (hv = 4 \<longrightarrow> payload_len buf \<noteq> 0)"
| "fstate_ok (Emit buf pos len body) \<longleftrightarrow> length buf = 5 \<and> 0 < len \<and> len \<le> 5 \<and> pos < len"
| "fstate_ok (Pass n) \<longleftrightarrow> 0 < n"
| "fstate_ok (Drain n (Substitute p)) \<longleftrightarrow> length p = 5"
| "fstate_ok (Write p pos) \<longleftrightarrow> pos \<le> length p"
| "fstate_ok st \<longleftrightarrow> True"

definition filter_ok :: "command_filter \<Rightarrow> bool" where
  "filter_ok f \<longleftrightarrow> script_ok (reader f) \<and> fstate_ok (fst_state f)"

text \<open>All a run has done and will do: invariant under every iteration.\<close>

definition account :: "command_filter \<Rightarrow> bytes \<Rightarrow> filtered" where
  "account f out =
     then_also (out, sent f, reset_pending f) (future (allow_change_user f) (fst_state f) (stream (reader f)))"

lemma fstate_ok_head [simp]: "fstate_ok head"
  by (simp add: head_def)

lemma future_head [simp]: "future allow head rest = packets_spec allow rest"
  by (simp add: head_def)

lemma packets_spec_short: "length s < 4 \<Longrightarrow> packets_spec allow s = ([], [], False)"
  by (simp add: packets_spec.simps)

lemma packets_spec_Nil [simp]: "packets_spec allow [] = ([], [], False)"
  by (simp add: packets_spec_short)

lemma socket_read_stream:
  assumes "socket_read cap r = (res, r')" and "script_ok r"
  shows "script_ok r'"
    and "case res of Ready got \<Rightarrow> stream r = got @ stream r' \<and> length got \<le> cap | _ \<Rightarrow> stream r = stream r'"
    and "res = Ready [] \<Longrightarrow> 0 < cap \<Longrightarrow> stream r = [] \<and> r' = []"
  using assms by (cases "(cap, r)" rule: socket_read.cases; auto simp: script_ok_def split: if_splits)+

lemma write_loop_progress:
  assumes "write_loop packet pos w = (res, pos', w')" and "pos \<le> length packet"
  shows "pos \<le> pos' \<and> pos' \<le> length packet \<and> (res = Ready () \<longrightarrow> pos' = length packet)"
  using assms
proof (induction packet pos w rule: write_loop.induct)
  case (1 packet pos w)
  show ?case
  proof (cases "\<exists>n w1. socket_write (drop pos packet) w = (Ready n, w1) \<and> 0 < n \<and> pos < length packet")
    case True
    then obtain n w1 where n: "socket_write (drop pos packet) w = (Ready n, w1)" "0 < n" "pos < length packet" by blast
    then have "pos + n \<le> length packet" by (cases "(drop pos packet, w)" rule: socket_write.cases) auto
    with 1 n show ?thesis by (auto simp: write_loop.simps [of packet pos w])
  next
    case False
    with 1(2,3) show ?thesis
      by (subst (asm) (1) write_loop.simps) (auto split: if_splits poll.splits prod.splits)
  qed
qed

fun iter_next :: "iter \<Rightarrow> command_filter \<times> bytes" where
  "iter_next (Continue f out) = (f, out)"
| "iter_next (Return res f out) = (f, out)"

text \<open>An iteration keeps the machine well-formed and its account unchanged.\<close>

definition iter_sound :: "command_filter \<Rightarrow> bytes \<Rightarrow> iter \<Rightarrow> bool" where
  "iter_sound f out it \<longleftrightarrow>
     (case iter_next it of (f', out') \<Rightarrow>
        filter_ok f' \<and> account f' out' = account f out \<and> allow_change_user f' = allow_change_user f)"

lemma iter_sound_write:
  assumes ok: "filter_ok f" and st: "fst_state f = Write packet pos"
  shows "iter_sound f out (filter_iter cap f out)"
proof -
  obtain res pos' w' where w: "write_loop packet pos (write_script f) = (res, pos', w')" by (metis prod_cases3)
  have p: "pos \<le> pos'" "pos' \<le> length packet" "res = Ready () \<Longrightarrow> pos' = length packet"
    using write_loop_progress [OF w] ok st by (auto simp: filter_ok_def)
  then have split: "drop pos packet = take (pos' - pos) (drop pos packet) @ drop pos' packet"
    by (metis append_take_drop_id drop_drop le_add_diff_inverse2)
  show ?thesis
    using ok p by (auto simp: iter_sound_def filter_iter_def Let_def st w filter_ok_def account_def
        then_also_def split: poll.split prod.split) (metis append.right_neutral drop_all le_refl split)+
qed

lemma iter_sound_emit:
  assumes ok: "filter_ok f" and st: "fst_state f = Emit buf pos len body"
  shows "iter_sound f out (filter_iter cap f out)"
proof -
  define n where "n = min (len - pos) (cap - length out)"
  have b: "length buf = 5" "len \<le> 5" "pos < len" using ok st by (simp_all add: filter_ok_def)
  then have n: "n \<le> len - pos" "cap - length out \<noteq> 0 \<Longrightarrow> 0 < n" by (auto simp: n_def)
  have split: "take (len - pos) (drop pos buf) = take n (drop pos buf) @ take (len - (pos + n)) (drop (pos + n) buf)"
    using take_split [OF n(1), of "drop pos buf"] by (simp add: add.commute)
  show ?thesis
    using ok b n by (auto simp: iter_sound_def filter_iter_def Let_def st filter_ok_def account_def
        then_also_def split n_def [symmetric])
qed

lemma iter_sound_pass:
  assumes ok: "filter_ok f" and st: "fst_state f = Pass remaining"
  shows "iter_sound f out (filter_iter cap f out)"
proof (cases "min remaining (cap - length out) = 0")
  case True
  then show ?thesis using ok by (auto simp: iter_sound_def filter_iter_def Let_def st)
next
  case False
  obtain res r' where r: "socket_read (min remaining (cap - length out)) (reader f) = (res, r')" by force
  note s = socket_read_stream [OF r] 
  have so: "script_ok (reader f)" using ok by (simp add: filter_ok_def)
  show ?thesis
  proof (cases res)
    case (Ready got)
    with s(2) [OF so] have g: "stream (reader f) = got @ stream r'" "length got \<le> remaining" by auto
    have e: "got = [] \<Longrightarrow> stream (reader f) = []" using s(3) [OF so] False Ready by auto
    show ?thesis
      using ok False g e s(1) [OF so] Ready
      by (auto simp: iter_sound_def filter_iter_def Let_def st r filter_ok_def account_def then_also_def)
  qed (use ok False s(1,2) [OF so] in
      \<open>auto simp: iter_sound_def filter_iter_def Let_def st r filter_ok_def account_def\<close>)
qed

lemma iter_sound_drain:
  assumes ok: "filter_ok f" and st: "fst_state f = Drain remaining act"
  shows "iter_sound f out (filter_iter cap f out)"
proof (cases "remaining = 0")
  case True
  then show ?thesis
    using ok by (cases act) (auto simp: iter_sound_def filter_iter_def st filter_ok_def account_def then_also_def)
next
  case False
  obtain res r' where r: "socket_read (min remaining 256) (reader f) = (res, r')" by force
  note s = socket_read_stream [OF r]
  have so: "script_ok (reader f)" and a: "fstate_ok (Drain n act)" for n
    using ok st by (cases act; simp add: filter_ok_def)+
  show ?thesis
  proof (cases res)
    case (Ready got)
    with s(2) [OF so] have g: "stream (reader f) = got @ stream r'" "length got \<le> remaining" by auto
    have e: "got = [] \<Longrightarrow> stream (reader f) = []" using s(3) [OF so] False Ready by auto
    show ?thesis
      using False g e s(1) [OF so] a Ready
      by (auto simp: iter_sound_def filter_iter_def Let_def st r filter_ok_def account_def then_also_def)
  qed (use ok False s(1,2) [OF so] in
      \<open>auto simp: iter_sound_def filter_iter_def Let_def st r filter_ok_def account_def\<close>)
qed

lemma payload_len_prefix: "3 \<le> length h \<Longrightarrow> payload_len (h @ t) = payload_len h"
  by (cases h) (auto simp: payload_len_def nth_append)

lemma payload_len_take: "payload_len (take 4 h) = payload_len h"
  by (simp add: payload_len_def)

lemma packets_spec_empty_packet:
  assumes "length h = 4" and "payload_len h = 0"
  shows "packets_spec allow (h @ rest) = then_also (h, [], False) (packets_spec allow rest)"
  using assms by (subst packets_spec.simps) (simp add: payload_len_prefix)

lemma asks_reset_housekeeping: "asks_reset allow c \<Longrightarrow> housekeeping allow c"
  by (auto simp: asks_reset_def housekeeping_def)

definition intercepted :: "bool \<Rightarrow> bytes \<Rightarrow> action" where
  "intercepted allow h =
     (if housekeeping allow (h ! 4) then Substitute (ping_packet (h ! 3)) else Reply (unknown_command_reply h))"

lemma packets_spec_header:
  assumes h: "length h = 5" and n: "payload_len h = Suc body"
  shows "packets_spec allow (h @ rest) =
    (if h ! 3 \<noteq> 0 \<or> is_handled_upstream (h ! 4) then future allow (Emit h 0 5 body) rest
     else then_also ([], [], asks_reset allow (h ! 4)) (future allow (Drain body (intercepted allow h)) rest))"
proof -
  have p: "payload_len (h @ rest) = Suc body" using payload_len_prefix [of h rest] h n by simp
  have nth: "(h @ rest) ! 3 = h ! 3" "(h @ rest) ! 4 = h ! 4" using h by (simp_all add: nth_append)
  have td: "take (4 + Suc body) (h @ rest) = h @ take body rest" "drop (4 + Suc body) (h @ rest) = drop body rest"
    using h by simp_all
  have r: "unknown_command_reply (h @ rest) = unknown_command_reply h"
    by (simp add: unknown_command_reply_def nth)
  have ping: "take 5 (ping_packet s) = ping_packet s" for s by (simp add: ping_packet_def)
  show ?thesis
    unfolding packets_spec.simps [of allow "h @ rest"] announced_length_payload_len Let_def p nth td r
    using h asks_reset_housekeeping
    by (auto simp: then_also_def intercepted_def ping)
qed

lemma classify_account:
  assumes "length h = 5" and "h ! 3 = 0" and "payload_len h = Suc body"
  shows "account (classify f h body) out = then_also (out, sent f, reset_pending f)
           (packets_spec (allow_change_user f) (h @ stream (reader f)))"
    and "fstate_ok (fst_state (classify f h body))"
proof -
  have d: "COM_STMT_RESET \<noteq> COM_RESET_CONNECTION" "COM_STMT_RESET \<noteq> COM_CHANGE_USER" "COM_RESET_CONNECTION \<noteq> COM_CHANGE_USER"
    by (simp_all add: COM_STMT_RESET_def COM_RESET_CONNECTION_def COM_CHANGE_USER_def)
  show "account (classify f h body) out = then_also (out, sent f, reset_pending f)
      (packets_spec (allow_change_user f) (h @ stream (reader f)))"
    using assms d unfolding packets_spec_header [OF assms(1,3)]
    by (auto simp: classify_def Let_def account_def then_also_def intercepted_def housekeeping_def asks_reset_def
        unknown_command_reply_def)
  show "fstate_ok (fst_state (classify f h body))"
    using assms(1) by (auto simp: classify_def Let_def ping_packet_def)
qed

lemma filter_iter_head:
  assumes "fst_state f = Head buf hv" and "socket_read ((if hv < 4 then 4 else 5) - hv) (reader f) = (Ready got, r')"
    and "got \<noteq> []" and "h = take hv buf @ got @ drop (hv + length got) buf" and "hv' = hv + length got"
  shows "filter_iter cap f out = Continue
    (if hv' < 4 then f\<lparr>reader := r', fst_state := Head h hv'\<rparr>
     else if payload_len h = 0 then f\<lparr>reader := r', fst_state := Emit h 0 4 0\<rparr>
     else if hv' < 5 then f\<lparr>reader := r', fst_state := Head h hv'\<rparr>
     else if h ! 3 = 0 then classify (f\<lparr>reader := r'\<rparr>) h (payload_len h - 1)
     else f\<lparr>reader := r', fst_state := Emit h 0 5 (payload_len h - 1)\<rparr>) out"
  using assms by (cases "hv < 4") (simp_all add: filter_iter_def Let_def)

lemma iter_sound_head:
  assumes ok: "filter_ok f" and st: "fst_state f = Head buf hv"
  shows "iter_sound f out (filter_iter cap f out)"
proof -
  define need where "need = (if hv < 4 then 4 else 5) - hv"
  have b: "length buf = 5" "hv \<le> 4" "hv = 4 \<Longrightarrow> payload_len buf \<noteq> 0" and so: "script_ok (reader f)"
    using ok st by (simp_all add: filter_ok_def)
  obtain res r' where r: "socket_read need (reader f) = (res, r')" by force
  note s = socket_read_stream [OF r so]
  show ?thesis
  proof (cases "\<exists>got. res = Ready got \<and> got \<noteq> []")
    case False
    have "stream (reader f) = [] \<Longrightarrow> packets_spec a (take hv buf) = ([], [], False)" for a
      using b by (subst packets_spec.simps) (auto simp: payload_len_take)
    with False ok r s show ?thesis
      by (auto simp: iter_sound_def filter_iter_def Let_def st need_def filter_ok_def account_def then_also_def
          split: poll.splits)
  next
    case True
    then obtain got where got: "res = Ready got" "got \<noteq> []" by blast
    define h where "h = take hv buf @ got @ drop (hv + length got) buf"
    define hv' where "hv' = hv + length got"
    have g: "stream (reader f) = got @ stream r'" "length got \<le> need" using s(2) got by auto
    have h: "length h = 5" "take hv' h = take hv buf @ got" "hv' \<le> 5" "hv < hv'" "hv < 4 \<Longrightarrow> hv' \<le> 4"
      using b g(2) got(2) by (auto simp: h_def hv'_def need_def split: if_splits)
    have pl: "hv = 4 \<Longrightarrow> payload_len h \<noteq> 0"
      using b(1,3) payload_len_take [of h] payload_len_take [of buf] by (simp add: h_def)
    have acc: "account f out = then_also (out, sent f, reset_pending f)
        (packets_spec (allow_change_user f) (take hv' h @ stream r'))"
      by (simp add: account_def st g(1) h(2))
    note it = filter_iter_head [OF st, of got r' h hv' cap out, folded need_def, OF r [unfolded got(1)] got(2) h_def hv'_def]
    consider (partial) "hv' \<le> 4" "hv' < 4 \<or> payload_len h \<noteq> 0" | (empty) "hv' = 4" "payload_len h = 0"
      | (full) "hv' = 5" "payload_len h = Suc (payload_len h - 1)"
      using h(3,4,5) pl b(2) by linarith
    then show ?thesis
    proof cases
      case partial
      with h(1) s(1) show ?thesis by (auto simp: iter_sound_def it filter_ok_def acc) (simp_all add: account_def)
    next
      case empty
      then have "packets_spec a (take 4 h @ stream r') = then_also (take 4 h, [], False) (packets_spec a (stream r'))" for a
        using h(1) by (intro packets_spec_empty_packet) (simp_all add: payload_len_take)
      with empty h(1) s(1) show ?thesis by (auto simp: iter_sound_def it filter_ok_def acc) (simp add: account_def)
    next
      case full
      with h(1) have th: "take hv' h = h" "h ! 3 \<noteq> 0 \<Longrightarrow> packets_spec a (h @ stream r')
          = future a (Emit h 0 5 (payload_len h - 1)) (stream r')" for a
        by (simp_all add: packets_spec_header [OF h(1) full(2)])
      show ?thesis
        using full h(1) s(1) th classify_account(1) [OF h(1) _ full(2), of "f\<lparr>reader := r'\<rparr>" out]
          classify_account(2) [OF h(1) _ full(2), of "f\<lparr>reader := r'\<rparr>"]
        by (cases "h ! 3 = 0")
          (simp_all add: iter_sound_def it filter_ok_def acc classify_keeps, simp_all add: account_def)
    qed
  qed
qed

lemma iter_sound: "filter_ok f \<Longrightarrow> iter_sound f out (filter_iter cap f out)"
proof (cases "fst_state f")
  case Eof
  then show "filter_ok f \<Longrightarrow> ?thesis" by (simp add: iter_sound_def filter_iter_def)
qed (simp_all add: iter_sound_head iter_sound_emit iter_sound_pass iter_sound_drain iter_sound_write)

text \<open>A whole call of \<open>poll_read\<close> keeps the account, whatever the buffer and the chunks.\<close>

lemma poll_read_account:
  assumes "poll_read cap f out = (res, f', out')" and "filter_ok f"
  shows "filter_ok f' \<and> account f' out' = account f out \<and> allow_change_user f' = allow_change_user f"
  using assms
proof (induction cap f out rule: poll_read.induct)
  case (1 cap f out)
  show ?case
  proof (cases "filter_iter cap f out")
    case (Continue g o1)
    with 1(3) iter_sound [of f out cap] have g: "filter_ok g" "account g o1 = account f out"
        "allow_change_user g = allow_change_user f" by (simp_all add: iter_sound_def)
    from 1(2) Continue have "poll_read cap g o1 = (res, f', out')" by (simp add: poll_read.simps [of cap f out])
    from 1(1) [OF Continue this g(1)] g show ?thesis by simp
  next
    case (Return r g o1)
    with 1(2,3) iter_sound [of f out cap] show ?thesis
      by (simp add: poll_read.simps [of cap f out] iter_sound_def)
  qed
qed

section \<open>Every call makes progress\<close>

fun state_potential :: "fstate \<Rightarrow> nat" where
  "state_potential (Emit buf pos len body) = Suc (len - pos)"
| "state_potential (Drain n a) = 10"
| "state_potential (Write p pos) = 1"
| "state_potential st = 0"

definition potential :: "command_filter \<Rightarrow> nat" where
  "potential f = 16 * script_size (reader f) + length (write_script f) + state_potential (fst_state f)"

lemma state_potential_head [simp]: "state_potential head = 0"
  by (simp add: head_def)

lemma state_potential_bound: "fstate_ok st \<Longrightarrow> state_potential st \<le> 10"
  by (cases st) auto

lemma socket_read_consumes:
  "socket_read cap r = (res, r') \<Longrightarrow> res \<noteq> Ready [] \<Longrightarrow> script_size r' < script_size r"
  "socket_read cap r = (res, r') \<Longrightarrow> script_size r' \<le> script_size r"
  by (cases "(cap, r)" rule: socket_read.cases; auto split: if_splits)+

lemma socket_write_consumes:
  "socket_write bs w = (res, w') \<Longrightarrow> bs \<noteq> [] \<Longrightarrow>
     length w' \<le> length w \<and> ((\<forall>n>0. res \<noteq> Ready n) \<longrightarrow> length w' < length w)"
  by (cases "(bs, w)" rule: socket_write.cases) auto

lemma write_loop_consumes:
  assumes "write_loop packet pos w = (res, pos', w')"
  shows "length w' \<le> length w \<and> (res \<noteq> Ready () \<longrightarrow> length w' < length w)"
  using assms
proof (induction packet pos w rule: write_loop.induct)
  case (1 packet pos w)
  obtain q w1 where q: "socket_write (drop pos packet) w = (q, w1)" by force
  show ?case
  proof (cases "length packet \<le> pos")
    case True
    with 1(2) show ?thesis by (simp add: write_loop.simps [of packet pos w])
  next
    case False
    then have c: "length w1 \<le> length w" "(\<forall>n>0. q \<noteq> Ready n) \<Longrightarrow> length w1 < length w"
      using socket_write_consumes [OF q] by simp_all
    show ?thesis
    proof (cases "\<exists>n>0. q = Ready n")
      case True
      then obtain n where n: "q = Ready n" "0 < n" by blast
      with 1(2) False q have "write_loop packet (pos + n) w1 = (res, pos', w')"
        by (simp add: write_loop.simps [of packet pos w])
      with 1(1) [OF False q [symmetric] n(1)] n(2) c show ?thesis by fastforce
    next
      case other: False
      with 1(2) False q have "w' = w1"
        by (cases q) (auto simp: write_loop.simps [of packet pos w] split: if_splits)
      moreover from other have "length w1 < length w" by (intro c(2)) blast
      ultimately show ?thesis by simp
    qed
  qed
qed

lemma socket_flush_consumes:
  "socket_flush w = (res, w') \<Longrightarrow> length w' \<le> length w \<and> (res \<noteq> Ready () \<longrightarrow> length w' < length w)"
  by (cases w rule: socket_flush.cases) auto

text \<open>One iteration: the potential falls, unless the buffer is full or the stream has ended.\<close>

definition progresses :: "command_filter \<Rightarrow> nat \<Rightarrow> iter \<Rightarrow> bool" where
  "progresses f room it \<longleftrightarrow>
     (case it of
        Continue f' out' \<Rightarrow> potential f' < potential f
      | Return res f' out' \<Rightarrow> potential f' \<le> potential f \<and>
          (0 < room \<longrightarrow> fst_state f' = Eof \<or> potential f' < potential f))"

lemma progresses_iter_read:
  assumes ok: "filter_ok f" and it: "filter_iter cap f out = it" and f': "iter_next it = (f', out')"
    and "script_size (reader f') < script_size (reader f)" and "write_script f' = write_script f"
  shows "potential f' < potential f"
proof -
  have "fstate_ok (fst_state f')" using iter_sound [OF ok, of out cap] it f' by (simp add: iter_sound_def filter_ok_def)
  with state_potential_bound assms(4,5) show ?thesis by (fastforce simp: potential_def)
qed

lemma progresses_emit:
  assumes "filter_ok f" and "fst_state f = Emit buf pos len body"
  shows "progresses f (cap - length out) (filter_iter cap f out)"
  using assms by (auto simp: filter_ok_def filter_iter_def progresses_def potential_def Let_def)

lemma progresses_write:
  assumes "filter_ok f" and "fst_state f = Write packet pos"
  shows "progresses f (cap - length out) (filter_iter cap f out)"
proof -
  obtain res pos' w' where w: "write_loop packet pos (write_script f) = (res, pos', w')" by (metis prod_cases3)
  obtain res' w'' where fl: "socket_flush w' = (res', w'')" by force
  show ?thesis
    using assms(2) w fl write_loop_consumes [OF w] socket_flush_consumes [OF fl]
    by (auto simp: filter_iter_def progresses_def potential_def Let_def split: poll.split)
qed

lemma progresses_pass:
  assumes ok: "filter_ok f" and st: "fst_state f = Pass n"
  shows "progresses f (cap - length out) (filter_iter cap f out)"
proof -
  obtain res r' where r: "socket_read (min n (cap - length out)) (reader f) = (res, r')" by force
  have n: "0 < n" using ok st by (simp add: filter_ok_def)
  show ?thesis
    using n socket_read_consumes [OF r]
    by (auto simp: filter_iter_def st r progresses_def potential_def Let_def split: poll.split)
qed

lemma progresses_drain:
  assumes ok: "filter_ok f" and st: "fst_state f = Drain n a"
  shows "progresses f (cap - length out) (filter_iter cap f out)"
proof -
  obtain res r' where r: "socket_read (min n 256) (reader f) = (res, r')" by force
  show ?thesis
    using socket_read_consumes [OF r]
    by (cases a) (auto simp: filter_iter_def st r progresses_def potential_def Let_def split: poll.split)
qed

lemma progresses_head:
  assumes ok: "filter_ok f" and st: "fst_state f = Head buf hv"
  shows "progresses f (cap - length out) (filter_iter cap f out)"
proof -
  obtain res r' where r: "socket_read ((if hv < 4 then 4 else 5) - hv) (reader f) = (res, r')" by force
  show ?thesis
  proof (cases "\<exists>got. res = Ready got \<and> got \<noteq> []")
    case True
    then obtain got where got: "res = Ready got" "got \<noteq> []" by blast
    obtain f' where it: "filter_iter cap f out = Continue f' out" "reader f' = r'" "write_script f' = write_script f"
      using filter_iter_head [OF st r [unfolded got(1)] got(2) refl refl, of cap out]
      by (auto simp: classify_keeps split: if_splits)
    with socket_read_consumes(1) [OF r] got progresses_iter_read [OF ok it(1), of f' out] show ?thesis
      by (simp add: progresses_def)
  next
    case False
    with r socket_read_consumes [OF r] show ?thesis
      by (cases "hv < 4"; cases res) (auto simp: filter_iter_def st progresses_def potential_def Let_def)
  qed
qed

lemma progresses_iter:
  "filter_ok f \<Longrightarrow> progresses f (cap - length out) (filter_iter cap f out)"
proof (cases "fst_state f")
  case Eof
  then show ?thesis by (simp add: filter_iter_def progresses_def)
qed (simp_all add: progresses_emit progresses_write progresses_pass progresses_drain progresses_head)

lemma poll_read_potential:
  assumes "poll_read cap f out = (res, f', out')" and "filter_ok f"
  shows "potential f' \<le> potential f"
  using assms
proof (induction cap f out rule: poll_read.induct)
  case (1 cap f out)
  note p = progresses_iter [OF 1(3), of cap out] and s = iter_sound [OF 1(3), of out cap]
  show ?case
  proof (cases "filter_iter cap f out")
    case (Continue g o1)
    with 1(1) [OF Continue] 1(2) s p show ?thesis
      by (fastforce simp: poll_read.simps [of cap f out] iter_sound_def progresses_def)
  next
    case (Return r g o1)
    with 1(2) p show ?thesis by (simp add: poll_read.simps [of cap f out] progresses_def)
  qed
qed

lemma poll_read_progress:
  assumes "poll_read cap f [] = (res, f', out')" and "filter_ok f" and "0 < cap"
  shows "fst_state f' = Eof \<or> potential f' < potential f"
proof -
  note p = progresses_iter [OF assms(2), of cap "[]"] and s = iter_sound [OF assms(2), of "[]" cap]
  show ?thesis
  proof (cases "filter_iter cap f []")
    case (Continue g o1)
    then have "poll_read cap g o1 = (res, f', out')" using assms(1) by (simp add: poll_read.simps [of cap f])
    with Continue p s poll_read_potential [OF this] show ?thesis
      by (auto simp: iter_sound_def progresses_def)
  next
    case (Return r g o1)
    with assms(1,3) p show ?thesis by (auto simp: poll_read.simps [of cap f] progresses_def)
  qed
qed

text \<open>The caller's loop: one \<open>poll_read\<close> per buffer, its bytes appended to what came before.\<close>

fun poll_all :: "command_filter \<Rightarrow> nat list \<Rightarrow> bytes \<times> command_filter" where
  "poll_all f [] = ([], f)"
| "poll_all f (cap # caps) =
     (case poll_read cap f [] of (res, f', out) \<Rightarrow>
        (case poll_all f' caps of (later, f'') \<Rightarrow> (out @ later, f'')))"

lemma account_out: "account f out = then_also (out, [], False) (account f [])"
  by (simp add: account_def then_also_def)

lemma poll_all_account:
  assumes "poll_all f caps = (out, f')" and "filter_ok f"
  shows "filter_ok f' \<and> account f' out = account f []"
  using assms
proof (induction caps arbitrary: f out)
  case (Cons cap caps)
  obtain res g o1 where g: "poll_read cap f [] = (res, g, o1)" by (metis prod_cases3)
  obtain later where m: "poll_all g caps = (later, f')" "out = o1 @ later" using Cons(2) g by (auto split: prod.splits)
  note a = poll_read_account [OF g Cons(3)]
  have "filter_ok f' \<and> account f' later = account g []" using Cons(1) [OF m(1)] a by simp
  with a m(2) account_out [of f' later] account_out [of f' "o1 @ later"] account_out [of g o1] show ?case
    by (auto simp: then_also_def)
qed simp

lemma poll_all_eof: "fst_state f = Eof \<Longrightarrow> poll_all f caps = ([], f)"
  by (induction caps) (auto simp: poll_read.simps [of _ f] filter_iter_def)

lemma poll_all_ends:
  assumes "poll_all f caps = (out, f')" and "filter_ok f" and "0 \<notin> set caps" and "potential f < length caps"
  shows "fst_state f' = Eof"
  using assms
proof (induction caps arbitrary: f out)
  case (Cons cap caps)
  obtain res g o1 where g: "poll_read cap f [] = (res, g, o1)" by (metis prod_cases3)
  obtain later where m: "poll_all g caps = (later, f')" using Cons(2) g by (auto split: prod.splits)
  have ok: "filter_ok g" using poll_read_account [OF g Cons(3)] by simp
  from poll_read_progress [OF g Cons(3)] Cons(4) consider "fst_state g = Eof" | "potential g < potential f" by auto
  then show ?case
  proof cases
    case 1
    with m poll_all_eof show ?thesis by auto
  next
    case 2
    with Cons(1) [OF m ok] Cons(4,5) show ?thesis by simp
  qed
qed simp

text \<open>Bytes in the buffer are only ever held while forwarding a body.\<close>

definition holds_none :: "fstate \<Rightarrow> bytes \<Rightarrow> bool" where
  "holds_none st out \<longleftrightarrow> out = [] \<or> (\<exists>n. st = Pass n)"

lemma poll_read_pending:
  assumes "poll_read cap f out = (Pending, f', out')" and "holds_none (fst_state f) out"
  shows "out' = []"
  using assms
proof (induction cap f out rule: poll_read.induct)
  case (1 cap f out)
  have step: "case filter_iter cap f out of
      Continue g o1 \<Rightarrow> holds_none (fst_state g) o1 | Return r g o1 \<Rightarrow> r = Pending \<longrightarrow> o1 = []"
    using 1(3) by (cases "fst_state f")
      (auto simp: filter_iter_def holds_none_def Let_def split: poll.splits prod.splits if_splits)
  with 1(1,2) show ?case
    by (cases "filter_iter cap f out") (simp_all add: poll_read.simps [of cap f out])
qed

lemma poll_read_continue: "filter_iter cap f out = Continue g o1 \<Longrightarrow> poll_read cap f out = poll_read cap g o1"
  by (simp add: poll_read.simps [of cap f out])

lemma poll_read_return: "filter_iter cap f out = Return res g o1 \<Longrightarrow> poll_read cap f out = (res, g, o1)"
  by (simp add: poll_read.simps [of cap f out])

text \<open>A forwarded packet that is all in one chunk, read into a buffer with room for it.\<close>

definition forwarded :: "bytes \<Rightarrow> bool" where
  "forwarded p \<longleftrightarrow>
     length p = 4 + announced_length p \<and> announced_length p \<noteq> 0 \<and> (p ! 3 \<noteq> 0 \<or> is_handled_upstream (p ! 4))"

definition left_over :: "bytes \<Rightarrow> read_event list \<Rightarrow> read_event list" where
  "left_over t r = (if t = [] then r else Chunk t # r)"

lemma socket_read_chunk:
  "0 < cap \<Longrightarrow> cap \<le> length (p @ t) \<Longrightarrow> cap = length p \<Longrightarrow>
     socket_read cap (Chunk (p @ t) # r) = (Ready p, left_over t r)"
  by (auto simp: left_over_def)

lemma filter_iter_first_four:
  assumes "fst_state f = head" and "reader f = Chunk (h @ t) # r" and "length h = 4" and "payload_len h \<noteq> 0"
  shows "filter_iter cap f out = Continue (f\<lparr>reader := left_over t r, fst_state := Head (h @ [0]) 4\<rparr>) out"
proof -
  have "socket_read ((if (0::nat) < 4 then 4 else 5) - 0) (reader f) = (Ready h, left_over t r)"
    using assms(2,3) by (simp add: left_over_def)
  moreover have "payload_len (h @ [0]) \<noteq> 0" using assms payload_len_prefix [of h "[0]"] by simp
  ultimately show ?thesis
    using assms(1,3) by (subst filter_iter_head [where h = "h @ [0]" and hv' = 4]) (auto simp: head_def)
qed

lemma filter_iter_command_byte:
  assumes "fst_state f = Head (h @ [z]) 4" and "reader f = Chunk (c # t) # r" and "length h = 4"
    and "payload_len h = Suc body" and "h ! 3 \<noteq> 0 \<or> is_handled_upstream c"
  shows "filter_iter cap f out = Continue (f\<lparr>reader := left_over t r, fst_state := Emit (h @ [c]) 0 5 body\<rparr>) out"
proof -
  have "payload_len (h @ [c]) = Suc body" using assms payload_len_prefix [of h "[c]"] by simp
  moreover have "socket_read ((if (4::nat) < 4 then 4 else 5) - 4) (reader f) = (Ready [c], left_over t r)"
    using assms(2) by (simp add: left_over_def)
  ultimately show ?thesis
    using assms(1,3,5)
    by (subst filter_iter_head [where h = "h @ [c]" and hv' = 5]) (auto simp: classify_def nth_append)
qed

lemma poll_read_whole_packet:
  assumes st: "fst_state f = head" and r: "reader f = Chunk (p @ t) # r" and p: "forwarded p" and cap: "length p \<le> cap"
  shows "poll_read cap f [] = (Ready (), f\<lparr>reader := left_over t r\<rparr>, p)"
proof -
  obtain h c b where split: "p = h @ c # b" "length h = 4"
    using p by (metis append_take_drop_id forwarded_def le_add1 length_take list.exhaust length_0_conv
        add_eq_self_zero append_Nil2 min.absorb2)
  have body: "payload_len h = Suc (length b)" "h ! 3 \<noteq> 0 \<or> is_handled_upstream c"
    using p split payload_len_prefix [of h "c # b"] by (auto simp: forwarded_def nth_append)
  let ?f1 = "f\<lparr>reader := Chunk (c # b @ t) # r, fst_state := Head (h @ [0]) 4\<rparr>"
  let ?f2 = "f\<lparr>reader := left_over (b @ t) r, fst_state := Emit (h @ [c]) 0 5 (length b)\<rparr>"
  have 1: "filter_iter cap f [] = Continue ?f1 []"
    using filter_iter_first_four [of f h "c # b @ t" r cap "[]"] st r split body by (simp add: left_over_def)
  have 2: "filter_iter cap ?f1 [] = Continue ?f2 []"
    using filter_iter_command_byte [of ?f1 h 0 c "b @ t" r "length b" cap "[]"] split body by simp
  have room: "5 + length b \<le> cap" using cap split by simp
  have "poll_read cap ?f2 [] = (Ready (), f\<lparr>reader := left_over t r\<rparr>, p)"
  proof (cases b)
    case Nil
    with room split st show ?thesis by (intro poll_read_return) (simp add: filter_iter_def Let_def)
  next
    case (Cons x xs)
    let ?f3 = "f\<lparr>reader := left_over (b @ t) r, fst_state := Pass (length b)\<rparr>"
    have 3: "filter_iter cap ?f2 [] = Continue ?f3 (h @ [c])"
      using room split Cons by (simp add: filter_iter_def Let_def)
    have "socket_read (length b) (left_over (b @ t) r) = (Ready b, left_over t r)"
      using Cons socket_read_chunk [of "length b" b t r] by (simp add: left_over_def)
    then have "filter_iter cap ?f3 (h @ [c]) = Return (Ready ()) (f\<lparr>reader := left_over t r\<rparr>) p"
      using room split Cons st by (auto simp: filter_iter_def Let_def min_def)
    from poll_read_return [OF this] show ?thesis unfolding poll_read_continue [OF 3] .
  qed
  then show ?thesis unfolding poll_read_continue [OF 1] poll_read_continue [OF 2] .
qed

section \<open>Properties\<close>

text \<open>A client that pings, asks for a statement reset and sends an unknown command, in three chunks.\<close>

definition demo_script :: "read_event list" where
  "demo_script =
     [Chunk [1, 0, 0], RNotReady, Chunk [0, 0x0e, 5, 0, 0, 0, 0x1a, 1, 0], Chunk [0, 0, 1, 0, 0, 0, 0x1b]]"

lemma demo_script_ok: "script_ok demo_script"
  by (simp add: script_ok_def demo_script_def)

lemma filter_new_ok: "script_ok r \<Longrightarrow> filter_ok (filter_new r w allow)"
  by (simp add: filter_ok_def filter_new_def)

text \<open>
  Property C14 (the filter is the packet-level specification, however the bytes arrive). For every
  way the client's bytes are cut into chunks, every interleaving with unready sockets and every
  sequence of non-empty read buffers, the filter reaches the end of the stream within \<open>potential\<close>
  calls, and then the protocol library has received exactly the forwarded packets and substituted
  pings, the client exactly the error replies to unknown commands, and the reset flag is set exactly
  if a reset was asked for.
\<close>

theorem filter_implements_packets:
  assumes "script_ok r" and "poll_all (filter_new r w allow) caps = (out, f)" and "0 \<notin> set caps"
    and "16 * script_size r + length w < length caps"
  shows "fst_state f = Eof \<and> (out, sent f, reset_pending f) = packets_spec allow (stream r)"
proof -
  note ok = filter_new_ok [OF assms(1), of w allow]
  have eof: "fst_state f = Eof"
    using poll_all_ends [OF assms(2) ok assms(3)] assms(4) by (simp add: potential_def filter_new_def)
  moreover have "account f out = account (filter_new r w allow) []"
    using poll_all_account [OF assms(2) ok] by simp
  ultimately show ?thesis by (simp add: account_def then_also_def filter_new_def)
qed

theorem filter_implements_packets_witness:
  "script_ok demo_script \<and>
   (\<exists>out f. poll_all (filter_new demo_script [] True) (replicate 400 7) = (out, f) \<and>
     out = [1, 0, 0, 0, 0x0e, 1, 0, 0, 0, 0x0e] \<and> length (sent f) = 33)"
proof -
  obtain out f where r: "poll_all (filter_new demo_script [] True) (replicate 400 7) = (out, f)" by force
  have "packets_spec True (stream demo_script) =
      ([1, 0, 0, 0, 0x0e, 1, 0, 0, 0, 0x0e], unknown_command_reply [1, 0, 0, 0, 0x1b], False)"
    by code_simp
  moreover have "length (unknown_command_reply [1, 0, 0, 0, 0x1b]) = 33" by code_simp
  moreover have "16 * script_size demo_script + length ([] :: write_event list) < length (replicate 400 (7::nat))"
    by (simp add: demo_script_def)
  ultimately show ?thesis
    using filter_implements_packets [OF demo_script_ok r] r demo_script_ok by auto
qed

text \<open>
  Fact (no bytes are stranded). A call that answers Pending has put nothing into the
  caller's buffer.
\<close>

theorem pending_means_no_bytes:
  assumes "poll_read cap f [] = (Pending, f', out)"
  shows "out = []"
  using poll_read_pending [OF assms] by (simp add: holds_none_def)

theorem pending_means_no_bytes_witness:
  "\<exists>f' out. poll_read 9 (filter_new [Chunk [1, 0], RNotReady] [] True) [] = (Pending, f', out) \<and> out = []"
proof -
  have "map_prod id snd (poll_read 9 (filter_new [Chunk [1, 0], RNotReady] [] True) []) = (Pending, [])"
    by code_simp
  then obtain f' out where "poll_read 9 (filter_new [Chunk [1, 0], RNotReady] [] True) [] = (Pending, f', out)"
    by (cases "poll_read 9 (filter_new [Chunk [1, 0], RNotReady] [] True) []") auto
  with pending_means_no_bytes [OF this] show ?thesis by blast
qed

text \<open>
  Fact (one packet per call). A forwarded packet that the socket has ready is handed over
  whole, header and body, by a single call whose buffer has room for it, and nothing beyond it is read.
\<close>

theorem whole_packet_per_call:
  assumes "fst_state f = head" and "reader f = Chunk (p @ t) # r" and "forwarded p" and "length p \<le> cap"
  shows "poll_read cap f [] = (Ready (), f\<lparr>reader := left_over t r\<rparr>, p)"
  by (rule poll_read_whole_packet [OF assms])

theorem whole_packet_per_call_witness:
  "poll_read 4096 (filter_new [Chunk [2, 0, 0, 0, 0x03, 65, 1]] [] True) [] =
     (Ready (), filter_new [Chunk [1]] [] True, [2, 0, 0, 0, 0x03, 65])"
proof -
  have "forwarded [2, 0, 0, 0, 0x03, 65]" by code_simp
  from whole_packet_per_call [OF _ _ this, of "filter_new [Chunk [2, 0, 0, 0, 0x03, 65, 1]] [] True" "[1]" "[]" 4096]
  show ?thesis by (simp add: filter_new_def left_over_def)
qed

text \<open>
  Fact (the error reply is one well-formed packet). Whatever command byte arrives, the reply
  built for it announces its own length, carries the next sequence number, and is an ERR packet with
  code 1047 and SQLSTATE 08S01.
\<close>

theorem error_reply_well_formed:
  "let p = unknown_command_reply h in
     length p = 4 + payload_len p \<and> p ! 3 = h ! 3 + 1 \<and> p ! 4 = 0xff \<and>
     unat (p ! 5) + 256 * unat (p ! 6) = 1047 \<and> take 6 (drop 7 p) = str_bytes ''#08S01''"
  by (simp add: unknown_command_reply_def err_packet_def Let_def payload_len_def command_name_def
      UNKNOWN_COM_SQLSTATE_def ER_UNKNOWN_COM_ERROR_def str_bytes_def)

end
