(* ===== verification/Wire_Bytes.thy ===== *)
theory Wire_Bytes
  imports Rust_Str
begin

unbundle bit_operations_syntax

text \<open>
  Integers and text on the wire: little- and big-endian bytes (\<^verbatim>\<open>to_le_bytes\<close>, \<^verbatim>\<open>put_u16\<close>, ...),
  the characters of a UTF-8 string (\<^verbatim>\<open>chars()\<close>) and their UTF-16 code units (\<^verbatim>\<open>encode_utf16\<close>).
\<close>

section \<open>Integers\<close>

fun le_bytes :: "nat \<Rightarrow> 'a::len word \<Rightarrow> bytes" where
  "le_bytes 0 w = []"
| "le_bytes (Suc n) w = ucast w # le_bytes n (drop_bit 8 w)"

definition be_bytes :: "nat \<Rightarrow> 'a::len word \<Rightarrow> bytes" where
  "be_bytes n w = rev (le_bytes n w)"

fun of_le_bytes :: "bytes \<Rightarrow> 'a::len word" where
  "of_le_bytes [] = 0"
| "of_le_bytes (b # bs) = ucast b OR push_bit 8 (of_le_bytes bs)"

definition of_be_bytes :: "bytes \<Rightarrow> 'a::len word" where
  "of_be_bytes bs = of_le_bytes (rev bs)"

lemma length_le_bytes [simp]: "length (le_bytes n w) = n"
  by (induction n arbitrary: w) auto

lemma length_be_bytes [simp]: "length (be_bytes n w) = n"
  by (simp add: be_bytes_def)

lemma of_le_bytes_le_bytes: "of_le_bytes (le_bytes n w) = take_bit (8 * n) w"
proof (induction n arbitrary: w)
  case (Suc n)
  show ?case
    by (rule bit_word_eqI)
      (auto simp: Suc bit_or_iff bit_push_bit_iff bit_ucast_iff bit_take_bit_iff bit_drop_bit_eq
        dest: bit_imp_le_length)
qed simp

lemma le_bytes_inverse: "LENGTH('a) \<le> 8 * n \<Longrightarrow> of_le_bytes (le_bytes n (w :: 'a::len word)) = w"
  by (simp add: of_le_bytes_le_bytes take_bit_word_eq_self)

lemma be_bytes_inverse: "LENGTH('a) \<le> 8 * n \<Longrightarrow> of_be_bytes (be_bytes n (w :: 'a::len word)) = w"
  by (simp add: of_be_bytes_def be_bytes_def le_bytes_inverse)

section \<open>Text\<close>

text \<open>\<^verbatim>\<open>chars()\<close>: the scalar values of valid UTF-8.\<close>

definition cont_bits :: "char \<Rightarrow> u32" where
  "cont_bits c = of_char c AND 0x3F"

function utf8_scalars :: "string \<Rightarrow> u32 list" where
  "utf8_scalars [] = []"
| "utf8_scalars (b # r) =
     (let w = of_char b :: u32 in
      if w < 0x80 then w # utf8_scalars r
      else if w < 0xE0 then
        (push_bit 6 (w AND 0x1F) OR (case r of c1 # _ \<Rightarrow> cont_bits c1 | [] \<Rightarrow> 0)) # utf8_scalars (drop 1 r)
      else if w < 0xF0 then
        (push_bit 12 (w AND 0x0F) OR (case r of c1 # c2 # _ \<Rightarrow> push_bit 6 (cont_bits c1) OR cont_bits c2 | _ \<Rightarrow> 0))
          # utf8_scalars (drop 2 r)
      else
        (push_bit 18 (w AND 0x07) OR
           (case r of c1 # c2 # c3 # _ \<Rightarrow> push_bit 12 (cont_bits c1) OR push_bit 6 (cont_bits c2) OR cont_bits c3 | _ \<Rightarrow> 0))
          # utf8_scalars (drop 3 r))"
  by pat_completeness auto
termination by (relation "measure length") auto

definition char_count :: "string \<Rightarrow> nat" where
  "char_count s = length (utf8_scalars s)"

definition utf16_units :: "u32 \<Rightarrow> u16 list" where
  "utf16_units c =
     (if c < 0x10000 then [ucast c]
      else [0xD800 OR ucast (drop_bit 10 (c - 0x10000)), 0xDC00 OR (ucast (c - 0x10000) AND 0x3FF)])"

definition encode_utf16 :: "string \<Rightarrow> u16 list" where
  "encode_utf16 s = concat (map utf16_units (utf8_scalars s))"

text \<open>\<^verbatim>\<open>s.encode_utf16().flat_map(|c| c.to_le_bytes())\<close>\<close>

definition utf16le :: "string \<Rightarrow> bytes" where
  "utf16le s = concat (map (le_bytes 2) (encode_utf16 s))"

lemma length_utf16le: "length (utf16le s) = 2 * length (encode_utf16 s)"
  by (simp add: utf16le_def length_concat sum_list_triv comp_def)

lemma char_count_le_units: "char_count s \<le> length (encode_utf16 s)"
proof -
  have "length xs \<le> length (concat (map utf16_units xs))" for xs
    by (induction xs) (auto simp: utf16_units_def)
  then show ?thesis by (simp add: char_count_def encode_utf16_def)
qed

text \<open>In plain ASCII text characters, code units and bytes coincide.\<close>

lemma utf8_scalars_ascii:
  "(\<And>c. c \<in> set s \<Longrightarrow> (of_char c :: u32) < 0x80) \<Longrightarrow> utf8_scalars s = map of_char s"
  by (induction s) (auto simp: Let_def)

lemma ascii_units:
  assumes "\<And>c. c \<in> set s \<Longrightarrow> (of_char c :: u32) < 0x80"
  shows "char_count s = length s" and "length (encode_utf16 s) = length s"
proof -
  have "utf16_units (of_char c) = [ucast (of_char c :: u32)]" if "c \<in> set s" for c
    using order_less_trans [OF assms [OF that], of "0x10000"] by (simp add: utf16_units_def)
  then have "length (concat (map utf16_units (map of_char t))) = length t" if "set t \<subseteq> set s" for t
    using that by (induction t) auto
  with utf8_scalars_ascii [OF assms] show "char_count s = length s" "length (encode_utf16 s) = length s"
    by (simp_all add: char_count_def encode_utf16_def)
qed

section \<open>Decimal integers\<close>

text \<open>\<^verbatim>\<open>i64::to_string\<close> and \<^verbatim>\<open>str::parse::<i64>\<close>.\<close>

definition i64_to_string :: "int \<Rightarrow> string" where
  "i64_to_string i = (if i < 0 then ''-'' @ show_nat (nat (- i)) else show_nat (nat i))"

fun parse_digits :: "string \<Rightarrow> int \<Rightarrow> int option" where
  "parse_digits [] acc = Some acc"
| "parse_digits (c # s) acc =
     (if is_ascii_digit c then parse_digits s (10 * acc + (byte_of c - 48)) else None)"

definition parse_i64 :: "string \<Rightarrow> int option" where
  "parse_i64 s =
     (let (neg, ds) = (case s of c # r \<Rightarrow> if c = CHR ''-'' then (True, r)
                          else if c = CHR ''+'' then (False, r) else (False, s) | [] \<Rightarrow> (False, s))
      in if ds = [] then None
         else case parse_digits ds 0 of
             None \<Rightarrow> None
           | Some n \<Rightarrow> (let v = (if neg then - n else n) in if is_i64 v then Some v else None))"

text \<open>\<^verbatim>\<open>str::parse::<usize>\<close>: digits after an optional plus sign, at least one, at most 64 bits.\<close>

definition parse_usize :: "string \<Rightarrow> nat option" where
  "parse_usize s =
     (let ds = (case s of c # r \<Rightarrow> if c = CHR ''+'' then r else s | [] \<Rightarrow> s)
      in if ds = [] then None
         else case parse_digits ds 0 of
             None \<Rightarrow> None
           | Some n \<Rightarrow> if n < 2 ^ 64 then Some (nat n) else None)"

lemma byte_of_digit: "d < 10 \<Longrightarrow> byte_of (char_of (48 + d :: nat)) = 48 + int d"
proof -
  assume "d < 10"
  have "byte_of (char_of (48 + d :: nat)) = int (of_char (char_of (48 + d :: nat) :: char))"
    by (simp only: byte_of_def of_nat_of_char)
  also have "\<dots> = int ((48 + d) mod 256)" by (simp only: of_char_of)
  finally show ?thesis using \<open>d < 10\<close> by simp
qed

lemma show_digits_parse:
  "parse_digits (show_digits k n @ s) acc = parse_digits s (acc * 10 ^ k + int (n mod 10 ^ k))"
proof (induction k arbitrary: n s)
  case (Suc k)
  have d: "is_ascii_digit (char_of (48 + n mod 10))" "byte_of (char_of (48 + n mod 10)) - 48 = int (n mod 10)"
    using byte_of_digit [of "n mod 10"] by (auto simp: is_ascii_digit_def)
  have "parse_digits (show_digits (Suc k) n @ s) acc =
      parse_digits s (10 * (acc * 10 ^ k + int (n div 10 mod 10 ^ k)) + int (n mod 10))"
    by (simp add: Suc.IH d)
  moreover have "n mod 10 ^ Suc k = 10 * (n div 10 mod 10 ^ k) + n mod 10"
    by (simp add: mod_mult2_eq)
  ultimately show ?case by (simp add: algebra_simps)
qed simp

lemma parse_digits_dropWhile: "parse_digits (dropWhile (\<lambda>c. c = CHR ''0'') s) 0 = parse_digits s 0"
proof (induction s)
  case (Cons c s)
  have "is_ascii_digit CHR ''0''" "byte_of CHR ''0'' - 48 = 0" by code_simp+
  with Cons.IH show ?case by simp
qed simp

lemma show_nat_nonempty [simp]: "show_nat n \<noteq> []"
  by (simp add: show_nat_def Let_def)

lemma show_nat_digits: "c \<in> set (show_nat n) \<Longrightarrow> is_ascii_digit c"
proof -
  have "is_ascii_digit d" if "d \<in> set (show_digits k m)" for k m d
    using that byte_of_digit [of "_ mod 10"]
    by (induction k arbitrary: m) (auto simp: is_ascii_digit_def)
  moreover have "is_ascii_digit CHR ''0''" by code_simp
  ultimately show "c \<in> set (show_nat n) \<Longrightarrow> is_ascii_digit c"
    by (auto simp: show_nat_def Let_def split: if_splits dest: set_dropWhileD)
qed

lemma parse_show_nat:
  assumes "n < 10 ^ 20"
  shows "parse_digits (show_nat n) 0 = Some (int n)"
proof -
  have "parse_digits (dropWhile (\<lambda>c. c = CHR ''0'') (show_digits 20 n)) 0 = Some (int n)"
    using show_digits_parse [of 20 n "[]" 0] assms by (simp add: parse_digits_dropWhile)
  moreover have "parse_digits ''0'' 0 = Some 0" by code_simp
  ultimately show ?thesis by (cases "dropWhile (\<lambda>c. c = CHR ''0'') (show_digits 20 n) = []") (auto simp: show_nat_def)
qed

lemma parse_usize_show_nat:
  assumes "n < 2 ^ 64"
  shows "parse_usize (show_nat n) = Some n"
proof -
  obtain c r where s: "show_nat n = c # r" by (cases "show_nat n") auto
  then have "is_ascii_digit c" using show_nat_digits [of c n] by simp
  moreover have "\<not> is_ascii_digit CHR ''+''" by code_simp
  ultimately have "c \<noteq> CHR ''+''" by blast
  moreover have "int n < 2 ^ 64" using assms by (metis of_nat_less_iff of_nat_numeral of_nat_power)
  ultimately show ?thesis
    using s parse_show_nat [of n] assms by (simp add: parse_usize_def)
qed

lemma parse_i64_to_string:
  assumes "is_i64 i"
  shows "parse_i64 (i64_to_string i) = Some i"
proof -
  obtain c r where s: "show_nat (nat \<bar>i\<bar>) = c # r" by (cases "show_nat (nat \<bar>i\<bar>)") auto
  then have "is_ascii_digit c" using show_nat_digits [of c "nat \<bar>i\<bar>"] by simp
  moreover have "\<not> is_ascii_digit CHR ''+''" "\<not> is_ascii_digit CHR ''-''" by code_simp+
  ultimately have c: "c \<noteq> CHR ''+''" "c \<noteq> CHR ''-''" by blast+
  have "nat \<bar>i\<bar> < 10 ^ 20" using assms by (auto simp: is_i64_def i64_min_def i64_max_def nat_less_iff)
  then have "parse_digits (c # r) 0 = Some \<bar>i\<bar>" using parse_show_nat [of "nat \<bar>i\<bar>"] s by simp
  with s c assms show ?thesis
    by (auto simp: parse_i64_def i64_to_string_def Let_def split: if_splits)
qed

end
