(* ===== verification/Tds_Packet.thy ===== *)
theory Tds_Packet
  imports Wire_Bytes
begin

unbundle bit_operations_syntax

text \<open>
  TDS framing (\<^verbatim>\<open>src/crates/litewire-tds/src/packet.rs\<close>): a message is split into packets with an
  8-byte header and reassembled up to the packet with the end-of-message bit. The connection is a
  byte string and the way it ends; what is written is the bytes written. \<^verbatim>\<open>usize\<close> is a 64-bit word
  and arithmetic wraps, as in a release build.
\<close>

definition HEADER_SIZE :: nat where "HEADER_SIZE = 8"
definition DEFAULT_PACKET_SIZE :: u64 where "DEFAULT_PACKET_SIZE = 4096"
definition STATUS_EOM :: u8 where "STATUS_EOM = 0x01"

datatype packet_type = SqlBatch | RpcRequest | Response | Login7 | PreLogin

fun packet_type_u8 :: "packet_type \<Rightarrow> u8" where
  "packet_type_u8 SqlBatch = 0x01"
| "packet_type_u8 RpcRequest = 0x03"
| "packet_type_u8 Response = 0x04"
| "packet_type_u8 Login7 = 0x10"
| "packet_type_u8 PreLogin = 0x12"

definition packet_type_from_u8 :: "u8 \<Rightarrow> packet_type option" where
  "packet_type_from_u8 b =
     (if b = 0x01 then Some SqlBatch else if b = 0x03 then Some RpcRequest
      else if b = 0x04 then Some Response else if b = 0x10 then Some Login7
      else if b = 0x12 then Some PreLogin else None)"

record tds_message =
  packet_type :: packet_type
  payload :: bytes

section \<open>Reading\<close>

datatype tds_io_error = UnexpectedEof | InvalidData | ConnectionBroken

text \<open>The bytes still to come, and whether the connection then breaks instead of closing.\<close>

record tds_reader =
  incoming :: bytes
  broken :: bool

definition read_exact :: "nat \<Rightarrow> tds_reader \<Rightarrow> (tds_io_error + bytes) \<times> tds_reader" where
  "read_exact n r =
     (if n \<le> length (incoming r) then (Inr (take n (incoming r)), r\<lparr>incoming := drop n (incoming r)\<rparr>)
      else (Inl (if broken r then ConnectionBroken else UnexpectedEof), r\<lparr>incoming := []\<rparr>))"

function read_packets ::
  "packet_type option \<Rightarrow> bytes \<Rightarrow> tds_reader \<Rightarrow> (tds_io_error + tds_message option) \<times> tds_reader" where
  "read_packets msg_type payld r =
     (case read_exact HEADER_SIZE r of
        (Inl e, r1) \<Rightarrow> (if e = UnexpectedEof \<and> payld = [] then Inr None else Inl e, r1)
      | (Inr header, r1) \<Rightarrow>
          (let pkt_type = header ! 0; status = header ! 1;
               len = unat (of_be_bytes [header ! 2, header ! 3] :: u16);
               msg_type' = (if msg_type = None then packet_type_from_u8 pkt_type else msg_type);
               payload_len = len - HEADER_SIZE
           in case (if 0 < payload_len then read_exact payload_len r1 else (Inr [], r1)) of
                (Inl e, r2) \<Rightarrow> (Inl e, r2)
              | (Inr body, r2) \<Rightarrow>
                  if status AND STATUS_EOM \<noteq> 0 then
                    (case msg_type' of
                       Some pt \<Rightarrow> (Inr (Some \<lparr>packet_type = pt, payload = payld @ body\<rparr>), r2)
                     | None \<Rightarrow> (Inl InvalidData, r2))
                  else read_packets msg_type' (payld @ body) r2))"
  by pat_completeness auto
termination
  by (relation "measure (\<lambda>(t, p, r). length (incoming r))")
    (auto simp: read_exact_def HEADER_SIZE_def split: if_splits)

declare read_packets.simps [simp del]

definition read_message :: "tds_reader \<Rightarrow> (tds_io_error + tds_message option) \<times> tds_reader" where
  "read_message r = read_packets None [] r"

section \<open>Writing\<close>

text \<open>\<^verbatim>\<open>data.chunks(n)\<close>\<close>

function chunks :: "nat \<Rightarrow> bytes \<Rightarrow> bytes list" where
  "chunks n bs = (if bs = [] \<or> n = 0 then [] else take n bs # chunks n (drop n bs))"
  by pat_completeness auto
termination by (relation "measure (\<lambda>(n, bs). length bs)") auto

declare chunks.simps [simp del]

definition packet_header :: "packet_type \<Rightarrow> nat \<Rightarrow> nat \<Rightarrow> nat \<Rightarrow> bytes" where
  "packet_header pt last_idx i len =
     [packet_type_u8 pt, if i = last_idx then STATUS_EOM else 0x00]
     @ be_bytes 2 (of_nat (HEADER_SIZE + len) :: u16) @ be_bytes 2 (0 :: u16) @ [of_nat (i + 1), 0]"

fun write_chunks :: "packet_type \<Rightarrow> nat \<Rightarrow> nat \<Rightarrow> bytes list \<Rightarrow> bytes" where
  "write_chunks pt last_idx i [] = []"
| "write_chunks pt last_idx i (c # cs) =
     packet_header pt last_idx i (length c) @ c @ write_chunks pt last_idx (Suc i) cs"

text \<open>\<open>None\<close> is the panic of \<^verbatim>\<open>chunks(0)\<close>.\<close>

definition write_message :: "packet_type \<Rightarrow> bytes \<Rightarrow> u64 \<Rightarrow> bytes option" where
  "write_message pt data max_packet_size =
     (let max_payload = max_packet_size - of_nat HEADER_SIZE in
      if data \<noteq> [] \<and> max_payload = 0 then None
      else
        let cs = (if data = [] then [[]] else chunks (unat max_payload) data);
            last_idx = length cs - 1
        in Some (write_chunks pt last_idx 0 cs))"

section \<open>Reassembly\<close>

lemma packet_type_roundtrip [simp]: "packet_type_from_u8 (packet_type_u8 pt) = Some pt"
  by (cases pt) (simp_all add: packet_type_from_u8_def)

lemma concat_chunks: "0 < n \<Longrightarrow> concat (chunks n bs) = bs"
  by (induction n bs rule: chunks.induct) (subst chunks.simps, simp)

lemma chunks_length: "c \<in> set (chunks n bs) \<Longrightarrow> 0 < length c \<and> length c \<le> n"
proof (induction n bs rule: chunks.induct)
  case (1 n bs)
  then show ?case by (subst (asm) (2) chunks.simps) (auto split: if_splits)
qed

lemma chunks_eq_Nil [simp]: "chunks n bs = [] \<longleftrightarrow> bs = [] \<or> n = 0"
  by (subst chunks.simps) simp

lemma length_packet_header [simp]: "length (packet_header pt l i n) = 8"
  by (simp add: packet_header_def)

lemma read_exact_append:
  "n = length bs \<Longrightarrow> read_exact n \<lparr>incoming = bs @ t, broken = b\<rparr> = (Inr bs, \<lparr>incoming = t, broken = b\<rparr>)"
  by (simp add: read_exact_def)

text \<open>One packet read back.\<close>

lemma read_one_packet:
  assumes "length c \<le> 65527"
  shows "read_packets mt acc \<lparr>incoming = packet_header pt l i (length c) @ c @ t, broken = b\<rparr> =
    (let mt' = (if mt = None then Some pt else mt) in
     if i = l then (Inr (Some \<lparr>packet_type = the mt', payload = acc @ c\<rparr>), \<lparr>incoming = t, broken = b\<rparr>)
     else read_packets mt' (acc @ c) \<lparr>incoming = t, broken = b\<rparr>)"
proof -
  let ?h = "packet_header pt l i (length c)"
  have h: "?h ! 0 = packet_type_u8 pt" "?h ! Suc 0 = (if i = l then 1 else 0)"
    "[?h ! 2, ?h ! 3] = be_bytes 2 (of_nat (8 + length c) :: u16)"
    by (auto simp: packet_header_def HEADER_SIZE_def STATUS_EOM_def be_bytes_def numeral_2_eq_2 numeral_3_eq_3)
  have len: "unat (of_be_bytes [?h ! 2, ?h ! 3] :: u16) = 8 + length c"
    unfolding h using assms by (simp add: be_bytes_inverse unsigned_of_nat take_bit_nat_eq_self del: of_nat_add)
  have body: "(if 0 < length c then read_exact (length c) \<lparr>incoming = c @ t, broken = b\<rparr> else (Inr [], \<lparr>incoming = c @ t, broken = b\<rparr>))
      = (Inr c, \<lparr>incoming = t, broken = b\<rparr>)"
    using read_exact_append [of "length c" c t b] by simp
  show ?thesis
    using body by (subst read_packets.simps)
      (auto simp: read_exact_append HEADER_SIZE_def len h(1,2) STATUS_EOM_def Let_def split: prod.splits)
qed

lemma read_written_chunks:
  assumes "cs \<noteq> []" and "\<And>c. c \<in> set cs \<Longrightarrow> length c \<le> 65527" and "l = i + length cs - 1"
    and "mt = None \<or> mt = Some pt"
  shows "read_packets mt acc \<lparr>incoming = write_chunks pt l i cs @ t, broken = b\<rparr> =
    (Inr (Some \<lparr>packet_type = pt, payload = acc @ concat cs\<rparr>), \<lparr>incoming = t, broken = b\<rparr>)"
  using assms
proof (induction cs arbitrary: i acc mt)
  case (Cons c cs)
  show ?case
  proof (cases cs)
    case Nil
    with Cons(3-5) show ?thesis by (auto simp: read_one_packet)
  next
    case (Cons c' cs')
    with Cons.prems Cons.IH [of "Suc i" "Some pt" "acc @ c"] show ?thesis
      by (auto simp: read_one_packet)
  qed
qed simp

text \<open>A message read from some bytes is read the same when more bytes follow.\<close>

lemma read_exact_mono:
  "read_exact n r = (Inr bs, r') \<Longrightarrow>
     read_exact n (r\<lparr>incoming := incoming r @ t\<rparr>) = (Inr bs, r'\<lparr>incoming := incoming r' @ t\<rparr>)"
  by (auto simp: read_exact_def split: if_splits)

lemma read_packets_step:
  assumes "read_exact HEADER_SIZE r = (Inr h, r1)"
    and "(if 0 < unat (of_be_bytes [h ! 2, h ! 3] :: u16) - HEADER_SIZE
          then read_exact (unat (of_be_bytes [h ! 2, h ! 3] :: u16) - HEADER_SIZE) r1 else (Inr [], r1)) = (Inr body, r2)"
    and "mt' = (if mt = None then packet_type_from_u8 (h ! 0) else mt)"
  shows "read_packets mt acc r =
    (if h ! 1 AND STATUS_EOM \<noteq> 0 then
       (case mt' of Some pt \<Rightarrow> (Inr (Some \<lparr>packet_type = pt, payload = acc @ body\<rparr>), r2) | None \<Rightarrow> (Inl InvalidData, r2))
     else read_packets mt' (acc @ body) r2)"
  by (subst read_packets.simps) (simp only: assms Let_def prod.case sum.case)

lemma read_packets_progress:
  assumes "read_packets mt acc r = (Inr (Some m), r')"
  obtains h r1 body r2 where "read_exact HEADER_SIZE r = (Inr h, r1)"
    "(if 0 < unat (of_be_bytes [h ! 2, h ! 3] :: u16) - HEADER_SIZE
      then read_exact (unat (of_be_bytes [h ! 2, h ! 3] :: u16) - HEADER_SIZE) r1 else (Inr [], r1)) = (Inr body, r2)"
proof -
  obtain h r1 where h: "read_exact HEADER_SIZE r = (Inr h, r1)"
    using assms by (subst (asm) read_packets.simps) (auto split: sum.splits prod.splits if_splits)
  define q where "q = (if 0 < unat (of_be_bytes [h ! 2, h ! 3] :: u16) - HEADER_SIZE
      then read_exact (unat (of_be_bytes [h ! 2, h ! 3] :: u16) - HEADER_SIZE) r1 else (Inr [], r1))"
  obtain body r2 where "q = (Inr body, r2)"
    using assms by (subst (asm) read_packets.simps)
      (auto simp only: h Let_def prod.case sum.case q_def [symmetric] split: sum.splits prod.splits)
  with h q_def that show thesis by blast
qed

lemma read_packets_mono:
  assumes "read_packets mt acc r = (Inr (Some m), r')"
  shows "read_packets mt acc (r\<lparr>incoming := incoming r @ t\<rparr>) = (Inr (Some m), r'\<lparr>incoming := incoming r' @ t\<rparr>)"
  using assms
proof (induction "length (incoming r)" arbitrary: mt acc r rule: less_induct)
  case less
  obtain h r1 body r2 where h: "read_exact HEADER_SIZE r = (Inr h, r1)"
    and b: "(if 0 < unat (of_be_bytes [h ! 2, h ! 3] :: u16) - HEADER_SIZE
      then read_exact (unat (of_be_bytes [h ! 2, h ! 3] :: u16) - HEADER_SIZE) r1 else (Inr [], r1)) = (Inr body, r2)"
    using less(2) by (rule read_packets_progress)
  have b': "(if 0 < unat (of_be_bytes [h ! 2, h ! 3] :: u16) - HEADER_SIZE
      then read_exact (unat (of_be_bytes [h ! 2, h ! 3] :: u16) - HEADER_SIZE) (r1\<lparr>incoming := incoming r1 @ t\<rparr>)
      else (Inr [], r1\<lparr>incoming := incoming r1 @ t\<rparr>)) = (Inr body, r2\<lparr>incoming := incoming r2 @ t\<rparr>)"
    using b read_exact_mono [of _ r1 body r2 t] by (auto split: if_splits)
  have "length (incoming r2) < length (incoming r)"
    using h b by (auto simp: read_exact_def HEADER_SIZE_def split: if_splits)
  with less(1) [of r2] less(2) show ?case
    unfolding read_packets_step [OF h b refl] read_packets_step [OF read_exact_mono [OF h] b' refl]
    by (auto split: if_splits option.splits)
qed

lemma read_written_message:
  assumes "write_message pt data n = Some bs" and "8 < n" and "n \<le> 65535"
  shows "read_message \<lparr>incoming = bs @ t, broken = b\<rparr> =
    (Inr (Some \<lparr>packet_type = pt, payload = data\<rparr>), \<lparr>incoming = t, broken = b\<rparr>)"
proof -
  define mp where "mp = unat (n - 8)"
  have mp: "0 < mp" "mp \<le> 65527"
    using assms(2,3) by (simp_all add: mp_def unat_sub word_less_nat_alt word_le_nat_alt)
  have "chunks mp data \<noteq> [] \<Longrightarrow> read_packets None [] \<lparr>incoming = write_chunks pt (length (chunks mp data) - 1) 0 (chunks mp data) @ t, broken = b\<rparr>
      = (Inr (Some \<lparr>packet_type = pt, payload = data\<rparr>), \<lparr>incoming = t, broken = b\<rparr>)"
    using chunks_length [of _ mp data] mp by (subst read_written_chunks) (force simp: concat_chunks)+
  moreover have "read_packets None [] \<lparr>incoming = write_chunks pt 0 0 [[]] @ t, broken = b\<rparr>
      = (Inr (Some \<lparr>packet_type = pt, payload = []\<rparr>), \<lparr>incoming = t, broken = b\<rparr>)"
    by (subst read_written_chunks) auto
  ultimately show ?thesis
    using assms(1) mp
    by (auto simp: write_message_def read_message_def Let_def HEADER_SIZE_def mp_def [symmetric] split: if_splits)
qed

section \<open>Properties\<close>

lemma demo_written: "write_message Response [1, 2, 3] 10 =
    Some [4, 0, 0, 10, 0, 0, 1, 0, 1, 2, 4, 1, 0, 9, 0, 0, 2, 0, 3]"
  by code_simp

text \<open>
  Property C20 (framing round trip). A message of any length, split for any packet size above the
  header and within the 16-bit length field, is read back as the same type and payload, and the
  bytes after it are left for the next read.
\<close>

theorem message_roundtrip:
  assumes "write_message pt data n = Some bs" and "8 < n" and "n \<le> 65535"
  shows "read_message \<lparr>incoming = bs @ t, broken = b\<rparr> =
    (Inr (Some \<lparr>packet_type = pt, payload = data\<rparr>), \<lparr>incoming = t, broken = b\<rparr>)"
  by (rule read_written_message [OF assms])

theorem message_roundtrip_witness:
  "read_message \<lparr>incoming = [4, 0, 0, 10, 0, 0, 1, 0, 1, 2, 4, 1, 0, 9, 0, 0, 2, 0, 3] @ [7], broken = False\<rparr> =
     (Inr (Some \<lparr>packet_type = Response, payload = [1, 2, 3]\<rparr>), \<lparr>incoming = [7], broken = False\<rparr>)"
  using message_roundtrip [OF demo_written, of "[7]" False] by simp

text \<open>
  Fact (a message cut short is never delivered). If the connection ends anywhere inside a
  message, reading it yields no message: an error, or the end of the connection when nothing of a
  payload had arrived.
\<close>

theorem truncated_message_not_delivered:
  assumes "write_message pt data n = Some bs" and "8 < n" and "n \<le> 65535" and "k < length bs"
  shows "fst (read_message \<lparr>incoming = take k bs, broken = b\<rparr>) \<noteq> Inr (Some m)"
proof
  assume "fst (read_message \<lparr>incoming = take k bs, broken = b\<rparr>) = Inr (Some m)"
  then obtain r' where "read_packets None [] \<lparr>incoming = take k bs, broken = b\<rparr> = (Inr (Some m), r')"
    by (cases "read_message \<lparr>incoming = take k bs, broken = b\<rparr>") (auto simp: read_message_def)
  from read_packets_mono [OF this, of "drop k bs"] read_written_message [OF assms(1-3), of "[]" b]
  show False using assms(4) by (cases r') (auto simp: read_message_def)
qed

theorem truncated_message_not_delivered_witness:
  "fst (read_message \<lparr>incoming = take 12 [4, 0, 0, 10, 0, 0, 1, 0, 1, 2, 4, 1, 0, 9, 0, 0, 2, 0, 3], broken = False\<rparr>)
     \<noteq> Inr (Some \<lparr>packet_type = Response, payload = [1, 2]\<rparr>)"
  using truncated_message_not_delivered [OF demo_written, of 12] by simp

end
