(* ===== verification/Backend_Value.thy ===== *)
theory Backend_Value
  imports Wire_Bytes
begin

text \<open>
  The values that pass between the frontends and a backend
  (\<^verbatim>\<open>src/crates/litewire-backend/src/lib.rs\<close>): \<^verbatim>\<open>Value\<close> with its \<^verbatim>\<open>Display\<close> text, \<^verbatim>\<open>Column\<close>, \<^verbatim>\<open>ResultSet\<close> and
  \<^verbatim>\<open>ExecuteResult\<close>. An integer is an \<^verbatim>\<open>i64\<close> in two's complement, a float its 64 bits; the
  conversions between floats, integers and text are the parameter \<open>fl\<close> of the functions that use them.
\<close>

type_synonym f64_bits = u64

datatype backend_value = Null | Integer u64 | Float f64_bits | Text string | Blob bytes

record column =
  col_name :: string
  decltype :: "string option"

record f64_ops =
  f64_of_i64 :: "int \<Rightarrow> f64_bits"
  i64_of_f64 :: "f64_bits \<Rightarrow> int"
  f64_to_string :: "f64_bits \<Rightarrow> string"
  parse_f64 :: "string \<Rightarrow> f64_bits option"

record result_set =
  rs_columns :: "column list"
  rs_rows :: "backend_value list list"

record execute_result =
  affected_rows :: u64
  last_insert_rowid :: "u64 option"

fun value_to_string :: "f64_ops \<Rightarrow> backend_value \<Rightarrow> string" where
  "value_to_string fl Null = ''NULL''"
| "value_to_string fl (Integer v) = i64_to_string (sint v)"
| "value_to_string fl (Float v) = f64_to_string fl v"
| "value_to_string fl (Text v) = v"
| "value_to_string fl (Blob v) = ''<blob '' @ show_nat (length v) @ '' bytes>''"

text \<open>The first value of the first row (\<^verbatim>\<open>rs.rows.first().and_then(|r| r.first())\<close>).\<close>

definition first_value :: "result_set \<Rightarrow> backend_value option" where
  "first_value rs = (case rs_rows rs of (v # _) # _ \<Rightarrow> Some v | _ \<Rightarrow> None)"

end
