(* ===== verification/Tds_Token.thy ===== *)
theory Tds_Token
  imports Backend_Value
begin

text \<open>
  TDS response tokens (\<^verbatim>\<open>src/crates/litewire-tds/src/token.rs\<close>): every writer appends its bytes to
  the buffer. \<^verbatim>\<open>as u8\<close> and \<^verbatim>\<open>as u16\<close> truncate. A float is its 64 bits; the conversions between
  floats, integers and text are the parameter \<open>fl\<close>.
\<close>

section \<open>Constants\<close>

definition TOKEN_ENVCHANGE :: u8 where "TOKEN_ENVCHANGE = 0xE3"
definition TOKEN_INFO :: u8 where "TOKEN_INFO = 0xAB"
definition TOKEN_LOGINACK :: u8 where "TOKEN_LOGINACK = 0xAD"
definition TOKEN_COLMETADATA :: u8 where "TOKEN_COLMETADATA = 0x81"
definition TOKEN_ROW :: u8 where "TOKEN_ROW = 0xD1"
definition TOKEN_DONE :: u8 where "TOKEN_DONE = 0xFD"
definition TOKEN_ERROR :: u8 where "TOKEN_ERROR = 0xAA"
definition DONE_FINAL :: u16 where "DONE_FINAL = 0x0000"
definition DONE_COUNT :: u16 where "DONE_COUNT = 0x0010"
definition TYPE_NVARCHAR :: u8 where "TYPE_NVARCHAR = 0xE7"
definition TYPE_INTN :: u8 where "TYPE_INTN = 0x26"
definition TYPE_FLTN :: u8 where "TYPE_FLTN = 0x6D"
definition TYPE_BIGVARBINARY :: u8 where "TYPE_BIGVARBINARY = 0xA5"
definition DEFAULT_COLLATION :: bytes where "DEFAULT_COLLATION = [0x09, 0x04, 0xD0, 0x00, 0x34]"

datatype tds_type = BigInt | Float8 | NVarChar | VarBinary

record tds_column =
  tname :: string
  ttype :: tds_type

definition sqlite_to_tds_type :: "string option \<Rightarrow> tds_type" where
  "sqlite_to_tds_type dt =
     (case dt of
        None \<Rightarrow> NVarChar
      | Some d \<Rightarrow>
          (let upper = to_ascii_uppercase d in
           if contains_str upper ''INT'' \<or> contains_str upper ''BOOL'' \<or> contains_str upper ''BIT'' then BigInt
           else if contains_str upper ''REAL'' \<or> contains_str upper ''FLOAT'' \<or> contains_str upper ''DOUBLE'' then Float8
           else if contains_str upper ''BLOB'' \<or> contains_str upper ''BINARY'' then VarBinary
           else NVarChar))"

fun value_to_tds_type :: "backend_value \<Rightarrow> tds_type" where
  "value_to_tds_type Null = NVarChar"
| "value_to_tds_type (Text s) = NVarChar"
| "value_to_tds_type (Integer i) = BigInt"
| "value_to_tds_type (Float f) = Float8"
| "value_to_tds_type (Blob b) = VarBinary"

definition row_get :: "'a list \<Rightarrow> nat \<Rightarrow> 'a option" where
  "row_get xs i = (if i < length xs then Some (xs ! i) else None)"

definition build_columns :: "column list \<Rightarrow> backend_value list option \<Rightarrow> tds_column list" where
  "build_columns columns first_row =
     map (\<lambda>(idx, col).
        \<lparr>tname = col_name col,
         ttype = (if decltype col \<noteq> None then sqlite_to_tds_type (decltype col)
                  else case Option.bind first_row (\<lambda>row. row_get row idx) of
                      Some v \<Rightarrow> value_to_tds_type v | None \<Rightarrow> NVarChar)\<rparr>)
       (enumerate 0 columns)"

section \<open>Token writers\<close>

definition u16_le :: "nat \<Rightarrow> bytes" where "u16_le n = le_bytes 2 (of_nat n :: u16)"
definition u32_le :: "u32 \<Rightarrow> bytes" where "u32_le w = le_bytes 4 w"
definition u64_le :: "u64 \<Rightarrow> bytes" where "u64_le w = le_bytes 8 w"
definition u8_of :: "nat \<Rightarrow> u8" where "u8_of n = of_nat n"

definition write_loginack :: "bytes \<Rightarrow> string \<Rightarrow> bytes" where
  "write_loginack buf server_name =
     (let name_utf16 = utf16le server_name;
          body_len = 1 + 4 + 1 + length name_utf16 + 4
      in buf @ [TOKEN_LOGINACK] @ u16_le body_len @ [1] @ be_bytes 4 (0x74000004 :: u32)
         @ [u8_of (char_count server_name)] @ name_utf16 @ u32_le 0x0F000000)"

definition write_envchange_database :: "bytes \<Rightarrow> string \<Rightarrow> bytes" where
  "write_envchange_database buf db_name =
     (let name_utf16 = utf16le db_name;
          char_len = u8_of (char_count db_name);
          body_len = 1 + 1 + length name_utf16 + 1 + length name_utf16
      in buf @ [TOKEN_ENVCHANGE] @ u16_le body_len @ [1, char_len] @ name_utf16 @ [char_len] @ name_utf16)"

definition write_envchange_packet_size :: "bytes \<Rightarrow> u32 \<Rightarrow> bytes" where
  "write_envchange_packet_size buf sz =
     (let new_str = show_nat (unat sz);
          new_utf16 = utf16le new_str;
          old_str = ''4096'';
          old_utf16 = utf16le old_str;
          body_len = 1 + 1 + length new_utf16 + 1 + length old_utf16
      in buf @ [TOKEN_ENVCHANGE] @ u16_le body_len @ [4, u8_of (char_count new_str)] @ new_utf16
         @ [u8_of (char_count old_str)] @ old_utf16)"

definition write_info_or_error ::
  "bytes \<Rightarrow> u8 \<Rightarrow> u32 \<Rightarrow> u8 \<Rightarrow> string \<Rightarrow> string \<Rightarrow> string \<Rightarrow> u32 \<Rightarrow> bytes" where
  "write_info_or_error buf token number state message server_name proc_name line =
     (let msg_utf16 = utf16le message;
          srv_utf16 = utf16le server_name;
          proc_utf16 = utf16le proc_name;
          body_len = 4 + 1 + 1 + 2 + length msg_utf16 + 1 + length srv_utf16 + 1 + length proc_utf16 + 4
      in buf @ [token] @ u16_le body_len @ u32_le number @ [state, if token = TOKEN_ERROR then 14 else 0]
         @ u16_le (char_count message) @ msg_utf16
         @ [u8_of (char_count server_name)] @ srv_utf16
         @ [u8_of (char_count proc_name)] @ proc_utf16 @ u32_le line)"

definition write_info :: "bytes \<Rightarrow> u32 \<Rightarrow> string \<Rightarrow> bytes" where
  "write_info buf number message = write_info_or_error buf TOKEN_INFO number 1 message '''' '''' 0"

definition write_error :: "bytes \<Rightarrow> u32 \<Rightarrow> string \<Rightarrow> bytes" where
  "write_error buf number message = write_info_or_error buf TOKEN_ERROR number 14 message '''' '''' 0"

fun type_info :: "tds_type \<Rightarrow> bytes" where
  "type_info BigInt = [TYPE_INTN, 8]"
| "type_info Float8 = [TYPE_FLTN, 8]"
| "type_info NVarChar = [TYPE_NVARCHAR] @ u16_le 8000 @ DEFAULT_COLLATION"
| "type_info VarBinary = [TYPE_BIGVARBINARY] @ u16_le 8000"

definition column_metadata :: "tds_column \<Rightarrow> bytes" where
  "column_metadata col =
     u32_le 0 @ u16_le 8 @ type_info (ttype col) @ [u8_of (char_count (tname col))] @ utf16le (tname col)"

definition write_colmetadata :: "bytes \<Rightarrow> tds_column list \<Rightarrow> bytes" where
  "write_colmetadata buf columns =
     buf @ [TOKEN_COLMETADATA] @ u16_le (length columns) @ concat (map column_metadata columns)"

definition write_nvarchar :: "bytes \<Rightarrow> string \<Rightarrow> bytes" where
  "write_nvarchar buf s = (let utf16 = utf16le s in buf @ u16_le (length utf16) @ utf16)"

definition hex_char :: "u8 \<Rightarrow> char" where
  "hex_char n = char_of (uint (if n < 10 then 48 + n else 87 + n))"

definition hex_encode :: "bytes \<Rightarrow> string" where
  "hex_encode data = concat (map (\<lambda>b. [hex_char (drop_bit 4 b), hex_char (take_bit 4 b)]) data)"

fun write_value :: "f64_ops \<Rightarrow> bytes \<Rightarrow> backend_value \<Rightarrow> tds_type \<Rightarrow> bytes" where
  "write_value fl buf Null ty =
     (case ty of BigInt \<Rightarrow> buf @ [0] | Float8 \<Rightarrow> buf @ [0]
      | NVarChar \<Rightarrow> buf @ u16_le 0xFFFF | VarBinary \<Rightarrow> buf @ u16_le 0xFFFF)"
| "write_value fl buf (Integer i) ty =
     (case ty of BigInt \<Rightarrow> buf @ [8] @ u64_le i
      | Float8 \<Rightarrow> buf @ [8] @ u64_le (f64_of_i64 fl (sint i))
      | _ \<Rightarrow> write_nvarchar buf (i64_to_string (sint i)))"
| "write_value fl buf (Float f) ty =
     (case ty of Float8 \<Rightarrow> buf @ [8] @ u64_le f
      | BigInt \<Rightarrow> buf @ [8] @ u64_le (word_of_int (i64_of_f64 fl f))
      | _ \<Rightarrow> write_nvarchar buf (f64_to_string fl f))"
| "write_value fl buf (Text s) ty =
     (case ty of
        BigInt \<Rightarrow> (case parse_i64 s of Some i \<Rightarrow> buf @ [8] @ u64_le (word_of_int i) | None \<Rightarrow> buf @ [0])
      | Float8 \<Rightarrow> (case parse_f64 fl s of Some f \<Rightarrow> buf @ [8] @ u64_le f | None \<Rightarrow> buf @ [0])
      | _ \<Rightarrow> write_nvarchar buf s)"
| "write_value fl buf (Blob b) ty =
     (case ty of VarBinary \<Rightarrow> buf @ u16_le (length b) @ b
      | _ \<Rightarrow> write_nvarchar buf (hex_encode b))"

definition column_type :: "tds_column list \<Rightarrow> nat \<Rightarrow> tds_type" where
  "column_type columns idx = (case row_get columns idx of Some c \<Rightarrow> ttype c | None \<Rightarrow> NVarChar)"

definition write_row :: "f64_ops \<Rightarrow> bytes \<Rightarrow> tds_column list \<Rightarrow> backend_value list \<Rightarrow> bytes" where
  "write_row fl buf columns row =
     fold (\<lambda>(idx, v) b. write_value fl b v (column_type columns idx)) (enumerate 0 row) (buf @ [TOKEN_ROW])"

definition write_envchange_begin_tran :: "bytes \<Rightarrow> u64 \<Rightarrow> bytes" where
  "write_envchange_begin_tran buf tran_id =
     buf @ [TOKEN_ENVCHANGE] @ u16_le (1 + 1 + 8 + 1) @ [8, 8] @ u64_le tran_id @ [0]"

definition write_envchange_commit_tran :: "bytes \<Rightarrow> u64 \<Rightarrow> bytes" where
  "write_envchange_commit_tran buf old_tran_id =
     buf @ [TOKEN_ENVCHANGE] @ u16_le (1 + 1 + 1 + 8) @ [9, 0, 8] @ u64_le old_tran_id"

definition write_envchange_rollback_tran :: "bytes \<Rightarrow> u64 \<Rightarrow> bytes" where
  "write_envchange_rollback_tran buf old_tran_id =
     buf @ [TOKEN_ENVCHANGE] @ u16_le (1 + 1 + 1 + 8) @ [10, 0, 8] @ u64_le old_tran_id"

definition write_done :: "bytes \<Rightarrow> u16 \<Rightarrow> u64 \<Rightarrow> bytes" where
  "write_done buf status row_count =
     buf @ [TOKEN_DONE] @ le_bytes 2 status @ u16_le 0 @ u64_le row_count"

section \<open>A client's view of the stream\<close>

text \<open>
  What a TDS client does with these tokens, independently of how they are written: a token with a
  length field is its tag, 16 bits of length and that many bytes; a value of a row has the shape its
  column's type announced.
\<close>

definition parse_token :: "bytes \<Rightarrow> (u8 \<times> bytes \<times> bytes) option" where
  "parse_token bs =
     (case bs of
        tag # l0 # l1 # r \<Rightarrow>
          (let n = unat (of_le_bytes [l0, l1] :: u16) in
           if n \<le> length r then Some (tag, take n r, drop n r) else None)
      | _ \<Rightarrow> None)"

datatype wire_value = WNull | WFixed u64 | WVar bytes

definition read_value :: "tds_type \<Rightarrow> bytes \<Rightarrow> (wire_value \<times> bytes) option" where
  "read_value ty bs =
     (if ty = BigInt \<or> ty = Float8 then
        (case bs of
           [] \<Rightarrow> None
         | n # r \<Rightarrow> if n = 0 then Some (WNull, r)
                   else if n = 8 \<and> 8 \<le> length r then Some (WFixed (of_le_bytes (take 8 r)), drop 8 r)
                   else None)
      else
        (case bs of
           l0 # l1 # r \<Rightarrow>
             (let n = unat (of_le_bytes [l0, l1] :: u16) in
              if n = 0xFFFF then Some (WNull, r)
              else if n \<le> length r then Some (WVar (take n r), drop n r) else None)
         | _ \<Rightarrow> None))"

fun read_values :: "tds_type list \<Rightarrow> bytes \<Rightarrow> (wire_value list \<times> bytes) option" where
  "read_values [] bs = Some ([], bs)"
| "read_values (ty # tys) bs =
     (case read_value ty bs of
        None \<Rightarrow> None
      | Some (v, r) \<Rightarrow> (case read_values tys r of None \<Rightarrow> None | Some (vs, r') \<Rightarrow> Some (v # vs, r')))"

text \<open>What a value of a column should arrive as, where it can be sent at all.\<close>

definition wire_text :: "string \<Rightarrow> wire_value option" where
  "wire_text s = (if length (utf16le s) < 0xFFFF then Some (WVar (utf16le s)) else None)"

fun wire_of :: "f64_ops \<Rightarrow> backend_value \<Rightarrow> tds_type \<Rightarrow> wire_value option" where
  "wire_of fl Null ty = Some WNull"
| "wire_of fl (Integer i) ty =
     (case ty of BigInt \<Rightarrow> Some (WFixed i) | Float8 \<Rightarrow> Some (WFixed (f64_of_i64 fl (sint i)))
      | _ \<Rightarrow> wire_text (i64_to_string (sint i)))"
| "wire_of fl (Float f) ty =
     (case ty of Float8 \<Rightarrow> Some (WFixed f) | BigInt \<Rightarrow> Some (WFixed (word_of_int (i64_of_f64 fl f)))
      | _ \<Rightarrow> wire_text (f64_to_string fl f))"
| "wire_of fl (Text s) ty =
     (case ty of
        BigInt \<Rightarrow> Some (case parse_i64 s of Some i \<Rightarrow> WFixed (word_of_int i) | None \<Rightarrow> WNull)
      | Float8 \<Rightarrow> Some (case parse_f64 fl s of Some f \<Rightarrow> WFixed f | None \<Rightarrow> WNull)
      | _ \<Rightarrow> wire_text s)"
| "wire_of fl (Blob b) ty =
     (case ty of
        VarBinary \<Rightarrow> (if length b < 0xFFFF then Some (WVar b) else None)
      | NVarChar \<Rightarrow> wire_text (hex_encode b)
      | _ \<Rightarrow> None)"

section \<open>Lengths and values read back\<close>

lemma u16_le_split: "\<exists>l0 l1. u16_le n = [l0, l1] \<and> (n < 65536 \<longrightarrow> unat (of_le_bytes [l0, l1] :: u16) = n)"
proof -
  have "length (u16_le n) = 2" by (simp add: u16_le_def)
  then obtain l0 l1 where l: "u16_le n = [l0, l1]"
    by (metis (no_types) One_nat_def Suc_1 length_0_conv length_Suc_conv)
  then have "of_le_bytes [l0, l1] = (of_nat n :: u16)"
    using le_bytes_inverse [of 2 "of_nat n :: u16"] by (simp add: u16_le_def)
  with l show ?thesis by (auto simp: unsigned_of_nat take_bit_nat_eq_self)
qed

lemma parse_token_sized:
  assumes "length body < 65536"
  shows "parse_token ([tag] @ u16_le (length body) @ body @ rest) = Some (tag, body, rest)"
  using u16_le_split [of "length body"] assms by (auto simp: parse_token_def Let_def)

lemma read_value_fixed: "ty = BigInt \<or> ty = Float8 \<Longrightarrow> read_value ty ([8] @ u64_le w @ rest) = Some (WFixed w, rest)"
  using le_bytes_inverse [of 8 w] by (simp add: read_value_def u64_le_def)

lemma read_value_var:
  assumes "ty = NVarChar \<or> ty = VarBinary" and "length b < 0xFFFF"
  shows "read_value ty (u16_le (length b) @ b @ rest) = Some (WVar b, rest)"
  using u16_le_split [of "length b"] assms by (auto simp: read_value_def Let_def)

lemma read_value_null: "read_value ty (write_value fl [] Null ty @ rest) = Some (WNull, rest)"
proof -
  obtain l0 l1 where "u16_le 0xFFFF = [l0, l1]" "unat (of_le_bytes [l0, l1] :: u16) = 0xFFFF"
    using u16_le_split [of "0xFFFF"] by auto
  then show ?thesis by (cases ty) (auto simp: read_value_def Let_def)
qed

lemma write_nvarchar_read:
  "ty = NVarChar \<or> ty = VarBinary \<Longrightarrow> wire_text s = Some w \<Longrightarrow>
     read_value ty (write_nvarchar [] s @ rest) = Some (w, rest)"
  using read_value_var [of ty "utf16le s" rest] by (auto simp: write_nvarchar_def wire_text_def Let_def split: if_splits)

lemma write_value_buf: "write_value fl buf v ty = buf @ write_value fl [] v ty"
  by (cases v; cases ty) (auto simp: write_nvarchar_def Let_def split: option.split)

lemma read_written_value:
  assumes "wire_of fl v ty = Some w"
  shows "read_value ty (write_value fl [] v ty @ rest) = Some (w, rest)"
proof (cases v)
  case Null
  with assms read_value_null show ?thesis by simp
next
  case (Blob b)
  with assms read_value_var [of VarBinary b rest] write_nvarchar_read [of NVarChar "hex_encode b" w rest]
  show ?thesis by (cases ty) (auto split: if_splits)
qed (use assms read_value_fixed write_nvarchar_read in
    \<open>cases ty; auto simp: read_value_def [of BigInt "0 # rest"] read_value_def [of Float8 "0 # rest"] split: option.splits\<close>)+

definition row_types :: "tds_column list \<Rightarrow> nat \<Rightarrow> nat \<Rightarrow> tds_type list" where
  "row_types columns i n = map (column_type columns) [i..<i + n]"

lemma write_values_fold:
  "fold (\<lambda>(idx, v) b. write_value fl b v (column_type cols idx)) (enumerate i row) buf
     = buf @ fold (\<lambda>(idx, v) b. write_value fl b v (column_type cols idx)) (enumerate i row) []"
proof (induction row arbitrary: i buf)
  case (Cons v row)
  show ?case
    using Cons [of "Suc i" "write_value fl buf v (column_type cols i)"]
      Cons [of "Suc i" "write_value fl [] v (column_type cols i)"] write_value_buf [of fl buf v]
    by simp
qed simp

lemma read_written_values:
  assumes "list_all2 (\<lambda>(idx, v) w. wire_of fl v (column_type cols idx) = Some w) (enumerate i row) ws"
  shows "read_values (row_types cols i (length row))
      (fold (\<lambda>(idx, v) b. write_value fl b v (column_type cols idx)) (enumerate i row) [] @ rest) = Some (ws, rest)"
  using assms
proof (induction row arbitrary: i ws)
  case (Cons v row)
  then obtain w ws' where ws: "ws = w # ws'" "wire_of fl v (column_type cols i) = Some w"
    by (auto simp: list_all2_Cons1)
  have types: "row_types cols i (length (v # row)) = column_type cols i # row_types cols (Suc i) (length row)"
    by (simp add: row_types_def upt_conv_Cons del: upt_Suc)
  show ?case
    unfolding types
    using Cons ws read_written_value [OF ws(2)] write_values_fold [of fl cols "Suc i" row "write_value fl [] v (column_type cols i)"]
    by simp
qed (simp add: row_types_def)

lemma read_value_fixed_length:
  "ty = BigInt \<or> ty = Float8 \<Longrightarrow> read_value ty bs = Some (w, r) \<Longrightarrow>
     length bs = length r + 1 \<or> length bs = length r + 9"
  by (auto simp: read_value_def split: list.splits if_splits)

lemma length_write_nvarchar: "length (write_nvarchar [] s) = 2 + 2 * length (encode_utf16 s)"
  by (simp add: write_nvarchar_def Let_def u16_le_def length_utf16le)

text \<open>A token whose length field is the length of what follows it.\<close>

definition sized_token :: "u8 \<Rightarrow> nat \<Rightarrow> bytes \<Rightarrow> bool" where
  "sized_token tag n bs \<longleftrightarrow> (\<exists>body. bs = [tag] @ u16_le n @ body \<and> length body = n)"

lemma sized_token_parsed:
  "sized_token tag n bs \<Longrightarrow> n < 65536 \<Longrightarrow> \<exists>b. parse_token (bs @ rest) = Some (tag, b, rest)"
  using parse_token_sized by (fastforce simp: sized_token_def)

lemma utf16le_Nil [simp]: "utf16le [] = []"
  by (simp add: utf16le_def encode_utf16_def)

lemma u_le_lengths [simp]: "length (u16_le n) = 2" "length (u32_le v) = 4" "length (u64_le w) = 8"
  by (simp_all add: u16_le_def u32_le_def u64_le_def)

lemma sized_loginack: "sized_token TOKEN_LOGINACK (1 + 4 + 1 + length (utf16le s) + 4) (write_loginack [] s)"
  by (simp add: sized_token_def write_loginack_def Let_def)

lemma sized_envchange_database:
  "sized_token TOKEN_ENVCHANGE (1 + 1 + length (utf16le s) + 1 + length (utf16le s)) (write_envchange_database [] s)"
  by (simp add: sized_token_def write_envchange_database_def Let_def)

lemma sized_info_or_error:
  "sized_token tag (4 + 1 + 1 + 2 + length (utf16le m) + 1 + length (utf16le v) + 1 + length (utf16le p) + 4)
     (write_info_or_error [] tag number st m v p line)"
  by (simp add: sized_token_def write_info_or_error_def Let_def)

lemma sized_envchange_tran:
  "sized_token TOKEN_ENVCHANGE (1 + 1 + 8 + 1) (write_envchange_begin_tran [] t)"
  "sized_token TOKEN_ENVCHANGE (1 + 1 + 1 + 8) (write_envchange_commit_tran [] t)"
  "sized_token TOKEN_ENVCHANGE (1 + 1 + 1 + 8) (write_envchange_rollback_tran [] t)"
  by (simp_all add: sized_token_def write_envchange_begin_tran_def write_envchange_commit_tran_def
      write_envchange_rollback_tran_def)

definition no_floats :: f64_ops where
  "no_floats = \<lparr>f64_of_i64 = word_of_int, i64_of_f64 = sint, f64_to_string = (\<lambda>w. ''0''), parse_f64 = (\<lambda>s. None)\<rparr>"

section \<open>Properties\<close>

text \<open>
  Property C24 (rows stay in step). If every value of a row can be carried by its column's type, a
  client that reads the row by the announced types gets each value's wire form in order and stands
  exactly at the byte after the row; NULL is told apart from every value, and text that is not a
  number in a numeric column arrives as NULL.
\<close>

theorem row_read_back:
  assumes "list_all2 (\<lambda>(idx, v) w. wire_of fl v (column_type cols idx) = Some w) (enumerate 0 row) ws"
  shows "\<exists>body. write_row fl buf cols row = buf @ [TOKEN_ROW] @ body \<and>
    read_values (row_types cols 0 (length row)) (body @ rest) = Some (ws, rest)"
  using read_written_values [OF assms, of rest] write_values_fold [of fl cols 0 row "buf @ [TOKEN_ROW]"]
  by (auto simp: write_row_def)

theorem row_read_back_witness:
  "let cols = [\<lparr>tname = ''id'', ttype = BigInt\<rparr>, \<lparr>tname = ''name'', ttype = NVarChar\<rparr>] in
   \<exists>body. write_row no_floats [] cols [Integer 7, Text ''ab''] = [] @ [TOKEN_ROW] @ body \<and>
     read_values (row_types cols 0 2) (body @ [9]) = Some ([WFixed 7, WVar [97, 0, 98, 0]], [9])"
proof -
  let ?cols = "[\<lparr>tname = ''id'', ttype = BigInt\<rparr>, \<lparr>tname = ''name'', ttype = NVarChar\<rparr>]"
  have t: "utf16le ''ab'' = [97, 0, 98, 0]" by code_simp
  have "list_all2 (\<lambda>(idx, v) w. wire_of no_floats v (column_type ?cols idx) = Some w)
      (enumerate 0 [Integer 7, Text ''ab'']) [WFixed 7, WVar [97, 0, 98, 0]]"
    by (simp add: column_type_def row_get_def wire_text_def t)
  from row_read_back [OF this, of "[]" "[9]"] show ?thesis by (simp add: Let_def numeral_2_eq_2)
qed

text \<open>
  Fact (length-prefixed tokens). Every LOGINACK, ENVCHANGE, INFO and ERROR token whose body
  fits the 16-bit length field announces exactly the bytes that follow, so a client that does not
  know a token can skip it.
\<close>

theorem tokens_announce_their_length:
  assumes "10 + length (utf16le server) < 65536" and "3 + 2 * length (utf16le db) < 65536"
    and "14 + length (utf16le msg) < 65536"
  shows "(\<exists>b. parse_token (write_loginack [] server @ rest) = Some (TOKEN_LOGINACK, b, rest)) \<and>
    (\<exists>b. parse_token (write_envchange_database [] db @ rest) = Some (TOKEN_ENVCHANGE, b, rest)) \<and>
    (\<exists>b. parse_token (write_info [] number msg @ rest) = Some (TOKEN_INFO, b, rest)) \<and>
    (\<exists>b. parse_token (write_error [] number msg @ rest) = Some (TOKEN_ERROR, b, rest)) \<and>
    (\<exists>b. parse_token (write_envchange_begin_tran [] tran @ rest) = Some (TOKEN_ENVCHANGE, b, rest)) \<and>
    (\<exists>b. parse_token (write_envchange_commit_tran [] tran @ rest) = Some (TOKEN_ENVCHANGE, b, rest)) \<and>
    (\<exists>b. parse_token (write_envchange_rollback_tran [] tran @ rest) = Some (TOKEN_ENVCHANGE, b, rest))"
proof (intro conjI)
  show "\<exists>b. parse_token (write_loginack [] server @ rest) = Some (TOKEN_LOGINACK, b, rest)"
    using sized_token_parsed [OF sized_loginack] assms(1) by simp
  show "\<exists>b. parse_token (write_envchange_database [] db @ rest) = Some (TOKEN_ENVCHANGE, b, rest)"
    using sized_token_parsed [OF sized_envchange_database] assms(2) by simp
  show "\<exists>b. parse_token (write_info [] number msg @ rest) = Some (TOKEN_INFO, b, rest)"
    "\<exists>b. parse_token (write_error [] number msg @ rest) = Some (TOKEN_ERROR, b, rest)"
    using sized_token_parsed [OF sized_info_or_error [of _ msg "[]" "[]"]] assms(3)
    by (simp_all add: write_info_def write_error_def)
qed (rule sized_token_parsed [OF sized_envchange_tran(1)] sized_token_parsed [OF sized_envchange_tran(2)]
    sized_token_parsed [OF sized_envchange_tran(3)], simp)+

theorem tokens_announce_their_length_witness:
  "\<exists>b. parse_token (write_loginack [] ''litewire'' @ [1]) = Some (TOKEN_LOGINACK, b, [1])"
proof -
  have "length (utf16le ''litewire'') = 16" "length (utf16le ''main'') = 8" "length (utf16le ''no'') = 4" by code_simp+
  with tokens_announce_their_length [of "''litewire''" "''main''" "''no''" "[1]" 208 0] show ?thesis by simp
qed

text \<open>
  Fact (a blob in a numeric column breaks the row). SQLite lets an integer or float column
  hold a blob; such a value is written with a 16-bit length prefix while the column was announced as
  INTN or FLTN, whose values start with an 8-bit length. Whatever the blob and whatever follows, a
  client never ends up at the byte after the value.
\<close>

theorem blob_in_numeric_column_desynchronises:
  assumes "ty = BigInt \<or> ty = Float8"
  shows "read_value ty (write_value fl [] (Blob b) ty @ rest) \<noteq> Some (w, rest)"
proof
  assume r: "read_value ty (write_value fl [] (Blob b) ty @ rest) = Some (w, rest)"
  have "write_value fl [] (Blob b) ty = write_nvarchar [] (hex_encode b)" using assms by auto
  with read_value_fixed_length [OF assms r] length_write_nvarchar [of "hex_encode b"] show False by auto presburger+
qed

theorem blob_in_numeric_column_desynchronises_witness:
  "read_value BigInt (write_value no_floats [] (Blob []) BigInt @ [1]) \<noteq> Some (WNull, [1])"
  using blob_in_numeric_column_desynchronises [of BigInt no_floats "[]" "[1]" WNull] by simp

end
