(* ===== verification/Tenant_Screen.thy ===== *)
theory Tenant_Screen
  imports Rust_Str
begin

text \<open>
  The SQL screen in front of tenant-scoped sessions
  (\<^verbatim>\<open>src/crates/litewire-backend/src/tenant_screen.rs\<close>). Index arithmetic over \<^verbatim>\<open>as_bytes()\<close> becomes
  recursion over the bytes: \<open>screen_scan stmt rest\<close> holds \<^verbatim>\<open>sql[start..i]\<close> and \<^verbatim>\<open>sql[i..]\<close>.
  \<^verbatim>\<open>Result<_, String>\<close> is \<open>string + _\<close>.
\<close>

section \<open>Leading noise and keywords\<close>

definition newline :: char where "newline = CHR 0x0A"

text \<open>Everything after the first newline, if there is one; after the first \<^verbatim>\<open>*/\<close>, if there is one.\<close>

definition after_newline :: "string \<Rightarrow> string option" where
  "after_newline s = map_option (\<lambda>i. drop (Suc i) s) (find_char (\<lambda>c. c = newline) s)"

definition after_block :: "string \<Rightarrow> string option" where
  "after_block s = map_option (\<lambda>i. drop (i + 2) s) (find_str s ''*/'')"

lemma length_trim_start: "length (trim_start s) \<le> length s"
  using trim_with_suffix [of s white_space] unfolding trim_start_def by (metis le_add2 length_append)

lemma after_shorter:
  "after_newline s = Some t \<Longrightarrow> length t \<le> length s" "after_block s = Some t \<Longrightarrow> length t \<le> length s"
  by (auto simp: after_newline_def after_block_def)

lemma strip_prefix_Some: "strip_prefix s p = Some r \<longleftrightarrow> s = p @ r"
  by (auto simp: strip_prefix_def starts_with_iff_prefix prefix_def)

function strip_leading_noise :: "string \<Rightarrow> string" where
  "strip_leading_noise stmt =
     (let s = trim_start stmt in
      case strip_prefix s ''--'' of
        Some rest \<Rightarrow> (case after_newline rest of None \<Rightarrow> [] | Some t \<Rightarrow> strip_leading_noise t)
      | None \<Rightarrow>
          (case strip_prefix s ''/*'' of
             Some rest \<Rightarrow> (case after_block rest of None \<Rightarrow> [] | Some t \<Rightarrow> strip_leading_noise t)
           | None \<Rightarrow> s))"
  by pat_completeness auto
termination
proof (relation "measure length", goal_cases)
  case (2 stmt s rest t)
  then show ?case using length_trim_start [of stmt] after_shorter(2) [of rest t] by (auto simp: strip_prefix_Some)
next
  case (3 stmt s rest t)
  then show ?case using length_trim_start [of stmt] after_shorter(1) [of rest t] by (auto simp: strip_prefix_Some)
qed simp

declare strip_leading_noise.simps [simp del]

definition leading_word :: "string \<Rightarrow> string \<times> string" where
  "leading_word s = (to_ascii_uppercase (takeWhile is_ascii_alphabetic s), dropWhile is_ascii_alphabetic s)"

lemma length_strip_leading_noise: "length (strip_leading_noise s) \<le> length s"
proof (induction s rule: strip_leading_noise.induct)
  case (1 stmt)
  then show ?case
    using length_trim_start [of stmt] after_shorter
    by (subst strip_leading_noise.simps)
      (fastforce simp: Let_def strip_prefix_Some split: option.split intro: order_trans)
qed

lemma leading_word_shorter: "leading_word s = (w, r) \<Longrightarrow> w \<noteq> [] \<Longrightarrow> length r < length s"
  by (cases s) (auto simp: leading_word_def to_ascii_uppercase_def le_imp_less_Suc length_dropWhile_le)

lemma leading_word_le: "leading_word s = (w, r) \<Longrightarrow> length r \<le> length s"
  by (auto simp: leading_word_def length_dropWhile_le)

function explain_loop :: "string \<Rightarrow> string + string" where
  "explain_loop rest =
     (case leading_word rest of (keyword, after) \<Rightarrow>
        if keyword \<noteq> ''EXPLAIN'' then Inr rest
        else
          let rest1 = strip_leading_noise after in
          case leading_word rest1 of (nxt, after_next) \<Rightarrow>
            if nxt = ''QUERY'' then
              (let after_query = strip_leading_noise after_next in
               case leading_word after_query of (plan, after_plan) \<Rightarrow>
                 if plan \<noteq> ''PLAN'' then Inl ''EXPLAIN''
                 else explain_loop (strip_leading_noise after_plan))
            else explain_loop rest1)"
  by pat_completeness auto
termination
proof (relation "measure length", goal_cases)
  case (2 rest k after r1 n an aq p ap)
  then have "length after < length rest" using leading_word_shorter [of rest k after] by simp
  moreover have "length an \<le> length r1" "length ap \<le> length aq" using 2 leading_word_le by metis+
  ultimately show ?case
    using 2 length_strip_leading_noise [of after] length_strip_leading_noise [of an] length_strip_leading_noise [of ap]
    by simp
next
  case (3 rest k after r1 n an)
  then show ?case using leading_word_shorter [of rest k after] length_strip_leading_noise [of after] by simp
qed simp

declare explain_loop.simps [simp del]

definition strip_explain_prefixes :: "string \<Rightarrow> string + string" where
  "strip_explain_prefixes stmt = explain_loop (strip_leading_noise stmt)"

section \<open>Pragma targets\<close>

text \<open>\<^verbatim>\<open>inner.replace("qq", "q")\<close> for a quote character \<^verbatim>\<open>q\<close>.\<close>

fun undouble :: "char \<Rightarrow> string \<Rightarrow> string" where
  "undouble q (a # b # s) = (if a = q \<and> b = q then q # undouble q s else a # undouble q (b # s))"
| "undouble q s = s"

text \<open>The text up to the closing delimiter, still escaped, and what follows it.\<close>

fun take_quoted :: "char \<Rightarrow> string \<Rightarrow> (string \<times> string) option" where
  "take_quoted close [] = None"
| "take_quoted close (c # s) =
     (if c = close then
        (case s of
           d # s' \<Rightarrow>
             if close \<noteq> CHR '']'' \<and> d = close
             then map_option (\<lambda>(t, r). (c # d # t, r)) (take_quoted close s')
             else Some ([], s)
         | [] \<Rightarrow> Some ([], s))
      else map_option (\<lambda>(t, r). (c # t, r)) (take_quoted close s))"

definition is_ident_byte :: "char \<Rightarrow> bool" where
  "is_ident_byte c \<longleftrightarrow> is_ascii_alphanumeric c \<or> c = CHR ''_'' \<or> c = CHR ''$''"

definition backtick :: char where "backtick = CHR 0x60"
definition single_quote :: char where "single_quote = CHR 0x27"
definition double_quote :: char where "double_quote = CHR 0x22"

definition take_identifier :: "string \<Rightarrow> (string \<times> string) option" where
  "take_identifier s =
     (case s of
        [] \<Rightarrow> None
      | c # r \<Rightarrow>
          if c = double_quote \<or> c = backtick \<or> c = single_quote then
            map_option (\<lambda>(t, u). (undouble c t, u)) (take_quoted c r)
          else if c = CHR ''['' then take_quoted (CHR '']'') r
          else
            (let w = takeWhile is_ident_byte s in if w = [] then None else Some (w, dropWhile is_ident_byte s)))"

lemma take_quoted_shorter: "take_quoted q s = Some (t, r) \<Longrightarrow> length r < length s"
  by (induction q s arbitrary: t rule: take_quoted.induct) (fastforce split: if_splits list.splits)+

lemma take_identifier_shorter: "take_identifier s = Some (t, r) \<Longrightarrow> length r < length s"
  by (cases s) (auto simp: take_identifier_def Let_def le_imp_less_Suc length_dropWhile_le
      dest!: take_quoted_shorter split: if_splits)

function pragma_loop :: "string \<Rightarrow> string list" where
  "pragma_loop s =
     (case take_identifier s of
        None \<Rightarrow> []
      | Some (ident, after) \<Rightarrow>
          to_ascii_lowercase ident #
            (case strip_prefix (strip_leading_noise after) ''.'' of
               None \<Rightarrow> []
             | Some nxt \<Rightarrow> pragma_loop (strip_leading_noise nxt)))"
  by pat_completeness auto
termination
proof (relation "measure length", goal_cases)
  case (2 s p ident after nxt)
  then have "length after < length s" using take_identifier_shorter [of s ident after] by simp
  moreover have "length nxt < length (strip_leading_noise after)" using 2 by (simp add: strip_prefix_Some)
  ultimately show ?case
    using length_strip_leading_noise [of after] length_strip_leading_noise [of nxt] by simp
qed simp

declare pragma_loop.simps [simp del]

definition pragma_name_parts :: "string \<Rightarrow> string list" where
  "pragma_name_parts rest = pragma_loop (strip_leading_noise rest)"

section \<open>The screen\<close>

definition FORBIDDEN_KEYWORDS :: "string list" where "FORBIDDEN_KEYWORDS = [''ATTACH'', ''DETACH'']"

definition FORBIDDEN_PRAGMAS :: "string list" where
  "FORBIDDEN_PRAGMAS = [''writable_schema'', ''temp_store_directory'', ''data_store_directory'']"

definition check_statement :: "string \<Rightarrow> string + unit" where
  "check_statement stmt =
     (case strip_explain_prefixes stmt of
        Inl e \<Rightarrow> Inl e
      | Inr trimmed \<Rightarrow>
          if trimmed = [] then Inr ()
          else
            case leading_word trimmed of (keyword, rest) \<Rightarrow>
              if keyword \<in> set FORBIDDEN_KEYWORDS then Inl keyword
              else if keyword = ''VACUUM'' \<and> strip_leading_noise rest \<noteq> [] then Inl ''VACUUM INTO''
              else if keyword = ''PRAGMA'' then
                (case find (\<lambda>p. p \<in> set FORBIDDEN_PRAGMAS) (pragma_name_parts rest) of
                   Some part \<Rightarrow> Inl (''PRAGMA '' @ part) | None \<Rightarrow> Inr ())
              else Inr ())"

text \<open>
  The scanner's skips. Each returns the bytes it passes over and the rest; \<open>None\<close> is
  \<^verbatim>\<open>"malformed SQL"\<close>.
\<close>

fun skip_quoted :: "char \<Rightarrow> string \<Rightarrow> (string \<times> string) option" where
  "skip_quoted q [] = None"
| "skip_quoted q (c # s) =
     (if c = q then
        (case s of
           d # s' \<Rightarrow> if d = q then map_option (\<lambda>(t, r). (c # d # t, r)) (skip_quoted q s') else Some ([c], s)
         | [] \<Rightarrow> Some ([c], s))
      else map_option (\<lambda>(t, r). (c # t, r)) (skip_quoted q s))"

fun skip_block :: "string \<Rightarrow> (string \<times> string) option" where
  "skip_block (c # d # s) =
     (if c = CHR ''*'' \<and> d = CHR ''/'' then Some ([c, d], s)
      else map_option (\<lambda>(t, r). (c # t, r)) (skip_block (d # s)))"
| "skip_block s = None"

lemma skip_quoted_split: "skip_quoted q s = Some (t, r) \<Longrightarrow> s = t @ r \<and> t \<noteq> []"
proof (induction q s arbitrary: t rule: skip_quoted.induct)
  case (2 q c s)
  then show ?case by (cases "c = q"; cases s) (auto split: if_splits)
qed simp

lemma skip_block_split: "skip_block s = Some (t, r) \<Longrightarrow> s = t @ r \<and> t \<noteq> []"
proof (induction s arbitrary: t rule: skip_block.induct)
  case (1 c d s)
  then show ?case by (cases "c = CHR ''*'' \<and> d = CHR ''/''") auto
qed simp_all

lemma skip_block_drop: "skip_block (drop n s) = Some (t, r) \<Longrightarrow> length r < Suc (length s)"
  using skip_block_split [of "drop n s" t r] by (metis diff_le_self le_imp_less_Suc length_append length_drop
      order_trans le_add2)

definition is_quote :: "char \<Rightarrow> bool" where
  "is_quote c \<longleftrightarrow> c = single_quote \<or> c = double_quote \<or> c = backtick"

function screen_scan :: "string \<Rightarrow> string \<Rightarrow> string + unit" where
  "screen_scan stmt [] = check_statement stmt"
| "screen_scan stmt (c # s) =
     (if is_quote c then
        (case skip_quoted c s of
           None \<Rightarrow> Inl ''malformed SQL''
         | Some (t, r) \<Rightarrow> screen_scan (stmt @ c # t) r)
      else if c = CHR ''-'' \<and> starts_with s ''-'' then
        screen_scan (stmt @ c # takeWhile (\<lambda>x. x \<noteq> newline) s) (dropWhile (\<lambda>x. x \<noteq> newline) s)
      else if c = CHR ''/'' \<and> starts_with s ''*'' then
        (case skip_block (drop 1 s) of
           None \<Rightarrow> Inl ''malformed SQL''
         | Some (t, r) \<Rightarrow> screen_scan (stmt @ c # take 1 s @ t) r)
      else if c = CHR '';'' then
        (case check_statement stmt of Inl e \<Rightarrow> Inl e | Inr _ \<Rightarrow> screen_scan [] s)
      else screen_scan (stmt @ [c]) s)"
  by pat_completeness auto
termination
  by (relation "measure (\<lambda>(stmt, s). length s)")
    (auto dest!: skip_quoted_split skip_block_drop simp: le_imp_less_Suc length_dropWhile_le)

declare screen_scan.simps [simp del]

definition screen_sql :: "string \<Rightarrow> string + unit" where
  "screen_sql sql = screen_scan [] sql"

definition refuse :: "string \<Rightarrow> backend_error" where
  "refuse offending =
     Sqlite (''statement type '' @ [backtick] @ offending @ [backtick] @ '' is not permitted on a tenant session'')"

text \<open>\<^verbatim>\<open>ScreenedConn\<close>: \<^verbatim>\<open>query\<close>, \<^verbatim>\<open>execute\<close> and \<^verbatim>\<open>describe_columns\<close> of the inner connection behind the screen.\<close>

definition screened_call :: "(string \<Rightarrow> 'p \<Rightarrow> 's \<Rightarrow> (backend_error + 'r) \<times> 's) \<Rightarrow> string \<Rightarrow> 'p \<Rightarrow> 's \<Rightarrow> (backend_error + 'r) \<times> 's" where
  "screened_call inner sql params st =
     (case screen_sql sql of Inl o1 \<Rightarrow> (Inl (refuse o1), st) | Inr _ \<Rightarrow> inner sql params st)"

section \<open>Statements\<close>

text \<open>The statements of a text: cut at the semicolons outside quotes and comments.\<close>

function split_scan :: "string \<Rightarrow> string \<Rightarrow> string list option" where
  "split_scan stmt [] = Some [stmt]"
| "split_scan stmt (c # s) =
     (if is_quote c then
        (case skip_quoted c s of None \<Rightarrow> None | Some (t, r) \<Rightarrow> split_scan (stmt @ c # t) r)
      else if c = CHR ''-'' \<and> starts_with s ''-'' then
        split_scan (stmt @ c # takeWhile (\<lambda>x. x \<noteq> newline) s) (dropWhile (\<lambda>x. x \<noteq> newline) s)
      else if c = CHR ''/'' \<and> starts_with s ''*'' then
        (case skip_block (drop 1 s) of None \<Rightarrow> None | Some (t, r) \<Rightarrow> split_scan (stmt @ c # take 1 s @ t) r)
      else if c = CHR '';'' then map_option ((#) stmt) (split_scan [] s)
      else split_scan (stmt @ [c]) s)"
  by pat_completeness auto
termination
  by (relation "measure (\<lambda>(stmt, s). length s)")
    (auto dest!: skip_quoted_split skip_block_drop simp: le_imp_less_Suc length_dropWhile_le)

declare split_scan.simps [simp del]

definition statements :: "string \<Rightarrow> string list option" where
  "statements sql = split_scan [] sql"

fun first_refusal :: "string list \<Rightarrow> string + unit" where
  "first_refusal [] = Inr ()"
| "first_refusal (s # ss) = (case check_statement s of Inl e \<Rightarrow> Inl e | Inr _ \<Rightarrow> first_refusal ss)"

lemma first_refusal_ok: "first_refusal ss = Inr () \<longleftrightarrow> (\<forall>s\<in>set ss. check_statement s = Inr ())"
  by (induction ss) (auto split: sum.splits)

lemma screen_scan_statements:
  "case split_scan stmt s of
     Some parts \<Rightarrow> screen_scan stmt s = first_refusal parts | None \<Rightarrow> \<exists>e. screen_scan stmt s = Inl e"
proof (induction stmt s rule: screen_scan.induct)
  case (1 stmt)
  then show ?case by (simp add: split_scan.simps screen_scan.simps split: sum.split)
next
  case (2 stmt c s)
  note eqs = split_scan.simps(2) [of stmt c s] screen_scan.simps(2) [of stmt c s]
  consider (quote) "is_quote c" | (line) "\<not> is_quote c" "c = CHR ''-'' \<and> starts_with s ''-''"
    | (block) "\<not> is_quote c" "c = CHR ''/'' \<and> starts_with s ''*''"
    | (semi) "\<not> is_quote c" "c = CHR '';''"
    | (other) "\<not> is_quote c" "\<not> (c = CHR ''-'' \<and> starts_with s ''-'')" "\<not> (c = CHR ''/'' \<and> starts_with s ''*'')"
        "c \<noteq> CHR '';''"
    by blast
  then show ?case
  proof cases
    case quote
    then show ?thesis unfolding eqs using 2(1) [OF quote] by (cases "skip_quoted c s") (auto cong: option.case_cong)
  next
    case line
    then show ?thesis unfolding eqs using 2(2) [OF line] by (auto cong: option.case_cong)
  next
    case block
    then show ?thesis unfolding eqs using 2(3) [OF block(1) _ block(2)] by (cases "skip_block (drop 1 s)") (auto cong: option.case_cong)
  next
    case semi
    then show ?thesis unfolding eqs using 2(4) [OF semi(1) _ _ semi(2)]
      by (cases "check_statement stmt"; cases "split_scan [] s") auto
  next
    case other
    show ?thesis unfolding eqs if_not_P [OF other(1)] if_not_P [OF other(2)] if_not_P [OF other(3)] if_not_P [OF other(4)]
      by (rule 2(5) [OF other])
  qed
qed

lemma screen_sql_statements:
  "screen_sql sql = Inr () \<longleftrightarrow> (\<exists>parts. statements sql = Some parts \<and> (\<forall>s\<in>set parts. check_statement s = Inr ()))"
  using screen_scan_statements [of "[]" sql]
  by (auto simp: screen_sql_def statements_def first_refusal_ok split: option.splits)

section \<open>Noise, wrappers and what they cannot hide\<close>

inductive noise :: "string \<Rightarrow> bool" where
  noise_nil: "noise []"
| noise_white: "w \<in> set white_space \<Longrightarrow> noise n \<Longrightarrow> noise (w @ n)"
| noise_line: "newline \<notin> set t \<Longrightarrow> noise n \<Longrightarrow> noise (''--'' @ t @ newline # n)"
| noise_block: "find_str (t @ ''*/'') ''*/'' = Some (length t) \<Longrightarrow> noise n \<Longrightarrow> noise (''/*'' @ t @ ''*/'' @ n)"

lemma white_space_prefix_free:
  "\<forall>w\<in>set white_space. w \<noteq> [] \<and> (\<forall>v\<in>set white_space. starts_with w v \<longrightarrow> v = w)"
  by code_simp

lemma trim_start_white:
  assumes w: "w \<in> set white_space"
  shows "trim_start (w @ s) = trim_start s"
proof -
  have "find (\<lambda>v. v \<noteq> [] \<and> starts_with (w @ s) v) white_space = Some w"
  proof -
    have "v = w" if "v \<in> set white_space" "starts_with (w @ s) v" for v
      using that w white_space_prefix_free prefix_same_cases [of v "w @ s" w]
      unfolding starts_with_iff_prefix by (metis prefixI)
    then have "find (\<lambda>v. v \<noteq> [] \<and> starts_with (w @ s) v) white_space = find (\<lambda>v. v = w) white_space"
      using white_space_prefix_free w by (intro find_cong) auto
    also have "\<dots> = Some w"
    proof (cases "find (\<lambda>v. v = w) white_space")
      case None
      then show ?thesis using w by (auto simp: find_None_iff)
    next
      case (Some v)
      then show ?thesis by (metis (mono_tags) find_Some_iff)
    qed
    finally show ?thesis .
  qed
  then show ?thesis by (simp add: trim_start_def trim_with.simps [of white_space "w @ s"])
qed

lemma after_newline_append: "newline \<notin> set t \<Longrightarrow> after_newline (t @ newline # s) = Some s"
proof -
  assume "newline \<notin> set t"
  then have "find_char (\<lambda>c. c = newline) (t @ newline # s) = Some (length t)" by (induction t) auto
  then show ?thesis by (simp add: after_newline_def)
qed

lemma find_str_bound: "find_str s p = Some i \<Longrightarrow> i + length p \<le> length s"
  by (induction s p arbitrary: i rule: find_str.induct)
    (auto simp: starts_with_iff_prefix dest: prefix_length_le split: if_splits)

lemma find_str_append: "find_str s p = Some i \<Longrightarrow> find_str (s @ t) p = Some i"
proof (induction s p arbitrary: i rule: find_str.induct)
  case (1 p)
  then show ?case by (cases t) (auto simp: starts_with_def split: if_splits)
next
  case (2 c s p)
  show ?case
  proof (cases "starts_with (c # s) p")
    case True
    with 2(2) show ?thesis by (simp add: starts_with_def) (metis append_Cons append_take_drop_id length_append
          nat_le_linear take_all take_append append_Nil2 take_eq_Nil diff_is_0_eq)
  next
    case False
    then obtain z where z: "find_str s p = Some z" "i = Suc z" using 2(2) by auto
    from find_str_bound [OF z(1)] have "take (length p) (c # s @ t) = take (length p) (c # s)"
      by (metis add_leD2 append_Cons le_SucI length_Cons take_append diff_is_0_eq' append_Nil2 take_0)
    with False 2(1) z show ?thesis by (simp add: starts_with_def)
  qed
qed

lemma after_block_append:
  assumes "find_str (t @ ''*/'') ''*/'' = Some (length t)"
  shows "after_block (t @ ''*/'' @ s) = Some s"
  using find_str_append [OF assms, of s] by (simp add: after_block_def)

lemma strip_noise: "noise n \<Longrightarrow> strip_leading_noise (n @ s) = strip_leading_noise s"
proof (induction rule: noise.induct)
  case (noise_white w n)
  then show ?case
    by (subst strip_leading_noise.simps) (simp add: trim_start_white flip: strip_leading_noise.simps)
next
  case (noise_line t n)
  have "CHR ''-'' \<notin> set white_bytes" by code_simp
  with noise_line show ?case
    by (subst strip_leading_noise.simps)
      (simp add: trim_start_id strip_prefix_def starts_with_def after_newline_append)
next
  case (noise_block t n)
  have "CHR ''/'' \<notin> set white_bytes" by code_simp
  with noise_block after_block_append [of t "n @ s"] show ?case
    by (subst strip_leading_noise.simps) (simp add: trim_start_id strip_prefix_def starts_with_def)
qed simp

text \<open>A word of letters at the front, with something else after it.\<close>

definition keyword_at :: "string \<Rightarrow> string \<Rightarrow> string \<Rightarrow> bool" where
  "keyword_at kw w r \<longleftrightarrow>
     kw \<noteq> [] \<and> to_ascii_uppercase w = kw \<and> (\<forall>c\<in>set w. is_ascii_alphabetic c) \<and>
     (case r of [] \<Rightarrow> True | c # _ \<Rightarrow> \<not> is_ascii_alphabetic c)"

lemma alphabetic_not_white: "is_ascii_alphabetic c \<Longrightarrow> c \<notin> set white_bytes \<and> c \<noteq> CHR ''-'' \<and> c \<noteq> CHR ''/''"
  using white_bytes_plain(1) by (auto simp: is_ascii_alphabetic_def byte_of_def)

lemma strip_noise_word:
  assumes "\<forall>c\<in>set w. is_ascii_alphabetic c" and "w \<noteq> []"
  shows "strip_leading_noise (w @ r) = w @ r"
proof -
  obtain c v where w: "w = c # v" using assms(2) by (cases w) auto
  with assms(1) alphabetic_not_white [of c] show ?thesis
    by (subst strip_leading_noise.simps) (simp add: trim_start_id strip_prefix_def starts_with_def Let_def)
qed

lemma keyword_at_word:
  assumes "keyword_at kw w r"
  shows "leading_word (w @ r) = (kw, r)" and "strip_leading_noise (w @ r) = w @ r" and "w \<noteq> []"
proof -
  have w: "\<forall>c\<in>set w. is_ascii_alphabetic c" "to_ascii_uppercase w = kw" "kw \<noteq> []" using assms by (auto simp: keyword_at_def)
  have "takeWhile is_ascii_alphabetic (w @ r) = w \<and> dropWhile is_ascii_alphabetic (w @ r) = r"
    using assms by (cases r) (auto simp: keyword_at_def)
  with w show "leading_word (w @ r) = (kw, r)" by (simp add: leading_word_def)
  show "w \<noteq> []" using w by (auto simp: to_ascii_uppercase_def)
  with strip_noise_word [OF w(1)] show "strip_leading_noise (w @ r) = w @ r" by simp
qed

text \<open>
  \<open>wraps b s\<close>: the statement \<open>s\<close> is \<open>b\<close> behind any amount of white space, comments and
  \<^verbatim>\<open>EXPLAIN\<close> / \<^verbatim>\<open>EXPLAIN QUERY PLAN\<close> prefixes, in any mix of cases.
\<close>

inductive wraps :: "string \<Rightarrow> string \<Rightarrow> bool" for b where
  wraps_noise: "noise n \<Longrightarrow> wraps b (n @ b)"
| wraps_explain: "noise n \<Longrightarrow> keyword_at ''EXPLAIN'' e s \<Longrightarrow> wraps b s \<Longrightarrow>
    fst (leading_word (strip_leading_noise s)) \<noteq> ''QUERY'' \<Longrightarrow> wraps b (n @ e @ s)"
| wraps_query_plan: "noise n \<Longrightarrow> keyword_at ''EXPLAIN'' e (m @ q @ k @ p @ s) \<Longrightarrow> noise m \<Longrightarrow>
    keyword_at ''QUERY'' q (k @ p @ s) \<Longrightarrow> noise k \<Longrightarrow> keyword_at ''PLAN'' p s \<Longrightarrow> wraps b s \<Longrightarrow>
    wraps b (n @ e @ m @ q @ k @ p @ s)"

lemma wraps_stripped:
  assumes "wraps b s" and b: "strip_leading_noise b = b" "fst (leading_word b) \<noteq> ''EXPLAIN''"
  shows "strip_explain_prefixes s = Inr b"
  using assms(1)
proof (induction rule: wraps.induct)
  case (wraps_noise n)
  then show ?case
    using b by (simp add: strip_explain_prefixes_def strip_noise explain_loop.simps [of b] case_prod_beta)
next
  case (wraps_explain n e s)
  note k = keyword_at_word [OF wraps_explain(2)]
  show ?case
    using wraps_explain(1,4,5) k
    by (simp add: strip_explain_prefixes_def strip_noise explain_loop.simps [of "e @ s"] case_prod_beta Let_def)
next
  case (wraps_query_plan n e m q k p s)
  note ke = keyword_at_word [OF wraps_query_plan(2)] and kq = keyword_at_word [OF wraps_query_plan(4)]
    and kp = keyword_at_word [OF wraps_query_plan(6)]
  show ?case
    using wraps_query_plan(1,3,5,8) ke kq kp
    by (simp add: strip_explain_prefixes_def strip_noise explain_loop.simps [of "e @ _"] Let_def)
qed

lemma forbidden_keyword_refused:
  assumes "wraps (w @ r) s" and "keyword_at kw w r" and "kw \<in> set FORBIDDEN_KEYWORDS"
  shows "check_statement s = Inl kw"
proof -
  note k = keyword_at_word [OF assms(2)]
  have "kw \<noteq> ''EXPLAIN''" using assms(3) by (auto simp: FORBIDDEN_KEYWORDS_def)
  then have "strip_explain_prefixes s = Inr (w @ r)" using wraps_stripped [OF assms(1)] k by simp
  with k assms(3) show ?thesis by (simp add: check_statement_def)
qed

lemma screen_refuses_statement:
  assumes "statements sql = Some parts" and "s \<in> set parts" and "check_statement s = Inl e"
  shows "\<exists>e'. screen_sql sql = Inl e'"
proof (cases "screen_sql sql")
  case (Inr u)
  with screen_sql_statements [of sql] assms show ?thesis by auto
qed simp

text \<open>Qualified pragma names.\<close>

definition bare_ident_at :: "string \<Rightarrow> string \<Rightarrow> bool" where
  "bare_ident_at x r \<longleftrightarrow>
     x \<noteq> [] \<and> (\<forall>c\<in>set x. is_ident_byte c) \<and> (case r of [] \<Rightarrow> True | c # _ \<Rightarrow> \<not> is_ident_byte c)"

lemma ident_byte_plain:
  "is_ident_byte c \<Longrightarrow> c \<notin> set white_bytes \<and> c \<noteq> CHR ''-'' \<and> c \<noteq> CHR ''/'' \<and> c \<noteq> double_quote \<and> c \<noteq> backtick
     \<and> c \<noteq> single_quote \<and> c \<noteq> CHR ''[''"
proof -
  assume c: "is_ident_byte c"
  have "CHR ''_'' \<notin> set white_bytes" "CHR ''$'' \<notin> set white_bytes" by code_simp+
  with c white_bytes_plain have "c \<notin> set white_bytes" by (auto simp: is_ident_byte_def is_ascii_alphanumeric_def)
  with c show ?thesis
    by (auto simp: is_ident_byte_def is_ascii_alphanumeric_def is_ascii_alphabetic_def is_ascii_digit_def
        byte_of_def double_quote_def backtick_def single_quote_def)
qed

lemma bare_ident_taken:
  assumes "bare_ident_at x r"
  shows "take_identifier (x @ r) = Some (x, r)" and "strip_leading_noise (x @ r) = x @ r"
proof -
  obtain c v where x: "x = c # v" "is_ident_byte c" using assms by (cases x) (auto simp: bare_ident_at_def)
  have "takeWhile is_ident_byte (x @ r) = x \<and> dropWhile is_ident_byte (x @ r) = r"
    using assms by (cases r) (auto simp: bare_ident_at_def)
  with x ident_byte_plain [OF x(2)] show "take_identifier (x @ r) = Some (x, r)" by (simp add: take_identifier_def)
  from x ident_byte_plain [OF x(2)] show "strip_leading_noise (x @ r) = x @ r"
    by (subst strip_leading_noise.simps) (simp add: trim_start_id strip_prefix_def starts_with_def Let_def)
qed

lemma qualified_pragma_parts:
  assumes "noise n1" and "bare_ident_at x (n2 @ ''.'' @ n3 @ y @ r)" and "noise n2" and "noise n3" and "bare_ident_at y r"
  shows "\<exists>ps. pragma_name_parts (n1 @ x @ n2 @ ''.'' @ n3 @ y @ r) = to_ascii_lowercase x # to_ascii_lowercase y # ps"
proof -
  have dot: "strip_leading_noise (CHR ''.'' # t) = CHR ''.'' # t" for t
  proof -
    have "CHR ''.'' \<notin> set white_bytes" by code_simp
    then show ?thesis
      by (subst strip_leading_noise.simps) (simp add: trim_start_id strip_prefix_def starts_with_def Let_def)
  qed
  note x = bare_ident_taken [OF assms(2)] and y = bare_ident_taken [OF assms(5)]
  show ?thesis
    using assms(1,3,4) x y dot
    by (simp add: pragma_name_parts_def strip_noise pragma_loop.simps [of "x @ _"] pragma_loop.simps [of "y @ _"]
        strip_prefix_def starts_with_def)
qed

section \<open>Properties\<close>

lemma refused_call: "screen_sql sql = Inl e \<Longrightarrow> screened_call inner sql params st = (Inl (refuse e), st)"
  by (simp add: screened_call_def)

lemma noise_space: "noise n \<Longrightarrow> noise ('' '' @ n)"
  by (rule noise_white) (simp_all add: white_space_def)

lemma demo_attach_wrapped:
  "wraps (''Attach'' @ '' x'') ''explain /* ; */Attach x''"
proof -
  have n: "noise '' /* ; */''"
    using noise_space [OF noise_block [OF _ noise_nil, of "'' ; ''"]] by (simp add: starts_with_def)
  have k: "keyword_at ''EXPLAIN'' ''explain'' '' /* ; */Attach x''" by code_simp
  have "fst (leading_word (strip_leading_noise ('' /* ; */'' @ ''Attach x''))) \<noteq> ''QUERY''" by code_simp
  with wraps_explain [OF noise_nil k] wraps_noise [OF n, of "''Attach'' @ '' x''"] show ?thesis by simp
qed




text \<open>
  Fact (schema-qualified pragmas). \<^verbatim>\<open>PRAGMA schema.name\<close> is refused when either component
  is on the list, whatever the case and whatever white space and comments stand between the tokens.
\<close>

theorem qualified_pragma_refused:
  assumes "wraps (w @ r) s" and "keyword_at ''PRAGMA'' w r" and "r = n1 @ x @ n2 @ ''.'' @ n3 @ y @ t"
    and "noise n1" and "noise n2" and "noise n3" and "bare_ident_at x (n2 @ ''.'' @ n3 @ y @ t)" and "bare_ident_at y t"
    and "to_ascii_lowercase x \<in> set FORBIDDEN_PRAGMAS \<or> to_ascii_lowercase y \<in> set FORBIDDEN_PRAGMAS"
  shows "\<exists>p. check_statement s = Inl (''PRAGMA '' @ p) \<and> p \<in> set FORBIDDEN_PRAGMAS"
proof -
  note k = keyword_at_word [OF assms(2)]
  have s: "strip_explain_prefixes s = Inr (w @ r)" using wraps_stripped [OF assms(1)] k by simp
  obtain ps where ps: "pragma_name_parts r = to_ascii_lowercase x # to_ascii_lowercase y # ps"
    using qualified_pragma_parts [OF assms(4,7,5,6,8)] assms(3) by blast
  have kw: "''PRAGMA'' \<notin> set FORBIDDEN_KEYWORDS" by (simp add: FORBIDDEN_KEYWORDS_def)
  show ?thesis
    using k s kw ps assms(9) by (auto simp: check_statement_def)
qed

theorem qualified_pragma_refused_witness:
  "\<exists>p. check_statement ''pragma main . Writable_Schema=1'' = Inl (''PRAGMA '' @ p) \<and> p \<in> set FORBIDDEN_PRAGMAS"
proof -
  have n: "noise '' ''" using noise_space [OF noise_nil] by simp
  have w: "wraps (''pragma'' @ '' main . Writable_Schema=1'') ''pragma main . Writable_Schema=1''"
    using wraps_noise [OF noise_nil] by simp
  have k: "keyword_at ''PRAGMA'' ''pragma'' '' main . Writable_Schema=1''"
    "bare_ident_at ''main'' ('' '' @ ''.'' @ '' '' @ ''Writable_Schema'' @ ''=1'')" "bare_ident_at ''Writable_Schema'' ''=1''"
    "to_ascii_lowercase ''Writable_Schema'' \<in> set FORBIDDEN_PRAGMAS"
    by code_simp+
  show ?thesis
    by (rule qualified_pragma_refused [OF w k(1) _ n n n k(2,3)]) (use k(4) in simp_all)
qed

text \<open>
  Fact (a byte order mark hides the keyword). \<^verbatim>\<open>trim_start\<close> does not remove U+FEFF, which is
  not white space in Unicode, so a statement that starts with its UTF-8 bytes has no leading keyword
  and passes whatever follows; SQLite's tokenizer skips a byte order mark as white space.
\<close>

theorem byte_order_mark_passes:
  "check_statement ([CHR 0xEF, CHR 0xBB, CHR 0xBF] @ s) = Inr ()"
proof -
  let ?s = "[CHR 0xEF, CHR 0xBB, CHR 0xBF] @ s"
  have "CHR 0xEF \<notin> set white_bytes" by code_simp
  then have "strip_leading_noise ?s = ?s"
    by (subst strip_leading_noise.simps) (simp add: trim_start_id strip_prefix_def starts_with_def Let_def)
  moreover have "leading_word ?s = ([], ?s)"
    by (simp add: leading_word_def to_ascii_uppercase_def is_ascii_alphabetic_def byte_of_def)
  moreover from this have "explain_loop ?s = Inr ?s" by (subst explain_loop.simps) simp
  ultimately show ?thesis
    by (simp add: check_statement_def strip_explain_prefixes_def FORBIDDEN_KEYWORDS_def)
qed

text \<open>
  Fact (brackets are not quotes to the scanner). \<^verbatim>\<open>[a']\<close> is a quoted identifier in SQLite;
  the scanner takes the apostrophe for an opening quote, so a text with a stand-alone \<^verbatim>\<open>ATTACH\<close>
  statement between two such identifiers passes.
\<close>

theorem bracketed_quotes_hide_statement:
  "screen_sql ([CHR ''['', CHR ''a'', single_quote, CHR '']''] @ '';ATTACH DATABASE x AS y;'' @
     [CHR ''['', CHR ''b'', single_quote, CHR '']'']) = Inr ()"
  by code_simp

end
