(* ===== verification/Sql_Text.thy ===== *)
theory Sql_Text
  imports Rust_Str
begin

text \<open>
  The textual passes of the translator (\<^verbatim>\<open>src/crates/litewire-translate/src/lib.rs\<close>): the quote-aware
  pre-passes before the SQL parser, the transaction and no-op statements handled as text, and the
  classification that routes a statement. A loop \<^verbatim>\<open>while i < bytes.len()\<close> that builds \<^verbatim>\<open>out\<close> is a
  function of \<open>out\<close> and of the bytes from \<open>i\<close> on.
\<close>

datatype dialect = MySQL | PostgreSQL | TDS

section \<open>Quoted spans\<close>

definition sq :: char where "sq = CHR 0x27"
definition dq :: char where "dq = CHR 0x22"
definition bt :: char where "bt = CHR 0x60"
definition backslash :: char where "backslash = CHR 0x5C"

definition is_span_quote :: "char \<Rightarrow> bool" where
  "is_span_quote c \<longleftrightarrow> c = sq \<or> c = dq \<or> c = bt"

text \<open>The bytes after an opening quote, up to and including its closing quote, and the rest.\<close>

fun span_tail :: "char \<Rightarrow> string \<Rightarrow> string \<times> string" where
  "span_tail q [] = ([], [])"
| "span_tail q (c # s) =
     (if c = backslash \<and> q \<noteq> bt then
        (case s of [] \<Rightarrow> ([c], []) | d # s' \<Rightarrow> (case span_tail q s' of (t, r) \<Rightarrow> (c # d # t, r)))
      else if c = q then ([c], s)
      else (case span_tail q s of (t, r) \<Rightarrow> (c # t, r)))"

text \<open>\<^verbatim>\<open>quoted_span_end\<close>: the span that starts here, if one does, and what follows it.\<close>

definition quoted_span :: "string \<Rightarrow> (string \<times> string) option" where
  "quoted_span s =
     (case s of
        [] \<Rightarrow> None
      | q # r \<Rightarrow> if is_span_quote q then (case span_tail q r of (t, u) \<Rightarrow> Some (q # t, u)) else None)"

lemma span_tail_split: "span_tail q s = (t, r) \<Longrightarrow> s = t @ r"
  by (induction q s arbitrary: t rule: span_tail.induct) (auto split: if_splits list.splits prod.splits)

lemma quoted_span_split: "quoted_span s = Some (t, r) \<Longrightarrow> s = t @ r \<and> t \<noteq> []"
  by (cases s) (auto simp: quoted_span_def split: if_splits prod.splits dest: span_tail_split)

lemma quoted_span_shorter: "quoted_span s = Some (t, r) \<Longrightarrow> length r < length s"
  using quoted_span_split [of s t r] by auto

section \<open>DDL display widths\<close>

definition is_mysql_ddl :: "string \<Rightarrow> bool" where
  "is_mysql_ddl sql =
     (let upper = to_ascii_uppercase (trim_start sql) in
      starts_with upper ''CREATE TABLE'' \<or> starts_with upper ''CREATE TEMPORARY TABLE'' \<or>
      starts_with upper ''ALTER TABLE'' \<or> starts_with upper ''CREATE INDEX'' \<or>
      starts_with upper ''CREATE UNIQUE INDEX'' \<or> starts_with upper ''CREATE FULLTEXT INDEX'')"

definition trailing_token_is :: "string \<Rightarrow> string \<Rightarrow> bool" where
  "trailing_token_is out kw =
     (let back = dropWhile is_ascii_whitespace (rev out);
          token = rev (takeWhile is_ascii_alphabetic back);
          before = dropWhile is_ascii_alphabetic back
      in case before of
           c # _ \<Rightarrow> if c = CHR ''_'' \<or> is_ascii_digit c then False else eq_ignore_ascii_case token kw
         | [] \<Rightarrow> eq_ignore_ascii_case token kw)"

text \<open>Digits and a closing parenthesis: the digits of the group that opens before \<open>s\<close>, and the rest.\<close>

definition digit_group :: "string \<Rightarrow> (string \<times> string) option" where
  "digit_group s =
     (let ds = takeWhile is_ascii_digit s; r = dropWhile is_ascii_digit s
      in if ds = [] then None
         else case r of c # r' \<Rightarrow> if c = CHR '')'' then Some (ds, r') else None | [] \<Rightarrow> None)"

lemma digit_group_shorter: "digit_group s = Some (ds, r) \<Longrightarrow> length r < length s"
proof -
  assume g: "digit_group s = Some (ds, r)"
  then have "s = ds @ CHR '')'' # r"
    by (auto simp: digit_group_def Let_def split: if_splits list.splits) (metis takeWhile_dropWhile_id)
  then show ?thesis by simp
qed

function strip_groups :: "string \<Rightarrow> string \<Rightarrow> string" where
  "strip_groups out [] = out"
| "strip_groups out (c # s) =
     (case quoted_span (c # s) of
        Some (t, r) \<Rightarrow> strip_groups (out @ t) r
      | None \<Rightarrow>
          (case (if c = CHR ''('' then digit_group s else None) of
             Some (ds, r) \<Rightarrow>
               if ds = ''1'' \<and> trailing_token_is out ''tinyint'' then strip_groups (out @ [c]) s
               else strip_groups out r
           | None \<Rightarrow> strip_groups (out @ [c]) s))"
  by pat_completeness auto
termination
  by (relation "measure (\<lambda>(out, s). length s)")
    (auto dest!: quoted_span_shorter digit_group_shorter split: if_splits)

declare strip_groups.simps [simp del]

definition strip_numeric_paren_groups :: "string \<Rightarrow> string" where
  "strip_numeric_paren_groups sql = strip_groups [] sql"

section \<open>SELECT hints\<close>

definition MYSQL_SELECT_HINTS :: "string list" where
  "MYSQL_SELECT_HINTS =
     [''SQL_CALC_FOUND_ROWS'', ''SQL_NO_CACHE'', ''SQL_CACHE'', ''SQL_SMALL_RESULT'', ''SQL_BIG_RESULT'',
      ''SQL_BUFFER_RESULT'']"

definition has_mysql_select_hint :: "string \<Rightarrow> bool" where
  "has_mysql_select_hint sql =
     (let upper = to_ascii_uppercase sql in list_ex (\<lambda>h. contains_str upper h) MYSQL_SELECT_HINTS)"

definition is_word_start :: "char \<Rightarrow> bool" where
  "is_word_start c \<longleftrightarrow> is_ascii_alphabetic c \<or> c = CHR ''_''"

definition is_word_byte :: "char \<Rightarrow> bool" where
  "is_word_byte c \<longleftrightarrow> is_ascii_alphanumeric c \<or> c = CHR ''_''"

definition is_hint :: "string \<Rightarrow> bool" where
  "is_hint word = list_ex (\<lambda>h. eq_ignore_ascii_case h word) MYSQL_SELECT_HINTS"

text \<open>One space, if there is one.\<close>

definition skip_space :: "string \<Rightarrow> string" where
  "skip_space s = (case s of c # r \<Rightarrow> if c = CHR '' '' then r else s | [] \<Rightarrow> [])"

lemma skip_space_le: "length (skip_space s) \<le> length s"
  by (auto simp: skip_space_def split: list.split)

lemma word_rest_shorter: "is_word_start c \<Longrightarrow> length (dropWhile is_word_byte (c # s)) \<le> length s"
  by (auto simp: is_word_start_def is_word_byte_def is_ascii_alphanumeric_def length_dropWhile_le)

function strip_hints :: "string \<Rightarrow> string" where
  "strip_hints [] = []"
| "strip_hints (c # s) =
     (case quoted_span (c # s) of
        Some (t, r) \<Rightarrow> t @ strip_hints r
      | None \<Rightarrow>
          if is_word_start c then
            (let word = takeWhile is_word_byte (c # s); r = dropWhile is_word_byte (c # s)
             in if is_hint word then strip_hints (skip_space r) else word @ strip_hints r)
          else c # strip_hints s)"
  by pat_completeness auto
termination
  by (relation "measure length")
    (auto dest!: quoted_span_shorter intro!: le_imp_less_Suc simp del: dropWhile.simps
      intro: order_trans [OF skip_space_le] word_rest_shorter)

declare strip_hints.simps [simp del]

definition strip_mysql_select_hints :: "string \<Rightarrow> string" where
  "strip_mysql_select_hints sql = strip_hints sql"

section \<open>Transaction statements\<close>

definition rewrite_transaction_statement :: "string \<Rightarrow> string option" where
  "rewrite_transaction_statement sql =
     (let trimmed = trim (trim_end_matches (\<lambda>c. c = CHR '';'') (trim sql));
          upper = to_ascii_uppercase trimmed
      in if upper = ''START TRANSACTION'' \<or> starts_with upper ''START TRANSACTION '' then Some ''BEGIN''
         else if upper = ''BEGIN WORK'' then Some ''BEGIN''
         else if upper = ''BEGIN TRANSACTION'' \<or> starts_with upper ''BEGIN TRANSACTION '' then Some ''BEGIN''
         else if upper = ''COMMIT WORK'' then Some ''COMMIT''
         else if upper = ''COMMIT TRANSACTION'' \<or> starts_with upper ''COMMIT TRANSACTION '' then Some ''COMMIT''
         else if upper = ''ROLLBACK WORK'' then Some ''ROLLBACK''
         else if upper = ''ROLLBACK TRANSACTION'' then Some ''ROLLBACK''
         else
           case strip_prefix upper ''ROLLBACK TRANSACTION '' of
             Some rest \<Rightarrow>
               (case strip_prefix (trim_start rest) ''TO '' of
                  Some after_to \<Rightarrow>
                    (let after_to = trim_start after_to;
                         name_upper = (case strip_prefix after_to ''SAVEPOINT '' of
                                         Some after_sp \<Rightarrow> trim after_sp | None \<Rightarrow> trim after_to);
                         orig_name = drop (length trimmed - length name_upper) trimmed
                     in Some (''ROLLBACK TO SAVEPOINT '' @ orig_name))
                | None \<Rightarrow> Some ''ROLLBACK'')
           | None \<Rightarrow> None)"

section \<open>Statements without effect\<close>

definition normalize_session_prefix :: "string \<Rightarrow> string option" where
  "normalize_session_prefix rest =
     (case strip_prefix rest ''@@SESSION.'' of Some after \<Rightarrow> Some after | None \<Rightarrow>
      (case strip_prefix rest ''@@GLOBAL.'' of Some after \<Rightarrow> Some after | None \<Rightarrow>
      (case strip_prefix rest ''@@'' of Some after \<Rightarrow> Some after | None \<Rightarrow>
      (case strip_prefix rest ''SESSION.'' of Some after \<Rightarrow> Some after | None \<Rightarrow>
      (case strip_prefix rest ''GLOBAL.'' of Some after \<Rightarrow> Some after | None \<Rightarrow>
        (case strip_prefix rest ''SESSION '' of
           Some after \<Rightarrow>
             if starts_with (trim_start after) ''TRANSACTION'' then Some (trim_start after)
             else None
         | None \<Rightarrow>
             (case strip_prefix rest ''GLOBAL '' of
                Some after \<Rightarrow>
                  if starts_with (trim_start after) ''TRANSACTION'' then Some (trim_start after) else None
              | None \<Rightarrow> None)))))))"

definition is_noop_set :: "string \<Rightarrow> bool" where
  "is_noop_set after_set =
     (let rest0 = trim_start after_set;
          rest = (case normalize_session_prefix rest0 of Some r \<Rightarrow> r | None \<Rightarrow> rest0)
      in list_ex (\<lambda>p. starts_with rest p)
           [''NAMES'', ''CHARACTER SET'', ''TIME_ZONE'', ''SQL_MODE'', ''NOCOUNT'', ''ANSI_NULLS'',
            ''QUOTED_IDENTIFIER'', ''XACT_ABORT''] \<or>
         starts_with rest ''AUTOCOMMIT'' \<or> starts_with rest ''TRANSACTION'' \<or>
         starts_with rest ''SESSION'' \<or> starts_with rest ''GLOBAL'')"

definition is_noop :: "string \<Rightarrow> dialect \<Rightarrow> bool" where
  "is_noop sql d =
     (let upper = to_ascii_uppercase (trim sql) in
      (case strip_prefix upper ''SET '' of Some after_set \<Rightarrow> is_noop_set after_set | None \<Rightarrow> False) \<or>
      starts_with upper ''LOCK TABLES'' \<or> starts_with upper ''LOCK TABLE '' \<or>
      upper = ''UNLOCK TABLES'' \<or> starts_with upper ''UNLOCK TABLES '')"

section \<open>Classification\<close>

datatype statement_kind = Query | Mutation | Ddl | Transaction | OtherKind

text \<open>Past a literal or quoted identifier; past a block comment.\<close>

fun skip_literal :: "char \<Rightarrow> string \<Rightarrow> string" where
  "skip_literal q [] = []"
| "skip_literal q (c # s) =
     (if c = backslash \<and> q \<noteq> bt \<and> s \<noteq> [] then (case s of d # s' \<Rightarrow> skip_literal q s' | [] \<Rightarrow> [])
      else if c = q then (case s of d # s' \<Rightarrow> if d = q then skip_literal q s' else s | [] \<Rightarrow> [])
      else skip_literal q s)"

fun skip_comment :: "string \<Rightarrow> string" where
  "skip_comment (c # d # s) = (if c = CHR ''*'' \<and> d = CHR ''/'' then s else skip_comment (d # s))"
| "skip_comment s = []"

lemma skip_literal_le: "length (skip_literal q s) \<le> length s"
proof (induction "length s" arbitrary: s rule: less_induct)
  case less
  show ?case
  proof (cases s)
    case (Cons c r)
    have r: "length (skip_literal q r) \<le> length r" using less Cons by simp
    show ?thesis
    proof (cases r)
      case Nil
      with r Cons show ?thesis by simp
    next
      case (Cons d r')
      have "length (skip_literal q r') \<le> length r'" using less \<open>s = c # r\<close> Cons by simp
      with r \<open>s = c # r\<close> Cons show ?thesis by (simp del: skip_literal.simps add: skip_literal.simps(2) [of q c])
    qed
  qed simp
qed

lemma skip_comment_le: "length (skip_comment s) \<le> length s"
  by (induction s rule: skip_comment.induct) auto

function words_at :: "int \<Rightarrow> string \<Rightarrow> string list" where
  "words_at depth [] = []"
| "words_at depth (c # s) =
     (if is_span_quote c then words_at depth (skip_literal c s)
      else if c = CHR ''-'' \<and> starts_with s ''-'' then
        words_at depth (dropWhile (\<lambda>x. x \<noteq> CHR 0x0A) (drop 1 s))
      else if c = CHR ''/'' \<and> starts_with s ''*'' then words_at depth (skip_comment (drop 1 s))
      else if c = CHR ''('' then words_at (depth + 1) s
      else if c = CHR '')'' then words_at (depth - 1) s
      else if is_word_start c then
        (let word = takeWhile is_word_byte (c # s); r = dropWhile is_word_byte (c # s)
         in (if depth = 0 then [to_ascii_uppercase word] else []) @ words_at depth r)
      else words_at depth s)"
  by pat_completeness auto
termination
  by (relation "measure (\<lambda>(d, s). length s)")
    (auto intro!: le_imp_less_Suc intro: skip_literal_le word_rest_shorter order_trans [OF skip_comment_le]
      order_trans [OF length_dropWhile_le] simp del: dropWhile.simps)

declare words_at.simps [simp del]

definition top_level_words :: "string \<Rightarrow> string list" where
  "top_level_words sql = words_at 0 sql"

definition has_top_level_returning :: "string \<Rightarrow> bool" where
  "has_top_level_returning sql = list_ex (\<lambda>w. w = ''RETURNING'') (top_level_words sql)"

definition classify_dml :: "string \<Rightarrow> statement_kind" where
  "classify_dml sql = (if has_top_level_returning sql then Query else Mutation)"

fun cte_body :: "string \<Rightarrow> string list \<Rightarrow> statement_kind" where
  "cte_body sql [] = OtherKind"
| "cte_body sql (w # ws) =
     (if w = ''SELECT'' \<or> w = ''VALUES'' then Query
      else if w = ''INSERT'' \<or> w = ''UPDATE'' \<or> w = ''DELETE'' \<or> w = ''REPLACE'' then classify_dml sql
      else cte_body sql ws)"

definition classify_cte :: "string \<Rightarrow> statement_kind" where
  "classify_cte sql = cte_body sql (top_level_words sql)"

definition classify :: "string \<Rightarrow> statement_kind" where
  "classify sql =
     (let upper = to_ascii_uppercase (trim sql);
          first_word = (case split_ascii_whitespace upper of w # _ \<Rightarrow> w | [] \<Rightarrow> [])
      in if first_word \<in> set [''SELECT'', ''SHOW'', ''DESCRIBE'', ''DESC'', ''EXPLAIN'', ''PRAGMA''] then Query
         else if first_word \<in> set [''INSERT'', ''UPDATE'', ''DELETE'', ''REPLACE''] then classify_dml sql
         else if first_word \<in> set [''CREATE'', ''ALTER'', ''DROP'', ''TRUNCATE''] then Ddl
         else if first_word \<in> set [''BEGIN'', ''START'', ''COMMIT'', ''ROLLBACK'', ''SAVEPOINT'', ''RELEASE'']
           then Transaction
         else if first_word = ''WITH'' then classify_cte sql
         else OtherKind)"

section \<open>Quoted text comes through unchanged\<close>

text \<open>The quoted spans of a text, in order.\<close>

function quoted_spans :: "string \<Rightarrow> string list" where
  "quoted_spans [] = []"
| "quoted_spans (c # s) =
     (case quoted_span (c # s) of Some (t, r) \<Rightarrow> t # quoted_spans r | None \<Rightarrow> quoted_spans s)"
  by pat_completeness auto
termination by (relation "measure length") (auto dest!: quoted_span_shorter)

declare quoted_spans.simps [simp del]

lemma quoted_spans_Nil [simp]: "quoted_spans [] = []"
  by (simp add: quoted_spans.simps)

lemma quoted_spans_plain: "(\<And>c. c \<in> set p \<Longrightarrow> \<not> is_span_quote c) \<Longrightarrow> quoted_spans (p @ s) = quoted_spans s"
  by (induction p) (auto simp: quoted_spans.simps(2) quoted_span_def)

lemma span_tail_closed: "span_tail q s = (t, r) \<Longrightarrow> r \<noteq> [] \<Longrightarrow> span_tail q (t @ u) = (t, u)"
proof (induction "length s" arbitrary: s t rule: less_induct)
  case less
  show ?case
  proof (cases s)
    case (Cons c s1)
    show ?thesis
    proof (cases "c = backslash \<and> q \<noteq> bt")
      case True
      show ?thesis
      proof (cases s1)
        case (Cons d s2)
        obtain t2 where t2: "span_tail q s2 = (t2, r)" "t = c # d # t2"
          using less(2) True Cons \<open>s = c # s1\<close> by (auto split: prod.splits)
        with less(1) [of s2 t2] less(3) True Cons \<open>s = c # s1\<close> show ?thesis by simp
      qed (use less(2,3) True Cons in simp)
    next
      case False
      then show ?thesis
      proof (cases "c = q")
        case True
        with False less(2) Cons show ?thesis by auto
      next
        case other: False
        obtain t1 where t1: "span_tail q s1 = (t1, r)" "t = c # t1"
          using less(2) False other Cons by (auto split: prod.splits)
        with less(1) [of s1 t1] less(3) False other Cons show ?thesis by auto
      qed
    qed
  qed (use less(2,3) in simp)
qed

lemma quoted_span_closed: "quoted_span s = Some (t, r) \<Longrightarrow> r \<noteq> [] \<Longrightarrow> quoted_span (t @ u) = Some (t, u)"
  by (cases s) (auto simp: quoted_span_def span_tail_closed split: if_splits prod.splits)

lemma quoted_spans_span:
  assumes "quoted_span s = Some (t, r)" and "r = [] \<Longrightarrow> u = []"
  shows "quoted_spans (t @ u) = t # quoted_spans u"
proof -
  have t: "s = t @ r" "t \<noteq> []" using quoted_span_split [OF assms(1)] by auto
  then obtain c t' where c: "t = c # t'" by (cases t) auto
  have "quoted_span (t @ u) = Some (t, u)"
    using assms quoted_span_closed [OF assms(1)] t by (cases "r = []") auto
  with c show ?thesis by (simp add: quoted_spans.simps(2))
qed

lemma quoted_spans_step: "quoted_span s = Some (t, r) \<Longrightarrow> quoted_spans s = t # quoted_spans r"
  using quoted_spans_span [of s t r r] quoted_span_split [of s t r] by auto

lemma strip_groups_Nil [simp]: "strip_groups out [] = out"
  by (simp add: strip_groups.simps)

lemma digit_group_split: "digit_group s = Some (ds, r) \<Longrightarrow> s = ds @ CHR '')'' # r \<and> (\<forall>c\<in>set ds. is_ascii_digit c)"
  by (auto simp: digit_group_def Let_def split: if_splits list.splits dest: set_takeWhileD)
    (metis takeWhile_dropWhile_id)

lemma digit_not_quote: "is_ascii_digit c \<Longrightarrow> \<not> is_span_quote c"
  by (auto simp: is_ascii_digit_def is_span_quote_def byte_of_def sq_def dq_def bt_def)

lemma strip_groups_spans: "\<exists>t. strip_groups out s = out @ t \<and> quoted_spans t = quoted_spans s"
proof (induction out s rule: strip_groups.induct)
  case (2 out c s)
  show ?case
  proof (cases "quoted_span (c # s)")
    case (Some p)
    obtain t r where p: "p = (t, r)" by force
    then obtain u where u: "strip_groups (out @ t) r = (out @ t) @ u" "quoted_spans u = quoted_spans r"
      using 2(4) [OF Some] by auto
    have "r = [] \<Longrightarrow> u = []" using u(1) by simp
    with quoted_spans_span [OF Some [unfolded p]] quoted_spans_step [OF Some [unfolded p]] u Some p show ?thesis
      by (intro exI [of _ "t @ u"]) (simp add: strip_groups.simps)
  next
    case None
    then have c: "\<not> is_span_quote c" by (auto simp: quoted_span_def split: if_splits prod.splits)
    have keep: "\<exists>t. strip_groups (out @ [c]) s = out @ t \<and> quoted_spans t = quoted_spans (c # s)"
      if "\<exists>t. strip_groups (out @ [c]) s = (out @ [c]) @ t \<and> quoted_spans t = quoted_spans s"
      using that quoted_spans_plain [of "[c]"] c by auto
    show ?thesis
    proof (cases "if c = CHR ''('' then digit_group s else None")
      case None2: None
      with None keep 2(1) [OF None None2] show ?thesis by (simp add: strip_groups.simps)
    next
      case (Some p)
      obtain ds r where p: "p = (ds, r)" by force
      have g: "c = CHR ''(''" "s = ds @ CHR '')'' # r" "\<forall>x\<in>set ds. is_ascii_digit x"
        using Some p digit_group_split [of s ds r] by (auto split: if_splits)
      have "\<not> is_span_quote CHR '')''" "\<not> is_span_quote CHR ''(''" by code_simp+
      with g have skip: "quoted_spans (c # s) = quoted_spans r"
        using quoted_spans_plain [of "c # ds @ [CHR '')'']" r] digit_not_quote by auto
      show ?thesis
        using None Some p keep 2(2) [OF None Some] 2(3) [OF None Some] skip
        by (cases "ds = ''1'' \<and> trailing_token_is out ''tinyint''") (auto simp: strip_groups.simps)
    qed
  qed
qed simp

lemma word_not_quote: "is_word_byte c \<Longrightarrow> \<not> is_span_quote c"
  by (auto simp: is_word_byte_def is_ascii_alphanumeric_def is_ascii_digit_def is_ascii_alphabetic_def
      is_span_quote_def byte_of_def sq_def dq_def bt_def)

lemma strip_hints_Nil [simp]: "strip_hints [] = []"
  by (simp add: strip_hints.simps)

lemma word_split:
  "quoted_spans (takeWhile is_word_byte s @ u) = quoted_spans u"
  "quoted_spans s = quoted_spans (dropWhile is_word_byte s)"
  using quoted_spans_plain [of "takeWhile is_word_byte s"] word_not_quote
  by (metis set_takeWhileD, metis set_takeWhileD takeWhile_dropWhile_id)

lemma quoted_spans_skip_space: "quoted_spans (skip_space s) = quoted_spans s"
proof -
  have "\<not> is_span_quote CHR '' ''" by code_simp
  then show ?thesis using quoted_spans_plain [of "'' ''"] by (auto simp: skip_space_def split: list.split)
qed

lemma strip_hints_spans: "quoted_spans (strip_hints s) = quoted_spans s"
proof (induction s rule: strip_hints.induct)
  case (2 c s)
  show ?case
  proof (cases "quoted_span (c # s)")
    case (Some p)
    obtain t r where p: "p = (t, r)" by force
    with Some 2 have "quoted_spans (strip_hints r) = quoted_spans r" by auto
    moreover have "r = [] \<Longrightarrow> strip_hints r = []" by simp
    ultimately show ?thesis
      using quoted_spans_span [OF Some [unfolded p]] quoted_spans_step [OF Some [unfolded p]] Some p
      by (simp add: strip_hints.simps)
  next
    case None
    then have c: "\<not> is_span_quote c" by (auto simp: quoted_span_def split: if_splits prod.splits)
    show ?thesis
    proof (cases "is_word_start c")
      case True
      note ih = 2(1) [OF None True refl refl] 2(2) [OF None True refl refl]
      show ?thesis
        unfolding strip_hints.simps(2) [of c s]
        using ih None True word_split [of "c # s"] quoted_spans_skip_space
        by (simp add: Let_def del: takeWhile.simps dropWhile.simps)
    next
      case False
      with None 2(3) [OF None False] c show ?thesis
        using quoted_spans_plain [of "[c]"] by (simp add: strip_hints.simps)
    qed
  qed
qed simp

text \<open>The cheap test before the pass misses nothing the pass would change.\<close>

lemma hints_uppercase: "\<forall>h\<in>set MYSQL_SELECT_HINTS. to_ascii_uppercase h = h"
  by code_simp

lemma hint_contained:
  assumes "is_hint w" and "sublist w s"
  shows "has_mysql_select_hint s"
proof -
  obtain h where h: "h \<in> set MYSQL_SELECT_HINTS" "eq_ignore_ascii_case h w"
    using assms(1) by (auto simp: is_hint_def list_ex_iff)
  then have "to_ascii_uppercase w = h" using eq_ignore_case_upper hints_uppercase by metis
  moreover obtain a b where "s = a @ w @ b" using assms(2) by (auto simp: sublist_def)
  ultimately have "sublist h (to_ascii_uppercase s)" by (auto simp: to_ascii_uppercase_append)
  with h(1) show ?thesis by (auto simp: has_mysql_select_hint_def Let_def list_ex_iff contains_str_iff)
qed

lemma strip_hints_unchanged:
  "(\<And>w. sublist w s \<Longrightarrow> \<not> is_hint w) \<Longrightarrow> strip_hints s = s"
proof (induction s rule: strip_hints.induct)
  case (2 c s)
  show ?case
  proof (cases "quoted_span (c # s)")
    case (Some p)
    obtain t r where p: "p = (t, r)" by force
    then have split: "c # s = t @ r" using quoted_span_split Some by blast
    then have "sublist w r \<Longrightarrow> sublist w (c # s)" for w by (metis suffixI suffix_imp_sublist sublist_order.order_trans)
    with 2(5) have "strip_hints r = r" by (intro 2(4) [OF Some p [symmetric]]) blast
    then show ?thesis unfolding strip_hints.simps(2) [of c s] Some p using split by simp
  next
    case None
    show ?thesis
    proof (cases "is_word_start c")
      case True
      define w where "w = takeWhile is_word_byte (c # s)"
      define r where "r = dropWhile is_word_byte (c # s)"
      have split: "c # s = w @ r" by (simp add: w_def r_def del: takeWhile.simps dropWhile.simps)
      have "sublist w (c # s)" unfolding split by (simp add: sublist_appendI)
      then have "\<not> is_hint w" using 2(5) by blast
      moreover have "sublist v r \<Longrightarrow> sublist v (c # s)" for v
        using split by (metis suffixI suffix_imp_sublist sublist_order.order_trans)
      with 2(5) calculation have "strip_hints r = r" by (intro 2(2) [OF None True w_def r_def]) blast+
      ultimately show ?thesis
        unfolding strip_hints.simps(2) [of c s] None Let_def w_def [symmetric] r_def [symmetric]
        using True split by simp
    next
      case False
      have "strip_hints s = s" using 2(3) [OF None False] 2(5) by (auto simp: sublist_Cons_right)
      with None False show ?thesis by (simp add: strip_hints.simps)
    qed
  qed
qed simp

section \<open>What classification reads\<close>

lemma skip_literal_plain:
  "q \<notin> set x \<Longrightarrow> backslash \<notin> set x \<Longrightarrow> q \<noteq> backslash \<Longrightarrow> \<not> starts_with s [q] \<Longrightarrow> skip_literal q (x @ q # s) = s"
proof (induction x)
  case Nil
  then show ?case by (cases s) (auto simp: starts_with_def)
qed auto

lemma skip_comment_plain: "find_str (x @ ''*/'') ''*/'' = Some (length x) \<Longrightarrow> skip_comment (x @ ''*/'' @ s) = s"
proof (induction x)
  case (Cons c x)
  then have "\<not> starts_with (c # x @ ''*/'') ''*/''" "find_str (x @ ''*/'') ''*/'' = Some (length x)"
    by (auto split: if_splits)
  with Cons.IH show ?case by (cases x) (auto simp: starts_with_def)
qed simp

lemma words_at_plain: "\<not> is_span_quote c \<Longrightarrow> \<not> is_word_start c \<Longrightarrow> c \<notin> set ''-/()'' \<Longrightarrow> words_at d (c # s) = words_at d s"
  by (auto simp: words_at.simps)

section \<open>Properties\<close>


text \<open>
  Fact (literals and comments are not syntax). To the classifier a quoted literal or
  identifier, a line comment and a block comment are invisible: the top-level words of a statement
  are those of the statement without them, so no \<^verbatim>\<open>RETURNING\<close> inside one changes the routing.
\<close>

theorem literals_and_comments_invisible:
  assumes "is_span_quote q" and "q \<notin> set x" and "backslash \<notin> set x" and "\<not> starts_with s [q]"
    and "CHR 0x0A \<notin> set y" and "find_str (z @ ''*/'') ''*/'' = Some (length z)"
  shows "top_level_words ([q] @ x @ [q] @ s) = top_level_words s \<and>
    top_level_words (''--'' @ y @ [CHR 0x0A] @ s) = top_level_words s \<and>
    top_level_words (''/*'' @ z @ ''*/'' @ s) = top_level_words s"
proof (intro conjI)
  have "q \<noteq> backslash" using assms(1) by (auto simp: is_span_quote_def sq_def dq_def bt_def backslash_def)
  with skip_literal_plain [OF assms(2,3) _ assms(4)] assms(1)
  show "top_level_words ([q] @ x @ [q] @ s) = top_level_words s"
    by (simp add: top_level_words_def words_at.simps(2))
  have minus: "\<not> is_span_quote CHR ''-''" and slash: "\<not> is_span_quote CHR ''/''" by code_simp+
  have "\<not> is_span_quote CHR 0x0A \<and> \<not> is_word_start CHR 0x0A \<and> CHR 0x0A \<notin> set ''-/()''" by code_simp
  moreover have "dropWhile (\<lambda>c. c \<noteq> CHR 0x0A) (y @ CHR 0x0A # s) = CHR 0x0A # s"
    using assms(5) by (induction y) auto
  ultimately show "top_level_words (''--'' @ y @ [CHR 0x0A] @ s) = top_level_words s"
    using minus by (simp add: top_level_words_def words_at.simps(2) [of _ "CHR ''-''"] words_at_plain starts_with_def)
  show "top_level_words (''/*'' @ z @ ''*/'' @ s) = top_level_words s"
    using slash skip_comment_plain [OF assms(6), of s]
    by (simp add: top_level_words_def words_at.simps(2) [of _ "CHR ''/''"] starts_with_def)
qed

theorem literals_and_comments_invisible_witness:
  "top_level_words ([sq] @ '' RETURNING '' @ [sq] @ '' WHERE x'') = top_level_words '' WHERE x''"
proof -
  have "is_span_quote sq" "sq \<notin> set '' RETURNING ''" "backslash \<notin> set '' RETURNING ''"
    "\<not> starts_with '' WHERE x'' [sq]" "CHR 0x0A \<notin> set ''y''" "find_str (''z'' @ ''*/'') ''*/'' = Some (length ''z'')"
    by code_simp+
  from literals_and_comments_invisible [OF this] show ?thesis by blast
qed

text \<open>
  Fact (rewritten transaction statements stay transaction statements). Whatever the text
  handler for \<^verbatim>\<open>START TRANSACTION\<close>, \<^verbatim>\<open>BEGIN\<close>, \<^verbatim>\<open>COMMIT\<close> and \<^verbatim>\<open>ROLLBACK\<close> returns is one of SQLite's
  \<^verbatim>\<open>BEGIN\<close>, \<^verbatim>\<open>COMMIT\<close>, \<^verbatim>\<open>ROLLBACK\<close> or a \<^verbatim>\<open>ROLLBACK TO SAVEPOINT\<close>, and the last only for a statement
  that itself rolls back to a savepoint.
\<close>

theorem rewritten_transactions:
  assumes "rewrite_transaction_statement sql = Some out"
  shows "out \<in> {''BEGIN'', ''COMMIT'', ''ROLLBACK''} \<or>
    (\<exists>name. out = ''ROLLBACK TO SAVEPOINT '' @ name \<and>
       starts_with (to_ascii_uppercase (trim (trim_end_matches (\<lambda>c. c = CHR '';'') (trim sql)))) ''ROLLBACK TRANSACTION '')"
proof -
  define u where "u = to_ascii_uppercase (trim (trim_end_matches (\<lambda>c. c = CHR '';'') (trim sql)))"
  have step: "a = b \<or> x = Some b" if "(if P then Some a else x) = Some b" for P and a b :: string and x
    using that by (auto split: if_splits)
  note chain = assms [unfolded rewrite_transaction_statement_def Let_def u_def [symmetric]]
  consider "out \<in> {''BEGIN'', ''COMMIT'', ''ROLLBACK''}"
    | "\<exists>name. out = ''ROLLBACK TO SAVEPOINT '' @ name" "strip_prefix u ''ROLLBACK TRANSACTION '' \<noteq> None"
    using chain by (elim step [elim_format] disjE; simp split: option.splits; blast?)
  then show ?thesis by cases (auto simp: strip_prefix_def u_def split: if_splits)
qed

theorem rewritten_transactions_witness:
  "rewrite_transaction_statement ''Rollback Transaction To Savepoint Sp1;'' = Some ''ROLLBACK TO SAVEPOINT Sp1'' \<and>
   (''ROLLBACK TO SAVEPOINT Sp1'' \<in> {''BEGIN'', ''COMMIT'', ''ROLLBACK''} \<or>
    (\<exists>name. ''ROLLBACK TO SAVEPOINT Sp1'' = ''ROLLBACK TO SAVEPOINT '' @ name))"
proof -
  have r: "rewrite_transaction_statement ''Rollback Transaction To Savepoint Sp1;'' = Some ''ROLLBACK TO SAVEPOINT Sp1''"
    by code_simp
  from rewritten_transactions [OF r] r show ?thesis by blast
qed

end
