(* ===== verification/Translate_Cache.thy ===== *)
theory Translate_Cache
  imports Sql_Text
begin

text \<open>
  The translation cache (\<^verbatim>\<open>src/crates/litewire-translate/src/cache.rs\<close>) and \<^verbatim>\<open>translate_cached\<close>
  (\<^verbatim>\<open>src/crates/litewire-translate/src/lib.rs\<close>): one LRU map per dialect in front of the translator.

  \<^verbatim>\<open>lru::LruCache\<close> is not part of the sources: it is the parameter \<open>api\<close>, with what its
  documentation promises as the hypothesis \<open>lru_laws\<close> over the view \<open>lru_peek\<close>. The translator is
  an argument of \<open>translate_cached\<close>; nothing is assumed of it.
\<close>

section \<open>The LRU map\<close>

record ('m, 'v) lru_api =
  lru_new :: "nat \<Rightarrow> 'm"
  lru_get :: "string \<Rightarrow> 'm \<Rightarrow> 'v option \<times> 'm"
  lru_put :: "string \<Rightarrow> 'v \<Rightarrow> 'm \<Rightarrow> 'm"
  lru_len :: "'m \<Rightarrow> nat"
  lru_cap :: "'m \<Rightarrow> nat"
  lru_peek :: "'m \<Rightarrow> string \<Rightarrow> 'v option"

text \<open>
  A new map is empty; \<^verbatim>\<open>get\<close> returns the stored value and changes no entry; \<^verbatim>\<open>put\<close> stores its entry
  and may evict others but alters none; the capacity is fixed and never exceeded.
\<close>

definition lru_laws :: "('m, 'v) lru_api \<Rightarrow> bool" where
  "lru_laws api \<longleftrightarrow>
     (\<forall>n k. 0 < n \<longrightarrow> lru_peek api (lru_new api n) k = None \<and> lru_cap api (lru_new api n) = n
        \<and> lru_len api (lru_new api n) = 0) \<and>
     (\<forall>k m v m'. lru_get api k m = (v, m') \<longrightarrow>
        v = lru_peek api m k \<and> lru_peek api m' = lru_peek api m \<and> lru_len api m' \<le> lru_len api m
        \<and> lru_cap api m' = lru_cap api m) \<and>
     (\<forall>k v m k'. k' \<noteq> k \<longrightarrow> lru_peek api (lru_put api k v m) k' \<in> {None, lru_peek api m k'}) \<and>
     (\<forall>k v m. lru_peek api (lru_put api k v m) k = Some v) \<and>
     (\<forall>k v m. lru_len api m \<le> lru_cap api m \<longrightarrow>
        lru_len api (lru_put api k v m) \<le> lru_cap api m \<and> lru_cap api (lru_put api k v m) = lru_cap api m)"

section \<open>The cache\<close>

definition DEFAULT_CAPACITY :: nat where "DEFAULT_CAPACITY = 1024"

fun dialect_index :: "dialect \<Rightarrow> nat" where
  "dialect_index MySQL = 0"
| "dialect_index PostgreSQL = 1"
| "dialect_index TDS = 2"

record 'm translate_cache =
  per_dialect :: "'m list"

text \<open>\<open>None\<close> is the panic on a zero capacity.\<close>

definition cache_new :: "('m, 'v) lru_api \<Rightarrow> nat \<Rightarrow> 'm translate_cache option" where
  "cache_new api capacity =
     (if capacity = 0 then None else Some \<lparr>per_dialect = replicate 3 (lru_new api capacity)\<rparr>)"

definition cache_get :: "('m, 'v) lru_api \<Rightarrow> 'm translate_cache \<Rightarrow> dialect \<Rightarrow> string \<Rightarrow> 'v option \<times> 'm translate_cache" where
  "cache_get api c d sql =
     (case lru_get api sql (per_dialect c ! dialect_index d) of
        (v, m') \<Rightarrow> (v, c\<lparr>per_dialect := (per_dialect c)[dialect_index d := m']\<rparr>))"

definition cache_put :: "('m, 'v) lru_api \<Rightarrow> 'm translate_cache \<Rightarrow> dialect \<Rightarrow> string \<Rightarrow> 'v \<Rightarrow> 'm translate_cache" where
  "cache_put api c d sql v =
     c\<lparr>per_dialect := (per_dialect c)[dialect_index d := lru_put api sql v (per_dialect c ! dialect_index d)]\<rparr>"

definition cache_len :: "('m, 'v) lru_api \<Rightarrow> 'm translate_cache \<Rightarrow> nat" where
  "cache_len api c = sum_list (map (lru_len api) (per_dialect c))"

definition translate_cached ::
  "('m, 'v) lru_api \<Rightarrow> (string \<Rightarrow> dialect \<Rightarrow> 'e + 'v) \<Rightarrow> 'm translate_cache \<Rightarrow> string \<Rightarrow> dialect \<Rightarrow> ('e + 'v) \<times> 'm translate_cache" where
  "translate_cached api translate c sql d =
     (case cache_get api c d sql of
        (Some hit, c1) \<Rightarrow> (Inr hit, c1)
      | (None, c1) \<Rightarrow>
          (case translate sql d of
             Inl e \<Rightarrow> (Inl e, c1)
           | Inr results \<Rightarrow> (Inr results, cache_put api c1 d sql results)))"

section \<open>Entries are translations\<close>

definition cache_ok :: "('m, 'v) lru_api \<Rightarrow> (string \<Rightarrow> dialect \<Rightarrow> 'e + 'v) \<Rightarrow> nat \<Rightarrow> 'm translate_cache \<Rightarrow> bool" where
  "cache_ok api translate cap c \<longleftrightarrow>
     length (per_dialect c) = 3 \<and>
     (\<forall>d. lru_cap api (per_dialect c ! dialect_index d) = cap \<and> lru_len api (per_dialect c ! dialect_index d) \<le> cap) \<and>
     (\<forall>d sql v. lru_peek api (per_dialect c ! dialect_index d) sql = Some v \<longrightarrow> translate sql d = Inr v)"

lemma dialect_index_inj [simp]: "dialect_index d = dialect_index d' \<longleftrightarrow> d = d'"
  by (cases d; cases d') simp_all

lemma dialect_index_bound [simp]: "dialect_index d < 3"
  by (cases d) simp_all

lemma cache_ok_update:
  assumes "cache_ok api translate cap c" and "lru_cap api m = cap" and "lru_len api m \<le> cap"
    and "\<And>sql v. lru_peek api m sql = Some v \<Longrightarrow> translate sql d = Inr v"
  shows "cache_ok api translate cap (c\<lparr>per_dialect := (per_dialect c)[dialect_index d := m]\<rparr>)"
  using assms by (auto simp: cache_ok_def nth_list_update)

lemma cache_get_ok:
  assumes laws: "lru_laws api" and ok: "cache_ok api translate cap c" and g: "cache_get api c d sql = (v, c')"
  shows "v = lru_peek api (per_dialect c ! dialect_index d) sql"
    and "cache_ok api translate cap c'"
    and "per_dialect c' ! dialect_index d' = per_dialect c ! dialect_index d' \<or> d' = d"
    and "lru_peek api (per_dialect c' ! dialect_index d) = lru_peek api (per_dialect c ! dialect_index d)"
proof -
  obtain m' where m: "lru_get api sql (per_dialect c ! dialect_index d) = (v, m')"
    "c' = c\<lparr>per_dialect := (per_dialect c)[dialect_index d := m']\<rparr>"
    using g by (auto simp: cache_get_def split: prod.splits)
  have p: "v = lru_peek api (per_dialect c ! dialect_index d) sql" "lru_peek api m' = lru_peek api (per_dialect c ! dialect_index d)"
    "lru_len api m' \<le> lru_len api (per_dialect c ! dialect_index d)" "lru_cap api m' = lru_cap api (per_dialect c ! dialect_index d)"
    using laws m(1) unfolding lru_laws_def by metis+
  then show "v = lru_peek api (per_dialect c ! dialect_index d) sql" by simp
  show "cache_ok api translate cap c'"
    unfolding m(2) using ok p by (intro cache_ok_update) (auto simp: cache_ok_def intro: le_trans)
  show "per_dialect c' ! dialect_index d' = per_dialect c ! dialect_index d' \<or> d' = d"
    using m(2) by (auto simp: nth_list_update)
  show "lru_peek api (per_dialect c' ! dialect_index d) = lru_peek api (per_dialect c ! dialect_index d)"
    using m(2) p ok by (simp add: cache_ok_def)
qed

lemma cache_put_ok:
  assumes laws: "lru_laws api" and ok: "cache_ok api translate cap c" and t: "translate sql d = Inr v"
  shows "cache_ok api translate cap (cache_put api c d sql v)"
  unfolding cache_put_def
proof (rule cache_ok_update [OF ok])
  let ?m = "per_dialect c ! dialect_index d"
  have "lru_len api ?m \<le> lru_cap api ?m" "lru_cap api ?m = cap" using ok by (auto simp: cache_ok_def)
  with laws show "lru_cap api (lru_put api sql v ?m) = cap" "lru_len api (lru_put api sql v ?m) \<le> cap"
    unfolding lru_laws_def by metis+
  show "translate sql' d = Inr v'" if "lru_peek api (lru_put api sql v ?m) sql' = Some v'" for sql' v'
  proof (cases "sql' = sql")
    case True
    with that laws t show ?thesis by (simp add: lru_laws_def)
  next
    case False
    then have "lru_peek api (lru_put api sql v ?m) sql' \<in> {None, lru_peek api ?m sql'}"
      using laws unfolding lru_laws_def by blast
    with that ok show ?thesis unfolding cache_ok_def by auto
  qed
qed

lemma translate_cached_ok:
  assumes laws: "lru_laws api" and ok: "cache_ok api translate cap c"
  shows "fst (translate_cached api translate c sql d) = translate sql d
    \<and> cache_ok api translate cap (snd (translate_cached api translate c sql d))"
proof -
  obtain v c1 where g: "cache_get api c d sql = (v, c1)" by force
  note p = cache_get_ok(1,2) [OF laws ok g]
  show ?thesis
  proof (cases v)
    case (Some hit)
    with p(1) ok have "translate sql d = Inr hit" unfolding cache_ok_def by metis
    with g p(2) Some show ?thesis by (simp add: translate_cached_def)
  next
    case None
    with g p(2) cache_put_ok [OF laws p(2)] show ?thesis
      by (auto simp: translate_cached_def split: sum.split)
  qed
qed

section \<open>A session's worth of calls\<close>

fun run_cached ::
  "('m, 'v) lru_api \<Rightarrow> (string \<Rightarrow> dialect \<Rightarrow> 'e + 'v) \<Rightarrow> 'm translate_cache \<Rightarrow> (string \<times> dialect) list \<Rightarrow> ('e + 'v) list \<times> 'm translate_cache" where
  "run_cached api translate c [] = ([], c)"
| "run_cached api translate c ((sql, d) # calls) =
     (case translate_cached api translate c sql d of
        (r, c1) \<Rightarrow> (case run_cached api translate c1 calls of (rs, c2) \<Rightarrow> (r # rs, c2)))"

lemma run_cached_ok:
  assumes "lru_laws api" and "cache_ok api translate cap c"
  shows "fst (run_cached api translate c calls) = map (\<lambda>(sql, d). translate sql d) calls
    \<and> cache_ok api translate cap (snd (run_cached api translate c calls))"
  using assms(2)
proof (induction calls arbitrary: c)
  case (Cons call calls)
  obtain sql d where call: "call = (sql, d)" by force
  obtain r c1 where t: "translate_cached api translate c sql d = (r, c1)" by force
  have r: "r = translate sql d" "cache_ok api translate cap c1"
    using translate_cached_ok [OF assms(1) Cons.prems, of sql d] t by simp_all
  obtain rs c2 where "run_cached api translate c1 calls = (rs, c2)" by force
  with r Cons.IH [OF r(2)] call t show ?case by simp
qed simp

lemma cache_new_ok:
  assumes "lru_laws api" and "cache_new api capacity = Some c"
  shows "cache_ok api translate capacity c"
  using assms by (auto simp: cache_new_def lru_laws_def cache_ok_def split: if_splits)

lemma cache_len_bound:
  assumes "cache_ok api translate cap c"
  shows "cache_len api c \<le> 3 * cap"
proof -
  obtain a b e where abe: "per_dialect c = [a, b, e]"
    using assms by (auto simp: cache_ok_def numeral_3_eq_3 length_Suc_conv)
  have "\<forall>d. lru_len api (per_dialect c ! dialect_index d) \<le> cap" using assms by (simp add: cache_ok_def)
  from this [rule_format, of MySQL] this [rule_format, of PostgreSQL] this [rule_format, of TDS] abe
  show ?thesis by (simp add: cache_len_def)
qed

section \<open>An LRU map as a list, most recently used first\<close>

definition list_lru :: "(nat \<times> (string \<times> 'v) list, 'v) lru_api" where
  "list_lru =
     \<lparr>lru_new = (\<lambda>n. (n, [])),
      lru_get = (\<lambda>k (n, es). case map_of es k of
          None \<Rightarrow> (None, (n, es))
        | Some v \<Rightarrow> (Some v, (n, (k, v) # filter (\<lambda>e. fst e \<noteq> k) es))),
      lru_put = (\<lambda>k v (n, es). (n, take (max n 1) ((k, v) # filter (\<lambda>e. fst e \<noteq> k) es))),
      lru_len = (\<lambda>(n, es). length es),
      lru_cap = (\<lambda>(n, es). max n 1),
      lru_peek = (\<lambda>(n, es). map_of es)\<rparr>"

lemma map_of_filter_neq: "map_of (filter (\<lambda>e. fst e \<noteq> k) es) k' = (if k' = k then None else map_of es k')"
  by (induction es) auto

lemma map_of_take: "map_of (take n es) k \<in> {None, map_of es k}"
  by (induction es arbitrary: n) (auto simp: take_Cons split: nat.splits)

lemma filter_neq_shorter: "map_of es k = Some v \<Longrightarrow> length (filter (\<lambda>e. fst e \<noteq> k) es) < length es"
proof (rule length_filter_less)
  assume "map_of es k = Some v"
  then show "(k, v) \<in> set es" by (rule map_of_SomeD)
qed simp

lemma list_lru_get:
  assumes "lru_get list_lru k (n, es) = (v, m')"
  shows "v = map_of es k \<and> lru_peek list_lru m' = map_of es \<and> lru_len list_lru m' \<le> length es
    \<and> lru_cap list_lru m' = max n 1"
  using assms filter_neq_shorter [of es k]
  by (auto simp: list_lru_def map_of_filter_neq fun_eq_iff Suc_le_eq split: option.splits)

lemma list_lru_put:
  "k' \<noteq> k \<Longrightarrow> lru_peek list_lru (lru_put list_lru k v (n, es)) k' \<in> {None, map_of es k'}"
  "lru_peek list_lru (lru_put list_lru k v (n, es)) k = Some v"
  "lru_len list_lru (lru_put list_lru k v (n, es)) \<le> max n 1 \<and> lru_cap list_lru (lru_put list_lru k v (n, es)) = max n 1"
proof -
  show "lru_peek list_lru (lru_put list_lru k v (n, es)) k' \<in> {None, map_of es k'}" if "k' \<noteq> k"
    using map_of_take [of "max n 1" "(k, v) # filter (\<lambda>e. fst e \<noteq> k) es" k'] that
    by (simp add: list_lru_def map_of_filter_neq)
  obtain j where "max n 1 = Suc j" by (metis Suc_pred' less_one max.strict_coboundedI2)
  then show "lru_peek list_lru (lru_put list_lru k v (n, es)) k = Some v"
    by (simp add: list_lru_def)
  show "lru_len list_lru (lru_put list_lru k v (n, es)) \<le> max n 1 \<and> lru_cap list_lru (lru_put list_lru k v (n, es)) = max n 1"
    by (simp add: list_lru_def)
qed

lemma list_lru_view [simp]:
  "lru_peek list_lru (n, es) = map_of es" "lru_len list_lru (n, es) = length es" "lru_cap list_lru (n, es) = max n 1"
  by (simp_all add: list_lru_def)

lemma list_lru_new: "lru_new list_lru n = (n, [])"
  by (simp add: list_lru_def)

lemma list_lru_laws: "lru_laws list_lru"
  unfolding lru_laws_def
proof (intro conjI allI impI; (elim exE)?)
  fix k :: string and v :: "'b option" and m m' :: "nat \<times> (string \<times> 'b) list"
  assume "lru_get list_lru k m = (v, m')"
  then show "v = lru_peek list_lru m k" "lru_peek list_lru m' = lru_peek list_lru m"
    "lru_len list_lru m' \<le> lru_len list_lru m" "lru_cap list_lru m' = lru_cap list_lru m"
    using list_lru_get [of k "fst m" "snd m" v m'] list_lru_view [of "fst m" "snd m"] by simp_all
next
  fix k k' :: string and v :: 'b and m :: "nat \<times> (string \<times> 'b) list"
  show "k' \<noteq> k \<Longrightarrow> lru_peek list_lru (lru_put list_lru k v m) k' \<in> {None, lru_peek list_lru m k'}"
    "lru_peek list_lru (lru_put list_lru k v m) k = Some v"
    "lru_len list_lru (lru_put list_lru k v m) \<le> lru_cap list_lru m"
    "lru_cap list_lru (lru_put list_lru k v m) = lru_cap list_lru m"
    using list_lru_put(1) [of k' k v "fst m" "snd m"] list_lru_put(2,3) [of k v "fst m" "snd m"] list_lru_view [of "fst m" "snd m"] by simp_all
qed (simp_all add: list_lru_new)

text \<open>Property C23: the translation cache is transparent: whatever sequence of statements and dialects
  a cache of any capacity serves, each call returns exactly what the translator returns for it, error
  or result, for its own dialect; the number of entries stays within the capacity of the three maps.\<close>

theorem cache_transparent:
  assumes "lru_laws api" and "cache_new api capacity = Some c"
  shows "fst (run_cached api translate c calls) = map (\<lambda>(sql, d). translate sql d) calls \<and>
    cache_len api (snd (run_cached api translate c calls)) \<le> 3 * capacity"
  using run_cached_ok [OF assms(1) cache_new_ok [OF assms]] cache_len_bound by blast

theorem cache_transparent_witness:
  "lru_laws (list_lru :: (_, nat) lru_api) \<and>
   (\<exists>c. cache_new (list_lru :: (_, nat) lru_api) 1 = Some c \<and>
      fst (run_cached list_lru (\<lambda>sql d. if sql = [] then Inl d else Inr (length sql + dialect_index d)) c
             [(''a'', MySQL), (''a'', TDS), ([], TDS), (''ab'', MySQL), (''a'', MySQL)]) =
        [Inr 1, Inr 3, Inl TDS, Inr 2, Inr 1])"
proof (intro conjI exI)
  show "cache_new (list_lru :: (_, nat) lru_api) 1 = Some \<lparr>per_dialect = replicate 3 (1, [])\<rparr>"
    by (simp add: cache_new_def list_lru_new)
  from cache_transparent [OF list_lru_laws this,
      of "\<lambda>sql d. if sql = [] then Inl d else Inr (length sql + dialect_index d)"
         "[(''a'', MySQL), (''a'', TDS), ([], TDS), (''ab'', MySQL), (''a'', MySQL)]"]
  show "fst (run_cached list_lru (\<lambda>sql d. if sql = [] then Inl d else Inr (length sql + dialect_index d))
      \<lparr>per_dialect = replicate 3 (1, [])\<rparr> [(''a'', MySQL), (''a'', TDS), ([], TDS), (''ab'', MySQL), (''a'', MySQL)]) =
        [Inr 1, Inr 3, Inl TDS, Inr 2, Inr 1]"
    by simp
qed (rule list_lru_laws)

end
