(* ===== verification/Wal_Gate.thy ===== *)
theory Wal_Gate
  imports Rust_Str
begin

text \<open>
  The WAL checkpoint gate (\<^verbatim>\<open>src/crates/litewire-turso/src/wal_gate.rs\<close>): the retry policy that decides
  when a checkpoint attempt runs and how long it may wait for the exclusive side, the attempt itself
  with its counters, the maintenance loop, and the process-wide registry of gates.

  Durations and instants are natural numbers of nanoseconds; sizes and counters keep their machine
  width. The Turso engine, tokio's read-write lock, the clock and the file system are not part of the
  sources: they are the parameter \<open>api\<close>, operations over a world state of any type that they may
  change. Nothing is assumed of them.
\<close>

section \<open>Configuration\<close>

definition ESCALATION_THRESHOLD_MULTIPLE :: u64 where "ESCALATION_THRESHOLD_MULTIPLE = 4"

text \<open>\<^verbatim>\<open>Duration::MAX\<close> in nanoseconds, and the saturating operations the code uses.\<close>

definition DURATION_MAX :: nat where "DURATION_MAX = (2 ^ 64 - 1) * 10 ^ 9 + 999999999"

definition dur_saturating_mul :: "nat \<Rightarrow> nat \<Rightarrow> nat" where
  "dur_saturating_mul d k = min (d * k) DURATION_MAX"

definition u64_saturating_mul :: "u64 \<Rightarrow> u64 \<Rightarrow> u64" where
  "u64_saturating_mul a b = (if uint a * uint b < 2 ^ 64 then a * b else - 1)"

text \<open>\<^verbatim>\<open>u64::try_from(..).unwrap_or(u64::MAX)\<close>.\<close>

definition u64_or_max :: "nat \<Rightarrow> u64" where
  "u64_or_max n = (if n < 2 ^ 64 then of_nat n else - 1)"

record wal_gate_config =
  threshold_bytes :: u64
  tick_interval :: nat
  max_wait :: nat
  max_backoff :: nat
  max_escalated_wait :: nat

definition default_config :: wal_gate_config where
  "default_config =
     \<lparr>threshold_bytes = 64 * 1024 * 1024, tick_interval = 2 * 10 ^ 9, max_wait = 250 * 10 ^ 6,
      max_backoff = 60 * 10 ^ 9, max_escalated_wait = 2 * 10 ^ 9\<rparr>"

definition escalate_at :: "wal_gate_config \<Rightarrow> u64" where
  "escalate_at c = u64_saturating_mul (threshold_bytes c) ESCALATION_THRESHOLD_MULTIPLE"

definition escalation_enabled :: "wal_gate_config \<Rightarrow> bool" where
  "escalation_enabled c \<longleftrightarrow> max_wait c < max_escalated_wait c"

definition wait_at :: "wal_gate_config \<Rightarrow> u32 \<Rightarrow> nat" where
  "wait_at c l =
     (if \<not> escalation_enabled c then max_wait c
      else min (dur_saturating_mul (max_wait c) (2 ^ min (unat l) 31)) (max_escalated_wait c))"

section \<open>The schedule\<close>

datatype attempt_outcome = Truncated | Busy | TimedOut | SkippedJournalMode | Error

record schedule =
  sched_config :: wal_gate_config
  backoff :: nat
  not_before :: nat
  level :: u32
  timeouts :: u64
  was_escalating :: bool

record attempt_plan =
  plan_wait :: nat
  plan_escalating :: bool

definition schedule_new :: "wal_gate_config \<Rightarrow> nat \<Rightarrow> schedule" where
  "schedule_new c now =
     \<lparr>sched_config = c, backoff = 0, not_before = now, level = 0, timeouts = 0, was_escalating = False\<rparr>"

definition plan :: "schedule \<Rightarrow> u64 \<Rightarrow> nat \<Rightarrow> attempt_plan option \<times> schedule" where
  "plan s sz now =
     (if sz < threshold_bytes (sched_config s)
      then (None, s\<lparr>backoff := 0, not_before := now, level := 0, timeouts := 0, was_escalating := False\<rparr>)
      else
        let escalating = (escalation_enabled (sched_config s) \<and> escalate_at (sched_config s) \<le> sz);
            s1 = (if escalating then s else s\<lparr>level := 0\<rparr>);
            crossed = (escalating \<and> \<not> was_escalating s1);
            s2 = s1\<lparr>was_escalating := escalating\<rparr>
        in if now < not_before s2 \<and> \<not> crossed then (None, s2)
           else (Some \<lparr>plan_wait = wait_at (sched_config s2) (level s2), plan_escalating = escalating\<rparr>, s2))"

definition back_off :: "schedule \<Rightarrow> nat \<Rightarrow> schedule" where
  "back_off s now =
     (let b = min (dur_saturating_mul (if backoff s = 0 then tick_interval (sched_config s) else backoff s) 2)
                (max_backoff (sched_config s))
      in s\<lparr>backoff := b, not_before := now + b\<rparr>)"

definition record_outcome :: "schedule \<Rightarrow> attempt_plan \<Rightarrow> attempt_outcome \<Rightarrow> nat \<Rightarrow> schedule" where
  "record_outcome s p outcome now =
     (case outcome of
        Truncated \<Rightarrow> s\<lparr>backoff := 0, not_before := now, level := 0, timeouts := 0\<rparr>
      | TimedOut \<Rightarrow>
          (let s1 = s\<lparr>timeouts := timeouts s + 1\<rparr> in
           if plan_escalating p \<and> plan_wait p < max_escalated_wait (sched_config s)
           then s1\<lparr>level := level s1 + 1, not_before := now\<rparr>
           else back_off s1 now)
      | _ \<Rightarrow> back_off s now)"

section \<open>Counters and the gate\<close>

record gate_counters =
  attempts :: u64
  truncated :: u64
  busy :: u64
  timed_out :: u64
  skipped_journal_mode :: u64
  errors :: u64
  bytes_truncated :: u64
  frames_backfilled :: u64
  last_backfill_micros :: u64
  max_backfill_micros :: u64
  last_exclusive_micros :: u64
  max_exclusive_micros :: u64
  escalation_level :: u64
  consecutive_timeouts :: u64
  next_wait_micros :: u64

record gate =
  counters :: gate_counters
  journal_mode_warned :: bool

definition gate_new :: gate where
  "gate_new =
     \<lparr>counters = \<lparr>attempts = 0, truncated = 0, busy = 0, timed_out = 0, skipped_journal_mode = 0, errors = 0,
        bytes_truncated = 0, frames_backfilled = 0, last_backfill_micros = 0, max_backfill_micros = 0,
        last_exclusive_micros = 0, max_exclusive_micros = 0, escalation_level = 0,
        consecutive_timeouts = 0, next_wait_micros = 0\<rparr>,
      journal_mode_warned = False\<rparr>"

definition with_counters :: "(gate_counters \<Rightarrow> gate_counters) \<Rightarrow> gate \<Rightarrow> gate" where
  "with_counters f g = g\<lparr>counters := f (counters g)\<rparr>"

definition publish :: "schedule \<Rightarrow> gate \<Rightarrow> gate" where
  "publish s =
     with_counters (\<lambda>c. c\<lparr>escalation_level := ucast (level s), consecutive_timeouts := timeouts s,
       next_wait_micros := u64_or_max (wait_at (sched_config s) (level s) div 1000)\<rparr>)"

section \<open>The engine and the lock\<close>

text \<open>
  What the code calls: \<^verbatim>\<open>db.connect()\<close>; \<^verbatim>\<open>conn.query(..)\<close> with the first \<^verbatim>\<open>rows.next()\<close>; \<^verbatim>\<open>row.get_value(i)\<close>;
  the \<^verbatim>\<open>Debug\<close> text of a value; \<^verbatim>\<open>try_write_owned\<close>; \<^verbatim>\<open>timeout(wait, write_owned())\<close>; dropping the guard;
  \<^verbatim>\<open>Instant::now()\<close>; whether the factory's \<^verbatim>\<open>Weak\<close> handle still upgrades; the size of the log file;
  one tick of the \<^verbatim>\<open>select!\<close> between the sleep and the stop signal (\<^verbatim>\<open>True\<close> is the signal).
\<close>

datatype turso_value = TInteger int | TText string | TOther string

record ('w, 'r) engine_api =
  eng_connect :: "'w \<Rightarrow> (string + unit) \<times> 'w"
  eng_first_row :: "string \<Rightarrow> 'w \<Rightarrow> (string + 'r option) \<times> 'w"
  eng_value :: "'r \<Rightarrow> nat \<Rightarrow> string + turso_value"
  eng_debug :: "turso_value \<Rightarrow> string"
  rw_try_write :: "'w \<Rightarrow> bool \<times> 'w"
  rw_write_within :: "nat \<Rightarrow> 'w \<Rightarrow> bool \<times> 'w"
  rw_drop :: "'w \<Rightarrow> 'w"
  instant_now :: "'w \<Rightarrow> nat \<times> 'w"
  factory_alive :: "'w \<Rightarrow> bool"
  wal_len :: "'w \<Rightarrow> u64 option"
  sleep_or_stop :: "nat \<Rightarrow> 'w \<Rightarrow> bool \<times> 'w"

definition exclusive :: "('w, 'r) engine_api \<Rightarrow> nat \<Rightarrow> 'w \<Rightarrow> bool \<times> 'w" where
  "exclusive api wait w =
     (case rw_try_write api w of
        (True, w1) \<Rightarrow> (True, w1)
      | (False, w1) \<Rightarrow> rw_write_within api wait w1)"

definition int_or_zero :: "turso_value \<Rightarrow> int" where
  "int_or_zero v = (case v of TInteger i \<Rightarrow> i | _ \<Rightarrow> 0)"

record checkpoint_row =
  row_busy :: bool
  row_log :: int
  row_checkpointed :: int

definition checkpoint :: "('w, 'r) engine_api \<Rightarrow> string \<Rightarrow> 'w \<Rightarrow> (string + checkpoint_row) \<times> 'w" where
  "checkpoint api mode w =
     (case eng_first_row api (''PRAGMA wal_checkpoint('' @ mode @ '')'') w of
        (Inl e, w1) \<Rightarrow> (Inl e, w1)
      | (Inr None, w1) \<Rightarrow> (Inr \<lparr>row_busy = False, row_log = 0, row_checkpointed = 0\<rparr>, w1)
      | (Inr (Some row), w1) \<Rightarrow>
          (case (eng_value api row 0, eng_value api row 1, eng_value api row 2) of
             (Inl e, _, _) \<Rightarrow> (Inl e, w1)
           | (Inr b, Inl e, _) \<Rightarrow> (Inl e, w1)
           | (Inr b, Inr l, Inl e) \<Rightarrow> (Inl e, w1)
           | (Inr b, Inr l, Inr k) \<Rightarrow>
               (Inr \<lparr>row_busy = (b = TInteger 1), row_log = int_or_zero l, row_checkpointed = int_or_zero k\<rparr>, w1)))"

definition first_text :: "('w, 'r) engine_api \<Rightarrow> string \<Rightarrow> 'w \<Rightarrow> (string + string) \<times> 'w" where
  "first_text api sql w =
     (case eng_first_row api sql w of
        (Inl e, w1) \<Rightarrow> (Inl e, w1)
      | (Inr None, w1) \<Rightarrow> (Inr [], w1)
      | (Inr (Some row), w1) \<Rightarrow>
          (case eng_value api row 0 of
             Inl e \<Rightarrow> (Inl e, w1)
           | Inr (TText s) \<Rightarrow> (Inr s, w1)
           | Inr other \<Rightarrow> (Inr (eng_debug api other), w1)))"

definition journal_mode_is_wal :: "('w, 'r) engine_api \<Rightarrow> gate \<Rightarrow> 'w \<Rightarrow> (string + bool) \<times> gate \<times> 'w" where
  "journal_mode_is_wal api g w =
     (case first_text api ''PRAGMA journal_mode'' w of
        (Inl e, w1) \<Rightarrow> (Inl e, g, w1)
      | (Inr mode, w1) \<Rightarrow>
          if eq_ignore_ascii_case mode ''wal'' then (Inr True, g, w1)
          else (Inr False, g\<lparr>journal_mode_warned := True\<rparr>, w1))"

definition MAX_BACKFILL_ROUNDS :: nat where "MAX_BACKFILL_ROUNDS = 8"

text \<open>\<^verbatim>\<open>u64::try_from(i64).unwrap_or(0)\<close>.\<close>

definition u64_or_zero :: "int \<Rightarrow> u64" where
  "u64_or_zero i = (if 0 \<le> i then word_of_int i else 0)"

fun backfill_rounds ::
  "('w, 'r) engine_api \<Rightarrow> nat \<Rightarrow> u64 \<Rightarrow> int option \<Rightarrow> 'w \<Rightarrow> (string + u64) \<times> 'w" where
  "backfill_rounds api 0 sum0 last_checkpointed w = (Inr sum0, w)"
| "backfill_rounds api (Suc n) sum0 last_checkpointed w =
     (case checkpoint api ''PASSIVE'' w of
        (Inl e, w1) \<Rightarrow> (Inl e, w1)
      | (Inr row, w1) \<Rightarrow>
          if row_busy row then (Inr sum0, w1)
          else
            let progressed = (case last_checkpointed of None \<Rightarrow> True | Some prev \<Rightarrow> prev < row_checkpointed row);
                sum' = sum0 + u64_or_zero (case last_checkpointed of
                    None \<Rightarrow> row_checkpointed row | Some prev \<Rightarrow> row_checkpointed row - prev)
            in if \<not> progressed \<or> row_log row \<le> row_checkpointed row then (Inr sum', w1)
               else backfill_rounds api n sum' (Some (row_checkpointed row)) w1)"

definition passive_backfill :: "('w, 'r) engine_api \<Rightarrow> 'w \<Rightarrow> (string + u64) \<times> 'w" where
  "passive_backfill api = backfill_rounds api MAX_BACKFILL_ROUNDS 0 None"

section \<open>One attempt\<close>

definition attempt ::
  "('w, 'r) engine_api \<Rightarrow> gate \<Rightarrow> nat \<Rightarrow> u64 \<Rightarrow> 'w \<Rightarrow> attempt_outcome \<times> gate \<times> 'w" where
  "attempt api g0 wait size_before w0 =
     (let failed = with_counters (\<lambda>c. c\<lparr>errors := errors c + 1\<rparr>);
          g1 = with_counters (\<lambda>c. c\<lparr>attempts := attempts c + 1\<rparr>) g0
      in case eng_connect api w0 of
        (Inl e, w1) \<Rightarrow> (Error, failed g1, w1)
      | (Inr _, w1) \<Rightarrow>
     (case journal_mode_is_wal api g1 w1 of
        (Inl e, g2, w2) \<Rightarrow> (Error, failed g2, w2)
      | (Inr False, g2, w2) \<Rightarrow>
          (SkippedJournalMode, with_counters (\<lambda>c. c\<lparr>skipped_journal_mode := skipped_journal_mode c + 1\<rparr>) g2, w2)
      | (Inr True, g2, w2) \<Rightarrow>
     (case instant_now api w2 of (backfill_started, w3) \<Rightarrow>
      case passive_backfill api w3 of (frames, w4) \<Rightarrow>
      case instant_now api w4 of (backfill_ended, w5) \<Rightarrow>
      let backfill_micros = u64_or_max ((backfill_ended - backfill_started) div 1000);
          g3 = with_counters (\<lambda>c. c\<lparr>last_backfill_micros := backfill_micros,
                 max_backfill_micros := max (max_backfill_micros c) backfill_micros\<rparr>) g2
      in case frames of
        Inl e \<Rightarrow> (Error, failed g3, w5)
      | Inr n \<Rightarrow>
     (let g4 = with_counters (\<lambda>c. c\<lparr>frames_backfilled := frames_backfilled c + n\<rparr>) g3
      in case exclusive api wait w5 of
        (False, w6) \<Rightarrow> (TimedOut, with_counters (\<lambda>c. c\<lparr>timed_out := timed_out c + 1\<rparr>) g4, w6)
      | (True, w6) \<Rightarrow>
     (case instant_now api w6 of (started, w7) \<Rightarrow>
      case checkpoint api ''TRUNCATE'' w7 of (result, w8) \<Rightarrow>
      case instant_now api w8 of (ended, w9) \<Rightarrow>
      let w10 = rw_drop api w9;
          micros = u64_or_max ((ended - started) div 1000);
          g5 = with_counters (\<lambda>c. c\<lparr>last_exclusive_micros := micros,
                 max_exclusive_micros := max (max_exclusive_micros c) micros\<rparr>) g4
      in case result of
        Inl e \<Rightarrow> (Error, failed g5, w10)
      | Inr row \<Rightarrow>
          if row_busy row then (Busy, with_counters (\<lambda>c. c\<lparr>busy := busy c + 1\<rparr>) g5, w10)
          else (Truncated, with_counters (\<lambda>c. c\<lparr>truncated := truncated c + 1,
                 bytes_truncated := bytes_truncated c + size_before\<rparr>) g5, w10))))))"

section \<open>The maintenance loop\<close>

definition wal_size :: "('w, 'r) engine_api \<Rightarrow> 'w \<Rightarrow> u64 option" where
  "wal_size api w =
     (if \<not> factory_alive api w then None
      else Some (case wal_len api w of None \<Rightarrow> 0 | Some n \<Rightarrow> n))"

text \<open>
  The loop of \<^verbatim>\<open>run\<close>, with a bound on the number of ticks; the result lists the attempts it made (the
  size that led to them, the plan, the outcome) and says whether the task has ended.
\<close>

type_synonym tried = "u64 \<times> attempt_plan \<times> attempt_outcome"

fun run_ticks ::
  "('w, 'r) engine_api \<Rightarrow> nat \<Rightarrow> schedule \<Rightarrow> gate \<Rightarrow> 'w \<Rightarrow> tried list \<times> bool \<times> gate \<times> 'w" where
  "run_ticks api 0 s g w = ([], False, g, w)"
| "run_ticks api (Suc n) s g w =
     (case sleep_or_stop api (tick_interval (sched_config s)) w of
        (True, w1) \<Rightarrow> ([], True, g, w1)
      | (False, w1) \<Rightarrow>
     (case wal_size api w1 of
        None \<Rightarrow> ([], True, g, w1)
      | Some sz \<Rightarrow>
     (case instant_now api w1 of (now, w2) \<Rightarrow>
     (case plan s sz now of
        (None, s1) \<Rightarrow> run_ticks api n s1 (publish s1 g) w2
      | (Some p, s1) \<Rightarrow>
          if \<not> factory_alive api w2 then ([], True, g, w2)
          else
            (case attempt api g (plan_wait p) sz w2 of (outcome, g1, w3) \<Rightarrow>
             case instant_now api w3 of (now', w4) \<Rightarrow>
             let s2 = record_outcome s1 p outcome now'
             in (case run_ticks api n s2 (publish s2 g1) w4 of
                   (rest, ended, g2, w5) \<Rightarrow> ((sz, p, outcome) # rest, ended, g2, w5)))))))"

definition run_task :: "('w, 'r) engine_api \<Rightarrow> nat \<Rightarrow> wal_gate_config \<Rightarrow> gate \<Rightarrow> 'w \<Rightarrow> tried list \<times> bool \<times> gate \<times> 'w" where
  "run_task api n c g w =
     (case instant_now api w of (now, w1) \<Rightarrow>
      let s = schedule_new c now in run_ticks api n s (publish s g) w1)"

section \<open>Every attempt is counted once\<close>

definition outcomes :: "tried list \<Rightarrow> attempt_outcome list" where
  "outcomes ts = map (snd \<circ> snd) ts"

text \<open>The counters that classify attempts, as a tuple, and what a list of attempts adds to them.\<close>

definition tally :: "gate \<Rightarrow> u64 list" where
  "tally g = (let c = counters g in
     [attempts c, truncated c, busy c, timed_out c, skipped_journal_mode c, errors c, bytes_truncated c])"

definition tally_of :: "tried list \<Rightarrow> u64 list" where
  "tally_of ts =
     [of_nat (length ts), of_nat (count_list (outcomes ts) Truncated), of_nat (count_list (outcomes ts) Busy),
      of_nat (count_list (outcomes ts) TimedOut), of_nat (count_list (outcomes ts) SkippedJournalMode),
      of_nat (count_list (outcomes ts) Error),
      sum_list (map (\<lambda>(sz, p, out). if out = Truncated then sz else 0) ts)]"

definition add_tally :: "u64 list \<Rightarrow> u64 list \<Rightarrow> u64 list" where
  "add_tally = map2 (+)"

lemma tally_publish [simp]: "tally (publish s g) = tally g"
  by (simp add: tally_def publish_def with_counters_def Let_def)

lemma tally_of_simps [simp]:
  "add_tally (tally g) (tally_of []) = tally g"
  "add_tally (add_tally (tally g) (tally_of [t])) (tally_of ts) = add_tally (tally g) (tally_of (t # ts))"
  by (cases t, simp_all add: tally_of_def add_tally_def tally_def outcomes_def Let_def)

lemma journal_mode_counters: "journal_mode_is_wal api g w = (r, g', w') \<Longrightarrow> counters g' = counters g"
  by (auto simp: journal_mode_is_wal_def split: prod.splits sum.splits if_splits)

lemma attempt_tally:
  assumes "attempt api g wait sz w = (out, g', w')"
  shows "tally g' = add_tally (tally g) (tally_of [(sz, p, out)])"
proof -
  let ?c = "\<lambda>g. let c = counters g in
     [attempts c, truncated c, busy c, timed_out c, skipped_journal_mode c, errors c, bytes_truncated c]"
  have "?c g' = add_tally (?c g) (tally_of [(sz, p, out)])"
    using assms unfolding attempt_def
    by (auto simp: Let_def with_counters_def tally_of_def outcomes_def add_tally_def
        dest!: journal_mode_counters split: prod.splits sum.splits bool.splits if_splits)
  then show ?thesis by (simp add: tally_def)
qed

lemma run_ticks_Suc_cases:
  assumes "run_ticks api (Suc n) s g w = (ts, ended, g', w')"
  obtains (stopped) "ts = []" "ended" "g' = g"
  | (idle) sz now s1 w2 where "plan s sz now = (None, s1)"
      "run_ticks api n s1 (publish s1 g) w2 = (ts, ended, g', w')"
  | (tried) sz now s1 p w2 out g1 w3 now' s2 w4 rest where "plan s sz now = (Some p, s1)"
      "attempt api g (plan_wait p) sz w2 = (out, g1, w3)" "s2 = record_outcome s1 p out now'"
      "run_ticks api n s2 (publish s2 g1) w4 = (rest, ended, g', w')" "ts = (sz, p, out) # rest"
  using assms
  by (auto simp: Let_def split: prod.splits bool.splits option.splits if_splits)

lemma run_ticks_tally:
  "run_ticks api n s g w = (ts, ended, g', w') \<Longrightarrow> tally g' = add_tally (tally g) (tally_of ts)"
proof (induction n arbitrary: s g w ts)
  case (Suc n)
  from Suc.prems show ?case
  proof (cases rule: run_ticks_Suc_cases)
    case (tried sz now s1 p w2 out g1 w3 now' s2 w4 rest)
    from Suc.IH [OF tried(4)] attempt_tally [OF tried(2), of p] tried(5) show ?thesis by simp
  qed (auto dest: Suc.IH)
qed simp

section \<open>How long an attempt may wait\<close>

lemma wait_at_bounds:
  assumes "max_wait c \<le> DURATION_MAX"
  shows "max_wait c \<le> wait_at c l" and "wait_at c l \<le> max (max_wait c) (max_escalated_wait c)"
    and "wait_at c 0 = max_wait c"
proof -
  have "max_wait c \<le> max_wait c * 2 ^ min (unat l) 31" by simp
  with assms show "max_wait c \<le> wait_at c l"
    by (simp add: wait_at_def dur_saturating_mul_def escalation_enabled_def)
  show "wait_at c l \<le> max (max_wait c) (max_escalated_wait c)"
    by (simp add: wait_at_def le_max_iff_disj)
  from assms show "wait_at c 0 = max_wait c"
    by (simp add: wait_at_def dur_saturating_mul_def escalation_enabled_def)
qed

lemma schedule_config [simp]:
  "sched_config (record_outcome s p out now) = sched_config s"
  "sched_config (snd (plan s sz now)) = sched_config s"
  by (simp_all add: record_outcome_def back_off_def plan_def Let_def split: attempt_outcome.split)

definition plan_allowed :: "wal_gate_config \<Rightarrow> u64 \<Rightarrow> attempt_plan \<Rightarrow> bool" where
  "plan_allowed c sz p \<longleftrightarrow>
     threshold_bytes c \<le> sz \<and> max_wait c \<le> plan_wait p \<and> plan_wait p \<le> max (max_wait c) (max_escalated_wait c) \<and>
     (plan_wait p = max_wait c \<or> escalation_enabled c \<and> escalate_at c \<le> sz)"

lemma plan_is_allowed:
  assumes "plan s sz now = (Some p, s1)" and "max_wait (sched_config s) \<le> DURATION_MAX"
  shows "plan_allowed (sched_config s) sz p"
  using assms(1) wait_at_bounds [OF assms(2)] unfolding plan_allowed_def plan_def Let_def
  by (auto split: if_splits)

lemma run_ticks_allowed:
  "run_ticks api n s g w = (ts, ended, g', w') \<Longrightarrow> max_wait (sched_config s) \<le> DURATION_MAX \<Longrightarrow>
     list_all (\<lambda>(sz, p, out). plan_allowed (sched_config s) sz p) ts"
proof (induction n arbitrary: s g w ts)
  case (Suc n)
  from Suc.prems(1) show ?case
  proof (cases rule: run_ticks_Suc_cases)
    case (idle sz now s1 w2)
    then have "sched_config s1 = sched_config s" using schedule_config(2) [of s sz now] by simp
    with Suc.IH [OF idle(2)] Suc.prems(2) show ?thesis by simp
  next
    case (tried sz now s1 p w2 out g1 w3 now' s2 w4 rest)
    then have "sched_config s2 = sched_config s" using schedule_config(2) [of s sz now] by simp
    with Suc.IH [OF tried(4)] plan_is_allowed [OF tried(1)] Suc.prems(2) tried(5) show ?thesis by simp
  qed simp
qed simp

section \<open>Escalation\<close>

text \<open>The plans of a series of ticks at which every attempt made times out.\<close>

fun timed_out_plans :: "schedule \<Rightarrow> (u64 \<times> nat) list \<Rightarrow> attempt_plan option list" where
  "timed_out_plans s [] = []"
| "timed_out_plans s ((sz, now) # ticks) =
     (case plan s sz now of
        (None, s1) \<Rightarrow> None # timed_out_plans s1 ticks
      | (Some p, s1) \<Rightarrow> Some p # timed_out_plans (record_outcome s1 p TimedOut now) ticks)"

definition far_over :: "wal_gate_config \<Rightarrow> (u64 \<times> nat) list \<Rightarrow> bool" where
  "far_over c ticks \<longleftrightarrow> list_all (\<lambda>(sz, now). escalate_at c \<le> sz) ticks \<and> sorted (map snd ticks)"

lemma escalate_at_over: "threshold_bytes c \<le> escalate_at c"
proof -
  have "uint (threshold_bytes c) \<le> 4 * uint (threshold_bytes c)" by simp
  moreover have "uint (threshold_bytes c) < 18446744073709551616" using uint_lt2p [of "threshold_bytes c"] by simp
  ultimately show ?thesis
    by (auto simp: escalate_at_def u64_saturating_mul_def ESCALATION_THRESHOLD_MULTIPLE_def
        word_le_def uint_mult_lem uint_word_ariths mod_pos_pos_trivial)
qed

lemma plan_escalating:
  assumes "escalation_enabled (sched_config s)" and "escalate_at (sched_config s) \<le> sz"
    and "\<not> was_escalating s \<or> not_before s \<le> now"
  shows "plan s sz now =
    (Some \<lparr>plan_wait = wait_at (sched_config s) (level s), plan_escalating = True\<rparr>, s\<lparr>was_escalating := True\<rparr>)"
  using assms escalate_at_over [of "sched_config s"] by (auto simp: plan_def Let_def)

lemma timed_out_ladder:
  assumes "escalation_enabled c" and "max_escalated_wait c \<le> DURATION_MAX"
    and "\<And>i. Suc i < j + length ticks \<Longrightarrow> max_wait c * 2 ^ i < max_escalated_wait c"
    and "sched_config s = c" and "level s = of_nat j" and "j + length ticks \<le> 32" and "far_over c ticks"
    and "\<not> was_escalating s \<or> list_all (\<lambda>(sz, now). not_before s \<le> now) ticks"
  shows "timed_out_plans s ticks =
    map (\<lambda>i. Some \<lparr>plan_wait = min (max_wait c * 2 ^ i) (max_escalated_wait c), plan_escalating = True\<rparr>)
      [j..<j + length ticks]"
  using assms(3-)
proof (induction ticks arbitrary: s j)
  case (Cons tick ticks)
  obtain sz now where tick: "tick = (sz, now)" by force
  from Cons.prems have j: "j \<le> 31" by simp
  then have u: "unat (level s) = j" using Cons.prems(3) by (simp add: unat_of_nat take_bit_eq_mod)
  have over: "escalate_at c \<le> sz" and rest: "far_over c ticks" and nows: "list_all (\<lambda>(sz, t). now \<le> t) ticks"
    using Cons.prems(5) by (auto simp: far_over_def tick list_all_iff)
  let ?p = "\<lparr>plan_wait = wait_at c (level s), plan_escalating = True\<rparr>"
  have w: "wait_at c (level s) = min (max_wait c * 2 ^ j) (max_escalated_wait c)"
    using assms(1,2) j u by (simp add: wait_at_def dur_saturating_mul_def min_def)
  have p: "plan s sz now = (Some ?p, s\<lparr>was_escalating := True\<rparr>)"
    using plan_escalating [of s sz now] assms(1) over Cons.prems(2,6) by (auto simp: tick)
  show ?case
  proof (cases ticks)
    case Nil
    then show ?thesis using p w by (simp add: tick)
  next
    case (Cons t ts)
    then have lt: "wait_at c (level s) < max_escalated_wait c" using Cons.prems(1) [of j] w by simp
    let ?s = "record_outcome (s\<lparr>was_escalating := True\<rparr>) ?p TimedOut now"
    have s': "sched_config ?s = c" "level ?s = of_nat (Suc j)" "not_before ?s = now"
      using lt Cons.prems(2,3) by (simp_all add: record_outcome_def Let_def)
    have "timed_out_plans ?s ticks =
        map (\<lambda>i. Some \<lparr>plan_wait = min (max_wait c * 2 ^ i) (max_escalated_wait c), plan_escalating = True\<rparr>)
          [Suc j..<Suc j + length ticks]"
      using Cons.prems(1,4) s' rest nows by (intro Cons.IH) auto
    then show ?thesis using p w by (simp add: tick upt_rec)
  qed
qed simp

lemma zero_wait_never_escalates:
  assumes "escalation_enabled c" and "max_wait c = 0" and "sched_config s = c" and "far_over c ticks"
    and "\<not> was_escalating s \<or> list_all (\<lambda>(sz, now). not_before s \<le> now) ticks"
  shows "timed_out_plans s ticks = replicate (length ticks) (Some \<lparr>plan_wait = 0, plan_escalating = True\<rparr>)"
  using assms(3-)
proof (induction ticks arbitrary: s)
  case (Cons tick ticks)
  obtain sz now where tick: "tick = (sz, now)" by force
  have over: "escalate_at c \<le> sz" and rest: "far_over c ticks" and nows: "list_all (\<lambda>(sz, t). now \<le> t) ticks"
    using Cons.prems(2) by (auto simp: far_over_def tick list_all_iff)
  let ?p = "\<lparr>plan_wait = 0, plan_escalating = True\<rparr>"
  have "wait_at c (level s) = 0" using assms(1,2) by (simp add: wait_at_def dur_saturating_mul_def)
  then have p: "plan s sz now = (Some ?p, s\<lparr>was_escalating := True\<rparr>)"
    using plan_escalating [of s sz now] assms(1) over Cons.prems(1,3) by (auto simp: tick)
  let ?s = "record_outcome (s\<lparr>was_escalating := True\<rparr>) ?p TimedOut now"
  have "not_before ?s = now" "sched_config ?s = c"
    using assms(1) Cons.prems(1) by (auto simp: record_outcome_def Let_def escalation_enabled_def)
  then have "timed_out_plans ?s ticks = replicate (length ticks) (Some ?p)"
    using rest nows by (intro Cons.IH) auto
  with p show ?case by (simp add: tick)
qed simp

section \<open>The registry of gates\<close>

text \<open>
  \<^verbatim>\<open>GATES\<close> maps canonical paths to weak references. A gate is named by the number it was created
  with; \<open>strong\<close> is its number of live \<^verbatim>\<open>Arc\<close>s, so a weak reference upgrades iff it is positive.
  \<^verbatim>\<open>std::fs::canonicalize\<close> is the parameter \<open>canon\<close>.
\<close>

record gates =
  entries :: "(string, nat) mapping"
  strong :: "nat \<Rightarrow> nat"
  next_gate :: nat

definition gate_key :: "(string \<Rightarrow> string option) \<Rightarrow> string \<Rightarrow> string" where
  "gate_key canon path = (case canon path of Some p \<Rightarrow> p | None \<Rightarrow> path)"

definition gate_for :: "gates \<Rightarrow> string \<Rightarrow> nat \<times> gates" where
  "gate_for st key =
     (case Mapping.lookup (entries st) key of
        Some i \<Rightarrow>
          if 0 < strong st i then (i, st\<lparr>strong := (strong st)(i := strong st i + 1)\<rparr>)
          else (next_gate st, \<lparr>entries = Mapping.update key (next_gate st) (Mapping.filter (\<lambda>_ j. 0 < strong st j) (entries st)),
                 strong = (strong st)(next_gate st := 1), next_gate = next_gate st + 1\<rparr>)
      | None \<Rightarrow> (next_gate st, \<lparr>entries = Mapping.update key (next_gate st) (Mapping.filter (\<lambda>_ j. 0 < strong st j) (entries st)),
                 strong = (strong st)(next_gate st := 1), next_gate = next_gate st + 1\<rparr>))"

definition drop_gate :: "nat \<Rightarrow> gates \<Rightarrow> gates" where
  "drop_gate i st = st\<lparr>strong := (strong st)(i := strong st i - 1)\<rparr>"

text \<open>Factories open and close databases in any order; each holds the gate it was given.\<close>

datatype gate_op = OpenDb string | CloseDb nat

definition gate_op_step :: "(string \<Rightarrow> string option) \<Rightarrow> gate_op \<Rightarrow> gates \<times> (string \<times> nat) list \<Rightarrow> gates \<times> (string \<times> nat) list" where
  "gate_op_step canon op st =
     (case op of
        OpenDb path \<Rightarrow> (case gate_for (fst st) (gate_key canon path) of
            (i, st') \<Rightarrow> (st', (gate_key canon path, i) # snd st))
      | CloseDb k \<Rightarrow>
          if k < length (snd st) then (drop_gate (snd (snd st ! k)) (fst st), take k (snd st) @ drop (Suc k) (snd st))
          else st)"

definition no_gates :: "gates \<times> (string \<times> nat) list" where
  "no_gates = (\<lparr>entries = Mapping.empty, strong = (\<lambda>_. 0), next_gate = 0\<rparr>, [])"

definition gates_inv :: "gates \<times> (string \<times> nat) list \<Rightarrow> bool" where
  "gates_inv st \<longleftrightarrow>
     (\<forall>i. strong (fst st) i = count_list (map snd (snd st)) i) \<and>
     (\<forall>key i. (key, i) \<in> set (snd st) \<longrightarrow> Mapping.lookup (entries (fst st)) key = Some i) \<and>
     (\<forall>key i. Mapping.lookup (entries (fst st)) key = Some i \<longrightarrow> i < next_gate (fst st)) \<and>
     (\<forall>key key' i. Mapping.lookup (entries (fst st)) key = Some i \<longrightarrow> Mapping.lookup (entries (fst st)) key' = Some i \<longrightarrow> key = key')"

lemma lookup_filter_live:
  "Mapping.lookup (Mapping.filter (\<lambda>_ j. P j) m) k = (case Mapping.lookup m k of None \<Rightarrow> None | Some j \<Rightarrow> if P j then Some j else None)"
  by (simp add: lookup_filter)

lemma gates_inv_open:
  assumes "gates_inv (st, hs)" and g: "gate_for st key = (i, st')"
  shows "gates_inv (st', (key, i) # hs)"
proof -
  have held: "0 < strong st j" if "(k, j) \<in> set hs" for k j
    using assms(1) that by (force simp: gates_inv_def count_list_0_iff neq0_conv [symmetric])
  have bound: "j < next_gate st" if "(k, j) \<in> set hs" for k j
    using assms(1) that unfolding gates_inv_def fst_conv snd_conv by metis
  have fresh: "count_list (map snd hs) (next_gate st) = 0"
    using bound by (force simp: count_list_0_iff)
  consider (shared) "Mapping.lookup (entries st) key = Some i" "0 < strong st i"
      "st' = st\<lparr>strong := (strong st)(i := strong st i + 1)\<rparr>"
    | (made) "i = next_gate st" "Mapping.lookup (entries st) key = None \<or> (\<exists>j. Mapping.lookup (entries st) key = Some j \<and> strong st j = 0)"
      "st' = \<lparr>entries = Mapping.update key (next_gate st) (Mapping.filter (\<lambda>_ j. 0 < strong st j) (entries st)),
         strong = (strong st)(next_gate st := 1), next_gate = next_gate st + 1\<rparr>"
    using g by (auto simp: gate_for_def split: option.splits if_splits)
  then show ?thesis
  proof cases
    case shared
    with assms(1) show ?thesis by (auto simp: gates_inv_def)
  next
    case made
    have other: "k \<noteq> key" if "(k, j) \<in> set hs" for k j
      using made(2) held [OF that] assms(1) that by (force simp: gates_inv_def)
    have inv: "\<forall>i. strong st i = count_list (map snd hs) i"
      "\<forall>k j. (k, j) \<in> set hs \<longrightarrow> Mapping.lookup (entries st) k = Some j"
      "\<forall>k j. Mapping.lookup (entries st) k = Some j \<longrightarrow> j < next_gate st"
      "\<forall>k k' j. Mapping.lookup (entries st) k = Some j \<longrightarrow> Mapping.lookup (entries st) k' = Some j \<longrightarrow> k = k'"
      using assms(1) unfolding gates_inv_def fst_conv snd_conv by blast+
    have l: "Mapping.lookup (entries st') k = (if k = key then Some (next_gate st)
        else case Mapping.lookup (entries st) k of None \<Rightarrow> None | Some j \<Rightarrow> if 0 < strong st j then Some j else None)" for k
      using made(3) by (simp add: lookup_update' lookup_filter_live)
    have old: "Mapping.lookup (entries st) k = Some j \<and> j < next_gate st"
      if "Mapping.lookup (entries st') k = Some j" "k \<noteq> key" for k j
      using that inv(3) unfolding l by (auto split: option.splits if_splits)
    show ?thesis
      unfolding gates_inv_def fst_conv snd_conv
    proof (intro conjI allI impI)
      show "strong st' j = count_list (map snd ((key, i) # hs)) j" for j
        using made(1,3) inv(1) fresh by (cases "j = next_gate st") simp_all
      show "Mapping.lookup (entries st') k = Some j" if "(k, j) \<in> set ((key, i) # hs)" for k j
        using that made(1) inv(2) held [of k j] other [of k j] unfolding l by auto
      show "j < next_gate st'" if "Mapping.lookup (entries st') k = Some j" for k j
        using that old [OF that] made(3) by (cases "k = key") (auto simp: l)
      show "k = k'" if "Mapping.lookup (entries st') k = Some j" "Mapping.lookup (entries st') k' = Some j" for k k' j
        using that old [OF that(1)] old [OF that(2)] inv(4)
        by (cases "k = key"; cases "k' = key") (auto simp: l)
    qed
  qed
qed


lemma gates_inv_close:
  assumes "gates_inv (st, hs)" and "k < length hs"
  shows "gates_inv (drop_gate (snd (hs ! k)) st, take k hs @ drop (Suc k) hs)"
proof -
  have hs: "hs = take k hs @ hs ! k # drop (Suc k) hs" by (simp add: assms(2) id_take_nth_drop)
  have "count_list (map snd hs) j =
      count_list (map snd (take k hs @ drop (Suc k) hs)) j + (if snd (hs ! k) = j then 1 else 0)" for j
    by (subst hs) (simp add: count_list_append)
  moreover have "set (take k hs @ drop (Suc k) hs) \<subseteq> set hs"
    using set_take_subset [of k hs] set_drop_subset [of "Suc k" hs] by auto
  ultimately show ?thesis using assms(1) by (auto simp: gates_inv_def drop_gate_def)
qed

lemma gates_inv_step: "gates_inv st \<Longrightarrow> gates_inv (gate_op_step canon op st)"
  by (cases st; cases op)
    (auto simp: gate_op_step_def intro: gates_inv_open gates_inv_close split: prod.split)

lemma gates_inv_run: "gates_inv st \<Longrightarrow> gates_inv (fold (gate_op_step canon) ops st)"
  by (induction ops arbitrary: st) (simp_all add: gates_inv_step)

lemma gates_inv_init: "gates_inv no_gates"
  by (simp add: gates_inv_def no_gates_def)

section \<open>Properties\<close>

text \<open>
  Fact (every attempt is counted exactly once). However many ticks the maintenance task has
  run, and whatever the engine, the lock and the clock answered, the counters of a gate that started
  at zero agree with what happened: \<^verbatim>\<open>attempts\<close> is the number of attempts, each of the five outcome
  counters the number of attempts with that outcome, and \<^verbatim>\<open>bytes_truncated\<close> the sum of the log sizes
  of the truncating ones, all modulo \<open>2 ^ 64\<close>.
\<close>

theorem attempts_accounted:
  "case run_task api n c gate_new w of (ts, ended, g, w') \<Rightarrow> tally g = tally_of ts"
proof -
  obtain now w1 where now: "instant_now api w = (now, w1)" by force
  obtain ts ended g w' where r: "run_task api n c gate_new w = (ts, ended, g, w')" by (metis prod_cases4)
  from r now have "tally g = add_tally (tally (publish (schedule_new c now) gate_new)) (tally_of ts)"
    by (intro run_ticks_tally) (auto simp: run_task_def Let_def)
  moreover have "tally gate_new = [0, 0, 0, 0, 0, 0, 0]" by (simp add: tally_def gate_new_def)
  ultimately show ?thesis using r by (simp add: add_tally_def tally_of_def)
qed

text \<open>
  Property C27 (stalls are bounded). Every attempt the task makes is at a log size of at least the
  threshold, and lets statements queue for at least \<^verbatim>\<open>max_wait\<close> and at most the larger of \<^verbatim>\<open>max_wait\<close> and
  \<^verbatim>\<open>max_escalated_wait\<close>; it differs from \<^verbatim>\<open>max_wait\<close> only with escalation enabled and the log at
  least four times over the threshold.
\<close>

theorem stalls_bounded:
  assumes "max_wait c \<le> DURATION_MAX"
  shows "case run_task api n c g w of (ts, ended, g', w') \<Rightarrow>
    list_all (\<lambda>(sz, p, out).
      threshold_bytes c \<le> sz \<and> max_wait c \<le> plan_wait p \<and> plan_wait p \<le> max (max_wait c) (max_escalated_wait c) \<and>
      (plan_wait p = max_wait c \<or> escalation_enabled c \<and> escalate_at c \<le> sz)) ts"
proof -
  obtain now w1 where now: "instant_now api w = (now, w1)" by force
  obtain ts ended g' w' where r: "run_task api n c g w = (ts, ended, g', w')" by (metis prod_cases4)
  from r now have "run_ticks api n (schedule_new c now) (publish (schedule_new c now) g) w1 = (ts, ended, g', w')"
    by (simp add: run_task_def Let_def)
  from run_ticks_allowed [OF this] assms r show ?thesis
    by (simp add: schedule_new_def plan_allowed_def)
qed

definition idle_engine :: "(nat, unit) engine_api" where
  "idle_engine =
     \<lparr>eng_connect = (\<lambda>w. (Inr (), w)), eng_first_row = (\<lambda>sql w. (Inr None, w)),
      eng_value = (\<lambda>r i. Inl []), eng_debug = (\<lambda>v. []),
      rw_try_write = (\<lambda>w. (False, w)), rw_write_within = (\<lambda>d w. (False, w + d)), rw_drop = (\<lambda>w. w),
      instant_now = (\<lambda>w. (w, w)), factory_alive = (\<lambda>w. True), wal_len = (\<lambda>w. Some 9),
      sleep_or_stop = (\<lambda>d w. (False, w + d))\<rparr>"

definition small_config :: wal_gate_config where
  "small_config =
     \<lparr>threshold_bytes = 2, tick_interval = 3, max_wait = 1, max_backoff = 9, max_escalated_wait = 4\<rparr>"

theorem stalls_bounded_witness:
  "max_wait small_config \<le> DURATION_MAX \<and>
   (case run_task idle_engine (Suc (Suc 0)) small_config gate_new 0 of (ts, ended, g, w) \<Rightarrow>
      ts = [(9, \<lparr>plan_wait = 1, plan_escalating = True\<rparr>, SkippedJournalMode)] \<and>
      list_all (\<lambda>(sz, p, out). 2 \<le> sz \<and> 1 \<le> plan_wait p \<and> plan_wait p \<le> 4) ts)"
proof -
  have b: "max_wait small_config \<le> DURATION_MAX" by (simp add: small_config_def DURATION_MAX_def)
  have e: "case run_task idle_engine (Suc (Suc 0)) small_config gate_new 0 of (ts, ended, g, w) \<Rightarrow>
      ts = [(9, \<lparr>plan_wait = 1, plan_escalating = True\<rparr>, SkippedJournalMode)]"
    by (simp add: run_task_def idle_engine_def small_config_def schedule_new_def wal_size_def
        plan_def escalation_enabled_def escalate_at_def u64_saturating_mul_def ESCALATION_THRESHOLD_MULTIPLE_def
        attempt_def journal_mode_is_wal_def first_text_def eq_ignore_ascii_case_def to_ascii_lowercase_def
        record_outcome_def back_off_def dur_saturating_mul_def wait_at_def DURATION_MAX_def Let_def)
  from stalls_bounded [OF b, of idle_engine "Suc (Suc 0)" gate_new 0] b e show ?thesis
    by (auto simp: small_config_def split: prod.splits)
qed



text \<open>
  Fact (one gate per file). In whatever order databases are opened and closed, factories that
  are open on paths with the same canonical form hold the same gate, and factories on different
  files hold different ones.
\<close>

theorem one_gate_per_file:
  "case fold (gate_op_step canon) ops no_gates of (st, hs) \<Rightarrow>
     list_all (\<lambda>(key, i). list_all (\<lambda>(key', i'). key = key' \<longleftrightarrow> i = i') hs) hs"
proof -
  obtain st hs where f: "fold (gate_op_step canon) ops no_gates = (st, hs)" by force
  have "gates_inv (st, hs)" using gates_inv_run [OF gates_inv_init, of canon ops] f by simp
  then have "key = key' \<longleftrightarrow> i = i'" if "(key, i) \<in> set hs" "(key', i') \<in> set hs" for key i key' i'
    using that unfolding gates_inv_def fst_conv snd_conv by (metis option.inject)
  with f show ?thesis by (auto simp: list_all_iff)
qed

end
