(* ===== verification/Error_Map.thy ===== *)
theory Error_Map
  imports Rust_Str
begin

text \<open>
  Classification of backend error texts: to MySQL errors
  (\<^verbatim>\<open>src/crates/litewire-session/src/error_map.rs\<close>, with the conversion of its codes to the kinds the
  wire library knows, \<^verbatim>\<open>src/crates/litewire-mysql/src/error_map.rs\<close>) and to PostgreSQL SQLSTATEs
  (\<^verbatim>\<open>src/crates/litewire-postgres/src/error_map.rs\<close>). The wire library's \<^verbatim>\<open>ErrorKind\<close> is represented
  by the kinds the code names, each with its number.
\<close>

section \<open>MySQL errors\<close>

definition ER_DUP_ENTRY :: u16 where "ER_DUP_ENTRY = 1062"
definition ER_UNKNOWN_ERROR :: u16 where "ER_UNKNOWN_ERROR = 1105"
definition ER_NO_SUCH_TABLE :: u16 where "ER_NO_SUCH_TABLE = 1146"
definition ER_LOCK_WAIT_TIMEOUT :: u16 where "ER_LOCK_WAIT_TIMEOUT = 1205"
definition ER_OPTION_PREVENTS_STATEMENT :: u16 where "ER_OPTION_PREVENTS_STATEMENT = 1290"
definition ER_NO_REFERENCED_ROW_2 :: u16 where "ER_NO_REFERENCED_ROW_2 = 1452"
definition ER_WRONG_ARGUMENTS :: u16 where "ER_WRONG_ARGUMENTS = 1210"
definition ER_USER_LOCK_WRONG_NAME :: u16 where "ER_USER_LOCK_WRONG_NAME = 3057"
definition ER_USER_LOCK_OVERLONG_NAME :: u16 where "ER_USER_LOCK_OVERLONG_NAME = 3938"
definition ER_PARSE_ERROR :: u16 where "ER_PARSE_ERROR = 1064"

lemmas er_codes =
  ER_DUP_ENTRY_def ER_UNKNOWN_ERROR_def ER_NO_SUCH_TABLE_def ER_LOCK_WAIT_TIMEOUT_def
  ER_OPTION_PREVENTS_STATEMENT_def ER_NO_REFERENCED_ROW_2_def ER_WRONG_ARGUMENTS_def
  ER_USER_LOCK_WRONG_NAME_def ER_USER_LOCK_OVERLONG_NAME_def ER_PARSE_ERROR_def

record mapped_error =
  err_code :: u16
  err_sqlstate :: string
  err_message :: string

definition UNKNOWN_VALUE :: string where "UNKNOWN_VALUE = ''<unknown>''"

definition apostrophe :: string where "apostrophe = [CHR 0x27]"

text \<open>The position of the last occurrence (\<^verbatim>\<open>str::rfind\<close>).\<close>

fun rfind_str :: "string \<Rightarrow> string \<Rightarrow> nat option" where
  "rfind_str [] p = (if p = [] then Some 0 else None)"
| "rfind_str (c # s) p =
     (case rfind_str s p of
        Some i \<Rightarrow> Some (Suc i)
      | None \<Rightarrow> if starts_with (c # s) p then Some 0 else None)"

definition dup_marker :: string where "dup_marker = ''constraint failed: ''"

definition duplicate_entry_message :: "string \<Rightarrow> string" where
  "duplicate_entry_message msg =
     (case rfind_str (to_ascii_lowercase msg) dup_marker of
        None \<Rightarrow> msg
      | Some at \<Rightarrow>
          let key = trim (drop (at + length dup_marker) msg)
          in if key = [] then msg
             else ''Duplicate entry '' @ apostrophe @ UNKNOWN_VALUE @ apostrophe @ '' for key '' @
                  apostrophe @ key @ apostrophe @ '' ('' @ msg @ '')'')"

definition classify_error :: "string \<Rightarrow> mapped_error" where
  "classify_error msg =
     (let lower = to_ascii_lowercase msg;
          has = contains_str lower
      in if has ''database is locked'' \<or> has ''database table is locked'' \<or> has ''sqlite_busy'' \<or> has ''sqlite_locked''
         then \<lparr>err_code = ER_LOCK_WAIT_TIMEOUT, err_sqlstate = ''HY000'', err_message = msg\<rparr>
         else if has ''no such table''
         then \<lparr>err_code = ER_NO_SUCH_TABLE, err_sqlstate = ''42S02'', err_message = msg\<rparr>
         else if has ''unique constraint failed'' \<or> has ''primary key constraint failed''
         then \<lparr>err_code = ER_DUP_ENTRY, err_sqlstate = ''23000'', err_message = duplicate_entry_message msg\<rparr>
         else if has ''foreign key constraint failed''
         then \<lparr>err_code = ER_NO_REFERENCED_ROW_2, err_sqlstate = ''23000'', err_message = msg\<rparr>
         else if has ''attempt to write a readonly database'' \<or> has ''readonly database'' \<or> has ''sqlite_readonly''
         then \<lparr>err_code = ER_OPTION_PREVENTS_STATEMENT, err_sqlstate = ''HY000'', err_message = msg\<rparr>
         else \<lparr>err_code = ER_UNKNOWN_ERROR, err_sqlstate = ''HY000'', err_message = msg\<rparr>)"

section \<open>The kinds of the wire library\<close>

datatype error_kind =
    KindDupEntry | KindNoSuchTable | KindLockWaitTimeout | KindOptionPreventsStatement
  | KindNoReferencedRow2 | KindWrongArguments | KindParseError | KindUnknownError

fun kind_number :: "error_kind \<Rightarrow> u16" where
  "kind_number KindDupEntry = 1062"
| "kind_number KindNoSuchTable = 1146"
| "kind_number KindLockWaitTimeout = 1205"
| "kind_number KindOptionPreventsStatement = 1290"
| "kind_number KindNoReferencedRow2 = 1452"
| "kind_number KindWrongArguments = 1210"
| "kind_number KindParseError = 1064"
| "kind_number KindUnknownError = 1105"

definition wire_kind :: "u16 \<Rightarrow> error_kind" where
  "wire_kind code =
     (if code = ER_DUP_ENTRY then KindDupEntry
      else if code = ER_NO_SUCH_TABLE then KindNoSuchTable
      else if code = ER_LOCK_WAIT_TIMEOUT then KindLockWaitTimeout
      else if code = ER_OPTION_PREVENTS_STATEMENT then KindOptionPreventsStatement
      else if code = ER_NO_REFERENCED_ROW_2 then KindNoReferencedRow2
      else if code = ER_WRONG_ARGUMENTS \<or> code = ER_USER_LOCK_WRONG_NAME \<or> code = ER_USER_LOCK_OVERLONG_NAME
      then KindWrongArguments
      else if code = ER_PARSE_ERROR then KindParseError
      else KindUnknownError)"

section \<open>PostgreSQL errors\<close>

record pg_error =
  pg_sqlstate :: string
  pg_message :: string

definition pg_classify :: "string \<Rightarrow> pg_error" where
  "pg_classify msg =
     (let lower = to_ascii_lowercase msg;
          has = contains_str lower;
          mk = (\<lambda>st. \<lparr>pg_sqlstate = st, pg_message = msg\<rparr>)
      in if has ''unique constraint failed'' \<or> has ''primary key constraint failed'' then mk ''23505''
         else if has ''foreign key constraint failed'' then mk ''23503''
         else if has ''not null constraint failed'' then mk ''23502''
         else if has ''check constraint failed'' then mk ''23514''
         else if has ''database is locked'' \<or> has ''database table is locked'' \<or> has ''sqlite_busy'' \<or> has ''sqlite_locked''
         then mk ''55P03''
         else if has ''attempt to write a readonly database'' \<or> has ''readonly database'' \<or> has ''sqlite_readonly''
         then mk ''25006''
         else mk ''XX000'')"

section \<open>The last occurrence\<close>

lemma rfind_str_None: "rfind_str s p = None \<longleftrightarrow> \<not> contains_str s p"
proof (induction s)
  case (Cons c s)
  then show ?case by (auto simp: contains_str_def split: option.splits)
qed (simp add: contains_str_def)

lemma contains_str_middle: "contains_str (a @ s @ b) s"
  by (auto simp: contains_str_iff sublist_def)

lemma duplicate_entry_keeps: "contains_str (duplicate_entry_message msg) msg"
proof -
  have self: "contains_str msg msg" using contains_str_middle [of "[]" msg "[]"] by simp
  have shape: "contains_str (''Duplicate entry '' @ q @ v @ q @ '' for key '' @ q @ k @ q @ '' ('' @ msg @ '')'') msg" for q v k
    using contains_str_middle [of "''Duplicate entry '' @ q @ v @ q @ '' for key '' @ q @ k @ q @ '' (''" msg "'')''"] by simp
  show ?thesis
    using self shape by (simp add: duplicate_entry_message_def Let_def split: option.split)
qed

section \<open>Properties\<close>

text \<open>
  Fact (error classification). Every backend error is reported with one of six code and
  SQLSTATE pairs, each the one MySQL documents for the code; the backend's own text is always part of
  the message and is the whole message unless the error is a duplicate entry; and the wire kind of
  the code has the same number, so the wire library never sees a code it does not know.
\<close>

theorem classification_faithful:
  "(err_code (classify_error msg), err_sqlstate (classify_error msg)) \<in>
     {(1205, ''HY000''), (1146, ''42S02''), (1062, ''23000''), (1452, ''23000''), (1290, ''HY000''), (1105, ''HY000'')} \<and>
   contains_str (err_message (classify_error msg)) msg \<and>
   (err_code (classify_error msg) = ER_DUP_ENTRY \<or> err_message (classify_error msg) = msg) \<and>
   kind_number (wire_kind (err_code (classify_error msg))) = err_code (classify_error msg)"
proof -
  have self: "contains_str msg msg" using contains_str_middle [of "[]" msg "[]"] by simp
  have out: "classify_error msg \<in>
      {\<lparr>err_code = ER_LOCK_WAIT_TIMEOUT, err_sqlstate = ''HY000'', err_message = msg\<rparr>,
       \<lparr>err_code = ER_NO_SUCH_TABLE, err_sqlstate = ''42S02'', err_message = msg\<rparr>,
       \<lparr>err_code = ER_DUP_ENTRY, err_sqlstate = ''23000'', err_message = duplicate_entry_message msg\<rparr>,
       \<lparr>err_code = ER_NO_REFERENCED_ROW_2, err_sqlstate = ''23000'', err_message = msg\<rparr>,
       \<lparr>err_code = ER_OPTION_PREVENTS_STATEMENT, err_sqlstate = ''HY000'', err_message = msg\<rparr>,
       \<lparr>err_code = ER_UNKNOWN_ERROR, err_sqlstate = ''HY000'', err_message = msg\<rparr>}"
    by (simp add: classify_error_def Let_def)
  show ?thesis
    using out self duplicate_entry_keeps [of msg]
    by (elim insertE) (simp_all add: wire_kind_def er_codes)
qed

text \<open>
  Property C61 (duplicate entries name their key). A unique-constraint message of any backend wrapping
  and any letter case becomes MySQL's \<^verbatim>\<open>Duplicate entry\<close> message whose key is the trimmed text after the last
  \<^verbatim>\<open>constraint failed: \<close>.
\<close>

theorem duplicate_entry_names_key:
  assumes "to_ascii_lowercase marker = dup_marker" and "\<not> contains_str (tl dup_marker @ to_ascii_lowercase cols) dup_marker"
    and "trim cols \<noteq> []"
  shows "duplicate_entry_message (before @ marker @ cols) =
    ''Duplicate entry '' @ apostrophe @ ''<unknown>'' @ apostrophe @ '' for key '' @ apostrophe @ trim cols @ apostrophe @
    '' ('' @ before @ marker @ cols @ '')''"
proof -
  have len: "length marker = length dup_marker"
    using assms(1) by (metis length_map to_ascii_lowercase_def)
  let ?low = "to_ascii_lowercase cols"
  have ne: "dup_marker \<noteq> []" by (simp add: dup_marker_def)
  have here: "rfind_str (dup_marker @ ?low) dup_marker = Some 0"
  proof -
    have none: "rfind_str (tl dup_marker @ ?low) dup_marker = None" using assms(2) by (simp only: rfind_str_None simp_thms)
    have start: "starts_with (hd dup_marker # tl dup_marker @ ?low) dup_marker" by (simp add: starts_with_def dup_marker_def)
    have "dup_marker @ ?low = hd dup_marker # tl dup_marker @ ?low" by (metis append_Cons list.collapse ne)
    then show ?thesis by (simp only: rfind_str.simps none option.case start if_True)
  qed
  have shift: "rfind_str (a @ dup_marker @ ?low) dup_marker = Some (length a)" for a
    by (induction a) (simp_all add: here)
  have "to_ascii_lowercase (before @ marker @ cols) = to_ascii_lowercase before @ dup_marker @ ?low"
    using assms(1) by (simp add: to_ascii_lowercase_def)
  with shift [of "to_ascii_lowercase before"]
  have "rfind_str (to_ascii_lowercase (before @ marker @ cols)) dup_marker = Some (length before)"
    by (simp add: to_ascii_lowercase_def)
  with len assms(3) show ?thesis
    by (simp add: duplicate_entry_message_def Let_def UNKNOWN_VALUE_def)
qed

theorem duplicate_entry_names_key_witness:
  "duplicate_entry_message ''SQLite error: UNIQUE constraint failed: users.email'' =
    ''Duplicate entry '' @ apostrophe @ ''<unknown>'' @ apostrophe @ '' for key '' @ apostrophe @ ''users.email'' @ apostrophe @
    '' (SQLite error: UNIQUE constraint failed: users.email)''"
proof -
  have "to_ascii_lowercase ''constraint failed: '' = dup_marker"
    "\<not> contains_str (tl dup_marker @ to_ascii_lowercase ''users.email'') dup_marker" by code_simp+
  moreover have t: "trim ''users.email'' = ''users.email''" by code_simp
  ultimately show ?thesis
    using duplicate_entry_names_key [of "''constraint failed: ''" "''users.email''" "''SQLite error: UNIQUE ''"] by simp
qed

end
