(* ===== verification/Native_Password.thy ===== *)
theory Native_Password
  imports LW_Prelude
begin

unbundle bit_operations_syntax

text \<open>
  Verification of \<^verbatim>\<open>mysql_native_password\<close> responses
  (\<^verbatim>\<open>src/crates/litewire-mysql/src/native_password.rs\<close>). The SHA-1 function of the \<^verbatim>\<open>sha1\<close> crate is the
  parameter \<open>sha1\<close>; what the code relies on, that a digest has 20 bytes, is the hypothesis
  \<open>digest_length\<close> of the properties that need it.
\<close>

definition SHA1_LEN :: nat where "SHA1_LEN = 20"

definition digest_length :: "(bytes \<Rightarrow> bytes) \<Rightarrow> bool" where
  "digest_length sha1 \<longleftrightarrow> (\<forall>m. length (sha1 m) = SHA1_LEN)"

definition password_hash :: "(bytes \<Rightarrow> bytes) \<Rightarrow> bytes \<Rightarrow> bytes" where
  "password_hash sha1 password = (let stage1 = sha1 password in sha1 stage1)"

definition constant_time_eq :: "bytes \<Rightarrow> bytes \<Rightarrow> bool" where
  "constant_time_eq a b \<longleftrightarrow> fold (\<lambda>i diff. diff OR (a ! i XOR b ! i)) [0..<SHA1_LEN] 0 = 0"

definition verify :: "(bytes \<Rightarrow> bytes) \<Rightarrow> bytes \<Rightarrow> bytes \<Rightarrow> bytes \<Rightarrow> bool" where
  "verify sha1 stored_hash salt auth_response =
     (if length auth_response \<noteq> SHA1_LEN then False
      else
        let mask = sha1 (salt @ stored_hash);
            stage1 = map (\<lambda>i. auth_response ! i XOR mask ! i) [0..<SHA1_LEN];
            candidate = sha1 stage1
        in constant_time_eq candidate stored_hash)"

text \<open>What a client that knows the password sends, as the protocol defines it.\<close>

definition client_response :: "(bytes \<Rightarrow> bytes) \<Rightarrow> bytes \<Rightarrow> bytes \<Rightarrow> bytes" where
  "client_response sha1 password salt =
     map2 (\<lambda>s k. s XOR k) (sha1 password) (sha1 (salt @ sha1 (sha1 password)))"

section \<open>The comparison without early exit\<close>

lemma or_zero: "(a :: u8) OR b = 0 \<longleftrightarrow> a = 0 \<and> b = 0"
  by (auto simp: bit_eq_iff bit_simps)

lemma xor_zero: "(a :: u8) XOR b = 0 \<longleftrightarrow> a = b"
  by (auto simp: bit_eq_iff bit_simps)

lemma fold_diff: "fold (\<lambda>i diff. diff OR (a ! i XOR b ! i)) is (d :: u8) = 0 \<longleftrightarrow> d = 0 \<and> (\<forall>i \<in> set is. a ! i = b ! i)"
  by (induction "is" arbitrary: d) (auto simp: or_zero xor_zero)

lemma constant_time_eq_iff:
  assumes "length a = SHA1_LEN" and "length b = SHA1_LEN"
  shows "constant_time_eq a b \<longleftrightarrow> a = b"
  using assms by (auto simp: constant_time_eq_def fold_diff intro: nth_equalityI)

lemma xor_cancel: "((s :: u8) XOR k) XOR k = s"
  by (simp add: bit_eq_iff bit_simps) blast

lemma unmask_client_response:
  assumes "digest_length sha1"
  shows "map (\<lambda>i. client_response sha1 password salt ! i XOR sha1 (salt @ sha1 (sha1 password)) ! i) [0..<SHA1_LEN]
    = sha1 password"
  using assms by (intro nth_equalityI) (auto simp: client_response_def digest_length_def xor_cancel)

section \<open>Properties\<close>

text \<open>
  Fact (password verification). A client that knows the password is accepted whatever the
  challenge; and any accepted response has 20 bytes and, unmasked, is a SHA-1 preimage of the
  stored hash, so no response is accepted without knowing one: an empty or short response never is.
\<close>

theorem password_verification:
  assumes "digest_length sha1" and "length stored = SHA1_LEN"
  shows "verify sha1 (password_hash sha1 password) salt (client_response sha1 password salt) \<and>
    (verify sha1 stored salt response \<longleftrightarrow>
       length response = 20 \<and> sha1 (map2 (\<lambda>r k. r XOR k) response (sha1 (salt @ stored))) = stored)"
proof
  have len: "length (client_response sha1 password salt) = SHA1_LEN"
    using assms(1) by (simp add: client_response_def digest_length_def)
  show "verify sha1 (password_hash sha1 password) salt (client_response sha1 password salt)"
    using assms(1) len unmask_client_response [OF assms(1), of password salt]
    by (simp add: verify_def password_hash_def Let_def constant_time_eq_iff digest_length_def)
  have unmask: "map (\<lambda>i. response ! i XOR sha1 (salt @ stored) ! i) [0..<SHA1_LEN] =
      map2 (\<lambda>r k. r XOR k) response (sha1 (salt @ stored))" if "length response = SHA1_LEN"
    using that assms(1) by (intro nth_equalityI) (auto simp: digest_length_def)
  show "verify sha1 stored salt response \<longleftrightarrow>
       length response = 20 \<and> sha1 (map2 (\<lambda>r k. r XOR k) response (sha1 (salt @ stored))) = stored"
    using assms unmask
    by (auto simp: verify_def Let_def constant_time_eq_iff digest_length_def SHA1_LEN_def)
qed

definition rotating_digest :: "bytes \<Rightarrow> bytes" where
  "rotating_digest m = map (\<lambda>i. of_nat i + sum_list m) [0..<SHA1_LEN]"

theorem password_verification_witness:
  "digest_length rotating_digest \<and>
   verify rotating_digest (password_hash rotating_digest [1, 2]) [9] (client_response rotating_digest [1, 2] [9]) \<and>
   \<not> verify rotating_digest (password_hash rotating_digest [1, 2]) [9] []"
proof -
  have d: "digest_length rotating_digest" by (simp add: digest_length_def rotating_digest_def)
  have l: "length (password_hash rotating_digest [1, 2]) = SHA1_LEN"
    using d by (simp add: password_hash_def digest_length_def)
  from password_verification [OF d l, of "[1, 2]" "[9]" "[]"] d show ?thesis by simp
qed

end
