(* ===== verification/Lock_Calls.thy ===== *)
theory Lock_Calls
  imports Sql_Text Wire_Bytes
begin

text \<open>
  Detection and rewriting of named-lock calls
  (\<^verbatim>\<open>src/crates/litewire-translate/src/user_locks.rs\<close>): the calls are taken out of the parsed statement,
  each leaving a sentinel, and their values are put back before the statement is emitted.

  The syntax tree and its parser are sqlparser's, not part of the sources. The tree is represented by
  what the code distinguishes: literals, functions with their arguments, unary minus, parentheses, and
  any other expression with its sub-expressions in visiting order. \<open>parse\<close>, the text of an expression
  and the rewriting and emission of a statement are arguments of the functions that use them.
\<close>

section \<open>The syntax tree\<close>

datatype sql_value =
    SqlNull | SingleQuoted string | DoubleQuoted string | National string | Number string
  | Placeholder string | OtherValue string

datatype sql_expr =
    ExValue sql_value
  | ExFunction string bool "fun_arg list" "sql_expr list"
  | ExMinus sql_expr
  | ExNested sql_expr
  | ExOther string "sql_expr list"
and fun_arg = PlainArg sql_expr | OtherArg "sql_expr list"

text \<open>
  \<open>ExFunction name subquery args clauses\<close>: \<open>subquery\<close> says that the arguments are a subquery (its
  expressions are then in one \<open>OtherArg\<close>); \<open>clauses\<close> are the expressions of the other clauses a call may
  carry. A statement is the expressions visited before the projection, the projection, and the rest.
\<close>

datatype select_item = UnnamedItem sql_expr | AliasedItem sql_expr string | OtherItem "sql_expr list"

record sql_stmt =
  stmt_before :: "sql_expr list"
  stmt_items :: "select_item list"
  stmt_after :: "sql_expr list"

section \<open>Lock functions\<close>

datatype lock_function = GetLock | ReleaseLock | ReleaseAllLocks | IsFreeLock | IsUsedLock

definition lock_function_from_name :: "string \<Rightarrow> lock_function option" where
  "lock_function_from_name name =
     (let u = to_ascii_uppercase name in
      if u = ''GET_LOCK'' then Some GetLock
      else if u = ''RELEASE_LOCK'' then Some ReleaseLock
      else if u = ''RELEASE_ALL_LOCKS'' then Some ReleaseAllLocks
      else if u = ''IS_FREE_LOCK'' then Some IsFreeLock
      else if u = ''IS_USED_LOCK'' then Some IsUsedLock
      else None)"

fun lock_function_name :: "lock_function \<Rightarrow> string" where
  "lock_function_name GetLock = ''GET_LOCK''"
| "lock_function_name ReleaseLock = ''RELEASE_LOCK''"
| "lock_function_name ReleaseAllLocks = ''RELEASE_ALL_LOCKS''"
| "lock_function_name IsFreeLock = ''IS_FREE_LOCK''"
| "lock_function_name IsUsedLock = ''IS_USED_LOCK''"

fun arity :: "lock_function \<Rightarrow> nat" where
  "arity GetLock = 2"
| "arity ReleaseLock = 1"
| "arity IsFreeLock = 1"
| "arity IsUsedLock = 1"
| "arity ReleaseAllLocks = 0"

datatype lock_arg = ArgNull | ArgText string | ArgNumber string | ArgPlaceholder nat

record lock_call =
  lock_fn :: lock_function
  lock_args :: "lock_arg list"

datatype lock_value = IntValue int | NullValue

datatype translate_error = Parse string | Unsupported string

fun translate_error_text :: "translate_error \<Rightarrow> string" where
  "translate_error_text (Parse m) = ''SQL parse error: '' @ m"
| "translate_error_text (Unsupported m) = ''unsupported SQL construct: '' @ m"

record lock_statement =
  ls_stmt :: sql_stmt
  ls_calls :: "lock_call list"
  ls_is_do :: bool
  ls_placeholder_count :: nat

definition consumed_placeholders :: "lock_call list \<Rightarrow> nat list" where
  "consumed_placeholders cs =
     sort (List.map_filter (\<lambda>a. case a of ArgPlaceholder i \<Rightarrow> Some i | _ \<Rightarrow> None) (concat (map lock_args cs)))"

section \<open>Sentinels\<close>

definition SENTINEL_PREFIX :: string where "SENTINEL_PREFIX = ''$__litewire_user_lock_''"

definition sentinel :: "nat \<Rightarrow> sql_expr" where
  "sentinel i = ExValue (Placeholder (SENTINEL_PREFIX @ show_nat i))"

definition sentinel_index :: "sql_expr \<Rightarrow> nat option" where
  "sentinel_index e =
     (case e of
        ExValue (Placeholder text) \<Rightarrow> Option.bind (strip_prefix text SENTINEL_PREFIX) parse_usize
      | _ \<Rightarrow> None)"

section \<open>Extraction\<close>

text \<open>The extractor's state is the calls found and the number of placeholders seen.\<close>

type_synonym extractor = "lock_call list \<times> nat"

definition unsupported_arg :: "(sql_expr \<Rightarrow> string) \<Rightarrow> lock_function \<Rightarrow> sql_expr \<Rightarrow> translate_error" where
  "unsupported_arg display f e =
     Unsupported (lock_function_name f @ '': argument '' @ [CHR 0x60] @ display e @ [CHR 0x60] @
       '' is not supported; arguments must be literals or placeholders'')"

fun read_lock_arg :: "(sql_expr \<Rightarrow> string) \<Rightarrow> lock_function \<Rightarrow> sql_expr \<Rightarrow> nat \<Rightarrow> translate_error + lock_arg \<times> nat" where
  "read_lock_arg display f (ExValue SqlNull) n = Inr (ArgNull, n)"
| "read_lock_arg display f (ExValue (SingleQuoted s)) n = Inr (ArgText s, n)"
| "read_lock_arg display f (ExValue (DoubleQuoted s)) n = Inr (ArgText s, n)"
| "read_lock_arg display f (ExValue (National s)) n = Inr (ArgText s, n)"
| "read_lock_arg display f (ExValue (Number m)) n = Inr (ArgNumber m, n)"
| "read_lock_arg display f (ExValue (Placeholder t)) n = Inr (ArgPlaceholder n, n + 1)"
| "read_lock_arg display f (ExValue (OtherValue t)) n = Inl (unsupported_arg display f (ExValue (OtherValue t)))"
| "read_lock_arg display f (ExMinus e) n =
     (case e of
        ExValue (Number m) \<Rightarrow> Inr (ArgNumber (''-'' @ m), n)
      | _ \<Rightarrow> Inl (unsupported_arg display f (ExMinus e)))"
| "read_lock_arg display f (ExNested e) n = read_lock_arg display f e n"
| "read_lock_arg display f e n = Inl (unsupported_arg display f e)"

fun collect_args :: "(sql_expr \<Rightarrow> string) \<Rightarrow> lock_function \<Rightarrow> fun_arg list \<Rightarrow> nat \<Rightarrow> translate_error + lock_arg list \<times> nat" where
  "collect_args display f [] n = Inr ([], n)"
| "collect_args display f (OtherArg es # as) n =
     Inl (Unsupported (lock_function_name f @ '': arguments must be literals or placeholders''))"
| "collect_args display f (PlainArg e # as) n =
     (case read_lock_arg display f e n of
        Inl err \<Rightarrow> Inl err
      | Inr (a, n1) \<Rightarrow>
          (case collect_args display f as n1 of
             Inl err \<Rightarrow> Inl err
           | Inr (rest, n2) \<Rightarrow> Inr (a # rest, n2)))"

definition extract_args :: "(sql_expr \<Rightarrow> string) \<Rightarrow> lock_function \<Rightarrow> bool \<Rightarrow> fun_arg list \<Rightarrow> nat \<Rightarrow> translate_error + lock_arg list \<times> nat" where
  "extract_args display f subquery args n =
     (if subquery
      then Inl (Unsupported (lock_function_name f @ '': a subquery is not a valid argument''))
      else if length args \<noteq> arity f
      then Inl (Unsupported (''Incorrect parameter count in the call to native function '' @ [CHR 0x27] @
             lock_function_name f @ [CHR 0x27]))
      else collect_args display f args n)"

text \<open>The pre-order visit: a lock call is replaced before its children would be visited.\<close>

fun visit_expr :: "(sql_expr \<Rightarrow> string) \<Rightarrow> sql_expr \<Rightarrow> extractor \<Rightarrow> translate_error + sql_expr \<times> extractor"
  and visit_exprs :: "(sql_expr \<Rightarrow> string) \<Rightarrow> sql_expr list \<Rightarrow> extractor \<Rightarrow> translate_error + sql_expr list \<times> extractor"
  and visit_arg :: "(sql_expr \<Rightarrow> string) \<Rightarrow> fun_arg \<Rightarrow> extractor \<Rightarrow> translate_error + fun_arg \<times> extractor"
  and visit_args :: "(sql_expr \<Rightarrow> string) \<Rightarrow> fun_arg list \<Rightarrow> extractor \<Rightarrow> translate_error + fun_arg list \<times> extractor" where
  "visit_expr display (ExValue v) x =
     (case v of Placeholder t \<Rightarrow> Inr (ExValue v, fst x, snd x + 1) | _ \<Rightarrow> Inr (ExValue v, x))"
| "visit_expr display (ExFunction name subquery args clauses) x =
     (case lock_function_from_name name of
        Some f \<Rightarrow>
          (case extract_args display f subquery args (snd x) of
             Inl err \<Rightarrow> Inl err
           | Inr (as, n) \<Rightarrow> Inr (sentinel (length (fst x)), fst x @ [\<lparr>lock_fn = f, lock_args = as\<rparr>], n))
      | None \<Rightarrow>
          (case visit_args display args x of
             Inl err \<Rightarrow> Inl err
           | Inr (args', x1) \<Rightarrow>
               (case visit_exprs display clauses x1 of
                  Inl err \<Rightarrow> Inl err
                | Inr (clauses', x2) \<Rightarrow> Inr (ExFunction name subquery args' clauses', x2))))"
| "visit_expr display (ExMinus e) x =
     (case visit_expr display e x of Inl err \<Rightarrow> Inl err | Inr (e', x1) \<Rightarrow> Inr (ExMinus e', x1))"
| "visit_expr display (ExNested e) x =
     (case visit_expr display e x of Inl err \<Rightarrow> Inl err | Inr (e', x1) \<Rightarrow> Inr (ExNested e', x1))"
| "visit_expr display (ExOther t es) x =
     (case visit_exprs display es x of Inl err \<Rightarrow> Inl err | Inr (es', x1) \<Rightarrow> Inr (ExOther t es', x1))"
| "visit_exprs display [] x = Inr ([], x)"
| "visit_exprs display (e # es) x =
     (case visit_expr display e x of
        Inl err \<Rightarrow> Inl err
      | Inr (e', x1) \<Rightarrow>
          (case visit_exprs display es x1 of
             Inl err \<Rightarrow> Inl err
           | Inr (es', x2) \<Rightarrow> Inr (e' # es', x2)))"
| "visit_arg display (PlainArg e) x =
     (case visit_expr display e x of Inl err \<Rightarrow> Inl err | Inr (e', x1) \<Rightarrow> Inr (PlainArg e', x1))"
| "visit_arg display (OtherArg es) x =
     (case visit_exprs display es x of Inl err \<Rightarrow> Inl err | Inr (es', x1) \<Rightarrow> Inr (OtherArg es', x1))"
| "visit_args display [] x = Inr ([], x)"
| "visit_args display (a # as) x =
     (case visit_arg display a x of
        Inl err \<Rightarrow> Inl err
      | Inr (a', x1) \<Rightarrow>
          (case visit_args display as x1 of
             Inl err \<Rightarrow> Inl err
           | Inr (as', x2) \<Rightarrow> Inr (a' # as', x2)))"

fun visit_items :: "(sql_expr \<Rightarrow> string) \<Rightarrow> select_item list \<Rightarrow> extractor \<Rightarrow> translate_error + select_item list \<times> extractor" where
  "visit_items display [] x = Inr ([], x)"
| "visit_items display (i # is) x =
     (case (case i of
              UnnamedItem e \<Rightarrow> (case visit_expr display e x of Inl err \<Rightarrow> Inl err | Inr (e', x1) \<Rightarrow> Inr (UnnamedItem e', x1))
            | AliasedItem e a \<Rightarrow> (case visit_expr display e x of Inl err \<Rightarrow> Inl err | Inr (e', x1) \<Rightarrow> Inr (AliasedItem e' a, x1))
            | OtherItem es \<Rightarrow> (case visit_exprs display es x of Inl err \<Rightarrow> Inl err | Inr (es', x1) \<Rightarrow> Inr (OtherItem es', x1))) of
        Inl err \<Rightarrow> Inl err
      | Inr (i', x1) \<Rightarrow>
          (case visit_items display is x1 of
             Inl err \<Rightarrow> Inl err
           | Inr (is', x2) \<Rightarrow> Inr (i' # is', x2)))"

definition visit_stmt :: "(sql_expr \<Rightarrow> string) \<Rightarrow> sql_stmt \<Rightarrow> extractor \<Rightarrow> translate_error + sql_stmt \<times> extractor" where
  "visit_stmt display s x =
     (case visit_exprs display (stmt_before s) x of
        Inl err \<Rightarrow> Inl err
      | Inr (b, x1) \<Rightarrow>
     (case visit_items display (stmt_items s) x1 of
        Inl err \<Rightarrow> Inl err
      | Inr (is, x2) \<Rightarrow>
     (case visit_exprs display (stmt_after s) x2 of
        Inl err \<Rightarrow> Inl err
      | Inr (a, x3) \<Rightarrow> Inr (\<lparr>stmt_before = b, stmt_items = is, stmt_after = a\<rparr>, x3))))"

fun contains_lock_call :: "sql_expr \<Rightarrow> bool"
  and contains_lock_call_arg :: "fun_arg \<Rightarrow> bool" where
  "contains_lock_call (ExValue v) = False"
| "contains_lock_call (ExFunction name subquery args clauses) \<longleftrightarrow>
     lock_function_from_name name \<noteq> None \<or> list_ex contains_lock_call_arg args \<or> list_ex contains_lock_call clauses"
| "contains_lock_call (ExMinus e) = contains_lock_call e"
| "contains_lock_call (ExNested e) = contains_lock_call e"
| "contains_lock_call (ExOther t es) = list_ex contains_lock_call es"
| "contains_lock_call_arg (PlainArg e) = contains_lock_call e"
| "contains_lock_call_arg (OtherArg es) = list_ex contains_lock_call es"

definition alias_lock_projections :: "(sql_expr \<Rightarrow> string) \<Rightarrow> sql_stmt \<Rightarrow> sql_stmt" where
  "alias_lock_projections display s =
     s\<lparr>stmt_items := map (\<lambda>i. case i of
         UnnamedItem e \<Rightarrow> if contains_lock_call e then AliasedItem e (display e) else i
       | _ \<Rightarrow> i) (stmt_items s)\<rparr>"

text \<open>A keyword is followed by white space exactly when trimming its rest shortens it.\<close>

definition do_body :: "string \<Rightarrow> string option" where
  "do_body sql =
     (let trimmed = trim_start sql; rest = drop 2 trimmed in
      if length trimmed < 2 \<or> \<not> eq_ignore_ascii_case (take 2 trimmed) ''DO'' then None
      else if trim_start rest \<noteq> rest then Some rest else None)"

definition contains_ascii_ignore_case :: "string \<Rightarrow> string \<Rightarrow> bool" where
  "contains_ascii_ignore_case haystack needle_upper =
     contains_str (to_ascii_uppercase haystack) needle_upper"

definition mentions_lock_function :: "string \<Rightarrow> bool" where
  "mentions_lock_function sql = contains_ascii_ignore_case sql ''_LOCK''"

definition extract_from :: "(sql_expr \<Rightarrow> string) \<Rightarrow> bool \<Rightarrow> sql_stmt \<Rightarrow> (translate_error + lock_statement) option" where
  "extract_from display is_do s =
     (case visit_stmt display (alias_lock_projections display s) ([], 0) of
        Inl err \<Rightarrow> Some (Inl err)
      | Inr (s', calls, n) \<Rightarrow>
          if calls = [] \<and> \<not> is_do then None
          else Some (Inr \<lparr>ls_stmt = s', ls_calls = calls, ls_is_do = is_do, ls_placeholder_count = n\<rparr>))"

definition detect ::
  "(string \<Rightarrow> string + sql_stmt list) \<Rightarrow> (sql_expr \<Rightarrow> string) \<Rightarrow> string \<Rightarrow> dialect \<Rightarrow> (translate_error + lock_statement) option" where
  "detect parse display sql d =
     (if d \<noteq> MySQL then None
      else
        case (case do_body sql of
                Some body \<Rightarrow> Some (''SELECT '' @ body, True)
              | None \<Rightarrow> if mentions_lock_function sql then Some (strip_mysql_select_hints sql, False) else None) of
          None \<Rightarrow> None
        | Some (text, is_do) \<Rightarrow>
            (case parse text of
               Inl e \<Rightarrow> if is_do then Some (Inl (Parse e)) else None
             | Inr [s] \<Rightarrow> extract_from display is_do s
             | Inr _ \<Rightarrow> if is_do then Some (Inl (Unsupported ''DO: exactly one statement expected'')) else None))"

section \<open>Substitution\<close>

definition lock_value_expr :: "lock_value list \<Rightarrow> nat \<Rightarrow> sql_expr" where
  "lock_value_expr values i =
     (if i < length values
      then (case values ! i of IntValue n \<Rightarrow> ExValue (Number (i64_to_string n)) | NullValue \<Rightarrow> ExValue SqlNull)
      else ExValue SqlNull)"

fun subst_expr :: "lock_value list \<Rightarrow> sql_expr \<Rightarrow> sql_expr"
  and subst_arg :: "lock_value list \<Rightarrow> fun_arg \<Rightarrow> fun_arg" where
  "subst_expr vs (ExValue v) =
     (case sentinel_index (ExValue v) of Some i \<Rightarrow> lock_value_expr vs i | None \<Rightarrow> ExValue v)"
| "subst_expr vs (ExFunction name subquery args clauses) =
     ExFunction name subquery (map (subst_arg vs) args) (map (subst_expr vs) clauses)"
| "subst_expr vs (ExMinus e) = ExMinus (subst_expr vs e)"
| "subst_expr vs (ExNested e) = ExNested (subst_expr vs e)"
| "subst_expr vs (ExOther t es) = ExOther t (map (subst_expr vs) es)"
| "subst_arg vs (PlainArg e) = PlainArg (subst_expr vs e)"
| "subst_arg vs (OtherArg es) = OtherArg (map (subst_expr vs) es)"

fun subst_item :: "lock_value list \<Rightarrow> select_item \<Rightarrow> select_item" where
  "subst_item vs (UnnamedItem e) = UnnamedItem (subst_expr vs e)"
| "subst_item vs (AliasedItem e a) = AliasedItem (subst_expr vs e) a"
| "subst_item vs (OtherItem es) = OtherItem (map (subst_expr vs) es)"

definition subst_stmt :: "lock_value list \<Rightarrow> sql_stmt \<Rightarrow> sql_stmt" where
  "subst_stmt vs s =
     \<lparr>stmt_before = map (subst_expr vs) (stmt_before s), stmt_items = map (subst_item vs) (stmt_items s),
      stmt_after = map (subst_expr vs) (stmt_after s)\<rparr>"

definition to_sqlite :: "(sql_stmt \<Rightarrow> translate_error + string) \<Rightarrow> lock_statement \<Rightarrow> lock_value list \<Rightarrow> translate_error + string" where
  "to_sqlite emit ls values =
     (if length values \<noteq> length (ls_calls ls)
      then Inl (Unsupported (''internal: '' @ show_nat (length values) @ '' lock values for '' @
             show_nat (length (ls_calls ls)) @ '' lock calls''))
      else emit (subst_stmt values (ls_stmt ls)))"

section \<open>Placeholders\<close>

text \<open>The placeholders of an expression in visiting order, and those that are left once sentinels are filled in.\<close>

fun holes :: "sql_expr \<Rightarrow> string list"
  and arg_holes :: "fun_arg \<Rightarrow> string list" where
  "holes (ExValue v) = (case v of Placeholder t \<Rightarrow> [t] | _ \<Rightarrow> [])"
| "holes (ExFunction name subquery args clauses) = concat (map arg_holes args) @ concat (map holes clauses)"
| "holes (ExMinus e) = holes e"
| "holes (ExNested e) = holes e"
| "holes (ExOther t es) = concat (map holes es)"
| "arg_holes (PlainArg e) = holes e"
| "arg_holes (OtherArg es) = concat (map holes es)"

fun item_holes :: "select_item \<Rightarrow> string list" where
  "item_holes (UnnamedItem e) = holes e"
| "item_holes (AliasedItem e a) = holes e"
| "item_holes (OtherItem es) = concat (map holes es)"

definition stmt_holes :: "sql_stmt \<Rightarrow> string list" where
  "stmt_holes s = concat (map holes (stmt_before s)) @ concat (map item_holes (stmt_items s)) @ concat (map holes (stmt_after s))"

text \<open>Lock calls carry no other clause, as MySQL's grammar has it, and no placeholder is spelled like a sentinel.\<close>

fun plain_calls :: "sql_expr \<Rightarrow> bool"
  and plain_calls_arg :: "fun_arg \<Rightarrow> bool" where
  "plain_calls (ExValue v) = (sentinel_index (ExValue v) = None)"
| "plain_calls (ExFunction name subquery args clauses) \<longleftrightarrow>
     (lock_function_from_name name = None \<or> clauses = []) \<and>
     list_all plain_calls_arg args \<and> list_all plain_calls clauses"
| "plain_calls (ExMinus e) = plain_calls e"
| "plain_calls (ExNested e) = plain_calls e"
| "plain_calls (ExOther t es) = list_all plain_calls es"
| "plain_calls_arg (PlainArg e) = plain_calls e"
| "plain_calls_arg (OtherArg es) = list_all plain_calls es"

fun plain_item :: "select_item \<Rightarrow> bool" where
  "plain_item (UnnamedItem e) = plain_calls e"
| "plain_item (AliasedItem e a) = plain_calls e"
| "plain_item (OtherItem es) = list_all plain_calls es"

definition plain_stmt :: "sql_stmt \<Rightarrow> bool" where
  "plain_stmt s \<longleftrightarrow> list_all plain_calls (stmt_before s) \<and> list_all plain_item (stmt_items s) \<and> list_all plain_calls (stmt_after s)"

section \<open>Extraction keeps the other placeholders in order\<close>

definition arg_ordinals :: "lock_arg list \<Rightarrow> nat list" where
  "arg_ordinals as = List.map_filter (\<lambda>a. case a of ArgPlaceholder i \<Rightarrow> Some i | _ \<Rightarrow> None) as"

definition call_ordinals :: "lock_call list \<Rightarrow> nat list" where
  "call_ordinals cs = arg_ordinals (concat (map lock_args cs))"

lemma arg_ordinals_simps [simp]:
  "arg_ordinals [] = []"
  "arg_ordinals (a # as) = (case a of ArgPlaceholder i \<Rightarrow> [i] | _ \<Rightarrow> []) @ arg_ordinals as"
  by (simp_all add: arg_ordinals_def List.map_filter_def split: lock_arg.split)

lemma arg_ordinals_append [simp]: "arg_ordinals (as @ bs) = arg_ordinals as @ arg_ordinals bs"
  by (induction as) simp_all

lemma call_ordinals_simps [simp]:
  "call_ordinals [] = []"
  "call_ordinals (cs @ ds) = call_ordinals cs @ call_ordinals ds"
  "call_ordinals [\<lparr>lock_fn = f, lock_args = as\<rparr>] = arg_ordinals as"
  by (simp_all add: call_ordinals_def)

text \<open>The elements of a list numbered from \<open>n\<close> whose number is not in a set.\<close>

definition without_ordinals :: "nat \<Rightarrow> nat set \<Rightarrow> 'a list \<Rightarrow> 'a list" where
  "without_ordinals n S xs = map snd (filter (\<lambda>(i, x). i \<notin> S) (enumerate n xs))"

lemma without_ordinals_simps [simp]:
  "without_ordinals n S [] = []"
  "without_ordinals n S (x # xs) = (if n \<in> S then [] else [x]) @ without_ordinals (Suc n) S xs"
  by (simp_all add: without_ordinals_def)

lemma without_ordinals_append:
  "without_ordinals n S (xs @ ys) = without_ordinals n S xs @ without_ordinals (n + length xs) S ys"
  by (induction xs arbitrary: n) simp_all

lemma without_ordinals_cong:
  "(\<And>i. n \<le> i \<Longrightarrow> i < n + length xs \<Longrightarrow> i \<in> S \<longleftrightarrow> i \<in> T) \<Longrightarrow> without_ordinals n S xs = without_ordinals n T xs"
  by (induction xs arbitrary: n) auto

definition extracts :: "nat \<Rightarrow> string list \<Rightarrow> nat list \<Rightarrow> string list \<Rightarrow> nat \<Rightarrow> bool" where
  "extracts n hs ords left n' \<longleftrightarrow>
     n' = n + length hs \<and> set ords \<subseteq> {n..<n'} \<and> sorted_wrt (<) ords \<and> left = without_ordinals n (set ords) hs"

lemma extracts_nil [simp]: "extracts n [] [] [] n"
  by (simp add: extracts_def)

lemma extracts_append:
  assumes "extracts n h1 o1 l1 m" and "extracts m h2 o2 l2 k"
  shows "extracts n (h1 @ h2) (o1 @ o2) (l1 @ l2) k"
proof -
  have r: "set o1 \<subseteq> {n..<m}" "set o2 \<subseteq> {m..<k}" "m = n + length h1" "k = m + length h2"
    using assms by (auto simp: extracts_def)
  have "without_ordinals n (set o1) h1 = without_ordinals n (set (o1 @ o2)) h1"
    using r by (intro without_ordinals_cong) auto
  moreover have "without_ordinals m (set o2) h2 = without_ordinals m (set (o1 @ o2)) h2"
    using r by (intro without_ordinals_cong) auto
  ultimately have "l1 @ l2 = without_ordinals n (set (o1 @ o2)) (h1 @ h2)"
    using assms r(3) by (simp add: extracts_def without_ordinals_append)
  moreover have "x < y" if "x \<in> set o1" "y \<in> set o2" for x y
    using that r(1,2) by (meson atLeastLessThan_iff less_le_trans subsetD)
  then have "sorted_wrt (<) (o1 @ o2)"
    using assms by (auto simp: extracts_def sorted_wrt_append)
  ultimately show ?thesis using r by (auto simp: extracts_def)
qed

lemma read_lock_arg_extracts:
  "read_lock_arg display f e n = Inr (a, n') \<Longrightarrow> extracts n (holes e) (arg_ordinals [a]) [] n'"
  by (induction display f e n rule: read_lock_arg.induct)
    (auto simp: extracts_def split: sql_expr.splits sql_value.splits)

lemma collect_args_extracts:
  "collect_args display f args n = Inr (as, n') \<Longrightarrow> extracts n (concat (map arg_holes args)) (arg_ordinals as) [] n'"
proof (induction display f args n arbitrary: as n' rule: collect_args.induct)
  case (3 display f e args n)
  then obtain a n1 rest where a: "read_lock_arg display f e n = Inr (a, n1)"
    "collect_args display f args n1 = Inr (rest, n')" "as = a # rest"
    by (auto split: sum.splits)
  from extracts_append [OF read_lock_arg_extracts [OF a(1)] "3.IH" [OF a(1) refl a(2)]] a(3)
  show ?case by simp
qed auto

lemma extract_args_extracts:
  "extract_args display f subquery args n = Inr (as, n') \<Longrightarrow>
     extracts n (concat (map arg_holes args)) (arg_ordinals as) [] n'"
  by (auto simp: extract_args_def intro: collect_args_extracts split: if_splits)

lemma strip_prefix_append: "strip_prefix (p @ s) p = Some s"
  by (simp add: strip_prefix_def starts_with_def)

lemma sentinel_filled: "i < 2 ^ 64 \<Longrightarrow> holes (subst_expr vs (sentinel i)) = []"
  by (simp add: sentinel_def sentinel_index_def strip_prefix_append parse_usize_show_nat lock_value_expr_def
      split: lock_value.split)

text \<open>What one visit does to the state, for any list of placeholders before and after.\<close>

definition visited :: "extractor \<Rightarrow> string list \<Rightarrow> string list \<Rightarrow> extractor \<Rightarrow> bool" where
  "visited x hs left x' \<longleftrightarrow>
     length (fst x) \<le> length (fst x') \<and>
     (length (fst x') \<le> 2 ^ 64 \<longrightarrow>
        (\<exists>new. fst x' = fst x @ new \<and> extracts (snd x) hs (call_ordinals new) left (snd x')))"

lemma visited_nil [simp]: "visited x [] [] x"
  by (simp add: visited_def)

lemma visited_append:
  assumes "visited x h1 l1 y" and "visited y h2 l2 z"
  shows "visited x (h1 @ h2) (l1 @ l2) z"
proof -
  have "\<exists>new. fst z = fst x @ new \<and> extracts (snd x) (h1 @ h2) (call_ordinals new) (l1 @ l2) (snd z)"
    if "length (fst z) \<le> 2 ^ 64"
  proof -
    from that assms obtain a b where
      "fst y = fst x @ a" "extracts (snd x) h1 (call_ordinals a) l1 (snd y)"
      "fst z = fst y @ b" "extracts (snd y) h2 (call_ordinals b) l2 (snd z)"
      by (auto simp: visited_def)
    then have "fst z = fst x @ (a @ b) \<and> extracts (snd x) (h1 @ h2) (call_ordinals (a @ b)) (l1 @ l2) (snd z)"
      by (simp add: extracts_append)
    then show ?thesis by blast
  qed
  then show ?thesis using assms by (auto simp: visited_def)
qed


lemma visited_call:
  assumes "extract_args display f subquery args (snd x) = Inr (as, n)"
  shows "visited x (concat (map arg_holes args)) (holes (subst_expr vs (sentinel (length (fst x)))))
    (fst x @ [\<lparr>lock_fn = f, lock_args = as\<rparr>], n)"
  using extract_args_extracts [OF assms] by (auto simp: visited_def sentinel_filled)

lemma visit_visited:
  "visit_expr display e x = Inr (e', x') \<Longrightarrow> plain_calls e \<Longrightarrow> visited x (holes e) (holes (subst_expr vs e')) x'"
  "visit_exprs display es x = Inr (es', x') \<Longrightarrow> list_all plain_calls es \<Longrightarrow>
     visited x (concat (map holes es)) (concat (map holes (map (subst_expr vs) es'))) x'"
  "visit_arg display a x = Inr (a', x') \<Longrightarrow> plain_calls_arg a \<Longrightarrow> visited x (arg_holes a) (arg_holes (subst_arg vs a')) x'"
  "visit_args display as x = Inr (as', x') \<Longrightarrow> list_all plain_calls_arg as \<Longrightarrow>
     visited x (concat (map arg_holes as)) (concat (map arg_holes (map (subst_arg vs) as'))) x'"
proof (induction display e x and display es x and display a x and display as x
    arbitrary: e' x' and es' x' and a' x' and as' x'
    rule: visit_expr_visit_exprs_visit_arg_visit_args.induct)
  case (1 display v x)
  then show ?case
    by (auto simp: visited_def extracts_def intro: exI [of _ "[]"] split: sql_value.splits)
next
  case (2 display name subquery args clauses x)
  show ?case
  proof (cases "lock_function_from_name name")
    case (Some f)
    with "2.prems" obtain as n where a: "extract_args display f subquery args (snd x) = Inr (as, n)"
      "e' = sentinel (length (fst x))" "x' = (fst x @ [\<lparr>lock_fn = f, lock_args = as\<rparr>], n)" "clauses = []"
      by (auto split: sum.splits)
    with visited_call [OF a(1), of vs] show ?thesis by simp
  next
    case None
    with "2.prems" obtain args' x1 clauses' where a: "visit_args display args x = Inr (args', x1)"
      "visit_exprs display clauses x1 = Inr (clauses', x')" "e' = ExFunction name subquery args' clauses'"
      by (auto split: sum.splits)
    from visited_append [OF "2.IH"(1) [OF None a(1)] "2.IH"(2) [OF None a(1) refl a(2)]] "2.prems"(2) a(3)
    show ?thesis by simp
  qed
next
  case (7 display e es x)
  then obtain e1 x1 es1 where a: "visit_expr display e x = Inr (e1, x1)" "visit_exprs display es x1 = Inr (es1, x')"
    "es' = e1 # es1"
    by (auto split: sum.splits)
  from visited_append [OF "7.IH"(1) [OF a(1)] "7.IH"(2) [OF a(1) refl a(2)]] "7.prems"(2) a(3) show ?case by simp
next
  case (11 display a as x)
  then obtain a1 x1 as1 where b: "visit_arg display a x = Inr (a1, x1)" "visit_args display as x1 = Inr (as1, x')"
    "as' = a1 # as1"
    by (auto split: sum.splits)
  from visited_append [OF "11.IH"(1) [OF b(1)] "11.IH"(2) [OF b(1) refl b(2)]] "11.prems"(2) b(3) show ?case by simp
qed (auto split: sum.splits)


lemma visit_items_visited:
  "visit_items display is x = Inr (is', x') \<Longrightarrow> list_all plain_item is \<Longrightarrow>
     visited x (concat (map item_holes is)) (concat (map item_holes (map (subst_item vs) is'))) x'"
proof (induction "is" arbitrary: x is')
  case (Cons i "is")
  from Cons.prems(1) obtain i1 x1 is1 where a: "visit_items display [i] x = Inr ([i1], x1)"
    "visit_items display is x1 = Inr (is1, x')" "is' = i1 # is1"
    by (auto split: sum.splits select_item.splits)
  have "visited x (item_holes i) (item_holes (subst_item vs i1)) x1"
    using a(1) Cons.prems(2) visit_visited(1,2) [of display _ x _ x1 vs]
    by (auto split: sum.splits select_item.splits)
  from visited_append [OF this Cons.IH [OF a(2)]] Cons.prems(2) a(3) show ?case by simp
qed simp

lemma visit_stmt_visited:
  assumes "visit_stmt display s x = Inr (s', x')" and "plain_stmt s"
  shows "visited x (stmt_holes s) (stmt_holes (subst_stmt vs s')) x'"
proof -
  from assms(1) obtain b x1 i x2 a where v: "visit_exprs display (stmt_before s) x = Inr (b, x1)"
    "visit_items display (stmt_items s) x1 = Inr (i, x2)" "visit_exprs display (stmt_after s) x2 = Inr (a, x')"
    "s' = \<lparr>stmt_before = b, stmt_items = i, stmt_after = a\<rparr>"
    by (auto simp: visit_stmt_def split: sum.splits)
  have "visited x (concat (map holes (stmt_before s))) (concat (map holes (map (subst_expr vs) b))) x1"
    "visited x1 (concat (map item_holes (stmt_items s))) (concat (map item_holes (map (subst_item vs) i))) x2"
    "visited x2 (concat (map holes (stmt_after s))) (concat (map holes (map (subst_expr vs) a))) x'"
    using visit_visited(2) [OF v(1)] visit_items_visited [OF v(2)] visit_visited(2) [OF v(3)] assms(2)
    by (simp_all add: plain_stmt_def)
  from visited_append [OF this(1) visited_append [OF this(2,3)]] v(4)
  show ?thesis by (simp add: stmt_holes_def subst_stmt_def)
qed

lemma alias_keeps:
  "stmt_holes (alias_lock_projections display s) = stmt_holes s"
  "plain_stmt (alias_lock_projections display s) = plain_stmt s"
proof -
  let ?f = "\<lambda>i. case i of UnnamedItem e \<Rightarrow> if contains_lock_call e then AliasedItem e (display e) else i | _ \<Rightarrow> i"
  have "item_holes (?f i) = item_holes i" "plain_item (?f i) = plain_item i" for i
    by (cases i; simp)+
  then show "stmt_holes (alias_lock_projections display s) = stmt_holes s"
    "plain_stmt (alias_lock_projections display s) = plain_stmt s"
    by (simp_all add: stmt_holes_def plain_stmt_def alias_lock_projections_def list_all_iff comp_def)
qed

text \<open>
  What \<^verbatim>\<open>detect\<close> promises its client about placeholders: the count it reports is that of the original
  statement, the ordinals its calls consume are distinct, in order and within it, and the completed
  statement has exactly the other placeholders, in order.
\<close>

lemma extract_from_placeholders:
  assumes "extract_from display is_do s = Some (Inr ls)" and "plain_stmt s" and "length (ls_calls ls) \<le> 2 ^ 64"
  shows "extracts 0 (stmt_holes s) (call_ordinals (ls_calls ls)) (stmt_holes (subst_stmt vs (ls_stmt ls)))
    (ls_placeholder_count ls)"
proof -
  from assms(1) obtain s' calls n where v: "visit_stmt display (alias_lock_projections display s) ([], 0) = Inr (s', calls, n)"
    "ls = \<lparr>ls_stmt = s', ls_calls = calls, ls_is_do = is_do, ls_placeholder_count = n\<rparr>"
    by (auto simp: extract_from_def split: sum.splits if_splits)
  from visit_stmt_visited [OF v(1), of vs] assms(2,3) v(2) show ?thesis
    by (auto simp: alias_keeps visited_def)
qed

lemma consumed_sorted:
  assumes "extracts 0 hs (call_ordinals cs) left n"
  shows "consumed_placeholders cs = call_ordinals cs"
proof -
  have "sorted (call_ordinals cs)"
    using assms by (auto simp: extracts_def intro: sorted_wrt_mono_rel [of _ "(<)" "(\<le>)"])
  then show ?thesis
    by (simp add: consumed_placeholders_def call_ordinals_def arg_ordinals_def sorted_sort_id)
qed

end
