(* ===== verification/Backend_Api.thy ===== *)
theory Backend_Api
  imports Backend_Value User_Lock
begin

text \<open>
  The interface of a per-session backend connection (the trait \<^verbatim>\<open>BackendConn\<close> of
  \<^verbatim>\<open>src/crates/litewire-backend/src/lib.rs\<close>) as a record of operations over the connection's state \<open>'w\<close>,
  with the trait's default methods, and the connection that answers named-lock operations from the
  lock registry (\<^verbatim>\<open>LockScopedConn\<close> of \<^verbatim>\<open>src/crates/litewire-backend/src/user_lock.rs\<close>).
\<close>

record 'w conn_api =
  conn_query :: "string \<Rightarrow> backend_value list \<Rightarrow> 'w \<Rightarrow> (backend_error + result_set) \<times> 'w"
  conn_execute :: "string \<Rightarrow> backend_value list \<Rightarrow> 'w \<Rightarrow> (backend_error + execute_result) \<times> 'w"
  conn_user_lock :: "user_lock_op \<Rightarrow> 'w \<Rightarrow> (backend_error + user_lock_reply) \<times> 'w"

definition default_describe_columns ::
  "'w conn_api \<Rightarrow> string \<Rightarrow> 'w \<Rightarrow> (backend_error + column list) \<times> 'w" where
  "default_describe_columns api sql w =
     (case conn_query api (sql @ '' LIMIT 0'') [] w of
        (Inl e, w1) \<Rightarrow> (Inl e, w1)
      | (Inr rs, w1) \<Rightarrow> (Inr (rs_columns rs), w1))"

definition USER_LOCKS_UNSUPPORTED :: string where
  "USER_LOCKS_UNSUPPORTED =
     ''named locks (GET_LOCK and friends) are not available on this connection: its backend provides no user-lock scope''"

definition default_user_lock :: "user_lock_op \<Rightarrow> 'w \<Rightarrow> (backend_error + user_lock_reply) \<times> 'w" where
  "default_user_lock op w = (Inl (Other USER_LOCKS_UNSUPPORTED), w)"

text \<open>
  The one-shot methods of the trait \<^verbatim>\<open>Backend\<close>: open a session \<open>'c\<close>, use it once, and drop it.
\<close>

definition one_shot ::
  "('w \<Rightarrow> (backend_error + 'c) \<times> 'w) \<Rightarrow> ('c \<Rightarrow> 'w \<Rightarrow> 'w) \<Rightarrow> ('c \<Rightarrow> 'w \<Rightarrow> (backend_error + 'r) \<times> 'w) \<Rightarrow> 'w \<Rightarrow> (backend_error + 'r) \<times> 'w" where
  "one_shot connect drop_conn call w =
     (case connect w of
        (Inl e, w1) \<Rightarrow> (Inl e, w1)
      | (Inr c, w1) \<Rightarrow> (case call c w1 of (r, w2) \<Rightarrow> (r, drop_conn c w2)))"

definition backend_query ::
  "('w \<Rightarrow> (backend_error + 'c) \<times> 'w) \<Rightarrow> ('c \<Rightarrow> 'w \<Rightarrow> 'w) \<Rightarrow> ('c \<Rightarrow> 'w conn_api) \<Rightarrow> string \<Rightarrow> backend_value list \<Rightarrow> 'w \<Rightarrow>
     (backend_error + result_set) \<times> 'w" where
  "backend_query connect drop_conn conn_of sql ps = one_shot connect drop_conn (\<lambda>c. conn_query (conn_of c) sql ps)"

definition backend_execute ::
  "('w \<Rightarrow> (backend_error + 'c) \<times> 'w) \<Rightarrow> ('c \<Rightarrow> 'w \<Rightarrow> 'w) \<Rightarrow> ('c \<Rightarrow> 'w conn_api) \<Rightarrow> string \<Rightarrow> backend_value list \<Rightarrow> 'w \<Rightarrow>
     (backend_error + execute_result) \<times> 'w" where
  "backend_execute connect drop_conn conn_of sql ps = one_shot connect drop_conn (\<lambda>c. conn_execute (conn_of c) sql ps)"

definition backend_describe_columns ::
  "('w \<Rightarrow> (backend_error + 'c) \<times> 'w) \<Rightarrow> ('c \<Rightarrow> 'w \<Rightarrow> 'w) \<Rightarrow> ('c \<Rightarrow> string \<Rightarrow> 'w \<Rightarrow> (backend_error + column list) \<times> 'w) \<Rightarrow> string \<Rightarrow> 'w \<Rightarrow>
     (backend_error + column list) \<times> 'w" where
  "backend_describe_columns connect drop_conn describe_of sql = one_shot connect drop_conn (\<lambda>c. describe_of c sql)"

end
