(* ===== verification/Utf8.thy ===== *)
theory Utf8
  imports Wire_Bytes
begin

text \<open>
  \<^verbatim>\<open>std::str::from_utf8\<close>: which byte strings are UTF-8, and the error of one that is not.
\<close>

definition in_range :: "u8 \<Rightarrow> u8 \<Rightarrow> u8 \<Rightarrow> bool" where
  "in_range lo hi b \<longleftrightarrow> lo \<le> b \<and> b \<le> hi"

text \<open>
  One character at a time, either its length or how the bytes fail (\<^verbatim>\<open>error_len\<close>,
  \<open>None\<close> when they only end too early).
\<close>

datatype utf8_char = Chars nat | Fault "nat option"

definition second_range :: "u8 \<Rightarrow> u8 \<times> u8" where
  "second_range a =
     (if a = 0xE0 then (0xA0, 0xBF) else if a = 0xED then (0x80, 0x9F) else if a = 0xF0 then (0x90, 0xBF)
      else if a = 0xF4 then (0x80, 0x8F) else (0x80, 0xBF))"

definition width :: "u8 \<Rightarrow> nat" where
  "width a =
     (if a < 0x80 then 1 else if in_range 0xC2 0xDF a then 2 else if in_range 0xE0 0xEF a then 3
      else if in_range 0xF0 0xF4 a then 4 else 0)"

fun continuations :: "nat \<Rightarrow> nat \<Rightarrow> nat \<Rightarrow> bytes \<Rightarrow> utf8_char" where
  "continuations k 0 n s = Chars n"
| "continuations k (Suc m) n [] = Fault None"
| "continuations k (Suc m) n (b # s) =
     (if in_range 0x80 0xBF b then continuations (Suc k) m n s else Fault (Some k))"

definition next_char :: "bytes \<Rightarrow> utf8_char" where
  "next_char s =
     (case s of
        [] \<Rightarrow> Fault None
      | a # r \<Rightarrow>
          if width a = 0 then Fault (Some 1)
          else if width a = 1 then Chars 1
          else case r of
              [] \<Rightarrow> Fault None
            | b # r1 \<Rightarrow>
                if in_range (fst (second_range a)) (snd (second_range a)) b
                then continuations 2 (width a - 2) (width a) r1
                else Fault (Some 1))"

lemma continuations_Chars: "continuations k m n s = Chars l \<Longrightarrow> l = n \<and> m \<le> length s"
  by (induction k m n s rule: continuations.induct) (auto split: if_splits)

lemma next_char_progress: "next_char s = Chars l \<Longrightarrow> 0 < l \<and> l \<le> length s"
  by (auto simp: next_char_def split: list.splits if_splits dest: continuations_Chars)

function utf8_error :: "nat \<Rightarrow> bytes \<Rightarrow> (nat \<times> nat option) option" where
  "utf8_error i s =
     (if s = [] then None
      else case next_char s of
          Fault e \<Rightarrow> Some (i, e)
        | Chars l \<Rightarrow> utf8_error (i + l) (drop l s))"
  by pat_completeness auto
termination
  by (relation "measure (\<lambda>(i, s). length s)") (auto dest: next_char_progress)

declare utf8_error.simps [simp del]

fun utf8_error_text :: "nat \<times> nat option \<Rightarrow> string" where
  "utf8_error_text (i, Some n) =
     ''invalid utf-8 sequence of '' @ show_nat n @ '' bytes from index '' @ show_nat i"
| "utf8_error_text (i, None) = ''incomplete utf-8 byte sequence from index '' @ show_nat i"

definition string_of_bytes :: "bytes \<Rightarrow> string" where
  "string_of_bytes bs = map (\<lambda>b. char_of (unat b)) bs"

definition from_utf8 :: "bytes \<Rightarrow> (nat \<times> nat option) + string" where
  "from_utf8 bs = (case utf8_error 0 bs of Some e \<Rightarrow> Inl e | None \<Rightarrow> Inr (string_of_bytes bs))"

definition bytes_of_string :: "string \<Rightarrow> bytes" where
  "bytes_of_string s = map of_char s"

lemma string_of_bytes_of_string: "string_of_bytes (bytes_of_string s) = s"
proof -
  have "char_of (unat (of_char c :: u8)) = c" for c :: char
  proof -
    have "unat (of_nat (of_char c) :: u8) = of_char c" by (simp only: unsigned_of_nat) (simp add: take_bit_eq_mod)
    then have "unat (of_char c :: u8) = of_char c" by (simp only: of_nat_of_char)
    then show ?thesis by simp
  qed
  then show ?thesis by (simp add: string_of_bytes_def bytes_of_string_def comp_def)
qed

text \<open>\<^verbatim>\<open>String::from_utf8_lossy\<close>: each maximal ill-formed part becomes U+FFFD.\<close>

lemma next_char_fault: "s \<noteq> [] \<Longrightarrow> next_char s = Fault (Some n) \<Longrightarrow> 0 < n"
proof -
  have "continuations k m l t = Fault (Some n) \<Longrightarrow> k \<le> n" for k m l t
    by (induction k m l t rule: continuations.induct) (auto split: if_splits)
  then show "s \<noteq> [] \<Longrightarrow> next_char s = Fault (Some n) \<Longrightarrow> 0 < n"
    by (fastforce simp: next_char_def split: list.splits if_splits)
qed

definition replacement :: string where "replacement = [CHR 0xEF, CHR 0xBF, CHR 0xBD]"

function from_utf8_lossy :: "bytes \<Rightarrow> string" where
  "from_utf8_lossy s =
     (if s = [] then []
      else case next_char s of
          Chars l \<Rightarrow> string_of_bytes (take l s) @ from_utf8_lossy (drop l s)
        | Fault None \<Rightarrow> replacement
        | Fault (Some n) \<Rightarrow> replacement @ from_utf8_lossy (drop n s))"
  by pat_completeness auto
termination
  by (relation "measure length") (auto dest: next_char_progress next_char_fault [rotated])

declare from_utf8_lossy.simps [simp del]

end
