(* ===== verification/Session_Locks.thy ===== *)
theory Session_Locks
  imports Lock_Calls Backend_Api Error_Map Utf8
begin

text \<open>
  Evaluation of named-lock calls in a session, apart from the statement around them
  (\<^verbatim>\<open>src/crates/litewire-session/src/user_locks.rs\<close>), and the session's error type
  (\<^verbatim>\<open>src/crates/litewire-session/src/lib.rs\<close>). Conversions of floats and Unicode lowercasing are the
  parameter \<open>tx\<close>.
\<close>

section \<open>Errors of a session\<close>

datatype session_error = Translate translate_error | Db u16 string string

fun session_error_code :: "session_error \<Rightarrow> u16" where
  "session_error_code (Translate e) = ER_PARSE_ERROR"
| "session_error_code (Db code sqlstate message) = code"

fun session_error_sqlstate :: "session_error \<Rightarrow> string" where
  "session_error_sqlstate (Translate e) = ''42000''"
| "session_error_sqlstate (Db code sqlstate message) = sqlstate"

definition db_error :: "mapped_error \<Rightarrow> session_error" where
  "db_error e = Db (err_code e) (err_sqlstate e) (err_message e)"

definition map_backend_err :: "backend_error \<Rightarrow> session_error" where
  "map_backend_err e = db_error (classify_error (backend_error_to_string e))"

section \<open>Text of values\<close>

record text_ops = f64_ops +
  f64_is_nan :: "f64_bits \<Rightarrow> bool"
  f64_round :: "f64_bits \<Rightarrow> int"
  to_lowercase :: "string \<Rightarrow> string"

section \<open>Arguments of a call\<close>

definition MAX_NAME_CHARS :: nat where "MAX_NAME_CHARS = 64"

definition resolve_arg :: "'x text_ops_scheme \<Rightarrow> lock_arg \<Rightarrow> backend_value list \<Rightarrow> lock_function \<Rightarrow> session_error + backend_value" where
  "resolve_arg tx arg params f =
     (case arg of
        ArgNull \<Rightarrow> Inr Null
      | ArgText s \<Rightarrow> Inr (Text s)
      | ArgNumber n \<Rightarrow>
          (case parse_i64 n of
             Some i \<Rightarrow> Inr (Integer (word_of_int i))
           | None \<Rightarrow> (case parse_f64 tx n of Some x \<Rightarrow> Inr (Float x) | None \<Rightarrow> Inr (Text n)))
      | ArgPlaceholder i \<Rightarrow>
          if i < length params then Inr (params ! i)
          else Inl (Db ER_WRONG_ARGUMENTS ''HY000''
                 (''Incorrect arguments to '' @ lock_function_name f @ '': placeholder '' @ show_nat (i + 1) @
                  '' has no bound parameter'')))"

definition wrong_name :: "string \<Rightarrow> session_error" where
  "wrong_name shown =
     Db ER_USER_LOCK_WRONG_NAME ''42000''
       (''Incorrect user-level lock name '' @ [CHR 0x27] @ shown @ [CHR 0x27] @
        ''. The name is empty, NULL, or can not be expressed in the current character-set.'')"

definition overlong_name :: "string \<Rightarrow> session_error" where
  "overlong_name name =
     Db ER_USER_LOCK_OVERLONG_NAME ''42000''
       (''User-level lock name '' @ [CHR 0x27] @ name @ [CHR 0x27] @ '' should not exceed '' @
        show_nat MAX_NAME_CHARS @ '' characters.'')"

definition name_text :: "'x text_ops_scheme \<Rightarrow> backend_value \<Rightarrow> session_error + string" where
  "name_text tx v =
     (case v of
        Null \<Rightarrow> Inl (wrong_name ''NULL'')
      | Text s \<Rightarrow> Inr s
      | Integer i \<Rightarrow> Inr (i64_to_string (sint i))
      | Float x \<Rightarrow> Inr (f64_to_string tx x)
      | Blob b \<Rightarrow> (case from_utf8 b of Inr s \<Rightarrow> Inr s | Inl _ \<Rightarrow> Inl (wrong_name ''<binary>'')))"

definition lock_name :: "'x text_ops_scheme \<Rightarrow> backend_value \<Rightarrow> session_error + string" where
  "lock_name tx v =
     (case name_text tx v of
        Inl e \<Rightarrow> Inl e
      | Inr name \<Rightarrow>
          if name = [] then Inl (wrong_name [])
          else if MAX_NAME_CHARS < char_count name then Inl (overlong_name name)
          else Inr (to_lowercase tx name))"

definition round_seconds :: "'x text_ops_scheme \<Rightarrow> f64_bits \<Rightarrow> int" where
  "round_seconds tx x = (if f64_is_nan tx x then 0 else f64_round tx x)"

definition timeout_seconds :: "'x text_ops_scheme \<Rightarrow> backend_value \<Rightarrow> int option" where
  "timeout_seconds tx v =
     (case v of
        Null \<Rightarrow> None
      | Integer i \<Rightarrow> Some (sint i)
      | Float x \<Rightarrow> Some (round_seconds tx x)
      | Text s \<Rightarrow> Some (case parse_f64 tx (trim s) of None \<Rightarrow> 0 | Some x \<Rightarrow> round_seconds tx x)
      | Blob b \<Rightarrow> Some 0)"

text \<open>
  \<^verbatim>\<open>call.args[i]\<close> is in range for the calls \<^verbatim>\<open>detect\<close> builds, whose length is the function's arity; out of range
  the code would panic, which the model does not represent.
\<close>

definition named_op :: "'x text_ops_scheme \<Rightarrow> lock_call \<Rightarrow> backend_value list \<Rightarrow> (string \<Rightarrow> user_lock_op) \<Rightarrow> session_error + user_lock_op option" where
  "named_op tx call params mk =
     (case resolve_arg tx (lock_args call ! 0) params (lock_fn call) of
        Inl e \<Rightarrow> Inl e
      | Inr v \<Rightarrow> (case lock_name tx v of Inl e \<Rightarrow> Inl e | Inr name \<Rightarrow> Inr (Some (mk name))))"

definition build_op :: "'x text_ops_scheme \<Rightarrow> lock_call \<Rightarrow> backend_value list \<Rightarrow> session_error + user_lock_op option" where
  "build_op tx call params =
     (case lock_fn call of
        GetLock \<Rightarrow>
          (case resolve_arg tx (lock_args call ! 0) params GetLock of
             Inl e \<Rightarrow> Inl e
           | Inr v \<Rightarrow>
          (case lock_name tx v of
             Inl e \<Rightarrow> Inl e
           | Inr name \<Rightarrow>
          (case resolve_arg tx (lock_args call ! 1) params GetLock of
             Inl e \<Rightarrow> Inl e
           | Inr t \<Rightarrow>
          (case timeout_seconds tx t of
             None \<Rightarrow> Inr None
           | Some seconds \<Rightarrow> Inr (Some (Get name (from_seconds seconds)))))))
      | ReleaseLock \<Rightarrow> named_op tx call params Release
      | ReleaseAllLocks \<Rightarrow> Inr (Some ReleaseAll)
      | IsFreeLock \<Rightarrow> named_op tx call params IsFree
      | IsUsedLock \<Rightarrow> named_op tx call params IsUsed)"

section \<open>Parameters that are left\<close>

fun remaining_from :: "nat \<Rightarrow> 'v list \<Rightarrow> nat list \<Rightarrow> 'v list" where
  "remaining_from i [] next_consumed = []"
| "remaining_from i (p # ps) next_consumed =
     (case next_consumed of
        c # cs \<Rightarrow> if c = i then remaining_from (i + 1) ps cs else p # remaining_from (i + 1) ps next_consumed
      | [] \<Rightarrow> p # remaining_from (i + 1) ps [])"

definition remaining_params :: "'v list \<Rightarrow> nat list \<Rightarrow> 'v list" where
  "remaining_params params consumed = remaining_from 0 params consumed"

lemma remaining_from_without:
  "sorted_wrt (<) cs \<Longrightarrow> list_all (\<lambda>c. i \<le> c) cs \<Longrightarrow> remaining_from i ps cs = without_ordinals i (set cs) ps"
proof (induction ps arbitrary: i cs)
  case (Cons p ps)
  show ?case
  proof (cases cs)
    case Nil
    then show ?thesis using Cons.IH [of "[]" "Suc i"] by simp
  next
    case (Cons c ds)
    show ?thesis
    proof (cases "c = i")
      case True
      have "list_all (\<lambda>c. Suc i \<le> c) ds" using Cons.prems(1) Cons True by (auto simp: list_all_iff)
      then have "remaining_from (Suc i) ps ds = without_ordinals (Suc i) (set ds) ps"
        using Cons.IH Cons.prems(1) Cons by simp
      also have "\<dots> = without_ordinals (Suc i) (set cs) ps"
        using Cons True by (intro without_ordinals_cong) auto
      finally show ?thesis using Cons True by simp
    next
      case False
      then have all: "list_all (\<lambda>c. Suc i \<le> c) cs"
        using Cons.prems(1,2) Cons by (auto simp: list_all_iff Suc_le_eq order_less_trans)
      then have "i \<notin> set cs" by (auto simp: list_all_iff)
      with Cons.IH [OF Cons.prems(1) all] Cons False show ?thesis by simp
    qed
  qed
qed simp

lemma remaining_params_without:
  "extracts 0 hs cs left n \<Longrightarrow> remaining_params ps cs = without_ordinals 0 (set cs) ps"
  by (auto simp: remaining_params_def extracts_def list_all_iff intro: remaining_from_without)

lemma without_ordinals_zip:
  "length xs = length ys \<Longrightarrow> without_ordinals n S (zip xs ys) = zip (without_ordinals n S xs) (without_ordinals n S ys)"
  by (induction xs ys arbitrary: n rule: list_induct2) simp_all

lemma without_ordinals_length:
  "length xs = length ys \<Longrightarrow> length (without_ordinals n S xs) = length (without_ordinals n S ys)"
  by (induction xs ys arbitrary: n rule: list_induct2) simp_all

section \<open>Properties\<close>

text \<open>
  Fact (bound parameters line up). When lock calls are taken out of a statement, the
  placeholder count reported to the client is that of the original statement, and binding the
  remaining parameters to the completed statement gives every placeholder that is left, in order, exactly
  the parameter it had in the original; none is left over on either side.
\<close>

theorem parameters_line_up:
  assumes "extract_from display is_do s = Some (Inr ls)" and "plain_stmt s" and "length (ls_calls ls) \<le> 2 ^ 64"
    and "length params = ls_placeholder_count ls"
  shows "ls_placeholder_count ls = length (stmt_holes s) \<and>
    length (remaining_params params (consumed_placeholders (ls_calls ls))) = length (stmt_holes (subst_stmt vs (ls_stmt ls))) \<and>
    zip (stmt_holes (subst_stmt vs (ls_stmt ls))) (remaining_params params (consumed_placeholders (ls_calls ls))) =
      remaining_params (zip (stmt_holes s) params) (consumed_placeholders (ls_calls ls))"
proof -
  let ?c = "call_ordinals (ls_calls ls)"
  note x = extract_from_placeholders [OF assms(1-3), of vs]
  have n: "ls_placeholder_count ls = length (stmt_holes s)"
    and left: "stmt_holes (subst_stmt vs (ls_stmt ls)) = without_ordinals 0 (set ?c) (stmt_holes s)"
    using x by (auto simp: extracts_def)
  have len: "length (stmt_holes s) = length params" using n assms(4) by simp
  have "length (without_ordinals 0 (set ?c) params) = length (without_ordinals 0 (set ?c) (stmt_holes s))"
    using len without_ordinals_length by metis
  with n left len show ?thesis
    using consumed_sorted [OF x] by (simp add: remaining_params_without [OF x] without_ordinals_zip)
qed

definition job_statement :: sql_stmt where
  "job_statement =
     \<lparr>stmt_before = [],
      stmt_items = [UnnamedItem (ExFunction ''get_lock'' False [PlainArg (ExValue (Placeholder ''?'')), PlainArg (ExValue (Number ''5''))] []),
                    UnnamedItem (ExValue (Placeholder ''?''))],
      stmt_after = [ExOther ''='' [ExOther ''owner'' [], ExNested (ExValue (Placeholder ''?''))]]\<rparr>"

theorem parameters_line_up_witness:
  "\<exists>ls. extract_from (\<lambda>e. ''e'') False job_statement = Some (Inr ls) \<and> ls_placeholder_count ls = 3 \<and>
     zip (stmt_holes (subst_stmt [IntValue 1] (ls_stmt ls)))
       (remaining_params [Text ''job'', Integer 7, Text ''me''] (consumed_placeholders (ls_calls ls))) =
     [(''?'', Integer 7), (''?'', Text ''me'')]"
proof -
  define ls where "ls = \<lparr>ls_stmt = \<lparr>stmt_before = [],
      stmt_items = [AliasedItem (sentinel 0) ''e'', UnnamedItem (ExValue (Placeholder ''?''))],
      stmt_after = stmt_after job_statement\<rparr>,
    ls_calls = [\<lparr>lock_fn = GetLock, lock_args = [ArgPlaceholder 0, ArgNumber ''5'']\<rparr>], ls_is_do = False, ls_placeholder_count = 3\<rparr>"
  have f: "lock_function_from_name ''get_lock'' = Some GetLock" by code_simp
  have e: "extract_from (\<lambda>e. ''e'') False job_statement = Some (Inr ls)" "ls_placeholder_count ls = 3"
    "length (ls_calls ls) = 1" "consumed_placeholders (ls_calls ls) = [0]"
    by (simp_all add: ls_def f extract_from_def visit_stmt_def alias_lock_projections_def job_statement_def
        extract_args_def consumed_placeholders_def List.map_filter_def)
  have p: "plain_stmt job_statement" by code_simp
  have "remaining_params (zip (stmt_holes job_statement) [Text ''job'', Integer 7, Text ''me'']) [0] =
      [(''?'', Integer 7), (''?'', Text ''me'')]"
    by (simp add: remaining_params_def job_statement_def stmt_holes_def)
  with parameters_line_up [OF e(1) p, of "[Text ''job'', Integer 7, Text ''me'']" "[IntValue 1]"] e
  show ?thesis by auto
qed

end
