(* ===== verification/Sql_Mode.thy ===== *)
theory Sql_Mode
  imports Sql_Text Wire_Bytes Lock_Calls
begin

text \<open>
  The tokenizer of \<^verbatim>\<open>src/crates/litewire-translate/src/metadata.rs\<close> and what the session does with it:
  recognising \<^verbatim>\<open>SET sql_mode = ...\<close>, building the statement that evaluates an assigned expression, and
  counting placeholders. Strings are their UTF-8 bytes; a tokenizer step over a multi-byte character
  is a step over its bytes, which changes nothing because none of them is a delimiter.

  Slicing a \<^verbatim>\<open>str\<close> inside a character panics in Rust; the result type \<open>rust_result\<close> says so.
\<close>

text \<open>\<^verbatim>\<open>&s[..n]\<close>: out of range or inside a character it panics.\<close>

definition is_char_boundary :: "string \<Rightarrow> nat \<Rightarrow> bool" where
  "is_char_boundary s i \<longleftrightarrow>
     i = 0 \<or> i = length s \<or> i < length s \<and> \<not> (128 \<le> byte_of (s ! i) \<and> byte_of (s ! i) < 192)"

definition slice_to :: "string \<Rightarrow> nat \<Rightarrow> string rust_result" where
  "slice_to s n = (if is_char_boundary s n then Returns (take n s) else Panics)"

section \<open>Tokens\<close>

datatype tok = Word string | Quoted string | Str string | Dot | Semi | OtherTok char

record lexed =
  tok :: tok
  tok_start :: nat

definition is_word_char :: "char \<Rightarrow> bool" where
  "is_word_char c \<longleftrightarrow> is_ascii_alphanumeric c \<or> c = CHR ''_'' \<or> c = CHR ''$'' \<or> 128 \<le> byte_of c"

text \<open>The body of a quoted token: its text, and what follows the closing quote. \<open>None\<close> is an unterminated quote.\<close>

fun lex_quoted :: "char \<Rightarrow> string \<Rightarrow> (string \<times> string) option" where
  "lex_quoted q [] = None"
| "lex_quoted q (b # s) =
     (if b = q
      then (case s of
              b' # s' \<Rightarrow> if b' = q then map_option (\<lambda>(t, r). (q # t, r)) (lex_quoted q s') else Some ([], s)
            | [] \<Rightarrow> Some ([], s))
      else if b = backslash \<and> q \<noteq> bt
      then (case s of
              b' # s' \<Rightarrow> map_option (\<lambda>(t, r). (b' # t, r)) (lex_quoted q s')
            | [] \<Rightarrow> map_option (\<lambda>(t, r). (b # t, r)) (lex_quoted q s))
      else map_option (\<lambda>(t, r). (b # t, r)) (lex_quoted q s))"

lemma lex_quoted_shorter: "lex_quoted q s = Some (t, r) \<Longrightarrow> length r < length s"
  by (induction q s arbitrary: t r rule: lex_quoted.induct)
    (fastforce split: if_splits list.splits)+

text \<open>\<open>lex_at i s\<close> tokenizes \<open>s\<close>, whose first byte has offset \<open>i\<close> in the statement.\<close>

function lex_at :: "nat \<Rightarrow> string \<Rightarrow> translate_error + lexed list" where
  "lex_at i [] = Inr []"
| "lex_at i (c # s) =
     (if is_ascii_whitespace c then lex_at (i + 1) s
      else if c = CHR ''/'' \<and> starts_with s ''*''
      then (case find_str (drop 1 s) ''*/'' of
              None \<Rightarrow> Inl (Parse ''unterminated comment'')
            | Some n \<Rightarrow> lex_at (i + 2 + n + 2) (drop (1 + n + 2) s))
      else if (c = CHR ''-'' \<and> starts_with s ''-'') \<or> c = CHR ''#''
      then (let r = dropWhile (\<lambda>x. x \<noteq> CHR 0x0A) s in lex_at (i + 1 + (length s - length r) + 1) (drop 1 r))
      else if is_span_quote c
      then (case lex_quoted c s of
              None \<Rightarrow> Inl (Parse (''unterminated quote starting at byte '' @ show_nat i))
            | Some (t, r) \<Rightarrow>
                (case lex_at (i + 1 + (length s - length r)) r of
                   Inl e \<Rightarrow> Inl e
                 | Inr ts \<Rightarrow> Inr (\<lparr>tok = (if c = sq then Str t else Quoted t), tok_start = i\<rparr> # ts)))
      else if is_word_char c
      then (case lex_at (i + length (takeWhile is_word_char (c # s))) (dropWhile is_word_char s) of
              Inl e \<Rightarrow> Inl e
            | Inr ts \<Rightarrow> Inr (\<lparr>tok = Word (takeWhile is_word_char (c # s)), tok_start = i\<rparr> # ts))
      else (case lex_at (i + 1) s of
              Inl e \<Rightarrow> Inl e
            | Inr ts \<Rightarrow>
                Inr (\<lparr>tok = (if c = CHR ''.'' then Dot else if c = CHR '';'' then Semi else OtherTok c), tok_start = i\<rparr> # ts)))"
  by pat_completeness auto
termination
proof (relation "measure (\<lambda>(i, s). length s)", goal_cases)
  case (3 i c s r)
  then show ?case using length_dropWhile_le [of "\<lambda>x. x \<noteq> CHR 0x0A" s] by simp
next
  case (5 i c s t r)
  then show ?case by (auto dest: lex_quoted_shorter)
qed (auto simp: less_Suc_eq_le length_dropWhile_le intro: le_trans [OF diff_le_self])

definition lex :: "string \<Rightarrow> translate_error + lexed list" where
  "lex sql = lex_at 0 sql"

section \<open>SET sql_mode\<close>

datatype sql_mode_value = Literal string | DefaultMode | Expression string

record set_sql_mode =
  set_global :: bool
  set_value :: sql_mode_value

definition DEFAULT_SQL_MODE :: string where "DEFAULT_SQL_MODE = []"

definition tok_at :: "lexed list \<Rightarrow> nat \<Rightarrow> tok option" where
  "tok_at toks k = (if k < length toks then Some (tok (toks ! k)) else None)"

definition is_word :: "lexed list \<Rightarrow> nat \<Rightarrow> string \<Rightarrow> bool" where
  "is_word toks k w = (case tok_at toks k of Some (Word x) \<Rightarrow> eq_ignore_ascii_case x w | _ \<Rightarrow> False)"

definition sql_mode_reference :: "lexed list \<Rightarrow> nat \<Rightarrow> (nat \<times> bool) option" where
  "sql_mode_reference toks i =
     (if \<not> (tok_at toks i = Some (OtherTok (CHR ''@'')) \<and> tok_at toks (i + 1) = Some (OtherTok (CHR ''@''))) then None
      else if (is_word toks (i + 2) ''GLOBAL'' \<or> is_word toks (i + 2) ''SESSION'' \<or> is_word toks (i + 2) ''LOCAL'') \<and>
              tok_at toks (i + 3) = Some Dot \<and> is_word toks (i + 4) ''sql_mode''
      then Some (i + 4, is_word toks (i + 2) ''GLOBAL'')
      else if is_word toks (i + 2) ''sql_mode'' then Some (i + 2, False)
      else None)"

definition count_placeholders :: "string \<Rightarrow> nat" where
  "count_placeholders sql =
     (case lex sql of
        Inl e \<Rightarrow> 0
      | Inr toks \<Rightarrow> length (filter (\<lambda>l. tok l = OtherTok (CHR ''?'')) toks))"

fun join_comma :: "string list \<Rightarrow> string" where
  "join_comma [] = []"
| "join_comma [w] = w"
| "join_comma (w # ws) = w @ '','' @ join_comma ws"

definition normalize_sql_mode :: "string \<Rightarrow> string" where
  "normalize_sql_mode s =
     join_comma (filter (\<lambda>m. m \<noteq> []) (map (\<lambda>m. to_ascii_uppercase (trim m)) (split_on (\<lambda>c. c = CHR '','') s)))"

text \<open>The scan for a top-level comma or a semicolon inside the value.\<close>

fun single_value :: "int \<Rightarrow> lexed list \<Rightarrow> bool" where
  "single_value depth [] = True"
| "single_value depth (l # ls) =
     (if tok l = OtherTok (CHR ''('') then single_value (depth + 1) ls
      else if tok l = OtherTok (CHR '')'') then single_value (depth - 1) ls
      else if tok l = OtherTok (CHR '','') \<and> depth = 0 then False
      else if tok l = Semi then False
      else single_value depth ls)"

text \<open>The scope keyword: how many tokens it takes and whether it is not a session scope.\<close>

definition set_scope :: "lexed list \<Rightarrow> nat \<times> bool" where
  "set_scope toks =
     (if is_word toks 1 ''SESSION'' \<or> is_word toks 1 ''LOCAL'' then (2, False)
      else if is_word toks 1 ''GLOBAL'' \<or> is_word toks 1 ''PERSIST'' \<or> is_word toks 1 ''PERSIST_ONLY'' then (2, True)
      else (1, False))"

definition assigned_value :: "string \<Rightarrow> lexed list \<Rightarrow> nat \<Rightarrow> bool \<Rightarrow> set_sql_mode option" where
  "assigned_value trimmed toks i global =
     (if length toks \<le> i then None
      else
        let value_start = tok_start (toks ! i);
            end_tok = (if tok (last toks) = Semi then length toks - 1 else length toks);
            vals = take (end_tok - i) (drop i toks);
            value_end = (if end_tok < length toks then tok_start (toks ! end_tok) else length trimmed);
            raw = trim (take (value_end - value_start) (drop value_start trimmed))
        in if \<not> single_value 0 vals then None
           else case vals of
               [] \<Rightarrow> None
             | [l] \<Rightarrow> Some \<lparr>set_global = global, set_value =
                   (case tok l of
                      Str s \<Rightarrow> Literal (normalize_sql_mode s)
                    | Word w \<Rightarrow> if eq_ignore_ascii_case w ''DEFAULT'' then DefaultMode else Expression raw
                    | _ \<Rightarrow> Expression raw)\<rparr>
             | _ \<Rightarrow> Some \<lparr>set_global = global, set_value = Expression raw\<rparr>)"

definition assigned_from :: "string \<Rightarrow> lexed list \<Rightarrow> set_sql_mode option" where
  "assigned_from trimmed toks =
     (let (i, global) = set_scope toks in
      case (case sql_mode_reference toks i of
              Some (end_tok, g) \<Rightarrow> Some (end_tok + 1, global \<or> g)
            | None \<Rightarrow> if is_word toks i ''sql_mode'' then Some (i + 1, global) else None) of
        None \<Rightarrow> None
      | Some (i1, global1) \<Rightarrow>
          if tok_at toks i1 = Some (OtherTok (CHR '':'')) \<and> tok_at toks (i1 + 1) = Some (OtherTok (CHR ''=''))
          then assigned_value trimmed toks (i1 + 2) global1
          else if tok_at toks i1 = Some (OtherTok (CHR ''='')) then assigned_value trimmed toks (i1 + 1) global1
          else None)"

definition detect_set_sql_mode :: "string \<Rightarrow> set_sql_mode option rust_result" where
  "detect_set_sql_mode sql =
     (let trimmed = trim sql in
      if length trimmed < 3 then Returns None
      else case slice_to trimmed 3 of
        Panics \<Rightarrow> Panics
      | Returns p \<Rightarrow>
          if \<not> eq_ignore_ascii_case p ''SET'' then Returns None
          else case lex trimmed of
            Inl e \<Rightarrow> Returns None
          | Inr toks \<Rightarrow> Returns (if is_word toks 0 ''SET'' then assigned_from trimmed toks else None))"

text \<open>\<^verbatim>\<open>sql_str\<close> of \<^verbatim>\<open>src/crates/litewire-translate/src/catalog.rs\<close>.\<close>

definition sql_str :: "string \<Rightarrow> string" where
  "sql_str s = [sq] @ concat (map (\<lambda>c. if c = sq then [sq, sq] else [c]) s) @ [sq]"

function evaluation_from :: "string \<Rightarrow> lexed list \<Rightarrow> string \<Rightarrow> nat \<Rightarrow> nat \<Rightarrow> string" where
  "evaluation_from expr toks current last_end i =
     (if length toks \<le> i then drop last_end expr
      else case sql_mode_reference toks i of
        Some (end_tok, global) \<Rightarrow>
          take (tok_start (toks ! i) - last_end) (drop last_end expr) @
          sql_str (if global then DEFAULT_SQL_MODE else current) @
          evaluation_from expr toks current (tok_start (toks ! end_tok) + 8) (end_tok + 1)
      | None \<Rightarrow> evaluation_from expr toks current last_end (i + 1))"
  by pat_completeness auto
termination
  by (relation "measure (\<lambda>(expr, toks, current, last_end, i). Suc (length toks) - i)")
    (auto simp: sql_mode_reference_def split: if_splits)

definition evaluation_sql :: "set_sql_mode \<Rightarrow> string \<Rightarrow> string option" where
  "evaluation_sql s current =
     (case set_value s of
        Expression expr \<Rightarrow>
          (case lex expr of
             Inl e \<Rightarrow> None
           | Inr toks \<Rightarrow> Some (''SELECT '' @ evaluation_from expr toks current 0 0))
      | _ \<Rightarrow> None)"

section \<open>Which statements are taken\<close>

lemma letters_not_white: "CHR ''S'' \<notin> set white_bytes" "CHR ''T'' \<notin> set white_bytes"
  by code_simp+

lemma select_not_set: "detect_set_sql_mode (''SELECT '' @ x) = Returns None"
proof -
  obtain m where "trim (CHR ''S'' # ''ELEC'' @ CHR ''T'' # '' '' @ x) = CHR ''S'' # ''ELEC'' @ CHR ''T'' # m"
    using trim_keeps_front [OF letters_not_white, of "''ELEC''" "'' '' @ x"] by blast
  then have t: "trim (''SELECT '' @ x) = ''SELECT'' @ m" by simp
  have b: "is_char_boundary (''SELECT'' @ m) 3"
  proof -
    have "\<not> 128 \<le> byte_of CHR ''E''" by code_simp
    then show ?thesis by (simp add: is_char_boundary_def)
  qed
  have ne: "\<not> eq_ignore_ascii_case ''SEL'' ''SET''" by code_simp
  from t b ne show ?thesis by (simp add: detect_set_sql_mode_def slice_to_def Let_def)
qed

lemma evaluation_sql_select: "evaluation_sql s current = Some sql \<Longrightarrow> \<exists>x. sql = ''SELECT '' @ x"
  by (auto simp: evaluation_sql_def split: sql_mode_value.splits sum.splits)

lemma detect_panics:
  assumes "3 < length (trim sql)" and "128 \<le> byte_of (trim sql ! 3)" and "byte_of (trim sql ! 3) < 192"
  shows "detect_set_sql_mode sql = Panics"
  using assms by (simp add: detect_set_sql_mode_def slice_to_def is_char_boundary_def Let_def)

section \<open>Quoted modes are read back\<close>

lemma lex_quoted_escaped:
  assumes "backslash \<notin> set s"
  shows "lex_quoted sq (concat (map (\<lambda>c. if c = sq then [sq, sq] else [c]) s) @ [sq]) = Some (s, [])"
proof -
  have ne: "sq \<noteq> backslash" by code_simp
  show ?thesis using assms by (induction s) (auto simp: ne)
qed

text \<open>
  Fact (a quoted mode reads back). The session mode that is put in place of \<^verbatim>\<open>@@sql_mode\<close> when an
  assigned expression is evaluated is quoted so that the tokenizer reads exactly that mode back as one
  string, whatever quotes it contains, if it has no backslash.
\<close>

theorem quoted_mode_read_back:
  assumes "backslash \<notin> set mode"
  shows "lex (sql_str mode) = Inr [\<lparr>tok = Str mode, tok_start = 0\<rparr>]"
proof -
  have q: "is_span_quote sq" "\<not> is_ascii_whitespace sq" "sq \<noteq> CHR ''/''" "sq \<noteq> CHR ''-''" "sq \<noteq> CHR ''#''"
    by code_simp+
  from q lex_quoted_escaped [OF assms] show ?thesis by (simp add: lex_def sql_str_def)
qed

theorem quoted_mode_read_back_witness:
  "backslash \<notin> set (''IT'' @ [sq] @ ''S'') \<and>
   lex (sql_str (''IT'' @ [sq] @ ''S'')) = Inr [\<lparr>tok = Str (''IT'' @ [sq] @ ''S''), tok_start = 0\<rparr>]"
proof -
  have "backslash \<notin> set (''IT'' @ [sq] @ ''S'')" by code_simp
  with quoted_mode_read_back [OF this] show ?thesis by blast
qed

end
