(* ===== verification/Session.thy ===== *)
theory Session
  imports Session_Locks Sql_Mode Translate_Cache
begin

text \<open>
  The dialect-aware session (\<^verbatim>\<open>src/crates/litewire-session/src/lib.rs\<close>, with \<^verbatim>\<open>run\<close> of
  \<^verbatim>\<open>src/crates/litewire-session/src/user_locks.rs\<close>): every operation as a function of the session record,
  which holds the connection's state, to its outcome and the record afterwards.

  The connection is any implementation of the backend interface. The SQL translator, the parser and the
  recognisers that work on sqlparser's syntax trees are fields of the environment \<open>env\<close>; the
  translation cache, the classifier, the named-lock machinery, the \<^verbatim>\<open>sql_mode\<close> detection and the error map are
  the definitions of the other theories. \<open>Panic\<close> is a panic of the task.
\<close>

section \<open>The session\<close>

record ('w, 'm) session =
  conn :: 'w
  in_transaction :: bool
  found_rows :: u64
  user_locks_held :: bool
  sql_mode :: "string option"
  sess_dialect :: dialect
  cache :: "'m translate_cache"

datatype ('k, 'b) translate_result = Noop | Metadata 'k | SqlText string | RebuildTable 'b

record ('w, 'm, 'k, 'b) sess_env =
  es_conn :: "'w conn_api"
  es_lru :: "('m, ('k, 'b) translate_result list) lru_api"
  es_text :: text_ops
  es_parse :: "string \<Rightarrow> string + sql_stmt list"
  es_display :: "sql_expr \<Rightarrow> string"
  es_emit :: "sql_stmt \<Rightarrow> translate_error + string"
  es_translate :: "string \<Rightarrow> dialect \<Rightarrow> translate_error + ('k, 'b) translate_result list"
  es_found_rows_column :: "string \<Rightarrow> dialect \<Rightarrow> string option"
  es_connection_id_column :: "string \<Rightarrow> dialect \<Rightarrow> string option"
  es_count_sql :: "string \<Rightarrow> dialect \<Rightarrow> string option"
  es_metadata_sql :: "'k \<Rightarrow> string option \<Rightarrow> string"
  es_rebuild_table :: "'b \<Rightarrow> string"
  es_rebuild_statements :: "'b \<Rightarrow> string \<Rightarrow> string list \<Rightarrow> translate_error + string list"

record session_ok =
  ok_affected_rows :: u64
  ok_last_insert_id :: u64
  ok_in_transaction :: bool
  ok_noop :: bool

datatype session_result = Rows result_set | OkResult session_ok

datatype 'a outcome = Fine 'a | Fails session_error | Panic

type_synonym ('w, 'm, 'a) action = "('w, 'm) session \<Rightarrow> 'a outcome \<times> ('w, 'm) session"

definition and_then :: "('w, 'm, 'a) action \<Rightarrow> ('a \<Rightarrow> ('w, 'm, 'b) action) \<Rightarrow> ('w, 'm, 'b) action" where
  "and_then act f s =
     (case act s of
        (Fine a, s1) \<Rightarrow> f a s1
      | (Fails e, s1) \<Rightarrow> (Fails e, s1)
      | (Panic, s1) \<Rightarrow> (Panic, s1))"

definition on_conn :: "('w \<Rightarrow> ('e + 'a) \<times> 'w) \<Rightarrow> ('w, 'm) session \<Rightarrow> ('e + 'a) \<times> ('w, 'm) session" where
  "on_conn f s = (case f (conn s) of (r, w) \<Rightarrow> (r, s\<lparr>conn := w\<rparr>))"

text \<open>A call of the connection whose error is mapped (\<^verbatim>\<open>.await.map_err(map_backend_err)?\<close>).\<close>

definition backend :: "('w \<Rightarrow> (backend_error + 'a) \<times> 'w) \<Rightarrow> ('w, 'm, 'a) action" where
  "backend f s =
     (case on_conn f s of
        (Inl e, s1) \<Rightarrow> (Fails (map_backend_err e), s1)
      | (Inr a, s1) \<Rightarrow> (Fine a, s1))"

definition session_with_cache :: "'w \<Rightarrow> dialect \<Rightarrow> 'm translate_cache \<Rightarrow> ('w, 'm) session" where
  "session_with_cache w d c =
     \<lparr>conn = w, in_transaction = False, found_rows = 0, user_locks_held = False, sql_mode = None,
      sess_dialect = d, cache = c\<rparr>"

definition ok :: "('w, 'm) session \<Rightarrow> u64 \<Rightarrow> u64 \<Rightarrow> bool \<Rightarrow> session_ok" where
  "ok s affected last_id noop =
     \<lparr>ok_affected_rows = affected, ok_last_insert_id = last_id, ok_in_transaction = in_transaction s, ok_noop = noop\<rparr>"

definition answer_ok :: "u64 \<Rightarrow> u64 \<Rightarrow> bool \<Rightarrow> ('w, 'm, session_result) action" where
  "answer_ok affected last_id noop s = (Fine (OkResult (ok s affected last_id noop)), s)"

section \<open>Named locks\<close>

definition may_hold_user_locks :: "('w, 'm) session \<Rightarrow> bool" where
  "may_hold_user_locks s = user_locks_held s"

definition note_user_lock :: "user_lock_op \<Rightarrow> user_lock_reply \<Rightarrow> ('w, 'm) session \<Rightarrow> ('w, 'm) session" where
  "note_user_lock op reply s =
     (case op of
        Get name timeout \<Rightarrow> if reply = Some 1 then s\<lparr>user_locks_held := True\<rparr> else s
      | ReleaseAll \<Rightarrow> s\<lparr>user_locks_held := False\<rparr>
      | _ \<Rightarrow> s)"

definition user_lock :: "('w, 'm, 'k, 'b) sess_env \<Rightarrow> user_lock_op \<Rightarrow> ('w, 'm, user_lock_reply) action" where
  "user_lock env op =
     and_then (backend (conn_user_lock (es_conn env) op))
       (\<lambda>reply s. (Fine reply, note_user_lock op reply s))"

text \<open>\<^verbatim>\<open>reply.and_then(|n| u64::try_from(n).ok()).unwrap_or(0)\<close>.\<close>

definition reply_count :: "user_lock_reply \<Rightarrow> u64" where
  "reply_count reply = (case reply of None \<Rightarrow> 0 | Some n \<Rightarrow> if 0 \<le> n then word_of_int n else 0)"

definition release_user_locks :: "('w, 'm, 'k, 'b) sess_env \<Rightarrow> ('w, 'm, u64) action" where
  "release_user_locks env s =
     (if \<not> user_locks_held s then (Fine 0, s)
      else and_then (backend (conn_user_lock (es_conn env) ReleaseAll))
             (\<lambda>reply s1. (Fine (reply_count reply), s1\<lparr>user_locks_held := False\<rparr>)) s)"

section \<open>Running a translated statement\<close>

definition count_rows :: "result_set \<Rightarrow> u64" where
  "count_rows rs = (if length (rs_rows rs) < 2 ^ 64 then of_nat (length (rs_rows rs)) else - 1)"

definition clamp_rowid :: "u64 option \<Rightarrow> u64" where
  "clamp_rowid r = (case r of None \<Rightarrow> 0 | Some v \<Rightarrow> if sint v < 0 then 0 else v)"

definition run_transaction :: "('w, 'm, 'k, 'b) sess_env \<Rightarrow> string \<Rightarrow> ('w, 'm, session_result) action" where
  "run_transaction env sql s =
     (let upper = to_ascii_uppercase (trim sql) in
      case on_conn (conn_execute (es_conn env) sql []) s of
        (Inl e, s1) \<Rightarrow>
          if sess_dialect s1 = MySQL \<and> (upper = ''COMMIT'' \<or> upper = ''ROLLBACK'') \<and>
             contains_str (backend_error_to_string e) ''no transaction is active''
          then answer_ok 0 0 False (s1\<lparr>in_transaction := False\<rparr>)
          else (Fails (map_backend_err e), s1)
      | (Inr r, s1) \<Rightarrow>
          answer_ok 0 0 False
            (if starts_with upper ''BEGIN'' \<or> starts_with upper ''START'' then s1\<lparr>in_transaction := True\<rparr>
             else if starts_with upper ''COMMIT'' \<or> starts_with upper ''ROLLBACK'' then s1\<lparr>in_transaction := False\<rparr>
             else s1))"

definition run_translated ::
  "('w, 'm, 'k, 'b) sess_env \<Rightarrow> string \<Rightarrow> statement_kind \<Rightarrow> backend_value list \<Rightarrow> ('w, 'm, session_result) action" where
  "run_translated env sql kind params =
     (case kind of
        Query \<Rightarrow> and_then (backend (conn_query (es_conn env) sql params))
          (\<lambda>rs s. (Fine (Rows rs), s\<lparr>found_rows := count_rows rs\<rparr>))
      | Transaction \<Rightarrow> run_transaction env sql
      | _ \<Rightarrow> and_then (backend (conn_execute (es_conn env) sql params))
          (\<lambda>r. answer_ok (affected_rows r) (clamp_rowid (last_insert_rowid r)) False))"

section \<open>Dropping an index by its scoped name\<close>

definition INDEX_NAME_SEPARATOR :: string where "INDEX_NAME_SEPARATOR = ''__''"

definition dropped_index_name :: "string \<Rightarrow> string option" where
  "dropped_index_name sql =
     (case Option.bind (strip_prefix sql (''DROP INDEX '' @ [bt])) (\<lambda>r. strip_suffix r [bt]) of
        None \<Rightarrow> None
      | Some name \<Rightarrow> if contains_str name INDEX_NAME_SEPARATOR \<and> bt \<notin> set name then Some name else None)"

definition double_quotes :: "string \<Rightarrow> string" where
  "double_quotes s = concat (map (\<lambda>c. if c = dq then [dq, dq] else [c]) s)"

definition legacy_index_sql :: string where
  "legacy_index_sql =
     ''SELECT name FROM sqlite_master WHERE type = '' @ [sq] @ ''index'' @ [sq] @ '' AND (tbl_name || '' @ [sq] @ ''__'' @ [sq] @
     '' || name) = ?1 COLLATE NOCASE''"

definition drop_legacy_index :: "('w, 'm, 'k, 'b) sess_env \<Rightarrow> string \<Rightarrow> string \<Rightarrow> ('w, 'm, session_result) action" where
  "drop_legacy_index env mangled message s =
     (let e = classify_error message;
          not_found = Fails (Db (err_code e) (err_sqlstate e) message)
      in case on_conn (conn_query (es_conn env) legacy_index_sql [Text mangled]) s of
        (Inl _, s1) \<Rightarrow> (not_found, s1)
      | (Inr rs, s1) \<Rightarrow>
          (case rs_rows rs of
             [Text legacy # _] \<Rightarrow>
               run_translated env (''DROP INDEX '' @ [dq] @ double_quotes legacy @ [dq]) Ddl [] s1
           | _ \<Rightarrow> (not_found, s1)))"

section \<open>Rebuilding a table\<close>

definition rebuild_table_sql :: string where
  "rebuild_table_sql =
     ''SELECT sql FROM sqlite_master WHERE type = '' @ [sq] @ ''table'' @ [sq] @ '' AND name = ?1 COLLATE NOCASE''"

definition rebuild_dependents_sql :: string where
  "rebuild_dependents_sql =
     ''SELECT sql FROM sqlite_master WHERE type IN ('' @ [sq] @ ''index'' @ [sq] @ '', '' @ [sq] @ ''trigger'' @ [sq] @
     '') AND tbl_name = ?1 COLLATE NOCASE AND sql IS NOT NULL ORDER BY rowid''"

definition text_column :: "result_set \<Rightarrow> string list" where
  "text_column rs = List.map_filter (\<lambda>row. case row of Text t # _ \<Rightarrow> Some t | _ \<Rightarrow> None) (rs_rows rs)"

definition rebuild_bracket :: "bool \<Rightarrow> string \<times> string \<times> string" where
  "rebuild_bracket nested =
     (if nested
      then (''SAVEPOINT litewire_rebuild'', ''RELEASE SAVEPOINT litewire_rebuild'', ''ROLLBACK TO SAVEPOINT litewire_rebuild'')
      else (''BEGIN'', ''COMMIT'', ''ROLLBACK''))"

fun rebuild_steps :: "('w, 'm, 'k, 'b) sess_env \<Rightarrow> string \<Rightarrow> string list \<Rightarrow> ('w, 'm, unit) action" where
  "rebuild_steps env rollback [] s = (Fine (), s)"
| "rebuild_steps env rollback (stmt # stmts) s =
     (case on_conn (conn_execute (es_conn env) stmt []) s of
        (Inr _, s1) \<Rightarrow> rebuild_steps env rollback stmts s1
      | (Inl e, s1) \<Rightarrow>
          (let s2 = snd (on_conn (conn_execute (es_conn env) rollback []) s1);
               s3 = (if in_transaction s2 then snd (on_conn (conn_execute (es_conn env) ''RELEASE SAVEPOINT litewire_rebuild'' []) s2)
                     else s2)
           in (Fails (map_backend_err e), s3)))"

definition rebuild_within :: "('w, 'm, 'k, 'b) sess_env \<Rightarrow> string list \<Rightarrow> ('w, 'm, session_result) action" where
  "rebuild_within env stmts s =
     (case rebuild_bracket (in_transaction s) of (open_sql, commit, rollback) \<Rightarrow>
        and_then (backend (conn_execute (es_conn env) open_sql []))
          (\<lambda>_. and_then (rebuild_steps env rollback stmts)
            (\<lambda>_. and_then (backend (conn_execute (es_conn env) commit []))
              (\<lambda>_. answer_ok 0 0 False))) s)"

definition no_such_table_error :: "string \<Rightarrow> session_error" where
  "no_such_table_error t =
     (let e = classify_error (''no such table: '' @ t)
      in Db (err_code e) (err_sqlstate e) (''Table '' @ [sq] @ t @ [sq] @ '' doesn'' @ [sq] @ ''t exist''))"

definition rebuild_table :: "('w, 'm, 'k, 'b) sess_env \<Rightarrow> 'b \<Rightarrow> ('w, 'm, session_result) action" where
  "rebuild_table env plan =
     (let t = es_rebuild_table env plan in
      and_then (backend (conn_query (es_conn env) rebuild_table_sql [Text t]))
        (\<lambda>rs. case first_value rs of
           Some (Text table_sql) \<Rightarrow>
             and_then (backend (conn_query (es_conn env) rebuild_dependents_sql [Text t]))
               (\<lambda>deps. case es_rebuild_statements env plan table_sql (text_column deps) of
                  Inl e \<Rightarrow> (\<lambda>s. (Fails (Translate e), s))
                | Inr stmts \<Rightarrow> rebuild_within env stmts)
         | _ \<Rightarrow> (\<lambda>s. (Fails (no_such_table_error t), s))))"

section \<open>Dispatch\<close>

definition dispatch ::
  "('w, 'm, 'k, 'b) sess_env \<Rightarrow> ('k, 'b) translate_result \<Rightarrow> backend_value list \<Rightarrow> ('w, 'm, session_result) action" where
  "dispatch env result params s =
     (case result of
        Noop \<Rightarrow> answer_ok 0 0 True s
      | Metadata meta \<Rightarrow> run_translated env (es_metadata_sql env meta (sql_mode s)) Query [] s
      | RebuildTable plan \<Rightarrow> rebuild_table env plan s
      | SqlText sql \<Rightarrow>
          (case (run_translated env sql (classify sql) params s, dropped_index_name sql) of
             ((Fails (Db code sqlstate message), s1), Some mangled) \<Rightarrow>
               if contains_str (to_ascii_lowercase message) ''no such index''
               then drop_legacy_index env mangled message s1
               else (Fails (Db code sqlstate message), s1)
           | (other, _) \<Rightarrow> other))"

fun dispatch_all ::
  "('w, 'm, 'k, 'b) sess_env \<Rightarrow> ('k, 'b) translate_result list \<Rightarrow> backend_value list \<Rightarrow> session_result \<Rightarrow> ('w, 'm, session_result) action" where
  "dispatch_all env [] params last_result = (\<lambda>s. (Fine last_result, s))"
| "dispatch_all env (r # rs) params last_result =
     and_then (dispatch env r params) (dispatch_all env rs params)"

section \<open>FOUND_ROWS and CONNECTION_ID\<close>

definition one_integer :: "string \<Rightarrow> u64 \<Rightarrow> result_set" where
  "one_integer name n =
     \<lparr>rs_columns = [\<lparr>col_name = name, decltype = Some ''INTEGER''\<rparr>], rs_rows = [[Integer n]]\<rparr>"

definition take_found_rows :: "string \<Rightarrow> ('w, 'm, session_result) action" where
  "take_found_rows name s =
     (Fine (Rows (one_integer name (if uint (found_rows s) \<le> i64_max then found_rows s else word_of_int i64_max))),
      s\<lparr>found_rows := 1\<rparr>)"

definition connection_id_row :: "('w, 'm, 'k, 'b) sess_env \<Rightarrow> string \<Rightarrow> ('w, 'm, session_result) action" where
  "connection_id_row env name s =
     (case on_conn (conn_user_lock (es_conn env) ConnectionId) s of
        (Inr reply, s1) \<Rightarrow> (Fine (Rows (one_integer name (case reply of None \<Rightarrow> 0 | Some n \<Rightarrow> word_of_int n))), s1)
      | (Inl e, s1) \<Rightarrow> (Fine (Rows (one_integer name 0)), s1))"

definition store_calc_found_rows :: "('w, 'm, 'k, 'b) sess_env \<Rightarrow> string \<Rightarrow> backend_value list \<Rightarrow> ('w, 'm) session \<Rightarrow> ('w, 'm) session" where
  "store_calc_found_rows env count_sql params s =
     (case on_conn (conn_query (es_conn env) count_sql params) s of
        (Inr rs, s1) \<Rightarrow>
          (case first_value rs of
             Some (Integer n) \<Rightarrow> s1\<lparr>found_rows := (if 0 \<le> sint n then n else 0)\<rparr>
           | _ \<Rightarrow> s1)
      | (Inl e, s1) \<Rightarrow> s1)"

text \<open>The count that follows a successful statement which returned rows.\<close>

definition with_count ::
  "('w, 'm, 'k, 'b) sess_env \<Rightarrow> string option \<Rightarrow> backend_value list \<Rightarrow> session_result \<Rightarrow> ('w, 'm, session_result) action" where
  "with_count env count_sql params result s =
     (case (count_sql, result) of
        (Some c, Rows _) \<Rightarrow> (Fine result, store_calc_found_rows env c params s)
      | _ \<Rightarrow> (Fine result, s))"

section \<open>Statements with lock calls\<close>

fun run_calls :: "('w, 'm, 'k, 'b) sess_env \<Rightarrow> lock_call list \<Rightarrow> backend_value list \<Rightarrow> ('w, 'm, lock_value list) action" where
  "run_calls env [] params s = (Fine [], s)"
| "run_calls env (call # rest) params s =
     (case build_op (es_text env) call params of
        Inl e \<Rightarrow> (Fails e, s)
      | Inr None \<Rightarrow> and_then (run_calls env rest params) (\<lambda>vs s1. (Fine (NullValue # vs), s1)) s
      | Inr (Some op) \<Rightarrow>
          and_then (user_lock env op)
            (\<lambda>reply. and_then (run_calls env rest params)
              (\<lambda>vs s1. (Fine ((case reply of None \<Rightarrow> NullValue | Some n \<Rightarrow> IntValue n) # vs), s1))) s)"

definition run_locks :: "('w, 'm, 'k, 'b) sess_env \<Rightarrow> lock_statement \<Rightarrow> backend_value list \<Rightarrow> ('w, 'm, session_result) action" where
  "run_locks env plan params =
     and_then (run_calls env (ls_calls plan) params)
       (\<lambda>vals. case to_sqlite (es_emit env) plan vals of
          Inl e \<Rightarrow> (\<lambda>s. (Fails (Translate e), s))
        | Inr sqlite \<Rightarrow>
            let remaining = remaining_params params (consumed_placeholders (ls_calls plan)) in
            if ls_is_do plan
            then and_then (backend (conn_query (es_conn env) sqlite remaining)) (\<lambda>_. answer_ok 0 0 False)
            else run_translated env sqlite Query remaining)"

section \<open>Queries\<close>

definition translate_via_cache :: "('w, 'm, 'k, 'b) sess_env \<Rightarrow> string \<Rightarrow> ('w, 'm, ('k, 'b) translate_result list) action" where
  "translate_via_cache env sql s =
     (case translate_cached (es_lru env) (es_translate env) (cache s) sql (sess_dialect s) of
        (Inl e, c) \<Rightarrow> (Fails (Translate e), s\<lparr>cache := c\<rparr>)
      | (Inr rs, c) \<Rightarrow> (Fine rs, s\<lparr>cache := c\<rparr>))"

definition multi_params_error :: session_error where
  "multi_params_error =
     Translate (Unsupported ''parameters cannot be bound to a statement that expands to multiple SQLite statements'')"

text \<open>The path of every statement that is none of the session's own.\<close>

definition query_plain :: "('w, 'm, 'k, 'b) sess_env \<Rightarrow> string \<Rightarrow> backend_value list \<Rightarrow> ('w, 'm, session_result) action" where
  "query_plain env sql params s =
     (case es_found_rows_column env sql (sess_dialect s) of
        Some name \<Rightarrow> take_found_rows name s
      | None \<Rightarrow>
     (case es_connection_id_column env sql (sess_dialect s) of
        Some name \<Rightarrow> connection_id_row env name s
      | None \<Rightarrow>
          and_then (translate_via_cache env sql)
            (\<lambda>translated s1.
               if 1 < length translated \<and> params \<noteq> [] then (Fails multi_params_error, s1)
               else and_then (dispatch_all env translated params (OkResult (ok s1 0 0 True)))
                      (with_count env (es_count_sql env sql (sess_dialect s)) params) s1) s))"

definition detect_locks :: "('w, 'm, 'k, 'b) sess_env \<Rightarrow> string \<Rightarrow> dialect \<Rightarrow> (translate_error + lock_statement) option" where
  "detect_locks env = detect (es_parse env) (es_display env)"

text \<open>
  \<open>query_other\<close> is \<^verbatim>\<open>query\<close> without its \<^verbatim>\<open>SET sql_mode\<close> branch; that branch evaluates a \<^verbatim>\<open>SELECT\<close> by calling
  \<^verbatim>\<open>query\<close> again, which for a \<^verbatim>\<open>SELECT\<close> is \<open>query_other\<close> (lemma \<open>query_select\<close>).
\<close>

definition query_other :: "('w, 'm, 'k, 'b) sess_env \<Rightarrow> string \<Rightarrow> backend_value list \<Rightarrow> ('w, 'm, session_result) action" where
  "query_other env sql params s =
     (case detect_locks env sql (sess_dialect s) of
        Some (Inl e) \<Rightarrow> (Fails (Translate e), s)
      | Some (Inr plan) \<Rightarrow> run_locks env plan params s
      | None \<Rightarrow> query_plain env sql params s)"

definition sql_mode_text :: "('w, 'm) session \<Rightarrow> string" where
  "sql_mode_text s = (case sql_mode s of Some m \<Rightarrow> m | None \<Rightarrow> DEFAULT_SQL_MODE)"

definition unsupported :: "string \<Rightarrow> session_error" where
  "unsupported msg = Translate (Unsupported msg)"

definition mode_of_result :: "text_ops \<Rightarrow> session_result \<Rightarrow> session_error + string" where
  "mode_of_result tx result =
     (case result of
        OkResult _ \<Rightarrow> Inl (unsupported ''sql_mode expression produced no value'')
      | Rows rs \<Rightarrow>
          (case first_value rs of
             Some (Text t) \<Rightarrow> Inr (normalize_sql_mode t)
           | Some Null \<Rightarrow> Inl (unsupported ''sql_mode cannot be set to NULL'')
           | None \<Rightarrow> Inl (unsupported ''sql_mode cannot be set to NULL'')
           | Some other \<Rightarrow> Inr (to_ascii_uppercase (value_to_string (f64_ops.truncate tx) other))))"

definition assigned_mode :: "('w, 'm, 'k, 'b) sess_env \<Rightarrow> set_sql_mode \<Rightarrow> backend_value list \<Rightarrow> ('w, 'm, string option) action" where
  "assigned_mode env chg params s =
     (case set_value chg of
        Literal m \<Rightarrow> (Fine (Some m), s)
      | DefaultMode \<Rightarrow> (Fine None, s)
      | Expression _ \<Rightarrow>
          (case evaluation_sql chg (sql_mode_text s) of
             None \<Rightarrow> (Fails (unsupported ''unsupported sql_mode expression''), s)
           | Some select \<Rightarrow>
               and_then (query_other env select params)
                 (\<lambda>result s1. case mode_of_result (es_text env) result of
                    Inl e \<Rightarrow> (Fails e, s1)
                  | Inr m \<Rightarrow> (Fine (Some m), s1)) s))"

definition set_sql_mode_action :: "('w, 'm, 'k, 'b) sess_env \<Rightarrow> set_sql_mode \<Rightarrow> backend_value list \<Rightarrow> ('w, 'm, session_result) action" where
  "set_sql_mode_action env chg params =
     and_then (assigned_mode env chg params)
       (\<lambda>m s. answer_ok 0 0 True (if set_global chg then s else s\<lparr>sql_mode := m\<rparr>))"

definition query :: "('w, 'm, 'k, 'b) sess_env \<Rightarrow> string \<Rightarrow> backend_value list \<Rightarrow> ('w, 'm, session_result) action" where
  "query env sql params s =
     (case detect_locks env sql (sess_dialect s) of
        Some (Inl e) \<Rightarrow> (Fails (Translate e), s)
      | Some (Inr plan) \<Rightarrow> run_locks env plan params s
      | None \<Rightarrow>
          if sess_dialect s = MySQL
          then (case detect_set_sql_mode sql of
                  Panics \<Rightarrow> (Panic, s)
                | Returns (Some chg) \<Rightarrow> set_sql_mode_action env chg params s
                | Returns None \<Rightarrow> query_plain env sql params s)
          else query_plain env sql params s)"

lemma query_select: "query env (''SELECT '' @ x) params s = query_other env (''SELECT '' @ x) params s"
  unfolding query_def query_other_def select_not_set
  by (simp split: option.splits sum.splits)

section \<open>Prepared statements\<close>

definition translate_sql :: "('w, 'm, 'k, 'b) sess_env \<Rightarrow> string \<Rightarrow> ('w, 'm, string \<times> statement_kind) action" where
  "translate_sql env sql =
     and_then (translate_via_cache env sql)
       (\<lambda>translated s. (Fine
          (case translated of
             [] \<Rightarrow> ([], OtherKind)
           | Noop # _ \<Rightarrow> ([], OtherKind)
           | Metadata meta # _ \<Rightarrow> (es_metadata_sql env meta (sql_mode s), Query)
           | SqlText t # _ \<Rightarrow> (t, classify t)
           | RebuildTable _ # _ \<Rightarrow> ([], Ddl)), s))"

datatype prepared_special =
    FoundRows string
  | ConnectionIdRow string
  | CalcFoundRows string
  | UserLocks string nat
  | Requery string nat

record prepared =
  sqlite_sql :: string
  prep_kind :: statement_kind
  special :: "prepared_special option"

definition param_count :: "prepared \<Rightarrow> nat" where
  "param_count p =
     (case special p of
        Some (UserLocks sql n) \<Rightarrow> n
      | Some (Requery sql n) \<Rightarrow> n
      | _ \<Rightarrow> length (filter (\<lambda>c. c = CHR ''?'') (sqlite_sql p)))"

definition describe_shim :: "string \<Rightarrow> string" where
  "describe_shim name = ''SELECT abs(0) AS '' @ [dq] @ double_quotes name @ [dq]"

definition is_rebuild :: "('k, 'b) translate_result \<Rightarrow> bool" where
  "is_rebuild r = (case r of RebuildTable _ \<Rightarrow> True | _ \<Rightarrow> False)"

definition prepare_plain :: "('w, 'm, 'k, 'b) sess_env \<Rightarrow> string \<Rightarrow> ('w, 'm, prepared) action" where
  "prepare_plain env sql s =
     (case es_found_rows_column env sql (sess_dialect s) of
        Some name \<Rightarrow> (Fine \<lparr>sqlite_sql = describe_shim name, prep_kind = Query, special = Some (FoundRows name)\<rparr>, s)
      | None \<Rightarrow>
     (case es_connection_id_column env sql (sess_dialect s) of
        Some name \<Rightarrow> (Fine \<lparr>sqlite_sql = describe_shim name, prep_kind = Query, special = Some (ConnectionIdRow name)\<rparr>, s)
      | None \<Rightarrow>
          and_then (translate_via_cache env sql)
            (\<lambda>translated.
               if list_ex is_rebuild translated
               then (\<lambda>s1. (Fine \<lparr>sqlite_sql = [], prep_kind = Ddl, special = Some (Requery sql (count_placeholders sql))\<rparr>, s1))
               else and_then (translate_sql env sql)
                      (\<lambda>(t, kind) s1. (Fine \<lparr>sqlite_sql = t, prep_kind = kind,
                         special = map_option CalcFoundRows (es_count_sql env sql (sess_dialect s))\<rparr>, s1))) s))"

definition prepare_locks :: "('w, 'm, 'k, 'b) sess_env \<Rightarrow> string \<Rightarrow> lock_statement \<Rightarrow> ('w, 'm, prepared) action" where
  "prepare_locks env sql plan s =
     (case to_sqlite (es_emit env) plan (replicate (length (ls_calls plan)) (IntValue 0)) of
        Inl e \<Rightarrow> (Fails (Translate e), s)
      | Inr t \<Rightarrow>
          (Fine \<lparr>sqlite_sql = t, prep_kind = (if ls_is_do plan then OtherKind else Query),
             special = Some (UserLocks sql (ls_placeholder_count plan))\<rparr>, s))"

definition set_placeholders :: "set_sql_mode \<Rightarrow> nat" where
  "set_placeholders chg = (case set_value chg of Expression e \<Rightarrow> count_placeholders e | _ \<Rightarrow> 0)"

definition prepare :: "('w, 'm, 'k, 'b) sess_env \<Rightarrow> string \<Rightarrow> ('w, 'm, prepared) action" where
  "prepare env sql s =
     (case detect_locks env sql (sess_dialect s) of
        Some (Inl e) \<Rightarrow> (Fails (Translate e), s)
      | Some (Inr plan) \<Rightarrow> prepare_locks env sql plan s
      | None \<Rightarrow>
          if sess_dialect s = MySQL
          then (case detect_set_sql_mode sql of
                  Panics \<Rightarrow> (Panic, s)
                | Returns (Some chg) \<Rightarrow>
                    (Fine \<lparr>sqlite_sql = [], prep_kind = OtherKind, special = Some (Requery sql (set_placeholders chg))\<rparr>, s)
                | Returns None \<Rightarrow> prepare_plain env sql s)
          else prepare_plain env sql s)"

definition prepared_count :: "prepared \<Rightarrow> string option" where
  "prepared_count p = (case special p of Some (CalcFoundRows c) \<Rightarrow> Some c | _ \<Rightarrow> None)"

definition execute_prepared :: "('w, 'm, 'k, 'b) sess_env \<Rightarrow> prepared \<Rightarrow> backend_value list \<Rightarrow> ('w, 'm, session_result) action" where
  "execute_prepared env p params =
     (case special p of
        Some (FoundRows name) \<Rightarrow> take_found_rows name
      | Some (ConnectionIdRow name) \<Rightarrow> connection_id_row env name
      | Some (UserLocks sql n) \<Rightarrow> query env sql params
      | Some (Requery sql n) \<Rightarrow> query env sql params
      | _ \<Rightarrow>
          if sqlite_sql p = [] then answer_ok 0 0 True
          else and_then (run_translated env (sqlite_sql p) (prep_kind p) params)
                 (with_count env (prepared_count p) params))"

end
