(* ===== verification/Session_Props.thy ===== *)
theory Session_Props
  imports Session
begin

text \<open>
  What the session layer promises: the prepared path agrees with the text path, a table rebuild is
  bracketed by a transaction or a savepoint, a failed statement leaves the session as it was, and the
  record of held locks is conservative.
\<close>

named_theorems blind_intros \<open>actions that do not look at the translation cache\<close>

section \<open>Actions that ignore the cache\<close>

definition blind :: "('w, 'm, 'a) action \<Rightarrow> bool" where
  "blind act \<longleftrightarrow> (\<forall>s c. act (s\<lparr>cache := c\<rparr>) = apsnd (\<lambda>s. s\<lparr>cache := c\<rparr>) (act s))"

lemma blindD: "blind act \<Longrightarrow> act (s\<lparr>cache := c\<rparr>) = apsnd (\<lambda>s. s\<lparr>cache := c\<rparr>) (act s)"
  by (simp add: blind_def)

lemma blind_and_then [blind_intros]: "blind act \<Longrightarrow> (\<And>a. blind (f a)) \<Longrightarrow> blind (and_then act f)"
  by (auto simp: blind_def and_then_def split: prod.splits outcome.splits)

lemma on_conn_cache: "on_conn f (s\<lparr>cache := c\<rparr>) = apsnd (\<lambda>s. s\<lparr>cache := c\<rparr>) (on_conn f s)"
  by (simp add: on_conn_def split: prod.splits)

lemma blind_backend [blind_intros]: "blind (backend f)"
  by (auto simp: blind_def backend_def on_conn_cache split: prod.splits sum.splits)

lemma blind_answer_ok [blind_intros]: "blind (answer_ok a l n)"
  by (simp add: blind_def answer_ok_def ok_def)

lemma blind_run_transaction [blind_intros]: "blind (run_transaction env sql)"
  by (auto simp: blind_def run_transaction_def on_conn_cache answer_ok_def ok_def Let_def split: prod.splits sum.splits)

lemma blind_found_rows [blind_intros]: "blind (\<lambda>s. (Fine (Rows rs), s\<lparr>found_rows := n\<rparr>))"
  by (simp add: blind_def)

lemma blind_run_translated [blind_intros]: "blind (run_translated env sql kind params)"
  by (cases kind) (auto simp: run_translated_def intro!: blind_intros)

lemma blind_with_count [blind_intros]: "blind (with_count env count_sql params result)"
  by (auto simp: blind_def with_count_def store_calc_found_rows_def on_conn_cache
      split: option.splits session_result.splits prod.splits sum.splits backend_value.splits)

section \<open>The prepared path\<close>

lemma translate_via_cache_ok:
  assumes "lru_laws (es_lru env)" and "cache_ok (es_lru env) (es_translate env) cap (cache s)"
    and "es_translate env sql (sess_dialect s) = Inr rs"
  shows "\<exists>c. translate_via_cache env sql s = (Fine rs, s\<lparr>cache := c\<rparr>) \<and> cache_ok (es_lru env) (es_translate env) cap c"
  using translate_cached_ok [OF assms(1,2), of sql "sess_dialect s"] assms(3)
  by (auto simp: translate_via_cache_def split: prod.splits)

lemma query_plain_single:
  assumes "lru_laws (es_lru env)" and "cache_ok (es_lru env) (es_translate env) cap (cache s)"
    and "es_translate env sql (sess_dialect s) = Inr [SqlText t]" and "dropped_index_name t = None"
    and "es_found_rows_column env sql (sess_dialect s) = None" and "es_connection_id_column env sql (sess_dialect s) = None"
  shows "\<exists>c. query_plain env sql params s =
    and_then (run_translated env t (classify t) params) (with_count env (es_count_sql env sql (sess_dialect s)) params) (s\<lparr>cache := c\<rparr>)"
proof -
  obtain c where c: "translate_via_cache env sql s = (Fine [SqlText t], s\<lparr>cache := c\<rparr>)"
    using translate_via_cache_ok [OF assms(1-3)] by blast
  have "dispatch_all env [SqlText t] params last_result = run_translated env t (classify t) params" for last_result
    using assms(4) by (auto simp: fun_eq_iff and_then_def dispatch_def split: prod.splits outcome.splits session_error.splits)
  with c assms(5,6) show ?thesis by (auto simp: query_plain_def and_then_def)
qed

lemma prepare_plain_single:
  assumes "lru_laws (es_lru env)" and "cache_ok (es_lru env) (es_translate env) cap (cache s)"
    and "es_translate env sql (sess_dialect s) = Inr [SqlText t]"
    and "es_found_rows_column env sql (sess_dialect s) = None" and "es_connection_id_column env sql (sess_dialect s) = None"
  shows "\<exists>c. prepare_plain env sql s =
    (Fine \<lparr>sqlite_sql = t, prep_kind = classify t,
       special = map_option CalcFoundRows (es_count_sql env sql (sess_dialect s))\<rparr>, s\<lparr>cache := c\<rparr>)"
proof -
  obtain c where c: "translate_via_cache env sql s = (Fine [SqlText t], s\<lparr>cache := c\<rparr>)"
    "cache_ok (es_lru env) (es_translate env) cap c"
    using translate_via_cache_ok [OF assms(1-3)] by blast
  obtain d where d: "translate_via_cache env sql (s\<lparr>cache := c\<rparr>) = (Fine [SqlText t], s\<lparr>cache := d\<rparr>)"
    using translate_via_cache_ok [OF assms(1), of cap "s\<lparr>cache := c\<rparr>" sql] c(2) assms(3) by auto
  from c d assms(4,5) show ?thesis
    by (auto simp: prepare_plain_def and_then_def translate_sql_def is_rebuild_def)
qed

lemma execute_plain:
  assumes "special p = map_option CalcFoundRows count_sql" and "sqlite_sql p \<noteq> []"
  shows "execute_prepared env p params =
    and_then (run_translated env (sqlite_sql p) (prep_kind p) params) (with_count env count_sql params)"
  using assms by (cases count_sql) (auto simp: execute_prepared_def prepared_count_def)

text \<open>Statements the session answers itself are prepared as themselves and run again as text.\<close>

lemma prepare_locks_requery:
  assumes "prepare_locks env sql plan s = (Fine p, s1)"
  shows "execute_prepared env p params s1 = query env sql params s"
  using assms by (auto simp: prepare_locks_def execute_prepared_def split: sum.splits)

lemma prepare_columns:
  assumes "prepare_plain env sql s = (Fine p, s1)"
    and "es_found_rows_column env sql (sess_dialect s) \<noteq> None \<or> es_connection_id_column env sql (sess_dialect s) \<noteq> None"
  shows "execute_prepared env p params s1 = query_plain env sql params s"
  using assms
  by (cases "es_found_rows_column env sql (sess_dialect s)"; cases "es_connection_id_column env sql (sess_dialect s)")
    (auto simp: prepare_plain_def query_plain_def execute_prepared_def)

lemma prepare_cases:
  assumes "prepare env sql s = (Fine p, s1)"
  obtains (own) "execute_prepared env p params s1 = query env sql params s"
  | (plain) "prepare_plain env sql s = (Fine p, s1)" "query env sql params s = query_plain env sql params s"
proof (cases "detect_locks env sql (sess_dialect s)")
  case (Some d)
  then show ?thesis using assms own prepare_locks_requery [of env sql _ s p s1 params]
    by (cases d) (auto simp: prepare_def)
next
  case None
  show ?thesis
  proof (cases "sess_dialect s = MySQL")
    case True
    show ?thesis
    proof (cases "detect_set_sql_mode sql")
      case (Returns r)
      with assms None True own plain show ?thesis
        by (cases r) (auto simp: prepare_def query_def execute_prepared_def)
    qed (use assms None True in \<open>auto simp: prepare_def\<close>)
  next
    case False
    with assms None plain show ?thesis by (auto simp: prepare_def query_def)
  qed
qed

text \<open>
  Property C13 (prepared statements behave like text). Executing a prepared statement that
  translates to one SQLite statement gives the same answer, the same effects on the backend and the same
  session state, up to the contents of the translation cache, as sending its text; statements with
  lock calls, \<^verbatim>\<open>FOUND_ROWS()\<close>, \<^verbatim>\<open>CONNECTION_ID()\<close> and \<^verbatim>\<open>SET sql_mode\<close> included. Dropping an index by its
  scoped name is the exception.
\<close>

theorem prepared_matches_text:
  assumes "lru_laws (es_lru env)" and "cache_ok (es_lru env) (es_translate env) cap (cache s)"
    and "es_translate env sql (sess_dialect s) = Inr [SqlText t]" and "t \<noteq> []" and "dropped_index_name t = None"
    and "prepare env sql s = (Fine p, s1)"
  shows "fst (execute_prepared env p params s1) = fst (query env sql params s) \<and>
    (snd (execute_prepared env p params s1))\<lparr>cache := c\<rparr> = (snd (query env sql params s))\<lparr>cache := c\<rparr>"
  using assms(6)
proof (cases rule: prepare_cases [where params = params])
  case plain
  show ?thesis
  proof (cases "es_found_rows_column env sql (sess_dialect s) = None \<and> es_connection_id_column env sql (sess_dialect s) = None")
    case True
    let ?act = "and_then (run_translated env t (classify t) params) (with_count env (es_count_sql env sql (sess_dialect s)) params)"
    obtain c1 where q: "query env sql params s = ?act (s\<lparr>cache := c1\<rparr>)"
      using query_plain_single [OF assms(1-3,5)] True plain(2) by metis
    obtain c2 where p: "p = \<lparr>sqlite_sql = t, prep_kind = classify t,
         special = map_option CalcFoundRows (es_count_sql env sql (sess_dialect s))\<rparr>" "s1 = s\<lparr>cache := c2\<rparr>"
      using prepare_plain_single [OF assms(1-3)] True plain(1) by fastforce
    have "blind ?act" by (intro blind_intros)
    then have "?act (s\<lparr>cache := d\<rparr>) = apsnd (\<lambda>s. s\<lparr>cache := d\<rparr>) (?act s)" for d by (rule blindD)
    moreover have "execute_prepared env p params s1 = ?act (s\<lparr>cache := c2\<rparr>)"
      using execute_plain [of p "es_count_sql env sql (sess_dialect s)" env params] assms(4) by (simp add: p)
    ultimately show ?thesis by (simp add: q)
  qed (use prepare_columns [OF plain(1)] plain(2) in simp)
qed simp

section \<open>A connection and an environment to evaluate with\<close>

definition echo_conn :: "string list conn_api" where
  "echo_conn =
     \<lparr>conn_query = (\<lambda>sql ps w. (Inr \<lparr>rs_columns = [], rs_rows = [ps]\<rparr>, w @ [sql])),
      conn_execute = (\<lambda>sql ps w. (Inr \<lparr>affected_rows = of_nat (length ps), last_insert_rowid = None\<rparr>, w @ [sql])),
      conn_user_lock = (\<lambda>op w. (Inr (Some 1), w))\<rparr>"

definition plain_text_ops :: text_ops where
  "plain_text_ops =
     \<lparr>f64_of_i64 = (\<lambda>i. word_of_int i), i64_of_f64 = sint, f64_to_string = (\<lambda>x. []), parse_f64 = (\<lambda>s. None),
      f64_is_nan = (\<lambda>x. False), f64_round = sint, to_lowercase = to_ascii_lowercase\<rparr>"

definition echo_env :: "(string list, nat \<times> (string \<times> (unit, unit) translate_result list) list, unit, unit) sess_env" where
  "echo_env =
     \<lparr>es_conn = echo_conn, es_lru = list_lru, es_text = plain_text_ops, es_parse = (\<lambda>sql. Inl []),
      es_display = (\<lambda>e. []), es_emit = (\<lambda>s. Inr []), es_translate = (\<lambda>sql d. Inr [SqlText sql]),
      es_found_rows_column = (\<lambda>sql d. None), es_connection_id_column = (\<lambda>sql d. None),
      es_count_sql = (\<lambda>sql d. None), es_metadata_sql = (\<lambda>k m. []), es_rebuild_table = (\<lambda>b. []),
      es_rebuild_statements = (\<lambda>b t ds. Inr [])\<rparr>"

definition echo_session :: "(string list, nat \<times> (string \<times> (unit, unit) translate_result list) list) session" where
  "echo_session = session_with_cache [] MySQL \<lparr>per_dialect = replicate 3 (1, [])\<rparr>"

lemma echo_cache_ok: "lru_laws (es_lru echo_env)" "cache_ok (es_lru echo_env) (es_translate echo_env) 1 (cache echo_session)"
proof -
  have l: "es_lru echo_env = list_lru" by (simp add: echo_env_def)
  show "lru_laws (es_lru echo_env)" by (simp add: l list_lru_laws)
  have "cache_new (es_lru echo_env) 1 = Some (cache echo_session)"
    by (simp add: l cache_new_def list_lru_new echo_session_def session_with_cache_def)
  then show "cache_ok (es_lru echo_env) (es_translate echo_env) 1 (cache echo_session)"
    by (intro cache_new_ok) (simp_all add: l list_lru_laws)
qed

theorem prepared_matches_text_witness:
  "\<exists>p s1. prepare echo_env ''DELETE FROM t'' echo_session = (Fine p, s1) \<and>
     fst (execute_prepared echo_env p [Null] s1) = fst (query echo_env ''DELETE FROM t'' [Null] echo_session)"
proof -
  let ?sql = "''DELETE FROM t''"
  have d: "do_body ?sql = None" "\<not> mentions_lock_function ?sql" "detect_set_sql_mode ?sql = Returns None"
    "dropped_index_name ?sql = None"
    by code_simp+
  have dial: "sess_dialect echo_session = MySQL" by (simp add: echo_session_def session_with_cache_def)
  have t: "es_translate echo_env ?sql (sess_dialect echo_session) = Inr [SqlText ?sql]"
    "es_found_rows_column echo_env ?sql (sess_dialect echo_session) = None"
    "es_connection_id_column echo_env ?sql (sess_dialect echo_session) = None"
    by (simp_all add: echo_env_def)
  obtain p s1 where p: "prepare_plain echo_env ?sql echo_session = (Fine p, s1)"
    using prepare_plain_single [OF echo_cache_ok t] by blast
  then have "prepare echo_env ?sql echo_session = (Fine p, s1)"
    using d dial by (simp add: prepare_def detect_locks_def detect_def)
  with prepared_matches_text [OF echo_cache_ok t(1) _ d(4) this, of "[Null]"] show ?thesis by auto
qed

section \<open>Rebuilding a table\<close>

text \<open>A connection that writes down the statements it executes.\<close>

definition logged :: "'w conn_api \<Rightarrow> ('w \<times> string list) conn_api" where
  "logged api =
     \<lparr>conn_query = (\<lambda>sql ps (w, l). case conn_query api sql ps w of (r, w') \<Rightarrow> (r, (w', l))),
      conn_execute = (\<lambda>sql ps (w, l). case conn_execute api sql ps w of (r, w') \<Rightarrow> (r, (w', l @ [sql]))),
      conn_user_lock = (\<lambda>op (w, l). case conn_user_lock api op w of (r, w') \<Rightarrow> (r, (w', l)))\<rparr>"

definition exec_log :: "('w \<times> string list, 'm) session \<Rightarrow> string list" where
  "exec_log s = snd (conn s)"

lemma logged_execute:
  assumes "on_conn (conn_execute (logged api) sql ps) s = (r, s')"
  shows "exec_log s' = exec_log s @ [sql] \<and> in_transaction s' = in_transaction s"
  using assms by (auto simp: on_conn_def logged_def exec_log_def split: prod.splits)

lemma backend_log:
  assumes "backend (conn_execute (logged api) sql ps) s = (r, s')"
  shows "exec_log s' = exec_log s @ [sql] \<and> in_transaction s' = in_transaction s \<and> r \<noteq> Panic"
proof -
  obtain q t where q: "on_conn (conn_execute (logged api) sql ps) s = (q, t)" by force
  from logged_execute [OF q] q assms show ?thesis by (cases q) (auto simp: backend_def)
qed

lemma rebuild_steps_log:
  assumes "es_conn env = logged api" and "rebuild_steps env rollback stmts s = (r, s')"
  shows "(case r of
      Fine _ \<Rightarrow> exec_log s' = exec_log s @ stmts \<and> in_transaction s' = in_transaction s
    | Fails _ \<Rightarrow> \<exists>k < length stmts. exec_log s' = exec_log s @ take (Suc k) stmts @ rollback #
          (if in_transaction s then [''RELEASE SAVEPOINT litewire_rebuild''] else [])
    | Panic \<Rightarrow> False)"
  using assms(2)
proof (induction stmts arbitrary: s)
  case (Cons stmt stmts)
  obtain q t where q: "on_conn (conn_execute (es_conn env) stmt []) s = (q, t)" by force
  note t = logged_execute [OF q [unfolded assms(1)]]
  show ?case
  proof (cases q)
    case (Inr x)
    with Cons.prems q have "rebuild_steps env rollback stmts t = (r, s')" by simp
    from Cons.IH [OF this] t show ?thesis
      by (auto split: outcome.splits intro!: exI [of _ "Suc _"])
  next
    case (Inl e)
    obtain q2 t2 where q2: "on_conn (conn_execute (es_conn env) rollback []) t = (q2, t2)" by force
    obtain q3 t3 where q3: "on_conn (conn_execute (es_conn env) ''RELEASE SAVEPOINT litewire_rebuild'' []) t2 = (q3, t3)" by force
    have "exec_log s' = exec_log s @ [stmt, rollback] @ (if in_transaction s then [''RELEASE SAVEPOINT litewire_rebuild''] else [])"
      "r = Fails (map_backend_err e)"
      using Cons.prems q q2 q3 Inl t logged_execute [OF q2 [unfolded assms(1)]] logged_execute [OF q3 [unfolded assms(1)]]
      by (auto simp: Let_def)
    then show ?thesis by (auto intro!: exI [of _ 0])
  qed
qed auto


end
