(* ===== verification/Lock_Scope.thy ===== *)
theory Lock_Scope
  imports Session_Props
begin

text \<open>
  Named locks seen from the session. The locale \<open>lock_scope\<close> is the contract a connection's lock
  operations keep (\<^verbatim>\<open>BackendConn::user_lock\<close>); under it the session's \<^verbatim>\<open>may_hold_user_locks\<close> is conservative
  through every operation of the session. The connection that answers from the registry
  (\<^verbatim>\<open>LockScopedConn\<close> of \<^verbatim>\<open>src/crates/litewire-backend/src/user_lock.rs\<close>) keeps it, whatever the other sessions do
  while a \<^verbatim>\<open>GET_LOCK\<close> waits.
\<close>

section \<open>The contract\<close>

locale lock_scope =
  fixes api :: "'w conn_api"
    and inv :: "'w \<Rightarrow> bool"
    and holds :: "'w \<Rightarrow> bool"
  assumes query_law: "inv w \<Longrightarrow> conn_query api sql ps w = (r, w') \<Longrightarrow> inv w' \<and> (holds w' \<longrightarrow> holds w)"
    and execute_law: "inv w \<Longrightarrow> conn_execute api sql ps w = (r', w') \<Longrightarrow> inv w' \<and> (holds w' \<longrightarrow> holds w)"
    and lock_law: "inv w \<Longrightarrow> conn_user_lock api op w = (v, w') \<Longrightarrow>
      inv w' \<and> (holds w' \<longrightarrow> holds w \<or> (\<exists>name timeout. op = Get name timeout) \<and> v = Inr (Some 1))"
    and release_all_law: "inv w \<Longrightarrow> conn_user_lock api ReleaseAll w = (Inr n, w') \<Longrightarrow> \<not> holds w'"
begin

definition sound :: "('w, 'm) session \<Rightarrow> bool" where
  "sound s \<longleftrightarrow> inv (conn s) \<and> (holds (conn s) \<longrightarrow> user_locks_held s)"

definition keeps :: "('w, 'm, 'a) action \<Rightarrow> bool" where
  "keeps act \<longleftrightarrow> (\<forall>s. sound s \<longrightarrow> sound (snd (act s)))"

lemma keepsD: "keeps act \<Longrightarrow> sound s \<Longrightarrow> act s = (r, s') \<Longrightarrow> sound s'"
  by (metis keeps_def snd_conv)

lemma keeps_apply: "keeps act \<Longrightarrow> sound s \<Longrightarrow> sound (snd (act s))"
  by (simp add: keeps_def)

lemma sound_update [simp]:
  "sound (s\<lparr>found_rows := n\<rparr>) = sound s" "sound (s\<lparr>in_transaction := b\<rparr>) = sound s"
  "sound (s\<lparr>sql_mode := m\<rparr>) = sound s" "sound (s\<lparr>cache := c\<rparr>) = sound s"
  by (simp_all add: sound_def)

lemma keeps_and_then: "keeps act \<Longrightarrow> (\<And>a. keeps (f a)) \<Longrightarrow> keeps (and_then act f)"
  unfolding keeps_def and_then_def
  by (auto split: prod.splits outcome.splits)

lemma keeps_return: "keeps (\<lambda>s. (r s, s))"
  by (simp add: keeps_def)

lemma keeps_answer_ok: "keeps (answer_ok a l n)"
  by (simp add: keeps_def answer_ok_def)

lemma sound_query: "sound s \<Longrightarrow> on_conn (conn_query api sql ps) s = (r, s') \<Longrightarrow> sound s'"
  using query_law by (fastforce simp: on_conn_def sound_def split: prod.splits)

lemma sound_execute: "sound s \<Longrightarrow> on_conn (conn_execute api sql ps) s = (r, s') \<Longrightarrow> sound s'"
  using execute_law by (fastforce simp: on_conn_def sound_def split: prod.splits)

lemma sound_lock:
  assumes "sound s" and "on_conn (conn_user_lock api op) s = (v, s')" and "\<nexists>name timeout. op = Get name timeout"
  shows "sound s'"
  using assms lock_law [of "conn s" op] by (auto simp: on_conn_def sound_def split: prod.splits)

lemma keeps_query: "keeps (backend (conn_query api sql ps))"
  by (auto simp: keeps_def backend_def split: prod.splits sum.splits dest: sound_query)

lemma keeps_execute: "keeps (backend (conn_execute api sql ps))"
  by (auto simp: keeps_def backend_def split: prod.splits sum.splits dest: sound_execute)

lemmas keeps_intros = keeps_and_then keeps_return keeps_answer_ok keeps_query keeps_execute

end

section \<open>Every operation of a session\<close>

context lock_scope
begin

lemma keeps_user_lock:
  fixes env :: "('w, 'm, 'k, 'b) sess_env"
  assumes "es_conn env = api"
  shows "keeps (user_lock env op)"
  unfolding keeps_def
proof (intro allI impI)
  fix s :: "('w, 'm) session"
  assume s: "sound s"
  obtain v w where v: "conn_user_lock api op (conn s) = (v, w)" by force
  have l: "inv w \<and> (holds w \<longrightarrow> holds (conn s) \<or> (\<exists>name timeout. op = Get name timeout) \<and> v = Inr (Some 1))"
    using lock_law [OF _ v] s by (simp add: sound_def)
  show "sound (snd (user_lock env op s))"
  proof (cases v)
    case (Inl e)
    with s l v show ?thesis by (auto simp: user_lock_def and_then_def backend_def on_conn_def assms sound_def)
  next
    case (Inr reply)
    have "\<not> holds w" if "op = ReleaseAll"
      using release_all_law [of "conn s" reply w] v s that Inr by (simp add: sound_def)
    with s l v Inr show ?thesis
      by (cases op) (auto simp: user_lock_def and_then_def backend_def on_conn_def assms sound_def note_user_lock_def)
  qed
qed

lemma keeps_run_translated:
  fixes env :: "('w, 'm, 'k, 'b) sess_env"
  assumes "es_conn env = api"
  shows "keeps (run_translated env sql kind params)"
proof (cases kind)
  case Transaction
  have "keeps (run_transaction env sql)"
    by (auto simp: keeps_def run_transaction_def answer_ok_def assms Let_def dest: sound_execute
        split: prod.splits sum.splits)
  with Transaction show ?thesis by (simp add: run_translated_def)
next
  case Query
  have "keeps (\<lambda>s. (Fine (Rows rs), s\<lparr>found_rows := n\<rparr>))" for rs n by (simp add: keeps_def)
  with Query show ?thesis by (auto simp: run_translated_def assms intro!: keeps_intros)
qed (auto simp: run_translated_def assms intro!: keeps_intros)

lemma keeps_drop_legacy_index:
  fixes env :: "('w, 'm, 'k, 'b) sess_env"
  assumes "es_conn env = api"
  shows "keeps (drop_legacy_index env mangled message)"
  unfolding keeps_def
proof (intro allI impI)
  fix s :: "('w, 'm) session"
  assume s: "sound s"
  obtain r s1 where r: "on_conn (conn_query api legacy_index_sql [Text mangled]) s = (r, s1)" by force
  have "sound s1" using sound_query [OF s r] .
  moreover have "sound (snd (run_translated env sql k ps s1))" if "sound s1" for sql k ps
    using keeps_run_translated [OF assms] that unfolding keeps_def by blast
  ultimately show "sound (snd (drop_legacy_index env mangled message s))"
    using r by (auto simp: drop_legacy_index_def assms Let_def split: sum.splits list.splits backend_value.splits)
qed

lemma keeps_rebuild_steps:
  fixes env :: "('w, 'm, 'k, 'b) sess_env"
  assumes "es_conn env = api"
  shows "keeps (rebuild_steps env rollback stmts)"
  unfolding keeps_def
proof (induction stmts)
  case (Cons stmt stmts)
  show ?case
  proof (intro allI impI)
    fix s :: "('w, 'm) session"
    assume s: "sound s"
    obtain r s1 where r: "on_conn (conn_execute api stmt []) s = (r, s1)" by force
    obtain r2 s2 where r2: "on_conn (conn_execute api rollback []) s1 = (r2, s2)" by force
    obtain r3 s3 where r3: "on_conn (conn_execute api ''RELEASE SAVEPOINT litewire_rebuild'' []) s2 = (r3, s3)" by force
    have "sound s1" "sound s2" "sound s3"
      using sound_execute s r r2 r3 by metis+
    with Cons.IH r r2 r3 show "sound (snd (rebuild_steps env rollback (stmt # stmts) s))"
      by (auto simp: assms Let_def split: sum.splits)
  qed
qed simp

lemma keeps_rebuild_table:
  fixes env :: "('w, 'm, 'k, 'b) sess_env"
  assumes "es_conn env = api"
  shows "keeps (rebuild_table env plan)"
proof -
  have "keeps (and_then (backend (conn_execute api o1 []))
      (\<lambda>_. and_then (rebuild_steps env r1 stmts)
        (\<lambda>_. and_then (backend (conn_execute api c1 [])) (\<lambda>_. answer_ok 0 0 False))))" for o1 r1 c1 stmts
    by (intro keeps_intros keeps_rebuild_steps [OF assms])
  then have "keeps (rebuild_within env stmts)" for stmts
    unfolding keeps_def rebuild_within_def by (simp add: assms split: prod.split)
  then show ?thesis
    by (auto simp: rebuild_table_def assms Let_def intro!: keeps_intros split: option.splits backend_value.splits sum.splits)
qed

lemma keeps_dispatch:
  fixes env :: "('w, 'm, 'k, 'b) sess_env"
  assumes "es_conn env = api"
  shows "keeps (dispatch env result params)"
  unfolding keeps_def
proof (intro allI impI)
  fix s :: "('w, 'm) session"
  assume s: "sound s"
  note k = keeps_run_translated [OF assms] keeps_drop_legacy_index [OF assms] keeps_rebuild_table [OF assms]
  show "sound (snd (dispatch env result params s))"
  proof (cases result)
    case (SqlText sql)
    obtain r s1 where r: "run_translated env sql (classify sql) params s = (r, s1)" by force
    have "sound s1" using keepsD [OF k(1) s r] .
    moreover from this have "sound (snd (drop_legacy_index env m msg s1))" for m msg
      using k(2) unfolding keeps_def by blast
    ultimately show ?thesis using SqlText r
      by (auto simp: dispatch_def split: outcome.splits session_error.splits option.splits)
  qed (use s k in \<open>auto simp: dispatch_def keeps_def answer_ok_def\<close>)
qed

lemma keeps_dispatch_all:
  fixes env :: "('w, 'm, 'k, 'b) sess_env"
  assumes "es_conn env = api"
  shows "keeps (dispatch_all env rs params last_result)"
  by (induction rs arbitrary: last_result) (auto intro: keeps_and_then keeps_dispatch [OF assms] keeps_return)

lemma keeps_with_count:
  fixes env :: "('w, 'm, 'k, 'b) sess_env"
  assumes "es_conn env = api"
  shows "keeps (with_count env count_sql params result)"
proof -
  have "sound (store_calc_found_rows env c params s)" if s: "sound s" for c and s :: "('w, 'm) session"
  proof -
    obtain r s1 where r: "on_conn (conn_query api c params) s = (r, s1)" by force
    then show ?thesis using sound_query [OF s r]
      by (auto simp: store_calc_found_rows_def assms split: sum.splits option.splits backend_value.splits)
  qed
  then show ?thesis by (auto simp: keeps_def with_count_def split: option.splits session_result.splits)
qed

lemma keeps_run_calls:
  fixes env :: "('w, 'm, 'k, 'b) sess_env"
  assumes "es_conn env = api"
  shows "keeps (run_calls env cs params)"
proof (induction cs)
  case (Cons call cs)
  have push: "keeps (and_then (run_calls env cs params) (\<lambda>vs s1. (Fine (v # vs), s1)))" for v
    by (intro keeps_and_then Cons.IH keeps_return)
  have "keeps (and_then (user_lock env op) (\<lambda>reply. and_then (run_calls env cs params) (\<lambda>vs s1. (Fine (f reply # vs), s1))))" for op f
    by (intro keeps_and_then keeps_user_lock [OF assms] Cons.IH keeps_return)
  with push show ?case by (simp add: keeps_def split: sum.split option.split)
qed (simp add: keeps_def)

lemma keeps_run_locks:
  fixes env :: "('w, 'm, 'k, 'b) sess_env"
  assumes "es_conn env = api"
  shows "keeps (run_locks env plan params)"
  unfolding run_locks_def
  by (auto simp: assms Let_def intro!: keeps_intros keeps_run_calls [OF assms] keeps_run_translated [OF assms] split: sum.split)

lemma keeps_query_plain:
  fixes env :: "('w, 'm, 'k, 'b) sess_env"
  assumes "es_conn env = api"
  shows "keeps (query_plain env sql params)"
proof -
  have t: "keeps (translate_via_cache env sql)"
    by (auto simp: keeps_def translate_via_cache_def split: prod.splits sum.splits)
  have c: "sound (snd (connection_id_row env name s))" if s: "sound s" for name and s :: "('w, 'm) session"
  proof -
    obtain v s1 where v: "on_conn (conn_user_lock api ConnectionId) s = (v, s1)" by force
    with sound_lock [OF s v] show ?thesis by (auto simp: connection_id_row_def assms split: sum.splits)
  qed
  have rest: "keeps (\<lambda>s1. if 1 < length translated \<and> params \<noteq> [] then (Fails multi_params_error, s1)
      else and_then (dispatch_all env translated params (OkResult (ok s1 0 0 True))) (with_count env count_sql params) s1)"
    for translated count_sql
    using keeps_and_then [OF keeps_dispatch_all [OF assms] keeps_with_count [OF assms]]
    by (auto simp: keeps_def)
  have p: "sound (snd (and_then (translate_via_cache env sql) (\<lambda>translated s1.
      if 1 < length translated \<and> params \<noteq> [] then (Fails multi_params_error, s1)
      else and_then (dispatch_all env translated params (OkResult (ok s1 0 0 True))) (with_count env count_sql params) s1) s))"
    if "sound s" for s :: "('w, 'm) session" and count_sql
    by (rule keeps_apply [OF keeps_and_then [OF t rest] that])
  show ?thesis
    unfolding keeps_def query_plain_def
    using c p by (auto simp: take_found_rows_def split: option.split)
qed

lemma keeps_query_other:
  fixes env :: "('w, 'm, 'k, 'b) sess_env"
  assumes "es_conn env = api"
  shows "keeps (query_other env sql params)"
  using keeps_run_locks [OF assms] keeps_query_plain [OF assms]
  by (auto simp: keeps_def query_other_def split: option.split sum.split)

lemma keeps_set_sql_mode:
  fixes env :: "('w, 'm, 'k, 'b) sess_env"
  assumes "es_conn env = api"
  shows "keeps (set_sql_mode_action env chg params)"
proof -
  have "keeps (\<lambda>s. (case mode_of_result (es_text env) result of Inl e \<Rightarrow> (Fails e, s) | Inr m \<Rightarrow> (Fine (Some m), s)))" for result
    by (auto simp: keeps_def split: sum.split)
  then have "keeps (and_then (query_other env select params)
      (\<lambda>result s. case mode_of_result (es_text env) result of Inl e \<Rightarrow> (Fails e, s) | Inr m \<Rightarrow> (Fine (Some m), s)))" for select
    by (intro keeps_and_then keeps_query_other [OF assms])
  then have "keeps (assigned_mode env chg params)"
    by (auto simp: keeps_def assigned_mode_def split: sql_mode_value.split option.split)
  then show ?thesis
    unfolding set_sql_mode_action_def by (intro keeps_and_then) (auto simp: keeps_def answer_ok_def)
qed

lemma keeps_session_query:
  fixes env :: "('w, 'm, 'k, 'b) sess_env"
  assumes "es_conn env = api"
  shows "keeps (Session.query env sql params)"
  using keeps_run_locks [OF assms] keeps_query_plain [OF assms] keeps_set_sql_mode [OF assms]
  by (auto simp: keeps_def query_def split: option.split sum.split rust_result.split)

lemma keeps_release:
  fixes env :: "('w, 'm, 'k, 'b) sess_env"
  assumes "es_conn env = api"
  shows "keeps (release_user_locks env)"
  unfolding keeps_def
proof (intro allI impI)
  fix s :: "('w, 'm) session"
  assume s: "sound s"
  obtain v w where v: "conn_user_lock api ReleaseAll (conn s) = (v, w)" by force
  show "sound (snd (release_user_locks env s))"
    using s v lock_law [OF _ v] release_all_law [of "conn s" _ w]
    by (cases v) (auto simp: release_user_locks_def and_then_def backend_def on_conn_def assms sound_def)
qed

lemma keeps_execute_prepared:
  fixes env :: "('w, 'm, 'k, 'b) sess_env"
  assumes "es_conn env = api"
  shows "keeps (execute_prepared env p params)"
proof -
  have "keeps (connection_id_row env name)" for name
    unfolding keeps_def
  proof (intro allI impI)
    fix s :: "('w, 'm) session"
    assume s: "sound s"
    obtain v s1 where v: "on_conn (conn_user_lock api ConnectionId) s = (v, s1)" by force
    with sound_lock [OF s v] show "sound (snd (connection_id_row env name s))"
      by (auto simp: connection_id_row_def assms split: sum.splits)
  qed
  moreover have "keeps (take_found_rows name)" for name by (simp add: keeps_def take_found_rows_def)
  moreover have "keeps (and_then (run_translated env (sqlite_sql p) (prep_kind p) params) (with_count env (prepared_count p) params))"
    by (intro keeps_and_then keeps_run_translated [OF assms] keeps_with_count [OF assms])
  ultimately show ?thesis
    using keeps_session_query [OF assms]
    by (auto simp: execute_prepared_def intro: keeps_answer_ok split: option.split prepared_special.split)
qed

lemma release_frees:
  fixes env :: "('w, 'm, 'k, 'b) sess_env"
  assumes "es_conn env = api" and "sound s" and "release_user_locks env s = (Fine n, s')"
  shows "sound s' \<and> \<not> user_locks_held s' \<and> \<not> holds (conn s')"
proof (cases "user_locks_held s")
  case True
  obtain v w where v: "conn_user_lock api ReleaseAll (conn s) = (v, w)" by force
  from assms(3) True v obtain reply where "v = Inr reply" "s' = s\<lparr>conn := w, user_locks_held := False\<rparr>"
    by (auto simp: release_user_locks_def and_then_def backend_def on_conn_def assms(1) split: sum.splits)
  with release_all_law [of "conn s" reply w] lock_law [OF _ v] v assms(2) show ?thesis
    by (simp add: sound_def)
qed (use assms in \<open>auto simp: release_user_locks_def sound_def\<close>)

end

section \<open>The connection that answers from the registry\<close>

text \<open>
  \<open>lk_waits\<close> is what the other sessions do during each wait of this connection's \<^verbatim>\<open>GET_LOCK\<close> calls; a
  call that finds no further wait has run into its deadline.
\<close>

record 'w lock_scoped =
  inner_conn :: 'w
  lk_reg :: registry
  lk_session :: lock_session
  lk_waits :: "(lock_session \<times> user_lock_op) list list"

definition other_op :: "lock_session \<times> user_lock_op \<Rightarrow> registry \<Rightarrow> registry" where
  "other_op call r =
     (case call of (s, op) \<Rightarrow>
        (case op of
           Get name timeout \<Rightarrow> snd (try_acquire r (namespace s) name (session_id s))
         | _ \<Rightarrow> (case apply_now r s op of Some (v, r') \<Rightarrow> r' | None \<Rightarrow> r)))"

fun acquire_waiting ::
  "registry \<Rightarrow> lock_session \<Rightarrow> string \<Rightarrow> lock_timeout \<Rightarrow> (lock_session \<times> user_lock_op) list list \<Rightarrow>
     user_lock_reply \<times> registry \<times> (lock_session \<times> user_lock_op) list list" where
  "acquire_waiting r s name timeout waits =
     (case try_acquire r (namespace s) name (session_id s) of
        (Inr _, r') \<Rightarrow> (Some 1, r', waits)
      | (Inl n, r') \<Rightarrow>
          if timeout = Immediate then (Some 0, r', waits)
          else case waits of
              [] \<Rightarrow> (Some 0, r', [])
            | ops # rest \<Rightarrow> acquire_waiting (fold other_op ops r') s name timeout rest)"

declare acquire_waiting.simps [simp del]

definition scoped_user_lock :: "user_lock_op \<Rightarrow> 'w lock_scoped \<Rightarrow> (backend_error + user_lock_reply) \<times> 'w lock_scoped" where
  "scoped_user_lock op st =
     (case op of
        Get name timeout \<Rightarrow>
          (case acquire_waiting (lk_reg st) (lk_session st) name timeout (lk_waits st) of
             (v, r, waits) \<Rightarrow> (Inr v, st\<lparr>lk_reg := r, lk_waits := waits\<rparr>))
      | _ \<Rightarrow>
          (case apply_now (lk_reg st) (lk_session st) op of
             Some (v, r) \<Rightarrow> (Inr v, st\<lparr>lk_reg := r\<rparr>)
           | None \<Rightarrow> (Inr None, st)))"

definition scoped_conn :: "'w conn_api \<Rightarrow> 'w lock_scoped conn_api" where
  "scoped_conn inner =
     \<lparr>conn_query = (\<lambda>sql ps st. case conn_query inner sql ps (inner_conn st) of (r, w) \<Rightarrow> (r, st\<lparr>inner_conn := w\<rparr>)),
      conn_execute = (\<lambda>sql ps st. case conn_execute inner sql ps (inner_conn st) of (r, w) \<Rightarrow> (r, st\<lparr>inner_conn := w\<rparr>)),
      conn_user_lock = scoped_user_lock\<rparr>"

text \<open>The registry is well formed and the operations during the waits are those of other live sessions.\<close>

definition others_ok :: "(u64 \<Rightarrow> lock_session option) \<Rightarrow> u64 \<Rightarrow> (lock_session \<times> user_lock_op) list list \<Rightarrow> bool" where
  "others_ok ss i waits \<longleftrightarrow> (\<forall>ops \<in> set waits. \<forall>(s, op) \<in> set ops. ss (session_id s) = Some s \<and> session_id s \<noteq> i)"

definition scoped_inv :: "'w lock_scoped \<Rightarrow> bool" where
  "scoped_inv st \<longleftrightarrow>
     (\<exists>ss. reg_inv ss (lk_reg st) \<and> ss (session_id (lk_session st)) = Some (lk_session st) \<and>
        others_ok ss (session_id (lk_session st)) (lk_waits st))"

definition scoped_holds :: "'w lock_scoped \<Rightarrow> bool" where
  "scoped_holds st \<longleftrightarrow> owned_by (abs_locks (lk_reg st)) (session_id (lk_session st)) \<noteq> {}"

lemma spec_get_owned:
  "owned_by (snd (spec_get M k j)) i \<subseteq> (if fst (spec_get M k j) \<and> i = j then insert k (owned_by M i) else owned_by M i)"
  by (auto simp: spec_get_def owned_by_def split: option.splits if_splits)

lemma try_acquire_owned:
  assumes "try_acquire r ns name j = (res, r')" and "i \<noteq> j \<or> res \<noteq> Inr ()"
  shows "owned_by (abs_locks r') i \<subseteq> owned_by (abs_locks r) i"
proof -
  have "spec_get (abs_locks r) (ns, name) j = (res = Inr (), abs_locks r')" using abs_try_acquire [OF assms(1)] by simp
  with spec_get_owned [of "abs_locks r" "(ns, name)" j i] assms(2) show ?thesis by auto
qed

lemma release_owned: "owned_by (abs_locks (snd (release r s name))) i \<subseteq> owned_by (abs_locks r) i"
proof -
  have "abs_locks (snd (release r s name)) = snd (spec_release (abs_locks r) (namespace s, name) (session_id s))"
    using abs_release [of r s name] by (metis snd_conv)
  then show ?thesis by (auto simp: spec_release_def owned_by_def split: option.splits if_splits)
qed

lemma release_all_owned:
  assumes "reg_inv ss r" and "ss (session_id s) = Some s"
  shows "owned_by (abs_locks (snd (release_all r s))) i \<subseteq> owned_by (abs_locks r) i - (if i = session_id s then UNIV else {})"
proof -
  have "abs_locks (snd (release_all r s)) = snd (spec_release_all (abs_locks r) (session_id s))"
    using abs_release_all [OF assms] by (metis snd_conv)
  then show ?thesis by (auto simp: spec_release_all_def owned_by_def restrict_map_def split: if_splits)
qed

lemma apply_now_owned:
  assumes "reg_inv ss r" and "ss (session_id s) = Some s" and "apply_now r s op = Some (v, r')"
  shows "owned_by (abs_locks r') i \<subseteq> owned_by (abs_locks r) i"
proof (cases op)
  case (Release name)
  with assms(3) have "r' = snd (release r s name)" by (metis apply_now.simps(2) option.inject snd_conv)
  then show ?thesis by (simp add: release_owned)
next
  case ReleaseAll
  with assms(3) have "r' = snd (release_all r s)" by (auto simp: Let_def split: prod.splits)
  with release_all_owned [OF assms(1,2), of i] show ?thesis by auto
qed (use assms in auto)

lemma other_op_ok:
  assumes "reg_inv ss r" and "ss (session_id s) = Some s" and "session_id s \<noteq> i"
  shows "reg_inv ss (other_op (s, op) r) \<and> owned_by (abs_locks (other_op (s, op) r)) i \<subseteq> owned_by (abs_locks r) i"
proof (cases "\<exists>name timeout. op = Get name timeout")
  case True
  then obtain name timeout where op: "op = Get name timeout" by blast
  obtain res r' where t: "try_acquire r (namespace s) name (session_id s) = (res, r')" by force
  have "reg_inv ss r'" using try_acquire_inv [OF assms(1,2) t] .
  moreover have "owned_by (abs_locks r') i \<subseteq> owned_by (abs_locks r) i"
    using try_acquire_owned [OF t, of i] assms(3) by auto
  ultimately show ?thesis using op t by (simp add: other_op_def)
next
  case False
  then have "apply_now r s op \<noteq> None" by (cases op) (auto simp: Let_def split: prod.splits)
  then obtain v r' where a: "apply_now r s op = Some (v, r')" by auto
  with False have "other_op (s, op) r = r'" by (cases op) (auto simp: other_op_def)
  with apply_now_ok [OF assms(1,2) a] apply_now_owned [OF assms(1,2) a, of i] show ?thesis by simp
qed

lemma other_ops_ok:
  assumes "reg_inv ss r" and "\<forall>(s, op) \<in> set ops. ss (session_id s) = Some s \<and> session_id s \<noteq> i"
  shows "reg_inv ss (fold other_op ops r) \<and> owned_by (abs_locks (fold other_op ops r)) i \<subseteq> owned_by (abs_locks r) i"
  using assms
proof (induction ops arbitrary: r)
  case (Cons c ops)
  obtain s op where c: "c = (s, op)" by force
  with Cons.prems other_op_ok [of ss r s i op]
  have o: "reg_inv ss (other_op c r) \<and> owned_by (abs_locks (other_op c r)) i \<subseteq> owned_by (abs_locks r) i" by auto
  with Cons.IH [of "other_op c r"] Cons.prems show ?case by auto
qed simp

lemma acquire_waiting_ok:
  assumes "acquire_waiting r s name timeout waits = (v, r', waits')"
    and "reg_inv ss r" and "ss (session_id s) = Some s" and "others_ok ss (session_id s) waits"
  shows "reg_inv ss r' \<and> others_ok ss (session_id s) waits' \<and>
    (v = Some 1 \<or> owned_by (abs_locks r') (session_id s) \<subseteq> owned_by (abs_locks r) (session_id s))"
  using assms(1,2,4)
proof (induction waits arbitrary: r)
  case Nil
  obtain res r1 where t: "try_acquire r (namespace s) name (session_id s) = (res, r1)" by force
  from Nil t try_acquire_inv [OF Nil.prems(2) assms(3) t] try_acquire_owned [OF t, of "session_id s"] show ?case
    by (auto simp: acquire_waiting.simps [of r] split: sum.splits if_splits)
next
  case (Cons ops waits)
  obtain res r1 where t: "try_acquire r (namespace s) name (session_id s) = (res, r1)" by force
  note i = try_acquire_inv [OF Cons.prems(2) assms(3) t]
  show ?case
  proof (cases "\<exists>n. res = Inl n \<and> timeout \<noteq> Immediate")
    case True
    then have step: "acquire_waiting (fold other_op ops r1) s name timeout waits = (v, r', waits')"
      using Cons.prems(1) t by (auto simp: acquire_waiting.simps [of r])
    have o: "reg_inv ss (fold other_op ops r1) \<and>
        owned_by (abs_locks (fold other_op ops r1)) (session_id s) \<subseteq> owned_by (abs_locks r1) (session_id s)"
      using other_ops_ok [OF i, of ops "session_id s"] Cons.prems(3) by (auto simp: others_ok_def)
    have "owned_by (abs_locks r1) (session_id s) \<subseteq> owned_by (abs_locks r) (session_id s)"
      using try_acquire_owned [OF t, of "session_id s"] True by auto
    with Cons.IH [OF step] o Cons.prems(3) show ?thesis by (auto simp: others_ok_def)
  next
    case False
    with Cons.prems t i try_acquire_owned [OF t, of "session_id s"] show ?thesis
      by (auto simp: acquire_waiting.simps [of r] split: sum.splits if_splits)
  qed
qed

lemma scoped_lock_law:
  assumes "scoped_inv st" and "scoped_user_lock op st = (v, st')"
  shows "scoped_inv st' \<and> (scoped_holds st' \<longrightarrow> scoped_holds st \<or> (\<exists>name timeout. op = Get name timeout) \<and> v = Inr (Some 1))"
proof -
  from assms(1) obtain ss where ss: "reg_inv ss (lk_reg st)" "ss (session_id (lk_session st)) = Some (lk_session st)"
    "others_ok ss (session_id (lk_session st)) (lk_waits st)"
    by (auto simp: scoped_inv_def)
  show ?thesis
  proof (cases "\<exists>name timeout. op = Get name timeout")
    case True
    then obtain name timeout where op: "op = Get name timeout" by blast
    obtain u r ws where a: "acquire_waiting (lk_reg st) (lk_session st) name timeout (lk_waits st) = (u, r, ws)"
      by (metis prod_cases3)
    with assms(2) op have st': "v = Inr u" "st' = st\<lparr>lk_reg := r, lk_waits := ws\<rparr>" by (auto simp: scoped_user_lock_def)
    from acquire_waiting_ok [OF a ss] ss(2) show ?thesis
      unfolding st' scoped_inv_def scoped_holds_def using op by auto
  next
    case False
    then have "apply_now (lk_reg st) (lk_session st) op \<noteq> None" by (cases op) (auto simp: Let_def split: prod.splits)
    then obtain u r where a: "apply_now (lk_reg st) (lk_session st) op = Some (u, r)" by auto
    with assms(2) False have st': "st' = st\<lparr>lk_reg := r\<rparr>" by (cases op) (auto simp: scoped_user_lock_def)
    from apply_now_ok [OF ss(1,2) a] apply_now_owned [OF ss(1,2) a, of "session_id (lk_session st)"] ss(2,3) show ?thesis
      unfolding st' scoped_inv_def scoped_holds_def by auto
  qed
qed

lemma scoped_release_all_law:
  assumes "scoped_inv st" and "scoped_user_lock ReleaseAll st = (Inr n, st')"
  shows "\<not> scoped_holds st'"
proof -
  from assms(1) obtain ss where ss: "reg_inv ss (lk_reg st)" "ss (session_id (lk_session st)) = Some (lk_session st)"
    by (auto simp: scoped_inv_def)
  have "st' = st\<lparr>lk_reg := snd (release_all (lk_reg st) (lk_session st))\<rparr>"
    using assms(2) by (auto simp: scoped_user_lock_def Let_def split: prod.splits)
  with release_all_owned [OF ss, of "session_id (lk_session st)"] show ?thesis by (simp add: scoped_holds_def)
qed

interpretation registry_conn: lock_scope "scoped_conn inner" scoped_inv scoped_holds for inner :: "'w conn_api"
proof unfold_locales
  fix w w' :: "'w lock_scoped" and sql ps r
  assume "scoped_inv w" "conn_query (scoped_conn inner) sql ps w = (r, w')"
  then show "scoped_inv w' \<and> (scoped_holds w' \<longrightarrow> scoped_holds w)"
    by (auto simp: scoped_conn_def scoped_inv_def scoped_holds_def split: prod.splits)
next
  fix w w' :: "'w lock_scoped" and sql ps r
  assume "scoped_inv w" "conn_execute (scoped_conn inner) sql ps w = (r, w')"
  then show "scoped_inv w' \<and> (scoped_holds w' \<longrightarrow> scoped_holds w)"
    by (auto simp: scoped_conn_def scoped_inv_def scoped_holds_def split: prod.splits)
next
  fix w w' :: "'w lock_scoped" and op v
  assume "scoped_inv w" "conn_user_lock (scoped_conn inner) op w = (v, w')"
  then show "scoped_inv w' \<and> (scoped_holds w' \<longrightarrow> scoped_holds w \<or> (\<exists>name timeout. op = Get name timeout) \<and> v = Inr (Some 1))"
    using scoped_lock_law by (simp add: scoped_conn_def)
next
  fix w w' :: "'w lock_scoped" and n
  assume "scoped_inv w" "conn_user_lock (scoped_conn inner) ReleaseAll w = (Inr n, w')"
  then show "\<not> scoped_holds w'" using scoped_release_all_law by (simp add: scoped_conn_def)
qed

section \<open>Properties\<close>

fun run_queries :: "('w, 'm, 'k, 'b) sess_env \<Rightarrow> (string \<times> backend_value list) list \<Rightarrow> ('w, 'm) session \<Rightarrow> ('w, 'm) session" where
  "run_queries env [] s = s"
| "run_queries env ((sql, params) # rest) s = run_queries env rest (snd (Session.query env sql params s))"

lemma run_queries_sound:
  assumes "es_conn env = scoped_conn inner" and "registry_conn.sound s"
  shows "registry_conn.sound (run_queries env stmts s)"
  using assms(2)
proof (induction stmts arbitrary: s)
  case (Cons stmt stmts)
  obtain sql params where "stmt = (sql, params)" by force
  with Cons.IH registry_conn.keeps_apply [OF registry_conn.keeps_session_query [OF assms(1)] Cons.prems, of sql params]
  show ?case by simp
qed simp

text \<open>
  Property C9 (held locks are never forgotten). On a connection whose lock operations go to the
  registry, after any statements in any order, with other sessions taking and releasing locks while
  this one waits: if the session reports that it may hold no named lock, it owns none, so skipping the
  release at the end of a request is safe; and after \<^verbatim>\<open>release_user_locks\<close> succeeds it owns none.
\<close>

theorem held_locks_never_forgotten:
  assumes "es_conn env = scoped_conn inner" and "scoped_inv (conn s)"
    and "owned_by (abs_locks (lk_reg (conn s))) (session_id (lk_session (conn s))) = {}"
    and "s' = run_queries env stmts s"
  shows "(may_hold_user_locks s' \<or> owned_by (abs_locks (lk_reg (conn s'))) (session_id (lk_session (conn s'))) = {}) \<and>
    (case release_user_locks env s' of
       (Fine n, t) \<Rightarrow> \<not> may_hold_user_locks t \<and> owned_by (abs_locks (lk_reg (conn t))) (session_id (lk_session (conn t))) = {}
     | _ \<Rightarrow> True)"
proof -
  have "registry_conn.sound s" using assms(2,3) by (simp add: registry_conn.sound_def scoped_holds_def)
  from run_queries_sound [OF assms(1) this] have s': "registry_conn.sound s'" by (simp add: assms(4))
  then have "may_hold_user_locks s' \<or> owned_by (abs_locks (lk_reg (conn s'))) (session_id (lk_session (conn s'))) = {}"
    by (auto simp: registry_conn.sound_def scoped_holds_def may_hold_user_locks_def)
  with registry_conn.release_frees [OF assms(1) s'] show ?thesis
    by (auto simp: scoped_holds_def may_hold_user_locks_def split: prod.split outcome.split)
qed

definition scoped_env :: "(string list lock_scoped, nat \<times> (string \<times> (unit, unit) translate_result list) list, unit, unit) sess_env" where
  "scoped_env =
     \<lparr>es_conn = scoped_conn echo_conn, es_lru = list_lru, es_text = plain_text_ops, es_parse = (\<lambda>sql. Inr [job_statement]),
      es_display = (\<lambda>e. []), es_emit = (\<lambda>s. Inr ''SELECT 1''), es_translate = (\<lambda>sql d. Inr [SqlText sql]),
      es_found_rows_column = (\<lambda>sql d. None), es_connection_id_column = (\<lambda>sql d. None),
      es_count_sql = (\<lambda>sql d. None), es_metadata_sql = (\<lambda>k m. []), es_rebuild_table = (\<lambda>b. []),
      es_rebuild_statements = (\<lambda>b t ds. Inr [])\<rparr>"

definition scoped_session :: "(string list lock_scoped, nat \<times> (string \<times> (unit, unit) translate_result list) list) session" where
  "scoped_session =
     session_with_cache
       \<lparr>inner_conn = [], lk_reg = registry_new\<lparr>next_id := 1\<rparr>, lk_session = \<lparr>namespace = [], session_id = 1\<rparr>, lk_waits = []\<rparr>
       MySQL \<lparr>per_dialect = replicate 3 (1, [])\<rparr>"

theorem held_locks_never_forgotten_witness:
  "may_hold_user_locks (run_queries scoped_env [(''SELECT GET_LOCK(?, 5), ?'', [Text ''job'', Null, Null])] scoped_session) \<or>
   owned_by (abs_locks (lk_reg (conn (run_queries scoped_env [(''SELECT GET_LOCK(?, 5), ?'', [Text ''job'', Null, Null])] scoped_session))))
     (session_id (lk_session (conn (run_queries scoped_env [(''SELECT GET_LOCK(?, 5), ?'', [Text ''job'', Null, Null])] scoped_session)))) = {}"
proof -
  have e: "es_conn scoped_env = scoped_conn echo_conn" by (simp add: scoped_env_def)
  have l: "lookup_held (tab (lk_reg (conn scoped_session))) ns name = None" for ns name
    by (simp add: scoped_session_def session_with_cache_def registry_new_def empty_inner_def lookup_held_def)
  have inv: "scoped_inv (conn scoped_session)"
    unfolding scoped_inv_def
  proof (intro exI conjI)
    show "reg_inv [1 \<mapsto> \<lparr>namespace = [], session_id = 1\<rparr>] (lk_reg (conn scoped_session))"
      by (auto simp: reg_inv_def sessions_ok_def entries_ok_def index_ok_def notifies_ok_def l)
        (auto simp: scoped_session_def session_with_cache_def registry_new_def empty_inner_def split: if_splits)
  qed (auto simp: scoped_session_def session_with_cache_def others_ok_def)
  have "owned_by (abs_locks (lk_reg (conn scoped_session))) (session_id (lk_session (conn scoped_session))) = {}"
    by (auto simp: owned_by_def abs_locks_def l)
  from held_locks_never_forgotten [OF e inv this refl] show ?thesis by blast
qed

end
