(* ===== verification/Utf16.thy ===== *)
theory Utf16
  imports Wire_Bytes
begin

unbundle bit_operations_syntax

text \<open>
  Text decoded from UTF-16 (\<^verbatim>\<open>String::from_utf16\<close>): the scalar values of a sequence of code units, or
  nothing when a surrogate is unpaired, and the UTF-8 bytes a \<^verbatim>\<open>String\<close> keeps them as. Decoding the code
  units of a sequence of scalar values gives the sequence back.
\<close>

section \<open>Decoding\<close>

fun decode_units :: "u16 list \<Rightarrow> u32 list option" where
  "decode_units [] = Some []"
| "decode_units (u # us) =
     (if u < 0xD800 \<or> 0xE000 \<le> u then map_option ((#) (ucast u)) (decode_units us)
      else if 0xDC00 \<le> u then None
      else case us of
          [] \<Rightarrow> None
        | v # vs \<Rightarrow>
            if v < 0xDC00 \<or> 0xE000 \<le> v then None
            else map_option ((#) (0x10000 + (push_bit 10 (ucast u AND 0x3FF) OR (ucast v AND 0x3FF)))) (decode_units vs))"

definition byte_char :: "u32 \<Rightarrow> char" where
  "byte_char b = char_of (uint b)"

definition utf8_encode :: "u32 \<Rightarrow> string" where
  "utf8_encode c =
     (if c < 0x80 then [byte_char c]
      else if c < 0x800 then [byte_char (0xC0 OR drop_bit 6 c), byte_char (0x80 OR (c AND 0x3F))]
      else if c < 0x10000 then
        [byte_char (0xE0 OR drop_bit 12 c), byte_char (0x80 OR (drop_bit 6 c AND 0x3F)), byte_char (0x80 OR (c AND 0x3F))]
      else
        [byte_char (0xF0 OR drop_bit 18 c), byte_char (0x80 OR (drop_bit 12 c AND 0x3F)),
         byte_char (0x80 OR (drop_bit 6 c AND 0x3F)), byte_char (0x80 OR (c AND 0x3F))])"

definition utf8_string :: "u32 list \<Rightarrow> string" where
  "utf8_string cs = concat (map utf8_encode cs)"

definition from_utf16 :: "u16 list \<Rightarrow> string option" where
  "from_utf16 us = map_option utf8_string (decode_units us)"

section \<open>Round trip\<close>

definition is_scalar :: "u32 \<Rightarrow> bool" where
  "is_scalar c \<longleftrightarrow> c < 0xD800 \<or> 0xE000 \<le> c \<and> c < 0x110000"

lemma decode_bmp:
  assumes "is_scalar c" and "c < 0x10000"
  shows "decode_units (utf16_units c @ us) = map_option ((#) c) (decode_units us)"
proof -
  have n: "unat (ucast c :: u16) = unat c"
    using assms(2) by (simp add: unsigned_ucast_eq word_less_nat_alt take_bit_nat_eq_self)
  have "take_bit 16 c = c" using assms(2) less_mask_eq [of c 16] by (simp add: take_bit_eq_mask)
  then have "ucast (ucast c :: u16) = c" by (simp add: unsigned_ucast_eq)
  with n show ?thesis
    using assms by (auto simp: utf16_units_def is_scalar_def word_less_nat_alt word_le_nat_alt)
qed

text \<open>A surrogate: ten payload bits under a fixed prefix.\<close>

lemma mask_numerals: "(0x3FF :: 'a::len word) = mask 10"
  by (simp add: mask_eq_exp_minus_1)

lemma surrogate_prefix: "n < 10 \<Longrightarrow> \<not> bit (0xD800 :: u16) n \<and> \<not> bit (0xDC00 :: u16) n"
proof -
  have "list_all (\<lambda>n. \<not> bit (0xD800 :: u16) n \<and> \<not> bit (0xDC00 :: u16) n) [0..<10]" by code_simp
  then show "n < 10 \<Longrightarrow> \<not> bit (0xD800 :: u16) n \<and> \<not> bit (0xDC00 :: u16) n" by (auto simp: list_all_iff)
qed

lemma surrogate_value:
  fixes e :: u16
  assumes "p = 0xD800 \<or> p = 0xDC00"
  shows "unat (p OR take_bit 10 e) = unat p + unat (take_bit 10 e)" and "unat (take_bit 10 e) < 1024"
proof -
  have "p AND take_bit 10 e = 0"
    by (rule bit_word_eqI) (use assms surrogate_prefix in \<open>auto simp: bit_and_iff bit_take_bit_iff\<close>)
  note or = disjunctive_add_eq_or [OF this]
  have "int (unat (take_bit 10 e)) < 1024" using and_mask_lt_2p [of e 10] by (simp add: take_bit_eq_mask)
  then show le: "unat (take_bit 10 e) < 1024" by linarith
  show "unat (p OR take_bit 10 e) = unat p + unat (take_bit 10 e)"
    unfolding or [symmetric] using assms le by (auto simp: unat_word_ariths)
qed

lemma surrogate_payload:
  fixes w :: u32
  assumes "p = 0xD800 \<or> p = 0xDC00"
  shows "ucast (p OR take_bit 10 (ucast w) :: u16) AND (0x3FF :: u32) = take_bit 10 w"
  by (rule bit_word_eqI)
    (use assms surrogate_prefix in \<open>auto simp: mask_numerals bit_and_iff bit_or_iff bit_take_bit_iff bit_mask_iff bit_ucast_iff\<close>)

lemma decode_pair:
  assumes "0x10000 \<le> c" and "c < 0x110000"
  shows "decode_units (utf16_units c @ us) = map_option ((#) c) (decode_units us)"
proof -
  define d where "d = c - 0x10000"
  have d: "unat d < 2 ^ 20" and c: "c = 0x10000 + d"
    using assms by (simp_all add: d_def unat_sub word_less_nat_alt word_le_nat_alt)
  define hi lo :: u16 where "hi = 0xD800 OR take_bit 10 (ucast (drop_bit 10 d))" and "lo = 0xDC00 OR take_bit 10 (ucast d)"
  have small: "drop_bit 10 d < 2 ^ 10"
    using d by (simp add: word_less_nat_alt drop_bit_eq_div unat_div less_mult_imp_div_less)
  have tb: "take_bit 10 (drop_bit 10 d) = drop_bit 10 d"
    using small less_mask_eq [of "drop_bit 10 d" 10] by (simp add: take_bit_eq_mask)
  have tb16: "take_bit 10 (ucast (drop_bit 10 d) :: u16) = ucast (drop_bit 10 d)"
    by (metis tb unsigned_take_bit_eq)
  have units: "utf16_units c = [hi, lo]"
    using assms(1) by (simp add: utf16_units_def d_def [symmetric] hi_def lo_def tb16 mask_numerals
        take_bit_eq_mask [symmetric] not_less)
  have "unat hi = 0xD800 + unat (take_bit 10 (ucast (drop_bit 10 d) :: u16))"
    and "unat lo = 0xDC00 + unat (take_bit 10 (ucast d :: u16))"
    using surrogate_value(1) [of "0xD800" "ucast (drop_bit 10 d)"] surrogate_value(1) [of "0xDC00" "ucast d"]
    by (simp_all add: hi_def lo_def)
  then have ranges: "0xD800 \<le> hi" "hi < 0xDC00" "0xDC00 \<le> lo" "lo < 0xE000"
    using surrogate_value(2) [of "0xD800"] by (simp_all add: word_less_nat_alt word_le_nat_alt)
  have "ucast hi AND (0x3FF :: u32) = drop_bit 10 d" "ucast lo AND (0x3FF :: u32) = take_bit 10 d"
    using surrogate_payload [of "0xD800" "drop_bit 10 d"] surrogate_payload [of "0xDC00" d] tb
    by (simp_all add: hi_def lo_def)
  moreover have "push_bit 10 (drop_bit 10 d) OR take_bit 10 d = d"
    by (rule bit_word_eqI) (auto simp: bit_simps)
  ultimately show ?thesis
    using ranges by (simp add: units) (auto simp: c word_less_nat_alt word_le_nat_alt)
qed

lemma scalar_cases: "is_scalar c \<Longrightarrow> c < 0x10000 \<or> 0x10000 \<le> c \<and> c < 0x110000"
  by (auto simp: is_scalar_def word_less_nat_alt word_le_nat_alt)

lemma decode_encoded: "list_all is_scalar cs \<Longrightarrow> decode_units (concat (map utf16_units cs)) = Some cs"
proof (induction cs)
  case (Cons c cs)
  then show ?case
    using scalar_cases [of c] decode_bmp [of c] decode_pair [of c] by auto
qed simp

end
