(* ===== verification/Tds_Handler.thy ===== *)
theory Tds_Handler
  imports Utf16 Tds_Packet Tds_Token Session
begin

text \<open>
  One TDS client connection (\<^verbatim>\<open>src/crates/litewire-tds/src/handler.rs\<close>): the pre-login and login exchange, then
  a loop that reads a message, decodes the SQL text of a batch or of an \<^verbatim>\<open>sp_executesql\<close> call, runs its
  translation on the backend connection and writes one response message.

  The connection's bytes are those of \<open>Tds_Packet\<close>; the writing side has room for a number of bytes
  before it breaks, or never breaks. The translator, the text of an emulated metadata query, the backend
  connection and the conversions of floats are the fields of the environment. Indexing and slicing are
  the checked operations of \<open>Rust_Str\<close>, so a request that makes the handler panic is a value of the model.
  Logging is left out.
\<close>

section \<open>State\<close>

record tds_session =
  in_tran :: bool
  next_tran_id :: u64
  current_tran_id :: u64
  log_failed_sql :: bool

definition tds_session_new :: "bool \<Rightarrow> tds_session" where
  "tds_session_new log = \<lparr>in_tran = False, next_tran_id = 1, current_tran_id = 0, log_failed_sql = log\<rparr>"

definition tds_begin :: "tds_session \<Rightarrow> u64 \<times> tds_session" where
  "tds_begin s =
     (let tid = next_tran_id s
      in (tid, s\<lparr>next_tran_id := next_tran_id s + 1, current_tran_id := tid, in_tran := True\<rparr>))"

definition tds_end :: "tds_session \<Rightarrow> u64 \<times> tds_session" where
  "tds_end s = (let old = current_tran_id s in (old, s\<lparr>current_tran_id := 0, in_tran := False\<rparr>))"

record ('w, 'k, 'b) tds_env =
  te_conn :: "'w conn_api"
  te_connect :: "backend_error + 'w"
  te_translate :: "string \<Rightarrow> translate_error + ('k, 'b) translate_result list"
  te_meta :: "'k \<Rightarrow> string"
  te_floats :: f64_ops

record tds_stream =
  rd :: tds_reader
  written :: bytes
  room :: "nat option"

record 'w tds_state =
  stream :: tds_stream
  conn_state :: 'w
  tds_sess :: tds_session

datatype handler_error = Io tds_io_error | SessionFailed string

datatype 'a served = Served 'a | Broken handler_error | Crashed

section \<open>Writing a message\<close>

definition send :: "bytes \<Rightarrow> tds_stream \<Rightarrow> unit served \<times> tds_stream" where
  "send bs st =
     (case room st of
        None \<Rightarrow> (Served (), st\<lparr>written := written st @ bs\<rparr>)
      | Some n \<Rightarrow>
          if length bs \<le> n then (Served (), st\<lparr>written := written st @ bs, room := Some (n - length bs)\<rparr>)
          else (Broken (Io ConnectionBroken), st\<lparr>written := written st @ take n bs, room := Some 0\<rparr>))"

definition send_response :: "bytes \<Rightarrow> tds_stream \<Rightarrow> unit served \<times> tds_stream" where
  "send_response resp st =
     (case write_message Response resp DEFAULT_PACKET_SIZE of
        None \<Rightarrow> (Crashed, st)
      | Some bs \<Rightarrow> send bs st)"

definition send_error :: "string \<Rightarrow> tds_stream \<Rightarrow> unit served \<times> tds_stream" where
  "send_error message st = send_response (write_done (write_error [] 50000 message) DONE_FINAL 0) st"

section \<open>Decoding requests\<close>

text \<open>\<^verbatim>\<open>as_chunks::<2>().0\<close>, each read as a little-endian \<^verbatim>\<open>u16\<close>.\<close>

fun le_units :: "bytes \<Rightarrow> u16 list" where
  "le_units (a # b # r) = of_le_bytes [a, b] # le_units r"
| "le_units _ = []"

definition decode_utf16le :: "bytes \<Rightarrow> string option" where
  "decode_utf16le data = (if length data mod 2 \<noteq> 0 then None else from_utf16 (le_units data))"

definition u16_at :: "bytes \<Rightarrow> nat \<Rightarrow> u16 rust_result" where
  "u16_at bs i = rbind (elem_at bs i) (\<lambda>a. rbind (elem_at bs (i + 1)) (\<lambda>b. Returns (of_le_bytes [a, b])))"

definition u32_at :: "bytes \<Rightarrow> nat \<Rightarrow> u32 rust_result" where
  "u32_at bs i =
     rbind (elem_at bs i) (\<lambda>a. rbind (elem_at bs (i + 1)) (\<lambda>b. rbind (elem_at bs (i + 2)) (\<lambda>c.
       rbind (elem_at bs (i + 3)) (\<lambda>d. Returns (of_le_bytes [a, b, c, d])))))"

definition parse_login7_database :: "bytes \<Rightarrow> string option rust_result" where
  "parse_login7_database payld =
     (if length payld < 94 then Returns None
      else
        rbind (u16_at payld 60) (\<lambda>db_offset.
        rbind (u16_at payld 62) (\<lambda>db_len.
          if db_len = 0 then Returns None
          else
            let start = unat db_offset; fin = start + unat db_len * 2 in
            if length payld < fin then Returns None
            else rbind (slice_of payld start fin) (\<lambda>name. Returns (decode_utf16le name)))))"

definition skip_all_headers :: "bytes \<Rightarrow> nat rust_result" where
  "skip_all_headers payld =
     (if length payld < 4 then Returns 0
      else rbind (u32_at payld 0) (\<lambda>total_len.
        if 4 \<le> unat total_len \<and> unat total_len \<le> length payld then Returns (unat total_len) else Returns 0))"

definition extract_nvarchar_param :: "bytes \<Rightarrow> string option rust_result" where
  "extract_nvarchar_param data =
     (if data = [] then Returns None
      else rbind (elem_at data 0) (\<lambda>name_len.
        let pos = 1 + unat name_len * 2 in
        if length data \<le> pos then Returns None
        else
          let pos = pos + 1 in
          if length data \<le> pos then Returns None
          else rbind (elem_at data pos) (\<lambda>type_id.
            let pos = pos + 1 in
            if type_id \<noteq> 0xE7 then Returns None
            else if length data < pos + 2 + 5 then Returns None
            else
              let pos = pos + 2 + 5 in
              if length data < pos + 2 then Returns None
              else rbind (u16_at data pos) (\<lambda>val_len.
                let pos = pos + 2 in
                if val_len = 0xFFFF \<or> length data < pos + unat val_len then Returns None
                else rbind (slice_of data pos (pos + unat val_len)) (\<lambda>v. Returns (decode_utf16le v))))))"

section \<open>Running SQL\<close>

definition on_backend :: "('w \<Rightarrow> ('e + 'a) \<times> 'w) \<Rightarrow> 'w tds_state \<Rightarrow> ('e + 'a) \<times> 'w tds_state" where
  "on_backend f st = (case f (conn_state st) of (r, w) \<Rightarrow> (r, st\<lparr>conn_state := w\<rparr>))"

definition failure_tokens :: "bytes \<Rightarrow> backend_error \<Rightarrow> bytes" where
  "failure_tokens resp e = write_done (write_error resp 50000 (backend_error_to_string e)) DONE_FINAL 0"

definition result_tokens :: "f64_ops \<Rightarrow> bytes \<Rightarrow> result_set \<Rightarrow> bytes" where
  "result_tokens fl resp rs =
     (let first_row = (case rs_rows rs of [] \<Rightarrow> None | r # _ \<Rightarrow> Some r);
          columns = build_columns (rs_columns rs) first_row
      in write_done (fold (\<lambda>row b. write_row fl b columns row) (rs_rows rs) (write_colmetadata resp columns))
           DONE_COUNT (of_nat (length (rs_rows rs))))"

definition write_query_result ::
  "('w, 'k, 'b) tds_env \<Rightarrow> string \<Rightarrow> backend_value list \<Rightarrow> bytes \<Rightarrow> 'w tds_state \<Rightarrow> bytes \<times> 'w tds_state" where
  "write_query_result env sql params resp st =
     (case on_backend (conn_query (te_conn env) sql params) st of
        (Inr rs, st1) \<Rightarrow> (result_tokens (te_floats env) resp rs, st1)
      | (Inl e, st1) \<Rightarrow> (failure_tokens resp e, st1))"

definition write_exec_result ::
  "('w, 'k, 'b) tds_env \<Rightarrow> string \<Rightarrow> backend_value list \<Rightarrow> bytes \<Rightarrow> 'w tds_state \<Rightarrow> bytes \<times> 'w tds_state" where
  "write_exec_result env sql params resp st =
     (case on_backend (conn_execute (te_conn env) sql params) st of
        (Inr r, st1) \<Rightarrow> (write_done resp DONE_COUNT (affected_rows r), st1)
      | (Inl e, st1) \<Rightarrow> (failure_tokens resp e, st1))"

definition note_transaction :: "string \<Rightarrow> bytes \<Rightarrow> tds_session \<Rightarrow> bytes \<times> tds_session" where
  "note_transaction sql resp s =
     (let upper = to_ascii_uppercase (trim sql) in
      if starts_with upper ''BEGIN'' \<or> starts_with upper ''START'' then
        (case tds_begin s of (tran_id, s1) \<Rightarrow> (write_envchange_begin_tran resp tran_id, s1))
      else if starts_with upper ''COMMIT'' then
        (case tds_end s of (old_id, s1) \<Rightarrow> (write_envchange_commit_tran resp old_id, s1))
      else if starts_with upper ''ROLLBACK'' then
        (case tds_end s of (old_id, s1) \<Rightarrow> (write_envchange_rollback_tran resp old_id, s1))
      else (resp, s))"

definition write_transaction_result ::
  "('w, 'k, 'b) tds_env \<Rightarrow> string \<Rightarrow> bytes \<Rightarrow> 'w tds_state \<Rightarrow> bytes \<times> 'w tds_state" where
  "write_transaction_result env sql resp st =
     (case on_backend (conn_execute (te_conn env) sql []) st of
        (Inr _, st1) \<Rightarrow>
          (case note_transaction sql resp (tds_sess st1) of
             (resp1, s1) \<Rightarrow> (write_done resp1 DONE_FINAL 0, st1\<lparr>tds_sess := s1\<rparr>))
      | (Inl e, st1) \<Rightarrow> (failure_tokens resp e, st1))"

definition run_sql ::
  "('w, 'k, 'b) tds_env \<Rightarrow> string \<Rightarrow> backend_value list \<Rightarrow> bytes \<Rightarrow> 'w tds_state \<Rightarrow> bytes \<times> 'w tds_state" where
  "run_sql env sql params resp st =
     (if sql = [] then (write_done resp DONE_FINAL 0, st)
      else case classify sql of
          Query \<Rightarrow> write_query_result env sql params resp st
        | Transaction \<Rightarrow> write_transaction_result env sql resp st
        | _ \<Rightarrow> write_exec_result env sql params resp st)"

text \<open>The loop over the translated statements; \<open>None\<close> is the early return of a table rebuild.\<close>

fun run_results ::
  "('w, 'k, 'b) tds_env \<Rightarrow> ('k, 'b) translate_result list \<Rightarrow> backend_value list \<Rightarrow> bytes \<Rightarrow> 'w tds_state \<Rightarrow>
     bytes option \<times> 'w tds_state" where
  "run_results env [] params resp st = (Some resp, st)"
| "run_results env (r # rs) params resp st =
     (case r of
        RebuildTable b \<Rightarrow> (None, st)
      | Noop \<Rightarrow> run_results env rs params (write_done resp DONE_FINAL 0) st
      | Metadata k \<Rightarrow>
          (case write_query_result env (te_meta env k) params resp st of
             (resp1, st1) \<Rightarrow> run_results env rs params resp1 st1)
      | SqlText sql \<Rightarrow>
          (case run_sql env sql params resp st of (resp1, st1) \<Rightarrow> run_results env rs params resp1 st1))"

definition on_stream :: "(tds_stream \<Rightarrow> 'a \<times> tds_stream) \<Rightarrow> 'w tds_state \<Rightarrow> 'a \<times> 'w tds_state" where
  "on_stream f st = (case f (stream st) of (r, s1) \<Rightarrow> (r, st\<lparr>stream := s1\<rparr>))"

definition execute_sql ::
  "('w, 'k, 'b) tds_env \<Rightarrow> string \<Rightarrow> backend_value list \<Rightarrow> 'w tds_state \<Rightarrow> unit served \<times> 'w tds_state" where
  "execute_sql env sql params st =
     (case te_translate env sql of
        Inl e \<Rightarrow> on_stream (send_error (translate_error_text e)) st
      | Inr translated \<Rightarrow>
          (case run_results env translated params [] st of
             (None, st1) \<Rightarrow> on_stream (send_error ''table rebuilds are MySQL-only'') st1
           | (Some resp, st1) \<Rightarrow>
               on_stream (send_response (if resp = [] then write_done [] DONE_FINAL 0 else resp)) st1))"

section \<open>Requests\<close>

definition handle_sql_batch ::
  "('w, 'k, 'b) tds_env \<Rightarrow> bytes \<Rightarrow> 'w tds_state \<Rightarrow> unit served \<times> 'w tds_state" where
  "handle_sql_batch env payld st =
     (case rbind (skip_all_headers payld) (\<lambda>start. slice_of payld start (length payld)) of
        Panics \<Rightarrow> (Crashed, st)
      | Returns sql_bytes \<Rightarrow>
          (case decode_utf16le sql_bytes of
             None \<Rightarrow> on_stream (send_error ''Failed to decode SQL batch as UTF-16LE'') st
           | Some sql \<Rightarrow> execute_sql env sql [] st))"

definition handle_sp_executesql ::
  "('w, 'k, 'b) tds_env \<Rightarrow> bytes \<Rightarrow> 'w tds_state \<Rightarrow> unit served \<times> 'w tds_state" where
  "handle_sp_executesql env data st =
     (if length data < 2 then on_stream (send_error ''sp_executesql: missing option flags'') st
      else case rbind (slice_of data 2 (length data)) extract_nvarchar_param of
          Panics \<Rightarrow> (Crashed, st)
        | Returns None \<Rightarrow> on_stream (send_error ''sp_executesql: failed to extract SQL parameter'') st
        | Returns (Some sql) \<Rightarrow> execute_sql env sql [] st)"

text \<open>The well-known procedure a request calls, if any, and the bytes of its arguments.\<close>

definition rpc_arguments :: "bytes \<Rightarrow> bytes option rust_result" where
  "rpc_arguments payld =
     rbind (u16_at payld 0) (\<lambda>name_len.
       if name_len \<noteq> 0xFFFF then Returns None
       else rbind (u16_at payld 2) (\<lambda>proc_id.
         if proc_id \<noteq> 10 then Returns None
         else rbind (slice_of payld 4 (length payld)) (\<lambda>data. Returns (Some data))))"

definition handle_rpc_request ::
  "('w, 'k, 'b) tds_env \<Rightarrow> bytes \<Rightarrow> 'w tds_state \<Rightarrow> unit served \<times> 'w tds_state" where
  "handle_rpc_request env payld0 st =
     (case rbind (skip_all_headers payld0) (\<lambda>start. slice_of payld0 start (length payld0)) of
        Panics \<Rightarrow> (Crashed, st)
      | Returns payld \<Rightarrow>
          if length payld < 4 then on_stream (send_error ''RPC request too short'') st
          else case rpc_arguments payld of
              Panics \<Rightarrow> (Crashed, st)
            | Returns (Some data) \<Rightarrow> handle_sp_executesql env data st
            | Returns None \<Rightarrow> on_stream (send_response (write_done [] DONE_FINAL 0)) st)"

section \<open>Login\<close>

definition read_next :: "tds_stream \<Rightarrow> (tds_io_error + tds_message option) \<times> tds_stream" where
  "read_next st = (case read_message (rd st) of (r, rd1) \<Rightarrow> (r, st\<lparr>rd := rd1\<rparr>))"

text \<open>A message of the expected type, as the first steps of both exchanges require.\<close>

definition expect :: "packet_type \<Rightarrow> tds_stream \<Rightarrow> bytes served \<times> tds_stream" where
  "expect pt st =
     (case read_next st of
        (Inl e, st1) \<Rightarrow> (Broken (Io e), st1)
      | (Inr None, st1) \<Rightarrow> (Broken (Io UnexpectedEof), st1)
      | (Inr (Some m), st1) \<Rightarrow>
          if packet_type m = pt then (Served (payload m), st1) else (Broken (Io InvalidData), st1))"

definition prelogin_response :: bytes where
  "prelogin_response =
     (let header_size = 5 + 5 + 1 :: nat in
      [0x00] @ be_bytes 2 (of_nat header_size :: u16) @ be_bytes 2 (6 :: u16) @
      [0x01] @ be_bytes 2 (of_nat (header_size + 6) :: u16) @ be_bytes 2 (1 :: u16) @
      [0xFF] @ [15, 0] @ be_bytes 2 (0 :: u16) @ be_bytes 2 (0 :: u16) @ [0x02])"

definition handle_prelogin :: "tds_stream \<Rightarrow> unit served \<times> tds_stream" where
  "handle_prelogin st =
     (case expect PreLogin st of
        (Served _, st1) \<Rightarrow> send_response prelogin_response st1
      | (Broken e, st1) \<Rightarrow> (Broken e, st1)
      | (Crashed, st1) \<Rightarrow> (Crashed, st1))"

definition login_response :: "string \<Rightarrow> bytes" where
  "login_response db_name =
     (let r1 = write_loginack [] ''litewire'';
          r2 = write_envchange_database r1 db_name;
          r3 = write_envchange_packet_size r2 (ucast DEFAULT_PACKET_SIZE);
          r4 = write_info r3 5701 (''Changed database context to '' @ [CHR 0x27] @ db_name @ [CHR 0x27] @ ''.'')
      in write_done r4 DONE_FINAL 0)"

definition handle_login7 :: "tds_stream \<Rightarrow> string served \<times> tds_stream" where
  "handle_login7 st =
     (case expect Login7 st of
        (Served payld, st1) \<Rightarrow>
          (case parse_login7_database payld of
             Panics \<Rightarrow> (Crashed, st1)
           | Returns db \<Rightarrow>
               (let db_name = (case db of Some n \<Rightarrow> n | None \<Rightarrow> ''master'') in
                case send_response (login_response db_name) st1 of
                  (Served _, st2) \<Rightarrow> (Served db_name, st2)
                | (Broken e, st2) \<Rightarrow> (Broken e, st2)
                | (Crashed, st2) \<Rightarrow> (Crashed, st2)))
      | (Broken e, st1) \<Rightarrow> (Broken e, st1)
      | (Crashed, st1) \<Rightarrow> (Crashed, st1))"

section \<open>The query loop\<close>

definition serve_message ::
  "('w, 'k, 'b) tds_env \<Rightarrow> tds_message \<Rightarrow> 'w tds_state \<Rightarrow> unit served \<times> 'w tds_state" where
  "serve_message env m st =
     (case packet_type m of
        SqlBatch \<Rightarrow> handle_sql_batch env (payload m) st
      | RpcRequest \<Rightarrow> handle_rpc_request env (payload m) st
      | _ \<Rightarrow> (Served (), st))"

text \<open>Nothing but the next read takes bytes from the client.\<close>

named_theorems reader_kept \<open>operations that leave the incoming bytes alone\<close>

lemma rd_send [reader_kept]: "rd (snd (send bs st)) = rd st"
  by (simp add: send_def split: option.split)

lemma rd_send_response [reader_kept]: "rd (snd (send_response resp st)) = rd st"
  by (simp add: send_response_def rd_send split: option.split)

lemma rd_send_error [reader_kept]: "rd (snd (send_error m st)) = rd st"
  by (simp add: send_error_def rd_send_response)

lemma on_stream_parts [simp]:
  "stream (snd (on_stream f st)) = snd (f (stream st))" "fst (on_stream f st) = fst (f (stream st))"
  "conn_state (snd (on_stream f st)) = conn_state st" "tds_sess (snd (on_stream f st)) = tds_sess st"
  by (simp_all add: on_stream_def split: prod.split)

lemma stream_on_backend [simp]: "stream (snd (on_backend f st)) = stream st"
  by (simp add: on_backend_def split: prod.split)

lemma stream_on_backend_eq: "on_backend f st = (r, st1) \<Longrightarrow> stream st1 = stream st"
  using stream_on_backend [of f st] by simp

lemma stream_write_results [simp]:
  "stream (snd (write_query_result env sql params resp st)) = stream st"
  "stream (snd (write_exec_result env sql params resp st)) = stream st"
  "stream (snd (write_transaction_result env sql resp st)) = stream st"
  by (auto simp: write_query_result_def write_exec_result_def write_transaction_result_def stream_on_backend_eq
      split: prod.split sum.split)

lemma stream_run_sql [simp]: "stream (snd (run_sql env sql params resp st)) = stream st"
  by (simp add: run_sql_def split: statement_kind.split)

lemma stream_write_eqs:
  "run_sql env sql params resp st = (r, st1) \<Longrightarrow> stream st1 = stream st"
  "write_query_result env sql params resp st = (r, st1) \<Longrightarrow> stream st1 = stream st"
  using stream_run_sql [of env sql params resp st] stream_write_results(1) [of env sql params resp st] by simp_all

lemma stream_run_results_eq: "run_results env rs params resp st = (r, st1) \<Longrightarrow> stream st1 = stream st"
proof (induction rs arbitrary: resp st)
  case (Cons t rs)
  then show ?case by (cases t) (auto split: prod.splits dest!: stream_write_eqs)
qed simp

lemma rd_execute_sql [reader_kept]: "rd (stream (snd (execute_sql env sql params st))) = rd (stream st)"
  by (auto simp: execute_sql_def reader_kept stream_run_results_eq split: sum.split prod.splits option.splits)

lemma rd_serve_message [reader_kept]: "rd (stream (snd (serve_message env m st))) = rd (stream st)"
  by (simp add: serve_message_def handle_sql_batch_def handle_rpc_request_def handle_sp_executesql_def reader_kept
      split: packet_type.split rust_result.split option.split)

lemma rd_serve_message_eq: "serve_message env m st = (r, st1) \<Longrightarrow> rd (stream st1) = rd (stream st)"
  using rd_serve_message [of env m st] by simp

lemma read_packets_shorter:
  "read_packets mt acc r = (Inr (Some m), r') \<Longrightarrow> length (incoming r') < length (incoming r)"
proof (induction "length (incoming r)" arbitrary: mt acc r rule: less_induct)
  case less
  obtain h r1 body r2 where h: "read_exact HEADER_SIZE r = (Inr h, r1)"
    and b: "(if 0 < unat (of_be_bytes [h ! 2, h ! 3] :: u16) - HEADER_SIZE
      then read_exact (unat (of_be_bytes [h ! 2, h ! 3] :: u16) - HEADER_SIZE) r1 else (Inr [], r1)) = (Inr body, r2)"
    using less(2) by (rule read_packets_progress)
  have "length (incoming r2) < length (incoming r)"
    using h b by (auto simp: read_exact_def HEADER_SIZE_def split: if_splits)
  with less(1) [of r2] less(2) show ?case
    unfolding read_packets_step [OF h b refl] by (force split: if_splits option.splits)
qed

lemma read_next_shorter:
  "on_stream read_next st = (Inr (Some m), st1) \<Longrightarrow> length (incoming (rd (stream st1))) < length (incoming (rd (stream st)))"
  by (auto simp: on_stream_def read_next_def read_message_def split: prod.splits dest: read_packets_shorter)

function query_loop :: "('w, 'k, 'b) tds_env \<Rightarrow> 'w tds_state \<Rightarrow> unit served \<times> 'w tds_state" where
  "query_loop env st =
     (case on_stream read_next st of
        (Inl e, st1) \<Rightarrow> (Broken (Io e), st1)
      | (Inr None, st1) \<Rightarrow> (Served (), st1)
      | (Inr (Some m), st1) \<Rightarrow>
          (case serve_message env m st1 of
             (Served _, st2) \<Rightarrow> query_loop env st2
           | (Broken e, st2) \<Rightarrow> (Broken e, st2)
           | (Crashed, st2) \<Rightarrow> (Crashed, st2)))"
  by pat_completeness auto
termination
  by (relation "measure (\<lambda>(env, st). length (incoming (rd (stream st))))")
    (auto dest!: read_next_shorter [OF sym] rd_serve_message_eq [OF sym])

declare query_loop.simps [simp del]

definition handle_connection ::
  "('w, 'k, 'b) tds_env \<Rightarrow> bool \<Rightarrow> tds_stream \<Rightarrow> unit served \<times> tds_stream \<times> 'w tds_state option" where
  "handle_connection env log s =
     (case handle_prelogin s of
        (Broken e, s1) \<Rightarrow> (Broken e, s1, None)
      | (Crashed, s1) \<Rightarrow> (Crashed, s1, None)
      | (Served _, s1) \<Rightarrow>
          (case handle_login7 s1 of
             (Broken e, s2) \<Rightarrow> (Broken e, s2, None)
           | (Crashed, s2) \<Rightarrow> (Crashed, s2, None)
           | (Served _, s2) \<Rightarrow>
               (case te_connect env of
                  Inl e \<Rightarrow> (Broken (SessionFailed (''TDS: failed to open backend session: '' @ backend_error_to_string e)), s2, None)
                | Inr w \<Rightarrow>
                    (case query_loop env \<lparr>stream = s2, conn_state = w, tds_sess = tds_session_new log\<rparr> of
                       (r, st) \<Rightarrow> (r, stream st, Some st)))))"

end
