(* ===== verification/Tds_Serve.thy ===== *)
theory Tds_Serve
  imports Tds_Handler
begin

text \<open>
  What the TDS handler does for a client: the reply to one SQL text as a function of the backend
  connection and the transaction state alone, and the proof that the handler's loop over framed
  messages sends exactly these replies, in the order of the requests, whatever packet size the client
  splits its messages with.
\<close>

section \<open>The reply to one text\<close>

definition unbounded :: "tds_reader \<Rightarrow> bytes \<Rightarrow> tds_stream" where
  "unbounded r out = \<lparr>rd = r, written = out, room = None\<rparr>"

definition answer :: "('w, 'k, 'b) tds_env \<Rightarrow> string \<Rightarrow> 'w \<times> tds_session \<Rightarrow> bytes \<times> 'w \<times> tds_session" where
  "answer env sql c =
     (let st = snd (execute_sql env sql [] \<lparr>stream = unbounded \<lparr>incoming = [], broken = False\<rparr> [],
                                            conn_state = fst c, tds_sess = snd c\<rparr>)
      in (written (stream st), conn_state st, tds_sess st))"

fun answers :: "('w, 'k, 'b) tds_env \<Rightarrow> string list \<Rightarrow> 'w \<times> tds_session \<Rightarrow> bytes \<times> 'w \<times> tds_session" where
  "answers env [] c = ([], c)"
| "answers env (q # qs) c =
     (case answer env q c of (b, c1) \<Rightarrow> case answers env qs c1 of (bs, c2) \<Rightarrow> (b @ bs, c2))"

section \<open>Framing of responses\<close>

lemma write_response_framed: "\<exists>bs. write_message Response resp DEFAULT_PACKET_SIZE = Some bs"
  by (simp add: write_message_def DEFAULT_PACKET_SIZE_def HEADER_SIZE_def Let_def)

lemma send_response_unbounded:
  assumes "write_message Response resp DEFAULT_PACKET_SIZE = Some bs"
  shows "send_response resp (unbounded r out) = (Served (), unbounded r (out @ bs))"
  using assms by (simp add: send_response_def send_def unbounded_def)

section \<open>Running a statement does not depend on the connection's bytes\<close>

lemma on_backend_stream:
  "on_backend f (st\<lparr>stream := s\<rparr>) = (case on_backend f st of (r, st1) \<Rightarrow> (r, st1\<lparr>stream := s\<rparr>))"
  by (simp add: on_backend_def split: prod.split)

lemma write_results_stream:
  "write_query_result env sql params resp (st\<lparr>stream := s\<rparr>) =
     (case write_query_result env sql params resp st of (b, st1) \<Rightarrow> (b, st1\<lparr>stream := s\<rparr>))"
  "write_exec_result env sql params resp (st\<lparr>stream := s\<rparr>) =
     (case write_exec_result env sql params resp st of (b, st1) \<Rightarrow> (b, st1\<lparr>stream := s\<rparr>))"
  "write_transaction_result env sql resp (st\<lparr>stream := s\<rparr>) =
     (case write_transaction_result env sql resp st of (b, st1) \<Rightarrow> (b, st1\<lparr>stream := s\<rparr>))"
  by (simp_all add: write_query_result_def write_exec_result_def write_transaction_result_def on_backend_stream
      split: prod.split sum.split)

lemma run_sql_stream:
  "run_sql env sql params resp (st\<lparr>stream := s\<rparr>) =
     (case run_sql env sql params resp st of (b, st1) \<Rightarrow> (b, st1\<lparr>stream := s\<rparr>))"
  by (simp add: run_sql_def write_results_stream split: statement_kind.split)

lemma run_results_stream:
  "run_results env rs params resp (st\<lparr>stream := s\<rparr>) =
     (case run_results env rs params resp st of (b, st1) \<Rightarrow> (b, st1\<lparr>stream := s\<rparr>))"
proof (induction rs arbitrary: resp st)
  case (Cons t rs)
  then show ?case
    by (cases t) (simp_all add: run_sql_stream write_results_stream split: prod.split)
qed simp

text \<open>The payload a text is answered with.\<close>

definition reply_payload :: "('w, 'k, 'b) tds_env \<Rightarrow> string \<Rightarrow> 'w tds_state \<Rightarrow> bytes \<times> 'w tds_state" where
  "reply_payload env sql st =
     (let failed = (\<lambda>m. write_done (write_error [] 50000 m) DONE_FINAL 0) in
      case te_translate env sql of
        Inl e \<Rightarrow> (failed (translate_error_text e), st)
      | Inr translated \<Rightarrow>
          (case run_results env translated [] [] st of
             (None, st1) \<Rightarrow> (failed ''table rebuilds are MySQL-only'', st1)
           | (Some resp, st1) \<Rightarrow> (if resp = [] then write_done [] DONE_FINAL 0 else resp, st1)))"

lemma execute_sql_reply:
  "execute_sql env sql [] st = (case reply_payload env sql st of (p, st1) \<Rightarrow> on_stream (send_response p) st1)"
  by (simp add: execute_sql_def reply_payload_def send_error_def [abs_def] Let_def split: sum.split prod.split option.split)

lemma reply_payload_stream:
  "reply_payload env sql (st\<lparr>stream := s\<rparr>) = (case reply_payload env sql st of (p, st1) \<Rightarrow> (p, st1\<lparr>stream := s\<rparr>))"
  by (simp add: reply_payload_def run_results_stream Let_def split: sum.split prod.split option.split)

lemma reply_payload_keeps_stream: "reply_payload env sql st = (p, st1) \<Longrightarrow> stream st1 = stream st"
  by (auto simp: reply_payload_def Let_def stream_run_results_eq split: sum.splits prod.splits option.splits)

lemma execute_sql_answer:
  assumes "answer env sql (w, t) = (b, w1, t1)"
  shows "execute_sql env sql [] \<lparr>stream = unbounded r out, conn_state = w, tds_sess = t\<rparr> =
    (Served (), \<lparr>stream = unbounded r (out @ b), conn_state = w1, tds_sess = t1\<rparr>)"
proof -
  let ?r0 = "\<lparr>incoming = [], broken = False\<rparr>"
  define st0 where "st0 = \<lparr>stream = unbounded ?r0 [], conn_state = w, tds_sess = t\<rparr>"
  obtain p st1 where p: "reply_payload env sql st0 = (p, st1)" by force
  obtain bs where bs: "write_message Response p DEFAULT_PACKET_SIZE = Some bs" using write_response_framed by blast
  have s1: "stream st1 = unbounded ?r0 []" using reply_payload_keeps_stream [OF p] by (simp add: st0_def)
  have b: "b = bs" "w1 = conn_state st1" "t1 = tds_sess st1"
    using assms s1 by (simp_all add: answer_def execute_sql_reply st0_def [symmetric] p on_stream_def
        send_response_unbounded [OF bs] Let_def) (auto simp: unbounded_def)
  have "reply_payload env sql (st0\<lparr>stream := unbounded r out\<rparr>) = (p, st1\<lparr>stream := unbounded r out\<rparr>)"
    by (simp add: reply_payload_stream p)
  then show ?thesis
    by (simp add: execute_sql_reply st0_def on_stream_def send_response_unbounded [OF bs] b)
qed

section \<open>Client requests\<close>

text \<open>
  A batch, or a call of \<^verbatim>\<open>sp_executesql\<close> with its first parameter, as a client lays them out: the headers
  after their total length, then the text in UTF-16.
\<close>

datatype client_request =
    Batch "bytes" "u32 list"
  | Execute "bytes" u16 "u16 list" u8 u16 "bytes" "u32 list"

definition utf16_of :: "u32 list \<Rightarrow> bytes" where
  "utf16_of cs = concat (map (le_bytes 2) (concat (map utf16_units cs)))"

definition with_headers :: "bytes \<Rightarrow> bytes \<Rightarrow> bytes" where
  "with_headers hdrs body = le_bytes 4 (of_nat (4 + length hdrs) :: u32) @ hdrs @ body"

definition nvarchar_param :: "u16 list \<Rightarrow> u8 \<Rightarrow> u16 \<Rightarrow> bytes \<Rightarrow> u32 list \<Rightarrow> bytes" where
  "nvarchar_param name status max_len collation cs =
     [of_nat (length name)] @ concat (map (le_bytes 2) name) @ [status, 0xE7] @ le_bytes 2 max_len @ collation
     @ le_bytes 2 (of_nat (length (utf16_of cs)) :: u16) @ utf16_of cs"

fun request_type :: "client_request \<Rightarrow> packet_type" where
  "request_type (Batch hdrs cs) = SqlBatch"
| "request_type (Execute hdrs flags name status max_len collation cs) = RpcRequest"

fun request_payload :: "client_request \<Rightarrow> bytes" where
  "request_payload (Batch hdrs cs) = with_headers hdrs (utf16_of cs)"
| "request_payload (Execute hdrs flags name status max_len collation cs) =
     with_headers hdrs (le_bytes 2 (0xFFFF :: u16) @ le_bytes 2 (10 :: u16) @ le_bytes 2 flags
       @ nvarchar_param name status max_len collation cs)"

fun request_text :: "client_request \<Rightarrow> string" where
  "request_text (Batch hdrs cs) = utf8_string cs"
| "request_text (Execute hdrs flags name status max_len collation cs) = utf8_string cs"

fun request_ok :: "client_request \<Rightarrow> bool" where
  "request_ok (Batch hdrs cs) \<longleftrightarrow> list_all is_scalar cs \<and> length hdrs < 2 ^ 32 - 4"
| "request_ok (Execute hdrs flags name status max_len collation cs) \<longleftrightarrow>
     list_all is_scalar cs \<and> length hdrs < 2 ^ 32 - 4 \<and> length name < 256 \<and> length collation = 5 \<and>
     length (utf16_of cs) < 0xFFFF"

section \<open>Decoding them\<close>

lemma length_concat_le2 [simp]: "length (concat (map (le_bytes 2) us)) = 2 * length us"
  by (induction us) auto

lemma le_bytes_2: obtains a b where "le_bytes 2 (w :: u16) = [a, b]" "of_le_bytes [a, b] = w"
proof -
  have "le_bytes 2 w = [ucast w, ucast (drop_bit 8 w)]" by (simp add: numeral_2_eq_2)
  moreover have "of_le_bytes (le_bytes 2 w) = w" by (rule le_bytes_inverse) simp
  ultimately show thesis using that by metis
qed

lemma le_bytes_4: obtains a b c d where "le_bytes 4 (w :: u32) = [a, b, c, d]" "of_le_bytes [a, b, c, d] = w"
proof -
  have "le_bytes 4 w = [ucast w, ucast (drop_bit 8 w), ucast (drop_bit 8 (drop_bit 8 w)), ucast (drop_bit 8 (drop_bit 8 (drop_bit 8 w)))]"
    by (simp add: eval_nat_numeral)
  moreover have "of_le_bytes (le_bytes 4 w) = w" by (rule le_bytes_inverse) simp
  ultimately show thesis using that by metis
qed

lemma le_units_inverse: "le_units (concat (map (le_bytes 2) us)) = us"
proof (induction us)
  case (Cons u us)
  obtain a b where "le_bytes 2 u = [a, b]" "of_le_bytes [a, b] = u" by (rule le_bytes_2)
  with Cons show ?case by (simp del: of_le_bytes.simps)
qed simp

lemma decode_utf16le_text: "list_all is_scalar cs \<Longrightarrow> decode_utf16le (utf16_of cs) = Some (utf8_string cs)"
  by (simp add: decode_utf16le_def utf16_of_def le_units_inverse from_utf16_def decode_encoded)

lemma u16_at_skip: "i = length p \<Longrightarrow> u16_at (p @ le_bytes 2 (w :: u16) @ r) i = Returns w"
proof -
  obtain a b where "le_bytes 2 w = [a, b]" "of_le_bytes [a, b] = w" by (rule le_bytes_2)
  then show "i = length p \<Longrightarrow> ?thesis" by (simp add: u16_at_def elem_at_def nth_append del: of_le_bytes.simps)
qed

lemma u32_at_start: "u32_at (le_bytes 4 (w :: u32) @ r) 0 = Returns w"
proof -
  obtain a b c d where "le_bytes 4 w = [a, b, c, d]" "of_le_bytes [a, b, c, d] = w" by (rule le_bytes_4)
  then show ?thesis by (simp add: u32_at_def elem_at_def eval_nat_numeral del: of_le_bytes.simps)
qed

lemma skip_headers:
  assumes "length hdrs < 2 ^ 32 - 4"
  shows "rbind (skip_all_headers (with_headers hdrs body))
      (\<lambda>start. slice_of (with_headers hdrs body) start (length (with_headers hdrs body))) = Returns body"
proof -
  have "unat (of_nat (4 + length hdrs) :: u32) = 4 + length hdrs"
    using assms by (simp add: unsigned_of_nat take_bit_nat_eq_self del: of_nat_add)
  then show ?thesis
    by (simp add: skip_all_headers_def with_headers_def u32_at_start slice_of_def del: of_nat_add)
qed

lemma elem_at_skip: "i = length p \<Longrightarrow> elem_at (p @ x # r) i = Returns x"
  by (simp add: elem_at_def)

lemma slice_end: "a = length p \<Longrightarrow> b = length p + length t \<Longrightarrow> slice_of (p @ t) a b = Returns t"
  by (simp add: slice_of_def)

lemma extract_param:
  assumes "list_all is_scalar cs" and "length name < 256" and "length collation = 5" and "length (utf16_of cs) < 0xFFFF"
  shows "extract_nvarchar_param (nvarchar_param name status max_len collation cs) = Returns (Some (utf8_string cs))"
proof -
  let ?t = "utf16_of cs"
  let ?len = "of_nat (length ?t) :: u16"
  define names where "names = (of_nat (length name) :: u8) # concat (map (le_bytes 2) name) @ [status]"
  define typed where "typed = names @ [0xE7] @ le_bytes 2 max_len @ collation"
  have data: "nvarchar_param name status max_len collation cs = names @ 0xE7 # le_bytes 2 max_len @ collation @ le_bytes 2 ?len @ ?t"
    "nvarchar_param name status max_len collation cs = typed @ le_bytes 2 ?len @ ?t"
    "nvarchar_param name status max_len collation cs = (typed @ le_bytes 2 ?len) @ ?t"
    by (simp_all add: nvarchar_param_def names_def typed_def)
  have lens: "length names = 2 + 2 * length name" "length typed = 10 + 2 * length name"
    using assms(3) by (simp_all add: names_def typed_def)
  have first: "elem_at (nvarchar_param name status max_len collation cs) 0 = Returns (of_nat (length name))"
    by (simp add: data(1) names_def elem_at_def)
  have n: "unat (of_nat (length name) :: u8) = length name" "unat ?len = length ?t" "?len \<noteq> 0xFFFF"
  proof -
    show "unat (of_nat (length name) :: u8) = length name" "unat ?len = length ?t"
      using assms by (simp_all add: unsigned_of_nat take_bit_nat_eq_self)
    then show "?len \<noteq> 0xFFFF" using assms(4) by auto
  qed
  have ty: "elem_at (nvarchar_param name status max_len collation cs) (2 + 2 * length name) = Returns 0xE7"
    unfolding data(1) by (rule elem_at_skip) (simp add: lens)
  have vl: "u16_at (nvarchar_param name status max_len collation cs) (10 + 2 * length name) = Returns ?len"
    unfolding data(2) by (rule u16_at_skip) (simp add: lens)
  have sl: "slice_of (nvarchar_param name status max_len collation cs) (12 + 2 * length name) (12 + 2 * length name + length ?t)
      = Returns ?t"
    unfolding data(3) by (rule slice_end) (simp_all add: lens)
  have total: "length (nvarchar_param name status max_len collation cs) = 12 + 2 * length name + length ?t"
    unfolding data(3) by (simp add: lens)
  then have "nvarchar_param name status max_len collation cs \<noteq> []" by auto
  then show ?thesis
    using ty vl sl by (simp add: extract_nvarchar_param_def first n total Let_def decode_utf16le_text assms(1) add.commute mult.commute)
qed

lemma rpc_executesql:
  "rpc_arguments (le_bytes 2 (0xFFFF :: u16) @ le_bytes 2 (10 :: u16) @ data) = Returns (Some data)"
  using u16_at_skip [of 0 "[]" "0xFFFF" "le_bytes 2 (10 :: u16) @ data"]
    u16_at_skip [of 2 "le_bytes 2 (0xFFFF :: u16)" 10 data]
    slice_end [of 4 "le_bytes 2 (0xFFFF :: u16) @ le_bytes 2 (10 :: u16)" "length (le_bytes 2 (0xFFFF :: u16) @ le_bytes 2 (10 :: u16) @ data)" data]
  by (simp add: rpc_arguments_def)

text \<open>A request is served by running its text.\<close>

lemma serve_request:
  assumes "request_ok req"
  shows "serve_message env \<lparr>packet_type = request_type req, payload = request_payload req\<rparr> st =
    execute_sql env (request_text req) [] st"
proof (cases req)
  case (Batch hdrs cs)
  with assms show ?thesis
    by (simp add: serve_message_def handle_sql_batch_def skip_headers decode_utf16le_text)
next
  case (Execute hdrs flags name status max_len collation cs)
  let ?p = "nvarchar_param name status max_len collation cs"
  have "slice_of (le_bytes 2 flags @ ?p) 2 (2 + length ?p) = Returns ?p" by (rule slice_end) simp_all
  with Execute assms show ?thesis
    by (simp add: serve_message_def handle_rpc_request_def skip_headers rpc_executesql handle_sp_executesql_def extract_param)
qed

section \<open>The whole conversation\<close>

lemma read_next_message:
  assumes "write_message pt data n = Some bs" and "8 < n" and "n \<le> 65535"
  shows "read_next (unbounded \<lparr>incoming = bs @ t, broken = b\<rparr> out) =
    (Inr (Some \<lparr>packet_type = pt, payload = data\<rparr>), unbounded \<lparr>incoming = t, broken = b\<rparr> out)"
  using read_written_message [OF assms] by (simp add: read_next_def unbounded_def)

lemma query_loop_end:
  "query_loop env \<lparr>stream = unbounded \<lparr>incoming = [], broken = False\<rparr> out, conn_state = w, tds_sess = t\<rparr> =
    (Served (), \<lparr>stream = unbounded \<lparr>incoming = [], broken = False\<rparr> out, conn_state = w, tds_sess = t\<rparr>)"
  by (subst query_loop.simps)
    (simp add: on_stream_def read_next_def unbounded_def read_message_def read_packets.simps [of None]
      read_exact_def HEADER_SIZE_def)

lemma query_loop_requests:
  assumes "list_all request_ok reqs" and "8 < n" and "n \<le> 65535"
    and "map (\<lambda>r. write_message (request_type r) (request_payload r) n) reqs = map Some bss"
    and "answers env (map request_text reqs) (w, t) = (bs, w', t')"
  shows "query_loop env \<lparr>stream = unbounded \<lparr>incoming = concat bss, broken = False\<rparr> out, conn_state = w, tds_sess = t\<rparr> =
    (Served (), \<lparr>stream = unbounded \<lparr>incoming = [], broken = False\<rparr> (out @ bs), conn_state = w', tds_sess = t'\<rparr>)"
  using assms(1,4,5)
proof (induction reqs arbitrary: bss w t out bs)
  case (Cons req reqs)
  then obtain b0 bss' where bss: "bss = b0 # bss'" and b0: "write_message (request_type req) (request_payload req) n = Some b0"
    and rest: "map (\<lambda>r. write_message (request_type r) (request_payload r) n) reqs = map Some bss'"
    by (cases bss) auto
  obtain a w1 t1 a' where a: "answer env (request_text req) (w, t) = (a, w1, t1)"
    and a': "answers env (map request_text reqs) (w1, t1) = (a', w', t')" and bs: "bs = a @ a'"
    using Cons.prems(3) by (auto split: prod.splits)
  have serve: "serve_message env \<lparr>packet_type = request_type req, payload = request_payload req\<rparr>
      \<lparr>stream = unbounded \<lparr>incoming = concat bss', broken = False\<rparr> out, conn_state = w, tds_sess = t\<rparr> =
      (Served (), \<lparr>stream = unbounded \<lparr>incoming = concat bss', broken = False\<rparr> (out @ a), conn_state = w1, tds_sess = t1\<rparr>)"
    using serve_request [of req env] execute_sql_answer [OF a] Cons.prems(1) by simp
  have "query_loop env \<lparr>stream = unbounded \<lparr>incoming = concat bss, broken = False\<rparr> out, conn_state = w, tds_sess = t\<rparr> =
      query_loop env \<lparr>stream = unbounded \<lparr>incoming = concat bss', broken = False\<rparr> (out @ a), conn_state = w1, tds_sess = t1\<rparr>"
    by (subst query_loop.simps) (simp add: on_stream_def bss read_next_message [OF b0 assms(2,3)] serve)
  also have "\<dots> = (Served (), \<lparr>stream = unbounded \<lparr>incoming = [], broken = False\<rparr> ((out @ a) @ a'), conn_state = w', tds_sess = t'\<rparr>)"
    by (rule Cons.IH [OF _ rest a']) (use Cons.prems(1) in simp)
  finally show ?case by (simp add: bs)
qed (simp add: query_loop_end)

text \<open>What the login exchange sends: the pre-login response, then the response to the login.\<close>

definition greeting :: "bytes \<Rightarrow> bytes" where
  "greeting login =
     (case parse_login7_database login of
        Panics \<Rightarrow> []
      | Returns db \<Rightarrow>
          the (write_message Response prelogin_response DEFAULT_PACKET_SIZE)
          @ the (write_message Response (login_response (case db of Some n \<Rightarrow> n | None \<Rightarrow> ''master'')) DEFAULT_PACKET_SIZE))"

lemma expect_message:
  assumes "write_message pt data n = Some bs" and "8 < n" and "n \<le> 65535"
  shows "expect pt (unbounded \<lparr>incoming = bs @ t, broken = b\<rparr> out) =
    (Served data, unbounded \<lparr>incoming = t, broken = b\<rparr> out)"
  by (simp add: expect_def read_next_message [OF assms])

lemma send_response_the:
  "send_response resp (unbounded r out) =
     (Served (), unbounded r (out @ the (write_message Response resp DEFAULT_PACKET_SIZE)))"
  using write_response_framed [of resp] by (auto simp: send_response_unbounded)

lemma conversation:
  assumes "list_all request_ok reqs" and "8 < n" and "n \<le> 65535"
    and pre: "write_message PreLogin p n = Some b0" and login: "write_message Login7 l n = Some b1"
    and "map (\<lambda>r. write_message (request_type r) (request_payload r) n) reqs = map Some bss"
    and "te_connect env = Inr w" and ok: "parse_login7_database l = Returns db"
    and "answers env (map request_text reqs) (w, tds_session_new log) = (bs, w', t')"
  shows "handle_connection env log (unbounded \<lparr>incoming = b0 @ b1 @ concat bss, broken = False\<rparr> []) =
    (let s = unbounded \<lparr>incoming = [], broken = False\<rparr> (greeting l @ bs)
     in (Served (), s, Some \<lparr>stream = s, conn_state = w', tds_sess = t'\<rparr>))"
proof -
  have "handle_prelogin (unbounded \<lparr>incoming = b0 @ b1 @ concat bss, broken = False\<rparr> []) =
      (Served (), unbounded \<lparr>incoming = b1 @ concat bss, broken = False\<rparr>
         (the (write_message Response prelogin_response DEFAULT_PACKET_SIZE)))" (is "_ = (_, ?s1)")
    by (simp add: handle_prelogin_def expect_message [OF pre assms(2,3)] send_response_the)
  moreover have "handle_login7 ?s1 = (Served (case db of Some n \<Rightarrow> n | None \<Rightarrow> ''master''),
      unbounded \<lparr>incoming = concat bss, broken = False\<rparr> (greeting l))"
    by (simp add: handle_login7_def expect_message [OF login assms(2,3)] ok send_response_the greeting_def Let_def)
  ultimately show ?thesis
    using query_loop_requests [OF assms(1-3,6,9), of "greeting l"] assms(7)
    by (simp add: handle_connection_def Let_def)
qed

section \<open>No request makes the handler panic\<close>

lemma u16_at_returns: "i + 1 < length bs \<Longrightarrow> u16_at bs i \<noteq> Panics"
  by (simp add: u16_at_def elem_at_def)

lemma parse_login7_returns: "parse_login7_database payld \<noteq> Panics"
proof (cases "length payld < 94")
  case False
  then have "u16_at payld 60 \<noteq> Panics" "u16_at payld 62 \<noteq> Panics" by (auto intro!: u16_at_returns)
  then show ?thesis
    by (auto simp: parse_login7_database_def slice_of_def Let_def rbind_def split: rust_result.splits)
qed (simp add: parse_login7_database_def)

lemma skip_all_headers_returns: "\<exists>k \<le> length payld. skip_all_headers payld = Returns k"
  by (auto simp: skip_all_headers_def u32_at_def elem_at_def)

lemma request_body_returns:
  "rbind (skip_all_headers payld) (\<lambda>start. slice_of payld start (length payld)) \<noteq> Panics"
  using skip_all_headers_returns [of payld] by (auto simp: slice_of_def)

lemma extract_returns: "extract_nvarchar_param data \<noteq> Panics"
  by (auto simp: extract_nvarchar_param_def slice_of_def elem_at_def u16_at_def Let_def rbind_def split: rust_result.splits)

lemma rpc_arguments_returns: "4 \<le> length payld \<Longrightarrow> rpc_arguments payld \<noteq> Panics"
  using u16_at_returns [of 0 payld] u16_at_returns [of 2 payld]
  by (auto simp: rpc_arguments_def slice_of_def rbind_def split: rust_result.splits)

lemma send_not_crashed: "fst (send_response resp st) \<noteq> Crashed" "fst (send_error m st) \<noteq> Crashed"
  using write_response_framed by (auto simp: send_error_def send_response_def send_def split: option.splits)

lemma execute_sql_not_crashed: "fst (execute_sql env sql params st) \<noteq> Crashed"
  by (simp add: execute_sql_def send_not_crashed split: sum.split prod.split option.split)

lemma serve_message_not_crashed: "fst (serve_message env m st) \<noteq> Crashed"
  using request_body_returns [of "payload m"] extract_returns rpc_arguments_returns
  by (auto simp: serve_message_def handle_sql_batch_def handle_rpc_request_def handle_sp_executesql_def
      slice_of_def not_less send_not_crashed execute_sql_not_crashed
      split: packet_type.split rust_result.split option.split)

lemma query_loop_not_crashed: "fst (query_loop env st) \<noteq> Crashed"
proof (induction env st rule: query_loop.induct)
  case (1 env st)
  show ?case
  proof (cases "on_stream read_next st")
    case (Pair r st1)
    show ?thesis
    proof (cases "\<exists>m st2. r = Inr (Some m) \<and> serve_message env m st1 = (Served (), st2)")
      case True
      then obtain m st2 where m: "r = Inr (Some m)" "serve_message env m st1 = (Served (), st2)" by blast
      from 1 [OF Pair [symmetric] m(1) refl m(2) [symmetric] refl] show ?thesis
        by (subst query_loop.simps) (simp add: Pair m)
    next
      case False
      then show ?thesis
        using serve_message_not_crashed [of env _ st1]
        by (subst query_loop.simps) (auto simp: Pair split: sum.splits option.splits prod.splits served.splits, metis fst_conv)
    qed
  qed
qed

lemma login_not_crashed: "fst (handle_prelogin st) \<noteq> Crashed" "fst (handle_login7 st) \<noteq> Crashed"
proof -
  have e: "expect pt st \<noteq> (Crashed, st1)" for pt st st1
    by (auto simp: expect_def split: prod.splits sum.splits option.splits)
  have r: "send_response resp st \<noteq> (Crashed, st1)" for resp st st1
    using send_not_crashed(1) [of resp st] by auto
  show "fst (handle_prelogin st) \<noteq> Crashed"
    by (auto simp: handle_prelogin_def e send_not_crashed split: prod.splits served.splits)
  show "fst (handle_login7 st) \<noteq> Crashed"
    by (auto simp: handle_login7_def e r parse_login7_returns Let_def split: prod.splits served.splits rust_result.splits)
qed

section \<open>Every reply is one message that ends with a DONE token\<close>

definition ends_done :: "bytes \<Rightarrow> bool" where
  "ends_done resp \<longleftrightarrow> (\<exists>front status rows. resp = front @ write_done [] status rows)"

lemma ends_done_write [simp]: "ends_done (write_done resp status rows)"
  unfolding ends_done_def by (rule exI [of _ resp], rule exI [of _ status], rule exI [of _ rows]) (simp add: write_done_def)

lemma ends_done_write_results:
  "write_query_result env sql params resp st = (b, st1) \<Longrightarrow> ends_done b"
  "write_exec_result env sql params resp st = (b, st1) \<Longrightarrow> ends_done b"
  "write_transaction_result env sql resp st = (b, st1) \<Longrightarrow> ends_done b"
  by (auto simp: write_query_result_def write_exec_result_def write_transaction_result_def result_tokens_def
      failure_tokens_def Let_def split: prod.splits sum.splits)

lemma ends_done_run_sql: "run_sql env sql params resp st = (b, st1) \<Longrightarrow> ends_done b"
  by (auto simp: run_sql_def ends_done_write_results split: if_splits statement_kind.splits)

lemma ends_done_run_results:
  "run_results env rs params resp st = (Some b, st1) \<Longrightarrow> ends_done resp \<or> resp = [] \<Longrightarrow> ends_done b \<or> b = []"
proof (induction rs arbitrary: resp st)
  case (Cons t rs)
  then show ?case by (cases t) (auto split: prod.splits dest: ends_done_run_sql ends_done_write_results)
qed auto

lemma ends_done_reply: "reply_payload env sql st = (p, st1) \<Longrightarrow> ends_done p"
  by (auto simp: reply_payload_def Let_def split: sum.splits prod.splits option.splits if_splits dest!: ends_done_run_results)

lemma answer_framed:
  obtains front status rows where
    "write_message Response (front @ write_done [] status rows) DEFAULT_PACKET_SIZE = Some (fst (answer env sql c))"
proof -
  let ?r0 = "\<lparr>incoming = [], broken = False\<rparr>"
  let ?st0 = "\<lparr>stream = unbounded ?r0 [], conn_state = fst c, tds_sess = snd c\<rparr>"
  obtain p st1 where p: "reply_payload env sql ?st0 = (p, st1)" by force
  have s1: "stream st1 = unbounded ?r0 []" using reply_payload_keeps_stream [OF p] by simp
  obtain bs where bs: "write_message Response p DEFAULT_PACKET_SIZE = Some bs" using write_response_framed by blast
  then have "fst (answer env sql c) = bs"
    using s1 by (simp add: answer_def execute_sql_reply p on_stream_def send_response_unbounded [OF bs] Let_def)
      (simp add: unbounded_def)
  with bs ends_done_reply [OF p] that show thesis by (auto simp: ends_done_def)
qed

section \<open>Properties\<close>

text \<open>
  Property C7 (a client's requests are run as sent). A client logs in and sends any number of batches and
  \<^verbatim>\<open>sp_executesql\<close> calls, split into packets of any legal size. The handler sends the two login responses and
  then, for each request in order, the reply to exactly the text the client encoded, run on the session's
  own backend connection and transaction state; it ends when the client closes the connection.
\<close>

theorem conversation_served:
  assumes "list_all request_ok reqs" and "8 < n" and "n \<le> 65535"
    and "write_message PreLogin p n = Some b0" and "write_message Login7 l n = Some b1"
    and "map (\<lambda>r. write_message (request_type r) (request_payload r) n) reqs = map Some bss"
    and "te_connect env = Inr w"
    and "answers env (map request_text reqs) (w, tds_session_new log) = (bs, w', t')"
  shows "handle_connection env log (unbounded \<lparr>incoming = b0 @ b1 @ concat bss, broken = False\<rparr> []) =
    (let s = unbounded \<lparr>incoming = [], broken = False\<rparr> (greeting l @ bs)
     in (Served (), s, Some \<lparr>stream = s, conn_state = w', tds_sess = t'\<rparr>))"
proof -
  obtain db where "parse_login7_database l = Returns db"
    using parse_login7_returns [of l] by (cases "parse_login7_database l") auto
  from conversation [OF assms(1-7) this assms(8)] show ?thesis .
qed

text \<open>
  Property C28 (no input crashes the handler). Whatever bytes a client sends, wherever the connection breaks
  in either direction and whatever the backend answers, the handler never indexes or slices out of range.
\<close>

theorem handler_never_panics: "fst (handle_connection env log s) \<noteq> Crashed"
proof -
  have "handle_prelogin s1 \<noteq> (Crashed, s2)" "handle_login7 s1 \<noteq> (Crashed, s2)" "query_loop env st \<noteq> (Crashed, st')" for s1 s2 st st'
    using login_not_crashed [of s1] query_loop_not_crashed [of env st] by auto
  then show ?thesis by (auto simp: handle_connection_def split: prod.splits served.splits sum.splits)
qed

text \<open>
  Fact (every text is answered by one complete message). Whatever the translator and the backend do
  with a text, the bytes sent for it are one Response message whose payload ends with a DONE token: a client
  reading them gets that message and nothing is left over.
\<close>

theorem one_reply_per_text:
  "\<exists>front status rows.
     read_message \<lparr>incoming = fst (answer env sql c) @ more_bytes, broken = b\<rparr> =
       (Inr (Some \<lparr>packet_type = Response, payload = front @ write_done [] status rows\<rparr>),
        \<lparr>incoming = more_bytes, broken = b\<rparr>)"
proof -
  obtain front status rows where
    "write_message Response (front @ write_done [] status rows) DEFAULT_PACKET_SIZE = Some (fst (answer env sql c))"
    by (rule answer_framed)
  from read_written_message [OF this] show ?thesis by (auto simp: DEFAULT_PACKET_SIZE_def)
qed

section \<open>A conversation\<close>

definition quiet_env :: "(unit, unit, unit) tds_env" where
  "quiet_env = \<lparr>te_conn = \<lparr>conn_query = (\<lambda>sql params w. (Inr \<lparr>rs_columns = [], rs_rows = []\<rparr>, w)),
                          conn_execute = (\<lambda>sql params w. (Inr \<lparr>affected_rows = 0, last_insert_rowid = None\<rparr>, w)),
                          conn_user_lock = default_user_lock\<rparr>,
               te_connect = Inr (), te_translate = (\<lambda>sql. Inr [Noop]), te_meta = (\<lambda>k. []),
               te_floats = \<lparr>f64_of_i64 = (\<lambda>i. 0), i64_of_f64 = (\<lambda>f. 0), f64_to_string = (\<lambda>f. []), parse_f64 = (\<lambda>s. None)\<rparr>\<rparr>"

lemma quiet_messages:
  "write_message PreLogin [0] 512 = Some [0x12, 1, 0, 9, 0, 0, 1, 0, 0]"
  "write_message Login7 [0] 512 = Some [0x10, 1, 0, 9, 0, 0, 1, 0, 0]"
  "write_message SqlBatch [4, 0, 0, 0, 0x41, 0] 512 = Some [0x01, 1, 0, 14, 0, 0, 1, 0, 4, 0, 0, 0, 0x41, 0]"
  by code_simp+

theorem conversation_served_witness:
  "\<exists>bs. answers quiet_env [''A''] ((), tds_session_new False) = (bs, (), tds_session_new False) \<and>
     handle_connection quiet_env False
       (unbounded \<lparr>incoming = [0x12, 1, 0, 9, 0, 0, 1, 0, 0, 0x10, 1, 0, 9, 0, 0, 1, 0, 0,
                                 0x01, 1, 0, 14, 0, 0, 1, 0, 4, 0, 0, 0, 0x41, 0], broken = False\<rparr> []) =
     (let s = unbounded \<lparr>incoming = [], broken = False\<rparr> (greeting [0] @ bs)
      in (Served (), s, Some \<lparr>stream = s, conn_state = (), tds_sess = tds_session_new False\<rparr>))"
proof -
  have "request_ok (Batch [] [0x41])" by (simp add: is_scalar_def)
  moreover have "request_text (Batch [] [0x41]) = ''A''" "request_payload (Batch [] [0x41]) = [4, 0, 0, 0, 0x41, 0]"
    by code_simp+
  ultimately have req: "request_ok (Batch [] [0x41])" "request_text (Batch [] [0x41]) = ''A''"
    "request_payload (Batch [] [0x41]) = [4, 0, 0, 0, 0x41, 0]" by blast+
  obtain bs where bs: "answers quiet_env [''A''] ((), tds_session_new False) = (bs, (), tds_session_new False)"
    by (simp add: answer_def execute_sql_reply reply_payload_def quiet_env_def Let_def split: prod.split)
  have "te_connect quiet_env = Inr ()" by (simp add: quiet_env_def)
  with conversation_served [of "[Batch [] [0x41]]" 512 "[0]" "[0x12, 1, 0, 9, 0, 0, 1, 0, 0]" "[0]" "[0x10, 1, 0, 9, 0, 0, 1, 0, 0]" "[[0x01, 1, 0, 14, 0, 0, 1, 0, 4, 0, 0, 0, 0x41, 0]]"
      quiet_env "()" False bs "()" "tds_session_new False"] bs req quiet_messages
  show ?thesis by (intro exI [of _ bs]) simp
qed

end
