(* ===== verification/Hrana.thy ===== *)
theory Hrana
  imports Backend_Api Write_Admission
begin

text \<open>
  The Hrana pipeline protocol on both sides: the server
  (\<^verbatim>\<open>src/crates/litewire-hrana/src/types.rs\<close>, \<^verbatim>\<open>http.rs\<close>), which runs the statements of a request on a
  backend, and the client backend (\<^verbatim>\<open>src/crates/litewire-backend/src/hrana_client.rs\<close>), which forwards each
  statement of a session as one request, carries the stream's baton from response to request, and holds
  its seat in the write-permit pool of \<open>Write_Admission\<close> for the round trip.

  The exchange of a request for a response (HTTP and JSON) and the base64 codec are parameters. The types
  of both sides are the same on the wire and are declared once.
\<close>

section \<open>Wire types\<close>

datatype hrana_value = HNull | HInteger string | HFloat f64_bits | HText string | HBlob string

datatype response_value = RNull | RInteger string | RFloat f64_bits | RText string | RBlob string

record stmt_request =
  stmt_sql :: string
  stmt_args :: "hrana_value list"

datatype stream_request = ExecuteStmt stmt_request | CloseStream

record pipeline_request =
  req_baton :: "string option"
  requests :: "stream_request list"

record col_response =
  cr_name :: string
  cr_decltype :: "string option"

record execute_response =
  er_cols :: "col_response list"
  er_rows :: "response_value list list"
  er_affected_row_count :: u64
  er_last_insert_rowid :: "string option"

datatype stream_response = ExecuteResponse execute_response | CloseResponse

record error_response =
  eresp_message :: string
  eresp_code :: "string option"

datatype stream_result = StreamOk stream_response | StreamError error_response

record pipeline_response =
  resp_baton :: "string option"
  base_url :: "string option"
  results :: "stream_result list"

record base64_api =
  b64_encode :: "bytes \<Rightarrow> string"
  b64_decode :: "string \<Rightarrow> bytes option"

text \<open>What the codec promises: decoding what was encoded gives the bytes back.\<close>

definition base64_law :: "base64_api \<Rightarrow> bool" where
  "base64_law b64 \<longleftrightarrow> (\<forall>bs. b64_decode b64 (b64_encode b64 bs) = Some bs)"

definition integer_value :: "string \<Rightarrow> backend_value" where
  "integer_value s = Integer (word_of_int (case parse_i64 s of Some i \<Rightarrow> i | None \<Rightarrow> 0))"

definition blob_value :: "base64_api \<Rightarrow> string \<Rightarrow> backend_value" where
  "blob_value b64 s = Blob (case b64_decode b64 s of Some bs \<Rightarrow> bs | None \<Rightarrow> [])"

section \<open>Server\<close>

fun to_backend_value :: "base64_api \<Rightarrow> hrana_value \<Rightarrow> backend_value" where
  "to_backend_value b64 HNull = Null"
| "to_backend_value b64 (HInteger s) = integer_value s"
| "to_backend_value b64 (HFloat f) = Float f"
| "to_backend_value b64 (HText s) = Text s"
| "to_backend_value b64 (HBlob s) = blob_value b64 s"

fun from_backend_value :: "base64_api \<Rightarrow> backend_value \<Rightarrow> response_value" where
  "from_backend_value b64 Null = RNull"
| "from_backend_value b64 (Integer i) = RInteger (i64_to_string (sint i))"
| "from_backend_value b64 (Float f) = RFloat f"
| "from_backend_value b64 (Text s) = RText s"
| "from_backend_value b64 (Blob b) = RBlob (b64_encode b64 b)"

definition is_query :: "string \<Rightarrow> bool" where
  "is_query sql \<longleftrightarrow>
     (let sql_upper = to_ascii_uppercase (trim sql)
      in starts_with sql_upper ''SELECT'' \<or> starts_with sql_upper ''PRAGMA'' \<or> starts_with sql_upper ''EXPLAIN'')"

definition execute_stmt ::
  "base64_api \<Rightarrow> 'w conn_api \<Rightarrow> stmt_request \<Rightarrow> 'w \<Rightarrow> (backend_error + stream_result) \<times> 'w" where
  "execute_stmt b64 be stmt w =
     (let params = map (to_backend_value b64) (stmt_args stmt) in
      if is_query (stmt_sql stmt) then
        (case conn_query be (stmt_sql stmt) params w of
           (Inl e, w1) \<Rightarrow> (Inl e, w1)
         | (Inr rs, w1) \<Rightarrow>
             (Inr (StreamOk (ExecuteResponse
                \<lparr>er_cols = map (\<lambda>c. \<lparr>cr_name = col_name c, cr_decltype = decltype c\<rparr>) (rs_columns rs),
                 er_rows = map (map (from_backend_value b64)) (rs_rows rs),
                 er_affected_row_count = 0, er_last_insert_rowid = None\<rparr>)), w1))
      else
        (case conn_execute be (stmt_sql stmt) params w of
           (Inl e, w1) \<Rightarrow> (Inl e, w1)
         | (Inr r, w1) \<Rightarrow>
             (Inr (StreamOk (ExecuteResponse
                \<lparr>er_cols = [], er_rows = [], er_affected_row_count = affected_rows r,
                 er_last_insert_rowid = map_option (\<lambda>rid. i64_to_string (sint rid)) (last_insert_rowid r)\<rparr>)), w1)))"

definition stream_step :: "base64_api \<Rightarrow> 'w conn_api \<Rightarrow> stream_request \<Rightarrow> 'w \<Rightarrow> stream_result \<times> 'w" where
  "stream_step b64 be req w =
     (case (case req of
              ExecuteStmt stmt \<Rightarrow> execute_stmt b64 be stmt w
            | CloseStream \<Rightarrow> (Inr (StreamOk CloseResponse), w)) of
        (Inr r, w1) \<Rightarrow> (r, w1)
      | (Inl e, w1) \<Rightarrow> (StreamError \<lparr>eresp_message = backend_error_to_string e, eresp_code = None\<rparr>, w1))"

fun run_requests :: "base64_api \<Rightarrow> 'w conn_api \<Rightarrow> stream_request list \<Rightarrow> 'w \<Rightarrow> stream_result list \<times> 'w" where
  "run_requests b64 be [] w = ([], w)"
| "run_requests b64 be (r # rs) w =
     (case stream_step b64 be r w of (x, w1) \<Rightarrow> case run_requests b64 be rs w1 of (xs, w2) \<Rightarrow> (x # xs, w2))"

definition pipeline_handler :: "base64_api \<Rightarrow> 'w conn_api \<Rightarrow> pipeline_request \<Rightarrow> 'w \<Rightarrow> pipeline_response \<times> 'w" where
  "pipeline_handler b64 be req w =
     (case run_requests b64 be (requests req) w of
        (xs, w1) \<Rightarrow> (\<lparr>resp_baton = None, base_url = None, results = xs\<rparr>, w1))"

section \<open>Client\<close>

fun value_to_hrana :: "base64_api \<Rightarrow> backend_value \<Rightarrow> hrana_value" where
  "value_to_hrana b64 Null = HNull"
| "value_to_hrana b64 (Integer i) = HInteger (i64_to_string (sint i))"
| "value_to_hrana b64 (Float f) = HFloat f"
| "value_to_hrana b64 (Text s) = HText s"
| "value_to_hrana b64 (Blob b) = HBlob (b64_encode b64 b)"

fun response_value_to_backend :: "base64_api \<Rightarrow> response_value \<Rightarrow> backend_value" where
  "response_value_to_backend b64 RNull = Null"
| "response_value_to_backend b64 (RInteger s) = integer_value s"
| "response_value_to_backend b64 (RFloat f) = Float f"
| "response_value_to_backend b64 (RText s) = Text s"
| "response_value_to_backend b64 (RBlob s) = blob_value b64 s"

definition execute_response_to_result_set :: "base64_api \<Rightarrow> execute_response \<Rightarrow> result_set" where
  "execute_response_to_result_set b64 exec =
     \<lparr>rs_columns = map (\<lambda>c. \<lparr>col_name = cr_name c, decltype = cr_decltype c\<rparr>) (er_cols exec),
      rs_rows = map (map (response_value_to_backend b64)) (er_rows exec)\<rparr>"

definition hrana_error_to_backend :: "error_response \<Rightarrow> backend_error" where
  "hrana_error_to_backend err =
     (case eresp_code err of
        Some code \<Rightarrow> if starts_with code ''SQLITE'' then Sqlite (''['' @ code @ ''] '' @ eresp_message err) else Other (eresp_message err)
      | None \<Rightarrow> Other (eresp_message err))"

text \<open>How an HTTP exchange ends: not sent, a status that is not a success, a body that is no response, a response.\<close>

datatype http_outcome = SendFailed string | BadStatus string string | BadBody string | Parsed pipeline_response

record ('h, 's) hrana_env =
  http :: "pipeline_request \<Rightarrow> 'h \<Rightarrow> http_outcome \<times> 'h"
  codec :: base64_api
  semaphore :: "'s semaphore_api"

record ('h, 's) hrana_conn =
  net :: 'h
  baton :: "string option"
  seat :: session_state
  pool_of :: "'s write_admission option"

definition hrana_connect :: "'s write_admission option \<Rightarrow> 'h \<Rightarrow> ('h, 's) hrana_conn" where
  "hrana_connect adm h = \<lparr>net = h, baton = None, seat = session_state_default, pool_of = adm\<rparr>"

fun first_result :: "stream_result list \<Rightarrow> backend_error + execute_response" where
  "first_result [] = Inl (Other ''empty pipeline response'')"
| "first_result (StreamOk (ExecuteResponse r) # _) = Inr r"
| "first_result (StreamOk CloseResponse # _) = Inl (Other ''unexpected close response'')"
| "first_result (StreamError e # _) = Inl (hrana_error_to_backend e)"

definition execute_pipeline ::
  "('h, 's) hrana_env \<Rightarrow> string \<Rightarrow> backend_value list \<Rightarrow> ('h, 's) hrana_conn \<Rightarrow>
     (backend_error + execute_response) \<times> ('h, 's) hrana_conn" where
  "execute_pipeline env sql params c =
     (let args = map (value_to_hrana (codec env)) params;
          request = \<lparr>req_baton = baton c, requests = [ExecuteStmt \<lparr>stmt_sql = sql, stmt_args = args\<rparr>]\<rparr>
      in case http env request (net c) of
           (SendFailed e, h) \<Rightarrow> (Inl (Other (''HTTP request failed: '' @ e)), c\<lparr>net := h\<rparr>)
         | (BadStatus status body, h) \<Rightarrow> (Inl (Other (''sqld returned '' @ status @ '': '' @ body)), c\<lparr>net := h\<rparr>)
         | (BadBody e, h) \<Rightarrow> (Inl (Other (''failed to parse response: '' @ e)), c\<lparr>net := h\<rparr>)
         | (Parsed p, h) \<Rightarrow> (first_result (results p), c\<lparr>net := h, baton := resp_baton p\<rparr>))"

text \<open>
  A statement under its admission: refused it is not sent; admitted, its permit is given back when the
  call returns. \<open>None\<close>: the wait for a permit has not ended.
\<close>

definition admitted_pipeline ::
  "('h, 's) hrana_env \<Rightarrow> string \<Rightarrow> backend_value list \<Rightarrow> wait_outcome \<Rightarrow> ('h, 's) hrana_conn \<Rightarrow>
     ((backend_error + execute_response) \<times> ('h, 's) hrana_conn) option" where
  "admitted_pipeline env sql params out c =
     (case session_admit (semaphore env) (pool_of c) (seat c) sql out of
        None \<Rightarrow> None
      | Some (Inl e, st, adm) \<Rightarrow> Some (Inl e, c\<lparr>seat := st, pool_of := adm\<rparr>)
      | Some (Inr p, st, adm) \<Rightarrow>
          (case execute_pipeline env sql params (c\<lparr>seat := st, pool_of := adm\<rparr>) of
             (r, c1) \<Rightarrow> Some (r, c1\<lparr>pool_of := map_option (drop_permit (semaphore env) p) (pool_of c1)\<rparr>)))"

definition hrana_query ::
  "('h, 's) hrana_env \<Rightarrow> string \<Rightarrow> backend_value list \<Rightarrow> wait_outcome \<Rightarrow> ('h, 's) hrana_conn \<Rightarrow>
     ((backend_error + result_set) \<times> ('h, 's) hrana_conn) option" where
  "hrana_query env sql params out c =
     (case admitted_pipeline env sql params out c of
        None \<Rightarrow> None
      | Some (Inl e, c1) \<Rightarrow> Some (Inl e, c1)
      | Some (Inr exec, c1) \<Rightarrow> Some (Inr (execute_response_to_result_set (codec env) exec), c1))"

definition hrana_execute ::
  "('h, 's) hrana_env \<Rightarrow> string \<Rightarrow> backend_value list \<Rightarrow> wait_outcome \<Rightarrow> ('h, 's) hrana_conn \<Rightarrow>
     ((backend_error + execute_result) \<times> ('h, 's) hrana_conn) option" where
  "hrana_execute env sql params out c =
     (case admitted_pipeline env sql params out c of
        None \<Rightarrow> None
      | Some (Inl e, c1) \<Rightarrow> Some (Inl e, c1)
      | Some (Inr exec, c1) \<Rightarrow>
          Some (Inr \<lparr>affected_rows = er_affected_row_count exec,
                     last_insert_rowid = Option.bind (er_last_insert_rowid exec) (\<lambda>s. map_option word_of_int (parse_i64 s))\<rparr>, c1))"

text \<open>Dropping the connection closes its stream, if it has one, and returns a parked permit.\<close>

definition hrana_drop :: "('h, 's) hrana_env \<Rightarrow> ('h, 's) hrana_conn \<Rightarrow> ('h, 's) hrana_conn" where
  "hrana_drop env c =
     (let c1 = (case baton c of
                  None \<Rightarrow> c
                | Some b \<Rightarrow> c\<lparr>net := snd (http env \<lparr>req_baton = Some b, requests = [CloseStream]\<rparr> (net c))\<rparr>)
      in c1\<lparr>pool_of := map_option (drop_permit (semaphore env) (permit (seat c1))) (pool_of c1)\<rparr>)"

section \<open>Values survive the wire\<close>

lemma parse_i64_word: "parse_i64 (i64_to_string (sint (i :: u64))) = Some (sint i)"
proof -
  have "is_i64 (sint i)"
    using sint_range_size [of i] by (simp add: is_i64_def i64_min_def i64_max_def word_size)
  then show ?thesis by (rule parse_i64_to_string)
qed

lemma integer_value_to_string: "integer_value (i64_to_string (sint i)) = Integer i"
  by (simp add: integer_value_def parse_i64_word)

lemma argument_roundtrip: "base64_law b64 \<Longrightarrow> to_backend_value b64 (value_to_hrana b64 v) = v"
  by (cases v) (simp_all add: integer_value_to_string blob_value_def base64_law_def)

lemma column_roundtrip: "base64_law b64 \<Longrightarrow> response_value_to_backend b64 (from_backend_value b64 v) = v"
  by (cases v) (simp_all add: integer_value_to_string blob_value_def base64_law_def)

section \<open>A client talking to a server\<close>

definition served_by :: "base64_api \<Rightarrow> 'w conn_api \<Rightarrow> pipeline_request \<Rightarrow> 'w \<Rightarrow> http_outcome \<times> 'w" where
  "served_by b64 be req w = map_prod Parsed id (pipeline_handler b64 be req w)"

definition forwarded_error :: "backend_error + 'a \<Rightarrow> backend_error + 'a" where
  "forwarded_error r = map_sum (\<lambda>e. Other (backend_error_to_string e)) id r"

text \<open>What the backend answers to a statement sent the way the server chooses.\<close>

definition seen_query :: "'w conn_api \<Rightarrow> string \<Rightarrow> backend_value list \<Rightarrow> 'w \<Rightarrow> (backend_error + result_set) \<times> 'w" where
  "seen_query be sql params w =
     (if is_query sql then conn_query be sql params w
      else apfst (map_sum id (\<lambda>r. \<lparr>rs_columns = [], rs_rows = []\<rparr>)) (conn_execute be sql params w))"

definition seen_execute :: "'w conn_api \<Rightarrow> string \<Rightarrow> backend_value list \<Rightarrow> 'w \<Rightarrow> (backend_error + execute_result) \<times> 'w" where
  "seen_execute be sql params w =
     (if is_query sql then apfst (map_sum id (\<lambda>rs. \<lparr>affected_rows = 0, last_insert_rowid = None\<rparr>)) (conn_query be sql params w)
      else conn_execute be sql params w)"

definition after_exchange :: "('h, 's) hrana_conn \<Rightarrow> ('a \<times> 'h) \<Rightarrow> ('a \<times> ('h, 's) hrana_conn)" where
  "after_exchange c r = (fst r, c\<lparr>net := snd r, baton := None\<rparr>)"

lemma rowid_bind:
  "Option.bind (map_option (\<lambda>rid. i64_to_string (sint (rid :: u64))) r) (\<lambda>s. map_option word_of_int (parse_i64 s)) = r"
  by (cases r) (simp_all add: parse_i64_word)

lemma columns_bind: "map ((\<lambda>c. \<lparr>col_name = cr_name c, decltype = cr_decltype c\<rparr>) \<circ> (\<lambda>c. \<lparr>cr_name = col_name c, cr_decltype = decltype c\<rparr>)) cs = (cs :: column list)"
  by (induction cs) simp_all

lemma rows_bind: "base64_law b64 \<Longrightarrow> map (map (response_value_to_backend b64 \<circ> from_backend_value b64)) rows = rows"
  by (simp add: comp_def column_roundtrip)

lemma args_bind: "base64_law b64 \<Longrightarrow> map (to_backend_value b64 \<circ> value_to_hrana b64) params = params"
  by (simp add: comp_def argument_roundtrip)

lemmas exchange_simps = admitted_pipeline_def session_admit_def execute_pipeline_def served_by_def pipeline_handler_def
  stream_step_def execute_stmt_def after_exchange_def forwarded_error_def hrana_error_to_backend_def

lemma client_query_served:
  assumes "base64_law (codec env)" and "http env = served_by (codec env) be" and "pool_of c = None"
  shows "hrana_query env sql params out c = Some (after_exchange c (apfst forwarded_error (seen_query be sql params (net c))))"
  using assms
  by (simp add: hrana_query_def exchange_simps seen_query_def args_bind execute_response_to_result_set_def columns_bind rows_bind
      Let_def split: prod.split sum.split)

lemma client_execute_served:
  assumes "base64_law (codec env)" and "http env = served_by (codec env) be" and "pool_of c = None"
  shows "hrana_execute env sql params out c = Some (after_exchange c (apfst forwarded_error (seen_execute be sql params (net c))))"
  using assms
  by (simp add: hrana_execute_def exchange_simps seen_execute_def args_bind rowid_bind Let_def split: prod.split sum.split)

section \<open>The baton and the permits over a session\<close>

text \<open>A session's statements, each sent through \<^verbatim>\<open>query\<close> or \<^verbatim>\<open>execute\<close>; a wait that does not end ends the run.\<close>

type_synonym statement = "bool \<times> string \<times> backend_value list \<times> wait_outcome"

definition run_statement :: "('h, 's) hrana_env \<Rightarrow> statement \<Rightarrow> ('h, 's) hrana_conn \<Rightarrow> ('h, 's) hrana_conn option" where
  "run_statement env s c =
     (case s of (as_query, sql, params, out) \<Rightarrow>
        if as_query then map_option snd (hrana_query env sql params out c)
        else map_option snd (hrana_execute env sql params out c))"

fun run_statements :: "('h, 's) hrana_env \<Rightarrow> statement list \<Rightarrow> ('h, 's) hrana_conn \<Rightarrow> ('h, 's) hrana_conn" where
  "run_statements env [] c = c"
| "run_statements env (s # ss) c =
     (case run_statement env s c of None \<Rightarrow> c | Some c1 \<Rightarrow> run_statements env ss c1)"

lemma run_statement_eq:
  "run_statement env (as_query, sql, params, out) c = map_option snd (admitted_pipeline env sql params out c)"
  by (auto simp: run_statement_def hrana_query_def hrana_execute_def split: option.split sum.split prod.split)

text \<open>The same network with a record of the batons sent and the outcomes received.\<close>

definition tapped :: "('h, 's) hrana_env \<Rightarrow> ('h \<times> (string option \<times> http_outcome) list, 's) hrana_env" where
  "tapped env =
     \<lparr>http = (\<lambda>req h. case http env req (fst h) of (ans, h1) \<Rightarrow> (ans, h1, snd h @ [(req_baton req, ans)])),
      codec = codec env, semaphore = semaphore env\<rparr>"

fun follows :: "string option \<Rightarrow> (string option \<times> http_outcome) list \<Rightarrow> string option \<Rightarrow> bool" where
  "follows b [] final \<longleftrightarrow> b = final"
| "follows b ((sent, out) # log) final \<longleftrightarrow>
     sent = b \<and> follows (case out of Parsed p \<Rightarrow> resp_baton p | _ \<Rightarrow> b) log final"

lemma follows_snoc:
  "follows b (log @ [(sent, out)]) final \<longleftrightarrow>
     follows b log sent \<and> final = (case out of Parsed p \<Rightarrow> resp_baton p | _ \<Rightarrow> sent)"
  by (induction log arbitrary: b) auto

lemma pipeline_follows:
  assumes "follows None (snd (net c)) (baton c)" and "admitted_pipeline (tapped env) sql params out c = Some (r, c1)"
  shows "follows None (snd (net c1)) (baton c1)"
  using assms
  by (auto simp: admitted_pipeline_def session_admit_def execute_pipeline_def tapped_def follows_snoc Let_def
      split: option.splits sum.splits prod.splits http_outcome.splits)

lemma run_statements_induct:
  assumes "P c" and "\<And>c sql params out r c1. P c \<Longrightarrow> admitted_pipeline env sql params out c = Some (r, c1) \<Longrightarrow> P c1"
  shows "P (run_statements env ss c)"
  using assms(1)
proof (induction ss arbitrary: c)
  case (Cons s ss)
  obtain as_query sql params out where s: "s = (as_query, sql, params, out)" by (cases s)
  show ?case
  proof (cases "admitted_pipeline env sql params out c")
    case None
    then show ?thesis using Cons.prems by (simp add: s run_statement_eq)
  next
    case (Some p)
    with assms(2) [of c sql params out "fst p" "snd p"] Cons show ?thesis by (simp add: s run_statement_eq)
  qed
qed simp

text \<open>A session's parked permit and the free ones add up to the same number around every statement.\<close>

definition seats :: "('h, 's) hrana_env \<Rightarrow> ('h, 's) hrana_conn \<Rightarrow> nat" where
  "seats env c =
     (case pool_of c of None \<Rightarrow> 0 | Some a \<Rightarrow> available_permits (semaphore env) a + Write_Admission.tok (permit (seat c)))"

lemma available_drop_permit:
  "semaphore_laws api \<Longrightarrow> available_permits api (drop_permit api p a) = available_permits api a + Write_Admission.tok p"
  by (cases p) (simp_all add: drop_permit_def available_permits_def semaphore_laws_def)

lemma execute_pipeline_seat:
  "execute_pipeline env sql params c = (r, c1) \<Longrightarrow> seat c1 = seat c \<and> pool_of c1 = pool_of c"
  by (auto simp: execute_pipeline_def Let_def split: prod.splits http_outcome.splits)

lemma pipeline_seats:
  assumes "semaphore_laws (semaphore env)" and "admitted_pipeline env sql params out c = Some (r, c1)"
  shows "seats env c1 = seats env c \<and> (pool_of c1 = None) = (pool_of c = None)"
proof (cases "pool_of c")
  case None
  then show ?thesis
    using assms(2) by (auto simp: admitted_pipeline_def session_admit_def seats_def split: prod.splits dest!: execute_pipeline_seat)
next
  case (Some a)
  obtain q st a' where q: "admit (semaphore env) a (seat c) sql out = Some (q, st, a')"
    and c1: "case q of Inl e \<Rightarrow> seat c1 = st \<and> pool_of c1 = Some a'
       | Inr p \<Rightarrow> seat c1 = st \<and> pool_of c1 = Some (drop_permit (semaphore env) p a')"
    using assms(2) Some
    by (auto simp: admitted_pipeline_def session_admit_def split: option.splits prod.splits sum.splits dest!: execute_pipeline_seat)
  from assms(1) q show ?thesis
    by (cases rule: admit_cases) (use c1 Some in \<open>auto simp: seats_def available_drop_permit [OF assms(1)]\<close>)
qed

section \<open>Properties\<close>


definition byte_codec :: base64_api where
  "byte_codec = \<lparr>b64_encode = map (\<lambda>b. char_of (unat b)), b64_decode = (\<lambda>s. Some (map of_char s))\<rparr>"

lemma byte_codec_law: "base64_law byte_codec"
proof -
  have "of_char (char_of (unat b)) = b" for b :: u8
  proof -
    have "unat b < 256" using unsigned_less [of b] by simp
    then have "of_nat (of_char (char_of (unat b))) = b" by (simp only: of_char_of) simp
    then show ?thesis by (simp only: of_nat_of_char)
  qed
  then show ?thesis by (simp add: base64_law_def byte_codec_def comp_def)
qed

definition counting_conn :: "nat conn_api" where
  "counting_conn =
     \<lparr>conn_query = (\<lambda>sql params n. (Inr \<lparr>rs_columns = [\<lparr>col_name = ''v'', decltype = None\<rparr>], rs_rows = [params]\<rparr>, n)),
      conn_execute = (\<lambda>sql params n. (Inr \<lparr>affected_rows = 1, last_insert_rowid = Some (of_nat n)\<rparr>, n + 1)),
      conn_user_lock = default_user_lock\<rparr>"

definition loopback_env :: "(nat, nat) hrana_env" where
  "loopback_env = \<lparr>http = served_by byte_codec counting_conn, codec = byte_codec, semaphore = counter_api\<rparr>"


text \<open>
  Fact (every request stays on its stream). Whatever the network and the server do, each request of a
  session carries the baton of the last response the client could read, or none before the first one: a
  failed exchange never loses the stream, and no baton is used twice once a newer one arrived.
\<close>

theorem baton_chain:
  "follows None (snd (net (run_statements (tapped env) ss (hrana_connect adm (h, [])))))
     (baton (run_statements (tapped env) ss (hrana_connect adm (h, []))))"
  by (rule run_statements_induct [of "\<lambda>c. follows None (snd (net c)) (baton c)"])
    (auto simp: hrana_connect_def intro: pipeline_follows)

text \<open>
  Property C29 (a dropped session has given back every permit). Whatever statements a session sent, refused
  and timed-out ones and open transactions included, once its connection is dropped the pool has as many free
  permits as when it was opened.
\<close>

theorem dropped_session_returns_permits:
  assumes "semaphore_laws (semaphore env)" and "c = run_statements env ss (hrana_connect (Some a) h)"
  shows "map_option (available_permits (semaphore env)) (pool_of (hrana_drop env c)) = Some (available_permits (semaphore env) a)"
proof -
  let ?P = "\<lambda>c. seats env c = available_permits (semaphore env) a \<and> pool_of c \<noteq> None"
  have "?P c"
    unfolding assms(2)
    by (rule run_statements_induct) (use pipeline_seats [OF assms(1)] in \<open>auto simp: hrana_connect_def seats_def\<close>)
  then show ?thesis
    by (auto simp: seats_def hrana_drop_def available_drop_permit [OF assms(1)] Let_def split: option.splits)
qed

theorem dropped_session_returns_permits_witness:
  "\<exists>c. c = run_statements loopback_env [(False, ''BEGIN IMMEDIATE'', [], Completes)]
            (hrana_connect (Some \<lparr>sem = 2, acquire_timeout = 5, permits = 2\<rparr>) 0) \<and>
     map_option (available_permits counter_api) (pool_of (hrana_drop loopback_env c)) = Some 2"
proof -
  have "semaphore_laws (semaphore loopback_env)" by (simp add: loopback_env_def counter_laws)
  from dropped_session_returns_permits [OF this refl, of "[(False, ''BEGIN IMMEDIATE'', [], Completes)]"
      "\<lparr>sem = 2, acquire_timeout = 5, permits = 2\<rparr>" 0]
  show ?thesis by (simp add: loopback_env_def available_permits_def counter_api_def)
qed


section \<open>The client\<close>

text \<open>The endpoint's HTTP client is the exchange parameter; durations are in nanoseconds.\<close>

definition DEFAULT_ACQUIRE_TIMEOUT :: nat where "DEFAULT_ACQUIRE_TIMEOUT = 30 * 1000000000"

record 's hrana_client =
  hc_pipeline_url :: string
  hc_health_url :: string
  hc_write_permits :: nat
  hc_write_acquire_timeout :: nat
  hc_admission :: "'s write_admission option"

definition hrana_client_new :: "string \<Rightarrow> 's hrana_client" where
  "hrana_client_new url =
     (let base = trim_end_matches (\<lambda>c. c = CHR ''/'') url in
      \<lparr>hc_pipeline_url = base @ ''/v2/pipeline'', hc_health_url = base @ ''/health'', hc_write_permits = 0,
       hc_write_acquire_timeout = DEFAULT_ACQUIRE_TIMEOUT, hc_admission = None\<rparr>)"

definition rebuild_admission :: "'s semaphore_api \<Rightarrow> 's hrana_client \<Rightarrow> 's hrana_client" where
  "rebuild_admission api c = c\<lparr>hc_admission := write_admission_new api (hc_write_permits c) (hc_write_acquire_timeout c)\<rparr>"

definition set_write_permits :: "'s semaphore_api \<Rightarrow> nat \<Rightarrow> 's hrana_client \<Rightarrow> 's hrana_client" where
  "set_write_permits api n c = rebuild_admission api (c\<lparr>hc_write_permits := n\<rparr>)"

definition set_write_acquire_timeout :: "'s semaphore_api \<Rightarrow> nat \<Rightarrow> 's hrana_client \<Rightarrow> 's hrana_client" where
  "set_write_acquire_timeout api timeout c = rebuild_admission api (c\<lparr>hc_write_acquire_timeout := timeout\<rparr>)"

text \<open>\<open>get\<close> sends the request: an error text, or the status code with its text.\<close>

definition health_check :: "(string \<Rightarrow> 'h \<Rightarrow> (string + nat \<times> string) \<times> 'h) \<Rightarrow> 's hrana_client \<Rightarrow> 'h \<Rightarrow> (backend_error + unit) \<times> 'h" where
  "health_check get c h =
     (case get (hc_health_url c) h of
        (Inl e, h1) \<Rightarrow> (Inl (Other (''health check failed: '' @ e)), h1)
      | (Inr (code, status), h1) \<Rightarrow>
          if 200 \<le> code \<and> code < 300 then (Inr (), h1) else (Inl (Other (''health check returned '' @ status)), h1))"

definition client_connect :: "'s hrana_client \<Rightarrow> 'h \<Rightarrow> ('h, 's) hrana_conn" where
  "client_connect c h = hrana_connect (hc_admission c) h"

text \<open>However the builder's methods are called, the pool is the one of the settings, and none is built for no permits.\<close>

definition pool_of_settings :: "'s semaphore_api \<Rightarrow> 's hrana_client \<Rightarrow> bool" where
  "pool_of_settings api c \<longleftrightarrow> hc_admission c = write_admission_new api (hc_write_permits c) (hc_write_acquire_timeout c)"

lemma builder_pool_of_settings:
  "pool_of_settings api (hrana_client_new url)" "pool_of_settings api (set_write_permits api n c)"
  "pool_of_settings api (set_write_acquire_timeout api t c)"
  by (simp_all add: pool_of_settings_def hrana_client_new_def set_write_permits_def set_write_acquire_timeout_def
      rebuild_admission_def write_admission_new_def Let_def)

lemma builder_order:
  "set_write_permits api n (set_write_acquire_timeout api t c) = set_write_acquire_timeout api t (set_write_permits api n c)"
  by (simp add: set_write_permits_def set_write_acquire_timeout_def rebuild_admission_def)

end
