(* ===== verification/Turso_Engine.thy ===== *)
theory Turso_Engine
  imports Backend_Value
begin

text \<open>
  What the Turso backend uses of the \<^verbatim>\<open>turso\<close> crate, as parameters: the operations of a connection are the
  record \<open>turso_engine\<close> over a state \<open>'e\<close> of any type (the database, the connection and whatever else runs
  against it). Of an error the code reads the message of a busy condition and its \<^verbatim>\<open>Display\<close> text. The rows of
  a query are the outcomes of \<^verbatim>\<open>rows.next()\<close> in order, read up to the first error; a row answers
  \<^verbatim>\<open>get_value(i)\<close>. An \<^verbatim>\<open>i64\<close> is an integer, a float its 64 bits.

  The conversions of \<^verbatim>\<open>src/crates/litewire-turso/src/lib.rs\<close> between the two sides follow.
\<close>

record turso_error =
  busy_message :: "string option"
  error_text :: string

datatype turso_value = TNull | TInteger int | TReal f64_bits | TText string | TBlob bytes

type_synonym turso_row = "nat \<Rightarrow> turso_error + turso_value"

type_synonym turso_rows = "(turso_error + turso_row) list"

record 'e turso_engine =
  t_connect :: "'e \<Rightarrow> (turso_error + unit) \<times> 'e"
  t_prepare :: "string \<Rightarrow> 'e \<Rightarrow> (turso_error + (string \<times> string option) list) \<times> 'e"
  t_query :: "string \<Rightarrow> turso_value list \<Rightarrow> 'e \<Rightarrow> (turso_error + turso_rows) \<times> 'e"
  t_execute :: "string \<Rightarrow> turso_value list \<Rightarrow> 'e \<Rightarrow> (turso_error + u64) \<times> 'e"
  t_is_autocommit :: "'e \<Rightarrow> turso_error + bool"
  t_last_insert_rowid :: "'e \<Rightarrow> int"
  t_debug :: "turso_value \<Rightarrow> string"
  v_debug :: "backend_value \<Rightarrow> string"

definition map_turso_err :: "turso_error \<Rightarrow> backend_error" where
  "map_turso_err e =
     (case busy_message e of
        Some m \<Rightarrow> Sqlite (''database is locked (SQLITE_BUSY): '' @ m)
      | None \<Rightarrow> Sqlite (error_text e))"

definition mapped :: "turso_error + 'a \<Rightarrow> backend_error + 'a" where
  "mapped r = (case r of Inl e \<Rightarrow> Inl (map_turso_err e) | Inr v \<Rightarrow> Inr v)"

lemma mapped_simps [simp]: "mapped (Inl e) = Inl (map_turso_err e)" "mapped (Inr v) = Inr v"
  by (simp_all add: mapped_def)

lemma mapped_Inr [simp]: "mapped r = Inr v \<longleftrightarrow> r = Inr v"
  by (cases r) (simp_all add: mapped_def)

fun to_turso_value :: "backend_value \<Rightarrow> turso_value" where
  "to_turso_value Null = TNull"
| "to_turso_value (Integer i) = TInteger (sint i)"
| "to_turso_value (Float f) = TReal f"
| "to_turso_value (Text s) = TText s"
| "to_turso_value (Blob b) = TBlob b"

fun from_turso :: "turso_value \<Rightarrow> backend_value" where
  "from_turso TNull = Null"
| "from_turso (TInteger i) = Integer (of_int i)"
| "from_turso (TReal f) = Float f"
| "from_turso (TText s) = Text s"
| "from_turso (TBlob b) = Blob b"

lemma from_to_turso [simp]: "from_turso (to_turso_value v) = v"
  by (cases v) simp_all

end
