(* ===== verification/Cdc_Tail.thy ===== *)
theory Cdc_Tail
  imports Turso_Engine
begin

text \<open>
  The tail side of change capture in \<^verbatim>\<open>src/crates/litewire-turso/src/cdc.rs\<close>: rows of the log, the tailer
  with its cursor and the window loop that assembles the next complete transaction. The loop is a partial
  function, so that a poll that never ends is the value \<open>None\<close>. The WAL gate's permit that a poll holds does
  not change what it reads.
\<close>

section \<open>Rows and batches\<close>

definition UPDATE :: int where "UPDATE = 0"
definition INSERT :: int where "INSERT = 1"
definition DELETE :: int where "DELETE = -1"
definition COMMIT :: int where "COMMIT = 2"

lemmas change_types = UPDATE_def INSERT_def DELETE_def COMMIT_def

record cdc_row =
  change_id :: int
  change_txn_id :: "int option"
  change_type :: int
  table_name :: "string option"
  row_id :: "int option"
  before :: "bytes option"
  after :: "bytes option"
  updates :: "bytes option"

type_synonym txn_batch = "cdc_row list"

definition commit_change_id :: "txn_batch \<Rightarrow> int option" where
  "commit_change_id rows = (if rows = [] then None else Some (change_id (last rows)))"

definition txn_id :: "txn_batch \<Rightarrow> int option" where
  "txn_id rows = (case find (\<lambda>r. change_type r \<noteq> COMMIT) rows of None \<Rightarrow> None | Some r \<Rightarrow> change_txn_id r)"

definition CDC_LOG_TABLE :: string where "CDC_LOG_TABLE = ''turso_cdc''"

definition is_missing_cdc_log :: "turso_error \<Rightarrow> bool" where
  "is_missing_cdc_log e \<longleftrightarrow> contains_str (error_text e) ''no such table'' \<and> contains_str (error_text e) CDC_LOG_TABLE"

section \<open>Decoding a row\<close>

definition bad_type :: "'e turso_engine \<Rightarrow> string \<Rightarrow> turso_value \<Rightarrow> backend_error" where
  "bad_type eng field v = Other (''cdc: bad '' @ field @ '' type: '' @ t_debug eng v)"

definition required_int :: "'e turso_engine \<Rightarrow> turso_row \<Rightarrow> nat \<Rightarrow> string \<Rightarrow> backend_error + int" where
  "required_int eng row i field =
     (case mapped (row i) of
        Inl e \<Rightarrow> Inl e
      | Inr (TInteger n) \<Rightarrow> Inr n
      | Inr v \<Rightarrow> Inl (bad_type eng field v))"

definition optional_int :: "'e turso_engine \<Rightarrow> turso_row \<Rightarrow> nat \<Rightarrow> string \<Rightarrow> backend_error + int option" where
  "optional_int eng row i field =
     (case mapped (row i) of
        Inl e \<Rightarrow> Inl e
      | Inr (TInteger n) \<Rightarrow> Inr (Some n)
      | Inr TNull \<Rightarrow> Inr None
      | Inr v \<Rightarrow> Inl (bad_type eng field v))"

definition optional_text :: "'e turso_engine \<Rightarrow> turso_row \<Rightarrow> nat \<Rightarrow> string \<Rightarrow> backend_error + string option" where
  "optional_text eng row i field =
     (case mapped (row i) of
        Inl e \<Rightarrow> Inl e
      | Inr (TText s) \<Rightarrow> Inr (Some s)
      | Inr TNull \<Rightarrow> Inr None
      | Inr v \<Rightarrow> Inl (bad_type eng field v))"

definition optional_blob :: "'e turso_engine \<Rightarrow> turso_row \<Rightarrow> nat \<Rightarrow> backend_error + bytes option" where
  "optional_blob eng row i =
     (case mapped (row i) of
        Inl e \<Rightarrow> Inl e
      | Inr (TBlob b) \<Rightarrow> Inr (Some b)
      | Inr TNull \<Rightarrow> Inr None
      | Inr v \<Rightarrow> Inl (Other (''cdc: blob column '' @ show_nat i @ '' has non-blob non-null type: '' @ t_debug eng v)))"

definition decode_cdc_row :: "'e turso_engine \<Rightarrow> turso_row \<Rightarrow> backend_error + cdc_row" where
  "decode_cdc_row eng row =
     (case required_int eng row 0 ''change_id'' of Inl e \<Rightarrow> Inl e | Inr cid \<Rightarrow>
      case optional_int eng row 1 ''change_txn_id'' of Inl e \<Rightarrow> Inl e | Inr txn \<Rightarrow>
      case required_int eng row 2 ''change_type'' of Inl e \<Rightarrow> Inl e | Inr ty \<Rightarrow>
      case optional_text eng row 3 ''table_name'' of Inl e \<Rightarrow> Inl e | Inr tbl \<Rightarrow>
      case optional_int eng row 4 ''id'' of Inl e \<Rightarrow> Inl e | Inr rid \<Rightarrow>
      case optional_blob eng row 5 of Inl e \<Rightarrow> Inl e | Inr bef \<Rightarrow>
      case optional_blob eng row 6 of Inl e \<Rightarrow> Inl e | Inr aft \<Rightarrow>
      case optional_blob eng row 7 of Inl e \<Rightarrow> Inl e | Inr upd \<Rightarrow>
        Inr \<lparr>change_id = cid, change_txn_id = txn, change_type = ty, table_name = tbl, row_id = rid,
             before = bef, after = aft, updates = upd\<rparr>)"

section \<open>Reading the next transaction\<close>

definition WINDOW :: nat where "WINDOW = 1024"

definition CDC_SELECT :: string where
  "CDC_SELECT = ''SELECT change_id, change_txn_id, change_type, table_name, id, before, after, updates FROM turso_cdc WHERE change_id > ? ORDER BY change_id LIMIT ?''"

text \<open>How one window ends: an error, the first COMMIT, or the rows buffered so far with the last \<open>change_id\<close>.\<close>

datatype window_end = Failed backend_error | Committed txn_batch int | Drained txn_batch int nat

fun read_window :: "'e turso_engine \<Rightarrow> turso_rows \<Rightarrow> txn_batch \<Rightarrow> int \<Rightarrow> nat \<Rightarrow> window_end" where
  "read_window eng [] buffered window_after read_in_window = Drained buffered window_after read_in_window"
| "read_window eng (Inl e # rows) buffered window_after read_in_window = Failed (map_turso_err e)"
| "read_window eng (Inr row # rows) buffered window_after read_in_window =
     (case decode_cdc_row eng row of
        Inl e \<Rightarrow> Failed e
      | Inr r \<Rightarrow>
          if change_type r = COMMIT then Committed (buffered @ [r]) (change_id r)
          else read_window eng rows (buffered @ [r]) (change_id r) (read_in_window + 1))"

partial_function (option) read_windows ::
  "'e turso_engine \<Rightarrow> txn_batch \<Rightarrow> int \<Rightarrow> 'e \<Rightarrow> ((backend_error + (txn_batch \<times> int) option) \<times> 'e) option" where
  "read_windows eng buffered window_after st =
     (case t_query eng CDC_SELECT [TInteger window_after, TInteger (int WINDOW)] st of
        (Inl e, st1) \<Rightarrow> Some (Inl (map_turso_err e), st1)
      | (Inr rows, st1) \<Rightarrow>
          (case read_window eng rows buffered window_after 0 of
             Failed e \<Rightarrow> Some (Inl e, st1)
           | Committed batch cid \<Rightarrow> Some (Inr (Some (batch, cid)), st1)
           | Drained buffered' window_after' n \<Rightarrow>
               if n < WINDOW then Some (Inr None, st1) else read_windows eng buffered' window_after' st1))"

definition read_next_batch ::
  "'e turso_engine \<Rightarrow> int \<Rightarrow> 'e \<Rightarrow> ((backend_error + (txn_batch \<times> int) option) \<times> 'e) option" where
  "read_next_batch eng last_seen_change_id st =
     (case t_connect eng st of
        (Inl e, st1) \<Rightarrow> Some (Inl (map_turso_err e), st1)
      | (Inr _, st1) \<Rightarrow>
          (case t_prepare eng CDC_SELECT st1 of
             (Inl e, st2) \<Rightarrow>
               if is_missing_cdc_log e then Some (Inr None, st2) else Some (Inl (map_turso_err e), st2)
           | (Inr _, st2) \<Rightarrow> read_windows eng [] last_seen_change_id st2))"

record cdc_tailer =
  last_seen_change_id :: int

definition cdc_tailer_new :: "int \<Rightarrow> cdc_tailer" where
  "cdc_tailer_new after_change_id = \<lparr>last_seen_change_id = after_change_id\<rparr>"

definition cursor :: "cdc_tailer \<Rightarrow> int" where
  "cursor t = last_seen_change_id t"

definition poll_batch ::
  "'e turso_engine \<Rightarrow> cdc_tailer \<Rightarrow> 'e \<Rightarrow> ((backend_error + txn_batch option) \<times> cdc_tailer \<times> 'e) option" where
  "poll_batch eng t st =
     (case read_next_batch eng (last_seen_change_id t) st of
        None \<Rightarrow> None
      | Some (Inl e, st1) \<Rightarrow> Some (Inl e, t, st1)
      | Some (Inr None, st1) \<Rightarrow> Some (Inr None, t, st1)
      | Some (Inr (Some (batch, cid)), st1) \<Rightarrow>
          Some (Inr (Some batch), t\<lparr>last_seen_change_id := cid\<rparr>, st1))"

section \<open>The log the tailer reads\<close>

text \<open>
  The hypothesis on the engine: \<open>log st\<close> are the rows of \<^verbatim>\<open>turso_cdc\<close> a reader sees in \<open>st\<close>, in the order of
  their strictly increasing ids; other connections may append to it at any time. A query that succeeds yields
  the first rows behind the given id, up to the limit, or an error on the way; preparing it reports the
  table as missing only when nothing was captured.
\<close>

fun delivers :: "'e turso_engine \<Rightarrow> turso_rows \<Rightarrow> cdc_row list \<Rightarrow> bool" where
  "delivers eng [] rs \<longleftrightarrow> rs = []"
| "delivers eng (Inl e # rows) rs \<longleftrightarrow> True"
| "delivers eng (Inr row # rows) rs \<longleftrightarrow>
     (case rs of [] \<Rightarrow> False | r # rs' \<Rightarrow> decode_cdc_row eng row = Inr r \<and> delivers eng rows rs')"

definition pending :: "int \<Rightarrow> cdc_row list \<Rightarrow> cdc_row list" where
  "pending a rs = filter (\<lambda>r. a < change_id r) rs"

definition ordered :: "cdc_row list \<Rightarrow> bool" where
  "ordered rs \<longleftrightarrow> sorted_wrt (<) (map change_id rs)"

definition log_laws :: "'e turso_engine \<Rightarrow> ('e \<Rightarrow> cdc_row list) \<Rightarrow> bool" where
  "log_laws eng log \<longleftrightarrow>
     (\<forall>st. ordered (log st)) \<and>
     (\<forall>st. prefix (log st) (log (snd (t_connect eng st)))) \<and>
     (\<forall>st. prefix (log st) (log (snd (t_prepare eng CDC_SELECT st)))) \<and>
     (\<forall>st e. fst (t_prepare eng CDC_SELECT st) = Inl e \<and> is_missing_cdc_log e \<longrightarrow> log st = []) \<and>
     (\<forall>st a. prefix (log st) (log (snd (t_query eng CDC_SELECT [TInteger a, TInteger (int WINDOW)] st)))) \<and>
     (\<forall>st a rows. fst (t_query eng CDC_SELECT [TInteger a, TInteger (int WINDOW)] st) = Inr rows \<longrightarrow>
        delivers eng rows (take WINDOW (pending a (log st))))"

lemma log_lawsD:
  assumes "log_laws eng log"
  shows "ordered (log st)"
    and "t_connect eng st = (c, st1) \<Longrightarrow> prefix (log st) (log st1)"
    and "t_prepare eng CDC_SELECT st = (p, st1) \<Longrightarrow> prefix (log st) (log st1)"
    and "t_prepare eng CDC_SELECT st = (Inl e, st1) \<Longrightarrow> is_missing_cdc_log e \<Longrightarrow> log st = []"
    and "t_query eng CDC_SELECT [TInteger a, TInteger (int WINDOW)] st = (q, st1) \<Longrightarrow> prefix (log st) (log st1)"
    and "t_query eng CDC_SELECT [TInteger a, TInteger (int WINDOW)] st = (Inr rows, st1) \<Longrightarrow>
      delivers eng rows (take WINDOW (pending a (log st)))"
  using assms unfolding log_laws_def by (metis fst_conv snd_conv)+

definition is_commit :: "cdc_row \<Rightarrow> bool" where
  "is_commit r \<longleftrightarrow> change_type r = COMMIT"

text \<open>The first complete transaction of a run of rows.\<close>

fun first_txn :: "cdc_row list \<Rightarrow> txn_batch option" where
  "first_txn [] = None"
| "first_txn (r # rs) = (if is_commit r then Some [r] else map_option ((#) r) (first_txn rs))"

lemma first_txn_None: "first_txn rs = None \<longleftrightarrow> (\<forall>r\<in>set rs. \<not> is_commit r)"
  by (induction rs) auto

lemma first_txn_append: "first_txn rs = Some b \<Longrightarrow> first_txn (rs @ later) = Some b"
  by (induction rs arbitrary: b) (auto split: if_splits)

lemma first_txn_skip: "\<forall>r\<in>set buf. \<not> is_commit r \<Longrightarrow> first_txn (buf @ rs) = map_option ((@) buf) (first_txn rs)"
  by (induction buf) (cases "first_txn rs"; auto)+

lemma first_txn_shape: "first_txn rs = Some b \<Longrightarrow> \<exists>p c q. rs = p @ c # q \<and> b = p @ [c] \<and> is_commit c \<and> (\<forall>r\<in>set p. \<not> is_commit r)"
proof (induction rs arbitrary: b)
  case (Cons r rs)
  show ?case
  proof (cases "is_commit r")
    case True
    with Cons show ?thesis by (intro exI [of _ "[]"]) auto
  next
    case False
    with Cons obtain p c q b' where "rs = p @ c # q" "b' = p @ [c]" "is_commit c" "\<forall>r\<in>set p. \<not> is_commit r" "b = r # b'" by fastforce
    with False show ?thesis by (intro exI [of _ "r # p"] exI [of _ c] exI [of _ q]) auto
  qed
qed simp

lemma read_window_spec:
  "delivers eng rows rs \<Longrightarrow>
   (case read_window eng rows buf a n of
      Failed e \<Rightarrow> True
    | Committed b cid \<Rightarrow> \<exists>b'. first_txn rs = Some b' \<and> b = buf @ b' \<and> cid = change_id (last b')
    | Drained b a' m \<Rightarrow> first_txn rs = None \<and> b = buf @ rs \<and> a' = (if rs = [] then a else change_id (last rs)) \<and> m = n + length rs)"
proof (induction eng rows buf a n arbitrary: rs rule: read_window.induct)
  case (3 eng row rows buf a n)
  then obtain r rs' where rs: "rs = r # rs'" "decode_cdc_row eng row = Inr r" "delivers eng rows rs'"
    by (auto split: list.splits)
  show ?case
  proof (cases "change_type r = COMMIT")
    case True
    with rs show ?thesis by (auto simp: is_commit_def)
  next
    case False
    from 3(1) [OF rs(2) False rs(3)] False rs show ?thesis
      by (auto simp: is_commit_def split: window_end.splits dest: first_txn_shape)
  qed
qed simp_all

lemma pending_ordered: "ordered rs \<Longrightarrow> ordered (pending a rs)"
  by (simp add: ordered_def pending_def sorted_wrt_map sorted_wrt_filter)

lemma pending_prefix: "prefix rs rs' \<Longrightarrow> prefix (pending a rs) (pending a rs')"
  by (auto simp: prefix_def pending_def)

text \<open>Behind the last row of a run of pending rows come exactly the others.\<close>

lemma pending_split:
  assumes "ordered rs" and "pending a rs = buf @ later"
  shows "pending (if buf = [] then a else change_id (last buf)) rs = later"
proof (cases "buf = []")
  case False
  let ?b = "change_id (last buf)"
  have ord: "ordered (buf @ later)" using pending_ordered [OF assms(1), of a] assms(2) by simp
  have lastb: "last buf \<in> set buf" using False by simp
  have below: "change_id r \<le> ?b" if "r \<in> set buf" for r
  proof -
    obtain p x where buf: "buf = p @ [x]" using False by (cases buf rule: rev_cases) auto
    show ?thesis using ord that unfolding buf by (auto simp: ordered_def sorted_wrt_append)
  qed
  have above: "?b < change_id r" if "r \<in> set later" for r
    using ord lastb that by (auto simp: ordered_def sorted_wrt_append)
  have "last buf \<in> set (pending a rs)" using assms(2) lastb by simp
  then have "a < ?b" by (simp add: pending_def)
  then have "pending ?b rs = pending ?b (pending a rs)"
    by (auto simp: pending_def intro: filter_cong)
  also have "\<dots> = later" unfolding assms(2) using below above by (auto simp: pending_def filter_empty_conv filter_id_conv not_less)
  finally show ?thesis using False by simp
qed (use assms in simp)

section \<open>The window loop\<close>

definition window_start :: "int \<Rightarrow> txn_batch \<Rightarrow> int" where
  "window_start a buf = (if buf = [] then a else change_id (last buf))"

text \<open>Between windows: the rows buffered so far are the first pending ones, and none of them is a COMMIT.\<close>

definition window_inv :: "int \<Rightarrow> cdc_row list \<Rightarrow> txn_batch \<Rightarrow> int \<Rightarrow> bool" where
  "window_inv a rs buf w \<longleftrightarrow> prefix buf (pending a rs) \<and> first_txn buf = None \<and> w = window_start a buf"

lemma window_inv_grows: "window_inv a rs buf w \<Longrightarrow> prefix rs rs' \<Longrightarrow> window_inv a rs' buf w"
  unfolding window_inv_def using pending_prefix prefix_order.trans by blast

lemma window_rows:
  assumes "window_inv a rs buf w" and "ordered rs"
  shows "pending a rs = buf @ pending w rs"
proof -
  obtain later where "pending a rs = buf @ later" using assms(1) by (auto simp: window_inv_def prefix_def)
  with pending_split [OF assms(2) this] assms(1) show ?thesis by (simp add: window_inv_def window_start_def)
qed

lemma window_step:
  assumes inv: "window_inv a rs buf w" and ord: "ordered rs" and del: "delivers eng rows (take WINDOW (pending w rs))"
  shows "case read_window eng rows buf w 0 of
      Failed e \<Rightarrow> True
    | Committed b cid \<Rightarrow> first_txn (pending a rs) = Some b \<and> cid = change_id (last b)
    | Drained b w' m \<Rightarrow> window_inv a rs b w' \<and> length b = length buf + m \<and> (m < WINDOW \<longrightarrow> first_txn (pending a rs) = None)"
proof -
  let ?t = "take WINDOW (pending w rs)"
  note rows = window_rows [OF inv ord]
  have nc: "\<forall>r\<in>set buf. \<not> is_commit r" using inv by (simp add: window_inv_def first_txn_None)
  have split: "pending a rs = buf @ ?t @ drop WINDOW (pending w rs)" using rows by simp
  show ?thesis
  proof (cases "read_window eng rows buf w 0")
    case (Committed b cid)
    with read_window_spec [OF del, of buf w 0] obtain b' where b: "first_txn ?t = Some b'" "b = buf @ b'" "cid = change_id (last b')" by auto
    then have "b' \<noteq> []" using first_txn_shape by fastforce
    moreover have "first_txn (pending a rs) = Some b"
      unfolding rows using first_txn_skip [OF nc, of "pending w rs"] first_txn_append [OF b(1), of "drop WINDOW (pending w rs)"] b(2)
      by simp
    ultimately show ?thesis using Committed b by simp
  next
    case (Drained b w' m)
    with read_window_spec [OF del, of buf w 0] have d: "first_txn ?t = None" "b = buf @ ?t" "m = length ?t"
      "w' = (if ?t = [] then w else change_id (last ?t))" by auto
    have "window_inv a rs b w'"
      using inv d nc unfolding window_inv_def window_start_def split by (auto simp: first_txn_None take_is_prefix)
    moreover have "first_txn (pending a rs) = None" if "m < WINDOW"
    proof -
      have "?t = pending w rs" using that d(3) by simp
      then show ?thesis using d(1) nc rows by (auto simp: first_txn_None)
    qed
    ultimately show ?thesis using Drained d by simp
  qed simp
qed

text \<open>What a run of the loop that ends gives.\<close>

definition next_found :: "('e \<Rightarrow> cdc_row list) \<Rightarrow> int \<Rightarrow> 'e \<Rightarrow> (backend_error + (txn_batch \<times> int) option) \<times> 'e \<Rightarrow> bool" where
  "next_found log a st out \<longleftrightarrow>
     prefix (log st) (log (snd out)) \<and>
     (case fst out of
        Inl e \<Rightarrow> True
      | Inr None \<Rightarrow> first_txn (pending a (log st)) = None
      | Inr (Some (b, cid)) \<Rightarrow> first_txn (pending a (log (snd out))) = Some b \<and> cid = change_id (last b))"

lemma next_found_later: "prefix (log st) (log st1) \<Longrightarrow> next_found log a st1 out \<Longrightarrow> next_found log a st out"
  unfolding next_found_def
  by (auto split: sum.splits option.splits intro: prefix_order.trans dest: pending_prefix [of _ _ a]
      simp: prefix_def first_txn_None pending_def)

lemma read_windows_found:
  assumes "log_laws eng log" and "read_windows eng buf w st = Some out" and "window_inv a (log st) buf w"
  shows "next_found log a st out"
proof -
  have "log_laws eng log \<longrightarrow> window_inv a (log st) buf w \<longrightarrow> next_found log a st out"
  proof (rule read_windows.raw_induct [OF _ assms(2)], intro impI)
    fix rw eng buf w st out
    assume IH: "\<And>eng buf w st out. rw eng buf w st = Some out \<Longrightarrow>
        log_laws eng log \<longrightarrow> window_inv a (log st) buf w \<longrightarrow> next_found log a st out"
      and run: "(case t_query eng CDC_SELECT [TInteger w, TInteger (int WINDOW)] st of
        (Inl e, st1) \<Rightarrow> Some (Inl (map_turso_err e), st1)
      | (Inr rows, st1) \<Rightarrow>
          (case read_window eng rows buf w 0 of
             Failed e \<Rightarrow> Some (Inl e, st1)
           | Committed batch cid \<Rightarrow> Some (Inr (Some (batch, cid)), st1)
           | Drained buffered' window_after' n \<Rightarrow>
               if n < WINDOW then Some (Inr None, st1) else rw eng buffered' window_after' st1)) = Some out"
      and laws: "log_laws eng log" and inv: "window_inv a (log st) buf w"
    obtain q st1 where q: "t_query eng CDC_SELECT [TInteger w, TInteger (int WINDOW)] st = (q, st1)" by fastforce
    note grow = log_lawsD(5) [OF laws q]
    show "next_found log a st out"
    proof (cases q)
      case (Inl e)
      with run q grow show ?thesis by (auto simp: next_found_def)
    next
      case (Inr rows)
      note st = window_step [OF inv log_lawsD(1) [OF laws] log_lawsD(6) [OF laws q [unfolded Inr]]]
      show ?thesis
      proof (cases "read_window eng rows buf w 0")
        case (Failed e)
        with run q Inr grow show ?thesis by (auto simp: next_found_def)
      next
        case (Committed b cid)
        moreover from grow have "prefix (pending a (log st)) (pending a (log st1))" by (rule pending_prefix)
        ultimately show ?thesis using run q Inr grow st by (auto simp: next_found_def prefix_def first_txn_append)
      next
        case (Drained b w' m)
        with st have inv': "window_inv a (log st1) b w'" using window_inv_grows [OF _ grow] by simp
        show ?thesis
        proof (cases "m < WINDOW")
          case True
          with run q Inr Drained grow st show ?thesis by (auto simp: next_found_def)
        next
          case False
          with run q Inr Drained have "rw eng b w' st1 = Some out" by simp
          with IH laws inv' next_found_later [of log st st1 a out] grow show ?thesis by blast
        qed
      qed
    qed
  qed
  with assms show ?thesis by blast
qed

text \<open>The loop ends once the log it reads holds a COMMIT, or when the log stays bounded.\<close>

definition settles :: "('e \<Rightarrow> cdc_row list) \<Rightarrow> int \<Rightarrow> 'e \<Rightarrow> nat \<Rightarrow> bool" where
  "settles log a st n \<longleftrightarrow>
     (\<exists>b. first_txn (pending a (log st)) = Some b \<and> length b \<le> n) \<or> (\<forall>st'. length (log st') \<le> n)"

lemma settles_later: "settles log a st n \<Longrightarrow> prefix (log st) (log st1) \<Longrightarrow> settles log a st1 n"
  unfolding settles_def using pending_prefix [of "log st" "log st1" a]
  by (elim disjE exE conjE) (metis first_txn_append prefix_def, blast)

lemma buffered_bound:
  assumes "settles log a st n" and "window_inv a (log st) buf w"
  shows "length buf \<le> n"
proof -
  obtain later where buf: "pending a (log st) = buf @ later" "\<forall>r\<in>set buf. \<not> is_commit r"
    using assms(2) by (auto simp: window_inv_def prefix_def first_txn_None)
  then have "length buf \<le> length (log st)" by (metis length_append le_add1 length_filter_le order_trans pending_def)
  moreover have "length buf \<le> length b" if "first_txn (pending a (log st)) = Some b" for b
    using that first_txn_skip [OF buf(2), of later] unfolding buf(1) by auto
  ultimately show ?thesis using assms(1) unfolding settles_def by (meson order_trans)
qed

lemma read_windows_ends:
  assumes laws: "log_laws eng log" and "settles log a st n" and "window_inv a (log st) buf w"
  shows "\<exists>out. read_windows eng buf w st = Some out"
  using assms(2,3)
proof (induction "Suc n - length buf" arbitrary: buf w st rule: less_induct)
  case less
  obtain q st1 where q: "t_query eng CDC_SELECT [TInteger w, TInteger (int WINDOW)] st = (q, st1)" by fastforce
  note grow = log_lawsD(5) [OF laws q]
  show ?case
  proof (cases q)
    case (Inr rows)
    note st = window_step [OF less(3) log_lawsD(1) [OF laws] log_lawsD(6) [OF laws q [unfolded Inr]]]
    show ?thesis
    proof (cases "read_window eng rows buf w 0")
      case (Drained b w' m)
      show ?thesis
      proof (cases "m < WINDOW")
        case False
        from Drained st have b: "window_inv a (log st1) b w'" "length b = length buf + m"
          using window_inv_grows [OF _ grow] by simp_all
        have "length buf \<le> n" by (rule buffered_bound [OF less(2,3)])
        then have "Suc n - length b < Suc n - length buf" using b(2) False by (simp add: WINDOW_def)
        from less(1) [OF this settles_later [OF less(2) grow] b(1)] q Inr Drained False show ?thesis
          by (subst read_windows.simps) simp
      qed (use q Inr Drained in \<open>subst read_windows.simps, simp\<close>)
    qed (use q Inr in \<open>subst read_windows.simps, simp\<close>)+
  qed (use q in \<open>subst read_windows.simps, simp\<close>)
qed

text \<open>The tailer over the loop.\<close>

lemma window_inv_start: "window_inv a rs [] a"
  by (simp add: window_inv_def window_start_def)

lemma read_next_batch_found:
  assumes "log_laws eng log" and "read_next_batch eng a st = Some out"
  shows "next_found log a st out"
proof -
  obtain c st1 where c: "t_connect eng st = (c, st1)" by fastforce
  obtain p st2 where p: "t_prepare eng CDC_SELECT st1 = (p, st2)" by fastforce
  note g1 = log_lawsD(2) [OF assms(1) c] and g2 = log_lawsD(3) [OF assms(1) p]
  note grow = prefix_order.trans [OF g1 g2]
  show ?thesis
  proof (cases c)
    case (Inl e)
    with assms(2) c g1 show ?thesis by (auto simp: read_next_batch_def next_found_def)
  next
    case c1: (Inr u)
    show ?thesis
    proof (cases p)
      case (Inl e)
      have "is_missing_cdc_log e \<Longrightarrow> log st = []"
        using log_lawsD(4) [OF assms(1) p [unfolded Inl]] g1 by simp
      with assms(2) c p c1 Inl grow show ?thesis
        by (auto simp: read_next_batch_def next_found_def pending_def split: if_splits)
    next
      case (Inr cols)
      with assms(2) c p c1 have "read_windows eng [] a st2 = Some out" by (simp add: read_next_batch_def)
      from read_windows_found [OF assms(1) this window_inv_start] next_found_later [of log st st2 a out] grow
      show ?thesis by blast
    qed
  qed
qed

lemma read_next_batch_ends:
  assumes "log_laws eng log" and "settles log a st n"
  shows "\<exists>out. read_next_batch eng a st = Some out"
proof -
  obtain c st1 where c: "t_connect eng st = (c, st1)" by fastforce
  obtain p st2 where p: "t_prepare eng CDC_SELECT st1 = (p, st2)" by fastforce
  note grow = prefix_order.trans [OF log_lawsD(2) [OF assms(1) c] log_lawsD(3) [OF assms(1) p]]
  from read_windows_ends [OF assms(1) settles_later [OF assms(2) grow] window_inv_start] c p show ?thesis
    by (auto simp: read_next_batch_def split: sum.split)
qed

section \<open>Runs of polls\<close>

fun poll_many :: "'e turso_engine \<Rightarrow> nat \<Rightarrow> cdc_tailer \<Rightarrow> 'e \<Rightarrow> (txn_batch list \<times> cdc_tailer \<times> 'e) option" where
  "poll_many eng 0 t st = Some ([], t, st)"
| "poll_many eng (Suc n) t st =
     (case poll_batch eng t st of
        None \<Rightarrow> None
      | Some (r, t1, st1) \<Rightarrow>
          map_option (\<lambda>(bs, rest). (case r of Inr (Some b) \<Rightarrow> b # bs | _ \<Rightarrow> bs, rest)) (poll_many eng n t1 st1))"

definition complete_txn :: "txn_batch \<Rightarrow> bool" where
  "complete_txn b \<longleftrightarrow> b \<noteq> [] \<and> is_commit (last b) \<and> list_all (\<lambda>r. \<not> is_commit r) (butlast b)"

lemma first_txn_complete: "first_txn rs = Some b \<Longrightarrow> complete_txn b \<and> prefix b rs"
  using first_txn_shape [of rs b] by (auto simp: complete_txn_def list_all_iff prefix_def)

lemma poll_batch_cases:
  assumes "log_laws eng log" and "poll_batch eng t st = Some (r, t', st')"
  shows "prefix (log st) (log st') \<and>
    (case r of
       Inr (Some b) \<Rightarrow> first_txn (pending (cursor t) (log st')) = Some b \<and> cursor t' = change_id (last b)
     | Inr None \<Rightarrow> t' = t \<and> first_txn (pending (cursor t) (log st)) = None
     | Inl e \<Rightarrow> t' = t)"
proof -
  obtain out where out: "read_next_batch eng (cursor t) st = Some out"
    using assms(2) by (auto simp: poll_batch_def cursor_def split: option.splits)
  from read_next_batch_found [OF assms(1) out] assms(2) out show ?thesis
    by (cases out) (auto simp: next_found_def poll_batch_def cursor_def split: sum.splits option.splits)
qed

lemma poll_step_rows:
  assumes "log_laws eng log" and "poll_batch eng t st = Some (r, t', st')" and "prefix (log st') rs" and "ordered rs"
  shows "pending (cursor t) rs = (case r of Inr (Some b) \<Rightarrow> b | _ \<Rightarrow> []) @ pending (cursor t') rs"
    and "r = Inr (Some b) \<Longrightarrow> complete_txn b"
proof -
  note p = poll_batch_cases [OF assms(1,2)]
  have some: "complete_txn b \<and> pending (cursor t) rs = b @ pending (cursor t') rs" if r: "r = Inr (Some b)" for b
  proof -
    from p r have b: "first_txn (pending (cursor t) (log st')) = Some b" "cursor t' = change_id (last b)" by auto
    from first_txn_complete [OF b(1)] pending_prefix [OF assms(3), of "cursor t"]
    obtain later where "complete_txn b" "pending (cursor t) rs = b @ later" by (auto simp: prefix_def)
    with pending_split [OF assms(4) this(2)] b(2) show ?thesis by (simp add: complete_txn_def)
  qed
  show "r = Inr (Some b) \<Longrightarrow> complete_txn b" using some by blast
  show "pending (cursor t) rs = (case r of Inr (Some b) \<Rightarrow> b | _ \<Rightarrow> []) @ pending (cursor t') rs"
  proof (cases r)
    case (Inr o1)
    then show ?thesis using some p by (cases o1) auto
  qed (use p in auto)
qed

lemma poll_many_grows: "log_laws eng log \<Longrightarrow> poll_many eng n t st = Some (bs, t', st') \<Longrightarrow> prefix (log st) (log st')"
proof (induction n arbitrary: t st bs)
  case (Suc n)
  then obtain r t1 st1 bs1 where p: "poll_batch eng t st = Some (r, t1, st1)" "poll_many eng n t1 st1 = Some (bs1, t', st')"
    by (auto split: option.splits)
  with poll_batch_cases [OF Suc(2) p(1)] Suc(1) [OF Suc(2) p(2)] show ?case by (auto intro: prefix_order.trans)
qed simp

section \<open>A log that grows\<close>

text \<open>An engine whose log grows by a chunk at every query; the chunks to come are part of its state.\<close>

definition row_value :: "cdc_row \<Rightarrow> turso_row" where
  "row_value r i = Inr
     ([TInteger (change_id r), case change_txn_id r of None \<Rightarrow> TNull | Some x \<Rightarrow> TInteger x, TInteger (change_type r),
       case table_name r of None \<Rightarrow> TNull | Some x \<Rightarrow> TText x, case row_id r of None \<Rightarrow> TNull | Some x \<Rightarrow> TInteger x,
       case before r of None \<Rightarrow> TNull | Some x \<Rightarrow> TBlob x, case after r of None \<Rightarrow> TNull | Some x \<Rightarrow> TBlob x,
       case updates r of None \<Rightarrow> TNull | Some x \<Rightarrow> TBlob x] ! i)"

lemma decode_row_value: "decode_cdc_row eng (row_value r) = Inr r"
  unfolding decode_cdc_row_def required_int_def optional_int_def optional_text_def optional_blob_def row_value_def
  by (cases r) (auto split: option.split)

type_synonym growing = "cdc_row list \<times> cdc_row list list"

fun grown_log :: "growing \<Rightarrow> cdc_row list" where
  "grown_log (seen, coming) = (if ordered (seen @ concat coming) then seen else [])"

definition growing_engine :: "growing turso_engine" where
  "growing_engine =
     \<lparr>t_connect = (\<lambda>st. (Inr (), st)), t_prepare = (\<lambda>sql st. (Inr [], st)),
      t_query = (\<lambda>sql ps st.
        (case ps of
           TInteger a # _ \<Rightarrow> Inr (map (\<lambda>r. Inr (row_value r)) (take WINDOW (pending a (grown_log st))))
         | _ \<Rightarrow> Inr [], fst st @ concat (take 1 (snd st)), drop 1 (snd st))),
      t_execute = (\<lambda>sql ps st. (Inr 0, st)), t_is_autocommit = (\<lambda>st. Inr True), t_last_insert_rowid = (\<lambda>st. 0),
      t_debug = (\<lambda>v. ''''), v_debug = (\<lambda>v. '''')\<rparr>"

lemma growing_query:
  "t_query growing_engine sql (TInteger a # ps) st =
     (Inr (map (\<lambda>r. Inr (row_value r)) (take WINDOW (pending a (grown_log st)))), fst st @ concat (take 1 (snd st)), drop 1 (snd st))"
  "t_connect growing_engine st = (Inr (), st)" "t_prepare growing_engine sql st = (Inr [], st)"
  by (simp_all add: growing_engine_def)

lemma delivers_rows: "delivers eng (map (\<lambda>r. Inr (row_value r)) rs) rs"
  by (induction rs) (simp_all add: decode_row_value)

lemma growing_laws: "log_laws growing_engine grown_log"
proof -
  have "ordered (grown_log st)" for st
    by (cases st) (auto simp: ordered_def sorted_wrt_append)
  moreover have "prefix (grown_log st) (grown_log (fst st @ concat (take 1 (snd st)), drop 1 (snd st)))" for st
    by (cases st; cases "snd st") auto
  ultimately show ?thesis by (simp add: log_laws_def growing_engine_def delivers_rows)
qed

definition demo_row :: "int \<Rightarrow> int \<Rightarrow> cdc_row" where
  "demo_row cid ty =
     \<lparr>change_id = cid, change_txn_id = Some 7, change_type = ty, table_name = (if ty = COMMIT then None else Some ''t''),
      row_id = Some cid, before = None, after = Some [2, 9], updates = None\<rparr>"

definition demo_growing :: growing where
  "demo_growing = ([demo_row 1 INSERT, demo_row 2 COMMIT, demo_row 3 DELETE], [[demo_row 4 COMMIT]])"

lemma demo_growing_polls:
  "poll_many growing_engine 2 (cdc_tailer_new 0) demo_growing =
     Some ([[demo_row 1 INSERT, demo_row 2 COMMIT], [demo_row 3 DELETE, demo_row 4 COMMIT]], \<lparr>last_seen_change_id = 4\<rparr>,
       [demo_row 1 INSERT, demo_row 2 COMMIT, demo_row 3 DELETE, demo_row 4 COMMIT], [])"
proof -
  have step: "read_windows growing_engine buf a st =
      Some (Inr (Some (b, cid)), fst st @ concat (take 1 (snd st)), drop 1 (snd st))"
    if "read_window growing_engine (map (\<lambda>r. Inr (row_value r)) (take WINDOW (pending a (grown_log st)))) buf a 0 = Committed b cid"
    for buf a st b cid
    using that by (subst read_windows.simps) (simp add: growing_query)
  let ?log = "[demo_row 1 INSERT, demo_row 2 COMMIT, demo_row 3 DELETE]"
  have "read_windows growing_engine [] 0 demo_growing =
      Some (Inr (Some ([demo_row 1 INSERT, demo_row 2 COMMIT], 2)), ?log @ [demo_row 4 COMMIT], [])"
    by (subst step) (auto simp: demo_growing_def ordered_def pending_def demo_row_def change_types WINDOW_def decode_row_value)
  moreover have "read_windows growing_engine [] 2 (?log @ [demo_row 4 COMMIT], []) =
      Some (Inr (Some ([demo_row 3 DELETE, demo_row 4 COMMIT], 4)), ?log @ [demo_row 4 COMMIT], [])"
    by (subst step) (auto simp: ordered_def pending_def demo_row_def change_types WINDOW_def decode_row_value)
  ultimately show ?thesis
    by (simp add: numeral_2_eq_2 poll_batch_def read_next_batch_def cdc_tailer_new_def growing_query)
qed

lemma poll_many_rows:
  assumes "log_laws eng log" and "poll_many eng n t st = Some (bs, t', st')"
  shows "pending (cursor t) (log st') = concat bs @ pending (cursor t') (log st') \<and> list_all complete_txn bs"
  using assms(2)
proof (induction n arbitrary: t st bs)
  case (Suc n)
  then obtain r t1 st1 bs1 where p: "poll_batch eng t st = Some (r, t1, st1)" "poll_many eng n t1 st1 = Some (bs1, t', st')"
    and bs: "bs = (case r of Inr (Some b) \<Rightarrow> b # bs1 | _ \<Rightarrow> bs1)" by (auto split: option.splits)
  note rows = poll_step_rows [OF assms(1) p(1) poll_many_grows [OF assms(1) p(2)] log_lawsD(1) [OF assms(1)]]
  from Suc(1) [OF p(2)] rows bs show ?case by (auto split: sum.splits option.splits)
qed simp

text \<open>
  Property C10 (the tailer ships the log). Over any number of polls, while other connections keep writing and
  whatever polls fail or find nothing, the batches handed out are complete transactions (rows up to their one
  COMMIT), and the rows behind the starting cursor are exactly the rows of those batches, in order, followed
  by the rows behind the current cursor: no change is lost, repeated, reordered or shipped before its commit.
\<close>

theorem tail_ships_log:
  assumes "log_laws eng log" and "poll_many eng n t st = Some (bs, t', st')"
  shows "pending (cursor t) (log st') = concat bs @ pending (cursor t') (log st') \<and> list_all complete_txn bs"
  by (rule poll_many_rows [OF assms])

theorem tail_ships_log_witness:
  "log_laws growing_engine grown_log \<and>
   (\<exists>bs t' st'. poll_many growing_engine 2 (cdc_tailer_new 0) demo_growing = Some (bs, t', st') \<and>
      pending 0 (grown_log st') = concat bs @ pending (cursor t') (grown_log st') \<and> list_all complete_txn bs)"
  using growing_laws tail_ships_log [OF growing_laws demo_growing_polls] demo_growing_polls
  by (simp add: cursor_def cdc_tailer_new_def)

text \<open>
  Property C32 (a poll ends, and finds what is there). If the log holds a complete transaction behind the cursor
  when the poll starts, of any number of rows, or if the log stays within any bound, the window loop ends,
  however the log grows meanwhile; and a pending complete transaction is never reported as nothing to ship.
\<close>

theorem poll_terminates:
  assumes "log_laws eng log" and "settles log (cursor t) st n"
  shows "\<exists>r t' st'. poll_batch eng t st = Some (r, t', st') \<and>
    (first_txn (pending (cursor t) (log st)) = None \<or> r \<noteq> Inr None)"
proof -
  obtain out where "read_next_batch eng (cursor t) st = Some out" using read_next_batch_ends [OF assms] by blast
  then have "poll_batch eng t st \<noteq> None" by (simp add: poll_batch_def cursor_def split: prod.split sum.split option.split)
  then obtain r t' st' where p: "poll_batch eng t st = Some (r, t', st')" by auto
  with poll_batch_cases [OF assms(1) p] show ?thesis by auto
qed

theorem poll_terminates_witness:
  "\<exists>r t' st'. poll_batch growing_engine (cdc_tailer_new 0) demo_growing = Some (r, t', st') \<and> r \<noteq> Inr None"
proof -
  have some: "first_txn (pending 0 (grown_log demo_growing)) = Some [demo_row 1 INSERT, demo_row 2 COMMIT]"
    by (simp add: demo_growing_def ordered_def pending_def demo_row_def change_types is_commit_def)
  then have "settles grown_log (cursor (cdc_tailer_new 0)) demo_growing 2"
    by (simp add: settles_def cursor_def cdc_tailer_new_def)
  from poll_terminates [OF growing_laws this] some show ?thesis by (simp add: cursor_def cdc_tailer_new_def)
qed

end
