(* ===== verification/Cdc_Ddl.thy ===== *)
theory Cdc_Ddl
  imports Tenant_Screen
begin

text \<open>
  The allowlist of \<^verbatim>\<open>src/crates/litewire-turso/src/cdc.rs\<close> for schema changes replayed from a peer:
  \<open>classify_replayed_ddl\<close> and its scanners. As in the tenant screen, an index into the bytes is the rest of
  the text from there, and \<^verbatim>\<open>first_semicolon\<close> is the text behind that semicolon. The last section
  characterises the accepted texts.
\<close>

section \<open>Scanners\<close>

datatype schema_object = Table | Index | View | Trigger

fun as_str :: "schema_object \<Rightarrow> string" where
  "as_str Table = ''TABLE''"
| "as_str Index = ''INDEX''"
| "as_str View = ''VIEW''"
| "as_str Trigger = ''TRIGGER''"

function skip_blank_and_comments :: "string \<Rightarrow> string" where
  "skip_blank_and_comments t =
     (let s = trim_start t in
      case strip_prefix s ''--'' of
        Some rest \<Rightarrow>
          (case find_char (\<lambda>c. c = newline) rest of
             None \<Rightarrow> []
           | Some nl \<Rightarrow> skip_blank_and_comments (drop (nl + 1) rest))
      | None \<Rightarrow>
          (case strip_prefix s ''/*'' of
             Some rest \<Rightarrow>
               (case find_str rest ''*/'' of
                  None \<Rightarrow> []
                | Some e \<Rightarrow> skip_blank_and_comments (drop (e + 2) rest))
           | None \<Rightarrow> s))"
  by pat_completeness auto
termination
proof (relation "measure length", goal_cases)
  case (2 t s rest nl)
  then show ?case using length_trim_start [of t] by (auto simp: strip_prefix_Some)
next
  case (3 t s rest e)
  then show ?case using length_trim_start [of t] by (auto simp: strip_prefix_Some)
qed simp

declare skip_blank_and_comments.simps [simp del]

primrec leading_words :: "nat \<Rightarrow> string \<Rightarrow> string list" where
  "leading_words 0 s = []"
| "leading_words (Suc n) s =
     (let s1 = skip_blank_and_comments s; len = length (takeWhile is_ascii_alphabetic s1) in
      if len = 0 then [] else to_ascii_uppercase (take len s1) # leading_words n (drop len s1))"

definition leading_keywords :: "string \<Rightarrow> nat \<Rightarrow> string list" where
  "leading_keywords sql n = leading_words n sql"

text \<open>\<^verbatim>\<open>chars()\<close> of a UTF-8 text: a character starts at every byte that is not a continuation byte.\<close>

definition starts_char :: "char \<Rightarrow> bool" where
  "starts_char c \<longleftrightarrow> \<not> (0x80 \<le> byte_of c \<and> byte_of c < 0xC0)"

fun take_chars :: "nat \<Rightarrow> string \<Rightarrow> string" where
  "take_chars n [] = []"
| "take_chars n (c # s) =
     (if starts_char c then (case n of 0 \<Rightarrow> [] | Suc k \<Rightarrow> c # take_chars k s) else c # take_chars n s)"

definition truncate_for_log :: "string \<Rightarrow> string" where
  "truncate_for_log s =
     (if length (filter starts_char s) \<le> 120 then s else take_chars 120 s @ [CHR 0xE2, CHR 0x80, CHR 0xA6])"

definition ddl_rejected :: "string \<Rightarrow> string \<Rightarrow> backend_error" where
  "ddl_rejected reason sql =
     Other (''cdc apply: replayed DDL rejected ('' @ reason @ ''); only CREATE TABLE/[UNIQUE] INDEX/VIEW/TRIGGER may be replayed: ''
       @ truncate_for_log sql)"

definition classify_leading_keywords :: "string \<Rightarrow> backend_error + schema_object" where
  "classify_leading_keywords sql =
     (let words = leading_keywords sql 3; reject = (\<lambda>reason. Inl (ddl_rejected reason sql)) in
      case words of
        [] \<Rightarrow> reject ''no leading keyword''
      | w # ws \<Rightarrow>
          if w \<noteq> ''CREATE'' then reject (''leading keyword '' @ w)
          else (case ws of
              [] \<Rightarrow> reject ''CREATE with no object kind''
            | k # ks \<Rightarrow>
                if k = ''TABLE'' then Inr Table
                else if k = ''INDEX'' then Inr Index
                else if k = ''VIEW'' then Inr View
                else if k = ''TRIGGER'' then Inr Trigger
                else if k = ''UNIQUE'' then
                  (case ks of
                     [] \<Rightarrow> reject ''CREATE UNIQUE with no object kind''
                   | i # _ \<Rightarrow> if i = ''INDEX'' then Inr Index else reject (''CREATE UNIQUE '' @ i))
                else reject (''CREATE '' @ k)))"

fun skip_bracketed :: "string \<Rightarrow> string option" where
  "skip_bracketed [] = None"
| "skip_bracketed (c # s) = (if c = CHR '']'' then Some s else skip_bracketed s)"

lemma skip_bracketed_le: "skip_bracketed s = Some r \<Longrightarrow> length r < length s"
  by (induction s) (auto split: if_splits)

text \<open>The scan: the text after the first top-level semicolon, or what is left open.\<close>

function find_semicolon :: "string option \<Rightarrow> string \<Rightarrow> string + string option" where
  "find_semicolon first [] = Inr first"
| "find_semicolon first (c # s) =
     (if is_quote c then
        (case skip_quoted c s of None \<Rightarrow> Inl ''quoted literal'' | Some (t, r) \<Rightarrow> find_semicolon first r)
      else if c = CHR ''['' then
        (case skip_bracketed s of None \<Rightarrow> Inl ''bracketed identifier'' | Some r \<Rightarrow> find_semicolon first r)
      else if c = CHR ''-'' \<and> starts_with s ''-'' then
        find_semicolon first (dropWhile (\<lambda>x. x \<noteq> newline) (drop 1 s))
      else if c = CHR ''/'' \<and> starts_with s ''*'' then
        (case skip_block (drop 1 s) of None \<Rightarrow> Inl ''block comment'' | Some (t, r) \<Rightarrow> find_semicolon first r)
      else if c = CHR '';'' then find_semicolon (if first = None then Some s else first) s
      else find_semicolon first s)"
  by pat_completeness auto
termination
  by (relation "measure (\<lambda>(first, s). length s)")
    (auto dest!: skip_quoted_split skip_block_drop skip_bracketed_le simp: le_imp_less_Suc length_dropWhile_le
      intro: le_less_trans [OF length_dropWhile_le])

declare find_semicolon.simps [simp del]

definition ensure_single_statement :: "string \<Rightarrow> schema_object \<Rightarrow> backend_error + unit" where
  "ensure_single_statement sql obj =
     (case find_semicolon None sql of
        Inl what \<Rightarrow> Inl (Other (''cdc apply: unterminated '' @ what @ '' in replayed DDL: '' @ truncate_for_log sql))
      | Inr (Some rest) \<Rightarrow>
          if skip_blank_and_comments rest \<noteq> [] then
            Inl (Other (''cdc apply: replayed CREATE '' @ as_str obj @ '' carries more than one statement: ''
              @ truncate_for_log sql))
          else Inr ()
      | Inr None \<Rightarrow> Inr ())"

definition classify_replayed_ddl :: "string \<Rightarrow> backend_error + schema_object" where
  "classify_replayed_ddl sql =
     (case classify_leading_keywords sql of
        Inl e \<Rightarrow> Inl e
      | Inr obj \<Rightarrow>
          if obj \<noteq> Trigger then
            (case ensure_single_statement sql obj of Inl e \<Rightarrow> Inl e | Inr _ \<Rightarrow> Inr obj)
          else Inr obj)"

definition escape_ident :: "string \<Rightarrow> string" where
  "escape_ident s = concat (map (\<lambda>c. if c = double_quote then [double_quote, double_quote] else [c]) s)"

section \<open>The accepted texts\<close>

text \<open>
  \<open>first_statement s t\<close>: the first statement of \<open>s\<close> ends where \<open>t\<close> begins, at the end of the text or at a
  semicolon outside quoted text, bracketed identifiers and comments, all of which are closed.
\<close>

definition doubled :: "char \<Rightarrow> string \<Rightarrow> string" where
  "doubled q x = concat (map (\<lambda>c. if c = q then [q, q] else [c]) x)"

inductive first_statement :: "string \<Rightarrow> string \<Rightarrow> bool" where
  fs_end: "first_statement [] []"
| fs_semi: "first_statement (CHR '';'' # s) (CHR '';'' # s)"
| fs_quoted: "is_quote q \<Longrightarrow> \<not> starts_with s [q] \<Longrightarrow> first_statement s t \<Longrightarrow> first_statement (q # doubled q x @ q # s) t"
| fs_bracketed: "CHR '']'' \<notin> set x \<Longrightarrow> first_statement s t \<Longrightarrow> first_statement (CHR ''['' # x @ CHR '']'' # s) t"
| fs_line: "newline \<notin> set x \<Longrightarrow> s = [] \<or> hd s = newline \<Longrightarrow> first_statement s t \<Longrightarrow> first_statement (''--'' @ x @ s) t"
| fs_block: "find_str (x @ ''*/'') ''*/'' = Some (length x) \<Longrightarrow> first_statement s t \<Longrightarrow> first_statement (''/*'' @ x @ ''*/'' @ s) t"
| fs_plain: "\<not> is_quote c \<Longrightarrow> c \<noteq> CHR ''['' \<Longrightarrow> c \<noteq> CHR '';'' \<Longrightarrow> \<not> (c = CHR ''-'' \<and> starts_with s ''-'') \<Longrightarrow>
    \<not> (c = CHR ''/'' \<and> starts_with s ''*'') \<Longrightarrow> first_statement s t \<Longrightarrow> first_statement (c # s) t"

text \<open>Nothing but white space and comments; the last line comment may run to the end.\<close>

definition blank_text :: "string \<Rightarrow> bool" where
  "blank_text s \<longleftrightarrow> (\<exists>n x. noise n \<and> newline \<notin> set x \<and> (s = n \<or> s = n @ ''--'' @ x))"

definition single_statement :: "string \<Rightarrow> bool" where
  "single_statement s \<longleftrightarrow> first_statement s [] \<or> (\<exists>rest. first_statement s (CHR '';'' # rest) \<and> blank_text rest)"

fun front_words :: "string list \<Rightarrow> string \<Rightarrow> bool" where
  "front_words [] s \<longleftrightarrow> True"
| "front_words (kw # kws) s \<longleftrightarrow> (\<exists>n w r. noise n \<and> keyword_at kw w r \<and> s = n @ w @ r \<and> front_words kws r)"

definition creates :: "schema_object \<Rightarrow> string \<Rightarrow> bool" where
  "creates obj s \<longleftrightarrow> front_words [''CREATE'', as_str obj] s \<or> obj = Index \<and> front_words [''CREATE'', ''UNIQUE'', ''INDEX''] s"

lemma skip_is_strip_noise: "skip_blank_and_comments s = strip_leading_noise s"
proof (induction s rule: skip_blank_and_comments.induct)
  case (1 t)
  then show ?case
    by (subst skip_blank_and_comments.simps, subst strip_leading_noise.simps)
      (auto simp: Let_def after_newline_def after_block_def split: option.split)
qed

lemma trim_start_noise: "\<exists>n. noise n \<and> s = n @ trim_start s"
proof (induction "length s" arbitrary: s rule: less_induct)
  case less
  show ?case
  proof (cases "find (\<lambda>w. w \<noteq> [] \<and> starts_with s w) white_space")
    case None
    then show ?thesis by (simp add: trim_start_def trim_with_fix noise_nil)
  next
    case (Some w)
    then have w: "w \<noteq> []" "starts_with s w" "w \<in> set white_space" by (auto simp: find_Some_iff)
    then obtain r where r: "s = w @ r" by (auto simp: starts_with_iff_prefix prefix_def)
    with less [of r] w(1) obtain n where "noise n" "r = n @ trim_start r" by auto
    with noise_white [OF w(3)] w(3) show ?thesis unfolding r by (metis append.assoc trim_start_white)
  qed
qed

lemma find_str_split: "find_str s p = Some i \<Longrightarrow> s = take i s @ p @ drop (i + length p) s \<and> find_str (take i s @ p) p = Some i"
proof (induction s p arbitrary: i rule: find_str.induct)
  case (1 p)
  then show ?case by (cases p) (auto split: if_splits)
next
  case (2 c s p)
  show ?case
  proof (cases "starts_with (c # s) p")
    case True
    with 2(2) have "i = 0" "c # s = p @ drop (length p) (c # s)"
      by (auto simp: starts_with_def) (metis append_take_drop_id)
    moreover have "find_str (p @ []) p = Some 0" by (cases p) (simp_all add: starts_with_def)
    ultimately show ?thesis by simp
  next
    case False
    with 2(2) obtain j where j: "find_str s p = Some j" "i = Suc j" by auto
    note IH = 2(1) [OF False j(1)]
    have "\<not> starts_with (c # take j s @ p) p"
      using False find_str_bound [OF j(1)] IH
      by (simp add: starts_with_def) (metis (no_types, lifting) append.assoc append_Cons le_SucI length_append
          length_Cons take_append take_all_iff trans_le_add2 append_Nil2 diff_is_0_eq' le_add2 take_0 le_Suc_eq)
    with IH j show ?thesis by simp
  qed
qed

text \<open>The scan past quoted text, comments and blanks.\<close>

lemma skip_quoted_doubled: "\<not> starts_with s [q] \<Longrightarrow> skip_quoted q (doubled q x @ q # s) = Some (doubled q x @ [q], s)"
  by (induction x) (auto simp: doubled_def starts_with_def split: list.split)

lemma skip_quoted_shape: "skip_quoted q s = Some (t, r) \<Longrightarrow> \<exists>x. s = doubled q x @ q # r \<and> \<not> starts_with r [q]"
proof (induction q s arbitrary: t rule: skip_quoted.induct)
  case (2 q c s)
  show ?case
  proof (cases "c = q")
    case True
    show ?thesis
    proof (cases s)
      case Nil
      with True 2(3) show ?thesis by (auto simp: doubled_def starts_with_def intro!: exI [of _ "[]"])
    next
      case (Cons d s')
      show ?thesis
      proof (cases "d = q")
        case dq: True
        with True Cons 2(3) obtain t' where "skip_quoted q s' = Some (t', r)" by auto
        with 2(1) [OF True Cons dq] obtain x where "s' = doubled q x @ q # r" "\<not> starts_with r [q]" by blast
        with True Cons dq show ?thesis by (auto simp: doubled_def intro!: exI [of _ "q # x"])
      next
        case False
        with True Cons 2(3) show ?thesis by (auto simp: doubled_def starts_with_def intro!: exI [of _ "[]"])
      qed
    qed
  next
    case False
    with 2(3) obtain t' where "skip_quoted q s = Some (t', r)" by auto
    with 2(2) [OF False] obtain x where "s = doubled q x @ q # r" "\<not> starts_with r [q]" by blast
    with False show ?thesis by (auto simp: doubled_def intro!: exI [of _ "c # x"])
  qed
qed simp

lemma skip_bracketed_shape: "skip_bracketed s = Some r \<longleftrightarrow> (\<exists>x. s = x @ CHR '']'' # r \<and> CHR '']'' \<notin> set x)"
proof (induction s)
  case (Cons c s)
  show ?case
  proof (cases "c = CHR '']''")
    case True
    then show ?thesis by (auto simp: Cons_eq_append_conv)
  next
    case False
    with Cons show ?thesis by (auto simp: Cons_eq_append_conv)
  qed
qed simp

lemma skip_block_find: "map_option snd (skip_block s) = map_option (\<lambda>i. drop (i + 2) s) (find_str s ''*/'')"
proof (induction s rule: skip_block.induct)
  case (1 c d s)
  then show ?case
    by (cases "skip_block (d # s)"; cases "find_str (d # s) ''*/''") (auto simp: starts_with_def simp del: find_str.simps simp: find_str.simps(2) [of c])
qed (auto simp: starts_with_def)

lemma skip_block_closed: "find_str (x @ ''*/'') ''*/'' = Some (length x) \<Longrightarrow> map_option snd (skip_block (x @ ''*/'' @ s)) = Some s"
  using skip_block_find [of "x @ ''*/'' @ s"] find_str_append [of "x @ ''*/''" "''*/''" "length x" s] by simp

lemma skip_block_shape:
  assumes "skip_block s = Some (t, r)"
  shows "\<exists>x. s = x @ ''*/'' @ r \<and> find_str (x @ ''*/'') ''*/'' = Some (length x)"
proof -
  have "map_option (\<lambda>i. drop (i + 2) s) (find_str s ''*/'') = Some r" using skip_block_find [of s] assms by simp
  then obtain i where i: "find_str s ''*/'' = Some i" "r = drop (i + 2) s" by auto
  with find_str_split [OF i(1)] find_str_bound [OF i(1)] show ?thesis by (intro exI [of _ "take i s"]) simp
qed

lemma find_semicolon_quoted:
  "is_quote q \<Longrightarrow> \<not> starts_with s [q] \<Longrightarrow> find_semicolon f (q # doubled q x @ q # s) = find_semicolon f s"
  by (simp add: find_semicolon.simps(2) skip_quoted_doubled)

lemma find_semicolon_bracketed: "CHR '']'' \<notin> set x \<Longrightarrow> find_semicolon f (CHR ''['' # x @ CHR '']'' # s) = find_semicolon f s"
proof -
  assume "CHR '']'' \<notin> set x"
  then have "skip_bracketed (x @ CHR '']'' # s) = Some s" by (auto simp: skip_bracketed_shape)
  then show ?thesis
    by (simp add: find_semicolon.simps(2) is_quote_def single_quote_def double_quote_def backtick_def)
qed

lemma find_semicolon_line:
  "newline \<notin> set x \<Longrightarrow> s = [] \<or> hd s = newline \<Longrightarrow> find_semicolon f (''--'' @ x @ s) = find_semicolon f s"
proof -
  assume "newline \<notin> set x" "s = [] \<or> hd s = newline"
  then have "dropWhile (\<lambda>c. c \<noteq> newline) (x @ s) = s" by (cases s) (auto simp: dropWhile_append)
  then show ?thesis
    by (simp add: find_semicolon.simps(2) is_quote_def single_quote_def double_quote_def backtick_def starts_with_def)
qed

lemma find_semicolon_block:
  "find_str (x @ ''*/'') ''*/'' = Some (length x) \<Longrightarrow> find_semicolon f (''/*'' @ x @ ''*/'' @ s) = find_semicolon f s"
  using skip_block_closed [of x s]
  by (auto simp: find_semicolon.simps(2) is_quote_def single_quote_def double_quote_def backtick_def starts_with_def
      split: option.split)

lemma find_semicolon_plain:
  "\<not> is_quote c \<Longrightarrow> c \<noteq> CHR ''['' \<Longrightarrow> c \<noteq> CHR '';'' \<Longrightarrow> \<not> (c = CHR ''-'' \<and> starts_with s ''-'') \<Longrightarrow>
    \<not> (c = CHR ''/'' \<and> starts_with s ''*'') \<Longrightarrow> find_semicolon f (c # s) = find_semicolon f s"
  by (auto simp: find_semicolon.simps(2))

lemmas find_semicolon_past = find_semicolon_quoted find_semicolon_bracketed find_semicolon_line find_semicolon_block
  find_semicolon_plain

lemma find_semicolon_keeps: "find_semicolon (Some f) s = Inr r \<Longrightarrow> r = Some f"
proof (induction "Some f" s rule: find_semicolon.induct)
  case (2 c s)
  from 2(7) show ?case
    unfolding find_semicolon.simps(2) [of "Some f" c s]
    by (auto split: if_splits option.splits intro: 2(1-6))
qed (simp add: find_semicolon.simps(1))

lemma first_statement_found:
  "find_semicolon None s = Inr r \<Longrightarrow> first_statement s (case r of None \<Rightarrow> [] | Some rest \<Rightarrow> CHR '';'' # rest)"
proof (induction "None :: string option" s rule: find_semicolon.induct)
  case 1
  then show ?case by (auto simp: find_semicolon.simps(1) fs_end)
next
  case (2 c s)
  note found = 2(7) [unfolded find_semicolon.simps(2) [of None c s]]
  consider (quote) "is_quote c" | (bracket) "\<not> is_quote c" "c = CHR ''[''"
    | (line) "\<not> is_quote c" "c \<noteq> CHR ''[''" "c = CHR ''-'' \<and> starts_with s ''-''"
    | (block) "\<not> is_quote c" "c \<noteq> CHR ''[''" "\<not> (c = CHR ''-'' \<and> starts_with s ''-'')" "c = CHR ''/'' \<and> starts_with s ''*''"
    | (semi) "c = CHR '';''" "\<not> is_quote c"
    | (plain) "\<not> is_quote c" "c \<noteq> CHR ''[''" "\<not> (c = CHR ''-'' \<and> starts_with s ''-'')"
        "\<not> (c = CHR ''/'' \<and> starts_with s ''*'')" "c \<noteq> CHR '';''"
    by blast
  then show ?case
  proof cases
    case quote
    with found obtain t u where t: "skip_quoted c s = Some (t, u)" "find_semicolon None u = Inr r" by (auto split: option.splits)
    from skip_quoted_shape [OF t(1)] obtain x where "s = doubled c x @ c # u" "\<not> starts_with u [c]" by blast
    with fs_quoted [OF quote _ 2(1) [OF quote t(1) refl t(2)]] show ?thesis by auto
  next
    case bracket
    with found obtain u where u: "skip_bracketed s = Some u" "find_semicolon None u = Inr r" by (auto split: option.splits)
    with skip_bracketed_shape [of s u] bracket fs_bracketed [OF _ 2(2) [OF bracket u(1) u(2)]] show ?thesis by auto
  next
    case line
    let ?rest = "dropWhile (\<lambda>x. x \<noteq> newline) (drop 1 s)"
    from line obtain s1 where s: "s = CHR ''-'' # s1" by (cases s) (auto simp: starts_with_def)
    have "?rest = [] \<or> hd ?rest = newline" using hd_dropWhile [of "\<lambda>x. x \<noteq> newline" "drop 1 s"] by blast
    moreover have "newline \<notin> set (takeWhile (\<lambda>x. x \<noteq> newline) (drop 1 s))" by (auto dest: set_takeWhileD)
    ultimately show ?thesis
      using fs_line [OF _ _ 2(3) [OF line]] found line s by (metis append_Cons append_Nil drop0 drop_Suc_Cons One_nat_def takeWhile_dropWhile_id)
  next
    case block
    with found obtain t u where u: "skip_block (drop 1 s) = Some (t, u)" "find_semicolon None u = Inr r" by (auto split: option.splits)
    from skip_block_shape [OF u(1)] obtain x where x: "drop 1 s = x @ ''*/'' @ u" "find_str (x @ ''*/'') ''*/'' = Some (length x)" by blast
    moreover from block have "c # s = ''/*'' @ drop 1 s" by (cases s) (auto simp: starts_with_def)
    ultimately show ?thesis using fs_block [OF x(2) 2(4) [OF block u(1) refl u(2)]] by simp
  next
    case semi
    then have "find_semicolon (Some s) s = Inr r" using found by (auto simp: is_quote_def)
    then show ?thesis using find_semicolon_keeps fs_semi semi by fastforce
  next
    case plain
    then have "find_semicolon None s = Inr r" using found by auto
    with fs_plain [OF plain(1,2,5,3,4) 2(6) [OF plain]] show ?thesis by simp
  qed
qed

lemma first_statement_scanned:
  "first_statement s t \<Longrightarrow> find_semicolon None s = (case t of [] \<Rightarrow> Inr None | c # rest \<Rightarrow> find_semicolon (Some rest) rest)"
proof (induction rule: first_statement.induct)
  case fs_end
  then show ?case by (simp add: find_semicolon.simps(1))
next
  case (fs_semi s)
  then show ?case by (simp add: find_semicolon.simps(2) is_quote_def single_quote_def double_quote_def backtick_def)
qed (simp_all only: find_semicolon_past not_False_eq_True simp_thms)

lemma find_semicolon_white: "w \<in> set white_space \<Longrightarrow> find_semicolon f (w @ s) = find_semicolon f s"
proof -
  assume "w \<in> set white_space"
  moreover have "list_all (list_all (\<lambda>c. \<not> is_quote c \<and> c \<notin> {CHR ''['', CHR '';'', CHR ''-'', CHR ''/''})) white_space" by code_simp
  ultimately have "list_all (\<lambda>c. \<not> is_quote c \<and> c \<notin> {CHR ''['', CHR '';'', CHR ''-'', CHR ''/''}) w" by (auto simp: list_all_iff)
  then show ?thesis by (induction w) (simp_all add: find_semicolon_plain)
qed

lemma find_semicolon_noise: "noise n \<Longrightarrow> find_semicolon f (n @ s) = find_semicolon f s"
proof (induction rule: noise.induct)
  case (noise_line t n)
  have "find_semicolon f (newline # n @ s) = find_semicolon f (n @ s)"
    by (rule find_semicolon_plain) (simp_all add: newline_def is_quote_def single_quote_def double_quote_def backtick_def)
  with noise_line find_semicolon_line [of t "newline # n @ s" f] show ?case by simp
qed (use find_semicolon_white find_semicolon_block in simp_all)

lemma dash_not_white: "CHR ''-'' \<notin> set white_bytes"
  by code_simp

lemma blank_text_scanned: "blank_text s \<Longrightarrow> find_semicolon f s = Inr f \<and> skip_blank_and_comments s = []"
proof -
  assume "blank_text s"
  then obtain n x where n: "noise n" "newline \<notin> set x" "s = n \<or> s = n @ ''--'' @ x" by (auto simp: blank_text_def)
  have found: "find_semicolon f ([] :: string) = Inr f" "find_semicolon f (''--'' @ x) = Inr f"
    using find_semicolon_line [of x "[]" f] n by (simp_all add: find_semicolon.simps(1))
  have "after_newline x = None" using n(2) by (induction x) (auto simp: after_newline_def)
  moreover have "trim_start (''--'' @ x) = ''--'' @ x" by (simp add: trim_start_id dash_not_white)
  ultimately have "strip_leading_noise (''--'' @ x) = []"
    by (subst strip_leading_noise.simps) (simp add: strip_prefix_def starts_with_def)
  moreover have "strip_leading_noise [] = []" by code_simp
  ultimately show ?thesis
    using n found find_semicolon_noise [OF n(1)] strip_noise [OF n(1)] unfolding skip_is_strip_noise by (metis append_Nil2)
qed

lemma noise_append: "noise n \<Longrightarrow> noise m \<Longrightarrow> noise (n @ m)"
proof (induction rule: noise.induct)
  case (noise_white w n)
  then show ?case using noise.noise_white [of w "n @ m"] by simp
next
  case (noise_line t n)
  then show ?case using noise.noise_line [of t "n @ m"] by simp
next
  case (noise_block t n)
  then show ?case using noise.noise_block [of t "n @ m"] by simp
qed simp

definition blank_front :: "string \<Rightarrow> bool" where
  "blank_front s \<longleftrightarrow> (\<exists>n. noise n \<and> s = n @ skip_blank_and_comments s) \<or> skip_blank_and_comments s = [] \<and> blank_text s"

lemma blank_front_prefix: "noise n \<Longrightarrow> blank_front s \<Longrightarrow> blank_front (n @ s)"
  using noise_append unfolding blank_front_def blank_text_def skip_is_strip_noise
  by (simp add: strip_noise) (metis append_assoc)

lemma skip_noise_shape: "skip_blank_and_comments s \<noteq> [] \<or> find_semicolon f s = Inr f \<Longrightarrow> blank_front s"
proof (induction s rule: skip_blank_and_comments.induct)
  case (1 t)
  obtain n where n: "noise n" "t = n @ trim_start t" using trim_start_noise by blast
  consider (line) rest where "trim_start t = ''--'' @ rest" | (block) rest where "trim_start t = ''/*'' @ rest"
    | (other) "strip_prefix (trim_start t) ''--'' = None" "strip_prefix (trim_start t) ''/*'' = None"
    by (metis not_None_eq strip_prefix_Some)
  then show ?case
  proof cases
    case line
    then have p: "strip_prefix (trim_start t) ''--'' = Some rest" by (simp add: strip_prefix_Some)
    show ?thesis
    proof (cases "find_char (\<lambda>c. c = newline) rest")
      case None
      then have "newline \<notin> set rest" by (induction rest) (auto split: if_splits)
      moreover have "skip_blank_and_comments t = []"
        by (subst skip_blank_and_comments.simps) (simp add: p None)
      ultimately show ?thesis using n line unfolding blank_front_def blank_text_def by metis
    next
      case (Some nl)
      let ?r = "drop (nl + 1) rest"
      have nl: "newline \<notin> set (take nl rest)" "rest = take nl rest @ newline # ?r"
        using Some by (induction rest arbitrary: nl) (auto split: if_splits)
      have pre: "noise (n @ ''--'' @ take nl rest @ newline # [])" "t = (n @ ''--'' @ take nl rest @ newline # []) @ ?r"
        using noise_append [OF n(1) noise_line [OF nl(1) noise_nil]] n(2) line nl(2) by simp_all
      have "blank_front ?r"
        using 1(2) [OF refl p Some] 1(3) strip_noise [OF pre(1), of ?r] find_semicolon_noise [OF pre(1), of f ?r] pre(2)
        unfolding skip_is_strip_noise by simp
      with blank_front_prefix [OF pre(1)] pre(2) show ?thesis by simp
    qed
  next
    case block
    then have p: "strip_prefix (trim_start t) ''--'' = None" "strip_prefix (trim_start t) ''/*'' = Some rest"
      by (simp_all add: strip_prefix_def starts_with_def)
    show ?thesis
    proof (cases "find_str rest ''*/''")
      case None
      then have open_block: "skip_block rest = None" using skip_block_find [of rest] by simp
      have "skip_blank_and_comments t = []" by (subst skip_blank_and_comments.simps) (simp add: p None)
      moreover have "find_semicolon f t = Inl ''block comment''"
        using find_semicolon_noise [OF n(1), of f "trim_start t"] n(2) block open_block
        by (simp add: find_semicolon.simps(2) is_quote_def single_quote_def double_quote_def backtick_def starts_with_def)
      ultimately show ?thesis using 1(3) by simp
    next
      case (Some e)
      let ?x = "take e rest" and ?r = "drop (e + 2) rest"
      have e: "rest = ?x @ ''*/'' @ ?r" "find_str (?x @ ''*/'') ''*/'' = Some (length ?x)"
        using find_str_split [OF Some] find_str_bound [OF Some] by simp_all
      have pre: "noise (n @ ''/*'' @ ?x @ ''*/'' @ [])" "t = (n @ ''/*'' @ ?x @ ''*/'' @ []) @ ?r"
        using noise_append [OF n(1) noise_block [OF e(2) noise_nil]] n(2) block e(1) by simp_all
      have "blank_front ?r"
        using 1(1) [OF refl p Some] 1(3) strip_noise [OF pre(1), of ?r] find_semicolon_noise [OF pre(1), of f ?r] pre(2)
        unfolding skip_is_strip_noise by simp
      with blank_front_prefix [OF pre(1)] pre(2) show ?thesis by simp
    qed
  next
    case other
    then have "skip_blank_and_comments t = trim_start t" by (subst skip_blank_and_comments.simps) simp
    with n show ?thesis unfolding blank_front_def by metis
  qed
qed

lemma single_statement_iff: "ensure_single_statement sql obj = Inr () \<longleftrightarrow> single_statement sql"
proof
  assume ok: "ensure_single_statement sql obj = Inr ()"
  then obtain r where r: "find_semicolon None sql = Inr r" by (auto simp: ensure_single_statement_def split: sum.splits)
  note fs = first_statement_found [OF r]
  show "single_statement sql"
  proof (cases r)
    case None
    with fs show ?thesis by (simp add: single_statement_def)
  next
    case (Some rest)
    then have "skip_blank_and_comments rest = []" using ok r by (auto simp: ensure_single_statement_def split: if_splits)
    moreover have "find_semicolon (Some rest) rest = Inr (Some rest)"
      using first_statement_scanned [OF fs] r Some by simp
    ultimately have "blank_text rest" using skip_noise_shape [of rest "Some rest"] unfolding blank_front_def blank_text_def
      by (metis append_Nil2 empty_iff list.set(1))
    with fs Some show ?thesis by (auto simp: single_statement_def)
  qed
next
  assume "single_statement sql"
  then consider "first_statement sql []" | rest where "first_statement sql (CHR '';'' # rest)" "blank_text rest"
    by (auto simp: single_statement_def)
  then show "ensure_single_statement sql obj = Inr ()"
    by cases (auto simp: ensure_single_statement_def first_statement_scanned blank_text_scanned)
qed

lemma dropWhile_stops: "case dropWhile P s of [] \<Rightarrow> True | c # _ \<Rightarrow> \<not> P c"
  by (induction s) auto

lemma front_words_iff: "[] \<notin> set kws \<Longrightarrow> length kws \<le> n \<Longrightarrow> front_words kws s \<longleftrightarrow> take (length kws) (leading_words n s) = kws"
proof (induction kws arbitrary: n s)
  case (Cons kw kws)
  then obtain k where n: "n = Suc k" "length kws \<le> k" by (cases n) auto
  let ?s = "skip_blank_and_comments s" and ?len = "length (takeWhile is_ascii_alphabetic (skip_blank_and_comments s))"
  have words: "leading_words n s = (if ?len = 0 then [] else to_ascii_uppercase (take ?len ?s) # leading_words k (drop ?len ?s))"
    by (simp add: n Let_def)
  show ?case
  proof
    assume "front_words (kw # kws) s"
    then obtain m w r where m: "noise m" "keyword_at kw w r" "s = m @ w @ r" "front_words kws r" by auto
    have s: "?s = w @ r" using strip_noise [OF m(1)] keyword_at_word(2) [OF m(2)] by (simp add: skip_is_strip_noise m(3))
    have w: "takeWhile is_ascii_alphabetic (w @ r) = w" "w \<noteq> []" "to_ascii_uppercase w = kw"
      using m(2) keyword_at_word(3) [OF m(2)] by (cases r; auto simp: keyword_at_def)+
    then have "leading_words n s = kw # leading_words k r" unfolding words s by simp
    with Cons m(4) n(2) show "take (length (kw # kws)) (leading_words n s) = kw # kws" by simp
  next
    assume lead: "take (length (kw # kws)) (leading_words n s) = kw # kws"
    then have len: "?len \<noteq> 0" using words by (auto split: if_splits)
    with lead have kw: "to_ascii_uppercase (take ?len ?s) = kw" "take (length kws) (leading_words k (drop ?len ?s)) = kws"
      using words by simp_all
    have "?s \<noteq> []" using len by auto
    then obtain m where m: "noise m" "s = m @ ?s" using skip_noise_shape [of s None] by (auto simp: blank_front_def)
    have "keyword_at kw (take ?len ?s) (drop ?len ?s)"
      using Cons(2) kw(1) dropWhile_stops [of is_ascii_alphabetic ?s]
      by (auto simp: keyword_at_def takeWhile_eq_take [symmetric] dropWhile_eq_drop [symmetric] dest: set_takeWhileD)
    moreover have "front_words kws (drop ?len ?s)" using Cons kw(2) n(2) by simp
    ultimately show "front_words (kw # kws) s" using m by (metis front_words.simps(2) append_take_drop_id)
  qed
qed simp

lemma classify_leading_iff: "classify_leading_keywords sql = Inr obj \<longleftrightarrow> creates obj sql"
proof -
  let ?words = "leading_words 3 sql"
  have "classify_leading_keywords sql = Inr obj \<longleftrightarrow>
      take 2 ?words = [''CREATE'', as_str obj] \<or> obj = Index \<and> take 3 ?words = [''CREATE'', ''UNIQUE'', ''INDEX'']"
    unfolding classify_leading_keywords_def leading_keywords_def Let_def
    by (cases obj) (auto simp: numeral_2_eq_2 numeral_3_eq_3 split: list.splits if_splits)
  also have "\<dots> \<longleftrightarrow> creates obj sql"
    unfolding creates_def using front_words_iff [of "[''CREATE'', as_str obj]" 3 sql]
      front_words_iff [of "[''CREATE'', ''UNIQUE'', ''INDEX'']" 3 sql]
    by (cases obj) (simp_all add: numeral_2_eq_2 numeral_3_eq_3 del: front_words.simps)
  finally show ?thesis .
qed

text \<open>
  Property C15 (replayed schema changes are one CREATE). A schema text from a peer is accepted as the creation
  of an object exactly when, behind any white space and comments and in any case, it starts with
  \<^verbatim>\<open>CREATE\<close> and the keyword of that object (\<^verbatim>\<open>UNIQUE\<close> allowed before \<^verbatim>\<open>INDEX\<close> only) and, unless it is
  a trigger, which is never executed, it is a single statement: every quoted text, bracketed identifier and
  comment is closed, and nothing but white space and comments follows the first semicolon outside them.
  So no \<^verbatim>\<open>ATTACH\<close>, \<^verbatim>\<open>PRAGMA\<close>, \<^verbatim>\<open>DROP\<close> or second statement reaches the engine.
\<close>

theorem replayed_ddl_is_one_create:
  "classify_replayed_ddl sql = Inr obj \<longleftrightarrow> creates obj sql \<and> (obj = Trigger \<or> single_statement sql)"
  unfolding classify_leading_iff [symmetric] single_statement_iff [of sql obj, symmetric]
  by (auto simp: classify_replayed_ddl_def split: sum.splits)

end
