(* ===== verification/Sqlite_Record.thy ===== *)
theory Sqlite_Record
  imports Backend_Value Utf8
begin

unbundle bit_operations_syntax

text \<open>
  The decoder of SQLite record blobs in \<^verbatim>\<open>src/crates/litewire-turso/src/cdc.rs\<close>: varints, serial types and
  the values they announce. Every index and slice is checked, so a blob that would make the decoder panic is
  a value of the model. The encoder of the record format the decoder is proved against is the
  specification at the end.
\<close>

section \<open>Fallible steps\<close>

type_synonym 'a step = "(backend_error + 'a) rust_result"

definition ok_then :: "'a step \<Rightarrow> ('a \<Rightarrow> 'b step) \<Rightarrow> 'b step" where
  "ok_then x f = rbind x (\<lambda>r. case r of Inl e \<Rightarrow> Returns (Inl e) | Inr v \<Rightarrow> f v)"

lemma ok_then_simps [simp]: "ok_then (Returns (Inr v)) f = f v" "ok_then (Returns (Inl e)) f = Returns (Inl e)" "ok_then Panics f = Panics"
  by (simp_all add: ok_then_def)

section \<open>Varints\<close>

text \<open>The \<^verbatim>\<open>for i in 0..9\<close> loop with \<open>k\<close> rounds to go; after them the code is unreachable.\<close>

fun varint_loop :: "nat \<Rightarrow> bytes \<Rightarrow> nat \<Rightarrow> nat \<Rightarrow> u64 \<Rightarrow> (u64 \<times> nat) step" where
  "varint_loop 0 blob start pos result = Panics"
| "varint_loop (Suc k) blob start pos result =
     (if length blob \<le> pos then Returns (Inl (Other ''sqlite record: truncated varint''))
      else rbind (elem_at blob pos) (\<lambda>byte.
        if 0 < k then
          (let result' = push_bit 7 result OR ucast (byte AND 0x7F)
           in if byte AND 0x80 = 0 then Returns (Inr (result', pos + 1 - start))
              else varint_loop k blob start (pos + 1) result')
        else Returns (Inr (push_bit 8 result OR ucast byte, pos + 1 - start))))"

definition read_varint :: "bytes \<Rightarrow> nat \<Rightarrow> (u64 \<times> nat) step" where
  "read_varint blob pos = varint_loop 9 blob pos pos 0"

section \<open>Values\<close>

definition ensure :: "bytes \<Rightarrow> nat \<Rightarrow> nat \<Rightarrow> unit step" where
  "ensure blob pos n =
     (if length blob < pos + n
      then Returns (Inl (Other (''sqlite record: truncated body (need '' @ show_nat n @ '' at '' @ show_nat pos
             @ '', have '' @ show_nat (length blob) @ '')'')))
      else Returns (Inr ()))"

definition bytes_at :: "bytes \<Rightarrow> nat \<Rightarrow> nat \<Rightarrow> bytes step" where
  "bytes_at blob pos n = rbind (slice_of blob pos (pos + n)) (\<lambda>bs. Returns (Inr bs))"

definition int24 :: "bytes \<Rightarrow> u64" where
  "int24 bs =
     (let hi = scast (bs ! 0) :: u32;
          v = push_bit 16 hi OR push_bit 8 (ucast (bs ! 1)) OR ucast (bs ! 2)
      in scast v)"

definition int48 :: "bytes \<Rightarrow> u64" where
  "int48 bs =
     (let hi = scast (bs ! 0) :: u64 in
      fold (\<lambda>(i, b) v. v OR push_bit (32 - i * 8) (ucast b)) (enumerate 0 (take 5 (drop 1 bs))) (push_bit 40 hi))"

definition decode_serial :: "bytes \<Rightarrow> nat \<Rightarrow> u64 \<Rightarrow> (backend_value \<times> nat) step" where
  "decode_serial blob pos serial =
     (let fixed = (\<lambda>n f. ok_then (ensure blob pos n) (\<lambda>_. ok_then (bytes_at blob pos n) (\<lambda>bs. Returns (Inr (f bs, n))))) in
      if serial = 0 then Returns (Inr (Null, 0))
      else if serial = 1 then fixed 1 (\<lambda>bs. Integer (scast (bs ! 0)))
      else if serial = 2 then fixed 2 (\<lambda>bs. Integer (scast (of_be_bytes bs :: u16)))
      else if serial = 3 then fixed 3 (\<lambda>bs. Integer (int24 bs))
      else if serial = 4 then fixed 4 (\<lambda>bs. Integer (scast (of_be_bytes bs :: u32)))
      else if serial = 5 then fixed 6 (\<lambda>bs. Integer (int48 bs))
      else if serial = 6 then fixed 8 (\<lambda>bs. Integer (of_be_bytes bs))
      else if serial = 7 then fixed 8 (\<lambda>bs. Float (of_be_bytes bs))
      else if serial = 8 then Returns (Inr (Integer 0, 0))
      else if serial = 9 then Returns (Inr (Integer 1, 0))
      else if serial = 10 \<or> serial = 11 then
        Returns (Inl (Other (''sqlite record: reserved serial type '' @ show_nat (unat serial))))
      else if 12 \<le> serial \<and> even (unat serial) then
        (let len = unat ((serial - 12) div 2) in
         ok_then (ensure blob pos len) (\<lambda>_. ok_then (bytes_at blob pos len) (\<lambda>bs. Returns (Inr (Blob bs, len)))))
      else if 13 \<le> serial \<and> odd (unat serial) then
        (let len = unat ((serial - 13) div 2) in
         ok_then (ensure blob pos len) (\<lambda>_. ok_then (bytes_at blob pos len) (\<lambda>bs.
           case from_utf8 bs of
             Inl e \<Rightarrow> Returns (Inl (Other (''sqlite record: invalid utf8: '' @ utf8_error_text e)))
           | Inr s \<Rightarrow> Returns (Inr (Text s, len)))))
      else Panics)"

section \<open>Records\<close>

text \<open>The loop over the header: one varint per column. \<open>read_varint\<close> consumes at least one byte.\<close>

function serial_types :: "bytes \<Rightarrow> nat \<Rightarrow> nat \<Rightarrow> u64 list step" where
  "serial_types blob header_end pos =
     (if pos < header_end then
        (case read_varint blob pos of
           Panics \<Rightarrow> Panics
         | Returns (Inl e) \<Rightarrow> Returns (Inl e)
         | Returns (Inr (st, n)) \<Rightarrow>
             if n = 0 then Panics
             else ok_then (serial_types blob header_end (pos + n)) (\<lambda>sts. Returns (Inr (st # sts))))
      else Returns (Inr []))"
  by pat_completeness auto
termination by (relation "measure (\<lambda>(blob, e, p). e - p)") auto

declare serial_types.simps [simp del]

fun decode_values :: "bytes \<Rightarrow> nat \<Rightarrow> u64 list \<Rightarrow> backend_value list step" where
  "decode_values blob body [] = Returns (Inr [])"
| "decode_values blob body (st # sts) =
     ok_then (decode_serial blob body st) (\<lambda>(v, consumed).
       ok_then (decode_values blob (body + consumed) sts) (\<lambda>vs. Returns (Inr (v # vs))))"

definition decode_sqlite_record :: "bytes \<Rightarrow> backend_value list step" where
  "decode_sqlite_record blob =
     ok_then (read_varint blob 0) (\<lambda>(header_len, n).
       let header_end = unat header_len in
       if length blob < header_end then
         Returns (Inl (Other (''sqlite record: header length '' @ show_nat header_end @ '' > blob length ''
           @ show_nat (length blob))))
       else ok_then (serial_types blob header_end n) (\<lambda>sts. decode_values blob header_end sts))"

section \<open>The record format\<close>

text \<open>
  A varint: continuation bytes of seven bits each, most significant first, then the last byte; a value that
  needs more than 56 bits has eight continuation bytes and a full last one.
\<close>

fun more_bytes :: "nat \<Rightarrow> u64 \<Rightarrow> bytes" where
  "more_bytes 0 w = []"
| "more_bytes (Suc i) w = more_bytes i (drop_bit 7 w) @ [0x80 OR ucast (take_bit 7 w)]"

definition varint :: "u64 \<Rightarrow> bytes" where
  "varint w =
     (case find (\<lambda>k. drop_bit (7 * Suc k) w = 0) [0..<8] of
        Some k \<Rightarrow> more_bytes k (drop_bit 7 w) @ [ucast (take_bit 7 w)]
      | None \<Rightarrow> more_bytes 8 (drop_bit 8 w) @ [ucast w])"

text \<open>The serial types a value can be stored with, and its bytes.\<close>

definition int_stored :: "u64 \<Rightarrow> nat \<Rightarrow> bytes \<Rightarrow> bool" where
  "int_stored w k body \<longleftrightarrow> body = be_bytes k w \<and> signed_take_bit (8 * k - 1) w = w"

fun stored_as :: "backend_value \<Rightarrow> u64 \<Rightarrow> bytes \<Rightarrow> bool" where
  "stored_as Null serial body \<longleftrightarrow> serial = 0 \<and> body = []"
| "stored_as (Integer w) serial body \<longleftrightarrow>
     serial = 8 \<and> w = 0 \<and> body = [] \<or> serial = 9 \<and> w = 1 \<and> body = [] \<or>
     serial = 1 \<and> int_stored w 1 body \<or> serial = 2 \<and> int_stored w 2 body \<or> serial = 3 \<and> int_stored w 3 body \<or>
     serial = 4 \<and> int_stored w 4 body \<or> serial = 5 \<and> int_stored w 6 body \<or> serial = 6 \<and> int_stored w 8 body"
| "stored_as (Float f) serial body \<longleftrightarrow> serial = 7 \<and> body = be_bytes 8 f"
| "stored_as (Blob b) serial body \<longleftrightarrow> length b < 2 ^ 62 \<and> serial = of_nat (12 + 2 * length b) \<and> body = b"
| "stored_as (Text s) serial body \<longleftrightarrow>
     length s < 2 ^ 62 \<and> serial = of_nat (13 + 2 * length s) \<and> body = bytes_of_string s \<and> utf8_error 0 body = None"

section \<open>Varints are read back\<close>

lemma low_mask: "(0x7F :: u8) = mask 7"
  by (simp add: mask_eq_exp_minus_1)

lemma high_bit: "bit (0x80 :: u8) n \<longleftrightarrow> n = 7"
proof -
  have "(0x80 :: u8) = push_bit 7 1" by simp
  then show ?thesis by (simp only: bit_push_bit_iff bit_1_iff) auto
qed

lemma continuation_byte:
  "ucast ((0x80 OR ucast (take_bit 7 w) :: u8) AND 0x7F) = take_bit 7 (w :: u64)"
  "(0x80 OR ucast (take_bit 7 w) :: u8) AND 0x80 \<noteq> 0"
proof -
  show "ucast ((0x80 OR ucast (take_bit 7 w) :: u8) AND 0x7F) = take_bit 7 w"
    unfolding low_mask
    by (rule bit_word_eqI)
      (simp only: bit_ucast_iff bit_and_iff bit_or_iff bit_mask_iff bit_take_bit_iff high_bit,
        auto)
  have "bit ((0x80 OR ucast (take_bit 7 w) :: u8) AND 0x80) 7"
    by (simp only: bit_and_iff bit_or_iff high_bit) simp
  then show "(0x80 OR ucast (take_bit 7 w) :: u8) AND 0x80 \<noteq> 0" by (metis bit_0_eq bot_apply bot_bool_def)
qed

lemma last_byte:
  "ucast ((ucast (take_bit 7 w) :: u8) AND 0x7F) = take_bit 7 (w :: u64)" "(ucast (take_bit 7 w) :: u8) AND 0x80 = 0"
proof -
  show "ucast ((ucast (take_bit 7 w) :: u8) AND 0x7F) = take_bit 7 w"
    unfolding low_mask by (rule bit_word_eqI) (auto simp: bit_simps)
  show "(ucast (take_bit 7 w) :: u8) AND 0x80 = 0"
    by (rule bit_word_eqI) (simp only: bit_and_iff high_bit bit_ucast_iff bit_take_bit_iff bit_0_eq bot_apply bot_bool_def, auto)
qed

lemma varint_step:
  assumes "elem_at blob pos = Returns b" and "0 < k"
  shows "varint_loop (Suc k) blob start pos r =
    (let r' = push_bit 7 r OR ucast (b AND 0x7F)
     in if b AND 0x80 = 0 then Returns (Inr (r', pos + 1 - start)) else varint_loop k blob start (pos + 1) r')"
proof -
  have "pos < length blob" using assms(1) by (auto simp: elem_at_def split: if_splits)
  with assms show ?thesis by (simp only: varint_loop.simps rbind_simps) simp
qed

lemma varint_ninth:
  assumes "elem_at blob pos = Returns b"
  shows "varint_loop (Suc 0) blob start pos r = Returns (Inr (push_bit 8 r OR ucast b, pos + 1 - start))"
proof -
  have "pos < length blob" using assms by (auto simp: elem_at_def split: if_splits)
  with assms show ?thesis by simp
qed

lemma length_more_bytes [simp]: "length (more_bytes i w) = i"
  by (induction i arbitrary: w) auto

lemma varint_loop_more:
  assumes "0 < k" and "pos = length p"
  shows "varint_loop (i + k) (p @ more_bytes i v @ t) start pos r =
    varint_loop k (p @ more_bytes i v @ t) start (pos + i) (push_bit (7 * i) r OR take_bit (7 * i) v)"
  using assms(1)
proof (induction i arbitrary: v t k)
  case (Suc i)
  let ?b = "0x80 OR ucast (take_bit 7 v) :: u8"
  let ?blob = "p @ more_bytes i (drop_bit 7 v) @ ?b # t"
  let ?r = "push_bit (7 * i) r OR take_bit (7 * i) (drop_bit 7 v)"
  have at: "elem_at ?blob (pos + i) = Returns ?b" using assms(2) by (simp add: elem_at_def nth_append)
  have bits: "push_bit 7 ?r OR take_bit 7 v = push_bit (7 * Suc i) r OR take_bit (7 * Suc i) v"
    by (rule bit_word_eqI) (auto simp: bit_simps)
  have "varint_loop (i + Suc k) ?blob start pos r = varint_loop (Suc k) ?blob start (pos + i) ?r"
    using Suc.IH [of "Suc k" "drop_bit 7 v" "?b # t"] by simp
  also have "\<dots> = varint_loop k ?blob start (pos + i + 1) (push_bit (7 * Suc i) r OR take_bit (7 * Suc i) v)"
    by (simp only: varint_step [OF at Suc.prems] Let_def continuation_byte bits if_False)
  finally show ?case by simp
qed simp

lemma read_varint_back:
  assumes "pos = length p"
  shows "read_varint (p @ varint w @ t) pos = Returns (Inr (w, length (varint w)))"
proof (cases "find (\<lambda>k. drop_bit (7 * Suc k) w = 0) [0..<8]")
  case (Some k)
  then have k: "k < 8" "drop_bit (7 * Suc k) w = 0" by (auto simp: find_Some_iff)
  let ?l = "ucast (take_bit 7 w) :: u8"
  let ?blob = "p @ more_bytes k (drop_bit 7 w) @ ?l # t"
  have v: "varint w = more_bytes k (drop_bit 7 w) @ [?l]" unfolding varint_def Some by simp
  have "push_bit 7 (push_bit (7 * k) 0 OR take_bit (7 * k) (drop_bit 7 w)) OR take_bit 7 w = take_bit (7 * Suc k) w"
    by (rule bit_word_eqI) (auto simp: bit_simps)
  also have "\<dots> = w" using k(2) bits_ident [of "7 * Suc k" w] by (simp only: push_bit_of_0 add_0)
  finally have bits: "push_bit 7 (push_bit (7 * k) 0 OR take_bit (7 * k) (drop_bit 7 w)) OR take_bit 7 w = w" .
  have at: "elem_at ?blob (pos + k) = Returns ?l" using assms by (simp add: elem_at_def nth_append)
  have "varint_loop (k + Suc (8 - k)) ?blob pos pos 0 = Returns (Inr (w, pos + k + 1 - pos))"
    using varint_loop_more [of "Suc (8 - k)" pos p k "drop_bit 7 w" "?l # t" pos 0] assms k(1)
      varint_step [OF at, of "8 - k" pos "push_bit (7 * k) 0 OR take_bit (7 * k) (drop_bit 7 w)"]
    by (simp only: last_byte Let_def bits if_True) simp
  moreover have "k + Suc (8 - k) = 9" using k(1) by simp
  ultimately show ?thesis by (simp add: read_varint_def v)
next
  case None
  let ?l = "ucast w :: u8"
  let ?blob = "p @ more_bytes 8 (drop_bit 8 w) @ ?l # t"
  have v: "varint w = more_bytes 8 (drop_bit 8 w) @ [?l]" unfolding varint_def None by simp
  have bits: "push_bit 8 (push_bit 56 0 OR take_bit 56 (drop_bit 8 w)) OR ucast ?l = w"
    by (rule bit_word_eqI) (auto simp: bit_simps)
  have at: "elem_at ?blob (pos + 8) = Returns ?l" using assms by (simp add: elem_at_def nth_append)
  have "varint_loop (8 + Suc 0) ?blob pos pos 0 = Returns (Inr (w, pos + 8 + 1 - pos))"
    using varint_loop_more [of "Suc 0" pos p 8 "drop_bit 8 w" "?l # t" pos 0] assms
      varint_ninth [OF at, of pos "push_bit 56 0 OR take_bit 56 (drop_bit 8 w)"] bits by simp
  then show ?thesis by (simp add: read_varint_def v)
qed

section \<open>Values are read back\<close>

lemma be_bytes_words:
  "be_bytes 1 w = [ucast w]"
  "be_bytes 2 w = [ucast (drop_bit 8 w), ucast w]"
  "be_bytes 3 w = [ucast (drop_bit 16 w), ucast (drop_bit 8 w), ucast w]"
  "be_bytes 4 w = [ucast (drop_bit 24 w), ucast (drop_bit 16 w), ucast (drop_bit 8 w), ucast w]"
  "be_bytes 6 w = [ucast (drop_bit 40 w), ucast (drop_bit 32 w), ucast (drop_bit 24 w), ucast (drop_bit 16 w),
                   ucast (drop_bit 8 w), ucast w]"
  for w :: u64
  by (simp_all add: be_bytes_def eval_nat_numeral)

lemma int48_split:
  "int48 (be_bytes 6 w) = push_bit 40 (scast (ucast (drop_bit 40 w) :: u8)) OR take_bit 40 w" for w :: u64
proof -
  have "int48 [b0, b1, b2, b3, b4, b5] = push_bit 40 (scast b0) OR of_be_bytes [b1, b2, b3, b4, b5]" for b0 b1 b2 b3 b4 b5
    by (simp add: int48_def of_be_bytes_def Let_def ac_simps)
  moreover have "be_bytes 5 w = [ucast (drop_bit 32 w), ucast (drop_bit 24 w), ucast (drop_bit 16 w), ucast (drop_bit 8 w), ucast w]"
    by (simp add: be_bytes_def eval_nat_numeral)
  moreover have "of_be_bytes (be_bytes 5 w) = take_bit 40 w"
    by (simp add: of_be_bytes_def be_bytes_def of_le_bytes_le_bytes)
  ultimately show ?thesis by (simp add: be_bytes_words)
qed

lemma int_back:
  "scast (be_bytes 1 w ! 0) = signed_take_bit 7 w"
  "scast (of_be_bytes (be_bytes 2 w) :: u16) = signed_take_bit 15 w"
  "int24 (be_bytes 3 w) = signed_take_bit 23 w"
  "scast (of_be_bytes (be_bytes 4 w) :: u32) = signed_take_bit 31 w"
  "int48 (be_bytes 6 w) = signed_take_bit 47 w"
  for w :: u64
proof -
  show "scast (be_bytes 1 w ! 0) = signed_take_bit 7 w"
    unfolding be_bytes_words by (rule bit_word_eqI) (auto simp: bit_simps min_def)
  show "scast (of_be_bytes (be_bytes 2 w) :: u16) = signed_take_bit 15 w"
    unfolding be_bytes_words by (rule bit_word_eqI) (auto simp: bit_simps min_def of_be_bytes_def)
  show "int24 (be_bytes 3 w) = signed_take_bit 23 w"
    unfolding be_bytes_words
  proof (rule bit_word_eqI)
    fix n
    show "bit (int24 [ucast (drop_bit 16 w), ucast (drop_bit 8 w), ucast w]) n = bit (signed_take_bit 23 w) n"
      if "n < LENGTH(64)"
      using that by (cases "16 \<le> n") (auto simp: bit_simps min_def int24_def Let_def)
  qed
  show "scast (of_be_bytes (be_bytes 4 w) :: u32) = signed_take_bit 31 w"
    unfolding be_bytes_words
  proof (rule bit_word_eqI)
    fix n
    show "bit (scast (of_be_bytes [ucast (drop_bit 24 w), ucast (drop_bit 16 w), ucast (drop_bit 8 w), ucast w] :: u32) :: u64) n
        = bit (signed_take_bit 31 w) n"
      if "n < LENGTH(64)"
      using that by (cases "24 \<le> n"; cases "16 \<le> n") (auto simp: bit_simps min_def of_be_bytes_def)
  qed
  show "int48 (be_bytes 6 w) = signed_take_bit 47 w"
    using int48_split [of w] by (simp only:) (rule bit_word_eqI, auto simp: bit_simps min_def)
qed

lemma ensure_ok: "pos + n \<le> length blob \<Longrightarrow> ensure blob pos n = Returns (Inr ())"
  by (simp add: ensure_def)

lemma bytes_at_back: "pos = length p \<Longrightarrow> n = length b \<Longrightarrow> bytes_at (p @ b @ t) pos n = Returns (Inr b)"
  by (simp add: bytes_at_def slice_of_def)

lemma fixed_back:
  assumes "pos = length p" and "length b = n"
  shows "ok_then (ensure (p @ b @ t) pos n) (\<lambda>_. ok_then (bytes_at (p @ b @ t) pos n) (\<lambda>bs. Returns (Inr (f bs, n)))) =
    Returns (Inr (f b, n))"
  using assms bytes_at_back [of pos p n b t] by (simp add: ensure_ok)

lemma long_serial:
  assumes "l < 2 ^ 62"
  shows "unat (of_nat (12 + 2 * l) :: u64) = 12 + 2 * l" "unat (of_nat (13 + 2 * l) :: u64) = 13 + 2 * l"
    "unat ((of_nat (12 + 2 * l) - 12 :: u64) div 2) = l" "unat ((of_nat (13 + 2 * l) - 13 :: u64) div 2) = l"
proof -
  show a: "unat (of_nat (12 + 2 * l) :: u64) = 12 + 2 * l" "unat (of_nat (13 + 2 * l) :: u64) = 13 + 2 * l"
    using assms by (simp_all add: unsigned_of_nat take_bit_nat_eq_self del: of_nat_add)
  have "of_nat (12 + 2 * l) - 12 = (of_nat (2 * l) :: u64)" "of_nat (13 + 2 * l) - 13 = (of_nat (2 * l) :: u64)"
    by simp_all
  moreover have "unat (of_nat (2 * l) :: u64) = 2 * l"
    using assms by (simp add: unsigned_of_nat take_bit_nat_eq_self del: of_nat_mult)
  ultimately show "unat ((of_nat (12 + 2 * l) - 12 :: u64) div 2) = l" "unat ((of_nat (13 + 2 * l) - 13 :: u64) div 2) = l"
    by (simp_all only: unat_div) simp_all
qed

lemma decode_long:
  assumes "12 \<le> unat serial"
  shows "decode_serial blob pos serial =
    (if even (unat serial) then
       (let len = unat ((serial - 12) div 2) in
        ok_then (ensure blob pos len) (\<lambda>_. ok_then (bytes_at blob pos len) (\<lambda>bs. Returns (Inr (Blob bs, len)))))
     else
       (let len = unat ((serial - 13) div 2) in
        ok_then (ensure blob pos len) (\<lambda>_. ok_then (bytes_at blob pos len) (\<lambda>bs.
          case from_utf8 bs of
            Inl e \<Rightarrow> Returns (Inl (Other (''sqlite record: invalid utf8: '' @ utf8_error_text e)))
          | Inr s \<Rightarrow> Returns (Inr (Text s, len))))))"
proof -
  have "serial \<noteq> 0" "serial \<noteq> 1" "serial \<noteq> 2" "serial \<noteq> 3" "serial \<noteq> 4" "serial \<noteq> 5" "serial \<noteq> 6" "serial \<noteq> 7"
    "serial \<noteq> 8" "serial \<noteq> 9" "serial \<noteq> 10" "serial \<noteq> 11" "12 \<le> serial"
    using assms by (auto simp: word_le_nat_alt)
  moreover have "13 \<le> serial" if "odd (unat serial)"
    using assms that by (cases "unat serial = 12") (auto simp: word_le_nat_alt)
  ultimately show ?thesis unfolding decode_serial_def Let_def by (simp only: if_False simp_thms) simp
qed

lemma decode_serial_back:
  assumes "stored_as v serial body" and "pos = length p"
  shows "decode_serial (p @ body @ t) pos serial = Returns (Inr (v, length body))"
proof (cases v)
  case Null
  with assms show ?thesis by (simp add: decode_serial_def)
next
  case (Integer w)
  have len: "length (be_bytes k w) = k" for k by simp
  have eight: "of_be_bytes (be_bytes 8 w) = w" by (rule be_bytes_inverse) simp
  show ?thesis
    using assms Integer int_back [of w]
    by (auto simp: decode_serial_def int_stored_def fixed_back eight Let_def)
next
  case (Float f)
  have "of_be_bytes (be_bytes 8 f) = f" by (rule be_bytes_inverse) simp
  with assms Float show ?thesis by (simp add: decode_serial_def fixed_back Let_def)
next
  case (Blob b)
  with assms long_serial [of "length b"] fixed_back [of pos p b "length b" t Blob] show ?thesis
    by (simp add: decode_long Let_def del: of_nat_add of_nat_mult)
next
  case (Text s)
  let ?b = "bytes_of_string s"
  have "length ?b = length s" by (simp add: bytes_of_string_def)
  moreover have "from_utf8 ?b = Inr s" using assms(1) Text by (auto simp: from_utf8_def string_of_bytes_of_string)
  ultimately have "length ?b = length s" "from_utf8 ?b = Inr s" by blast+
  with assms Text long_serial [of "length s"] bytes_at_back [of pos p "length s" ?b t] show ?thesis
    by (simp add: decode_long ensure_ok Let_def del: of_nat_add of_nat_mult)
qed

section \<open>Records are read back\<close>

lemma varint_nonempty [simp]: "varint w \<noteq> []"
  by (simp add: varint_def split: option.split)

lemma serial_types_back:
  assumes "pos = length p" and "header_end = pos + length (concat (map varint sts))"
  shows "serial_types (p @ concat (map varint sts) @ t) header_end pos = Returns (Inr sts)"
  using assms
proof (induction sts arbitrary: p pos)
  case Nil
  then show ?case by (simp add: serial_types.simps)
next
  case (Cons st sts)
  have "serial_types (p @ concat (map varint (st # sts)) @ t) header_end (pos + length (varint st)) = Returns (Inr sts)"
    using Cons.IH [of "pos + length (varint st)" "p @ varint st"] Cons.prems by simp
  moreover have "read_varint (p @ concat (map varint (st # sts)) @ t) pos = Returns (Inr (st, length (varint st)))"
    using read_varint_back [of pos p st "concat (map varint sts) @ t"] Cons.prems(1) by simp
  ultimately show ?case
    using Cons.prems by (subst serial_types.simps) simp
qed

definition column_ok :: "backend_value \<times> u64 \<times> bytes \<Rightarrow> bool" where
  "column_ok c \<longleftrightarrow> stored_as (fst c) (fst (snd c)) (snd (snd c))"

lemma decode_values_back:
  assumes "list_all column_ok cols" and "pos = length p"
  shows "decode_values (p @ concat (map (\<lambda>c. snd (snd c)) cols) @ t) pos (map (\<lambda>c. fst (snd c)) cols) = Returns (Inr (map fst cols))"
  using assms
proof (induction cols arbitrary: p pos)
  case (Cons c cols)
  obtain v st body where c: "c = (v, st, body)" by (cases c)
  have "decode_serial (p @ body @ concat (map (\<lambda>c. snd (snd c)) cols) @ t) pos st = Returns (Inr (v, length body))"
    by (rule decode_serial_back) (use Cons.prems in \<open>simp_all add: c column_ok_def\<close>)
  moreover have "decode_values (p @ body @ concat (map (\<lambda>c. snd (snd c)) cols) @ t) (pos + length body) (map (\<lambda>c. fst (snd c)) cols)
      = Returns (Inr (map fst cols))"
    using Cons.IH [of "pos + length body" "p @ body"] Cons.prems by simp
  ultimately show ?case by (simp add: c)
qed simp

section \<open>No blob makes the decoder panic\<close>

lemma varint_loop_returns: "0 < k \<Longrightarrow> varint_loop k blob start pos r \<noteq> Panics"
proof (induction k arbitrary: pos r)
  case (Suc k)
  then show ?case by (cases "pos < length blob") (auto simp: elem_at_def Let_def)
qed simp

lemma varint_loop_progress:
  "start \<le> pos \<Longrightarrow> varint_loop k blob start pos r = Returns (Inr (w, n)) \<Longrightarrow> 0 < n"
proof (induction k arbitrary: pos r)
  case (Suc k)
  then show ?case
    using Suc.IH [of "pos + 1"] by (cases "pos < length blob") (auto simp: elem_at_def Let_def split: if_splits)
qed simp

lemma read_varint_returns: "read_varint blob pos \<noteq> Panics" "read_varint blob pos = Returns (Inr (w, n)) \<Longrightarrow> 0 < n"
  using varint_loop_returns [of 9 blob pos pos 0] varint_loop_progress [of pos pos 9 blob 0 w n] by (simp_all add: read_varint_def)

lemma body_returns:
  assumes "\<And>bs. f bs \<noteq> Panics"
  shows "ok_then (ensure blob pos n) (\<lambda>_. ok_then (bytes_at blob pos n) f) \<noteq> Panics"
  using assms by (cases "length blob < pos + n") (auto simp: ensure_def bytes_at_def slice_of_def)

lemma unat_numeralD: "unat w = numeral k \<Longrightarrow> w = numeral k" for w :: "'a::len word"
proof -
  assume "unat w = numeral k"
  then have "(of_nat (unat w) :: 'a word) = of_nat (numeral k)" by simp
  then show ?thesis by simp
qed

lemma small_serial: "unat serial < 12 \<Longrightarrow> serial \<in> {0, 1, 2, 3, 4, 5, 6, 7, 8, 9, 10, 11}" for serial :: u64
proof -
  assume "unat serial < 12"
  then have "unat serial = 0 \<or> unat serial = 1 \<or> unat serial = 2 \<or> unat serial = 3 \<or> unat serial = 4 \<or> unat serial = 5 \<or>
      unat serial = 6 \<or> unat serial = 7 \<or> unat serial = 8 \<or> unat serial = 9 \<or> unat serial = 10 \<or> unat serial = 11"
    by arith
  moreover have "serial = 1" if "unat serial = 1"
  proof -
    have "(of_nat (unat serial) :: u64) = of_nat 1" by (simp only: that)
    then show ?thesis by simp
  qed
  moreover have "unat serial = 0 \<Longrightarrow> serial = 0" by (simp only: unsigned_eq_0_iff)
  ultimately show ?thesis by (elim disjE) (auto dest!: unat_numeralD)
qed

lemma decode_serial_returns: "decode_serial blob pos serial \<noteq> Panics"
proof (cases "12 \<le> unat serial")
  case True
  then show ?thesis
    by (simp add: decode_long body_returns Let_def split: sum.split)
next
  case False
  then have "serial \<in> {0, 1, 2, 3, 4, 5, 6, 7, 8, 9, 10, 11}" by (intro small_serial) simp
  then show ?thesis by (auto simp: decode_serial_def Let_def body_returns)
qed

lemma serial_types_returns: "serial_types blob header_end pos \<noteq> Panics"
proof (induction blob header_end pos rule: serial_types.induct)
  case (1 blob header_end pos)
  show ?case
  proof (cases "pos < header_end")
    case True
    show ?thesis
    proof (cases "read_varint blob pos")
      case (Returns r)
      show ?thesis
      proof (cases r)
        case (Inr x)
        obtain st n where x: "x = (st, n)" by (cases x)
        have "serial_types blob header_end (pos + n) \<noteq> Panics"
          using 1 [OF True Returns Inr x [symmetric]] read_varint_returns(2) [of blob pos st n] Returns Inr x by auto
        then show ?thesis
          using True Returns Inr x read_varint_returns(2) [of blob pos st n]
          by (subst serial_types.simps) (auto simp: ok_then_def rbind_def split: rust_result.split sum.split)
      qed (use True Returns in \<open>subst serial_types.simps, simp\<close>)
    qed (simp add: read_varint_returns)
  qed (subst serial_types.simps, simp)
qed

lemma decode_values_returns: "decode_values blob body sts \<noteq> Panics"
  by (induction sts arbitrary: body)
    (auto simp: ok_then_def rbind_def decode_serial_returns split: rust_result.splits sum.splits)

section \<open>Properties\<close>

lemma decode_returns: "decode_sqlite_record blob \<noteq> Panics"
proof -
  have "ok_then (serial_types blob e n) (\<lambda>sts. decode_values blob e sts) \<noteq> Panics" for e n
    using serial_types_returns [of blob e n] decode_values_returns
    by (auto simp: ok_then_def rbind_def split: rust_result.splits sum.splits)
  then show ?thesis
    using read_varint_returns(1) [of blob 0]
    by (auto simp: decode_sqlite_record_def Let_def ok_then_def [of "read_varint blob 0"] rbind_def [of "read_varint blob 0"]
        split: rust_result.splits sum.splits)
qed

text \<open>
  Property C30 (a stored row is decoded to its values). A record laid out as the SQLite file format
  prescribes, with any admissible serial type for each value and followed by anything, is decoded to exactly
  the values that were stored: integers of every width with their sign, floats, texts and blobs.
\<close>

theorem record_roundtrip:
  assumes "list_all column_ok cols"
    and "unat header_len = length (varint header_len) + length (concat (map (\<lambda>c. varint (fst (snd c))) cols))"
  shows "decode_sqlite_record (varint header_len @ concat (map (\<lambda>c. varint (fst (snd c))) cols)
      @ concat (map (\<lambda>c. snd (snd c)) cols) @ rest) = Returns (Inr (map fst cols))"
    (is "decode_sqlite_record ?blob = _")
proof -
  let ?hdr = "concat (map varint (map (\<lambda>c. fst (snd c)) cols))"
  have hdr: "concat (map (\<lambda>c. varint (fst (snd c))) cols) = ?hdr" by (simp add: comp_def)
  have "read_varint ?blob 0 = Returns (Inr (header_len, length (varint header_len)))"
    using read_varint_back [of 0 "[]" header_len] by simp
  moreover have "serial_types ?blob (unat header_len) (length (varint header_len)) = Returns (Inr (map (\<lambda>c. fst (snd c)) cols))"
    unfolding hdr by (rule serial_types_back) (use assms(2) in \<open>simp_all add: comp_def\<close>)
  moreover have "decode_values ?blob (unat header_len) (map (\<lambda>c. fst (snd c)) cols) = Returns (Inr (map fst cols))"
    using decode_values_back [OF assms(1), of "unat header_len" "varint header_len @ ?hdr" rest] assms(2)
    by (simp add: comp_def)
  ultimately show ?thesis using assms(2) by (simp add: decode_sqlite_record_def)
qed

theorem record_roundtrip_witness:
  "decode_sqlite_record [4, 1, 0, 17, 0xFE, 0x68, 0x69] = Returns (Inr [Integer (- 2), Null, Text ''hi''])"
proof -
  define cols :: "(backend_value \<times> u64 \<times> bytes) list"
    where "cols = [(Integer (- 2), 1, [0xFE]), (Null, 0, []), (Text ''hi'', 17, [0x68, 0x69])]"
  have "utf8_error 0 [0x68, 0x69] = None" "bytes_of_string ''hi'' = [0x68, 0x69]" "be_bytes 1 (- 2 :: u64) = [0xFE]"
    "signed_take_bit 7 (- 2 :: u64) = - 2"
    by code_simp+
  then have "list_all column_ok cols" by (simp add: cols_def column_ok_def int_stored_def)
  moreover have "varint 4 = [4]" "concat (map (\<lambda>c. varint (fst (snd c))) cols) = [1, 0, 17]"
    unfolding cols_def by code_simp+
  ultimately show ?thesis
    using record_roundtrip [of cols 4 "[]"] by (simp add: cols_def)
qed

text \<open>
  Property C31 (no blob crashes the decoder). Decoding any byte string returns: values or an error, never a
  panic, whatever header length, varints and serial types it claims.
\<close>

theorem decoder_never_panics: "decode_sqlite_record blob \<noteq> Panics"
  by (rule decode_returns)

end
