(* ===== verification/Cdc_Apply.thy ===== *)
theory Cdc_Apply
  imports Cdc_Tail Cdc_Ddl Sqlite_Record
begin

text \<open>
  The apply side of change capture in \<^verbatim>\<open>src/crates/litewire-turso/src/cdc.rs\<close>: the watermark, the replay
  of schema and row changes as SQL on the replica's connection, and the transaction around a batch. An
  operation maps the engine state to its outcome, which may be a panic, and the next state.
\<close>

section \<open>Engine calls\<close>

definition then_do :: "('e \<Rightarrow> 'a step \<times> 'e) \<Rightarrow> ('a \<Rightarrow> 'e \<Rightarrow> 'b step \<times> 'e) \<Rightarrow> 'e \<Rightarrow> 'b step \<times> 'e" where
  "then_do x f st =
     (case x st of
        (Returns (Inr v), st1) \<Rightarrow> f v st1
      | (Returns (Inl e), st1) \<Rightarrow> (Returns (Inl e), st1)
      | (Panics, st1) \<Rightarrow> (Panics, st1))"

definition yields :: "'a \<Rightarrow> 'e \<Rightarrow> 'a step \<times> 'e" where
  "yields v st = (Returns (Inr v), st)"

definition fails :: "backend_error \<Rightarrow> 'e \<Rightarrow> 'a step \<times> 'e" where
  "fails e st = (Returns (Inl e), st)"

definition executes :: "'e turso_engine \<Rightarrow> string \<Rightarrow> turso_value list \<Rightarrow> 'e \<Rightarrow> unit step \<times> 'e" where
  "executes eng sql ps st =
     (case t_execute eng sql ps st of
        (Inl e, st1) \<Rightarrow> (Returns (Inl (map_turso_err e)), st1)
      | (Inr n, st1) \<Rightarrow> (Returns (Inr ()), st1))"

definition prepares :: "'e turso_engine \<Rightarrow> string \<Rightarrow> 'e \<Rightarrow> unit step \<times> 'e" where
  "prepares eng sql st =
     (case t_prepare eng sql st of
        (Inl e, st1) \<Rightarrow> (Returns (Inl (map_turso_err e)), st1)
      | (Inr cols, st1) \<Rightarrow> (Returns (Inr ()), st1))"

definition queries :: "'e turso_engine \<Rightarrow> string \<Rightarrow> turso_value list \<Rightarrow> 'e \<Rightarrow> turso_rows step \<times> 'e" where
  "queries eng sql ps st =
     (case t_query eng sql ps st of
        (Inl e, st1) \<Rightarrow> (Returns (Inl (map_turso_err e)), st1)
      | (Inr rows, st1) \<Rightarrow> (Returns (Inr rows), st1))"

section \<open>The watermark\<close>

definition MARK_TABLE_SQL :: string where
  "MARK_TABLE_SQL = ''CREATE TABLE IF NOT EXISTS __litewire_cdc_watermark (id INTEGER PRIMARY KEY CHECK (id = 0), applied_change_id INTEGER NOT NULL)''"

definition MARK_ROW_SQL :: string where
  "MARK_ROW_SQL = ''INSERT OR IGNORE INTO __litewire_cdc_watermark (id, applied_change_id) VALUES (0, 0)''"

definition MARK_READ_SQL :: string where
  "MARK_READ_SQL = ''SELECT applied_change_id FROM __litewire_cdc_watermark WHERE id = 0''"

definition MARK_SET_SQL :: string where
  "MARK_SET_SQL = ''UPDATE __litewire_cdc_watermark SET applied_change_id = ? WHERE id = 0''"

definition ensure_watermark_table :: "'e turso_engine \<Rightarrow> 'e \<Rightarrow> unit step \<times> 'e" where
  "ensure_watermark_table eng = then_do (executes eng MARK_TABLE_SQL []) (\<lambda>_. executes eng MARK_ROW_SQL [])"

definition mark_value :: "turso_rows \<Rightarrow> int step" where
  "mark_value rows =
     (case rows of
        [] \<Rightarrow> Returns (Inr 0)
      | Inl e # _ \<Rightarrow> Returns (Inl (map_turso_err e))
      | Inr row # _ \<Rightarrow>
          (case row 0 of
             Inl e \<Rightarrow> Returns (Inl (map_turso_err e))
           | Inr (TInteger i) \<Rightarrow> Returns (Inr i)
           | Inr _ \<Rightarrow> Returns (Inr 0)))"

definition read_watermark_in_place :: "'e turso_engine \<Rightarrow> 'e \<Rightarrow> int step \<times> 'e" where
  "read_watermark_in_place eng st =
     (case t_prepare eng MARK_READ_SQL st of
        (Inl e, st1) \<Rightarrow> (Returns (Inr 0), st1)
      | (Inr _, st1) \<Rightarrow> then_do (queries eng MARK_READ_SQL []) (\<lambda>rows st2. (mark_value rows, st2)) st1)"

section \<open>Schema changes\<close>

definition quoted_ident :: "string \<Rightarrow> string" where
  "quoted_ident s = [double_quote] @ escape_ident s @ [double_quote]"

definition drop_sql :: "string \<Rightarrow> string \<Rightarrow> string option" where
  "drop_sql entity_type name =
     (if entity_type = ''table'' then Some (''DROP TABLE IF EXISTS '' @ quoted_ident name)
      else if entity_type = ''index'' then Some (''DROP INDEX IF EXISTS '' @ quoted_ident name)
      else None)"

definition option_debug :: "'e turso_engine \<Rightarrow> backend_value option \<Rightarrow> string" where
  "option_debug eng v = (case v of None \<Rightarrow> ''None'' | Some x \<Rightarrow> ''Some('' @ v_debug eng x @ '')'')"

definition nth_value :: "backend_value list \<Rightarrow> nat \<Rightarrow> backend_value option" where
  "nth_value vs i = (if i < length vs then Some (vs ! i) else None)"

definition text_at :: "'e turso_engine \<Rightarrow> backend_value list \<Rightarrow> nat \<Rightarrow> string \<Rightarrow> backend_error + string" where
  "text_at eng cols i field =
     (case nth_value cols i of
        Some (Text s) \<Rightarrow> Inr s
      | other \<Rightarrow> Inl (Other (''cdc apply: sqlite_schema.'' @ field @ '' not text: '' @ option_debug eng other)))"

definition replay_create :: "'e turso_engine \<Rightarrow> bytes \<Rightarrow> 'e \<Rightarrow> unit step \<times> 'e" where
  "replay_create eng img =
     then_do (\<lambda>st. (decode_sqlite_record img, st)) (\<lambda>cols.
       case nth_value cols 4 of
         Some (Text sql) \<Rightarrow>
           (case classify_replayed_ddl sql of
              Inl e \<Rightarrow> fails e
            | Inr obj \<Rightarrow> if obj = Trigger then yields () else executes eng sql [])
       | Some Null \<Rightarrow> yields ()
       | Some other \<Rightarrow> fails (Other (''cdc apply: sqlite_schema.sql is not text: '' @ v_debug eng other))
       | None \<Rightarrow> fails (Other (''cdc apply: sqlite_schema record too short ('' @ show_nat (length cols) @ '' cols)'')))"

definition replay_drop :: "'e turso_engine \<Rightarrow> bytes \<Rightarrow> 'e \<Rightarrow> unit step \<times> 'e" where
  "replay_drop eng img =
     then_do (\<lambda>st. (decode_sqlite_record img, st)) (\<lambda>cols.
       case text_at eng cols 0 ''type'' of
         Inl e \<Rightarrow> fails e
       | Inr entity_type \<Rightarrow>
           (case text_at eng cols 1 ''name'' of
              Inl e \<Rightarrow> fails e
            | Inr name \<Rightarrow>
                (case drop_sql entity_type name of None \<Rightarrow> yields () | Some sql \<Rightarrow> executes eng sql [])))"

definition apply_ddl :: "'e turso_engine \<Rightarrow> cdc_row \<Rightarrow> 'e \<Rightarrow> unit step \<times> 'e" where
  "apply_ddl eng row =
     (if change_type row = INSERT \<or> change_type row = UPDATE then
        (case after row of
           None \<Rightarrow> fails (Other ''cdc apply: DDL INSERT/UPDATE missing after-image'')
         | Some img \<Rightarrow> replay_create eng img)
      else if change_type row = DELETE then
        (case before row of
           None \<Rightarrow> fails (Other ''cdc apply: DDL DELETE missing before-image'')
         | Some img \<Rightarrow> replay_drop eng img)
      else yields ())"

section \<open>Row changes\<close>

fun join :: "string \<Rightarrow> string list \<Rightarrow> string" where
  "join sep [] = []"
| "join sep [s] = s"
| "join sep (s # ss) = s @ sep @ join sep ss"

text \<open>The loop over \<^verbatim>\<open>PRAGMA table_info\<close>; it stops after \<open>n\<close> names.\<close>

fun column_names :: "'e turso_engine \<Rightarrow> nat \<Rightarrow> turso_rows \<Rightarrow> string list \<Rightarrow> backend_error + string list" where
  "column_names eng n [] names = Inr names"
| "column_names eng n (Inl e # rows) names = Inl (map_turso_err e)"
| "column_names eng n (Inr row # rows) names =
     (case row 1 of
        Inl e \<Rightarrow> Inl (map_turso_err e)
      | Inr (TText s) \<Rightarrow>
          (let names' = names @ [quoted_ident s] in
           if length names' = n then Inr names' else column_names eng n rows names')
      | Inr v \<Rightarrow> Inl (Other (''cdc apply: table_info.name not text: '' @ t_debug eng v)))"

definition table_info_sql :: "string \<Rightarrow> string" where
  "table_info_sql table = ''PRAGMA table_info('' @ quoted_ident table @ '')''"

definition column_list :: "'e turso_engine \<Rightarrow> string \<Rightarrow> nat \<Rightarrow> 'e \<Rightarrow> string step \<times> 'e" where
  "column_list eng table n =
     then_do (prepares eng (table_info_sql table)) (\<lambda>_.
       then_do (queries eng (table_info_sql table) []) (\<lambda>rows.
         case column_names eng n rows [] of
           Inl e \<Rightarrow> fails e
         | Inr names \<Rightarrow>
             if length names \<noteq> n then
               fails (Other (''cdc apply: table '' @ table @ '' has '' @ show_nat (length names)
                 @ '' storable columns but record has '' @ show_nat n))
             else yields (join '', '' names)))"

definition insert_sql :: "string \<Rightarrow> string \<Rightarrow> nat \<Rightarrow> string" where
  "insert_sql table cols n =
     ''INSERT OR REPLACE INTO '' @ quoted_ident table @ '' (rowid, '' @ cols @ '') VALUES (?, ''
       @ join '', '' (replicate n ''?'') @ '')''"

definition delete_sql :: "string \<Rightarrow> string" where
  "delete_sql table = ''DELETE FROM '' @ quoted_ident table @ '' WHERE rowid = ?''"

definition replay_image :: "'e turso_engine \<Rightarrow> string \<Rightarrow> int \<Rightarrow> bytes \<Rightarrow> 'e \<Rightarrow> unit step \<times> 'e" where
  "replay_image eng table rowid img =
     then_do (\<lambda>st. (decode_sqlite_record img, st)) (\<lambda>vs.
       then_do (column_list eng table (length vs)) (\<lambda>cols.
         let sql = insert_sql table cols (length vs) in
         then_do (prepares eng sql) (\<lambda>_. executes eng sql (TInteger rowid # map to_turso_value vs))))"

definition apply_dml :: "'e turso_engine \<Rightarrow> cdc_row \<Rightarrow> 'e \<Rightarrow> unit step \<times> 'e" where
  "apply_dml eng row =
     (case table_name row of
        None \<Rightarrow> (\<lambda>st. (Panics, st))
      | Some table \<Rightarrow>
          (case row_id row of
             None \<Rightarrow> fails (Other (''cdc apply: DML row without id (change_id='' @ i64_to_string (change_id row) @ '')''))
           | Some rowid \<Rightarrow>
               if change_type row = INSERT then
                 (case after row of
                    None \<Rightarrow> fails (Other ''cdc apply: INSERT missing after-image'')
                  | Some img \<Rightarrow> replay_image eng table rowid img)
               else if change_type row = UPDATE then
                 (case after row of
                    None \<Rightarrow> fails (Other ''cdc apply: UPDATE missing after-image'')
                  | Some img \<Rightarrow> replay_image eng table rowid img)
               else if change_type row = DELETE then
                 then_do (prepares eng (delete_sql table)) (\<lambda>_. executes eng (delete_sql table) [TInteger rowid])
               else yields ()))"

section \<open>Batches\<close>

definition apply_row :: "'e turso_engine \<Rightarrow> cdc_row \<Rightarrow> 'e \<Rightarrow> unit step \<times> 'e" where
  "apply_row eng row =
     (if change_type row = COMMIT then yields ()
      else if change_type row = INSERT \<or> change_type row = UPDATE \<or> change_type row = DELETE then
        (case table_name row of
           Some t \<Rightarrow> if t = ''sqlite_schema'' then apply_ddl eng row else apply_dml eng row
         | None \<Rightarrow> fails (Other (''cdc apply: row without table_name (change_id='' @ i64_to_string (change_id row) @ '')'')))
      else fails (Other (''cdc apply: unknown change_type '' @ i64_to_string (change_type row) @ '' for change_id=''
             @ i64_to_string (change_id row))))"

fun apply_rows :: "'e turso_engine \<Rightarrow> int \<Rightarrow> cdc_row list \<Rightarrow> 'e \<Rightarrow> unit step \<times> 'e" where
  "apply_rows eng current_watermark [] = yields ()"
| "apply_rows eng current_watermark (row # rows) =
     (if change_id row \<le> current_watermark then apply_rows eng current_watermark rows
      else then_do (apply_row eng row) (\<lambda>_. apply_rows eng current_watermark rows))"

definition apply_batch_inner :: "'e turso_engine \<Rightarrow> txn_batch \<Rightarrow> int \<Rightarrow> int \<Rightarrow> 'e \<Rightarrow> unit step \<times> 'e" where
  "apply_batch_inner eng batch current_watermark cid =
     then_do (apply_rows eng current_watermark batch) (\<lambda>_.
       then_do (prepares eng MARK_SET_SQL) (\<lambda>_. executes eng MARK_SET_SQL [TInteger cid]))"

definition apply_in_transaction :: "'e turso_engine \<Rightarrow> txn_batch \<Rightarrow> int \<Rightarrow> int \<Rightarrow> 'e \<Rightarrow> unit step \<times> 'e" where
  "apply_in_transaction eng batch current cid =
     then_do (executes eng ''BEGIN IMMEDIATE'' []) (\<lambda>_ st.
       case apply_batch_inner eng batch current cid st of
         (Returns (Inr _), st1) \<Rightarrow> executes eng ''COMMIT'' [] st1
       | (Returns (Inl e), st1) \<Rightarrow> (Returns (Inl e), snd (t_execute eng ''ROLLBACK'' [] st1))
       | (Panics, st1) \<Rightarrow> (Panics, st1))"

definition apply_committed_batch :: "'e turso_engine \<Rightarrow> txn_batch \<Rightarrow> int \<Rightarrow> 'e \<Rightarrow> unit step \<times> 'e" where
  "apply_committed_batch eng batch cid =
     then_do (ensure_watermark_table eng) (\<lambda>_.
       then_do (read_watermark_in_place eng) (\<lambda>current.
         if cid \<le> current then yields () else apply_in_transaction eng batch current cid))"

definition apply_batch :: "'e turso_engine \<Rightarrow> txn_batch \<Rightarrow> 'e \<Rightarrow> unit step \<times> 'e" where
  "apply_batch eng batch =
     (case commit_change_id batch of
        None \<Rightarrow> fails (Other ''cdc apply: empty batch (a TxnBatch always ends in a COMMIT row)'')
      | Some cid \<Rightarrow> apply_committed_batch eng batch cid)"

section \<open>What the engine promises\<close>

text \<open>
  The contents of the replica and what each statement of the replay does to them, as documented for the SQL
  it is: the watermark row, the columns of a table, a row put or deleted by its rowid, a \<^verbatim>\<open>CREATE\<close> text and a
  \<^verbatim>\<open>DROP\<close>. Nothing is said of what contents are.
\<close>

record 'd content_ops =
  d_mark :: "'d \<Rightarrow> int option"
  d_mark_row :: "'d \<Rightarrow> 'd"
  d_set_mark :: "int \<Rightarrow> 'd \<Rightarrow> 'd"
  d_columns :: "'d \<Rightarrow> string \<Rightarrow> string list"
  d_put :: "string \<Rightarrow> string \<Rightarrow> int \<Rightarrow> turso_value list \<Rightarrow> 'd \<Rightarrow> 'd"
  d_delete :: "string \<Rightarrow> int \<Rightarrow> 'd \<Rightarrow> 'd"
  d_create :: "string \<Rightarrow> 'd \<Rightarrow> 'd"
  d_drop :: "string \<Rightarrow> 'd \<Rightarrow> 'd"

text \<open>
  A connection to the replica: \<open>db\<close> are the contents it sees, \<open>saved\<close> the contents when its open transaction
  began. A statement that fails inside a transaction may make the engine roll the transaction back.
\<close>

record ('e, 'd) replica =
  db :: "'e \<Rightarrow> 'd"
  saved :: "'e \<Rightarrow> 'd option"

definition rolled_back :: "('e, 'd) replica \<Rightarrow> 'e \<Rightarrow> 'e \<Rightarrow> bool" where
  "rolled_back rp st st1 \<longleftrightarrow> saved rp st = Some (db rp st1) \<and> saved rp st1 = None"

definition same :: "('e, 'd) replica \<Rightarrow> 'e \<Rightarrow> 'e \<Rightarrow> bool" where
  "same rp st st1 \<longleftrightarrow> db rp st1 = db rp st \<and> saved rp st1 = saved rp st"

definition statement_law :: "'e turso_engine \<Rightarrow> ('e, 'd) replica \<Rightarrow> string \<Rightarrow> turso_value list \<Rightarrow> ('d \<Rightarrow> 'd) \<Rightarrow> bool" where
  "statement_law eng rp sql ps f \<longleftrightarrow>
     (\<forall>st r st1. t_execute eng sql ps st = (r, st1) \<longrightarrow>
        (case r of
           Inr _ \<Rightarrow> db rp st1 = f (db rp st) \<and> saved rp st1 = saved rp st
         | Inl _ \<Rightarrow> same rp st st1 \<or> rolled_back rp st st1))"

definition transaction_laws :: "'e turso_engine \<Rightarrow> ('e, 'd) replica \<Rightarrow> bool" where
  "transaction_laws eng rp \<longleftrightarrow>
     (\<forall>st r st1. t_execute eng ''BEGIN IMMEDIATE'' [] st = (r, st1) \<longrightarrow>
        (case r of
           Inr _ \<Rightarrow> saved rp st = None \<and> db rp st1 = db rp st \<and> saved rp st1 = Some (db rp st)
         | Inl _ \<Rightarrow> same rp st st1)) \<and>
     (\<forall>st r st1. t_execute eng ''COMMIT'' [] st = (r, st1) \<longrightarrow>
        (case r of
           Inr _ \<Rightarrow> db rp st1 = db rp st \<and> saved rp st1 = None
         | Inl _ \<Rightarrow> same rp st st1 \<or> rolled_back rp st st1)) \<and>
     (\<forall>st r st1. t_execute eng ''ROLLBACK'' [] st = (r, st1) \<longrightarrow>
        (if saved rp st = None then same rp st st1 else rolled_back rp st st1))"

fun info_rows :: "turso_rows \<Rightarrow> string list \<Rightarrow> bool" where
  "info_rows [] cs \<longleftrightarrow> cs = []"
| "info_rows (Inl e # rows) cs \<longleftrightarrow> True"
| "info_rows (Inr row # rows) cs \<longleftrightarrow> (case cs of [] \<Rightarrow> False | c # cs' \<Rightarrow> row 1 = Inr (TText c) \<and> info_rows rows cs')"

definition read_laws :: "'d content_ops \<Rightarrow> 'e turso_engine \<Rightarrow> ('e, 'd) replica \<Rightarrow> bool" where
  "read_laws ops eng rp \<longleftrightarrow>
     (\<forall>sql st r st1. t_prepare eng sql st = (r, st1) \<longrightarrow> same rp st st1) \<and>
     (\<forall>st e st1. t_prepare eng MARK_READ_SQL st = (Inl e, st1) \<longrightarrow> d_mark ops (db rp st) = None) \<and>
     (\<forall>st r st1. t_query eng MARK_READ_SQL [] st = (r, st1) \<longrightarrow> same rp st st1 \<and>
        (\<forall>m rows. r = Inr rows \<and> d_mark ops (db rp st) = Some m \<longrightarrow>
           (\<exists>o1 rows'. rows = o1 # rows' \<and> (case o1 of Inl _ \<Rightarrow> True | Inr row \<Rightarrow> row 0 = Inr (TInteger m))))) \<and>
     (\<forall>t st r st1. t_query eng (table_info_sql t) [] st = (r, st1) \<longrightarrow> same rp st st1 \<and>
        (\<forall>rows. r = Inr rows \<longrightarrow> info_rows rows (d_columns ops (db rp st) t)))"

text \<open>Tables of the application: all but the watermark table, whose name is matched without case.\<close>

definition user_table :: "string \<Rightarrow> bool" where
  "user_table t \<longleftrightarrow> \<not> eq_ignore_ascii_case t ''__litewire_cdc_watermark''"

definition replayable :: "string \<Rightarrow> bool" where
  "replayable sql \<longleftrightarrow> (\<exists>obj. classify_replayed_ddl sql = Inr obj \<and> obj \<noteq> Trigger)"

definition replay_laws :: "'d content_ops \<Rightarrow> 'e turso_engine \<Rightarrow> ('e, 'd) replica \<Rightarrow> bool" where
  "replay_laws ops eng rp \<longleftrightarrow>
     statement_law eng rp MARK_TABLE_SQL [] (d_create ops MARK_TABLE_SQL) \<and>
     statement_law eng rp MARK_ROW_SQL [] (d_mark_row ops) \<and>
     (\<forall>cid. statement_law eng rp MARK_SET_SQL [TInteger cid] (d_set_mark ops cid)) \<and>
     (\<forall>t cols i vs. statement_law eng rp (insert_sql t cols (length vs)) (TInteger i # vs) (d_put ops t cols i vs)) \<and>
     (\<forall>t i. statement_law eng rp (delete_sql t) [TInteger i] (d_delete ops t i)) \<and>
     (\<forall>sql. replayable sql \<longrightarrow> statement_law eng rp sql [] (d_create ops sql)) \<and>
     (\<forall>ty n sql. drop_sql ty n = Some sql \<longrightarrow> statement_law eng rp sql [] (d_drop ops sql))"

definition mark_laws :: "'d content_ops \<Rightarrow> bool" where
  "mark_laws ops \<longleftrightarrow>
     (\<forall>d. d_mark ops d \<noteq> None \<longrightarrow> d_create ops MARK_TABLE_SQL d = d \<and> d_mark_row ops d = d) \<and>
     (\<forall>d. d_mark ops d = None \<longrightarrow> d_mark ops (d_mark_row ops (d_create ops MARK_TABLE_SQL d)) = Some 0) \<and>
     (\<forall>d. d_create ops MARK_TABLE_SQL (d_create ops MARK_TABLE_SQL d) = d_create ops MARK_TABLE_SQL d) \<and>
     (\<forall>cid d. d_mark ops d \<noteq> None \<longrightarrow> d_mark ops (d_set_mark ops cid d) = Some cid) \<and>
     (\<forall>t cols i vs d. user_table t \<longrightarrow> d_mark ops (d_put ops t cols i vs d) = d_mark ops d) \<and>
     (\<forall>t i d. user_table t \<longrightarrow> d_mark ops (d_delete ops t i d) = d_mark ops d) \<and>
     (\<forall>sql d. replayable sql \<and> d_mark ops d \<noteq> None \<longrightarrow> d_mark ops (d_create ops sql d) = d_mark ops d) \<and>
     (\<forall>ty n sql d. drop_sql ty n = Some sql \<and> user_table n \<longrightarrow> d_mark ops (d_drop ops sql d) = d_mark ops d)"

section \<open>The replay, abstractly\<close>

definition record_values :: "bytes option \<Rightarrow> backend_value list option" where
  "record_values b =
     (case b of None \<Rightarrow> None | Some img \<Rightarrow> (case decode_sqlite_record img of Returns (Inr vs) \<Rightarrow> Some vs | _ \<Rightarrow> None))"

definition replay_schema :: "'d content_ops \<Rightarrow> cdc_row \<Rightarrow> 'd \<Rightarrow> 'd option" where
  "replay_schema ops row d =
     (if change_type row = DELETE then
        (case record_values (before row) of
           Some (Text ty # Text n # _) \<Rightarrow> Some (case drop_sql ty n of None \<Rightarrow> d | Some sql \<Rightarrow> d_drop ops sql d)
         | _ \<Rightarrow> None)
      else
        (case record_values (after row) of
           Some (_ # _ # _ # _ # Text sql # _) \<Rightarrow>
             (case classify_replayed_ddl sql of
                Inl _ \<Rightarrow> None
              | Inr obj \<Rightarrow> Some (if obj = Trigger then d else d_create ops sql d))
         | Some (_ # _ # _ # _ # Null # _) \<Rightarrow> Some d
         | _ \<Rightarrow> None))"

definition replay_data :: "'d content_ops \<Rightarrow> string \<Rightarrow> cdc_row \<Rightarrow> 'd \<Rightarrow> 'd option" where
  "replay_data ops t row d =
     (case row_id row of
        None \<Rightarrow> None
      | Some i \<Rightarrow>
          if change_type row = DELETE then Some (d_delete ops t i d)
          else (case record_values (after row) of
              None \<Rightarrow> None
            | Some vs \<Rightarrow>
                (let cs = take (length vs) (d_columns ops d t) in
                 if length cs = length vs
                 then Some (d_put ops t (join '', '' (map quoted_ident cs)) i (map to_turso_value vs) d) else None)))"

definition replay_row :: "'d content_ops \<Rightarrow> cdc_row \<Rightarrow> 'd \<Rightarrow> 'd option" where
  "replay_row ops row d =
     (if change_type row = COMMIT then Some d
      else if change_type row = INSERT \<or> change_type row = UPDATE \<or> change_type row = DELETE then
        (case table_name row of
           None \<Rightarrow> None
         | Some t \<Rightarrow> if t = ''sqlite_schema'' then replay_schema ops row d else replay_data ops t row d)
      else None)"

fun replay_rows :: "'d content_ops \<Rightarrow> cdc_row list \<Rightarrow> 'd \<Rightarrow> 'd option" where
  "replay_rows ops [] d = Some d"
| "replay_rows ops (row # rows) d = (case replay_row ops row d of None \<Rightarrow> None | Some d1 \<Rightarrow> replay_rows ops rows d1)"

section \<open>The replay implements it\<close>

text \<open>
  \<open>effect rp op f\<close>: inside a transaction \<open>op\<close> never panics, and when it succeeds it has changed the contents as
  \<open>f\<close> says; when it fails the transaction is still open, or rolled back.
\<close>

definition effect :: "('e, 'd) replica \<Rightarrow> ('e \<Rightarrow> 'a step \<times> 'e) \<Rightarrow> ('d \<Rightarrow> ('a \<times> 'd) option) \<Rightarrow> bool" where
  "effect rp op f \<longleftrightarrow>
     (\<forall>st r st1. op st = (r, st1) \<longrightarrow>
        (case r of
           Panics \<Rightarrow> False
         | Returns (Inr v) \<Rightarrow> f (db rp st) = Some (v, db rp st1) \<and> saved rp st1 = saved rp st
         | Returns (Inl e) \<Rightarrow> saved rp st1 = saved rp st \<or> rolled_back rp st st1))"

definition then_spec :: "('d \<Rightarrow> ('a \<times> 'd) option) \<Rightarrow> ('a \<Rightarrow> 'd \<Rightarrow> ('b \<times> 'd) option) \<Rightarrow> 'd \<Rightarrow> ('b \<times> 'd) option" where
  "then_spec f g d = (case f d of None \<Rightarrow> None | Some (v, d1) \<Rightarrow> g v d1)"

lemma effect_then_do:
  assumes "effect rp x f" and "\<And>v. effect rp (g v) (h v)"
  shows "effect rp (then_do x g) (then_spec f h)"
proof -
  have "case r of
           Panics \<Rightarrow> False
         | Returns (Inr v) \<Rightarrow> then_spec f h (db rp st) = Some (v, db rp st2) \<and> saved rp st2 = saved rp st
         | Returns (Inl e) \<Rightarrow> saved rp st2 = saved rp st \<or> rolled_back rp st st2"
    if run: "then_do x g st = (r, st2)" for st r st2
  proof -
    obtain q st1 where q: "x st = (q, st1)" by fastforce
    note X = assms(1) [unfolded effect_def, rule_format, OF q]
    show ?thesis
    proof (cases q)
      case (Returns s)
      show ?thesis
      proof (cases s)
        case (Inl e)
        with run q Returns X show ?thesis by (auto simp: then_do_def)
      next
        case (Inr v)
        with run q Returns have "g v st1 = (r, st2)" by (simp add: then_do_def)
        from assms(2) [unfolded effect_def, rule_format, OF this] X Inr Returns show ?thesis
          by (auto simp: then_spec_def rolled_back_def split: rust_result.splits sum.splits)
      qed
    qed (use X in simp)
  qed
  then show ?thesis unfolding effect_def by blast
qed

lemma effect_weaken: "effect rp op f \<Longrightarrow> (\<And>d v d1. f d = Some (v, d1) \<Longrightarrow> g d = Some (v, d1)) \<Longrightarrow> effect rp op g"
  unfolding effect_def by (fastforce split: rust_result.splits sum.splits)

lemma effect_yields: "effect rp (yields v) (\<lambda>d. Some (v, d))"
  by (simp add: effect_def yields_def)

lemma effect_fails: "effect rp (fails e) f"
  by (simp add: effect_def fails_def)

lemma effect_pure: "s \<noteq> Panics \<Longrightarrow> effect rp (\<lambda>st. (s, st)) (\<lambda>d. case s of Returns (Inr v) \<Rightarrow> Some (v, d) | _ \<Rightarrow> None)"
  by (auto simp: effect_def split: rust_result.splits sum.splits)

lemma effect_executes: "statement_law eng rp sql ps f \<Longrightarrow> effect rp (executes eng sql ps) (\<lambda>d. Some ((), f d))"
  unfolding effect_def executes_def statement_law_def same_def
  by (fastforce split: sum.splits prod.splits)

lemma effect_prepares: "read_laws ops eng rp \<Longrightarrow> effect rp (prepares eng sql) (\<lambda>d. Some ((), d))"
  unfolding effect_def prepares_def read_laws_def same_def
  by (auto split: sum.splits prod.splits)

lemma column_names_listed:
  "info_rows rows cs \<Longrightarrow> column_names eng n rows names = Inr out \<Longrightarrow> \<exists>k. out = names @ map quoted_ident (take k cs)"
proof (induction eng n rows names arbitrary: cs rule: column_names.induct)
  case (3 eng n row rows names)
  then obtain c cs' where c: "cs = c # cs'" "row 1 = Inr (TText c)" "info_rows rows cs'" by (auto split: list.splits)
  show ?case
  proof (cases "length (names @ [quoted_ident c]) = n")
    case True
    with 3(3) c show ?thesis by (auto intro!: exI [of _ 1])
  next
    case False
    with 3(3) c have "column_names eng n rows (names @ [quoted_ident c]) = Inr out" by simp
    from 3(1) [OF c(2) refl refl False c(3) this] obtain k where "out = (names @ [quoted_ident c]) @ map quoted_ident (take k cs')" by blast
    then show ?thesis unfolding c by (intro exI [of _ "Suc k"]) simp
  qed
qed (auto intro!: exI [of _ 0])

lemma effect_column_list:
  assumes "read_laws ops eng rp"
  shows "effect rp (column_list eng t n)
    (\<lambda>d. let cs = take n (d_columns ops d t) in if length cs = n then Some (join '', '' (map quoted_ident cs), d) else None)"
    (is "effect rp _ ?f")
proof -
  have "case r of
           Panics \<Rightarrow> False
         | Returns (Inr v) \<Rightarrow> ?f (db rp st) = Some (v, db rp st3) \<and> saved rp st3 = saved rp st
         | Returns (Inl e) \<Rightarrow> saved rp st3 = saved rp st \<or> rolled_back rp st st3"
    if run: "column_list eng t n st = (r, st3)" for st r st3
  proof -
    obtain p st1 where p: "t_prepare eng (table_info_sql t) st = (p, st1)" by fastforce
    obtain q st2 where q: "t_query eng (table_info_sql t) [] st1 = (q, st2)" by fastforce
    have s1: "same rp st st1" and s2: "same rp st1 st2"
      and rows: "\<And>rows. q = Inr rows \<Longrightarrow> info_rows rows (d_columns ops (db rp st1) t)"
      using assms p q unfolding read_laws_def by metis+
    have out: "?f (db rp st) = Some (join '', '' names, db rp st)"
      if "q = Inr rows" "column_names eng n rows [] = Inr names" "length names = n" for rows names
    proof -
      from column_names_listed [OF rows [OF that(1)] that(2)] obtain k where k: "names = map quoted_ident (take k (d_columns ops (db rp st1) t))" by auto
      with that(3) have "take k (d_columns ops (db rp st1) t) = take n (d_columns ops (db rp st1) t)" "n \<le> length (d_columns ops (db rp st1) t)"
        by (auto simp: min_def)
      with k s1 show ?thesis by (simp add: same_def Let_def)
    qed
    from run p q out s1 s2 show ?thesis
      unfolding column_list_def then_do_def prepares_def queries_def yields_def fails_def same_def
      by (auto split: sum.splits if_splits)
  qed
  then show ?thesis unfolding effect_def by blast
qed

lemma effect_create:
  assumes "replay_laws ops eng rp"
  shows "effect rp (replay_create eng img) (\<lambda>d. map_option (Pair ()) (
    case decode_sqlite_record img of
      Returns (Inr (_ # _ # _ # _ # Text sql # _)) \<Rightarrow>
        (case classify_replayed_ddl sql of Inl _ \<Rightarrow> None | Inr obj \<Rightarrow> Some (if obj = Trigger then d else d_create ops sql d))
    | Returns (Inr (_ # _ # _ # _ # Null # _)) \<Rightarrow> Some d
    | _ \<Rightarrow> None))" (is "effect rp _ ?g")
proof -
  let ?op = "\<lambda>cols. case nth_value cols 4 of
         Some (Text sql) \<Rightarrow>
           (case classify_replayed_ddl sql of
              Inl e \<Rightarrow> fails e
            | Inr obj \<Rightarrow> if obj = Trigger then yields () else executes eng sql [])
       | Some Null \<Rightarrow> yields ()
       | Some other \<Rightarrow> fails (Other (''cdc apply: sqlite_schema.sql is not text: '' @ v_debug eng other))
       | None \<Rightarrow> fails (Other (''cdc apply: sqlite_schema record too short ('' @ show_nat (length cols) @ '' cols)''))"
  let ?f = "\<lambda>cols d. map_option (Pair ()) (case nth_value cols 4 of
         Some (Text sql) \<Rightarrow>
           (case classify_replayed_ddl sql of Inl _ \<Rightarrow> None | Inr obj \<Rightarrow> Some (if obj = Trigger then d else d_create ops sql d))
       | Some Null \<Rightarrow> Some d
       | _ \<Rightarrow> None)"
  have "effect rp (?op cols) (?f cols)" for cols
  proof (cases "nth_value cols 4")
    case (Some v)
    show ?thesis
    proof (cases v)
      case (Text sql)
      show ?thesis
      proof (cases "classify_replayed_ddl sql")
        case (Inr obj)
        then have "obj \<noteq> Trigger \<Longrightarrow> statement_law eng rp sql [] (d_create ops sql)"
          using assms by (auto simp: replay_laws_def replayable_def)
        with Some Text Inr show ?thesis by (auto simp: effect_yields effect_executes)
      qed (simp add: Some Text effect_fails)
    qed (simp_all add: Some effect_fails effect_yields)
  qed (simp add: effect_fails)
  from effect_then_do [OF effect_pure this, OF decode_returns, of img]
  show ?thesis unfolding replay_create_def
    by (rule effect_weaken)
      (auto simp: then_spec_def nth_value_def numeral_eq_Suc split: rust_result.splits sum.splits list.splits if_splits backend_value.splits)
qed

lemma effect_drop:
  assumes "replay_laws ops eng rp"
  shows "effect rp (replay_drop eng img) (\<lambda>d. map_option (Pair ()) (
    case decode_sqlite_record img of
      Returns (Inr (Text ty # Text n # _)) \<Rightarrow> Some (case drop_sql ty n of None \<Rightarrow> d | Some sql \<Rightarrow> d_drop ops sql d)
    | _ \<Rightarrow> None))"
proof -
  let ?op = "\<lambda>cols. case text_at eng cols 0 ''type'' of
         Inl e \<Rightarrow> fails e
       | Inr entity_type \<Rightarrow>
           (case text_at eng cols 1 ''name'' of
              Inl e \<Rightarrow> fails e
            | Inr name \<Rightarrow>
                (case drop_sql entity_type name of None \<Rightarrow> yields () | Some sql \<Rightarrow> executes eng sql []))"
  let ?f = "\<lambda>cols d. map_option (Pair ()) (case text_at eng cols 0 ''type'' of
         Inl e \<Rightarrow> None
       | Inr ty \<Rightarrow>
           (case text_at eng cols 1 ''name'' of
              Inl e \<Rightarrow> None
            | Inr n \<Rightarrow> Some (case drop_sql ty n of None \<Rightarrow> d | Some sql \<Rightarrow> d_drop ops sql d)))"
  have "effect rp (?op cols) (?f cols)" for cols
    using assms by (auto simp: replay_laws_def effect_fails effect_yields effect_executes split: sum.split option.split)
  from effect_then_do [OF effect_pure this, OF decode_returns, of img]
  show ?thesis unfolding replay_drop_def
    by (rule effect_weaken)
      (auto simp: then_spec_def text_at_def nth_value_def split: rust_result.splits sum.splits list.splits if_splits backend_value.splits option.splits)
qed

lemma effect_ddl:
  assumes "replay_laws ops eng rp"
    and "change_type row = INSERT \<or> change_type row = UPDATE \<or> change_type row = DELETE"
  shows "effect rp (apply_ddl eng row) (\<lambda>d. map_option (Pair ()) (replay_schema ops row d))"
proof (cases "change_type row = DELETE")
  case True
  then show ?thesis
  proof (cases "before row")
    case (Some img)
    have "effect rp (apply_ddl eng row) (\<lambda>d. map_option (Pair ()) (
    case decode_sqlite_record img of
      Returns (Inr (Text ty # Text n # _)) \<Rightarrow> Some (case drop_sql ty n of None \<Rightarrow> d | Some sql \<Rightarrow> d_drop ops sql d)
    | _ \<Rightarrow> None))"
      using True Some effect_drop [OF assms(1)] by (simp add: apply_ddl_def change_types)
    then show ?thesis
      by (rule effect_weaken)
        (auto simp: replay_schema_def record_values_def True Some split: rust_result.splits sum.splits list.splits backend_value.splits)
  qed (simp add: apply_ddl_def effect_fails change_types)
next
  case False
  with assms(2) have iu: "change_type row = INSERT \<or> change_type row = UPDATE" by blast
  show ?thesis
  proof (cases "after row")
    case (Some img)
    with iu have op: "apply_ddl eng row = replay_create eng img" by (simp add: apply_ddl_def)
    show ?thesis
      unfolding op by (rule effect_weaken [OF effect_create [OF assms(1)]])
        (auto simp: replay_schema_def record_values_def False Some split: rust_result.splits sum.splits list.splits backend_value.splits)
  qed (use iu in \<open>simp add: apply_ddl_def effect_fails\<close>)
qed

lemma effect_image:
  assumes "replay_laws ops eng rp" and "read_laws ops eng rp"
  shows "effect rp (replay_image eng t i img) (\<lambda>d. map_option (Pair ()) (
    case decode_sqlite_record img of
      Returns (Inr vs) \<Rightarrow>
        (let cs = take (length vs) (d_columns ops d t) in
         if length cs = length vs
         then Some (d_put ops t (join '', '' (map quoted_ident cs)) i (map to_turso_value vs) d) else None)
    | _ \<Rightarrow> None))"
proof -
  have put: "statement_law eng rp (insert_sql t cols (length vs)) (TInteger i # map to_turso_value vs) (d_put ops t cols i (map to_turso_value vs))"
    for cols and vs :: "backend_value list"
    using assms(1) unfolding replay_laws_def by (metis length_map)
  note steps = effect_then_do [OF effect_prepares [OF assms(2)] effect_executes [OF put]]
  note vs = effect_then_do [OF effect_column_list [OF assms(2)] steps]
  show ?thesis unfolding replay_image_def Let_def
    by (rule effect_weaken [OF effect_then_do [OF effect_pure vs, OF decode_returns]]) (auto simp: then_spec_def split: rust_result.splits sum.splits if_splits)
qed

lemma effect_dml:
  assumes "replay_laws ops eng rp" and "read_laws ops eng rp" and "table_name row = Some t"
    and "change_type row = INSERT \<or> change_type row = UPDATE \<or> change_type row = DELETE"
  shows "effect rp (apply_dml eng row) (\<lambda>d. map_option (Pair ()) (replay_data ops t row d))"
proof (cases "row_id row")
  case (Some i)
  show ?thesis
  proof (cases "change_type row = DELETE")
    case True
    have "statement_law eng rp (delete_sql t) [TInteger i] (d_delete ops t i)" using assms(1) by (simp add: replay_laws_def)
    note del = effect_then_do [OF effect_prepares [OF assms(2)] effect_executes [OF this]]
    have op: "apply_dml eng row = then_do (prepares eng (delete_sql t)) (\<lambda>_. executes eng (delete_sql t) [TInteger i])"
      using True Some assms(3) by (simp add: apply_dml_def change_types)
    show ?thesis unfolding op by (rule effect_weaken [OF del]) (auto simp: then_spec_def replay_data_def True Some)
  next
    case False
    with assms(4) have iu: "change_type row = INSERT \<or> change_type row = UPDATE" by blast
    show ?thesis
    proof (cases "after row")
      case img: (Some img)
      with iu Some assms(3) have op: "apply_dml eng row = replay_image eng t i img" by (auto simp: apply_dml_def)
      show ?thesis unfolding op by (rule effect_weaken [OF effect_image [OF assms(1,2)]])
          (auto simp: replay_data_def record_values_def False Some img Let_def split: rust_result.splits sum.splits if_splits)
    qed (use iu Some assms(3) in \<open>auto simp: apply_dml_def effect_fails\<close>)
  qed
qed (simp add: apply_dml_def assms(3) effect_fails)

lemma effect_row:
  assumes "replay_laws ops eng rp" and "read_laws ops eng rp"
  shows "effect rp (apply_row eng row) (\<lambda>d. map_option (Pair ()) (replay_row ops row d))"
  unfolding apply_row_def replay_row_def
  using effect_ddl [OF assms(1)] effect_dml [OF assms]
  by (auto simp: effect_yields effect_fails split: option.split)

lemma effect_rows:
  assumes "replay_laws ops eng rp" and "read_laws ops eng rp"
  shows "effect rp (apply_rows eng m rows) (\<lambda>d. map_option (Pair ()) (replay_rows ops (filter (\<lambda>r. m < change_id r) rows) d))"
proof (induction rows)
  case (Cons row rows)
  show ?case
  proof (cases "change_id row \<le> m")
    case False
    have op: "apply_rows eng m (row # rows) = then_do (apply_row eng row) (\<lambda>_. apply_rows eng m rows)" using False by simp
    show ?thesis unfolding op
      by (rule effect_weaken [OF effect_then_do [OF effect_row [OF assms] Cons]])
        (use False in \<open>auto simp: then_spec_def split: option.splits\<close>)
  qed (use Cons in \<open>simp add: not_less\<close>)
qed (simp add: effect_yields)

lemma effect_inner:
  assumes "replay_laws ops eng rp" and "read_laws ops eng rp"
  shows "effect rp (apply_batch_inner eng batch m cid)
    (\<lambda>d. map_option (\<lambda>d1. ((), d_set_mark ops cid d1)) (replay_rows ops (filter (\<lambda>r. m < change_id r) batch) d))"
proof -
  have "statement_law eng rp MARK_SET_SQL [TInteger cid] (d_set_mark ops cid)" using assms(1) by (simp add: replay_laws_def)
  note mark = effect_then_do [OF effect_prepares [OF assms(2)] effect_executes [OF this]]
  show ?thesis unfolding apply_batch_inner_def
    by (rule effect_weaken [OF effect_then_do [OF effect_rows [OF assms] mark]])
      (auto simp: then_spec_def split: option.splits)
qed

section \<open>One batch\<close>

definition apply_laws :: "'d content_ops \<Rightarrow> 'e turso_engine \<Rightarrow> ('e, 'd) replica \<Rightarrow> bool" where
  "apply_laws ops eng rp \<longleftrightarrow>
     transaction_laws eng rp \<and> read_laws ops eng rp \<and> replay_laws ops eng rp \<and> mark_laws ops"

text \<open>The contents with the watermark row in place.\<close>

definition marked :: "'d content_ops \<Rightarrow> 'd \<Rightarrow> 'd" where
  "marked ops d = d_mark_row ops (d_create ops MARK_TABLE_SQL d)"

lemma marked_mark: "mark_laws ops \<Longrightarrow> d_mark ops (marked ops d) = Some (case d_mark ops d of None \<Rightarrow> 0 | Some m \<Rightarrow> m)"
  unfolding mark_laws_def marked_def by (cases "d_mark ops d") auto

lemma marked_id: "mark_laws ops \<Longrightarrow> d_mark ops d = Some m \<Longrightarrow> marked ops d = d"
  unfolding mark_laws_def marked_def by auto

lemma marked_again: "mark_laws ops \<Longrightarrow> marked ops (marked ops d) = marked ops d"
  by (metis marked_id marked_mark)

lemma marked_table: "mark_laws ops \<Longrightarrow> marked ops (d_create ops MARK_TABLE_SQL d) = marked ops d"
  unfolding mark_laws_def marked_def by auto

lemma ensure_outcome:
  assumes "apply_laws ops eng rp" and "ensure_watermark_table eng st = (r, st1)"
  shows "case r of
      Panics \<Rightarrow> False
    | Returns (Inr _) \<Rightarrow> db rp st1 = marked ops (db rp st) \<and> saved rp st1 = saved rp st
    | Returns (Inl _) \<Rightarrow> saved rp st = None \<longrightarrow> saved rp st1 = None \<and> marked ops (db rp st1) = marked ops (db rp st)"
proof -
  obtain a sa where a: "t_execute eng MARK_TABLE_SQL [] st = (a, sa)" by fastforce
  obtain b sb where b: "t_execute eng MARK_ROW_SQL [] sa = (b, sb)" by fastforce
  have "statement_law eng rp MARK_TABLE_SQL [] (d_create ops MARK_TABLE_SQL)" "statement_law eng rp MARK_ROW_SQL [] (d_mark_row ops)"
    and m: "mark_laws ops"
    using assms(1) by (auto simp: apply_laws_def replay_laws_def)
  note la = this(1) [unfolded statement_law_def, rule_format, OF a] and lb = this(2) [unfolded statement_law_def, rule_format, OF b]
  from assms(2) a b la lb marked_table [OF m, of "db rp st"] show ?thesis
    by (auto simp: ensure_watermark_table_def then_do_def executes_def marked_def same_def rolled_back_def split: sum.splits)
qed

lemma read_outcome:
  assumes "apply_laws ops eng rp" and "d_mark ops (db rp st) = Some m" and "read_watermark_in_place eng st = (r, st2)"
  shows "same rp st st2 \<and> (case r of Panics \<Rightarrow> False | Returns (Inr v) \<Rightarrow> v = m | Returns (Inl _) \<Rightarrow> True)"
proof -
  obtain p st1 where p: "t_prepare eng MARK_READ_SQL st = (p, st1)" by fastforce
  obtain q st3 where q: "t_query eng MARK_READ_SQL [] st1 = (q, st3)" by fastforce
  have rl: "read_laws ops eng rp" using assms(1) by (simp add: apply_laws_def)
  have s1: "same rp st st1" using rl p unfolding read_laws_def by metis
  then have m1: "d_mark ops (db rp st1) = Some m" using assms(2) by (simp add: same_def)
  obtain cols where cols: "p = Inr cols" using rl p assms(2) unfolding read_laws_def by (cases p) auto
  have s3: "same rp st1 st3" and rows: "\<And>rows. q = Inr rows \<Longrightarrow>
      \<exists>o1 rows'. rows = o1 # rows' \<and> (case o1 of Inl _ \<Rightarrow> True | Inr row \<Rightarrow> row 0 = Inr (TInteger m))"
    using rl q m1 unfolding read_laws_def by metis+
  show ?thesis
  proof (cases q)
    case (Inl e)
    with assms(3) p cols q s1 s3 show ?thesis by (auto simp: read_watermark_in_place_def then_do_def queries_def same_def)
  next
    case (Inr rs)
    with rows obtain o1 rows' where o1: "rs = o1 # rows'" "case o1 of Inl _ \<Rightarrow> True | Inr row \<Rightarrow> row 0 = Inr (TInteger m)" by blast
    have "r = mark_value rs" "st2 = st3" using assms(3) p cols q Inr
      by (auto simp: read_watermark_in_place_def then_do_def queries_def)
    with o1 s1 s3 show ?thesis by (cases o1) (auto simp: mark_value_def same_def)
  qed
qed

text \<open>What applying a batch does to the contents \<open>d\<close>, once they are marked.\<close>

definition batch_spec :: "'d content_ops \<Rightarrow> txn_batch \<Rightarrow> 'd \<Rightarrow> 'd option" where
  "batch_spec ops batch d =
     (case d_mark ops d of
        None \<Rightarrow> None
      | Some m \<Rightarrow>
          if change_id (last batch) \<le> m then Some d
          else map_option (d_set_mark ops (change_id (last batch))) (replay_rows ops (filter (\<lambda>r. m < change_id r) batch) d))"

definition commit_failed :: "'e turso_engine \<Rightarrow> ('e, 'd) replica \<Rightarrow> 'd \<Rightarrow> 'e \<Rightarrow> bool" where
  "commit_failed eng rp d st1 \<longleftrightarrow> saved rp st1 = Some d \<and> (\<exists>st e. t_execute eng ''COMMIT'' [] st = (Inl e, st1) \<and> db rp st = db rp st1)"

lemma apply_in_transaction_outcome:
  assumes laws: "apply_laws ops eng rp" and auto_commit: "saved rp st = None"
    and run: "apply_in_transaction eng batch m cid st = (r, st')"
  shows "case r of
      Panics \<Rightarrow> False
    | Returns (Inr _) \<Rightarrow> saved rp st' = None \<and>
        map_option (d_set_mark ops cid) (replay_rows ops (filter (\<lambda>r. m < change_id r) batch) (db rp st)) = Some (db rp st')
    | Returns (Inl _) \<Rightarrow>
        saved rp st' = None \<and> db rp st' = db rp st \<or>
        commit_failed eng rp (db rp st) st' \<and>
          map_option (d_set_mark ops cid) (replay_rows ops (filter (\<lambda>r. m < change_id r) batch) (db rp st)) = Some (db rp st')"
proof -
  have tl: "transaction_laws eng rp" and rl: "replay_laws ops eng rp" "read_laws ops eng rp"
    using laws by (simp_all add: apply_laws_def)
  obtain b s1 where b: "t_execute eng ''BEGIN IMMEDIATE'' [] st = (b, s1)" by fastforce
  have B: "case b of Inr _ \<Rightarrow> db rp s1 = db rp st \<and> saved rp s1 = Some (db rp st) | Inl _ \<Rightarrow> same rp st s1"
    using tl b unfolding transaction_laws_def by (fastforce split: sum.split)
  show ?thesis
  proof (cases b)
    case (Inl e)
    with run b B auto_commit show ?thesis by (auto simp: apply_in_transaction_def then_do_def executes_def same_def)
  next
    case (Inr n)
    obtain q s2 where q: "apply_batch_inner eng batch m cid s1 = (q, s2)" by fastforce
    note Q = effect_inner [OF rl, unfolded effect_def, rule_format, OF q]
    from B Inr have s1: "db rp s1 = db rp st" "saved rp s1 = Some (db rp st)" by auto
    have run2: "(case q of
         Returns (Inr _) \<Rightarrow> executes eng ''COMMIT'' [] s2
       | Returns (Inl e) \<Rightarrow> (Returns (Inl e), snd (t_execute eng ''ROLLBACK'' [] s2))
       | Panics \<Rightarrow> (Panics, s2)) = (r, st')"
      using run b Inr q by (simp add: apply_in_transaction_def then_do_def executes_def split: rust_result.splits sum.splits)
    show ?thesis
    proof (cases q)
      case (Returns s)
      show ?thesis
      proof (cases s)
        case (Inl e)
        obtain k s3 where k: "t_execute eng ''ROLLBACK'' [] s2 = (k, s3)" by fastforce
        then have K: "if saved rp s2 = None then same rp s2 s3 else rolled_back rp s2 s3"
          using tl unfolding transaction_laws_def by blast
        have "r = Returns (Inl e)" "st' = s3" using run2 Returns Inl k by auto
        moreover have "saved rp s2 = Some (db rp st) \<or> saved rp s2 = None \<and> db rp s2 = db rp st"
          using Q Returns Inl s1 by (auto simp: rolled_back_def)
        ultimately show ?thesis using K by (auto simp: same_def rolled_back_def)
      next
        case (Inr v)
        obtain k s3 where k: "t_execute eng ''COMMIT'' [] s2 = (k, s3)" by fastforce
        then have K: "case k of Inr _ \<Rightarrow> db rp s3 = db rp s2 \<and> saved rp s3 = None | Inl _ \<Rightarrow> same rp s2 s3 \<or> rolled_back rp s2 s3"
          using tl unfolding transaction_laws_def by blast
        have s2: "map_option (d_set_mark ops cid) (replay_rows ops (filter (\<lambda>r. m < change_id r) batch) (db rp st)) = Some (db rp s2)"
          "saved rp s2 = Some (db rp st)"
          using Q Returns Inr s1 by (auto simp: option.map_comp)
        show ?thesis
        proof (cases k)
          case (Inl e)
          with run2 Returns Inr k have "r = Returns (Inl (map_turso_err e))" "st' = s3" by (auto simp: executes_def)
          with K Inl s2 k show ?thesis by (auto simp: same_def rolled_back_def commit_failed_def)
        next
          case (Inr n)
          with run2 Returns \<open>s = Inr v\<close> k have "r = Returns (Inr ())" "st' = s3" by (auto simp: executes_def)
          with K Inr s2 show ?thesis by auto
        qed
      qed
    qed (use Q in simp)
  qed
qed

lemma apply_batch_outcome:
  assumes laws: "apply_laws ops eng rp" and auto_commit: "saved rp st = None" and "apply_batch eng batch st = (r, st')"
  shows "case r of
      Panics \<Rightarrow> False
    | Returns (Inr _) \<Rightarrow> batch \<noteq> [] \<and> saved rp st' = None \<and> batch_spec ops batch (marked ops (db rp st)) = Some (db rp st')
    | Returns (Inl _) \<Rightarrow>
        saved rp st' = None \<and> marked ops (db rp st') = marked ops (db rp st) \<or>
        commit_failed eng rp (marked ops (db rp st)) st' \<and> batch_spec ops batch (marked ops (db rp st)) = Some (db rp st')"
proof (cases "batch = []")
  case True
  with assms(2,3) show ?thesis by (auto simp: apply_batch_def commit_change_id_def fails_def)
next
  case False
  let ?cid = "change_id (last batch)" and ?d = "marked ops (db rp st)"
  have ml: "mark_laws ops" and tl: "transaction_laws eng rp" using laws by (simp_all add: apply_laws_def)
  obtain m where m: "d_mark ops ?d = Some m" using marked_mark [OF ml] by blast
  have run: "apply_committed_batch eng batch ?cid st = (r, st')" using assms(3) False by (simp add: apply_batch_def commit_change_id_def)
  obtain a s1 where a: "ensure_watermark_table eng st = (a, s1)" by fastforce
  note A = ensure_outcome [OF laws a]
  obtain b s2 where b: "read_watermark_in_place eng s1 = (b, s2)" by fastforce
  show ?thesis
  proof (cases a)
    case (Returns s)
    show ?thesis
    proof (cases s)
      case (Inl e)
      with A Returns auto_commit run a show ?thesis by (auto simp: apply_committed_batch_def then_do_def)
    next
      case (Inr u)
      with A Returns have s1: "db rp s1 = ?d" "saved rp s1 = None" using auto_commit by auto
      with m have "d_mark ops (db rp s1) = Some m" by simp
      note B = read_outcome [OF laws this b]
      then have s2: "db rp s2 = ?d" "saved rp s2 = None" using s1 by (auto simp: same_def)
      show ?thesis
      proof (cases "b = Returns (Inr m)")
        case True
        then have run2: "(if ?cid \<le> m then yields () else apply_in_transaction eng batch m ?cid) s2 = (r, st')"
          using run a b Returns Inr by (simp add: apply_committed_batch_def then_do_def)
        show ?thesis
        proof (cases "?cid \<le> m")
          case True
          with run2 s2 m \<open>batch \<noteq> []\<close> show ?thesis by (auto simp: yields_def batch_spec_def)
        next
          case False
          with run2 have "apply_in_transaction eng batch m ?cid s2 = (r, st')" by simp
          note apply_in_transaction_outcome [OF laws s2(2) this]
          with s2 m False \<open>batch \<noteq> []\<close> marked_again [OF ml, of "db rp st"] show ?thesis
            by (auto simp: batch_spec_def split: rust_result.splits sum.splits)
        qed
      next
        case False
        with B obtain e where "b = Returns (Inl e)" by (auto split: rust_result.splits sum.splits)
        with run a b Returns Inr s2 marked_again [OF ml, of "db rp st"] show ?thesis
          by (auto simp: apply_committed_batch_def then_do_def)
      qed
    qed
  qed (use A in simp)
qed

section \<open>Streams of batches\<close>

definition user_row :: "cdc_row \<Rightarrow> bool" where
  "user_row row \<longleftrightarrow>
     (case table_name row of None \<Rightarrow> True | Some t \<Rightarrow> user_table t) \<and>
     (table_name row = Some ''sqlite_schema'' \<and> change_type row = DELETE \<longrightarrow>
        (case record_values (before row) of Some (_ # Text n # _) \<Rightarrow> user_table n | _ \<Rightarrow> True))"

lemma replay_row_mark:
  assumes "mark_laws ops" and "user_row row" and "d_mark ops d = Some m" and "replay_row ops row d = Some d1"
  shows "d_mark ops d1 = Some m"
proof (cases "change_type row = COMMIT")
  case True
  with assms show ?thesis by (simp add: replay_row_def)
next
  case False
  then obtain t where t: "table_name row = Some t" using assms(4) by (auto simp: replay_row_def split: if_splits option.splits)
  have ut: "user_table t" using assms(2) t by (simp add: user_row_def)
  show ?thesis
  proof (cases "t = ''sqlite_schema''")
    case schema: True
    with False t assms(4) have rs: "replay_schema ops row d = Some d1" by (auto simp: replay_row_def split: if_splits)
    show ?thesis
    proof (cases "change_type row = DELETE")
      case True
      then obtain ty n vs where n: "record_values (before row) = Some (Text ty # Text n # vs)"
        "d1 = (case drop_sql ty n of None \<Rightarrow> d | Some sql \<Rightarrow> d_drop ops sql d)"
        using rs by (auto simp: replay_schema_def split: option.splits list.splits backend_value.splits)
      have "user_table n" using assms(2) True schema t n(1) by (auto simp: user_row_def)
      with assms(1,3) n(2) show ?thesis unfolding mark_laws_def by (auto split: option.splits)
    next
      case False
      with rs assms(1,3) show ?thesis
        unfolding mark_laws_def replay_schema_def replayable_def
        by (auto split: option.splits list.splits backend_value.splits sum.splits if_splits)
    qed
  next
    case False
    with \<open>change_type row \<noteq> COMMIT\<close> t assms(4) have "replay_data ops t row d = Some d1" by (auto simp: replay_row_def split: if_splits)
    with assms(1,3) ut show ?thesis
      unfolding mark_laws_def replay_data_def by (auto simp: Let_def split: option.splits if_splits)
  qed
qed

lemma replay_rows_mark:
  "mark_laws ops \<Longrightarrow> list_all user_row rows \<Longrightarrow> d_mark ops d = Some m \<Longrightarrow> replay_rows ops rows d = Some d1 \<Longrightarrow> d_mark ops d1 = Some m"
  by (induction rows arbitrary: d) (auto split: option.splits dest: replay_row_mark)

text \<open>The transactions of a log applied in order, each once, with the watermark after each.\<close>

fun replay_batches :: "'d content_ops \<Rightarrow> txn_batch list \<Rightarrow> 'd \<Rightarrow> 'd option" where
  "replay_batches ops [] d = Some d"
| "replay_batches ops (b # bs) d =
     (case replay_rows ops b d of
        None \<Rightarrow> None
      | Some d1 \<Rightarrow> replay_batches ops bs (d_set_mark ops (change_id (last b)) d1))"

lemma replay_batches_append:
  "replay_batches ops (bs @ cs) d = (case replay_batches ops bs d of None \<Rightarrow> None | Some d1 \<Rightarrow> replay_batches ops cs d1)"
  by (induction bs arbitrary: d) (auto split: option.splits)

text \<open>
  Delivery: the sender hands over batches of the log by position, possibly again and again, each no later than
  the first one not yet acknowledged.
\<close>

fun deliver :: "'e turso_engine \<Rightarrow> txn_batch list \<Rightarrow> nat list \<Rightarrow> 'e \<Rightarrow> unit step list \<times> 'e" where
  "deliver eng bs [] st = ([], st)"
| "deliver eng bs (j # js) st =
     (let (r, st1) = apply_batch eng (bs ! j) st; (rs, st2) = deliver eng bs js st1 in (r # rs, st2))"

fun acknowledged :: "nat \<Rightarrow> nat list \<Rightarrow> unit step list \<Rightarrow> nat option" where
  "acknowledged k (j # js) (r # rs) =
     (if j \<le> k then acknowledged (case r of Returns (Inr _) \<Rightarrow> max k (j + 1) | _ \<Rightarrow> k) js rs else None)"
| "acknowledged k js rs = Some k"

definition commits_settle :: "'e turso_engine \<Rightarrow> ('e, 'd) replica \<Rightarrow> bool" where
  "commits_settle eng rp \<longleftrightarrow> (\<forall>st e st1. t_execute eng ''COMMIT'' [] st = (Inl e, st1) \<longrightarrow> saved rp st1 = None)"

definition mark_at :: "int \<Rightarrow> txn_batch list \<Rightarrow> nat \<Rightarrow> int" where
  "mark_at m0 bs k = (if k = 0 then m0 else change_id (last (bs ! (k - 1))))"

definition log_of :: "int \<Rightarrow> txn_batch list \<Rightarrow> bool" where
  "log_of m0 bs \<longleftrightarrow> list_all (\<lambda>b. b \<noteq> []) bs \<and> ordered (concat bs) \<and> list_all (\<lambda>r. m0 < change_id r \<and> user_row r) (concat bs)"

lemma log_order:
  assumes "log_of m0 bs"
  shows "i < j \<Longrightarrow> j < length bs \<Longrightarrow> r \<in> set (bs ! i) \<Longrightarrow> r' \<in> set (bs ! j) \<Longrightarrow> change_id r < change_id r'"
proof -
  assume ij: "i < j" "j < length bs" and r: "r \<in> set (bs ! i)" "r' \<in> set (bs ! j)"
  have "bs = take j bs @ drop j bs" by simp
  then have c: "concat bs = concat (take j bs) @ concat (drop j bs)" by (metis concat_append)
  have "bs ! i \<in> set (take j bs)" "bs ! j \<in> set (drop j bs)"
    using ij by (auto simp: in_set_conv_nth intro: exI [of _ i] exI [of _ 0])
  then have "r \<in> set (concat (take j bs))" "r' \<in> set (concat (drop j bs))" using r by auto
  moreover have "ordered (concat (take j bs) @ concat (drop j bs))" using assms c by (simp add: log_of_def)
  ultimately show "change_id r < change_id r'" unfolding ordered_def map_append sorted_wrt_append by force
qed

lemma mark_at_below:
  assumes "log_of m0 bs" and "k < length bs" and "r \<in> set (bs ! k)"
  shows "mark_at m0 bs k < change_id r"
proof (cases k)
  case 0
  have "bs ! k \<in> set bs" using assms(2) by simp
  with assms 0 show ?thesis by (auto simp: mark_at_def log_of_def list_all_iff)
next
  case (Suc i)
  then have "bs ! i \<noteq> []" using assms(1,2) by (auto simp: log_of_def list_all_length)
  with log_order [OF assms(1), of i k "last (bs ! i)" r] assms Suc show ?thesis by (simp add: mark_at_def)
qed

lemma mark_at_past:
  assumes "log_of m0 bs" and "j < k" and "k \<le> length bs"
  shows "change_id (last (bs ! j)) \<le> mark_at m0 bs k"
proof (cases "j = k - 1")
  case False
  have "bs ! j \<noteq> []" "bs ! (k - 1) \<noteq> []" using assms by (auto simp: log_of_def list_all_length)
  moreover have "j < k - 1" "k - 1 < length bs" using assms False by simp_all
  ultimately show ?thesis
    using log_order [OF assms(1), of j "k - 1" "last (bs ! j)" "last (bs ! (k - 1))"] assms(2) by (simp add: mark_at_def)
qed (use assms in \<open>simp add: mark_at_def\<close>)

text \<open>The first \<open>k\<close> transactions have been applied.\<close>

definition applied_upto :: "'d content_ops \<Rightarrow> ('e, 'd) replica \<Rightarrow> txn_batch list \<Rightarrow> 'd \<Rightarrow> int \<Rightarrow> nat \<Rightarrow> 'e \<Rightarrow> bool" where
  "applied_upto ops rp bs d0 m0 k st \<longleftrightarrow>
     saved rp st = None \<and> k \<le> length bs \<and> replay_batches ops (take k bs) d0 = Some (marked ops (db rp st)) \<and>
     d_mark ops (marked ops (db rp st)) = Some (mark_at m0 bs k)"

lemma apply_one:
  assumes laws: "apply_laws ops eng rp" "commits_settle eng rp" and log: "log_of m0 bs"
    and at: "applied_upto ops rp bs d0 m0 k st" and j: "j \<le> k" "j < length bs"
    and run: "apply_batch eng (bs ! j) st = (r, st')"
  shows "r \<noteq> Panics \<and> applied_upto ops rp bs d0 m0 (case r of Returns (Inr _) \<Rightarrow> max k (j + 1) | _ \<Rightarrow> k) st'"
proof -
  let ?b = "bs ! j" and ?d = "marked ops (db rp st)" and ?m = "mark_at m0 bs k"
  have ml: "mark_laws ops" using laws by (simp add: apply_laws_def)
  from at have st: "saved rp st = None" "replay_batches ops (take k bs) d0 = Some ?d" "d_mark ops ?d = Some ?m" "k \<le> length bs"
    by (auto simp: applied_upto_def)
  note O = apply_batch_outcome [OF laws(1) st(1) run]
  have open_txn: "\<not> commit_failed eng rp d st'" for d
    using laws(2) by (auto simp: commits_settle_def commit_failed_def)
  show ?thesis
  proof (cases r)
    case (Returns s)
    show ?thesis
    proof (cases s)
      case (Inl e)
      with O Returns open_txn at show ?thesis by (auto simp: applied_upto_def)
    next
      case (Inr u)
      with O Returns have ok: "saved rp st' = None" "batch_spec ops ?b ?d = Some (db rp st')" by auto
      show ?thesis
      proof (cases "j < k")
        case True
        with mark_at_past [OF log True st(4)] st(3) ok(2) have "db rp st' = ?d" by (simp add: batch_spec_def)
        moreover have "max k (j + 1) = k" using True by simp
        ultimately show ?thesis using ok at Returns Inr marked_again [OF ml, of "db rp st"] by (simp add: applied_upto_def)
      next
        case False
        with j have jk: "j = k" by simp
        have b: "?b \<noteq> []" using log j(2) by (auto simp: log_of_def list_all_length)
        have above: "\<forall>r\<in>set ?b. ?m < change_id r" using mark_at_below [OF log] j(2) jk by blast
        then have "\<not> change_id (last ?b) \<le> ?m" "filter (\<lambda>r. ?m < change_id r) ?b = ?b"
          using b by (auto simp: filter_id_conv not_le)
        with ok(2) st(3) obtain d1 where d1: "replay_rows ops ?b ?d = Some d1" "db rp st' = d_set_mark ops (change_id (last ?b)) d1"
          by (auto simp: batch_spec_def)
        have "?b \<in> set bs" using j(2) by simp
        then have "list_all user_row ?b" using log by (auto simp: log_of_def list_all_iff)
        from replay_rows_mark [OF ml this st(3) d1(1)] have "d_mark ops (db rp st') = Some (change_id (last ?b))"
          using ml d1(2) by (simp add: mark_laws_def)
        moreover have "replay_batches ops (take (Suc k) bs) d0 = Some (db rp st')"
          using j(2) jk st(2) d1 by (simp add: take_Suc_conv_app_nth replay_batches_append)
        ultimately show ?thesis
          using ok(1) jk j(2) Returns Inr marked_id [OF ml] by (auto simp: applied_upto_def mark_at_def)
      qed
    qed
  qed (use O in simp)
qed

lemma deliver_applied:
  assumes laws: "apply_laws ops eng rp" "commits_settle eng rp" and log: "log_of m0 bs"
    and "list_all (\<lambda>j. j < length bs) js"
    and "applied_upto ops rp bs d0 m0 k st" and "deliver eng bs js st = (rs, st')" and "acknowledged k js rs = Some n"
  shows "list_all (\<lambda>r. r \<noteq> Panics) rs \<and> applied_upto ops rp bs d0 m0 n st'"
  using assms(4-7)
proof (induction js arbitrary: k st rs)
  case (Cons j js)
  obtain r st1 where r: "apply_batch eng (bs ! j) st = (r, st1)" by fastforce
  obtain rs1 where rs1: "deliver eng bs js st1 = (rs1, st')" "rs = r # rs1" using Cons(4) r by (auto split: prod.splits)
  let ?k = "case r of Returns (Inr _) \<Rightarrow> max k (j + 1) | _ \<Rightarrow> k"
  have j: "j \<le> k" "j < length bs" "acknowledged ?k js rs1 = Some n" using Cons(2,5) rs1 by (auto split: if_splits)
  note one = apply_one [OF laws log Cons(3) j(1,2) r]
  with Cons(1) [of ?k st1 rs1] Cons(2) rs1 j(3) show ?case by simp
qed simp

section \<open>An engine that keeps a journal\<close>

text \<open>
  An engine for concrete runs: the contents are the watermark and the statements executed, in order. With
  \<open>stuck\<close> its COMMIT fails and leaves the transaction open.
\<close>

type_synonym journal = "int option \<times> (string \<times> turso_value list) list"

record journal_state =
  j_db :: journal
  j_saved :: "journal option"

definition journal_ops :: "journal content_ops" where
  "journal_ops =
     \<lparr>d_mark = fst, d_mark_row = (\<lambda>(m, l). (Some (case m of None \<Rightarrow> 0 | Some i \<Rightarrow> i), l)),
      d_set_mark = (\<lambda>cid (m, l). (if m = None then None else Some cid, l)), d_columns = (\<lambda>d t. [''a'']),
      d_put = (\<lambda>t cols i vs (m, l). (m, l @ [(insert_sql t cols (length vs), TInteger i # vs)])),
      d_delete = (\<lambda>t i (m, l). (m, l @ [(delete_sql t, [TInteger i])])),
      d_create = (\<lambda>sql (m, l). (m, if sql = MARK_TABLE_SQL then l else l @ [(sql, [])])),
      d_drop = (\<lambda>sql (m, l). (m, l @ [(sql, [])]))\<rparr>"

definition journal_execute :: "bool \<Rightarrow> string \<Rightarrow> turso_value list \<Rightarrow> journal_state \<Rightarrow> (turso_error + u64) \<times> journal_state" where
  "journal_execute stuck sql ps st =
     (let refused = Inl \<lparr>busy_message = None, error_text = ''refused''\<rparr> in
      if sql = ''BEGIN IMMEDIATE'' then
        (if j_saved st = None then (Inr 0, st\<lparr>j_saved := Some (j_db st)\<rparr>) else (refused, st))
      else if sql = ''COMMIT'' then
        (if stuck then (refused, st) else (Inr 0, st\<lparr>j_saved := None\<rparr>))
      else if sql = ''ROLLBACK'' then
        (case j_saved st of None \<Rightarrow> (refused, st) | Some d \<Rightarrow> (Inr 0, st\<lparr>j_db := d, j_saved := None\<rparr>))
      else if sql = MARK_TABLE_SQL then (Inr 0, st)
      else if sql = MARK_ROW_SQL then (Inr 1, st\<lparr>j_db := d_mark_row journal_ops (j_db st)\<rparr>)
      else if sql = MARK_SET_SQL then
        (case ps of TInteger cid # _ \<Rightarrow> (Inr 1, st\<lparr>j_db := d_set_mark journal_ops cid (j_db st)\<rparr>) | _ \<Rightarrow> (refused, st))
      else (Inr 1, st\<lparr>j_db := (fst (j_db st), snd (j_db st) @ [(sql, ps)])\<rparr>))"

definition journal_engine :: "bool \<Rightarrow> journal_state turso_engine" where
  "journal_engine stuck =
     \<lparr>t_connect = (\<lambda>st. (Inr (), st)), t_prepare = (\<lambda>sql st. (Inr [], st)),
      t_query = (\<lambda>sql ps st.
        (Inr (if sql = MARK_READ_SQL then (case fst (j_db st) of None \<Rightarrow> [] | Some m \<Rightarrow> [Inr (\<lambda>i. Inr (TInteger m))])
              else [Inr (\<lambda>i. Inr (TText ''a''))]), st)),
      t_execute = journal_execute stuck, t_is_autocommit = (\<lambda>st. Inr (j_saved st = None)), t_last_insert_rowid = (\<lambda>st. 0),
      t_debug = (\<lambda>v. []), v_debug = (\<lambda>v. [])\<rparr>"

definition journal_replica :: "(journal_state, journal) replica" where
  "journal_replica = \<lparr>db = j_db, saved = j_saved\<rparr>"

lemmas journal_defs = journal_ops_def journal_engine_def journal_replica_def

lemma not_replayable:
  "\<not> replayable ''BEGIN IMMEDIATE''" "\<not> replayable ''COMMIT''" "\<not> replayable ''ROLLBACK''"
  "\<not> replayable MARK_ROW_SQL" "\<not> replayable MARK_SET_SQL"
proof -
  have "list_all (\<lambda>sql. case classify_replayed_ddl sql of Inl _ \<Rightarrow> True | Inr _ \<Rightarrow> False)
      [''BEGIN IMMEDIATE'', ''COMMIT'', ''ROLLBACK'', MARK_ROW_SQL, MARK_SET_SQL]" by code_simp
  then show "\<not> replayable ''BEGIN IMMEDIATE''" "\<not> replayable ''COMMIT''" "\<not> replayable ''ROLLBACK''"
    "\<not> replayable MARK_ROW_SQL" "\<not> replayable MARK_SET_SQL"
    by (auto simp: replayable_def split: sum.splits)
qed

lemma journal_statement:
  "sql \<notin> {''BEGIN IMMEDIATE'', ''COMMIT'', ''ROLLBACK'', MARK_TABLE_SQL, MARK_ROW_SQL, MARK_SET_SQL} \<Longrightarrow>
    statement_law (journal_engine stuck) journal_replica sql ps (\<lambda>(m, l). (m, l @ [(sql, ps)]))"
  by (auto simp: statement_law_def journal_engine_def journal_replica_def journal_execute_def case_prod_beta)

lemma journal_special:
  "statement_law (journal_engine stuck) journal_replica MARK_TABLE_SQL [] (d_create journal_ops MARK_TABLE_SQL)"
  "statement_law (journal_engine stuck) journal_replica MARK_ROW_SQL [] (d_mark_row journal_ops)"
  "statement_law (journal_engine stuck) journal_replica MARK_SET_SQL [TInteger cid] (d_set_mark journal_ops cid)"
  by (auto simp: statement_law_def journal_engine_def journal_replica_def journal_execute_def journal_ops_def case_prod_beta
      MARK_TABLE_SQL_def MARK_ROW_SQL_def MARK_SET_SQL_def)

lemma journal_replay_laws: "replay_laws journal_ops (journal_engine stuck) journal_replica"
proof -
  have "statement_law (journal_engine stuck) journal_replica (insert_sql t cols (length vs)) (TInteger i # vs) (d_put journal_ops t cols i vs)"
    for t cols i and vs :: "turso_value list"
    using journal_statement [of "insert_sql t cols (length vs)" stuck "TInteger i # vs"]
    by (simp add: journal_ops_def insert_sql_def MARK_TABLE_SQL_def MARK_ROW_SQL_def MARK_SET_SQL_def)
  moreover have "statement_law (journal_engine stuck) journal_replica (delete_sql t) [TInteger i] (d_delete journal_ops t i)" for t i
    using journal_statement [of "delete_sql t" stuck "[TInteger i]"]
    by (simp add: journal_ops_def delete_sql_def MARK_TABLE_SQL_def MARK_ROW_SQL_def MARK_SET_SQL_def)
  moreover have "statement_law (journal_engine stuck) journal_replica sql [] (d_drop journal_ops sql)" if "drop_sql ty n = Some sql" for ty n sql
    using journal_statement [of sql stuck "[]"] that
    by (auto simp: journal_ops_def drop_sql_def MARK_TABLE_SQL_def MARK_ROW_SQL_def MARK_SET_SQL_def split: if_splits)
  moreover have "statement_law (journal_engine stuck) journal_replica sql [] (d_create journal_ops sql)" if "replayable sql" for sql
  proof (cases "sql = MARK_TABLE_SQL")
    case False
    with that not_replayable journal_statement [of sql stuck "[]"] show ?thesis by (auto simp: journal_ops_def)
  qed (simp add: journal_special)
  ultimately show ?thesis by (simp add: replay_laws_def journal_special)
qed

lemma journal_laws: "apply_laws journal_ops (journal_engine stuck) journal_replica"
proof -
  have "transaction_laws (journal_engine stuck) journal_replica"
    unfolding transaction_laws_def
    by (auto simp: journal_engine_def journal_replica_def journal_execute_def same_def rolled_back_def split: option.splits if_splits)
  moreover have "table_info_sql t \<noteq> MARK_READ_SQL" for t by (simp add: MARK_READ_SQL_def table_info_sql_def)
  then have "read_laws journal_ops (journal_engine stuck) journal_replica"
    by (auto simp: read_laws_def journal_defs same_def)
  moreover have "mark_laws journal_ops" by (auto simp: mark_laws_def journal_ops_def)
  ultimately show ?thesis by (simp add: apply_laws_def journal_replay_laws)
qed

lemma delivered_once:
  assumes "apply_laws ops eng rp" and "commits_settle eng rp"
    and "saved rp st = None" and "log_of (case d_mark ops (db rp st) of None \<Rightarrow> 0 | Some m \<Rightarrow> m) bs"
    and "list_all (\<lambda>j. j < length bs) js" and "deliver eng bs js st = (rs, st')" and "acknowledged 0 js rs = Some n"
  shows "replay_batches ops (take n bs) (marked ops (db rp st)) = Some (marked ops (db rp st')) \<and>
    saved rp st' = None \<and> list_all (\<lambda>r. r \<noteq> Panics) rs"
proof -
  have ml: "mark_laws ops" using assms(1) by (simp add: apply_laws_def)
  have "applied_upto ops rp bs (marked ops (db rp st)) (case d_mark ops (db rp st) of None \<Rightarrow> 0 | Some m \<Rightarrow> m) 0 st"
    using assms(3) marked_mark [OF ml] by (simp add: applied_upto_def mark_at_def)
  from deliver_applied [OF assms(1,2,4,5) this assms(6,7)] show ?thesis by (auto simp: applied_upto_def)
qed


definition demo_change :: "int \<Rightarrow> int \<Rightarrow> cdc_row" where
  "demo_change cid ty = (demo_row cid ty)\<lparr>table_name := Some ''t'', after := Some [2, 9]\<rparr>"

definition demo_batches :: "txn_batch list" where
  "demo_batches = [[demo_change 1 INSERT, demo_row 2 COMMIT], [demo_change 3 DELETE, demo_row 4 COMMIT]]"

definition demo_replica :: journal_state where
  "demo_replica = \<lparr>j_db = (None, []), j_saved = None\<rparr>"

lemma demo_log_of: "log_of 0 demo_batches"
proof -
  have "user_table ''t''" by code_simp
  then show ?thesis
    by (simp add: log_of_def demo_batches_def demo_change_def demo_row_def ordered_def user_row_def change_types)
qed

lemma demo_delivered:
  "fst (deliver (journal_engine False) demo_batches [0, 0, 1] demo_replica) = [Returns (Inr ()), Returns (Inr ()), Returns (Inr ())]"
  by code_simp


text \<open>
  Property C33 (a failed COMMIT is reported as applied on retry). If applying a batch fails because COMMIT failed
  and left the transaction open, nothing rolls it back: the retry the documentation asks for sees the uncommitted
  watermark, answers that the batch is applied, and leaves the transaction open over the old contents.
\<close>

theorem retry_after_failed_commit:
  assumes laws: "apply_laws ops eng rp" and "saved rp st = None" and "list_all user_row batch"
    and fail: "apply_batch eng batch st = (Returns (Inl e), st1)" and still_open: "saved rp st1 \<noteq> None"
    and "ensure_watermark_table eng st1 = (Returns (Inr ()), st2)" and "read_watermark_in_place eng st2 = (Returns (Inr current), st3)"
  shows "apply_batch eng batch st1 = (Returns (Inr ()), st3) \<and> saved rp st3 = Some (marked ops (db rp st))"
proof -
  have ml: "mark_laws ops" using laws by (simp add: apply_laws_def)
  have ne: "batch \<noteq> []" using assms(2) fail still_open by (auto simp: apply_batch_def commit_change_id_def fails_def)
  from apply_batch_outcome [OF laws assms(2) fail] still_open
  have failed: "saved rp st1 = Some (marked ops (db rp st))" "batch_spec ops batch (marked ops (db rp st)) = Some (db rp st1)"
    by (auto simp: commit_failed_def)
  obtain m where m: "d_mark ops (marked ops (db rp st)) = Some m" using marked_mark [OF ml] by blast
  have "\<exists>m1. d_mark ops (db rp st1) = Some m1 \<and> change_id (last batch) \<le> m1"
  proof (cases "change_id (last batch) \<le> m")
    case True
    with failed(2) m show ?thesis by (simp add: batch_spec_def)
  next
    case False
    with failed(2) m obtain d1 where d1: "replay_rows ops (filter (\<lambda>r. m < change_id r) batch) (marked ops (db rp st)) = Some d1"
      "db rp st1 = d_set_mark ops (change_id (last batch)) d1" by (auto simp: batch_spec_def)
    have "list_all user_row (filter (\<lambda>r. m < change_id r) batch)" using assms(3) by (simp add: list_all_iff)
    from replay_rows_mark [OF ml this m d1(1)] ml d1(2) show ?thesis by (simp add: mark_laws_def)
  qed
  then obtain m1 where m1: "d_mark ops (db rp st1) = Some m1" "change_id (last batch) \<le> m1" by blast
  from ensure_outcome [OF laws assms(6)] marked_id [OF ml m1(1)] have s2: "db rp st2 = db rp st1" "saved rp st2 = saved rp st1" by auto
  with read_outcome [OF laws _ assms(7)] m1(1) have "current = m1" "same rp st2 st3" by auto
  with s2 m1(2) failed(1) assms(6,7) ne show ?thesis
    by (simp add: apply_batch_def commit_change_id_def apply_committed_batch_def then_do_def yields_def same_def)
qed

lemma demo_retry:
  "let (r1, st1) = apply_batch (journal_engine True) (hd demo_batches) demo_replica;
       (r2, st2) = ensure_watermark_table (journal_engine True) st1;
       (r3, st3) = read_watermark_in_place (journal_engine True) st2
   in (\<exists>e. r1 = Returns (Inl e)) \<and> j_saved st1 \<noteq> None \<and> r2 = Returns (Inr ()) \<and> r3 = Returns (Inr 2)"
proof -
  have "let (r1, st1) = apply_batch (journal_engine True) (hd demo_batches) demo_replica;
       (r2, st2) = ensure_watermark_table (journal_engine True) st1;
       (r3, st3) = read_watermark_in_place (journal_engine True) st2
   in (case r1 of Returns (Inl e) \<Rightarrow> True | _ \<Rightarrow> False) \<and> j_saved st1 \<noteq> None \<and> r2 = Returns (Inr ()) \<and> r3 = Returns (Inr 2)"
    by code_simp
  then show ?thesis by (auto simp: Let_def split: prod.splits rust_result.splits sum.splits)
qed

theorem retry_after_failed_commit_witness:
  "\<exists>e st1 st3. apply_batch (journal_engine True) (hd demo_batches) demo_replica = (Returns (Inl e), st1) \<and>
     apply_batch (journal_engine True) (hd demo_batches) st1 = (Returns (Inr ()), st3) \<and> j_saved st3 = Some (Some 0, [])"
proof -
  obtain e st1 st2 st3 where r: "apply_batch (journal_engine True) (hd demo_batches) demo_replica = (Returns (Inl e), st1)"
    "j_saved st1 \<noteq> None" "ensure_watermark_table (journal_engine True) st1 = (Returns (Inr ()), st2)"
    "read_watermark_in_place (journal_engine True) st2 = (Returns (Inr 2), st3)"
    using demo_retry by (auto simp: Let_def split: prod.splits)
  have "list_all user_row (hd demo_batches)" using demo_log_of by (simp add: log_of_def demo_batches_def)
  from retry_after_failed_commit [OF journal_laws _ this r(1) _ r(3,4)] r show ?thesis
    by (fastforce simp: journal_replica_def demo_replica_def marked_def journal_ops_def)
qed

end
