(* ===== verification/Turso_Conn.thy ===== *)
theory Turso_Conn
  imports Turso_Engine Cdc_Ddl Sql_Text
begin

text \<open>
  Sessions of the Turso backend (\<^verbatim>\<open>src/crates/litewire-turso/src/lib.rs\<close>): the scans of a statement's text,
  statements with their parameter check, change capture turned on before the first write, the WAL gate permit
  kept across transactions, and the pool of idle connections. The engine is the parameter of \<^verbatim>\<open>Turso_Engine\<close>, one
  record per connection over a shared state; the session mutex serialises the statements of a session, so
  each operation is one function of the state. The gate permit is a flag of the session.
\<close>

section \<open>Scanning a statement\<close>

fun after_quote :: "char \<Rightarrow> string \<Rightarrow> string" where
  "after_quote q [] = []"
| "after_quote q (c # s) =
     (if c = q then (case s of [] \<Rightarrow> [] | d # s' \<Rightarrow> if d = q then after_quote q s' else s) else after_quote q s)"

definition is_name_char :: "char \<Rightarrow> bool" where
  "is_name_char c \<longleftrightarrow> is_ascii_alphanumeric c \<or> c = CHR ''_'' \<or> c = CHR ''$''"

text \<open>The suffixes of a \<^verbatim>\<open>$name\<close>: \<^verbatim>\<open>::segment\<close> any number of times, then one group in parentheses.\<close>

function tcl_segments :: "string \<Rightarrow> string \<times> string" where
  "tcl_segments s =
     (case strip_prefix s ''::'' of
        None \<Rightarrow> ([], s)
      | Some r \<Rightarrow>
          (let (t, r') = tcl_segments (dropWhile is_name_char r) in (''::'' @ takeWhile is_name_char r @ t, r')))"
  by pat_completeness auto
termination
  by (relation "measure length")
    (auto simp: strip_prefix_Some le_imp_less_Suc less_SucI length_dropWhile_le)

declare tcl_segments.simps [simp del]

definition tcl_paren :: "string \<Rightarrow> string \<times> string" where
  "tcl_paren s =
     (if starts_with s ''('' then
        (let a = takeWhile (\<lambda>c. c \<noteq> CHR '')'') s; r = dropWhile (\<lambda>c. c \<noteq> CHR '')'') s in (a @ take 1 r, drop 1 r))
      else ([], s))"

definition named_param :: "char \<Rightarrow> string \<Rightarrow> string \<times> string" where
  "named_param c s =
     (let w = takeWhile is_name_char s; r = dropWhile is_name_char s in
      if c = CHR ''$'' then
        (let (t, r1) = tcl_segments r; (u, r2) = tcl_paren r1 in (c # w @ t @ u, r2))
      else (c # w, r))"

lemma after_quote_le: "length (after_quote q s) \<le> length s"
proof (induction q s rule: after_quote.induct)
  case (2 q c s)
  then show ?case by (cases s) auto
qed simp

lemma tcl_segments_le: "length (snd (tcl_segments s)) \<le> length s"
proof (induction s rule: tcl_segments.induct)
  case (1 s)
  show ?case
  proof (cases "strip_prefix s ''::''")
    case None
    then show ?thesis by (simp add: tcl_segments.simps [of s])
  next
    case (Some r)
    have "length (snd (tcl_segments (dropWhile is_name_char r))) \<le> length r"
      by (rule order_trans [OF 1 [OF Some] length_dropWhile_le])
    moreover have "snd (tcl_segments s) = snd (tcl_segments (dropWhile is_name_char r))"
      using Some by (simp add: tcl_segments.simps [of s] case_prod_beta Let_def)
    ultimately show ?thesis using Some by (simp add: strip_prefix_Some)
  qed
qed

lemma named_param_le: "length (snd (named_param c s)) \<le> length s"
proof -
  have "length (snd (tcl_paren t)) \<le> length t" for t
    by (auto simp: tcl_paren_def Let_def intro: order_trans [OF diff_le_self length_dropWhile_le])
  then have "length (snd (tcl_paren (snd (tcl_segments r)))) \<le> length r" for r
    using tcl_segments_le order_trans by blast
  then show ?thesis
    using order_trans [OF _ length_dropWhile_le] by (auto simp: named_param_def Let_def case_prod_beta)
qed

function count_params :: "nat \<Rightarrow> string list \<Rightarrow> string \<Rightarrow> nat" where
  "count_params max_index named [] = max_index"
| "count_params max_index named (c # s) =
     (if is_quote c then count_params max_index named (after_quote c s)
      else if c = CHR ''['' then count_params max_index named (drop 1 (dropWhile (\<lambda>x. x \<noteq> CHR '']'') s))
      else if c = CHR ''-'' \<and> starts_with s ''-'' then count_params max_index named (dropWhile (\<lambda>x. x \<noteq> newline) s)
      else if c = CHR ''/'' \<and> starts_with s ''*'' then count_params max_index named (skip_comment (drop 1 s))
      else if c = CHR ''?'' then
        (let digits = takeWhile is_ascii_digit s; r = dropWhile is_ascii_digit s in
         if digits \<noteq> [] then
           count_params (max max_index (case parse_usize digits of None \<Rightarrow> 0 | Some n \<Rightarrow> n)) named r
         else count_params (max_index + 1) named r)
      else if c = CHR '':'' \<or> c = CHR ''@'' \<or> c = CHR ''$'' then
        (let (name, r) = named_param c s in
         if (1 < length name \<or> c = CHR ''$'') \<and> name \<notin> set named
         then count_params (max_index + 1) (named @ [name]) r
         else count_params max_index named r)
      else count_params max_index named s)"
  by pat_completeness auto
termination
proof (relation "measure (\<lambda>(m, named, s). length s)", goal_cases)
  case (2 m named c s)
  then show ?case using after_quote_le [of c s] by simp
next
  case (3 m named c s)
  then show ?case using length_dropWhile_le [of "\<lambda>x. x \<noteq> CHR '']''" s] by simp
next
  case (4 m named c s)
  then show ?case using length_dropWhile_le [of "\<lambda>x. x \<noteq> newline" s] by simp
next
  case (5 m named c s)
  then show ?case using skip_comment_le [of "drop 1 s"] by simp
next
  case (6 m named c s digits r)
  then show ?case using length_dropWhile_le [of is_ascii_digit s] by simp
next
  case (7 m named c s digits r)
  then show ?case using length_dropWhile_le [of is_ascii_digit s] by simp
next
  case (8 m named c s p name r)
  then show ?case using named_param_le [of c s] by (metis in_measure case_prod_conv le_imp_less_Suc length_Cons snd_conv)
next
  case (9 m named c s p name r)
  then show ?case using named_param_le [of c s] by (metis in_measure case_prod_conv le_imp_less_Suc length_Cons snd_conv)
qed auto

declare count_params.simps [simp del]

definition expected_param_count :: "string \<Rightarrow> nat" where
  "expected_param_count sql = count_params 0 [] sql"

definition check_param_count :: "string \<Rightarrow> nat \<Rightarrow> backend_error + unit" where
  "check_param_count sql got =
     (let needed = expected_param_count sql in
      if got \<noteq> needed then
        Inl (Sqlite (''Wrong number of parameters passed to query. Got '' @ show_nat got @ '', needed '' @ show_nat needed))
      else Inr ())"

text \<open>\<^verbatim>\<open>get(..6)\<close> answers \<^verbatim>\<open>None\<close> when byte 6 is inside a character or past the end.\<close>

definition reject_unsupported :: "string \<Rightarrow> backend_error + unit" where
  "reject_unsupported sql =
     (let s = trim_start sql;
          first = (if length s < 6 \<or> (6 < length s \<and> \<not> starts_char (s ! 6)) then [] else take 6 s) in
      if eq_ignore_ascii_case first ''VACUUM'' then
        Inl (Other ''VACUUM is not supported by the experimental Turso backend (incomplete upstream in Turso 0.7.0)'')
      else Inr ())"

definition sql_uses_pragma_tvf :: "string \<Rightarrow> bool" where
  "sql_uses_pragma_tvf sql \<longleftrightarrow> contains_str (to_ascii_lowercase sql) ''pragma_''"

lemma trim_after_le:
  "length (trim_start (case after_newline rest of None \<Rightarrow> [] | Some t \<Rightarrow> t)) \<le> length rest"
  "length (trim_start (case after_block rest of None \<Rightarrow> [] | Some t \<Rightarrow> t)) \<le> length rest"
  by (rule order_trans [OF length_trim_start], use after_shorter in \<open>auto split: option.split\<close>)+

function trivia_loop :: "string \<Rightarrow> string" where
  "trivia_loop s =
     (case strip_prefix s ''--'' of
        Some rest \<Rightarrow> trivia_loop (trim_start (case after_newline rest of None \<Rightarrow> [] | Some t \<Rightarrow> t))
      | None \<Rightarrow>
          (case strip_prefix s ''/*'' of
             Some rest \<Rightarrow> trivia_loop (trim_start (case after_block rest of None \<Rightarrow> [] | Some t \<Rightarrow> t))
           | None \<Rightarrow> s))"
  by pat_completeness auto
termination
proof (relation "measure length", goal_cases)
  case (2 s rest)
  then show ?case using trim_after_le(2) [of rest] by (auto simp: strip_prefix_Some)
next
  case (3 s rest)
  then show ?case using trim_after_le(1) [of rest] by (auto simp: strip_prefix_Some)
qed simp

declare trivia_loop.simps [simp del]

definition strip_leading_trivia :: "string \<Rightarrow> string" where
  "strip_leading_trivia sql = trivia_loop (trim_start sql)"

definition leading_ident :: "string \<Rightarrow> string" where
  "leading_ident s = takeWhile (\<lambda>c. is_ascii_alphanumeric c \<or> c = CHR ''_'') s"

definition statement_dirties_connection :: "string \<Rightarrow> bool" where
  "statement_dirties_connection sql =
     (let s = strip_leading_trivia sql; kw = leading_ident s in
      if eq_ignore_ascii_case kw ''PRAGMA'' then CHR ''='' \<in> set s
      else if eq_ignore_ascii_case kw ''ATTACH'' \<or> eq_ignore_ascii_case kw ''DETACH'' then True
      else if eq_ignore_ascii_case kw ''CREATE'' then
        (let w2 = leading_ident (strip_leading_trivia (drop (length kw) s)) in
         eq_ignore_ascii_case w2 ''TEMP'' \<or> eq_ignore_ascii_case w2 ''TEMPORARY'')
      else False)"

definition statement_is_plain_read :: "string \<Rightarrow> bool" where
  "statement_is_plain_read sql =
     (let s = strip_leading_trivia sql in
      eq_ignore_ascii_case (leading_ident s) ''SELECT'' \<and>
      CHR '';'' \<notin> set (trim_end_matches (\<lambda>c. c = CHR '';'') (trim_end s)))"

definition is_busy_message :: "string \<Rightarrow> bool" where
  "is_busy_message m \<longleftrightarrow> contains_str m ''(SQLITE_BUSY)''"

section \<open>Running a statement\<close>

fun row_values :: "turso_row \<Rightarrow> nat list \<Rightarrow> backend_error + backend_value list" where
  "row_values row [] = Inr []"
| "row_values row (i # is) =
     (case mapped (row i) of
        Inl e \<Rightarrow> Inl e
      | Inr v \<Rightarrow> (case row_values row is of Inl e \<Rightarrow> Inl e | Inr vs \<Rightarrow> Inr (from_turso v # vs)))"

fun collect_rows :: "nat \<Rightarrow> turso_rows \<Rightarrow> backend_error + backend_value list list" where
  "collect_rows n [] = Inr []"
| "collect_rows n (Inl e # rows) = Inl (map_turso_err e)"
| "collect_rows n (Inr row # rows) =
     (case row_values row [0..<n] of
        Inl e \<Rightarrow> Inl e
      | Inr vs \<Rightarrow> (case collect_rows n rows of Inl e \<Rightarrow> Inl e | Inr vss \<Rightarrow> Inr (vs # vss)))"

definition to_columns :: "(string \<times> string option) list \<Rightarrow> column list" where
  "to_columns cols = map (\<lambda>(n, d). \<lparr>col_name = n, decltype = d\<rparr>) cols"

text \<open>The empty transaction that ends the phantom one a pragma function leaves behind.\<close>

definition flush_phantom :: "'e turso_engine \<Rightarrow> 'e \<Rightarrow> (backend_error + unit) \<times> 'e" where
  "flush_phantom eng st =
     (case t_execute eng ''BEGIN'' [] st of
        (Inl e, st1) \<Rightarrow> (Inl (map_turso_err e), st1)
      | (Inr _, st1) \<Rightarrow>
          (case t_execute eng ''COMMIT'' [] st1 of
             (Inl e, st2) \<Rightarrow> (Inl (map_turso_err e), st2)
           | (Inr _, st2) \<Rightarrow> (Inr (), st2)))"

definition query_on :: "'e turso_engine \<Rightarrow> string \<Rightarrow> backend_value list \<Rightarrow> 'e \<Rightarrow> (backend_error + result_set) \<times> 'e" where
  "query_on eng sql params st =
     (case t_prepare eng sql st of
        (Inl e, st1) \<Rightarrow> (Inl (map_turso_err e), st1)
      | (Inr cols, st1) \<Rightarrow>
          (case check_param_count sql (length params) of
             Inl e \<Rightarrow> (Inl e, st1)
           | Inr _ \<Rightarrow>
               (case t_query eng sql (map to_turso_value params) st1 of
                  (Inl e, st2) \<Rightarrow> (Inl (map_turso_err e), st2)
                | (Inr rows, st2) \<Rightarrow>
                    (case collect_rows (length cols) rows of
                       Inl e \<Rightarrow> (Inl e, st2)
                     | Inr vss \<Rightarrow>
                         let rs = \<lparr>rs_columns = to_columns cols, rs_rows = vss\<rparr> in
                         if sql_uses_pragma_tvf sql then
                           (case flush_phantom eng st2 of
                              (Inl e, st3) \<Rightarrow> (Inl e, st3)
                            | (Inr _, st3) \<Rightarrow> (Inr rs, st3))
                         else (Inr rs, st2)))))"

definition execute_on ::
  "'e turso_engine \<Rightarrow> string \<Rightarrow> backend_value list \<Rightarrow> int \<Rightarrow> 'e \<Rightarrow> (backend_error + execute_result) \<times> 'e" where
  "execute_on eng sql params baseline_rowid st =
     (case t_prepare eng sql st of
        (Inl e, st1) \<Rightarrow> (Inl (map_turso_err e), st1)
      | (Inr cols, st1) \<Rightarrow>
          (case check_param_count sql (length params) of
             Inl e \<Rightarrow> (Inl e, st1)
           | Inr _ \<Rightarrow>
               (case t_execute eng sql (map to_turso_value params) st1 of
                  (Inl e, st2) \<Rightarrow> (Inl (map_turso_err e), st2)
                | (Inr affected, st2) \<Rightarrow>
                    let last_id = t_last_insert_rowid eng st2 in
                    (Inr \<lparr>affected_rows = affected,
                          last_insert_rowid = (if last_id \<noteq> 0 \<and> last_id \<noteq> baseline_rowid then Some (of_int last_id) else None)\<rparr>, st2))))"

section \<open>Sessions\<close>

record turso_conn =
  has_gate :: bool
  permit_held :: bool
  capture_pending :: bool
  has_reuse :: bool
  baseline_rowid :: int
  dirty :: bool
  busy_timeout_ms :: nat

definition turso_conn_new :: "bool \<Rightarrow> bool \<Rightarrow> int \<Rightarrow> bool \<Rightarrow> nat \<Rightarrow> turso_conn" where
  "turso_conn_new gate reuse baseline on timeout =
     \<lparr>has_gate = gate, permit_held = False, capture_pending = on, has_reuse = reuse, baseline_rowid = baseline,
      dirty = False, busy_timeout_ms = timeout\<rparr>"

definition capture_error :: "turso_conn \<Rightarrow> backend_error \<Rightarrow> backend_error" where
  "capture_error s e =
     (case e of
        Sqlite m \<Rightarrow>
          if is_busy_message m then
            Sqlite (m @ '' (another connection held the write lock for the whole '' @ show_nat (busy_timeout_ms s)
              @ '' ms busy timeout while this session was turning on change capture before its first write; nothing was executed, retry the statement)'')
          else e
      | _ \<Rightarrow> e)"

definition CAPTURE_SQL :: string where
  "CAPTURE_SQL = ''PRAGMA capture_data_changes_conn('' @ [single_quote] @ ''full'' @ [single_quote] @ '')''"

definition enable_cdc_in_place :: "'e turso_engine \<Rightarrow> 'e \<Rightarrow> (backend_error + unit) \<times> 'e" where
  "enable_cdc_in_place eng st =
     (case t_execute eng CAPTURE_SQL [] st of
        (Inl e, st1) \<Rightarrow> (Inl (map_turso_err e), st1)
      | (Inr _, st1) \<Rightarrow> (Inr (), st1))"

definition ensure_capture :: "'e turso_engine \<Rightarrow> string \<Rightarrow> turso_conn \<times> 'e \<Rightarrow> (backend_error + unit) \<times> turso_conn \<times> 'e" where
  "ensure_capture eng sql = (\<lambda>(s, st).
     if \<not> capture_pending s \<or> statement_is_plain_read sql then (Inr (), s, st)
     else
       (case enable_cdc_in_place eng st of
          (Inr _, st1) \<Rightarrow> (Inr (), s\<lparr>capture_pending := False\<rparr>, st1)
        | (Inl e, st1) \<Rightarrow> (Inl (capture_error s e), s, st1)))"

definition mark_dirty_if_needed :: "string \<Rightarrow> turso_conn \<Rightarrow> turso_conn" where
  "mark_dirty_if_needed sql s = (if has_reuse s \<and> statement_dirties_connection sql then s\<lparr>dirty := True\<rparr> else s)"

definition enter_gate :: "turso_conn \<Rightarrow> turso_conn" where
  "enter_gate s = (if has_gate s \<and> \<not> permit_held s then s\<lparr>permit_held := True\<rparr> else s)"

definition settle_gate :: "'e turso_engine \<Rightarrow> turso_conn \<times> 'e \<Rightarrow> turso_conn \<times> 'e" where
  "settle_gate eng = (\<lambda>(s, st).
     (if permit_held s \<and> t_is_autocommit eng st \<noteq> Inr False then s\<lparr>permit_held := False\<rparr> else s, st))"

definition run_statement ::
  "'e turso_engine \<Rightarrow> string \<Rightarrow> ('e \<Rightarrow> (backend_error + 'a) \<times> 'e) \<Rightarrow> turso_conn \<times> 'e \<Rightarrow> (backend_error + 'a) \<times> turso_conn \<times> 'e" where
  "run_statement eng sql body = (\<lambda>(s, st).
     (case reject_unsupported sql of
        Inl e \<Rightarrow> (Inl e, s, st)
      | Inr _ \<Rightarrow>
          let s1 = enter_gate (mark_dirty_if_needed sql s) in
          (case ensure_capture eng sql (s1, st) of
             (Inl e, y) \<Rightarrow> (Inl e, settle_gate eng y)
           | (Inr _, s2, st2) \<Rightarrow> (case body st2 of (r, st3) \<Rightarrow> (r, settle_gate eng (s2, st3))))))"

definition turso_query ::
  "'e turso_engine \<Rightarrow> string \<Rightarrow> backend_value list \<Rightarrow> turso_conn \<times> 'e \<Rightarrow> (backend_error + result_set) \<times> turso_conn \<times> 'e" where
  "turso_query eng sql params y = run_statement eng sql (query_on eng sql params) y"

definition turso_execute ::
  "'e turso_engine \<Rightarrow> string \<Rightarrow> backend_value list \<Rightarrow> turso_conn \<times> 'e \<Rightarrow> (backend_error + execute_result) \<times> turso_conn \<times> 'e" where
  "turso_execute eng sql params y = run_statement eng sql (execute_on eng sql params (baseline_rowid (fst y))) y"

definition turso_describe :: "'e turso_engine \<Rightarrow> string \<Rightarrow> turso_conn \<times> 'e \<Rightarrow> (backend_error + column list) \<times> turso_conn \<times> 'e" where
  "turso_describe eng sql = (\<lambda>(s, st).
     (case t_prepare eng sql st of
        (Inl e, st1) \<Rightarrow> (Inl (map_turso_err e), settle_gate eng (enter_gate s, st1))
      | (Inr cols, st1) \<Rightarrow> (Inr (to_columns cols), settle_gate eng (enter_gate s, st1))))"

section \<open>The idle pool\<close>

text \<open>Connections are numbers; the last entry of \<open>idle\<close> is the one parked last. Times are in nanoseconds.\<close>

record idle_entry =
  idle_conn :: nat
  parked_at :: nat

record reuse_stats =
  hits :: u64
  misses :: u64
  discards :: u64
  parked :: u64
  dropped_full :: u64

record reuse_pool =
  idle :: "idle_entry list"
  max_idle :: nat
  idle_max_age :: nat
  stats :: reuse_stats

definition reuse_pool_new :: "nat \<Rightarrow> nat \<Rightarrow> reuse_pool" where
  "reuse_pool_new n age =
     \<lparr>idle = [], max_idle = n, idle_max_age = age, stats = \<lparr>hits = 0, misses = 0, discards = 0, parked = 0, dropped_full = 0\<rparr>\<rparr>"

definition count_discard :: "reuse_pool \<Rightarrow> reuse_pool" where
  "count_discard p = p\<lparr>stats := (stats p)\<lparr>discards := discards (stats p) + 1\<rparr>\<rparr>"

function take_fresh :: "nat \<Rightarrow> reuse_pool \<Rightarrow> nat option \<times> reuse_pool" where
  "take_fresh now p =
     (if idle p = [] then (None, p)
      else
        (let entry = last (idle p); p1 = p\<lparr>idle := butlast (idle p)\<rparr> in
         if now - parked_at entry \<le> idle_max_age p then (Some (idle_conn entry), p1)
         else take_fresh now (count_discard p1)))"
  by pat_completeness auto
termination
  by (relation "measure (\<lambda>(now, p). length (idle p))") (auto simp: count_discard_def)

declare take_fresh.simps [simp del]

definition park :: "nat \<Rightarrow> nat \<Rightarrow> reuse_pool \<Rightarrow> reuse_pool" where
  "park now c p =
     (if max_idle p \<le> length (idle p) then p\<lparr>stats := (stats p)\<lparr>dropped_full := dropped_full (stats p) + 1\<rparr>\<rparr>
      else p\<lparr>idle := idle p @ [\<lparr>idle_conn = c, parked_at = now\<rparr>], stats := (stats p)\<lparr>parked := parked (stats p) + 1\<rparr>\<rparr>)"

section \<open>The factory\<close>

text \<open>
  One engine record per connection over a shared state; \<^verbatim>\<open>busy_timeout\<close> and \<^verbatim>\<open>pragma_update\<close> of a fresh
  connection are the record \<open>setup\<close>.
\<close>

record 'w turso_setup =
  t_busy_timeout :: "nat \<Rightarrow> nat \<Rightarrow> 'w \<Rightarrow> (turso_error + unit) \<times> 'w"
  t_pragma_update :: "nat \<Rightarrow> string \<Rightarrow> string \<Rightarrow> 'w \<Rightarrow> (turso_error + unit) \<times> 'w"

datatype synchronous = Off | Normal | Full

fun as_pragma_str :: "synchronous \<Rightarrow> string" where
  "as_pragma_str Off = ''OFF''"
| "as_pragma_str Normal = ''NORMAL''"
| "as_pragma_str Full = ''FULL''"

record turso_builder =
  tb_path :: string
  tb_busy_timeout_ms :: nat
  tb_synchronous :: synchronous
  tb_enable_cdc_on_connect :: bool
  tb_max_idle :: nat
  tb_idle_max_age :: nat
  tb_wal_gate :: bool

record turso_factory =
  f_busy_timeout_ms :: nat
  f_synchronous :: synchronous
  f_enable_cdc_on_connect :: bool
  f_reuse :: "reuse_pool option"
  f_wal_gate :: bool

definition turso_build :: "turso_builder \<Rightarrow> turso_factory" where
  "turso_build b =
     \<lparr>f_busy_timeout_ms = tb_busy_timeout_ms b, f_synchronous = tb_synchronous b,
      f_enable_cdc_on_connect = tb_enable_cdc_on_connect b,
      f_reuse = (if 0 < tb_max_idle b \<and> \<not> tb_enable_cdc_on_connect b
                 then Some (reuse_pool_new (tb_max_idle b) (tb_idle_max_age b)) else None),
      f_wal_gate = (tb_wal_gate b \<and> tb_path b \<noteq> '':memory:'')\<rparr>"

definition apply_session_setup :: "'w turso_setup \<Rightarrow> nat \<Rightarrow> nat \<Rightarrow> synchronous \<Rightarrow> 'w \<Rightarrow> (backend_error + unit) \<times> 'w" where
  "apply_session_setup su c timeout sync w =
     (case t_busy_timeout su c timeout w of
        (Inl e, w1) \<Rightarrow> (Inl (map_turso_err e), w1)
      | (Inr _, w1) \<Rightarrow>
          (case t_pragma_update su c ''synchronous'' (as_pragma_str sync) w1 of
             (Inl e, w2) \<Rightarrow> (Inl (map_turso_err e), w2)
           | (Inr _, w2) \<Rightarrow> (Inr (), w2)))"

definition fresh_connection ::
  "(nat \<Rightarrow> 'w turso_engine) \<Rightarrow> 'w turso_setup \<Rightarrow> turso_factory \<Rightarrow> nat \<Rightarrow> 'w \<Rightarrow> (backend_error + unit) \<times> 'w" where
  "fresh_connection eng su f c w =
     (case t_connect (eng c) w of
        (Inl e, w1) \<Rightarrow> (Inl (map_turso_err e), w1)
      | (Inr _, w1) \<Rightarrow> apply_session_setup su c (f_busy_timeout_ms f) (f_synchronous f) w1)"

definition reusable_at_checkout :: "(nat \<Rightarrow> 'w turso_engine) \<Rightarrow> nat \<Rightarrow> 'w \<Rightarrow> bool" where
  "reusable_at_checkout eng c w \<longleftrightarrow> t_is_autocommit (eng c) w = Inr True"

lemma take_fresh_shrinks: "take_fresh now p = (Some c, p') \<Longrightarrow> length (idle p') < length (idle p)"
proof (induction now p rule: take_fresh.induct)
  case (1 now p)
  show ?case
  proof (cases "idle p = [] \<or> now - parked_at (last (idle p)) \<le> idle_max_age p")
    case True
    with 1(2) show ?thesis by (auto simp: take_fresh.simps [of now p] Let_def split: if_splits)
  next
    case False
    with 1(2) have "take_fresh now (count_discard (p\<lparr>idle := butlast (idle p)\<rparr>)) = (Some c, p')"
      by (simp add: take_fresh.simps [of now p] Let_def)
    moreover have "idle p \<noteq> []" "\<not> now - parked_at (last (idle p)) \<le> idle_max_age p" using False by simp_all
    ultimately have "length (idle p') < length (idle (count_discard (p\<lparr>idle := butlast (idle p)\<rparr>)))"
      using 1(1) [OF _ refl refl] by blast
    then show ?thesis by (simp add: count_discard_def)
  qed
qed

function checkout :: "(nat \<Rightarrow> 'w turso_engine) \<Rightarrow> nat \<Rightarrow> 'w \<Rightarrow> reuse_pool \<Rightarrow> nat option \<times> reuse_pool" where
  "checkout eng now w p =
     (case take_fresh now p of
        (None, p1) \<Rightarrow> (None, p1\<lparr>stats := (stats p1)\<lparr>misses := misses (stats p1) + 1\<rparr>\<rparr>)
      | (Some c, p1) \<Rightarrow>
          if reusable_at_checkout eng c w then (Some c, p1\<lparr>stats := (stats p1)\<lparr>hits := hits (stats p1) + 1\<rparr>\<rparr>)
          else checkout eng now w (count_discard p1))"
  by pat_completeness auto
termination
proof (relation "measure (\<lambda>(eng, now, w, p). length (idle p))", goal_cases)
  case (2 eng now w p r p1 c)
  then have "take_fresh now p = (Some c, p1)" by simp
  from take_fresh_shrinks [OF this] show ?case by (simp add: count_discard_def)
qed simp

declare checkout.simps [simp del]

text \<open>
  \<^verbatim>\<open>connect\<close>: the connection handed out, which is \<open>fresh\<close> unless one was checked out, and the factory's pool
  afterwards. The gate permit around the setup of a fresh connection is given back at the end.
\<close>

definition turso_connect ::
  "(nat \<Rightarrow> 'w turso_engine) \<Rightarrow> 'w turso_setup \<Rightarrow> nat \<Rightarrow> nat \<Rightarrow> turso_factory \<Rightarrow> 'w \<Rightarrow>
     (backend_error + nat \<times> turso_conn) \<times> turso_factory \<times> 'w" where
  "turso_connect eng su now fresh f w =
     (let (found, f1) =
        (case f_reuse f of
           None \<Rightarrow> (None, f)
         | Some p \<Rightarrow> (case checkout eng now w p of (c, p1) \<Rightarrow> (c, f\<lparr>f_reuse := Some p1\<rparr>))) in
      case found of
        Some c \<Rightarrow>
          (Inr (c, turso_conn_new (f_wal_gate f) True (t_last_insert_rowid (eng c) w) False (f_busy_timeout_ms f)), f1, w)
      | None \<Rightarrow>
          (case fresh_connection eng su f fresh w of
             (Inl e, w1) \<Rightarrow> (Inl e, f1, w1)
           | (Inr _, w1) \<Rightarrow>
               (Inr (fresh, turso_conn_new (f_wal_gate f) (f_reuse f \<noteq> None) (t_last_insert_rowid (eng fresh) w1)
                  (f_enable_cdc_on_connect f) (f_busy_timeout_ms f)), f1, w1)))"

definition turso_drop :: "(nat \<Rightarrow> 'w turso_engine) \<Rightarrow> nat \<Rightarrow> nat \<Rightarrow> turso_conn \<Rightarrow> turso_factory \<Rightarrow> 'w \<Rightarrow> turso_factory" where
  "turso_drop eng now c s f w =
     (case f_reuse f of
        None \<Rightarrow> f
      | Some p \<Rightarrow>
          if \<not> has_reuse s \<or> dirty s then f
          else if t_is_autocommit (eng c) w = Inr True then f\<lparr>f_reuse := Some (park now c p)\<rparr>
          else f)"

end
