(* ===== verification/Free_List.thy ===== *)
theory Free_List
  imports LW_Prelude "HOL-Library.Multiset"
begin

text \<open>
  The contract of a bounded free-list of connections, which the pools of the rusqlite and the Turso backend both
  keep: taking removes what it hands out (and may drop more), giving back adds at most the one entry and
  only below the bound. What follows for the owners of connections is proved once here.
\<close>

locale free_list =
  fixes entries :: "'p \<Rightarrow> 'c list"
    and bound :: "'p \<Rightarrow> nat"
    and takes :: "'p \<Rightarrow> 'c option \<Rightarrow> 'p \<Rightarrow> bool"
    and gives :: "'c \<Rightarrow> 'p \<Rightarrow> 'p \<Rightarrow> bool"
  assumes takes_entries: "takes p r p' \<Longrightarrow> mset (entries p') + mset (case r of None \<Rightarrow> [] | Some c \<Rightarrow> [c]) \<subseteq># mset (entries p)"
    and takes_bound: "takes p r p' \<Longrightarrow> bound p' = bound p"
    and gives_entries: "gives c p p' \<Longrightarrow> entries p' = entries p \<or> entries p' = entries p @ [c] \<and> length (entries p) < bound p"
    and gives_bound: "gives c p p' \<Longrightarrow> bound p' = bound p"
begin

lemma takes_within: "takes p r p' \<Longrightarrow> length (entries p) \<le> bound p \<Longrightarrow> length (entries p') \<le> bound p'"
  using takes_entries [THEN size_mset_mono] takes_bound by fastforce

lemma takes_subset: "takes p r p' \<Longrightarrow> set (entries p') \<subseteq> set (entries p)"
  using takes_entries [THEN set_mset_mono] by fastforce

lemma takes_member: "takes p (Some c) p' \<Longrightarrow> c \<in> set (entries p)"
  using takes_entries [THEN set_mset_mono] by fastforce

lemma takes_exclusive:
  assumes "takes p r p'" and "distinct (entries p @ owned)"
  shows "distinct (entries p' @ (case r of None \<Rightarrow> [] | Some c \<Rightarrow> [c]) @ owned)"
proof -
  let ?r = "case r of None \<Rightarrow> [] | Some c \<Rightarrow> [c]"
  have "mset ((entries p' @ ?r) @ owned) \<subseteq># mset (entries p @ owned)"
    using takes_entries [OF assms(1)] by simp
  then have "count (mset ((entries p' @ ?r) @ owned)) a \<le> 1" for a
    using assms(2) by (metis distinct_count_atmost_1 mset_subset_eq_count order_trans order_refl zero_le_one)
  then have "count (mset ((entries p' @ ?r) @ owned)) a = (if a \<in> set ((entries p' @ ?r) @ owned) then 1 else 0)" for a
    by (metis One_nat_def count_eq_zero_iff le_antisym less_one not_le set_mset_mset not_gr0)
  then show ?thesis unfolding append_assoc [symmetric] distinct_count_atmost_1 by blast
qed

lemma gives_within: "gives c p p' \<Longrightarrow> length (entries p) \<le> bound p \<Longrightarrow> length (entries p') \<le> bound p'"
  using gives_entries gives_bound by fastforce

lemma gives_subset: "gives c p p' \<Longrightarrow> set (entries p') \<subseteq> insert c (set (entries p))"
  using gives_entries by fastforce

lemma gives_exclusive: "gives c p p' \<Longrightarrow> distinct (entries p @ c # owned) \<Longrightarrow> distinct (entries p' @ owned)"
  using gives_entries by fastforce

end

end
