(* ===== verification/Turso_Props.thy ===== *)
theory Turso_Props
  imports Turso_Conn Free_List
begin

text \<open>
  What the sessions of the Turso backend promise: writes are captured, the WAL gate permit follows the
  transaction, a statement runs only with all its parameters, and the idle pool hands out clean connections.
\<close>

section \<open>Calls of a session\<close>

datatype call = QueryCall string "backend_value list" | ExecuteCall string "backend_value list" | DescribeCall string

definition run_call :: "'e turso_engine \<Rightarrow> call \<Rightarrow> turso_conn \<times> 'e \<Rightarrow> turso_conn \<times> 'e" where
  "run_call eng c y =
     (case c of
        QueryCall sql ps \<Rightarrow> snd (turso_query eng sql ps y)
      | ExecuteCall sql ps \<Rightarrow> snd (turso_execute eng sql ps y)
      | DescribeCall sql \<Rightarrow> snd (turso_describe eng sql y))"

section \<open>Captured writes\<close>

text \<open>The statements the engine ran, with whether they succeeded.\<close>

type_synonym sql_log = "(string \<times> bool) list"

definition noted :: "string \<Rightarrow> (turso_error + 'a) \<times> 'e \<Rightarrow> sql_log \<Rightarrow> (turso_error + 'a) \<times> 'e \<times> sql_log" where
  "noted sql out l = (case out of (r, st) \<Rightarrow> (r, st, l @ [(sql, case r of Inl _ \<Rightarrow> False | Inr _ \<Rightarrow> True)]))"

definition recorded :: "'e turso_engine \<Rightarrow> ('e \<times> sql_log) turso_engine" where
  "recorded eng =
     \<lparr>t_connect = (\<lambda>(st, l). case t_connect eng st of (r, st1) \<Rightarrow> (r, st1, l)),
      t_prepare = (\<lambda>sql (st, l). case t_prepare eng sql st of (r, st1) \<Rightarrow> (r, st1, l)),
      t_query = (\<lambda>sql ps (st, l). noted sql (t_query eng sql ps st) l),
      t_execute = (\<lambda>sql ps (st, l). noted sql (t_execute eng sql ps st) l),
      t_is_autocommit = (\<lambda>(st, l). t_is_autocommit eng st),
      t_last_insert_rowid = (\<lambda>(st, l). t_last_insert_rowid eng st),
      t_debug = t_debug eng, v_debug = v_debug eng\<rparr>"

lemma recorded_ops [simp]:
  "t_prepare (recorded eng) sql (st, l) = (case t_prepare eng sql st of (r, st1) \<Rightarrow> (r, st1, l))"
  "t_query (recorded eng) sql ps (st, l) = noted sql (t_query eng sql ps st) l"
  "t_execute (recorded eng) sql ps (st, l) = noted sql (t_execute eng sql ps st) l"
  "t_is_autocommit (recorded eng) (st, l) = t_is_autocommit eng st"
  by (simp_all add: recorded_def)

text \<open>
  Logs in which nothing but single plain reads, and the empty transaction after a pragma function, ran before
  change capture was on; the flag says whether it is.
\<close>

inductive captured_log :: "bool \<Rightarrow> sql_log \<Rightarrow> bool" where
  cl_empty: "captured_log False []"
| cl_refused: "captured_log False l \<Longrightarrow> captured_log False (l @ [(CAPTURE_SQL, False)])"
| cl_turned_on: "captured_log False l \<Longrightarrow> captured_log True (l @ [(CAPTURE_SQL, True)])"
| cl_read: "captured_log False l \<Longrightarrow> statement_is_plain_read sql \<Longrightarrow> captured_log False (l @ [(sql, ok)])"
| cl_no_flush: "captured_log False l \<Longrightarrow> captured_log False (l @ [(''BEGIN'', False)])"
| cl_flush: "captured_log False l \<Longrightarrow> captured_log False (l @ [(''BEGIN'', True), (''COMMIT'', ok)])"
| cl_on: "captured_log True l \<Longrightarrow> captured_log True (l @ [(sql, ok)])"

definition log_ok :: "turso_conn \<times> 'e \<times> sql_log \<Rightarrow> bool" where
  "log_ok y \<longleftrightarrow> captured_log (\<not> capture_pending (fst y)) (snd (snd y))"

lemma captured_stmt:
  "captured_log b l \<Longrightarrow> b \<or> statement_is_plain_read sql \<Longrightarrow> captured_log b (l @ [(sql, ok)])"
  by (cases b) (auto intro: captured_log.intros)

lemma captured_flush:
  assumes "captured_log b l"
  shows "captured_log b (l @ [(''BEGIN'', False)])" and "captured_log b (l @ [(''BEGIN'', True), (''COMMIT'', ok)])"
proof -
  have "captured_log True l \<Longrightarrow> captured_log True (l @ [(''BEGIN'', True), (''COMMIT'', ok)])"
    using cl_on [OF cl_on, of l "''BEGIN''" True "''COMMIT''" ok] by simp
  then show "captured_log b (l @ [(''BEGIN'', False)])" "captured_log b (l @ [(''BEGIN'', True), (''COMMIT'', ok)])"
    using assms cl_on cl_no_flush cl_flush by (atomize (full), case_tac b, simp_all)
qed

lemma flush_logged:
  assumes "captured_log b l" and "flush_phantom (recorded eng) (st, l) = (r, st1, l1)"
  shows "captured_log b l1"
proof -
  obtain q s where q: "t_execute eng ''BEGIN'' [] st = (q, s)" by fastforce
  obtain k s2 where k: "t_execute eng ''COMMIT'' [] s = (k, s2)" by fastforce
  from assms(2) q k captured_flush [OF assms(1)] show ?thesis
    by (cases q; cases k) (auto simp: flush_phantom_def noted_def)
qed

lemma query_logged:
  assumes "captured_log b l" and "b \<or> statement_is_plain_read sql" and "query_on (recorded eng) sql ps (st, l) = (r, st1, l1)"
  shows "captured_log b l1"
proof -
  obtain p s where p: "t_prepare eng sql st = (p, s)" by fastforce
  obtain q s1 where q: "t_query eng sql (map to_turso_value ps) s = (q, s1)" by fastforce
  note stmt = captured_stmt [OF assms(1,2)]
  from assms(1,3) p q stmt show ?thesis
    by (cases p; cases q) (auto simp: query_on_def noted_def Let_def
        split: sum.splits if_splits prod.splits dest: flush_logged [OF stmt])
qed

lemma execute_logged:
  assumes "captured_log b l" and "b \<or> statement_is_plain_read sql" and "execute_on (recorded eng) sql ps base (st, l) = (r, st1, l1)"
  shows "captured_log b l1"
proof -
  obtain p s where p: "t_prepare eng sql st = (p, s)" by fastforce
  obtain q s1 where q: "t_execute eng sql (map to_turso_value ps) s = (q, s1)" by fastforce
  note stmt = captured_stmt [OF assms(1,2)]
  from assms(1,3) p q stmt show ?thesis
    by (cases p; cases q) (auto simp: execute_on_def noted_def Let_def split: sum.splits)
qed

lemma session_flags [simp]:
  "capture_pending (enter_gate s) = capture_pending s" "capture_pending (mark_dirty_if_needed sql s) = capture_pending s"
  "snd (settle_gate eng y) = snd y" "capture_pending (fst (settle_gate eng y)) = capture_pending (fst y)"
  by (simp_all add: enter_gate_def mark_dirty_if_needed_def settle_gate_def case_prod_beta)

lemma run_statement_logged:
  assumes "log_ok (s, st, l)"
    and body: "\<And>b l st r st1 l1. captured_log b l \<Longrightarrow> b \<or> statement_is_plain_read sql \<Longrightarrow> body (st, l) = (r, st1, l1) \<Longrightarrow> captured_log b l1"
  shows "log_ok (snd (run_statement (recorded eng) sql body (s, st, l)))"
proof (cases "reject_unsupported sql")
  case (Inl e)
  with assms(1) show ?thesis by (simp add: run_statement_def)
next
  case (Inr u)
  let ?s1 = "enter_gate (mark_dirty_if_needed sql s)"
  obtain r s2 st2 l2 where c: "ensure_capture (recorded eng) sql (?s1, st, l) = (r, s2, st2, l2)" by (metis prod_cases4)
  obtain q st1 where q: "t_execute eng CAPTURE_SQL [] st = (q, st1)" by fastforce
  have log: "captured_log (\<not> capture_pending s) l" using assms(1) by (simp add: log_ok_def)
  have c2: "captured_log (\<not> capture_pending s2) l2 \<and> (r = Inr () \<longrightarrow> \<not> capture_pending s2 \<or> statement_is_plain_read sql)"
  proof (cases "\<not> capture_pending s \<or> statement_is_plain_read sql")
    case True
    with c log show ?thesis by (auto simp: ensure_capture_def)
  next
    case False
    then have off: "captured_log False l" using log by simp
    show ?thesis
    proof (cases q)
      case (Inl e)
      with c q False cl_refused [OF off] show ?thesis by (auto simp: ensure_capture_def enable_cdc_in_place_def noted_def)
    next
      case (Inr n)
      with c q False cl_turned_on [OF off] show ?thesis by (auto simp: ensure_capture_def enable_cdc_in_place_def noted_def)
    qed
  qed
  show ?thesis
  proof (cases r)
    case (Inl e)
    with c c2 Inr show ?thesis by (simp add: run_statement_def Let_def log_ok_def)
  next
    case ok: (Inr v)
    obtain r3 st3 l3 where b: "body (st2, l2) = (r3, st3, l3)" by (metis prod_cases3)
    have "captured_log (\<not> capture_pending s2) l3" using body [OF conjunct1 [OF c2] _ b] c2 ok by simp
    with c ok b Inr show ?thesis by (simp add: run_statement_def Let_def log_ok_def)
  qed
qed

lemma run_call_logged:
  assumes "log_ok y"
  shows "log_ok (run_call (recorded eng) c y)"
proof -
  obtain s st l where y: "y = (s, st, l)" by (metis prod_cases3)
  show ?thesis
  proof (cases c)
    case (QueryCall sql ps)
    show ?thesis unfolding run_call_def QueryCall call.case turso_query_def y
      by (rule run_statement_logged [OF assms [unfolded y]]) (rule query_logged)
  next
    case (ExecuteCall sql ps)
    show ?thesis unfolding run_call_def ExecuteCall call.case turso_execute_def y
      by (rule run_statement_logged [OF assms [unfolded y]]) (rule execute_logged)
  next
    case (DescribeCall sql)
    with assms show ?thesis
      by (auto simp: run_call_def turso_describe_def y log_ok_def split: prod.split sum.split)
  qed
qed

section \<open>The gate permit\<close>

definition permit_ok :: "'e turso_engine \<Rightarrow> turso_conn \<times> 'e \<Rightarrow> bool" where
  "permit_ok eng y \<longleftrightarrow> (permit_held (fst y) \<longleftrightarrow> has_gate (fst y) \<and> t_is_autocommit eng (snd y) = Inr False)"

lemma settled: "has_gate s = permit_held s \<Longrightarrow> permit_ok eng (settle_gate eng (s, st))"
  by (auto simp: permit_ok_def settle_gate_def)

lemma entered: "permit_ok eng (s, st) \<Longrightarrow> has_gate (enter_gate s) = permit_held (enter_gate s)"
  by (auto simp: permit_ok_def enter_gate_def)

lemma run_statement_permit:
  assumes "permit_ok eng y"
  shows "permit_ok eng (snd (run_statement eng sql body y))"
proof (cases "reject_unsupported sql")
  case (Inl e)
  with assms show ?thesis by (cases y) (simp add: run_statement_def)
next
  case (Inr u)
  obtain s st where y: "y = (s, st)" by (cases y)
  let ?s1 = "enter_gate (mark_dirty_if_needed sql s)"
  obtain r s2 st2 where c: "ensure_capture eng sql (?s1, st) = (r, s2, st2)" by (metis prod_cases3)
  have "has_gate ?s1 = permit_held ?s1" using assms y by (auto simp: permit_ok_def enter_gate_def mark_dirty_if_needed_def)
  with c have "has_gate s2 = permit_held s2" by (auto simp: ensure_capture_def split: if_splits prod.splits sum.splits)
  then have "permit_ok eng (settle_gate eng (s2, st3))" for st3 by (rule settled)
  with c y Inr show ?thesis
    by (auto simp: run_statement_def Let_def split: sum.split prod.split)
qed

lemma run_call_permit:
  assumes "permit_ok eng y"
  shows "permit_ok eng (run_call eng c y)"
proof (cases c)
  case (DescribeCall sql)
  obtain s st where y: "y = (s, st)" by (cases y)
  have "permit_ok eng (settle_gate eng (enter_gate s, st1))" for st1
    by (rule settled) (rule entered, use assms y in simp)
  with DescribeCall y show ?thesis
    by (auto simp: run_call_def turso_describe_def split: prod.split sum.split)
qed (simp_all add: run_call_def turso_query_def turso_execute_def run_statement_permit assms)

section \<open>The pool among sessions\<close>

text \<open>
  Any number of sessions over one factory. \<open>ran\<close> notes the statements sent to each connection; between the
  steps other writers may change the engine's state in any way.
\<close>

record 'w turso_sys =
  world :: 'w
  factory :: turso_factory
  sessions :: "nat \<Rightarrow> (nat \<times> turso_conn) option"
  next_conn :: nat
  ran :: "nat \<Rightarrow> string list"

datatype turso_event = Connect nat nat | Call nat call | Close nat nat | Elsewhere

fun sent :: "call \<Rightarrow> string list" where
  "sent (QueryCall sql ps) = (case reject_unsupported sql of Inl _ \<Rightarrow> [] | Inr _ \<Rightarrow> [sql])"
| "sent (ExecuteCall sql ps) = (case reject_unsupported sql of Inl _ \<Rightarrow> [] | Inr _ \<Rightarrow> [sql])"
| "sent (DescribeCall sql) = []"

inductive turso_step :: "(nat \<Rightarrow> 'w turso_engine) \<Rightarrow> 'w turso_setup \<Rightarrow> 'w turso_sys \<Rightarrow> turso_event \<Rightarrow> 'w turso_sys \<Rightarrow> bool"
  for eng su where
  ts_connect: "sessions y sid = None \<Longrightarrow>
    turso_connect eng su now (next_conn y) (factory y) (world y) = (Inr (c, s), f, w) \<Longrightarrow>
    turso_step eng su y (Connect sid now)
      (y\<lparr>world := w, factory := f, sessions := (sessions y)(sid \<mapsto> (c, s)), next_conn := Suc (next_conn y)\<rparr>)"
| ts_refused: "sessions y sid = None \<Longrightarrow>
    turso_connect eng su now (next_conn y) (factory y) (world y) = (Inl e, f, w) \<Longrightarrow>
    turso_step eng su y (Connect sid now) (y\<lparr>world := w, factory := f, next_conn := Suc (next_conn y)\<rparr>)"
| ts_call: "sessions y sid = Some (c, s) \<Longrightarrow> run_call (eng c) cl (s, world y) = (s', w) \<Longrightarrow>
    turso_step eng su y (Call sid cl)
      (y\<lparr>world := w, sessions := (sessions y)(sid \<mapsto> (c, s')), ran := (ran y)(c := ran y c @ sent cl)\<rparr>)"
| ts_close: "sessions y sid = Some (c, s) \<Longrightarrow>
    turso_step eng su y (Close sid now)
      (y\<lparr>factory := turso_drop eng now c s (factory y) (world y), sessions := (sessions y)(sid := None)\<rparr>)"
| ts_elsewhere: "turso_step eng su y Elsewhere (y\<lparr>world := w\<rparr>)"

inductive_cases turso_stepE: "turso_step eng su y e z"

definition sys_init :: "turso_builder \<Rightarrow> 'w \<Rightarrow> 'w turso_sys" where
  "sys_init b w = \<lparr>world = w, factory = turso_build b, sessions = (\<lambda>_. None), next_conn = 0, ran = (\<lambda>_. [])\<rparr>"

definition clean :: "string list \<Rightarrow> bool" where
  "clean sqls \<longleftrightarrow> list_all (\<lambda>sql. \<not> statement_dirties_connection sql) sqls"

definition idle_conns :: "turso_factory \<Rightarrow> nat list" where
  "idle_conns f = (case f_reuse f of None \<Rightarrow> [] | Some p \<Rightarrow> map idle_conn (idle p))"

definition pool_room :: "turso_factory \<Rightarrow> bool" where
  "pool_room f \<longleftrightarrow> (case f_reuse f of None \<Rightarrow> True | Some p \<Rightarrow> length (idle p) \<le> max_idle p)"

definition owns :: "'w turso_sys \<Rightarrow> nat \<Rightarrow> nat \<Rightarrow> bool" where
  "owns y sid c \<longleftrightarrow> (\<exists>s. sessions y sid = Some (c, s))"

definition pool_inv :: "'w turso_sys \<Rightarrow> bool" where
  "pool_inv y \<longleftrightarrow>
     pool_room (factory y) \<and> distinct (idle_conns (factory y)) \<and>
     (\<forall>c\<in>set (idle_conns (factory y)). c < next_conn y \<and> clean (ran y c) \<and> (\<forall>sid. \<not> owns y sid c)) \<and>
     (\<forall>sid sid' c. owns y sid c \<and> owns y sid' c \<longrightarrow> sid = sid') \<and>
     (\<forall>sid c s. sessions y sid = Some (c, s) \<longrightarrow> c < next_conn y \<and> (has_reuse s \<and> \<not> dirty s \<longrightarrow> clean (ran y c))) \<and>
     (\<forall>c. next_conn y \<le> c \<longrightarrow> ran y c = [])"

lemma take_fresh_pops:
  "take_fresh now p = (r, p') \<Longrightarrow>
    max_idle p' = max_idle p \<and> (\<exists>gone. idle p = idle p' @ gone \<and> (case r of None \<Rightarrow> True | Some c \<Rightarrow> c \<in> idle_conn ` set gone))"
proof (induction now p rule: take_fresh.induct)
  case (1 now p)
  show ?case
  proof (cases "idle p = []")
    case True
    with 1(2) show ?thesis by (auto simp: take_fresh.simps [of now p])
  next
    case False
    note split = append_butlast_last_id [OF False, symmetric]
    show ?thesis
    proof (cases "now - parked_at (last (idle p)) \<le> idle_max_age p")
      case True
      with 1(2) False have "r = Some (idle_conn (last (idle p)))" "p' = p\<lparr>idle := butlast (idle p)\<rparr>"
        by (auto simp: take_fresh.simps [of now p] Let_def)
      with split show ?thesis by (auto intro!: exI [of _ "[last (idle p)]"])
    next
      case stale: False
      with 1(2) False have "take_fresh now (count_discard (p\<lparr>idle := butlast (idle p)\<rparr>)) = (r, p')"
        by (simp add: take_fresh.simps [of now p] Let_def)
      from 1(1) [OF False refl refl stale this] obtain gone where
        "max_idle p' = max_idle p" "butlast (idle p) = idle p' @ gone" "case r of None \<Rightarrow> True | Some c \<Rightarrow> c \<in> idle_conn ` set gone"
        by (auto simp: count_discard_def)
      with split show ?thesis by (auto intro!: exI [of _ "gone @ [last (idle p)]"] split: option.splits)
    qed
  qed
qed

lemma checkout_pops:
  "checkout eng now w p = (r, p') \<Longrightarrow>
    max_idle p' = max_idle p \<and> (\<exists>gone. idle p = idle p' @ gone \<and> (case r of None \<Rightarrow> True | Some c \<Rightarrow> c \<in> idle_conn ` set gone))"
proof (induction eng now w p rule: checkout.induct)
  case (1 eng now w p)
  obtain q p1 where q: "take_fresh now p = (q, p1)" by fastforce
  note pop = take_fresh_pops [OF q]
  show ?case
  proof (cases "q = None \<or> reusable_at_checkout eng (the q) w")
    case True
    with 1(2) q pop show ?thesis by (auto simp: checkout.simps [of eng now w p] split: option.splits)
  next
    case False
    then obtain c where c: "q = Some c" "\<not> reusable_at_checkout eng c w" by auto
    with 1(2) q have "checkout eng now w (count_discard p1) = (r, p')" by (simp add: checkout.simps [of eng now w p])
    from 1(1) [OF q [symmetric] c this] pop obtain gone gone' where
      "max_idle p' = max_idle p" "idle p1 = idle p' @ gone" "idle p = idle p1 @ gone'"
      "case r of None \<Rightarrow> True | Some c \<Rightarrow> c \<in> idle_conn ` set gone"
      by (auto simp: count_discard_def)
    then show ?thesis by (auto intro!: exI [of _ "gone @ gone'"] split: option.splits)
  qed
qed

interpretation turso_list: free_list "\<lambda>p. map idle_conn (idle p)" max_idle
  "\<lambda>p r p'. \<exists>now w. checkout eng now w p = (r, p')" "\<lambda>c p p'. \<exists>now. p' = park now c p" for eng
proof unfold_locales
  fix p p' :: reuse_pool and r
  assume "\<exists>now w. checkout eng now w p = (r, p')"
  then obtain now w where c: "checkout eng now w p = (r, p')" by blast
  from checkout_pops [OF c] obtain gone where g: "max_idle p' = max_idle p" "idle p = idle p' @ gone"
    "case r of None \<Rightarrow> True | Some c \<Rightarrow> c \<in> idle_conn ` set gone" by blast
  then have "mset (case r of None \<Rightarrow> [] | Some c \<Rightarrow> [c]) \<subseteq># mset (map idle_conn gone)"
    by (cases r) (auto simp: single_subset_iff)
  with g show "mset (map idle_conn (idle p')) + mset (case r of None \<Rightarrow> [] | Some c \<Rightarrow> [c]) \<subseteq># mset (map idle_conn (idle p))"
    "max_idle p' = max_idle p" by simp_all
qed (auto simp: park_def split: if_splits)

lemma connect_effect:
  assumes "turso_connect eng su now fresh f w = (out, f', w')"
  shows "(pool_room f \<longrightarrow> pool_room f') \<and>
    (\<exists>gone. idle_conns f = idle_conns f' @ gone \<and> (case out of Inl _ \<Rightarrow> True | Inr (c, s) \<Rightarrow> c = fresh \<or> c \<in> set gone))"
proof (cases "f_reuse f")
  case None
  with assms show ?thesis
    by (auto simp: turso_connect_def idle_conns_def pool_room_def split: prod.splits sum.splits)
next
  case (Some p)
  obtain r p1 where r: "checkout eng now w p = (r, p1)" by fastforce
  have f': "f' = f\<lparr>f_reuse := Some p1\<rparr>"
    using assms Some r by (auto simp: turso_connect_def Let_def split: option.splits prod.splits sum.splits)
  have c: "case out of Inl _ \<Rightarrow> True | Inr (c, s) \<Rightarrow> r = Some c \<or> c = fresh"
    using assms Some r by (auto simp: turso_connect_def Let_def split: option.splits prod.splits sum.splits)
  from checkout_pops [OF r] obtain gone where g: "max_idle p1 = max_idle p" "idle p = idle p1 @ gone"
    "case r of None \<Rightarrow> True | Some c \<Rightarrow> c \<in> idle_conn ` set gone" by blast
  from c g(3) have "case out of Inl _ \<Rightarrow> True | Inr (c, s) \<Rightarrow> c = fresh \<or> c \<in> set (map idle_conn gone)"
    by (auto split: sum.splits)
  moreover have "length (idle p) \<le> max_idle p \<Longrightarrow> length (idle p1) \<le> max_idle p1"
    using turso_list.takes_within [of eng p r p1] r by auto
  ultimately show ?thesis using f' g(2) Some by (auto simp: idle_conns_def pool_room_def)
qed

lemma drop_effect:
  "(pool_room f \<longrightarrow> pool_room (turso_drop eng now c s f w)) \<and>
   (idle_conns (turso_drop eng now c s f w) = idle_conns f \<or>
    idle_conns (turso_drop eng now c s f w) = idle_conns f @ [c] \<and> has_reuse s \<and> \<not> dirty s)"
  by (auto simp: turso_drop_def idle_conns_def pool_room_def park_def split: option.split)

lemma clean_append [simp]: "clean (xs @ ys) \<longleftrightarrow> clean xs \<and> clean ys" and clean_Nil [simp]: "clean []"
  by (simp_all add: clean_def)

lemma capture_flags: "ensure_capture eng sql (s, st) = (r, s', st') \<Longrightarrow> has_reuse s' = has_reuse s \<and> dirty s' = dirty s"
  by (auto simp: ensure_capture_def split: if_splits prod.splits sum.splits)

lemma gate_flags [simp]:
  "has_reuse (enter_gate s) = has_reuse s" "dirty (enter_gate s) = dirty s"
  "has_reuse (fst (settle_gate eng y)) = has_reuse (fst y)" "dirty (fst (settle_gate eng y)) = dirty (fst y)"
  by (simp_all add: enter_gate_def settle_gate_def case_prod_beta)

lemma run_statement_flags:
  assumes "reject_unsupported sql = Inr ()"
  shows "has_reuse (fst (snd (run_statement eng sql body (s, st)))) = has_reuse s \<and>
    dirty (fst (snd (run_statement eng sql body (s, st)))) = (dirty s \<or> has_reuse s \<and> statement_dirties_connection sql)"
proof -
  let ?s1 = "enter_gate (mark_dirty_if_needed sql s)"
  obtain r s2 st2 where c: "ensure_capture eng sql (?s1, st) = (r, s2, st2)" by (metis prod_cases3)
  have "has_reuse s2 = has_reuse s" "dirty s2 = (dirty s \<or> has_reuse s \<and> statement_dirties_connection sql)"
    using capture_flags [OF c] by (auto simp: mark_dirty_if_needed_def)
  with c assms show ?thesis by (auto simp: run_statement_def Let_def split: sum.split prod.split)
qed

lemma run_call_flags:
  assumes "run_call eng cl (s, st) = (s', st')"
  shows "has_reuse s' = has_reuse s \<and> (has_reuse s \<and> \<not> dirty s' \<longrightarrow> \<not> dirty s \<and> clean (sent cl))"
proof -
  have stmt: "has_reuse s' = has_reuse s \<and> (has_reuse s \<and> \<not> dirty s' \<longrightarrow> \<not> dirty s \<and>
      clean (case reject_unsupported sql of Inl _ \<Rightarrow> [] | Inr _ \<Rightarrow> [sql]))"
    if "fst (snd (run_statement eng sql body (s, st))) = s'" for sql and body :: "'a \<Rightarrow> (backend_error + 'b) \<times> 'a"
  proof (cases "reject_unsupported sql")
    case (Inl e)
    with that show ?thesis by (auto simp: run_statement_def)
  next
    case (Inr u)
    with run_statement_flags [of sql eng body s st] that show ?thesis by (auto simp: clean_def)
  qed
  show ?thesis
  proof (cases cl)
    case (QueryCall sql ps)
    with assms have "fst (snd (run_statement eng sql (query_on eng sql ps) (s, st))) = s'" by (simp add: run_call_def turso_query_def)
    from stmt [OF this] QueryCall show ?thesis by simp
  next
    case (ExecuteCall sql ps)
    with assms have "fst (snd (run_statement eng sql (execute_on eng sql ps (baseline_rowid s)) (s, st))) = s'"
      by (simp add: run_call_def turso_execute_def)
    from stmt [OF this] ExecuteCall show ?thesis by simp
  next
    case (DescribeCall sql)
    with assms have "s' = fst (settle_gate eng (enter_gate s, st'))"
      by (auto simp: run_call_def turso_describe_def settle_gate_def split: prod.splits sum.splits)
    with DescribeCall show ?thesis by simp
  qed
qed

lemma pool_invD:
  assumes "pool_inv y"
  shows "pool_room (factory y)" "distinct (idle_conns (factory y))"
    "c \<in> set (idle_conns (factory y)) \<Longrightarrow> c < next_conn y \<and> clean (ran y c) \<and> (\<forall>sid. \<not> owns y sid c)"
    "owns y sid c \<Longrightarrow> owns y sid' c \<Longrightarrow> sid = sid'"
    "sessions y sid = Some (c, s) \<Longrightarrow> c < next_conn y \<and> (has_reuse s \<and> \<not> dirty s \<longrightarrow> clean (ran y c))"
    "next_conn y \<le> c \<Longrightarrow> ran y c = []"
  using assms unfolding pool_inv_def by blast+

lemma pool_inv_connect:
  assumes inv: "pool_inv y" and "sessions y sid = None"
    and con: "turso_connect eng su now (next_conn y) (factory y) (world y) = (Inr (c, s), f, w)"
  shows "pool_inv (y\<lparr>world := w, factory := f, sessions := (sessions y)(sid \<mapsto> (c, s)), next_conn := Suc (next_conn y)\<rparr>)"
    (is "pool_inv ?z")
proof -
  note D = pool_invD [OF inv]
  from connect_effect [OF con] obtain gone where g: "pool_room (factory y) \<longrightarrow> pool_room f" "idle_conns (factory y) = idle_conns f @ gone"
    "c = next_conn y \<or> c \<in> set gone" by auto
  have notidle: "c \<notin> set (idle_conns f)" using D(2,3) g by fastforce
  have unowned: "\<not> owns y sid' c" for sid'
  proof
    assume own: "owns y sid' c"
    then obtain s' where "sessions y sid' = Some (c, s')" by (auto simp: owns_def)
    then have "c < next_conn y" using D(5) by blast
    then have "c \<in> set (idle_conns (factory y))" using g by auto
    with D(3) own show False by blast
  qed
  have cl: "clean (ran y c) \<and> c \<le> next_conn y" using D(3) [of c] D(6) [of c] g by fastforce
  have own: "owns ?z sid' c' \<longleftrightarrow> (if sid' = sid then c' = c else owns y sid' c')" for sid' c' by (auto simp: owns_def)
  have "distinct (idle_conns f)" using D(2) g(2) by simp
  moreover have "c' < Suc (next_conn y) \<and> clean (ran y c') \<and> (\<forall>sid'. \<not> owns ?z sid' c')" if "c' \<in> set (idle_conns f)" for c'
    using D(3) [of c'] that g(2) notidle unfolding own by (auto intro: less_SucI)
  moreover have "sid1 = sid2" if "owns ?z sid1 c'" "owns ?z sid2 c'" for sid1 sid2 c'
    using that D(4) unowned unfolding own by (auto split: if_splits)
  moreover have "c' < Suc (next_conn y) \<and> (has_reuse s' \<and> \<not> dirty s' \<longrightarrow> clean (ran y c'))"
    if "sessions ?z sid' = Some (c', s')" for sid' c' s'
    using that D(5) [of sid' c' s'] cl by (auto split: if_splits)
  ultimately show ?thesis using g(1) D(1,6) unfolding pool_inv_def by simp blast
qed

lemma pool_inv_refused:
  assumes inv: "pool_inv y" and con: "turso_connect eng su now (next_conn y) (factory y) (world y) = (Inl e, f, w)"
  shows "pool_inv (y\<lparr>world := w, factory := f, next_conn := Suc (next_conn y)\<rparr>)"
proof -
  note D = pool_invD [OF inv]
  from connect_effect [OF con] obtain gone where g: "pool_room (factory y) \<longrightarrow> pool_room f" "idle_conns (factory y) = idle_conns f @ gone" by auto
  with D show ?thesis unfolding pool_inv_def owns_def by (auto intro: less_SucI)
qed

lemma pool_inv_call:
  assumes inv: "pool_inv y" and sess: "sessions y sid = Some (c, s)" and run: "run_call (eng c) cl (s, world y) = (s', w)"
  shows "pool_inv (y\<lparr>world := w, sessions := (sessions y)(sid \<mapsto> (c, s')), ran := (ran y)(c := ran y c @ sent cl)\<rparr>)"
    (is "pool_inv ?z")
proof -
  note D = pool_invD [OF inv]
  have own: "owns ?z sid' c' \<longleftrightarrow> owns y sid' c'" for sid' c' using sess by (auto simp: owns_def)
  have mine: "owns y sid c" using sess by (auto simp: owns_def)
  have "c' < next_conn y \<and> clean (ran ?z c') \<and> (\<forall>sid'. \<not> owns ?z sid' c')" if "c' \<in> set (idle_conns (factory y))" for c'
    using D(3) [OF that] mine unfolding own by auto
  moreover have "c' < next_conn y \<and> (has_reuse s1 \<and> \<not> dirty s1 \<longrightarrow> clean (ran ?z c'))"
    if "sessions ?z sid' = Some (c', s1)" for sid' c' s1
  proof (cases "sid' = sid")
    case True
    with that run_call_flags [OF run] D(5) [OF sess] show ?thesis by auto
  next
    case False
    with that have y: "sessions y sid' = Some (c', s1)" by simp
    then have "c' \<noteq> c" using D(4) [of sid' c' sid] mine False by (auto simp: owns_def)
    with D(5) [OF y] show ?thesis by simp
  qed
  moreover have "ran ?z c' = []" if "next_conn y \<le> c'" for c'
    using D(5) [OF sess] D(6) [OF that] that by auto
  ultimately show ?thesis using D(1,2,4) unfolding pool_inv_def own by simp blast
qed

lemma pool_inv_close:
  assumes inv: "pool_inv y" and sess: "sessions y sid = Some (c, s)"
  shows "pool_inv (y\<lparr>factory := turso_drop eng now c s (factory y) (world y), sessions := (sessions y)(sid := None)\<rparr>)"
    (is "pool_inv ?z")
proof -
  note D = pool_invD [OF inv]
  have own: "owns ?z sid' c' \<longleftrightarrow> sid' \<noteq> sid \<and> owns y sid' c'" for sid' c' by (auto simp: owns_def)
  have mine: "owns y sid c" using sess by (auto simp: owns_def)
  have fresh: "c \<notin> set (idle_conns (factory y))" using D(3) mine by blast
  note E = drop_effect [of "factory y" eng now c s "world y"]
  have "distinct (idle_conns (factory ?z))" using E D(2) fresh by auto
  moreover have "c' < next_conn y \<and> clean (ran y c') \<and> (\<forall>sid'. \<not> owns ?z sid' c')" if "c' \<in> set (idle_conns (factory ?z))" for c'
  proof (cases "c' = c")
    case True
    with that fresh E have "has_reuse s \<and> \<not> dirty s" by auto
    with True D(5) [OF sess] D(4) [OF mine] show ?thesis unfolding own by auto
  next
    case False
    then have "c' \<in> set (idle_conns (factory y))" using that E by auto
    with D(3) show ?thesis unfolding own by auto
  qed
  moreover have "c' < next_conn y \<and> (has_reuse s1 \<and> \<not> dirty s1 \<longrightarrow> clean (ran y c'))" if "sessions ?z sid' = Some (c', s1)" for sid' c' s1
    using that D(5) [of sid' c' s1] by (auto split: if_splits)
  ultimately show ?thesis using E D(1,4,6) unfolding pool_inv_def own by simp blast
qed

lemma pool_inv_step: "pool_inv y \<Longrightarrow> turso_step eng su y e z \<Longrightarrow> pool_inv z"
proof (erule turso_stepE, goal_cases)
  case (1 sid now c s f w)
  then show ?case using pool_inv_connect by simp
next
  case (2 sid now e f w)
  then show ?case using pool_inv_refused by simp
next
  case (3 sid c s cl s' w)
  then show ?case using pool_inv_call by simp
next
  case (4 sid c s now)
  then show ?case using pool_inv_close by simp
next
  case (5 w)
  then show ?case by (simp add: pool_inv_def owns_def)
qed

lemma pool_inv_init: "pool_inv (sys_init b w)"
  by (simp add: pool_inv_def sys_init_def owns_def pool_room_def idle_conns_def turso_build_def reuse_pool_new_def)

interpretation turso_pool: lts_invariant "turso_step eng su" "\<lambda>y. \<exists>b w. y = sys_init b w" pool_inv for eng su
  by unfold_locales (auto intro: pool_inv_init pool_inv_step)

lemma checkout_reusable: "checkout eng now w p = (Some c, p') \<Longrightarrow> reusable_at_checkout eng c w"
proof (induction eng now w p rule: checkout.induct)
  case (1 eng now w p)
  obtain q p1 where q: "take_fresh now p = (q, p1)" by fastforce
  show ?case
  proof (cases q)
    case None
    with 1(2) q show ?thesis by (simp add: checkout.simps [of eng now w p])
  next
    case (Some d)
    show ?thesis
    proof (cases "reusable_at_checkout eng d w")
      case True
      with 1(2) q Some show ?thesis by (simp add: checkout.simps [of eng now w p])
    next
      case False
      with 1(2) q Some have "checkout eng now w (count_discard p1) = (Some c, p')" by (simp add: checkout.simps [of eng now w p])
      from 1(1) [OF q [symmetric] Some False this] show ?thesis .
    qed
  qed
qed

lemma connect_reused:
  assumes "turso_connect eng su now fresh f w = (Inr (c, s), f', w')"
  shows "c = fresh \<or> t_is_autocommit (eng c) w = Inr True" and "\<not> dirty s" and "\<not> permit_held s"
  using assms
  by (auto simp: turso_connect_def turso_conn_new_def Let_def reusable_at_checkout_def [symmetric]
      split: option.splits prod.splits sum.splits dest: checkout_reusable)

section \<open>Placeholders\<close>

text \<open>\<open>marks s n\<close>: outside quoted text, bracketed names and comments, \<open>s\<close> has \<open>n\<close> plain \<^verbatim>\<open>?\<close> and no other parameter.\<close>

inductive marks :: "string \<Rightarrow> nat \<Rightarrow> bool" where
  mk_end: "marks [] 0"
| mk_quoted: "is_quote q \<Longrightarrow> \<not> starts_with s [q] \<Longrightarrow> marks s n \<Longrightarrow> marks (q # doubled q x @ q # s) n"
| mk_bracketed: "CHR '']'' \<notin> set x \<Longrightarrow> marks s n \<Longrightarrow> marks (CHR ''['' # x @ CHR '']'' # s) n"
| mk_line: "newline \<notin> set x \<Longrightarrow> s = [] \<or> hd s = newline \<Longrightarrow> marks s n \<Longrightarrow> marks (''--'' @ x @ s) n"
| mk_block: "find_str (x @ ''*/'') ''*/'' = Some (length x) \<Longrightarrow> marks s n \<Longrightarrow> marks (''/*'' @ x @ ''*/'' @ s) n"
| mk_mark: "s = [] \<or> \<not> is_ascii_digit (hd s) \<Longrightarrow> marks s n \<Longrightarrow> marks (CHR ''?'' # s) (Suc n)"
| mk_plain: "\<not> is_quote c \<Longrightarrow> c \<notin> set ''[?:@$'' \<Longrightarrow> \<not> (c = CHR ''-'' \<and> starts_with s ''-'') \<Longrightarrow>
    \<not> (c = CHR ''/'' \<and> starts_with s ''*'') \<Longrightarrow> marks s n \<Longrightarrow> marks (c # s) n"

lemma after_quote_doubled: "\<not> starts_with s [q] \<Longrightarrow> after_quote q (doubled q x @ q # s) = s"
  by (induction x) (auto simp: doubled_def starts_with_def split: list.split)

lemma plain_chars: "\<not> is_quote (CHR ''['')" "\<not> is_quote (CHR ''-'')" "\<not> is_quote (CHR ''/'')" "\<not> is_quote (CHR ''?'')"
  by (simp_all add: is_quote_def single_quote_def double_quote_def backtick_def)

lemma marks_counted: "marks s n \<Longrightarrow> count_params m named s = m + n"
proof (induction arbitrary: m rule: marks.induct)
  case mk_end
  then show ?case by (simp add: count_params.simps)
next
  case (mk_quoted q s n x)
  then show ?case by (simp add: count_params.simps(2) after_quote_doubled)
next
  case (mk_bracketed x s n)
  then have "dropWhile (\<lambda>c. c \<noteq> CHR '']'') (x @ CHR '']'' # s) = CHR '']'' # s" by (auto simp: dropWhile_append)
  with mk_bracketed show ?case by (simp add: count_params.simps(2) plain_chars)
next
  case (mk_line x s n)
  then have "dropWhile (\<lambda>c. c \<noteq> newline) (CHR ''-'' # x @ s) = s"
    by (cases s) (auto simp: dropWhile_append newline_def)
  with mk_line show ?case by (simp add: count_params.simps(2) plain_chars starts_with_def)
next
  case (mk_block x s n)
  then show ?case using skip_comment_plain [of x s] by (simp add: count_params.simps(2) plain_chars starts_with_def)
next
  case (mk_mark s n)
  then have "takeWhile is_ascii_digit s = []" "dropWhile is_ascii_digit s = s" by (cases s; auto)+
  with mk_mark show ?case by (simp add: count_params.simps(2) plain_chars Let_def)
next
  case (mk_plain c s n)
  then show ?case by (auto simp: count_params.simps(2))
qed

section \<open>Concrete runs\<close>

text \<open>An engine on which every statement succeeds; the state says whether a transaction is open.\<close>

definition plain_engine :: "nat \<Rightarrow> bool turso_engine" where
  "plain_engine c =
     \<lparr>t_connect = (\<lambda>st. (Inr (), st)), t_prepare = (\<lambda>sql st. (Inr [], st)), t_query = (\<lambda>sql ps st. (Inr [], st)),
      t_execute = (\<lambda>sql ps st. (Inr 1, if sql = ''BEGIN'' then True else if sql = ''COMMIT'' then False else st)),
      t_is_autocommit = (\<lambda>st. Inr (\<not> st)), t_last_insert_rowid = (\<lambda>st. 7), t_debug = (\<lambda>v. []), v_debug = (\<lambda>v. [])\<rparr>"

definition plain_setup :: "bool turso_setup" where
  "plain_setup = \<lparr>t_busy_timeout = (\<lambda>c t w. (Inr (), w)), t_pragma_update = (\<lambda>c n v w. (Inr (), w))\<rparr>"

definition demo_builder :: turso_builder where
  "demo_builder =
     \<lparr>tb_path = ''app.db'', tb_busy_timeout_ms = 5000, tb_synchronous = Normal, tb_enable_cdc_on_connect = False, tb_max_idle = 1,
      tb_idle_max_age = 100, tb_wal_gate = True\<rparr>"

fun turso_exec :: "(nat \<Rightarrow> 'w turso_engine) \<Rightarrow> 'w turso_setup \<Rightarrow> 'w turso_sys \<Rightarrow> turso_event \<Rightarrow> 'w turso_sys option" where
  "turso_exec eng su y (Connect sid now) =
     (case sessions y sid of
        Some _ \<Rightarrow> None
      | None \<Rightarrow>
          (case turso_connect eng su now (next_conn y) (factory y) (world y) of
             (Inr (c, s), f, w) \<Rightarrow>
               Some (y\<lparr>world := w, factory := f, sessions := (sessions y)(sid \<mapsto> (c, s)), next_conn := Suc (next_conn y)\<rparr>)
           | (Inl e, f, w) \<Rightarrow> Some (y\<lparr>world := w, factory := f, next_conn := Suc (next_conn y)\<rparr>)))"
| "turso_exec eng su y (Call sid cl) =
     (case sessions y sid of
        None \<Rightarrow> None
      | Some (c, s) \<Rightarrow>
          (case run_call (eng c) cl (s, world y) of
             (s', w) \<Rightarrow> Some (y\<lparr>world := w, sessions := (sessions y)(sid \<mapsto> (c, s')), ran := (ran y)(c := ran y c @ sent cl)\<rparr>)))"
| "turso_exec eng su y (Close sid now) =
     (case sessions y sid of
        None \<Rightarrow> None
      | Some (c, s) \<Rightarrow>
          Some (y\<lparr>factory := turso_drop eng now c s (factory y) (world y), sessions := (sessions y)(sid := None)\<rparr>))"
| "turso_exec eng su y Elsewhere = Some y"

lemma turso_exec_sound: "turso_exec eng su y e = Some z \<Longrightarrow> turso_step eng su y e z"
proof (cases e)
  case Elsewhere
  assume "turso_exec eng su y e = Some z"
  with Elsewhere show ?thesis using ts_elsewhere [of eng su y "world y"] by simp
qed (auto split: option.splits prod.splits sum.splits intro: turso_step.intros)

interpretation turso_machine: executable_lts "turso_exec eng su" "turso_step eng su" for eng su
  by unfold_locales (rule turso_exec_sound)

definition demo_events :: "turso_event list" where
  "demo_events = [Connect 0 10, Call 0 (ExecuteCall ''INSERT INTO t VALUES (?)'' [Null]), Close 0 20]"

definition demo_sys :: "bool turso_sys" where
  "demo_sys = the (exec_all (turso_exec plain_engine plain_setup) (sys_init demo_builder False) demo_events)"

lemma demo_turso_run: "lts_run (turso_step plain_engine plain_setup) (sys_init demo_builder False) demo_events demo_sys"
proof -
  have "\<not> Option.is_none (exec_all (turso_exec plain_engine plain_setup) (sys_init demo_builder False) demo_events)" by code_simp
  then show ?thesis unfolding demo_sys_def
    by (intro turso_machine.exec_all_run) (simp add: Option.is_none_def)
qed


text \<open>
  Fact (the gate permit follows the transaction). After any statements of a session that started outside
  a transaction, it holds the WAL gate's permit exactly when the gate is enabled and the engine reports an open
  transaction, so an idle session never delays a checkpoint and one inside a transaction always does.
\<close>

theorem permit_follows_transaction:
  assumes "t_is_autocommit eng st = Inr True"
    and "fold (run_call eng) calls (turso_conn_new gate reuse base cdc timeout, st) = (s, st')"
  shows "permit_held s \<longleftrightarrow> has_gate s \<and> t_is_autocommit eng st' = Inr False"
proof -
  have "permit_ok eng y \<Longrightarrow> permit_ok eng (fold (run_call eng) calls y)" for y
    by (induction calls arbitrary: y) (auto simp: run_call_permit)
  moreover have "permit_ok eng (turso_conn_new gate reuse base cdc timeout, st)"
    using assms(1) by (simp add: permit_ok_def turso_conn_new_def)
  ultimately show ?thesis using assms(2) by (metis fst_conv permit_ok_def snd_conv)
qed

theorem permit_follows_transaction_witness:
  "let y = fold (run_call (plain_engine 0)) [ExecuteCall ''BEGIN'' []] (turso_conn_new True False 0 False 5000, False)
   in snd y \<and> permit_held (fst y)"
proof -
  define y where "y = fold (run_call (plain_engine 0)) [ExecuteCall ''BEGIN'' []] (turso_conn_new True False 0 False 5000, False)"
  have "snd y \<and> has_gate (fst y)" unfolding y_def by code_simp
  with permit_follows_transaction [of "plain_engine 0" False "[ExecuteCall ''BEGIN'' []]" True False 0 False 5000 "fst y" "snd y"]
  show ?thesis unfolding y_def [symmetric] Let_def by (simp add: plain_engine_def y_def)
qed

text \<open>
  Fact (only with all its parameters). For a statement with \<open>n\<close> plain placeholders outside quoted text,
  bracketed names and comments, a call with any other number of values is refused and neither runs nor reads
  anything; with \<open>n\<close> values the check passes.
\<close>

theorem runs_only_with_all_parameters:
  assumes "marks sql n" and "length ps \<noteq> n"
  shows "check_param_count sql n = Inr () \<and>
    (\<exists>e. fst (query_on (recorded eng) sql ps (st, l)) = Inl e) \<and> snd (snd (query_on (recorded eng) sql ps (st, l))) = l \<and>
    (\<exists>e. fst (execute_on (recorded eng) sql ps base (st, l)) = Inl e) \<and> snd (snd (execute_on (recorded eng) sql ps base (st, l))) = l"
  using marks_counted [OF assms(1), of 0 "[]"] assms(2)
  by (auto simp: query_on_def execute_on_def check_param_count_def expected_param_count_def split: prod.splits sum.splits)

theorem runs_only_with_all_parameters_witness:
  "check_param_count ''SELECT ?'' 1 = Inr () \<and>
   snd (snd (query_on (recorded (plain_engine 0)) ''SELECT ?'' [] (False, []))) = [] \<and>
   (\<exists>e. fst (query_on (recorded (plain_engine 0)) ''SELECT ?'' [] (False, [])) = Inl e)"
proof -
  have "marks ''SELECT ?'' (Suc 0)"
    by (intro mk_plain mk_mark mk_end) (simp_all add: is_quote_def single_quote_def double_quote_def backtick_def)
  from runs_only_with_all_parameters [OF this, of "[]" "plain_engine 0" False "[]"] show ?thesis by simp
qed

text \<open>
  Property C12 (clean connections). However sessions connect, run statements and close, on whatever the engine does,
  a connection handed out is owned by no other session, no session that had it before sent a statement the code
  classes as leaving connection state behind, and unless it is new it was outside a transaction; the new session
  starts clean and without a gate permit, and the pool never exceeds its size.
\<close>

theorem clean_connections:
  assumes "lts_run (turso_step eng su) (sys_init b w0) es y"
    and "turso_connect eng su now (next_conn y) (factory y) (world y) = (Inr (c, s), f, w)"
  shows "clean (ran y c) \<and> (\<forall>sid. \<not> owns y sid c) \<and> (c = next_conn y \<or> t_is_autocommit (eng c) (world y) = Inr True) \<and>
    \<not> dirty s \<and> \<not> permit_held s \<and> pool_room (factory y)"
proof -
  have inv: "pool_inv y" using turso_pool.inv_run [OF _ assms(1)] by blast
  note D = pool_invD [OF inv]
  from connect_effect [OF assms(2)] obtain gone where "idle_conns (factory y) = idle_conns f @ gone" "c = next_conn y \<or> c \<in> set gone" by auto
  then have c: "c = next_conn y \<or> c \<in> set (idle_conns (factory y))" by auto
  have "\<not> owns y sid (next_conn y)" for sid using D(5) by (auto simp: owns_def)
  with c D(3) [of c] D(6) [of c] have "clean (ran y c)" "\<forall>sid. \<not> owns y sid c" by auto
  with connect_reused [OF assms(2)] D(1) show ?thesis by blast
qed

theorem clean_connections_witness:
  "\<exists>s f w. turso_connect plain_engine plain_setup 30 (next_conn demo_sys) (factory demo_sys) (world demo_sys) = (Inr (0, s), f, w) \<and>
     ran demo_sys 0 = [''INSERT INTO t VALUES (?)''] \<and> clean (ran demo_sys 0) \<and> (\<forall>sid. \<not> owns demo_sys sid 0)"
proof -
  have "case turso_connect plain_engine plain_setup 30 (next_conn demo_sys) (factory demo_sys) (world demo_sys) of
      (Inr (c, s), f, w) \<Rightarrow> c = 0 | _ \<Rightarrow> False" by code_simp
  then obtain s f w where c: "turso_connect plain_engine plain_setup 30 (next_conn demo_sys) (factory demo_sys) (world demo_sys) = (Inr (0, s), f, w)"
    by (auto split: prod.splits sum.splits)
  moreover have "ran demo_sys 0 = [''INSERT INTO t VALUES (?)'']" by code_simp
  ultimately show ?thesis using clean_connections [OF demo_turso_run c] by blast
qed

end
