(* ===== verification/Rusqlite_Conn.thy ===== *)
theory Rusqlite_Conn
  imports Backend_Api Utf8
begin

text \<open>
  The in-process SQLite backend (\<^verbatim>\<open>src/crates/litewire-backend/src/rusqlite_backend.rs\<close>): targets and builder, the
  probe of a handle's session state, running statements, the free-list of session workers, and the system
  of sessions, workers and their channels. The \<^verbatim>\<open>rusqlite\<close> crate is the parameter \<open>sqlite_lib\<close>: its functions act on the
  state \<open>'w\<close> of the SQLite library and name a connection by the number of the worker that owns it.
\<close>

section \<open>The library\<close>

text \<open>\<^verbatim>\<open>ValueRef\<close>; an \<^verbatim>\<open>i64\<close> is its 64-bit pattern and an \<^verbatim>\<open>f64\<close> its bits. A row answers \<^verbatim>\<open>get_ref\<close> per column.\<close>

datatype value_ref = VNull | VInteger u64 | VReal f64_bits | VText bytes | VBlob bytes

type_synonym sqlite_row = "nat \<Rightarrow> string + value_ref"

record 'w sqlite_lib =
  sq_open :: "nat \<Rightarrow> string \<Rightarrow> 'w \<Rightarrow> (string + unit) \<times> 'w"
  sq_close :: "nat \<Rightarrow> 'w \<Rightarrow> 'w"
  sq_busy_timeout :: "nat \<Rightarrow> u64 \<Rightarrow> 'w \<Rightarrow> (string + unit) \<times> 'w"
  sq_pragma_update :: "nat \<Rightarrow> string \<Rightarrow> string \<Rightarrow> 'w \<Rightarrow> (string + unit) \<times> 'w"
  sq_create_scalar_function :: "nat \<Rightarrow> string \<Rightarrow> nat \<Rightarrow> 'w \<Rightarrow> (string + unit) \<times> 'w"
  sq_is_autocommit :: "nat \<Rightarrow> 'w \<Rightarrow> bool"
  sq_execute_batch :: "nat \<Rightarrow> string \<Rightarrow> 'w \<Rightarrow> (string + unit) \<times> 'w"
  sq_prepare_cached :: "nat \<Rightarrow> string \<Rightarrow> 'w \<Rightarrow> (string + column list) \<times> 'w"
  sq_query :: "nat \<Rightarrow> string \<Rightarrow> value_ref list \<Rightarrow> 'w \<Rightarrow> (string + (string + sqlite_row) list) \<times> 'w"
  sq_execute :: "nat \<Rightarrow> string \<Rightarrow> value_ref list \<Rightarrow> 'w \<Rightarrow> (string + nat) \<times> 'w"
  sq_last_insert_rowid :: "nat \<Rightarrow> 'w \<Rightarrow> u64"
  sq_set_last_insert_rowid :: "nat \<Rightarrow> u64 \<Rightarrow> 'w \<Rightarrow> 'w"

definition sqlite_err :: "string + 'a \<Rightarrow> backend_error + 'a" where
  "sqlite_err r = (case r of Inl e \<Rightarrow> Inl (Sqlite e) | Inr x \<Rightarrow> Inr x)"

section \<open>Targets and configuration\<close>

datatype target = FileTarget string | MemoryTempFile string

fun as_path :: "target \<Rightarrow> string" where
  "as_path (FileTarget p) = p"
| "as_path (MemoryTempFile p) = p"

text \<open>The files \<^verbatim>\<open>TempOwner\<close> removes when it is dropped.\<close>

definition temp_owner_removes :: "string \<Rightarrow> string list" where
  "temp_owner_removes p = [p, p @ ''-wal'', p @ ''-shm'']"

text \<open>\<open>temp_dir\<close> joins a file name to the directory for temporary files; \<open>n\<close> is the process-wide counter.\<close>

definition temp_db_path :: "(string \<Rightarrow> string) \<Rightarrow> nat \<Rightarrow> nat \<Rightarrow> string \<times> nat" where
  "temp_db_path temp_dir pid n = (temp_dir (''litewire-mem-'' @ show_nat pid @ ''-'' @ show_nat n @ ''.sqlite''), n + 1)"

definition classify_target :: "(string \<Rightarrow> string) \<Rightarrow> nat \<Rightarrow> string \<Rightarrow> nat \<Rightarrow> target \<times> nat" where
  "classify_target temp_dir pid path n =
     (if path = [] \<or> path = '':memory:'' \<or> contains_str path '':memory:''
      then (case temp_db_path temp_dir pid n of (p, n') \<Rightarrow> (MemoryTempFile p, n'))
      else (FileTarget path, n))"

datatype synchronous = Off | Normal | Full

fun as_pragma_str :: "synchronous \<Rightarrow> string" where
  "as_pragma_str Off = ''OFF''"
| "as_pragma_str Normal = ''NORMAL''"
| "as_pragma_str Full = ''FULL''"

text \<open>Durations are in milliseconds.\<close>

definition DEFAULT_IDLE_MAX_AGE :: nat where "DEFAULT_IDLE_MAX_AGE = 60000"

record rusqlite_builder =
  rb_target :: target
  rb_busy_timeout_ms :: u32
  rb_synchronous :: synchronous
  rb_max_idle :: nat
  rb_max_idle_age :: nat

definition rusqlite_builder_new :: "target \<Rightarrow> rusqlite_builder" where
  "rusqlite_builder_new t =
     \<lparr>rb_target = t, rb_busy_timeout_ms = 5000, rb_synchronous = Normal, rb_max_idle = 0, rb_max_idle_age = DEFAULT_IDLE_MAX_AGE\<rparr>"

definition set_busy_timeout_ms :: "u32 \<Rightarrow> rusqlite_builder \<Rightarrow> rusqlite_builder" where
  "set_busy_timeout_ms ms b = b\<lparr>rb_busy_timeout_ms := ms\<rparr>"

definition set_synchronous :: "synchronous \<Rightarrow> rusqlite_builder \<Rightarrow> rusqlite_builder" where
  "set_synchronous s b = b\<lparr>rb_synchronous := s\<rparr>"

definition handle_reuse :: "nat \<Rightarrow> rusqlite_builder \<Rightarrow> rusqlite_builder" where
  "handle_reuse n b = b\<lparr>rb_max_idle := n\<rparr>"

definition set_idle_max_age :: "nat \<Rightarrow> rusqlite_builder \<Rightarrow> rusqlite_builder" where
  "set_idle_max_age age b = b\<lparr>rb_max_idle_age := age\<rparr>"

section \<open>The session-state probe\<close>

definition STATE_FINGERPRINT_SQL :: string where
  "STATE_FINGERPRINT_SQL =
     ''SELECT 1024 * ( (SELECT count(*) FROM sqlite_temp_master) + (SELECT count(*) FROM pragma_database_list WHERE name NOT IN ('' @
     [CHR 0x27] @ ''main'' @ [CHR 0x27] @ '','' @ [CHR 0x27] @ ''temp'' @ [CHR 0x27] @
     '')) ) +   1 * (SELECT * FROM pragma_query_only) +   2 * (SELECT * FROM pragma_foreign_keys) +   4 * (SELECT * FROM pragma_recursive_triggers) +   8 * (SELECT * FROM pragma_defer_foreign_keys) +  16 * (SELECT * FROM pragma_read_uncommitted) +  32 * (SELECT * FROM pragma_reverse_unordered_selects) +  64 * (SELECT * FROM pragma_cell_size_check) + 128 * (SELECT * FROM pragma_automatic_index) + 256 * (SELECT * FROM pragma_trusted_schema)''"

definition row_i64 :: "sqlite_row \<Rightarrow> u64 option" where
  "row_i64 row = (case row 0 of Inr (VInteger v) \<Rightarrow> Some v | _ \<Rightarrow> None)"

definition fingerprint :: "'w sqlite_lib \<Rightarrow> nat \<Rightarrow> 'w \<Rightarrow> u64 option \<times> 'w" where
  "fingerprint lib h w =
     (case sq_prepare_cached lib h STATE_FINGERPRINT_SQL w of
        (Inl e, w1) \<Rightarrow> (None, w1)
      | (Inr _, w1) \<Rightarrow>
          (case sq_query lib h STATE_FINGERPRINT_SQL [] w1 of
             (Inr (Inr row # rows), w2) \<Rightarrow> (row_i64 row, w2)
           | (_, w2) \<Rightarrow> (None, w2)))"

section \<open>The regexp function\<close>

fun coerce_text :: "f64_ops \<Rightarrow> value_ref \<Rightarrow> string option" where
  "coerce_text fo VNull = None"
| "coerce_text fo (VInteger i) = Some (i64_to_string (sint i))"
| "coerce_text fo (VReal f) = Some (f64_to_string fo f)"
| "coerce_text fo (VText t) = Some (from_utf8_lossy t)"
| "coerce_text fo (VBlob t) = Some (from_utf8_lossy t)"

text \<open>\<^verbatim>\<open>Regex::new\<close> and \<^verbatim>\<open>is_match\<close> of the \<^verbatim>\<open>regex\<close> crate.\<close>

record 'r regex_lib =
  regex_new :: "string \<Rightarrow> string + 'r"
  is_match :: "'r \<Rightarrow> string \<Rightarrow> bool"

definition regexp :: "'r regex_lib \<Rightarrow> f64_ops \<Rightarrow> value_ref \<Rightarrow> value_ref \<Rightarrow> string + bool option" where
  "regexp rx fo pattern subject =
     (if pattern = VNull \<or> subject = VNull then Inr None
      else case regex_new rx (case coerce_text fo pattern of Some t \<Rightarrow> t | None \<Rightarrow> []) of
          Inl e \<Rightarrow> Inl e
        | Inr r \<Rightarrow>
            (case coerce_text fo subject of
               None \<Rightarrow> Inr None
             | Some haystack \<Rightarrow> Inr (Some (is_match rx r haystack))))"

definition register_regexp :: "'w sqlite_lib \<Rightarrow> nat \<Rightarrow> 'w \<Rightarrow> (string + unit) \<times> 'w" where
  "register_regexp lib h = sq_create_scalar_function lib h ''regexp'' 2"

section \<open>Running statements\<close>

fun bind_param :: "backend_value \<Rightarrow> value_ref" where
  "bind_param Null = VNull"
| "bind_param (Integer i) = VInteger i"
| "bind_param (Float f) = VReal f"
| "bind_param (Text s) = VText (bytes_of_string s)"
| "bind_param (Blob b) = VBlob b"

definition bind_params :: "backend_value list \<Rightarrow> value_ref list" where
  "bind_params params = map bind_param params"

fun value_of_ref :: "value_ref \<Rightarrow> backend_value" where
  "value_of_ref VNull = Null"
| "value_of_ref (VInteger i) = Integer i"
| "value_of_ref (VReal f) = Float f"
| "value_of_ref (VText s) = (case from_utf8 s of Inr v \<Rightarrow> Text v | Inl _ \<Rightarrow> Blob s)"
| "value_of_ref (VBlob b) = Blob b"

definition extract_value :: "sqlite_row \<Rightarrow> nat \<Rightarrow> string + backend_value" where
  "extract_value row idx = (case row idx of Inl e \<Rightarrow> Inl e | Inr v \<Rightarrow> Inr (value_of_ref v))"

fun extract_values :: "sqlite_row \<Rightarrow> nat list \<Rightarrow> string + backend_value list" where
  "extract_values row [] = Inr []"
| "extract_values row (i # is) =
     (case extract_value row i of
        Inl e \<Rightarrow> Inl e
      | Inr v \<Rightarrow> (case extract_values row is of Inl e \<Rightarrow> Inl e | Inr vs \<Rightarrow> Inr (v # vs)))"

fun collect_rows :: "nat \<Rightarrow> (string + sqlite_row) list \<Rightarrow> string + backend_value list list" where
  "collect_rows n [] = Inr []"
| "collect_rows n (Inl e # rows) = Inl e"
| "collect_rows n (Inr row # rows) =
     (case extract_values row [0..<n] of
        Inl e \<Rightarrow> Inl e
      | Inr vs \<Rightarrow> (case collect_rows n rows of Inl e \<Rightarrow> Inl e | Inr vss \<Rightarrow> Inr (vs # vss)))"

definition run_query :: "'w sqlite_lib \<Rightarrow> nat \<Rightarrow> string \<Rightarrow> backend_value list \<Rightarrow> 'w \<Rightarrow> (backend_error + result_set) \<times> 'w" where
  "run_query lib h sql params w =
     (case sq_prepare_cached lib h sql w of
        (Inl e, w1) \<Rightarrow> (Inl (Sqlite e), w1)
      | (Inr columns, w1) \<Rightarrow>
          (case sq_query lib h sql (bind_params params) w1 of
             (Inl e, w2) \<Rightarrow> (Inl (Sqlite e), w2)
           | (Inr rows, w2) \<Rightarrow>
               (case collect_rows (length columns) rows of
                  Inl e \<Rightarrow> (Inl (Sqlite e), w2)
                | Inr result_rows \<Rightarrow> (Inr \<lparr>rs_columns = columns, rs_rows = result_rows\<rparr>, w2))))"

definition run_execute :: "'w sqlite_lib \<Rightarrow> nat \<Rightarrow> string \<Rightarrow> backend_value list \<Rightarrow> 'w \<Rightarrow> (backend_error + execute_result) \<times> 'w" where
  "run_execute lib h sql params w =
     (case sq_prepare_cached lib h sql w of
        (Inl e, w1) \<Rightarrow> (Inl (Sqlite e), w1)
      | (Inr _, w1) \<Rightarrow>
          (case sq_execute lib h sql (bind_params params) w1 of
             (Inl e, w2) \<Rightarrow> (Inl (Sqlite e), w2)
           | (Inr affected, w2) \<Rightarrow>
               (let last_id = sq_last_insert_rowid lib h w2 in
                (Inr \<lparr>affected_rows = of_nat affected, last_insert_rowid = (if last_id \<noteq> 0 then Some last_id else None)\<rparr>, w2))))"

definition run_describe :: "'w sqlite_lib \<Rightarrow> nat \<Rightarrow> string \<Rightarrow> 'w \<Rightarrow> (backend_error + column list) \<times> 'w" where
  "run_describe lib h sql w = apfst sqlite_err (sq_prepare_cached lib h sql w)"

definition open_session :: "'w sqlite_lib \<Rightarrow> nat \<Rightarrow> string \<Rightarrow> u32 \<Rightarrow> synchronous \<Rightarrow> 'w \<Rightarrow> (backend_error + unit) \<times> 'w" where
  "open_session lib h path busy_timeout_ms sync w =
     (case sq_open lib h path w of
        (Inl e, w1) \<Rightarrow> (Inl (Sqlite e), w1)
      | (Inr _, w1) \<Rightarrow>
          (case sq_busy_timeout lib h (ucast busy_timeout_ms) w1 of
             (Inl e, w2) \<Rightarrow> (Inl (Sqlite e), sq_close lib h w2)
           | (Inr _, w2) \<Rightarrow>
               (case sq_pragma_update lib h ''synchronous'' (as_pragma_str sync) w2 of
                  (Inl e, w3) \<Rightarrow> (Inl (Sqlite e), sq_close lib h w3)
                | (Inr _, w3) \<Rightarrow>
                    (case register_regexp lib h w3 of
                       (Inl e, w4) \<Rightarrow> (Inl (Sqlite e), sq_close lib h w4)
                     | (Inr _, w4) \<Rightarrow> (Inr (), w4)))))"

section \<open>The free-list\<close>

record idle_worker =
  iw_tx :: nat
  iw_since :: nat

record idle_pool =
  ip_idle :: "idle_worker list"
  ip_max_idle :: nat
  ip_max_idle_age :: nat
  ip_pristine :: u64
  ip_hits :: u64
  ip_misses :: u64
  ip_returned :: u64
  ip_discarded :: u64
  ip_expired :: u64

definition idle_pool_new :: "nat \<Rightarrow> nat \<Rightarrow> u64 \<Rightarrow> idle_pool" where
  "idle_pool_new max_idle max_idle_age pristine =
     \<lparr>ip_idle = [], ip_max_idle = max_idle, ip_max_idle_age = max_idle_age, ip_pristine = pristine,
      ip_hits = 0, ip_misses = 0, ip_returned = 0, ip_discarded = 0, ip_expired = 0\<rparr>"

text \<open>The age sweep consumes from the front, the checkout from the back; the free-list is locked for both.\<close>

definition expired_at :: "nat \<Rightarrow> nat \<Rightarrow> idle_worker \<Rightarrow> bool" where
  "expired_at now max_age w \<longleftrightarrow> max_age \<le> now - iw_since w"

definition idle_take :: "nat \<Rightarrow> idle_pool \<Rightarrow> nat option \<times> idle_pool" where
  "idle_take now p =
     (let retired = takeWhile (expired_at now (ip_max_idle_age p)) (ip_idle p);
          rest = dropWhile (expired_at now (ip_max_idle_age p)) (ip_idle p);
          p1 = p\<lparr>ip_idle := butlast rest, ip_expired := ip_expired p + of_nat (length retired)\<rparr> in
      if rest = [] then (None, p1\<lparr>ip_misses := ip_misses p1 + 1\<rparr>)
      else (Some (iw_tx (last rest)), p1\<lparr>ip_hits := ip_hits p1 + 1\<rparr>))"

definition idle_reset :: "'w sqlite_lib \<Rightarrow> idle_pool \<Rightarrow> nat \<Rightarrow> u32 \<Rightarrow> 'w \<Rightarrow> bool \<times> 'w" where
  "idle_reset lib p h busy_timeout_ms w =
     (case (if sq_is_autocommit lib h w then (Inr (), w) else sq_execute_batch lib h ''ROLLBACK'' w) of
        (Inl e, w1) \<Rightarrow> (False, w1)
      | (Inr _, w1) \<Rightarrow>
          (case fingerprint lib h w1 of
             (fp, w2) \<Rightarrow>
               if fp \<noteq> Some (ip_pristine p) then (False, w2)
               else (case sq_busy_timeout lib h (ucast busy_timeout_ms) (sq_set_last_insert_rowid lib h 0 w2) of
                   (r, w3) \<Rightarrow> (\<not> isl r, w3))))"

definition count_discarded :: "idle_pool \<Rightarrow> idle_pool" where
  "count_discarded p = p\<lparr>ip_discarded := ip_discarded p + 1\<rparr>"

text \<open>
  \<^verbatim>\<open>park\<close> in its two parts: the first look at the list with the reset of the handle, and the insertion under
  the lock, between which other threads use the list.
\<close>

definition park_first :: "'w sqlite_lib \<Rightarrow> idle_pool \<Rightarrow> nat \<Rightarrow> u32 \<Rightarrow> 'w \<Rightarrow> bool \<times> idle_pool \<times> 'w" where
  "park_first lib p h busy_timeout_ms w =
     (if ip_max_idle p \<le> length (ip_idle p) then (False, count_discarded p, w)
      else case idle_reset lib p h busy_timeout_ms w of
          (True, w1) \<Rightarrow> (True, p, w1)
        | (False, w1) \<Rightarrow> (False, count_discarded p, w1))"

definition park_insert :: "nat \<Rightarrow> nat \<Rightarrow> idle_pool \<Rightarrow> bool \<times> idle_pool" where
  "park_insert now back p =
     (if length (ip_idle p) < ip_max_idle p
      then (True, p\<lparr>ip_idle := ip_idle p @ [\<lparr>iw_tx = back, iw_since = now\<rparr>], ip_returned := ip_returned p + 1\<rparr>)
      else (False, count_discarded p))"

record reuse_stats =
  rs_hits :: u64
  rs_misses :: u64
  rs_returned :: u64
  rs_discarded :: u64
  rs_expired :: u64
  rs_idle :: nat

section \<open>The factory\<close>

record rusqlite =
  rq_target :: target
  rq_busy_timeout_ms :: u32
  rq_synchronous :: synchronous
  rq_pool :: "idle_pool option"

definition FINGERPRINT_FAILED :: string where
  "FINGERPRINT_FAILED = ''handle reuse enabled but the session-state fingerprint probe did not run against this SQLite build''"

definition rusqlite_build :: "'w sqlite_lib \<Rightarrow> nat \<Rightarrow> rusqlite_builder \<Rightarrow> 'w \<Rightarrow> (backend_error + rusqlite) \<times> 'w" where
  "rusqlite_build lib h b w =
     (case sq_open lib h (as_path (rb_target b)) w of
        (Inl e, w1) \<Rightarrow> (Inl (Sqlite e), w1)
      | (Inr _, w1) \<Rightarrow>
          (case sq_pragma_update lib h ''journal_mode'' ''WAL'' w1 of
             (Inl e, w2) \<Rightarrow> (Inl (Sqlite e), sq_close lib h w2)
           | (Inr _, w2) \<Rightarrow>
               (let made = (\<lambda>pool. \<lparr>rq_target = rb_target b, rq_busy_timeout_ms = rb_busy_timeout_ms b,
                                   rq_synchronous = rb_synchronous b, rq_pool = pool\<rparr>) in
                if 0 < rb_max_idle b then
                  (case fingerprint lib h w2 of
                     (None, w3) \<Rightarrow> (Inl (Sqlite FINGERPRINT_FAILED), sq_close lib h w3)
                   | (Some pristine, w3) \<Rightarrow>
                       (Inr (made (Some (idle_pool_new (rb_max_idle b) (rb_max_idle_age b) pristine))), sq_close lib h w3))
                else (Inr (made None), sq_close lib h w2))))"

definition reuse_stats_of :: "rusqlite \<Rightarrow> reuse_stats option" where
  "reuse_stats_of f =
     map_option (\<lambda>p. \<lparr>rs_hits = ip_hits p, rs_misses = ip_misses p, rs_returned = ip_returned p,
                      rs_discarded = ip_discarded p, rs_expired = ip_expired p, rs_idle = length (ip_idle p)\<rparr>) (rq_pool f)"

end
