(* ===== verification/Rusqlite_System.thy ===== *)
theory Rusqlite_System
  imports Rusqlite_Conn
begin

text \<open>
  The sessions of \<^verbatim>\<open>src/crates/litewire-backend/src/rusqlite_backend.rs\<close> at work: each session sends jobs over a channel to
  the worker thread that owns its connection, and a dropped session hands its worker to the free-list. Every
  thread's access to a channel or to the free-list is one step; a worker may also die of a panic in a job.
\<close>

section \<open>Jobs and replies\<close>

text \<open>A reply channel is a number; a sender of a worker's inbox is the worker's number.\<close>

datatype job = QueryJob string "backend_value list" nat | ExecuteJob string "backend_value list" nat | DescribeJob string nat
  | EndSession nat

datatype request = Query string "backend_value list" | Execute string "backend_value list" | Describe string

text \<open>\<open>HungUp\<close>: the sending half was dropped without a value, which the caller reports as \<open>worker_gone\<close>.\<close>

datatype reply = QueryReply "backend_error + result_set" | ExecuteReply "backend_error + execute_result"
  | DescribeReply "backend_error + column list" | HungUp

definition worker_gone :: backend_error where
  "worker_gone = Other ''SQLite session worker is no longer running''"

fun job_of :: "request \<Rightarrow> nat \<Rightarrow> job" where
  "job_of (Query sql params) n = QueryJob sql params n"
| "job_of (Execute sql params) n = ExecuteJob sql params n"
| "job_of (Describe sql) n = DescribeJob sql n"

text \<open>What the method that sent the request returns when its reply channel yields a reply.\<close>

definition query_result :: "reply \<Rightarrow> backend_error + result_set" where
  "query_result r = (case r of QueryReply x \<Rightarrow> x | _ \<Rightarrow> Inl worker_gone)"

definition execute_result_of :: "reply \<Rightarrow> backend_error + execute_result" where
  "execute_result_of r = (case r of ExecuteReply x \<Rightarrow> x | _ \<Rightarrow> Inl worker_gone)"

definition describe_result :: "reply \<Rightarrow> backend_error + column list" where
  "describe_result r = (case r of DescribeReply x \<Rightarrow> x | _ \<Rightarrow> Inl worker_gone)"

fun reply_channel :: "job \<Rightarrow> nat list" where
  "reply_channel (QueryJob sql params n) = [n]"
| "reply_channel (ExecuteJob sql params n) = [n]"
| "reply_channel (DescribeJob sql n) = [n]"
| "reply_channel (EndSession back) = []"

section \<open>The state\<close>

text \<open>A worker between jobs, or between the two parts of \<^verbatim>\<open>park\<close> with the sender it was given.\<close>

record worker =
  inbox :: "job list"
  parking :: "nat option"

record rusqlite_conn =
  tx :: nat
  pooled :: bool

text \<open>\<open>replies\<close> and \<open>sent\<close> record, per worker, the reply channels that were answered and the requests that were sent.\<close>

record 'w rq_sys =
  lib_state :: 'w
  factory :: rusqlite
  workers :: "nat \<Rightarrow> worker option"
  next_worker :: nat
  conns :: "(nat \<times> rusqlite_conn) list"
  clock :: nat
  replies :: "(nat \<times> nat \<times> reply) list"
  sent :: "(nat \<times> nat) list"

section \<open>Steps\<close>

text \<open>A thread that ends closes its connection and drops its inbox.\<close>

definition worker_ends :: "'w sqlite_lib \<Rightarrow> nat \<Rightarrow> job list \<Rightarrow> 'w rq_sys \<Rightarrow> 'w rq_sys" where
  "worker_ends lib k jobs y =
     y\<lparr>lib_state := sq_close lib k (lib_state y), workers := (workers y)(k := None),
       replies := replies y @ map (\<lambda>n. (k, n, HungUp)) (concat (map reply_channel jobs))\<rparr>"

definition session_job :: "'w sqlite_lib \<Rightarrow> nat \<Rightarrow> job \<Rightarrow> job list \<Rightarrow> 'w rq_sys \<Rightarrow> 'w rq_sys" where
  "session_job lib k job rest y =
     (let y1 = y\<lparr>workers := (workers y)(k \<mapsto> \<lparr>inbox = rest, parking = None\<rparr>)\<rparr> in
      case job of
        QueryJob sql params n \<Rightarrow>
          (case run_query lib k sql params (lib_state y) of
             (r, w) \<Rightarrow> y1\<lparr>lib_state := w, replies := replies y @ [(k, n, QueryReply r)]\<rparr>)
      | ExecuteJob sql params n \<Rightarrow>
          (case run_execute lib k sql params (lib_state y) of
             (r, w) \<Rightarrow> y1\<lparr>lib_state := w, replies := replies y @ [(k, n, ExecuteReply r)]\<rparr>)
      | DescribeJob sql n \<Rightarrow>
          (case run_describe lib k sql (lib_state y) of
             (r, w) \<Rightarrow> y1\<lparr>lib_state := w, replies := replies y @ [(k, n, DescribeReply r)]\<rparr>)
      | EndSession back \<Rightarrow>
          (case rq_pool (factory y) of
             None \<Rightarrow> worker_ends lib k rest y
           | Some p \<Rightarrow>
               (case park_first lib p k (rq_busy_timeout_ms (factory y)) (lib_state y) of
                  (True, p1, w) \<Rightarrow>
                    y1\<lparr>lib_state := w, factory := (factory y)\<lparr>rq_pool := Some p1\<rparr>,
                       workers := (workers y)(k \<mapsto> \<lparr>inbox = rest, parking = Some back\<rparr>)\<rparr>
                | (False, p1, w) \<Rightarrow>
                    worker_ends lib k rest (y\<lparr>lib_state := w, factory := (factory y)\<lparr>rq_pool := Some p1\<rparr>\<rparr>))))"

definition finish_park :: "'w sqlite_lib \<Rightarrow> nat \<Rightarrow> nat \<Rightarrow> job list \<Rightarrow> 'w rq_sys \<Rightarrow> 'w rq_sys" where
  "finish_park lib k back rest y =
     (case rq_pool (factory y) of
        None \<Rightarrow> y
      | Some p \<Rightarrow>
          (case park_insert (clock y) back p of
             (True, p1) \<Rightarrow>
               y\<lparr>factory := (factory y)\<lparr>rq_pool := Some p1\<rparr>,
                 workers := (workers y)(k \<mapsto> \<lparr>inbox = rest, parking = None\<rparr>)\<rparr>
           | (False, p1) \<Rightarrow> worker_ends lib k rest (y\<lparr>factory := (factory y)\<lparr>rq_pool := Some p1\<rparr>\<rparr>)))"

text \<open>Somebody still has a sender of the worker's inbox.\<close>

definition idle_senders :: "rusqlite \<Rightarrow> nat list" where
  "idle_senders f = (case rq_pool f of None \<Rightarrow> [] | Some p \<Rightarrow> map iw_tx (ip_idle p))"

definition conn_senders :: "'w rq_sys \<Rightarrow> nat list" where
  "conn_senders y = map (tx \<circ> snd) (conns y)"

definition end_sender :: "nat \<Rightarrow> worker \<Rightarrow> bool" where
  "end_sender k v \<longleftrightarrow> EndSession k \<in> set (inbox v) \<or> parking v = Some k"

definition connected :: "'w rq_sys \<Rightarrow> nat \<Rightarrow> bool" where
  "connected y k \<longleftrightarrow> k \<in> set (idle_senders (factory y)) \<or> k \<in> set (conn_senders y) \<or>
     (\<exists>j v. workers y j = Some v \<and> end_sender k v)"

text \<open>
  How starting a thread for a session ends: the system refuses a thread, the thread opens its connection, or
  it does so after the caller has gone away, or it panics before it is ready.
\<close>

datatype spawn = NoThread string | Started | CallerGone | DiesOnStartup

definition spawn_session ::
  "'w sqlite_lib \<Rightarrow> spawn \<Rightarrow> 'w rq_sys \<Rightarrow> (backend_error + nat) \<times> 'w rq_sys" where
  "spawn_session lib sp y =
     (let k = next_worker y; f = factory y in
      case sp of
        NoThread e \<Rightarrow> (Inl (Other (''could not spawn a SQLite session thread: '' @ e)), y)
      | _ \<Rightarrow>
          (case open_session lib k (as_path (rq_target f)) (rq_busy_timeout_ms f) (rq_synchronous f) (lib_state y) of
             (Inl e, w) \<Rightarrow> (Inl e, y\<lparr>lib_state := w, next_worker := k + 1\<rparr>)
           | (Inr _, w) \<Rightarrow>
               if sp \<noteq> Started
               then (Inl (Other ''SQLite session thread died on startup''), y\<lparr>lib_state := sq_close lib k w, next_worker := k + 1\<rparr>)
               else (Inr k, y\<lparr>lib_state := w, next_worker := k + 1,
                              workers := (workers y)(k \<mapsto> \<lparr>inbox = [], parking = None\<rparr>)\<rparr>)))"

definition rusqlite_connect ::
  "'w sqlite_lib \<Rightarrow> spawn \<Rightarrow> 'w rq_sys \<Rightarrow> (backend_error + rusqlite_conn) \<times> 'w rq_sys" where
  "rusqlite_connect lib sp y =
     (let (taken, y1) =
        (case rq_pool (factory y) of
           None \<Rightarrow> (None, y)
         | Some p \<Rightarrow> (case idle_take (clock y) p of (t, p1) \<Rightarrow> (t, y\<lparr>factory := (factory y)\<lparr>rq_pool := Some p1\<rparr>\<rparr>))) in
      case taken of
        Some k \<Rightarrow> (Inr \<lparr>tx = k, pooled = True\<rparr>, y1)
      | None \<Rightarrow>
          (case spawn_session lib sp y1 of
             (Inl e, y2) \<Rightarrow> (Inl e, y2)
           | (Inr k, y2) \<Rightarrow> (Inr \<lparr>tx = k, pooled = (rq_pool (factory y) \<noteq> None)\<rparr>, y2)))"

text \<open>A method of the session: the request goes to the inbox, or fails at once when the worker is gone.\<close>

definition send_request :: "rusqlite_conn \<Rightarrow> request \<Rightarrow> nat \<Rightarrow> 'w rq_sys \<Rightarrow> 'w rq_sys" where
  "send_request c r n y =
     (case workers y (tx c) of
        None \<Rightarrow> y\<lparr>replies := replies y @ [(tx c, n, HungUp)], sent := sent y @ [(tx c, n)]\<rparr>
      | Some v \<Rightarrow>
          y\<lparr>workers := (workers y)(tx c \<mapsto> v\<lparr>inbox := inbox v @ [job_of r n]\<rparr>), sent := sent y @ [(tx c, n)]\<rparr>)"

definition conn_drop :: "nat \<Rightarrow> rusqlite_conn \<Rightarrow> 'w rq_sys \<Rightarrow> 'w rq_sys" where
  "conn_drop sid c y =
     (let y1 = y\<lparr>conns := filter (\<lambda>sc. fst sc \<noteq> sid) (conns y)\<rparr> in
      if pooled c then
        (case workers y (tx c) of
           None \<Rightarrow> y1
         | Some v \<Rightarrow> y1\<lparr>workers := (workers y)(tx c \<mapsto> v\<lparr>inbox := inbox v @ [EndSession (tx c)]\<rparr>)\<rparr>)
      else y1)"

text \<open>The library calls a thread can make on its own connection; a panic may strike between any two of them.\<close>

inductive lib_call :: "'w sqlite_lib \<Rightarrow> nat \<Rightarrow> 'w \<Rightarrow> 'w \<Rightarrow> bool" for lib h where
  lc_open: "lib_call lib h w (snd (sq_open lib h path w))"
| lc_close: "lib_call lib h w (sq_close lib h w)"
| lc_busy_timeout: "lib_call lib h w (snd (sq_busy_timeout lib h ms w))"
| lc_pragma_update: "lib_call lib h w (snd (sq_pragma_update lib h name val w))"
| lc_create_function: "lib_call lib h w (snd (sq_create_scalar_function lib h name n w))"
| lc_execute_batch: "lib_call lib h w (snd (sq_execute_batch lib h sql w))"
| lc_prepare: "lib_call lib h w (snd (sq_prepare_cached lib h sql w))"
| lc_query: "lib_call lib h w (snd (sq_query lib h sql ps w))"
| lc_execute: "lib_call lib h w (snd (sq_execute lib h sql ps w))"
| lc_set_rowid: "lib_call lib h w (sq_set_last_insert_rowid lib h i w)"

datatype rq_event = Connect nat spawn | Refuse spawn | Send nat request nat | Receive nat | Insert nat | Retire nat | Die nat
  | Close nat | Tick nat

inductive rq_step :: "'w sqlite_lib \<Rightarrow> 'w rq_sys \<Rightarrow> rq_event \<Rightarrow> 'w rq_sys \<Rightarrow> bool" for lib where
  rq_connect: "map_of (conns y) sid = None \<Longrightarrow> rusqlite_connect lib sp y = (Inr c, z) \<Longrightarrow>
    rq_step lib y (Connect sid sp) (z\<lparr>conns := (sid, c) # conns z\<rparr>)"
| rq_refused: "rusqlite_connect lib sp y = (Inl e, z) \<Longrightarrow> rq_step lib y (Refuse sp) z"
| rq_send: "map_of (conns y) sid = Some c \<Longrightarrow> rq_step lib y (Send sid r n) (send_request c r n y)"
| rq_receive: "workers y k = Some \<lparr>inbox = job # rest, parking = None\<rparr> \<Longrightarrow>
    rq_step lib y (Receive k) (session_job lib k job rest y)"
| rq_insert: "workers y k = Some \<lparr>inbox = rest, parking = Some back\<rparr> \<Longrightarrow>
    rq_step lib y (Insert k) (finish_park lib k back rest y)"
| rq_retire: "workers y k = Some \<lparr>inbox = [], parking = None\<rparr> \<Longrightarrow> \<not> connected y k \<Longrightarrow>
    rq_step lib y (Retire k) (worker_ends lib k [] y)"
| rq_die: "workers y k = Some v \<Longrightarrow> inbox v \<noteq> [] \<or> parking v \<noteq> None \<Longrightarrow> (lib_call lib k)\<^sup>*\<^sup>* (lib_state y) w \<Longrightarrow>
    rq_step lib y (Die k) (worker_ends lib k (inbox v) (y\<lparr>lib_state := w\<rparr>))"
| rq_close: "map_of (conns y) sid = Some c \<Longrightarrow> rq_step lib y (Close sid) (conn_drop sid c y)"
| rq_tick: "rq_step lib y (Tick d) (y\<lparr>clock := clock y + d\<rparr>)"

inductive_cases rq_stepE: "rq_step lib y e z"

definition rq_init :: "rusqlite \<Rightarrow> nat \<Rightarrow> 'w \<Rightarrow> 'w rq_sys" where
  "rq_init f k w =
     \<lparr>lib_state = w, factory = f, workers = (\<lambda>k. None), next_worker = k, conns = [], clock = 0, replies = [], sent = []\<rparr>"

end
