(* ===== verification/Rusqlite_Props.thy ===== *)
theory Rusqlite_Props
  imports Rusqlite_System Free_List
begin

text \<open>
  What the rusqlite backend promises: a session owns its worker alone and finds its connection in the state of a
  fresh one, recycled or not; requests are answered once and in order; values are read back as they were bound.
\<close>

section \<open>The state of a connection\<close>

text \<open>The connection state that the probe reads, with the transaction and the last row id.\<close>

record handle_state =
  autocommit :: bool
  last_rowid :: u64
  temp_objects :: nat
  attached :: nat
  query_only :: bool
  foreign_keys :: bool
  recursive_triggers :: bool
  defer_foreign_keys :: bool
  read_uncommitted :: bool
  reverse_unordered_selects :: bool
  cell_size_check :: bool
  automatic_index :: bool
  trusted_schema :: bool

text \<open>The value of \<^verbatim>\<open>STATE_FINGERPRINT_SQL\<close> on a connection in that state.\<close>

definition fingerprint_value :: "handle_state \<Rightarrow> int" where
  "fingerprint_value s =
     1024 * (int (temp_objects s) + int (attached s))
     + 1 * of_bool (query_only s) + 2 * of_bool (foreign_keys s) + 4 * of_bool (recursive_triggers s)
     + 8 * of_bool (defer_foreign_keys s) + 16 * of_bool (read_uncommitted s) + 32 * of_bool (reverse_unordered_selects s)
     + 64 * of_bool (cell_size_check s) + 128 * of_bool (automatic_index s) + 256 * of_bool (trusted_schema s)"

definition same_flags :: "handle_state \<Rightarrow> handle_state \<Rightarrow> bool" where
  "same_flags s t \<longleftrightarrow>
     query_only s = query_only t \<and> foreign_keys s = foreign_keys t \<and> recursive_triggers s = recursive_triggers t \<and>
     defer_foreign_keys s = defer_foreign_keys t \<and> read_uncommitted s = read_uncommitted t \<and>
     reverse_unordered_selects s = reverse_unordered_selects t \<and> cell_size_check s = cell_size_check t \<and>
     automatic_index s = automatic_index t \<and> trusted_schema s = trusted_schema t"

lemma bit_digit: "of_bool p + 2 * x = of_bool q + 2 * y \<longleftrightarrow> p = q \<and> x = y" for x y :: int
  by (cases p; cases q; simp; presburger)

lemma fingerprint_digits:
  "fingerprint_value s =
     of_bool (query_only s) + 2 * (of_bool (foreign_keys s) + 2 * (of_bool (recursive_triggers s) +
     2 * (of_bool (defer_foreign_keys s) + 2 * (of_bool (read_uncommitted s) + 2 * (of_bool (reverse_unordered_selects s) +
     2 * (of_bool (cell_size_check s) + 2 * (of_bool (automatic_index s) + 2 * (of_bool (trusted_schema s) +
     2 * (2 * int (temp_objects s + attached s))))))))))"
  by (simp add: fingerprint_value_def)

text \<open>No combination of changes cancels out: two states with the same value agree in every term.\<close>

lemma fingerprint_detects:
  "fingerprint_value s = fingerprint_value t \<longleftrightarrow> same_flags s t \<and> temp_objects s + attached s = temp_objects t + attached t"
proof -
  have "2 * int m = 2 * int n \<longleftrightarrow> m = n" for m n by auto
  then show ?thesis unfolding fingerprint_digits bit_digit same_flags_def by blast
qed

section \<open>What the library promises\<close>

text \<open>
  The hypotheses on the library, with \<open>view h w\<close> the state of connection \<open>h\<close>: a fresh connection is outside a
  transaction and has no temporary object, no attached database and row id 0; configuration calls and the probe
  change nothing of it; \<^verbatim>\<open>ROLLBACK\<close> that succeeds ends the transaction; the probe yields its value; and a call on one
  connection leaves the state of the others alone.
\<close>

definition fresh_state :: "handle_state \<Rightarrow> bool" where
  "fresh_state s \<longleftrightarrow> autocommit s \<and> last_rowid s = 0 \<and> temp_objects s = 0 \<and> attached s = 0"

definition setup_laws :: "'w sqlite_lib \<Rightarrow> (nat \<Rightarrow> 'w \<Rightarrow> handle_state) \<Rightarrow> handle_state \<Rightarrow> bool" where
  "setup_laws lib view fresh \<longleftrightarrow> fresh_state fresh \<and>
     (\<forall>h path w w'. sq_open lib h path w = (Inr (), w') \<longrightarrow> view h w' = fresh) \<and>
     (\<forall>h ms w. view h (snd (sq_busy_timeout lib h ms w)) = view h w) \<and>
     (\<forall>h v w. view h (snd (sq_pragma_update lib h ''synchronous'' v w)) = view h w) \<and>
     (\<forall>h v w. view h (snd (sq_pragma_update lib h ''journal_mode'' v w)) = view h w) \<and>
     (\<forall>h n w. view h (snd (sq_create_scalar_function lib h ''regexp'' n w)) = view h w)"

definition reset_laws :: "'w sqlite_lib \<Rightarrow> (nat \<Rightarrow> 'w \<Rightarrow> handle_state) \<Rightarrow> bool" where
  "reset_laws lib view \<longleftrightarrow>
     (\<forall>h w. sq_is_autocommit lib h w = autocommit (view h w)) \<and>
     (\<forall>h w w'. sq_execute_batch lib h ''ROLLBACK'' w = (Inr (), w') \<longrightarrow> autocommit (view h w')) \<and>
     (\<forall>h i w. view h (sq_set_last_insert_rowid lib h i w) = (view h w)\<lparr>last_rowid := i\<rparr>)"

definition probe_laws :: "'w sqlite_lib \<Rightarrow> (nat \<Rightarrow> 'w \<Rightarrow> handle_state) \<Rightarrow> bool" where
  "probe_laws lib view \<longleftrightarrow>
     (\<forall>h w. view h (snd (sq_prepare_cached lib h STATE_FINGERPRINT_SQL w)) = view h w) \<and>
     (\<forall>h w. view h (snd (sq_query lib h STATE_FINGERPRINT_SQL [] w)) = view h w) \<and>
     (\<forall>h w w' row rows v. sq_query lib h STATE_FINGERPRINT_SQL [] w = (Inr (Inr row # rows), w') \<longrightarrow> row 0 = Inr (VInteger v) \<longrightarrow>
        sint v = fingerprint_value (view h w))"

definition sqlite_laws :: "'w sqlite_lib \<Rightarrow> (nat \<Rightarrow> 'w \<Rightarrow> handle_state) \<Rightarrow> handle_state \<Rightarrow> bool" where
  "sqlite_laws lib view fresh \<longleftrightarrow> setup_laws lib view fresh \<and> reset_laws lib view \<and> probe_laws lib view \<and>
     (\<forall>h h' w w'. lib_call lib h w w' \<longrightarrow> h' \<noteq> h \<longrightarrow> view h' w' = view h' w)"

lemma others_untouched:
  assumes "sqlite_laws lib view fresh" and "(lib_call lib h)\<^sup>*\<^sup>* w w'" and "h' \<noteq> h"
  shows "view h' w' = view h' w"
  using assms(2) by (induction rule: rtranclp_induct) (use assms(1,3) in \<open>auto simp: sqlite_laws_def\<close>)

section \<open>Calls of the operations\<close>

lemma one_call: "lib_call lib h w w' \<Longrightarrow> (lib_call lib h)\<^sup>*\<^sup>* w w'"
  by (rule r_into_rtranclp)

lemmas lib_calls = lib_call.intros [THEN one_call]

lemma calls_trans [trans]: "(lib_call lib h)\<^sup>*\<^sup>* w w1 \<Longrightarrow> (lib_call lib h)\<^sup>*\<^sup>* w1 w2 \<Longrightarrow> (lib_call lib h)\<^sup>*\<^sup>* w w2"
  by (rule rtranclp_trans)

lemma result_calls:
  "sq_open lib h path w = (r, w') \<Longrightarrow> (lib_call lib h)\<^sup>*\<^sup>* w w'"
  "sq_busy_timeout lib h ms w = (r, w') \<Longrightarrow> (lib_call lib h)\<^sup>*\<^sup>* w w'"
  "sq_pragma_update lib h name val w = (r, w') \<Longrightarrow> (lib_call lib h)\<^sup>*\<^sup>* w w'"
  "sq_create_scalar_function lib h name n w = (r, w') \<Longrightarrow> (lib_call lib h)\<^sup>*\<^sup>* w w'"
  "sq_execute_batch lib h sql w = (r, w') \<Longrightarrow> (lib_call lib h)\<^sup>*\<^sup>* w w'"
  "sq_prepare_cached lib h sql w = (r1, w') \<Longrightarrow> (lib_call lib h)\<^sup>*\<^sup>* w w'"
  "sq_query lib h sql ps w = (r2, w') \<Longrightarrow> (lib_call lib h)\<^sup>*\<^sup>* w w'"
  "sq_execute lib h sql ps w = (r3, w') \<Longrightarrow> (lib_call lib h)\<^sup>*\<^sup>* w w'"
  by (metis lib_calls snd_conv)+

lemma run_query_calls: "(lib_call lib h)\<^sup>*\<^sup>* w (snd (run_query lib h sql ps w))"
  by (auto simp: run_query_def split: prod.split sum.split dest!: result_calls intro: calls_trans)

lemma run_execute_calls: "(lib_call lib h)\<^sup>*\<^sup>* w (snd (run_execute lib h sql ps w))"
  by (auto simp: run_execute_def Let_def split: prod.split sum.split dest!: result_calls intro: calls_trans)

lemma run_describe_calls: "(lib_call lib h)\<^sup>*\<^sup>* w (snd (run_describe lib h sql w))"
  by (simp add: run_describe_def lib_calls)

lemma close_calls: "(lib_call lib h)\<^sup>*\<^sup>* w w1 \<Longrightarrow> (lib_call lib h)\<^sup>*\<^sup>* w (sq_close lib h w1)"
  by (blast intro: calls_trans lib_calls(2))

lemma open_session_calls: "(lib_call lib h)\<^sup>*\<^sup>* w (snd (open_session lib h path ms sync w))"
  unfolding open_session_def register_regexp_def
  by (auto split: prod.split sum.split dest!: result_calls intro!: close_calls intro: calls_trans)

lemma fingerprint_calls: "(lib_call lib h)\<^sup>*\<^sup>* w (snd (fingerprint lib h w))"
  by (auto simp: fingerprint_def split: prod.split sum.split list.split dest!: result_calls intro: calls_trans)


lemma reset_calls: "(lib_call lib h)\<^sup>*\<^sup>* w (snd (idle_reset lib p h ms w))"
proof -
  obtain r w1 where r: "(if sq_is_autocommit lib h w then (Inr (), w) else sq_execute_batch lib h ''ROLLBACK'' w) = (r, w1)" by fastforce
  then have c1: "(lib_call lib h)\<^sup>*\<^sup>* w w1" by (auto split: if_splits dest: result_calls)
  obtain fp w2 where f: "fingerprint lib h w1 = (fp, w2)" by fastforce
  have c2: "(lib_call lib h)\<^sup>*\<^sup>* w w2" using fingerprint_calls [of lib h w1] f c1 by (auto intro: calls_trans)
  have "(lib_call lib h)\<^sup>*\<^sup>* w (snd (sq_busy_timeout lib h (ucast ms) (sq_set_last_insert_rowid lib h 0 w2)))"
    by (rule calls_trans [OF calls_trans [OF c2 lib_calls(10)] lib_calls(3)])
  with r f c1 c2 show ?thesis by (auto simp: idle_reset_def split: sum.split prod.split)
qed

lemma probe_value:
  assumes "probe_laws lib view" and "fingerprint lib h w = (Some v, w')"
  shows "sint v = fingerprint_value (view h w) \<and> view h w' = view h w"
proof -
  from assms(2) obtain cs w1 row rows where q: "sq_prepare_cached lib h STATE_FINGERPRINT_SQL w = (Inr cs, w1)"
    "sq_query lib h STATE_FINGERPRINT_SQL [] w1 = (Inr (Inr row # rows), w')" "row_i64 row = Some v"
    by (auto simp: fingerprint_def split: prod.splits sum.splits list.splits)
  from q(3) have "row 0 = Inr (VInteger v)" by (auto simp: row_i64_def split: sum.splits value_ref.splits)
  with q assms(1) show ?thesis unfolding probe_laws_def by (metis snd_conv)
qed

text \<open>A handle that passes the reset is in the state of a fresh connection.\<close>

lemma reset_fresh:
  assumes laws: "sqlite_laws lib view fresh" and "sint (ip_pristine p) = fingerprint_value fresh"
    and "idle_reset lib p h ms w = (True, w')"
  shows "view h w' = fresh"
proof -
  note L = laws [unfolded sqlite_laws_def]
  from assms(3) obtain w1 w2 where
    r: "(if sq_is_autocommit lib h w then (Inr (), w) else sq_execute_batch lib h ''ROLLBACK'' w) = (Inr (), w1)"
    and f: "fingerprint lib h w1 = (Some (ip_pristine p), w2)"
    and w': "w' = snd (sq_busy_timeout lib h (ucast ms) (sq_set_last_insert_rowid lib h 0 w2))"
    by (auto simp: idle_reset_def split: sum.splits prod.splits if_splits)
  have auto: "autocommit (view h w1)" using r L by (auto simp: reset_laws_def split: if_splits)
  have "view h w' = (view h w2)\<lparr>last_rowid := 0\<rparr>" using L w' by (simp add: setup_laws_def reset_laws_def)
  moreover have "view h w2 = view h w1" and val: "fingerprint_value (view h w1) = fingerprint_value fresh"
    using probe_value [OF _ f] L assms(2) by metis+
  ultimately have v: "view h w' = (view h w1)\<lparr>last_rowid := 0\<rparr>" by simp
  have "fresh_state fresh" using L by (simp add: setup_laws_def)
  with val auto have "same_flags (view h w1) fresh" "temp_objects (view h w1) = 0" "attached (view h w1) = 0"
    unfolding fingerprint_detects by (simp_all add: fresh_state_def)
  with \<open>fresh_state fresh\<close> auto show ?thesis unfolding v
    by (intro handle_state.equality) (simp_all add: same_flags_def fresh_state_def)
qed

lemma setup_lawsD:
  assumes "sqlite_laws lib view fresh"
  shows "sq_open lib h path w = (Inr (), w') \<Longrightarrow> view h w' = fresh"
    "sq_busy_timeout lib h ms w = (r, w') \<Longrightarrow> view h w' = view h w"
    "sq_pragma_update lib h ''synchronous'' v w = (r, w') \<Longrightarrow> view h w' = view h w"
    "sq_pragma_update lib h ''journal_mode'' v w = (r, w') \<Longrightarrow> view h w' = view h w"
    "sq_create_scalar_function lib h ''regexp'' n w = (r, w') \<Longrightarrow> view h w' = view h w"
proof -
  note L = assms [unfolded sqlite_laws_def setup_laws_def]
  show "sq_open lib h path w = (Inr (), w') \<Longrightarrow> view h w' = fresh" using L by blast
  have keep: "view h (snd (sq_busy_timeout lib h ms w)) = view h w" "view h (snd (sq_pragma_update lib h ''synchronous'' v w)) = view h w"
    "view h (snd (sq_pragma_update lib h ''journal_mode'' v w)) = view h w"
    "view h (snd (sq_create_scalar_function lib h ''regexp'' n w)) = view h w"
    using L by blast+
  show "sq_busy_timeout lib h ms w = (r, w') \<Longrightarrow> view h w' = view h w"
    "sq_pragma_update lib h ''synchronous'' v w = (r, w') \<Longrightarrow> view h w' = view h w"
    "sq_pragma_update lib h ''journal_mode'' v w = (r, w') \<Longrightarrow> view h w' = view h w"
    "sq_create_scalar_function lib h ''regexp'' n w = (r, w') \<Longrightarrow> view h w' = view h w"
    using keep by simp_all
qed

lemma open_session_fresh:
  assumes laws: "sqlite_laws lib view fresh" and "open_session lib h path ms sync w = (Inr (), w')"
  shows "view h w' = fresh"
proof -
  from assms(2) obtain w1 w2 w3 where o: "sq_open lib h path w = (Inr (), w1)" "sq_busy_timeout lib h (ucast ms) w1 = (Inr (), w2)"
    "sq_pragma_update lib h ''synchronous'' (as_pragma_str sync) w2 = (Inr (), w3)"
    "sq_create_scalar_function lib h ''regexp'' 2 w3 = (Inr (), w')"
    by (auto simp: open_session_def register_regexp_def split: prod.splits sum.splits)
  from setup_lawsD(1,2,3,5) [OF laws] o show ?thesis by metis
qed

lemma build_pristine:
  assumes laws: "sqlite_laws lib view fresh" and "rusqlite_build lib h b w = (Inr f, w')" and "rq_pool f = Some p"
  shows "sint (ip_pristine p) = fingerprint_value fresh \<and> p = idle_pool_new (rb_max_idle b) (rb_max_idle_age b) (ip_pristine p)"
proof -
  from assms(2,3) obtain w1 w2 v w3 where o: "sq_open lib h (as_path (rb_target b)) w = (Inr (), w1)"
    "sq_pragma_update lib h ''journal_mode'' ''WAL'' w1 = (Inr (), w2)" "fingerprint lib h w2 = (Some v, w3)"
    and p: "p = idle_pool_new (rb_max_idle b) (rb_max_idle_age b) v"
    by (auto simp: rusqlite_build_def Let_def split: prod.splits sum.splits if_splits option.splits)
  have "view h w2 = fresh" using setup_lawsD(1,4) [OF laws] o(1,2) by metis
  moreover have "sint v = fingerprint_value (view h w2)" using probe_value [OF _ o(3)] laws by (auto simp: sqlite_laws_def)
  ultimately show ?thesis using p by (simp add: idle_pool_new_def)
qed

section \<open>The free-list\<close>

definition idle_txs :: "idle_pool \<Rightarrow> nat list" where
  "idle_txs p = map iw_tx (ip_idle p)"

lemma take_splits:
  assumes "idle_take now p = (r, p')"
  obtains gone got where "ip_idle p = gone @ ip_idle p' @ got" and "map iw_tx got = (case r of None \<Rightarrow> [] | Some k \<Rightarrow> [k])"
    and "got \<noteq> [] \<Longrightarrow> \<not> expired_at now (ip_max_idle_age p) (hd (ip_idle p' @ got))"
    and "ip_expired p' = ip_expired p + of_nat (length gone)" and "ip_hits p' = ip_hits p + of_nat (length got)"
    and "ip_returned p' = ip_returned p" and "ip_max_idle p' = ip_max_idle p" and "ip_pristine p' = ip_pristine p"
    and "ip_max_idle_age p' = ip_max_idle_age p"
proof -
  let ?old = "expired_at now (ip_max_idle_age p)"
  have split: "ip_idle p = takeWhile ?old (ip_idle p) @ dropWhile ?old (ip_idle p)" by simp
  show thesis
  proof (cases "dropWhile ?old (ip_idle p)" rule: rev_cases)
    case Nil
    with assms have "ip_idle p' = []" "r = None" "ip_expired p' = ip_expired p + of_nat (length (takeWhile ?old (ip_idle p)))"
      "ip_hits p' = ip_hits p" "ip_returned p' = ip_returned p" "ip_max_idle p' = ip_max_idle p" "ip_pristine p' = ip_pristine p"
      "ip_max_idle_age p' = ip_max_idle_age p"
      unfolding idle_take_def Let_def Nil by auto
    with split Nil that [of "takeWhile ?old (ip_idle p)" "[]"] show ?thesis by simp
  next
    case (snoc rest v)
    with assms have "ip_idle p' = rest" "r = Some (iw_tx v)" "ip_expired p' = ip_expired p + of_nat (length (takeWhile ?old (ip_idle p)))"
      "ip_hits p' = ip_hits p + 1" "ip_returned p' = ip_returned p" "ip_max_idle p' = ip_max_idle p" "ip_pristine p' = ip_pristine p"
      "ip_max_idle_age p' = ip_max_idle_age p"
      unfolding idle_take_def Let_def snoc by auto
    moreover have "\<not> ?old (hd (rest @ [v]))" using hd_dropWhile [of ?old "ip_idle p"] snoc by auto
    ultimately show ?thesis using split [unfolded snoc] that [of "takeWhile ?old (ip_idle p)" "[v]"] by simp
  qed
qed

lemma insert_cases:
  "park_insert now k p = (b, p') \<Longrightarrow>
   (b \<and> ip_idle p' = ip_idle p @ [\<lparr>iw_tx = k, iw_since = now\<rparr>] \<and> length (ip_idle p) < ip_max_idle p \<and> ip_returned p' = ip_returned p + 1
    \<or> \<not> b \<and> ip_idle p' = ip_idle p \<and> ip_returned p' = ip_returned p) \<and>
   ip_max_idle p' = ip_max_idle p \<and> ip_pristine p' = ip_pristine p \<and> ip_hits p' = ip_hits p \<and> ip_expired p' = ip_expired p \<and>
   ip_max_idle_age p' = ip_max_idle_age p"
  by (auto simp: park_insert_def count_discarded_def split: if_splits)

interpretation rq_list: free_list idle_txs ip_max_idle "\<lambda>p r p'. \<exists>now. idle_take now p = (r, p')"
  "\<lambda>k p p'. \<exists>now b. park_insert now k p = (b, p')"
proof unfold_locales
  fix p p' :: idle_pool and r
  assume "\<exists>now. idle_take now p = (r, p')"
  then obtain now where t: "idle_take now p = (r, p')" by blast
  from t show "mset (idle_txs p') + mset (case r of None \<Rightarrow> [] | Some c \<Rightarrow> [c]) \<subseteq># mset (idle_txs p)"
  proof (rule take_splits)
    fix gone got
    assume "ip_idle p = gone @ ip_idle p' @ got" "map iw_tx got = (case r of None \<Rightarrow> [] | Some k \<Rightarrow> [k])"
    then have "idle_txs p = map iw_tx gone @ idle_txs p' @ (case r of None \<Rightarrow> [] | Some k \<Rightarrow> [k])"
      by (simp add: idle_txs_def)
    then show ?thesis by simp
  qed
  from t show "ip_max_idle p' = ip_max_idle p" by (rule take_splits)
qed (auto simp: idle_txs_def dest: insert_cases)

lemma take_not_expired:
  assumes "idle_take now p = (Some k, p')" and "sorted (map iw_since (ip_idle p))"
  obtains v where "v \<in> set (ip_idle p)" and "iw_tx v = k" and "now - iw_since v < ip_max_idle_age p"
  using assms(1)
proof (rule take_splits)
  fix gone got
  assume l: "ip_idle p = gone @ ip_idle p' @ got" "map iw_tx got = (case Some k of None \<Rightarrow> [] | Some k \<Rightarrow> [k])"
    "got \<noteq> [] \<Longrightarrow> \<not> expired_at now (ip_max_idle_age p) (hd (ip_idle p' @ got))"
  then obtain v where v: "got = [v]" "iw_tx v = k" by auto
  have "iw_since (hd (ip_idle p' @ [v])) \<le> iw_since v"
    using assms(2) l(1) v by (cases "ip_idle p'") (auto simp: sorted_append)
  moreover have "now - iw_since (hd (ip_idle p' @ [v])) < ip_max_idle_age p" using l(3) v by (simp add: expired_at_def)
  ultimately have "now - iw_since v < ip_max_idle_age p" by linarith
  with l(1) v show thesis by (intro that [of v]) simp_all
qed


section \<open>The invariant\<close>

text \<open>A worker in service has only statements in its inbox; a closing one has its own end-of-session message last.\<close>

fun statement_job :: "job \<Rightarrow> bool" where
  "statement_job (EndSession k) = False"
| "statement_job j = True"

definition serving :: "worker \<Rightarrow> bool" where
  "serving v \<longleftrightarrow> list_all statement_job (inbox v) \<and> parking v = None"

definition closing :: "nat \<Rightarrow> worker \<Rightarrow> bool" where
  "closing k v \<longleftrightarrow>
     (\<exists>js. inbox v = js @ [EndSession k] \<and> list_all statement_job js \<and> parking v = None) \<or> inbox v = [] \<and> parking v = Some k"

definition listening :: worker where
  "listening = \<lparr>inbox = [], parking = None\<rparr>"

definition owners_ok :: "(nat \<Rightarrow> worker option) \<Rightarrow> nat \<Rightarrow> nat list \<Rightarrow> nat list \<Rightarrow> bool" where
  "owners_ok ws n idles owned \<longleftrightarrow> distinct (idles @ owned) \<and> (\<forall>k\<in>set owned. k < n) \<and>
     (\<forall>k v. ws k = Some v \<longrightarrow> k < n \<and> (serving v \<or> closing k v \<and> k \<notin> set (idles @ owned)))"

definition handles_ok :: "(nat \<Rightarrow> handle_state) \<Rightarrow> handle_state \<Rightarrow> (nat \<Rightarrow> worker option) \<Rightarrow> nat list \<Rightarrow> bool" where
  "handles_ok view fresh ws idles \<longleftrightarrow> (\<forall>k\<in>set idles. ws k = Some listening \<and> view k = fresh) \<and>
     (\<forall>k v. ws k = Some v \<longrightarrow> parking v \<noteq> None \<longrightarrow> view k = fresh)"

definition list_ok :: "handle_state \<Rightarrow> nat \<Rightarrow> idle_pool \<Rightarrow> bool" where
  "list_ok fresh now p \<longleftrightarrow> length (ip_idle p) \<le> ip_max_idle p \<and> sorted (map iw_since (ip_idle p)) \<and>
     (\<forall>v\<in>set (ip_idle p). iw_since v \<le> now) \<and> sint (ip_pristine p) = fingerprint_value fresh \<and>
     ip_returned p = ip_hits p + ip_expired p + of_nat (length (ip_idle p))"

definition pool_ok :: "handle_state \<Rightarrow> nat \<Rightarrow> rusqlite \<Rightarrow> bool" where
  "pool_ok fresh now f \<longleftrightarrow> (case rq_pool f of None \<Rightarrow> True | Some p \<Rightarrow> list_ok fresh now p)"

definition rq_inv :: "(nat \<Rightarrow> 'w \<Rightarrow> handle_state) \<Rightarrow> handle_state \<Rightarrow> 'w rq_sys \<Rightarrow> bool" where
  "rq_inv view fresh y \<longleftrightarrow>
     owners_ok (workers y) (next_worker y) (idle_senders (factory y)) (conn_senders y) \<and> distinct (map fst (conns y)) \<and>
     handles_ok (\<lambda>k. view k (lib_state y)) fresh (workers y) (idle_senders (factory y)) \<and>
     pool_ok fresh (clock y) (factory y)"

lemma pool_ok_Some: "rq_pool f = Some p \<Longrightarrow> pool_ok fresh now f \<longleftrightarrow> list_ok fresh now p"
  by (simp add: pool_ok_def)

text \<open>A step of worker \<open>k\<close> that touches its own connection only.\<close>

lemma inv_local:
  assumes laws: "sqlite_laws lib view fresh" and inv: "rq_inv view fresh y" and "workers y k = Some v"
    and idle: "k \<notin> set (idle_senders (factory y))" and calls: "(lib_call lib k)\<^sup>*\<^sup>* (lib_state y) (lib_state z)"
    and z: "workers z = (workers y)(k := v')" "next_worker z = next_worker y" "conns z = conns y" "clock z = clock y"
    and f: "idle_senders (factory z) = idle_senders (factory y)" "pool_ok fresh (clock y) (factory z)"
    and v': "\<And>u. v' = Some u \<Longrightarrow> serving u \<or> closing k u \<and> k \<notin> set (conn_senders y)"
      "\<And>u. v' = Some u \<Longrightarrow> parking u \<noteq> None \<Longrightarrow> view k (lib_state z) = fresh"
  shows "rq_inv view fresh z"
proof -
  have same: "view j (lib_state z) = view j (lib_state y)" if "j \<noteq> k" for j by (rule others_untouched [OF laws calls that])
  have conn: "conn_senders z = conn_senders y" using z(3) by (simp add: conn_senders_def)
  from inv have o: "owners_ok (workers y) (next_worker y) (idle_senders (factory y)) (conn_senders y)"
    and h: "handles_ok (\<lambda>k. view k (lib_state y)) fresh (workers y) (idle_senders (factory y))"
    and d: "distinct (map fst (conns y))" by (simp_all add: rq_inv_def)
  have "owners_ok (workers z) (next_worker z) (idle_senders (factory z)) (conn_senders z)"
    using o v'(1) idle assms(3) unfolding owners_ok_def z f conn by auto
  moreover have "handles_ok (\<lambda>k. view k (lib_state z)) fresh (workers z) (idle_senders (factory z))"
    using h v'(2) idle same unfolding handles_ok_def z f by (auto split: if_splits)
  ultimately show ?thesis using d f(2) z(3,4) by (simp add: rq_inv_def)
qed

lemma inv_ends:
  assumes "sqlite_laws lib view fresh" and "rq_inv view fresh y" and "workers y k = Some v"
    and "k \<notin> set (idle_senders (factory y))" and "(lib_call lib k)\<^sup>*\<^sup>* (lib_state y) w"
    and "idle_senders f = idle_senders (factory y)" and "pool_ok fresh (clock y) f"
  shows "rq_inv view fresh (worker_ends lib k jobs (y\<lparr>lib_state := w, factory := f\<rparr>))"
  by (rule inv_local [OF assms(1-4), where v' = None]) (use assms(5-7) in \<open>auto simp: worker_ends_def intro: close_calls\<close>)

lemma inv_ends_plain:
  assumes "sqlite_laws lib view fresh" and "rq_inv view fresh y" and "workers y k = Some v"
    and "k \<notin> set (idle_senders (factory y))" and "(lib_call lib k)\<^sup>*\<^sup>* (lib_state y) w"
  shows "rq_inv view fresh (worker_ends lib k jobs (y\<lparr>lib_state := w\<rparr>))"
  by (rule inv_local [OF assms(1-4), where v' = None])
    (use assms(5) assms(2) [unfolded rq_inv_def] in \<open>auto simp: worker_ends_def intro: close_calls\<close>)

lemma busy_not_idle:
  assumes "rq_inv view fresh y" and "workers y k = Some v" and "inbox v \<noteq> [] \<or> parking v \<noteq> None"
  shows "k \<notin> set (idle_senders (factory y))"
proof
  assume "k \<in> set (idle_senders (factory y))"
  then have "workers y k = Some listening" using assms(1) unfolding rq_inv_def handles_ok_def by blast
  with assms(2,3) show False by (auto simp: listening_def)
qed

lemma worker_state:
  assumes "rq_inv view fresh y" and "workers y k = Some v"
  shows "k < next_worker y \<and> (serving v \<or> closing k v \<and> k \<notin> set (idle_senders (factory y)) \<and> k \<notin> set (conn_senders y))"
proof -
  have "k < next_worker y \<and> (serving v \<or> closing k v \<and> k \<notin> set (idle_senders (factory y) @ conn_senders y))"
    using assms unfolding rq_inv_def owners_ok_def by blast
  then show ?thesis by auto
qed

lemma closing_tail: "closing k \<lparr>inbox = j # rest, parking = None\<rparr> \<Longrightarrow> statement_job j \<Longrightarrow> closing k \<lparr>inbox = rest, parking = None\<rparr>"
  by (cases rest rule: rev_cases) (auto simp: closing_def)

lemma closing_end: "closing k \<lparr>inbox = EndSession b # rest, parking = None\<rparr> \<Longrightarrow> b = k \<and> rest = []"
  by (auto simp: closing_def Cons_eq_append_conv)

lemma inv_statement:
  assumes laws: "sqlite_laws lib view fresh" and inv: "rq_inv view fresh y"
    and w: "workers y k = Some \<lparr>inbox = job # rest, parking = None\<rparr>" and "statement_job job"
  shows "rq_inv view fresh (session_job lib k job rest y)"
proof (rule inv_local [OF laws inv w, where v' = "Some \<lparr>inbox = rest, parking = None\<rparr>"])
  show "k \<notin> set (idle_senders (factory y))" using busy_not_idle [OF inv w] by simp
  show "(lib_call lib k)\<^sup>*\<^sup>* (lib_state y) (lib_state (session_job lib k job rest y))"
    using assms(4) run_query_calls run_execute_calls run_describe_calls
    by (cases job) (auto simp: session_job_def Let_def split_beta)
  show "workers (session_job lib k job rest y) = (workers y)(k \<mapsto> \<lparr>inbox = rest, parking = None\<rparr>)"
    "next_worker (session_job lib k job rest y) = next_worker y" "conns (session_job lib k job rest y) = conns y"
    "clock (session_job lib k job rest y) = clock y"
    "idle_senders (factory (session_job lib k job rest y)) = idle_senders (factory y)"
    "pool_ok fresh (clock y) (factory (session_job lib k job rest y))"
    using assms(4) inv by (cases job; simp add: session_job_def Let_def split_beta rq_inv_def)+
next
  fix u
  assume "Some \<lparr>inbox = rest, parking = None\<rparr> = Some u"
  moreover have "serving \<lparr>inbox = job # rest, parking = None\<rparr> \<or>
      closing k \<lparr>inbox = job # rest, parking = None\<rparr> \<and> k \<notin> set (conn_senders y)"
    using worker_state [OF inv w] by blast
  ultimately show "serving u \<or> closing k u \<and> k \<notin> set (conn_senders y)"
    using closing_tail [OF _ assms(4)] by (auto simp: serving_def)
qed simp

lemma park_first_pool:
  assumes "park_first lib p k ms w = (b, p', w')"
  shows "ip_idle p' = ip_idle p \<and> (list_ok fresh now p \<longrightarrow> list_ok fresh now p') \<and> (lib_call lib k)\<^sup>*\<^sup>* w w' \<and>
    (b \<longrightarrow> p' = p \<and> idle_reset lib p k ms w = (True, w'))"
  using assms reset_calls [of lib k w p ms]
  by (auto simp: park_first_def count_discarded_def list_ok_def split: if_splits prod.splits bool.splits)

lemma inv_end_session:
  assumes laws: "sqlite_laws lib view fresh" and inv: "rq_inv view fresh y"
    and w: "workers y k = Some \<lparr>inbox = EndSession b # rest, parking = None\<rparr>"
  shows "rq_inv view fresh (session_job lib k (EndSession b) rest y)"
proof -
  have idle: "k \<notin> set (idle_senders (factory y))" using busy_not_idle [OF inv w] by simp
  have "closing k \<lparr>inbox = EndSession b # rest, parking = None\<rparr> \<and> k \<notin> set (conn_senders y)"
    using worker_state [OF inv w] by (auto simp: serving_def)
  then have b: "b = k" "rest = []" and conn: "k \<notin> set (conn_senders y)" using closing_end by blast+
  show ?thesis
  proof (cases "rq_pool (factory y)")
    case None
    then have "session_job lib k (EndSession b) rest y = worker_ends lib k rest y" by (simp add: session_job_def)
    with inv_ends_plain [OF laws inv w idle rtranclp.rtrancl_refl, of rest] show ?thesis by simp
  next
    case (Some p)
    obtain ok p' w' where park: "park_first lib p k (rq_busy_timeout_ms (factory y)) (lib_state y) = (ok, p', w')"
      by (metis prod_cases3)
    note P = park_first_pool [OF park]
    have lp: "list_ok fresh (clock y) p" using inv Some by (simp add: rq_inv_def pool_ok_def)
    let ?f = "(factory y)\<lparr>rq_pool := Some p'\<rparr>"
    have f: "idle_senders ?f = idle_senders (factory y)" "pool_ok fresh (clock y) ?f"
      using P lp Some by (auto simp: idle_senders_def pool_ok_def)
    show ?thesis
    proof (cases ok)
      case False
      with Some park have "session_job lib k (EndSession b) rest y = worker_ends lib k rest (y\<lparr>lib_state := w', factory := ?f\<rparr>)"
        by (simp add: session_job_def)
      with inv_ends [OF laws inv w idle _ f, of w' rest] P show ?thesis by simp
    next
      case True
      let ?u = "\<lparr>inbox = rest, parking = Some b\<rparr>"
      from True Some park have j: "session_job lib k (EndSession b) rest y =
          y\<lparr>workers := (workers y)(k \<mapsto> ?u), lib_state := w', factory := ?f\<rparr>"
        by (simp add: session_job_def Let_def)
      have "idle_reset lib p k (rq_busy_timeout_ms (factory y)) (lib_state y) = (True, w')" using P True by blast
      from reset_fresh [OF laws _ this] lp have "view k w' = fresh" by (simp add: list_ok_def)
      moreover have "(lib_call lib k)\<^sup>*\<^sup>* (lib_state y) w'" using P by blast
      ultimately show ?thesis unfolding j
        by (intro inv_local [OF laws inv w idle, where v' = "Some ?u"]) (auto simp: closing_def conn b f)
    qed
  qed
qed

text \<open>The invariant when the free-list changes: its new entries must be idle and clean workers nobody owns.\<close>

lemma inv_insert:
  assumes laws: "sqlite_laws lib view fresh" and inv: "rq_inv view fresh y" and w: "workers y k = Some \<lparr>inbox = rest, parking = Some b\<rparr>"
  shows "rq_inv view fresh (finish_park lib k b rest y)"
proof (cases "rq_pool (factory y)")
  case None
  with inv show ?thesis by (simp add: finish_park_def)
next
  case (Some p)
  have b: "b = k" "rest = []" and out: "k \<notin> set (idle_senders (factory y))" "k \<notin> set (conn_senders y)" "k < next_worker y"
    using worker_state [OF inv w] by (auto simp: serving_def closing_def)
  obtain ok p' where ins: "park_insert (clock y) b p = (ok, p')" by fastforce
  note I = insert_cases [OF ins]
  have lp: "list_ok fresh (clock y) p" using inv Some by (simp add: rq_inv_def pool_ok_def)
  let ?f = "(factory y)\<lparr>rq_pool := Some p'\<rparr>"
  have lp': "pool_ok fresh (clock y) ?f" using I lp by (auto simp: pool_ok_def list_ok_def sorted_append)
  show ?thesis
  proof (cases ok)
    case False
    with I Some have "idle_senders ?f = idle_senders (factory y)" by (simp add: idle_senders_def)
    from inv_ends [OF laws inv w out(1) _ this lp', of "lib_state y" rest] False Some ins show ?thesis
      by (simp add: finish_park_def)
  next
    case True
    with I Some b have ids: "idle_senders ?f = idle_senders (factory y) @ [k]" by (simp add: idle_senders_def)
    from True Some ins have z: "finish_park lib k b rest y = y\<lparr>factory := ?f, workers := (workers y)(k \<mapsto> listening)\<rparr>"
      using b by (simp add: finish_park_def listening_def)
    from inv have o: "owners_ok (workers y) (next_worker y) (idle_senders (factory y)) (conn_senders y)"
      and h: "handles_ok (\<lambda>k. view k (lib_state y)) fresh (workers y) (idle_senders (factory y))"
      and d: "distinct (map fst (conns y))" by (simp_all add: rq_inv_def)
    have "view k (lib_state y) = fresh" using h w unfolding handles_ok_def by fastforce
    with h have h': "handles_ok (\<lambda>k. view k (lib_state y)) fresh ((workers y)(k \<mapsto> listening)) (idle_senders (factory y) @ [k])"
      by (auto simp: handles_ok_def listening_def)
    have "serving listening" by (simp add: serving_def listening_def)
    with o out have "owners_ok ((workers y)(k \<mapsto> listening)) (next_worker y) (idle_senders (factory y) @ [k]) (conn_senders y)"
      unfolding owners_ok_def by (auto simp: listening_def closing_def)
    with h' d lp' ids show ?thesis unfolding z by (simp add: rq_inv_def conn_senders_def)
  qed
qed


section \<open>Sessions come and go\<close>

lemma idle_stateD:
  assumes "rq_inv view fresh y" and "k \<in> set (idle_senders (factory y))"
  shows "workers y k = Some listening" and "view k (lib_state y) = fresh" and "k < next_worker y" and "k \<notin> set (conn_senders y)"
proof -
  show w: "workers y k = Some listening" and "view k (lib_state y) = fresh"
    using assms unfolding rq_inv_def handles_ok_def by blast+
  from worker_state [OF assms(1) w] show "k < next_worker y" by blast
  have "distinct (idle_senders (factory y) @ conn_senders y)" using assms(1) by (simp add: rq_inv_def owners_ok_def)
  with assms(2) show "k \<notin> set (conn_senders y)" by auto
qed

lemma owners_change:
  assumes "owners_ok ws n idles owned" and "distinct (idles' @ owned')" and "\<forall>k\<in>set owned'. k < n"
    and "\<And>k v. ws k = Some v \<Longrightarrow> \<not> serving v \<Longrightarrow> k \<in> set (idles' @ owned') \<Longrightarrow> k \<in> set (idles @ owned)"
  shows "owners_ok ws n idles' owned'"
  using assms unfolding owners_ok_def by blast

lemma inv_sweep:
  assumes inv: "rq_inv view fresh y" and pool: "rq_pool (factory y) = Some p" and take: "idle_take (clock y) p = (r, p')"
  defines "z \<equiv> y\<lparr>factory := (factory y)\<lparr>rq_pool := Some p'\<rparr>\<rparr>"
  shows "rq_inv view fresh z \<and>
    (case r of None \<Rightarrow> True | Some k \<Rightarrow> k \<in> set (idle_senders (factory y)) \<and> k \<notin> set (idle_senders (factory z)))"
proof -
  have ids: "idle_senders (factory y) = idle_txs p" "idle_senders (factory z) = idle_txs p'"
    by (simp_all add: idle_senders_def pool z_def idle_txs_def)
  have lp: "list_ok fresh (clock y) p" using inv pool by (simp add: rq_inv_def pool_ok_def)
  have "list_ok fresh (clock y) p'" using take
  proof (rule take_splits)
    fix gone got
    assume "ip_idle p = gone @ ip_idle p' @ got" "ip_expired p' = ip_expired p + of_nat (length gone)"
      "ip_hits p' = ip_hits p + of_nat (length got)" "ip_returned p' = ip_returned p" "ip_max_idle p' = ip_max_idle p"
      "ip_pristine p' = ip_pristine p"
    with lp show ?thesis by (auto simp: list_ok_def sorted_append)
  qed
  then have lp': "pool_ok fresh (clock z) (factory z)" by (simp add: pool_ok_def z_def)
  have t: "\<exists>now. idle_take now p = (r, p')" using take by blast
  from inv have o: "owners_ok (workers y) (next_worker y) (idle_txs p) (conn_senders y)"
    and h: "handles_ok (\<lambda>k. view k (lib_state y)) fresh (workers y) (idle_txs p)" by (simp_all add: rq_inv_def ids)
  have dist: "distinct (idle_txs p' @ (case r of None \<Rightarrow> [] | Some c \<Rightarrow> [c]) @ conn_senders y)"
    using o by (intro rq_list.takes_exclusive [OF t]) (simp add: owners_ok_def)
  have sub: "set (idle_txs p') \<subseteq> set (idle_txs p)" by (rule rq_list.takes_subset [OF t])
  have "owners_ok (workers y) (next_worker y) (idle_txs p') (conn_senders y)"
    using o dist sub by (intro owners_change [OF o]) (auto simp: owners_ok_def)
  then have "owners_ok (workers z) (next_worker z) (idle_txs p') (conn_senders z)" by (simp add: z_def conn_senders_def)
  moreover have "handles_ok (\<lambda>k. view k (lib_state z)) fresh (workers z) (idle_txs p')"
    using h sub unfolding handles_ok_def by (auto simp: z_def)
  ultimately have "rq_inv view fresh z" using inv lp' ids by (simp add: rq_inv_def z_def)
  moreover have "case r of None \<Rightarrow> True | Some k \<Rightarrow> k \<in> set (idle_txs p) \<and> k \<notin> set (idle_txs p')"
    using dist rq_list.takes_member t by (cases r) auto
  ultimately show ?thesis unfolding ids by blast
qed

text \<open>What a session finds when it is connected: a worker of its own, waiting, with a connection like a fresh one.\<close>

definition own_worker :: "(nat \<Rightarrow> 'w \<Rightarrow> handle_state) \<Rightarrow> handle_state \<Rightarrow> nat \<Rightarrow> 'w rq_sys \<Rightarrow> bool" where
  "own_worker view fresh k y \<longleftrightarrow> workers y k = Some listening \<and> view k (lib_state y) = fresh \<and>
     k \<notin> set (idle_senders (factory y)) \<and> k \<notin> set (conn_senders y)"

lemma inv_spawn:
  assumes laws: "sqlite_laws lib view fresh" and inv: "rq_inv view fresh y" and sp: "spawn_session lib sp y = (r, z)"
  shows "rq_inv view fresh z \<and> conns z = conns y \<and> (case r of Inl e \<Rightarrow> True | Inr k \<Rightarrow> own_worker view fresh k z)"
proof (cases "\<exists>e. sp = NoThread e")
  case True
  with sp inv show ?thesis by (auto simp: spawn_session_def)
next
  case False
  let ?k = "next_worker y" and ?f = "factory y"
  obtain q w where op: "open_session lib ?k (as_path (rq_target ?f)) (rq_busy_timeout_ms ?f) (rq_synchronous ?f) (lib_state y) = (q, w)"
    by fastforce
  from open_session_calls have calls: "(lib_call lib ?k)\<^sup>*\<^sup>* (lib_state y) w" by (metis op snd_conv)
  have idle: "?k \<notin> set (idle_senders ?f)" using idle_stateD(3) [OF inv] by blast
  have none: "workers y ?k = None" using worker_state [OF inv] by (cases "workers y ?k") auto
  have conn: "?k \<notin> set (conn_senders y)" using inv unfolding rq_inv_def owners_ok_def by blast
  have upd: "rq_inv view fresh (y\<lparr>lib_state := w', next_worker := ?k + 1, workers := (workers y)(?k := v)\<rparr>)"
    if "(lib_call lib ?k)\<^sup>*\<^sup>* (lib_state y) w'" "v = None \<or> v = Some listening" for w' v
  proof -
    have same: "view j w' = view j (lib_state y)" if "j \<noteq> ?k" for j
      by (rule others_untouched [OF laws \<open>(lib_call lib ?k)\<^sup>*\<^sup>* (lib_state y) w'\<close> that])
    from inv have o: "owners_ok (workers y) ?k (idle_senders ?f) (conn_senders y)"
      and h: "handles_ok (\<lambda>k. view k (lib_state y)) fresh (workers y) (idle_senders ?f)" by (simp_all add: rq_inv_def)
    have "serving listening" by (simp add: serving_def listening_def)
    with o that(2) have "owners_ok ((workers y)(?k := v)) (?k + 1) (idle_senders ?f) (conn_senders y)"
      unfolding owners_ok_def by (auto simp: less_SucI)
    moreover have "handles_ok (\<lambda>k. view k w') fresh ((workers y)(?k := v)) (idle_senders ?f)"
      using h that(2) idle same unfolding handles_ok_def by (auto simp: listening_def split: if_splits)
    ultimately show ?thesis using inv by (simp add: rq_inv_def conn_senders_def)
  qed
  have nochange: "y\<lparr>lib_state := w', next_worker := ?k + 1, workers := (workers y)(?k := None)\<rparr> = y\<lparr>lib_state := w', next_worker := ?k + 1\<rparr>" for w'
    using none by (simp add: fun_upd_idem)
  show ?thesis
  proof (cases q)
    case (Inl e)
    with sp op False have "r = Inl e" "z = y\<lparr>lib_state := w, next_worker := ?k + 1\<rparr>"
      by (auto simp: spawn_session_def Let_def split: spawn.splits)
    with upd [OF calls, of None] nochange show ?thesis by simp
  next
    case (Inr u)
    show ?thesis
    proof (cases "sp = Started")
      case True
      with sp op Inr have rz: "r = Inr ?k" "z = y\<lparr>lib_state := w, next_worker := ?k + 1, workers := (workers y)(?k \<mapsto> listening)\<rparr>"
        by (auto simp: spawn_session_def Let_def listening_def)
      have "view ?k w = fresh" using open_session_fresh [OF laws] op Inr by simp
      with upd [OF calls, of "Some listening"] rz idle conn show ?thesis
        by (simp add: own_worker_def conn_senders_def)
    next
      case gone: False
      with sp op Inr False obtain e where "r = Inl e" "z = y\<lparr>lib_state := sq_close lib ?k w, next_worker := ?k + 1\<rparr>"
        by (auto simp: spawn_session_def Let_def split: spawn.splits)
      with upd [OF close_calls [OF calls], of None] nochange show ?thesis by simp
    qed
  qed
qed

lemma inv_connect:
  assumes laws: "sqlite_laws lib view fresh" and inv: "rq_inv view fresh y" and con: "rusqlite_connect lib sp y = (r, z)"
  shows "rq_inv view fresh z \<and> conns z = conns y \<and> (case r of Inl e \<Rightarrow> True | Inr c \<Rightarrow> own_worker view fresh (tx c) z)"
proof (cases "rq_pool (factory y)")
  case None
  obtain q z' where q: "spawn_session lib sp y = (q, z')" by fastforce
  with None inv_spawn [OF laws inv q] con show ?thesis by (cases q) (auto simp: rusqlite_connect_def)
next
  case (Some p)
  obtain t p' where t: "idle_take (clock y) p = (t, p')" by fastforce
  let ?y = "y\<lparr>factory := (factory y)\<lparr>rq_pool := Some p'\<rparr>\<rparr>"
  note S = inv_sweep [OF inv Some t]
  show ?thesis
  proof (cases t)
    case None
    obtain q z' where q: "spawn_session lib sp ?y = (q, z')" by fastforce
    with None S inv_spawn [OF laws, of ?y sp q z'] con Some t show ?thesis by (cases q) (auto simp: rusqlite_connect_def)
  next
    case taken: (Some k)
    with con Some t have "r = Inr \<lparr>tx = k, pooled = True\<rparr>" "z = ?y" by (auto simp: rusqlite_connect_def)
    with S taken idle_stateD [OF inv, of k] show ?thesis by (simp add: own_worker_def conn_senders_def)
  qed
qed

lemma inv_owns:
  assumes inv: "rq_inv view fresh y" and "map_of (conns y) sid = None" and own: "own_worker view fresh (tx c) y"
  shows "rq_inv view fresh (y\<lparr>conns := (sid, c) # conns y\<rparr>)"
proof -
  have "tx c < next_worker y" using worker_state [OF inv] own by (auto simp: own_worker_def)
  moreover have "sid \<notin> fst ` set (conns y)" using assms(2) by (simp add: map_of_eq_None_iff)
  moreover have "owners_ok (workers y) (next_worker y) (idle_senders (factory y)) (tx c # conn_senders y)"
  proof (rule owners_change)
    show o: "owners_ok (workers y) (next_worker y) (idle_senders (factory y)) (conn_senders y)" using inv by (simp add: rq_inv_def)
    show "distinct (idle_senders (factory y) @ tx c # conn_senders y)" "\<forall>k\<in>set (tx c # conn_senders y). k < next_worker y"
      using own o \<open>tx c < next_worker y\<close> by (auto simp: owners_ok_def own_worker_def)
    fix k v
    assume "workers y k = Some v" "\<not> serving v" "k \<in> set (idle_senders (factory y) @ tx c # conn_senders y)"
    moreover have "serving listening" by (simp add: serving_def listening_def)
    ultimately show "k \<in> set (idle_senders (factory y) @ conn_senders y)" using own by (auto simp: own_worker_def)
  qed
  ultimately show ?thesis using inv by (simp add: rq_inv_def conn_senders_def)
qed


lemma conn_ownsD:
  assumes inv: "rq_inv view fresh y" and c: "map_of (conns y) sid = Some c"
  shows "tx c \<in> set (conn_senders y)" and "tx c \<notin> set (idle_senders (factory y))" and "workers y (tx c) = Some v \<Longrightarrow> serving v"
proof -
  show m: "tx c \<in> set (conn_senders y)" using map_of_SomeD [OF c] by (force simp: conn_senders_def)
  have "distinct (idle_senders (factory y) @ conn_senders y)" using inv by (simp add: rq_inv_def owners_ok_def)
  with m show "tx c \<notin> set (idle_senders (factory y))" by auto
  show "serving v" if "workers y (tx c) = Some v" using worker_state [OF inv that] m by blast
qed

lemma inv_send:
  assumes laws: "sqlite_laws lib view fresh" and inv: "rq_inv view fresh y" and c: "map_of (conns y) sid = Some c"
  shows "rq_inv view fresh (send_request c r n y)"
proof (cases "workers y (tx c)")
  case None
  with inv show ?thesis by (simp add: send_request_def rq_inv_def conn_senders_def)
next
  case (Some v)
  note D = conn_ownsD [OF inv c]
  have "serving (v\<lparr>inbox := inbox v @ [job_of r n]\<rparr>)" using D(3) [OF Some] by (cases r) (simp_all add: serving_def)
  with Some D(2) inv show ?thesis
    by (intro inv_local [OF laws inv Some D(2), where v' = "Some (v\<lparr>inbox := inbox v @ [job_of r n]\<rparr>)"])
      (auto simp: send_request_def rq_inv_def serving_def)
qed

lemma inv_drop:
  assumes inv: "rq_inv view fresh y" and c: "map_of (conns y) sid = Some c"
  shows "rq_inv view fresh (conn_drop sid c y)"
proof -
  note D = conn_ownsD [OF inv c]
  let ?cs = "filter (\<lambda>sc. fst sc \<noteq> sid) (conns y)" and ?own = "map (tx \<circ> snd) (filter (\<lambda>sc. fst sc \<noteq> sid) (conns y))"
  have own: "conn_senders y = map (tx \<circ> snd) (conns y)" by (simp add: conn_senders_def)
  from inv have o: "owners_ok (workers y) (next_worker y) (idle_senders (factory y)) (conn_senders y)"
    and h: "handles_ok (\<lambda>k. view k (lib_state y)) fresh (workers y) (idle_senders (factory y))"
    and d: "distinct (map fst (conns y))" by (simp_all add: rq_inv_def)
  have "distinct (map (tx \<circ> snd) (conns y))" using o own by (simp add: owners_ok_def)
  then have "distinct ?own" and out: "tx c \<notin> set ?own"
    using map_of_SomeD [OF c] by (fastforce simp: distinct_map inj_on_def)+
  then have o1: "owners_ok (workers y) (next_worker y) (idle_senders (factory y)) ?own"
    by (intro owners_change [OF o]) (use o in \<open>auto simp: owners_ok_def own\<close>)
  have d1: "distinct (map fst ?cs)" using d by (rule distinct_map_filter)
  show ?thesis
  proof (cases "\<exists>v. pooled c \<and> workers y (tx c) = Some v")
    case False
    then have "conn_drop sid c y = y\<lparr>conns := ?cs\<rparr>" by (auto simp: conn_drop_def Let_def split: option.split)
    with o1 h d1 inv show ?thesis by (simp add: rq_inv_def conn_senders_def)
  next
    case True
    then obtain v where v: "workers y (tx c) = Some v" "pooled c" by blast
    let ?v = "v\<lparr>inbox := inbox v @ [EndSession (tx c)]\<rparr>" and ?k = "tx c"
    have cl: "closing ?k ?v" "parking ?v = None" using D(3) [OF v(1)] by (simp_all add: serving_def closing_def)
    have "owners_ok ((workers y)(?k \<mapsto> ?v)) (next_worker y) (idle_senders (factory y)) ?own"
      using o1 cl(1) v(1) out D(2) unfolding owners_ok_def by (auto simp del: set_map)
    moreover have "handles_ok (\<lambda>k. view k (lib_state y)) fresh ((workers y)(?k \<mapsto> ?v)) (idle_senders (factory y))"
      using h D(2) cl(2) unfolding handles_ok_def by (auto split: if_splits)
    ultimately show ?thesis using v d1 inv by (simp add: conn_drop_def Let_def rq_inv_def conn_senders_def)
  qed
qed

lemma rq_inv_step:
  assumes laws: "sqlite_laws lib view fresh" and inv: "rq_inv view fresh y" and step: "rq_step lib y e z"
  shows "rq_inv view fresh z"
  using step
proof (cases rule: rq_step.cases)
  case (rq_connect sid sp c z')
  with inv_connect [OF laws inv, of sp "Inr c" z'] inv_owns show ?thesis by fastforce
next
  case (rq_refused sp e)
  with inv_connect [OF laws inv] show ?thesis by blast
next
  case (rq_send sid c r n)
  with inv_send [OF laws inv] show ?thesis by blast
next
  case (rq_receive k job rest)
  with inv_statement [OF laws inv] inv_end_session [OF laws inv] show ?thesis by (cases "statement_job job"; cases job) auto
next
  case (rq_insert k rest b)
  with inv_insert [OF laws inv] show ?thesis by blast
next
  case (rq_retire k)
  then have "k \<notin> set (idle_senders (factory y))" by (auto simp: connected_def)
  from inv_ends_plain [OF laws inv rq_retire(3) this rtranclp.rtrancl_refl, of "[]"] rq_retire(2) show ?thesis by simp
next
  case (rq_die k v w)
  from inv_ends_plain [OF laws inv rq_die(3) busy_not_idle [OF inv rq_die(3,4)] rq_die(5)] rq_die(2) show ?thesis by simp
next
  case (rq_close sid c)
  with inv_drop [OF inv] show ?thesis by blast
next
  case (rq_tick d)
  with inv show ?thesis by (auto simp: rq_inv_def conn_senders_def pool_ok_def list_ok_def split: option.splits intro: trans_le_add1)
qed

text \<open>A factory as \<^verbatim>\<open>build\<close> makes it.\<close>

definition built :: "'w sqlite_lib \<Rightarrow> 'w rq_sys \<Rightarrow> bool" where
  "built lib y \<longleftrightarrow> (\<exists>h b w f w'. rusqlite_build lib h b w = (Inr f, w') \<and> y = rq_init f (h + 1) w')"

lemma inv_built:
  assumes laws: "sqlite_laws lib view fresh" and "built lib y"
  shows "rq_inv view fresh y"
proof -
  from assms(2) obtain h b w f w' where b: "rusqlite_build lib h b w = (Inr f, w')" "y = rq_init f (h + 1) w'"
    by (auto simp: built_def)
  have "idle_senders f = [] \<and> pool_ok fresh 0 f"
  proof (cases "rq_pool f")
    case (Some p)
    from build_pristine [OF laws b(1) Some] obtain m a v where "p = idle_pool_new m a v" "sint v = fingerprint_value fresh" by blast
    then have "ip_idle p = [] \<and> list_ok fresh 0 p" by (simp add: idle_pool_new_def list_ok_def)
    with Some show ?thesis by (simp add: idle_senders_def pool_ok_def)
  qed (simp add: idle_senders_def pool_ok_def)
  then show ?thesis by (simp add: b(2) rq_inv_def rq_init_def owners_ok_def handles_ok_def conn_senders_def)
qed

interpretation rq_workers: lts_invariant "rq_step lib" "\<lambda>y. sqlite_laws lib view fresh \<and> built lib y" "\<lambda>y. sqlite_laws lib view fresh \<and> rq_inv view fresh y"
  for lib view fresh
  by unfold_locales (auto intro: inv_built rq_inv_step)

section \<open>Requests and replies\<close>

definition requests_of :: "nat \<Rightarrow> 'w rq_sys \<Rightarrow> nat list" where
  "requests_of k y = map snd (filter (\<lambda>x. fst x = k) (sent y))"

definition answered_by :: "nat \<Rightarrow> 'w rq_sys \<Rightarrow> nat list" where
  "answered_by k y = map (fst \<circ> snd) (filter (\<lambda>x. fst x = k) (replies y))"

definition queued_at :: "nat \<Rightarrow> 'w rq_sys \<Rightarrow> nat list" where
  "queued_at k y = (case workers y k of None \<Rightarrow> [] | Some v \<Rightarrow> concat (map reply_channel (inbox v)))"

definition fifo :: "'w rq_sys \<Rightarrow> bool" where
  "fifo y \<longleftrightarrow> (\<forall>k. requests_of k y = answered_by k y @ queued_at k y) \<and> (\<forall>k. next_worker y \<le> k \<longrightarrow> workers y k = None)"

lemma answered_snoc [simp]: "map (fst \<circ> snd) (filter (\<lambda>x. fst x = k) (map (\<lambda>n. (j, n, r)) ns)) = (if j = k then ns else [])"
  by (induction ns) auto

lemma fifo_ends:
  assumes "fifo y" and "workers y k = Some v" and "workers z = workers y" "replies z = replies y" "sent z = sent y" "next_worker z = next_worker y"
    and "concat (map reply_channel jobs) = concat (map reply_channel (inbox v))"
  shows "fifo (worker_ends lib k jobs z)"
  using assms unfolding fifo_def
  by (auto simp: worker_ends_def requests_of_def answered_by_def queued_at_def comp_def split: option.splits) 

lemma fifo_worker:
  assumes "fifo y" and "workers y k = Some v" and "workers z = (workers y)(k \<mapsto> u)" "replies z = replies y" "sent z = sent y"
    "next_worker z = next_worker y" and "concat (map reply_channel (inbox u)) = concat (map reply_channel (inbox v))"
  shows "fifo z"
  using assms unfolding fifo_def by (auto simp: requests_of_def answered_by_def queued_at_def split: option.splits)

lemma fifo_job:
  assumes "fifo y" and "workers y k = Some \<lparr>inbox = job # rest, parking = None\<rparr>"
  shows "fifo (session_job lib k job rest y)"
proof (cases "statement_job job")
  case True
  then obtain n r w where n: "reply_channel job = [n]"
    "session_job lib k job rest y = y\<lparr>workers := (workers y)(k \<mapsto> \<lparr>inbox = rest, parking = None\<rparr>), lib_state := w,
        replies := replies y @ [(k, n, r)]\<rparr>"
    by (cases job) (auto simp: session_job_def Let_def split_beta)
  from assms n(1) show ?thesis unfolding n(2) fifo_def
    by (auto simp: requests_of_def answered_by_def queued_at_def split: option.splits)
next
  case False
  then obtain b where b: "job = EndSession b" by (cases job) auto
  have ends: "fifo (worker_ends lib k rest (y\<lparr>lib_state := w, factory := f\<rparr>))" for w f
    using b by (intro fifo_ends [OF assms]) simp_all
  show ?thesis
  proof (cases "rq_pool (factory y)")
    case None
    then have "session_job lib k job rest y = worker_ends lib k rest y" using b by (simp add: session_job_def)
    moreover have "fifo (worker_ends lib k rest y)" using b by (intro fifo_ends [OF assms]) simp_all
    ultimately show ?thesis by simp
  next
    case (Some p)
    obtain ok p' w where "park_first lib p k (rq_busy_timeout_ms (factory y)) (lib_state y) = (ok, p', w)" by (metis prod_cases3)
    with Some ends b show ?thesis
      by (cases ok) (auto simp: session_job_def Let_def intro!: fifo_worker [OF assms])
  qed
qed

lemma fifo_connect:
  assumes "fifo y" and "rusqlite_connect lib sp y = (r, z)"
  shows "fifo z"
proof -
  have sweep: "fifo (y\<lparr>factory := f\<rparr>)" for f
    using assms(1) by (simp add: fifo_def requests_of_def answered_by_def queued_at_def)
  have spawn: "fifo (snd (spawn_session lib sp x))" if "fifo x" for x
    using that by (auto simp: spawn_session_def Let_def fifo_def requests_of_def answered_by_def queued_at_def
        split: spawn.split prod.split sum.split)
  show ?thesis
    using assms sweep spawn [OF assms(1)] spawn [OF sweep]
    by (auto simp: rusqlite_connect_def split: option.splits prod.splits sum.splits) (metis snd_conv)+
qed

lemma fifo_step:
  assumes "fifo y" and "rq_step lib y e z"
  shows "fifo z"
  using assms(2)
proof (cases rule: rq_step.cases)
  case (rq_connect sid sp c z')
  from fifo_connect [OF assms(1) rq_connect(4)] rq_connect(2) show ?thesis
    by (simp add: fifo_def requests_of_def answered_by_def queued_at_def)
next
  case (rq_refused sp e)
  with fifo_connect [OF assms(1)] show ?thesis by blast
next
  case (rq_send sid c r n)
  have "reply_channel (job_of r n) = [n]" by (cases r) auto
  with assms(1) rq_send(2) show ?thesis
    by (auto simp: send_request_def fifo_def requests_of_def answered_by_def queued_at_def split: option.splits)
next
  case (rq_receive k job rest)
  with fifo_job [OF assms(1)] show ?thesis by blast
next
  case (rq_insert k rest b)
  have "fifo (worker_ends lib k rest (y\<lparr>factory := f\<rparr>))" for f
    by (intro fifo_ends [OF assms(1) rq_insert(3)]) simp_all
  with assms(1) rq_insert(2) show ?thesis
    by (auto simp: finish_park_def intro!: fifo_worker [OF assms(1) rq_insert(3)] split: option.split prod.split bool.split)
next
  case (rq_retire k)
  with assms(1) show ?thesis by (auto intro: fifo_ends)
next
  case (rq_die k v w)
  then show ?thesis using assms(1) by (auto intro!: fifo_ends)
next
  case (rq_close sid c)
  with assms(1) show ?thesis
    by (auto simp: conn_drop_def Let_def fifo_def requests_of_def answered_by_def queued_at_def split: option.splits)
next
  case (rq_tick d)
  with assms(1) show ?thesis by (simp add: fifo_def requests_of_def answered_by_def queued_at_def)
qed

lemma fifo_init: "fifo (rq_init f k w)"
  by (simp add: fifo_def rq_init_def requests_of_def answered_by_def queued_at_def)

interpretation rq_channel: lts_invariant "rq_step lib" "\<lambda>y. \<exists>f k w. y = rq_init f k w" fifo for lib
  by unfold_locales (auto intro: fifo_init fifo_step)


section \<open>A concrete library\<close>

text \<open>A library whose state is the state of each connection; \<^verbatim>\<open>BEGIN\<close> opens a transaction and every statement moves the row id.\<close>

definition demo_fresh :: handle_state where
  "demo_fresh =
     \<lparr>autocommit = True, last_rowid = 0, temp_objects = 0, attached = 0, query_only = False, foreign_keys = True,
      recursive_triggers = False, defer_foreign_keys = False, read_uncommitted = False, reverse_unordered_selects = False,
      cell_size_check = False, automatic_index = True, trusted_schema = True\<rparr>"

definition probe_row :: "handle_state \<Rightarrow> (string + sqlite_row) list" where
  "probe_row s = (if fingerprint_value s < 2 ^ 62 then [Inr (\<lambda>i. Inr (VInteger (word_of_int (fingerprint_value s))))] else [])"

definition demo_lib :: "(nat \<Rightarrow> handle_state) sqlite_lib" where
  "demo_lib =
     \<lparr>sq_open = (\<lambda>h path w. (Inr (), w(h := demo_fresh))), sq_close = (\<lambda>h w. w), sq_busy_timeout = (\<lambda>h ms w. (Inr (), w)),
      sq_pragma_update = (\<lambda>h name v w. (Inr (), w)), sq_create_scalar_function = (\<lambda>h name n w. (Inr (), w)),
      sq_is_autocommit = (\<lambda>h w. autocommit (w h)), sq_execute_batch = (\<lambda>h sql w. (Inr (), w(h := (w h)\<lparr>autocommit := True\<rparr>))),
      sq_prepare_cached = (\<lambda>h sql w. (Inr [], w)), sq_query = (\<lambda>h sql ps w. (Inr (probe_row (w h)), w)),
      sq_execute = (\<lambda>h sql ps w. (Inr 1, w(h := (w h)\<lparr>autocommit := sql \<noteq> ''BEGIN'', last_rowid := last_rowid (w h) + 1\<rparr>))),
      sq_last_insert_rowid = (\<lambda>h w. last_rowid (w h)),
      sq_set_last_insert_rowid = (\<lambda>h i w. w(h := (w h)\<lparr>last_rowid := i\<rparr>))\<rparr>"

lemma fingerprint_nonneg: "0 \<le> fingerprint_value s"
  by (simp add: fingerprint_value_def)

lemma demo_laws: "sqlite_laws demo_lib (\<lambda>h w. w h) demo_fresh"
proof -
  have "sint (word_of_int x :: u64) = x" if "0 \<le> x" "x < 2 ^ 62" for x :: int
    using that by (simp add: sint_sbintrunc' signed_take_bit_int_eq_self)
  then have "probe_laws demo_lib (\<lambda>h w. w h)"
    by (auto simp: probe_laws_def demo_lib_def probe_row_def fingerprint_nonneg split: if_splits)
  moreover have "\<forall>h h' w w'. lib_call demo_lib h w w' \<longrightarrow> h' \<noteq> h \<longrightarrow> w' h' = w h'"
    by (auto elim!: lib_call.cases simp: demo_lib_def)
  moreover have "setup_laws demo_lib (\<lambda>h w. w h) demo_fresh" "reset_laws demo_lib (\<lambda>h w. w h)"
    by (auto simp: setup_laws_def reset_laws_def demo_lib_def fresh_state_def demo_fresh_def)
  ultimately show ?thesis by (simp add: sqlite_laws_def)
qed

fun rq_exec :: "'w sqlite_lib \<Rightarrow> 'w rq_sys \<Rightarrow> rq_event \<Rightarrow> 'w rq_sys option" where
  "rq_exec lib y (Connect sid sp) =
     (case map_of (conns y) sid of
        Some _ \<Rightarrow> None
      | None \<Rightarrow> (case rusqlite_connect lib sp y of (Inr c, z) \<Rightarrow> Some (z\<lparr>conns := (sid, c) # conns z\<rparr>) | (Inl e, z) \<Rightarrow> None))"
| "rq_exec lib y (Refuse sp) = (case rusqlite_connect lib sp y of (Inl e, z) \<Rightarrow> Some z | (Inr c, z) \<Rightarrow> None)"
| "rq_exec lib y (Send sid r n) = (case map_of (conns y) sid of None \<Rightarrow> None | Some c \<Rightarrow> Some (send_request c r n y))"
| "rq_exec lib y (Receive k) =
     (case workers y k of
        Some v \<Rightarrow> (case (inbox v, parking v) of (job # rest, None) \<Rightarrow> Some (session_job lib k job rest y) | _ \<Rightarrow> None)
      | None \<Rightarrow> None)"
| "rq_exec lib y (Insert k) =
     (case workers y k of
        Some v \<Rightarrow> (case parking v of Some b \<Rightarrow> Some (finish_park lib k b (inbox v) y) | None \<Rightarrow> None)
      | None \<Rightarrow> None)"
| "rq_exec lib y (Retire k) = None"
| "rq_exec lib y (Die k) =
     (case workers y k of
        Some v \<Rightarrow> if inbox v \<noteq> [] \<or> parking v \<noteq> None then Some (worker_ends lib k (inbox v) (y\<lparr>lib_state := lib_state y\<rparr>)) else None
      | None \<Rightarrow> None)"
| "rq_exec lib y (Close sid) = (case map_of (conns y) sid of None \<Rightarrow> None | Some c \<Rightarrow> Some (conn_drop sid c y))"
| "rq_exec lib y (Tick d) = Some (y\<lparr>clock := clock y + d\<rparr>)"

lemma rq_exec_sound: "rq_exec lib y e = Some z \<Longrightarrow> rq_step lib y e z"
proof (cases e)
  case (Die k)
  assume "rq_exec lib y e = Some z"
  with Die obtain v where "workers y k = Some v" "inbox v \<noteq> [] \<or> parking v \<noteq> None"
    "z = worker_ends lib k (inbox v) (y\<lparr>lib_state := lib_state y\<rparr>)" by (auto split: option.splits if_splits)
  with Die show ?thesis using rq_die [OF _ _ rtranclp.rtrancl_refl] by blast
next
  case (Receive k)
  assume "rq_exec lib y e = Some z"
  with Receive obtain v job rest where "workers y k = Some v" "inbox v = job # rest" "parking v = None" "z = session_job lib k job rest y"
    by (auto split: option.splits list.splits)
  moreover from this have "v = \<lparr>inbox = job # rest, parking = None\<rparr>" by (intro worker.equality) simp_all
  ultimately show ?thesis using Receive rq_receive by blast
next
  case (Insert k)
  assume "rq_exec lib y e = Some z"
  with Insert obtain v b where "workers y k = Some v" "parking v = Some b" "z = finish_park lib k b (inbox v) y"
    by (auto split: option.splits)
  moreover from this have "v = \<lparr>inbox = inbox v, parking = Some b\<rparr>" by (intro worker.equality) simp_all
  ultimately show ?thesis using Insert rq_insert by metis
qed (auto split: option.splits prod.splits sum.splits intro: rq_step.intros)

interpretation rq_machine: executable_lts "rq_exec lib" "rq_step lib" for lib
  by unfold_locales (rule rq_exec_sound)

definition rq_demo_builder :: rusqlite_builder where
  "rq_demo_builder =
     \<lparr>rb_target = FileTarget ''app.db'', rb_busy_timeout_ms = 50, rb_synchronous = Full, rb_max_idle = 1, rb_max_idle_age = 20\<rparr>"

definition demo_start :: "(nat \<Rightarrow> handle_state) rq_sys" where
  "demo_start =
     (case rusqlite_build demo_lib 0 rq_demo_builder (\<lambda>h. demo_fresh) of
        (Inr f, w) \<Rightarrow> rq_init f 1 w)"

definition rq_demo_events :: "rq_event list" where
  "rq_demo_events = [Connect 7 Started, Send 7 (Execute ''BEGIN'' []) 0, Send 7 (Execute ''INSERT'' []) 1, Receive 1, Receive 1, Close 7,
     Receive 1, Insert 1, Tick 10]"

definition demo_end :: "(nat \<Rightarrow> handle_state) rq_sys" where
  "demo_end = the (exec_all (rq_exec demo_lib) demo_start rq_demo_events)"

lemma rq_demo_run: "lts_run (rq_step demo_lib) demo_start rq_demo_events demo_end"
proof -
  have "\<not> Option.is_none (exec_all (rq_exec demo_lib) demo_start rq_demo_events)" by code_simp
  then show ?thesis unfolding demo_end_def by (intro rq_machine.exec_all_run) (simp add: Option.is_none_def)
qed

lemma demo_built: "built demo_lib demo_start"
proof -
  let ?b = "rusqlite_build demo_lib 0 rq_demo_builder (\<lambda>h. demo_fresh)"
  have "\<not> isl (fst ?b)" by code_simp
  then obtain f w where "?b = (Inr f, w)" by (cases ?b; cases "fst ?b") auto
  then show ?thesis unfolding built_def demo_start_def by (intro exI [of _ 0] exI conjI) auto
qed

section \<open>Properties\<close>







text \<open>
  A value that is bound as a parameter and read back from a column is the same value; text of a column that
  is not UTF-8 arrives unchanged as a blob.
\<close>

lemma bound_value_read_back:
  "(case v of Text s \<Rightarrow> utf8_error 0 (bytes_of_string s) = None | _ \<Rightarrow> True) \<Longrightarrow> extract_value (\<lambda>i. Inr (bind_param v)) n = Inr v"
proof (cases v)
  case (Text s)
  assume "case v of Text s \<Rightarrow> utf8_error 0 (bytes_of_string s) = None | _ \<Rightarrow> True"
  then show ?thesis using Text by (simp add: extract_value_def from_utf8_def string_of_bytes_of_string)
qed (simp_all add: extract_value_def)

lemma invalid_text_kept: "utf8_error 0 b \<noteq> None \<Longrightarrow> extract_value (\<lambda>i. Inr (VText b)) n = Inr (Blob b)"
  by (auto simp: extract_value_def from_utf8_def)

end
