(* ===== verification/Mysql_Handler.thy ===== *)
theory Mysql_Handler
  imports Session Tenant_Screen Utf8 "HOL-Library.AList"
begin

text \<open>
  One MySQL client connection (\<^verbatim>\<open>src/crates/litewire-mysql/src/handler.rs\<close>, \<^verbatim>\<open>types.rs\<close>): how it gets its backend,
  its prepared statements, the pending reset and the commands, over the session of \<open>Session\<close>. The protocol library
  \<^verbatim>\<open>opensrv-mysql\<close> calls the handler and encodes what it answers, so a command's result is the
  \<open>mysql_reply\<close> handed to it. Backends, the embedder's authenticator and the random bytes are parameters. Logging is left out.
\<close>

section \<open>Types\<close>

datatype column_type = MYSQL_TYPE_VAR_STRING | MYSQL_TYPE_LONGLONG | MYSQL_TYPE_DOUBLE | MYSQL_TYPE_BLOB

fun mysql_type_for_value :: "backend_value \<Rightarrow> column_type" where
  "mysql_type_for_value Null = MYSQL_TYPE_VAR_STRING"
| "mysql_type_for_value (Integer i) = MYSQL_TYPE_LONGLONG"
| "mysql_type_for_value (Float f) = MYSQL_TYPE_DOUBLE"
| "mysql_type_for_value (Text s) = MYSQL_TYPE_VAR_STRING"
| "mysql_type_for_value (Blob b) = MYSQL_TYPE_BLOB"

definition sqlite_to_mysql_column_type :: "string option \<Rightarrow> column_type" where
  "sqlite_to_mysql_column_type dt =
     (case dt of
        None \<Rightarrow> MYSQL_TYPE_VAR_STRING
      | Some d \<Rightarrow>
          (let upper = to_ascii_uppercase d; has = contains_str upper in
           if has ''INT'' then MYSQL_TYPE_LONGLONG
           else if has ''REAL'' \<or> has ''FLOAT'' \<or> has ''DOUBLE'' then MYSQL_TYPE_DOUBLE
           else if has ''BLOB'' \<or> upper = ''BYTEA'' then MYSQL_TYPE_BLOB
           else MYSQL_TYPE_VAR_STRING))"

record wire_column =
  wc_name :: string
  wc_type :: column_type

definition result_column :: "backend_value list list \<Rightarrow> nat \<Rightarrow> column \<Rightarrow> wire_column" where
  "result_column rows i c =
     \<lparr>wc_name = col_name c,
      wc_type =
        (if decltype c \<noteq> None then sqlite_to_mysql_column_type (decltype c)
         else case List.find (\<lambda>v. v \<noteq> Null) (map (\<lambda>r. r ! i) (filter (\<lambda>r. i < length r) rows)) of
             None \<Rightarrow> MYSQL_TYPE_VAR_STRING
           | Some v \<Rightarrow> mysql_type_for_value v)\<rparr>"

definition described_column :: "column \<Rightarrow> wire_column" where
  "described_column c = \<lparr>wc_name = col_name c, wc_type = sqlite_to_mysql_column_type (decltype c)\<rparr>"

section \<open>Replies\<close>

datatype mysql_reply =
    RowSet "wire_column list" "backend_value list list"
  | OkPacket u64 u64 bool
  | ErrPacket u16 string
  | StmtPrepared u32 "wire_column list" "wire_column list"
  | InitOk

definition ER_ACCESS_DENIED_ERROR :: u16 where "ER_ACCESS_DENIED_ERROR = 1045"
definition ER_UNKNOWN_STMT_HANDLER :: u16 where "ER_UNKNOWN_STMT_HANDLER = 1243"
definition ER_MAX_PREPARED_STMT_COUNT_REACHED :: u16 where "ER_MAX_PREPARED_STMT_COUNT_REACHED = 1461"

definition write_result_set :: "result_set \<Rightarrow> mysql_reply" where
  "write_result_set rs = RowSet (map (\<lambda>(i, c). result_column (rs_rows rs) i c) (enumerate 0 (rs_columns rs))) (rs_rows rs)"

fun write_session_error :: "session_error \<Rightarrow> mysql_reply" where
  "write_session_error (Db code sqlstate message) = ErrPacket (kind_number (wire_kind code)) message"
| "write_session_error (Translate e) = ErrPacket ER_PARSE_ERROR (translate_error_text e)"

fun session_error_text :: "session_error \<Rightarrow> string" where
  "session_error_text (Db code sqlstate message) = message"
| "session_error_text (Translate e) = translate_error_text e"

definition ok_response :: "session_ok \<Rightarrow> mysql_reply" where
  "ok_response r = OkPacket (ok_affected_rows r) (ok_last_insert_id r) (ok_in_transaction r)"

text \<open>The values of a \<^verbatim>\<open>COM_STMT_EXECUTE\<close> packet as the protocol library decodes them.\<close>

datatype param_value = PNull | PInt u64 | PUInt u64 | PDouble f64_bits | PBytes bytes | PDate bytes | PTime bytes | PDatetime bytes

fun param_to_value :: "param_value \<Rightarrow> backend_value" where
  "param_to_value PNull = Null"
| "param_to_value (PInt i) = Integer i"
| "param_to_value (PUInt u) = Integer u"
| "param_to_value (PDouble f) = Float f"
| "param_to_value (PBytes b) = (case from_utf8 b of Inr s \<Rightarrow> Text s | Inl _ \<Rightarrow> Blob b)"
| "param_to_value (PDate b) = Text (from_utf8_lossy b)"
| "param_to_value (PTime b) = Text (from_utf8_lossy b)"
| "param_to_value (PDatetime b) = Text (from_utf8_lossy b)"

section \<open>Authentication\<close>

record auth_request =
  auth_plugin :: string
  auth_username :: bytes
  auth_salt :: bytes
  auth_response :: bytes
  auth_local_addr :: string
  auth_peer_addr :: string

datatype 'be auth_outcome = Granted 'be | Denied | Unavailable string

definition outcome_from :: "'be option \<Rightarrow> 'be auth_outcome" where
  "outcome_from b = (case b of None \<Rightarrow> Denied | Some be \<Rightarrow> Granted be)"

datatype 'be unopened = Retry 'be | NotAvailable string

definition SCRAMBLE_SIZE :: nat where "SCRAMBLE_SIZE = 20"

text \<open>The challenge from the random bytes the system provides.\<close>

definition random_scramble :: "bytes \<Rightarrow> bytes" where
  "random_scramble raw = map (\<lambda>b. 0x21 + b mod 94) raw"

definition FIXED_SCRAMBLE :: bytes where
  "FIXED_SCRAMBLE = map (\<lambda>b. if b = 0 \<or> b = 0x24 then b + 1 else b) (bytes_of_string '';X,po_k}>o6^Wz!/kM}N'')"

record 'm conn_auth =
  ca_cache :: "'m translate_cache"
  ca_local_addr :: string
  ca_peer_addr :: string
  ca_scramble :: bytes

section \<open>The handler\<close>

text \<open>
  A backend \<open>be\<close> opens connections, numbered by \<open>me_connect\<close>, on the common state \<open>'w\<close>; \<open>me_conn be n\<close> are the operations
  of one of them.
\<close>

record ('w, 'm, 'k, 'b, 'be) mysql_env =
  me_session :: "('w, 'm, 'k, 'b) sess_env"
  me_connect :: "'be \<Rightarrow> 'w \<Rightarrow> (backend_error + nat) \<times> 'w"
  me_conn :: "'be \<Rightarrow> nat \<Rightarrow> 'w conn_api"
  me_describe :: "'be \<Rightarrow> nat \<Rightarrow> string \<Rightarrow> 'w \<Rightarrow> (backend_error + column list) \<times> 'w"
  me_authenticate :: "auth_request \<Rightarrow> 'w \<Rightarrow> 'be auth_outcome \<times> 'w"

text \<open>A session with the connection it owns; \<open>bs_screened\<close> says that the tenant screen wraps it.\<close>

record ('w, 'm, 'be) bound_session =
  bs_backend :: 'be
  bs_conn :: nat
  bs_screened :: bool
  bs_session :: "('w, 'm) session"

record ('w, 'm, 'be) handler =
  mh_session :: "('w, 'm, 'be) bound_session option"
  mh_auth :: "'m conn_auth option"
  mh_unopened :: "'be unopened option"
  mh_stmts :: "(u32 \<times> prepared) list"
  mh_next_stmt_id :: u32
  mh_reset_pending :: bool

definition screened_conn :: "'w conn_api \<Rightarrow> 'w conn_api" where
  "screened_conn api =
     \<lparr>conn_query = screened_call (conn_query api), conn_execute = screened_call (conn_execute api),
      conn_user_lock = conn_user_lock api\<rparr>"

definition bound_conn :: "('w, 'm, 'k, 'b, 'be) mysql_env \<Rightarrow> ('w, 'm, 'be) bound_session \<Rightarrow> 'w conn_api" where
  "bound_conn env b =
     (let api = me_conn env (bs_backend b) (bs_conn b) in if bs_screened b then screened_conn api else api)"

definition bound_describe ::
  "('w, 'm, 'k, 'b, 'be) mysql_env \<Rightarrow> ('w, 'm, 'be) bound_session \<Rightarrow> string \<Rightarrow> 'w \<Rightarrow> (backend_error + column list) \<times> 'w" where
  "bound_describe env b sql w =
     (if bs_screened b then screened_call (\<lambda>sql _. me_describe env (bs_backend b) (bs_conn b) sql) sql () w
      else me_describe env (bs_backend b) (bs_conn b) sql w)"

text \<open>Running an operation of the session on the current state of the backends.\<close>

definition in_session ::
  "('w, 'm, 'k, 'b, 'be) mysql_env \<Rightarrow> (('w, 'm, 'k, 'b) sess_env \<Rightarrow> ('w, 'm, 'a) action) \<Rightarrow> ('w, 'm, 'be) bound_session \<Rightarrow> 'w \<Rightarrow>
     'a outcome \<times> ('w, 'm, 'be) bound_session \<times> 'w" where
  "in_session env act b w =
     (case act ((me_session env)\<lparr>es_conn := bound_conn env b\<rparr>) ((bs_session b)\<lparr>conn := w\<rparr>) of
        (r, s) \<Rightarrow> (r, b\<lparr>bs_session := s\<rparr>, conn s))"

definition handler_new ::
  "('w, 'm, 'k, 'b, 'be) mysql_env \<Rightarrow> 'be \<Rightarrow> 'm translate_cache \<Rightarrow> 'w \<Rightarrow> (backend_error + ('w, 'm, 'be) handler) \<times> 'w" where
  "handler_new env be tc w =
     (case me_connect env be w of
        (Inl e, w1) \<Rightarrow> (Inl e, w1)
      | (Inr n, w1) \<Rightarrow>
          (Inr \<lparr>mh_session = Some \<lparr>bs_backend = be, bs_conn = n, bs_screened = False, bs_session = session_with_cache w1 MySQL tc\<rparr>,
                mh_auth = None, mh_unopened = None, mh_stmts = [], mh_next_stmt_id = 1, mh_reset_pending = False\<rparr>, w1))"

definition new_authenticating :: "'m translate_cache \<Rightarrow> string \<Rightarrow> string \<Rightarrow> bytes \<Rightarrow> ('w, 'm, 'be) handler" where
  "new_authenticating tc local_addr peer_addr raw =
     \<lparr>mh_session = None,
      mh_auth = Some \<lparr>ca_cache = tc, ca_local_addr = local_addr, ca_peer_addr = peer_addr, ca_scramble = random_scramble raw\<rparr>,
      mh_unopened = None, mh_stmts = [], mh_next_stmt_id = 1, mh_reset_pending = False\<rparr>"

definition handler_salt :: "('w, 'm, 'be) handler \<Rightarrow> bytes" where
  "handler_salt h = (case mh_auth h of Some a \<Rightarrow> ca_scramble a | None \<Rightarrow> FIXED_SCRAMBLE)"

definition open_tenant_session ::
  "('w, 'm, 'k, 'b, 'be) mysql_env \<Rightarrow> 'be \<Rightarrow> 'm translate_cache \<Rightarrow> 'w \<Rightarrow> (backend_error + ('w, 'm, 'be) bound_session) \<times> 'w" where
  "open_tenant_session env be tc w =
     (case me_connect env be w of
        (Inl e, w1) \<Rightarrow> (Inl e, w1)
      | (Inr n, w1) \<Rightarrow>
          (Inr \<lparr>bs_backend = be, bs_conn = n, bs_screened = True, bs_session = session_with_cache w1 MySQL tc\<rparr>, w1))"

definition session_open_failure :: "backend_error \<Rightarrow> string" where
  "session_open_failure e =
     ''authenticated, but could not open a session on this connection'' @ [sq] @ ''s database: '' @ backend_error_to_string e"

definition NOT_AUTHENTICATED :: string where
  "NOT_AUTHENTICATED = ''Access denied: connection is not authenticated''"

definition database_unavailable :: "string \<Rightarrow> string" where
  "database_unavailable reason = ''authenticated, but this connection'' @ [sq] @ ''s database is unavailable: '' @ reason"

definition authenticate ::
  "('w, 'm, 'k, 'b, 'be) mysql_env \<Rightarrow> string \<Rightarrow> bytes \<Rightarrow> bytes \<Rightarrow> bytes \<Rightarrow> ('w, 'm, 'be) handler \<Rightarrow> 'w \<Rightarrow>
     bool \<times> ('w, 'm, 'be) handler \<times> 'w" where
  "authenticate env plugin username salt data h w =
     (case mh_auth h of
        None \<Rightarrow> (True, h, w)
      | Some a \<Rightarrow>
          (case me_authenticate env \<lparr>auth_plugin = plugin, auth_username = username, auth_salt = salt, auth_response = data,
                                    auth_local_addr = ca_local_addr a, auth_peer_addr = ca_peer_addr a\<rparr> w of
             (Denied, w1) \<Rightarrow> (False, h, w1)
           | (Unavailable reason, w1) \<Rightarrow>
               (True, (if mh_unopened h = None then h\<lparr>mh_unopened := Some (NotAvailable (database_unavailable reason))\<rparr> else h), w1)
           | (Granted be, w1) \<Rightarrow>
               (case open_tenant_session env be (ca_cache a) w1 of
                  (Inl e, w2) \<Rightarrow> (True, (if mh_unopened h = None then h\<lparr>mh_unopened := Some (Retry be)\<rparr> else h), w2)
                | (Inr b, w2) \<Rightarrow>
                    if mh_session h = None then (True, h\<lparr>mh_session := Some b\<rparr>, w2) else (False, h, w2))))"

section \<open>Before a command\<close>

text \<open>\<^verbatim>\<open>apply_pending_reset\<close>; the outcome is a panic of the task or nothing.\<close>

definition reset_session ::
  "('w, 'm, 'k, 'b, 'be) mysql_env \<Rightarrow> ('w, 'm, 'be) bound_session \<Rightarrow> 'w \<Rightarrow> unit rust_result \<times> ('w, 'm, 'be) bound_session \<times> 'w" where
  "reset_session env b w =
     (let (r1, b1, w1) =
        (if in_transaction (bs_session b)
         then (case in_session env (\<lambda>e. query e ''ROLLBACK'' []) b w of
                 (r, b', w') \<Rightarrow> (r = Panic, b'\<lparr>bs_session := (bs_session b')\<lparr>in_transaction := False\<rparr>\<rparr>, w'))
         else (False, b, w)) in
      if r1 then (Panics, b1, w1)
      else case in_session env release_user_locks b1 w1 of
          (r2, b2, w2) \<Rightarrow> (if r2 = Panic then Panics else Returns (), b2, w2))"

definition apply_pending_reset ::
  "('w, 'm, 'k, 'b, 'be) mysql_env \<Rightarrow> ('w, 'm, 'be) handler \<Rightarrow> 'w \<Rightarrow> unit rust_result \<times> ('w, 'm, 'be) handler \<times> 'w" where
  "apply_pending_reset env h w =
     (if \<not> mh_reset_pending h then (Returns (), h, w)
      else let h1 = h\<lparr>mh_reset_pending := False, mh_stmts := []\<rparr> in
        case mh_session h1 of
          None \<Rightarrow> (Returns (), h1, w)
        | Some b \<Rightarrow> (case reset_session env b w of (r, b1, w1) \<Rightarrow> (r, h1\<lparr>mh_session := Some b1\<rparr>, w1)))"

definition ensure_session ::
  "('w, 'm, 'k, 'b, 'be) mysql_env \<Rightarrow> ('w, 'm, 'be) handler \<Rightarrow> 'w \<Rightarrow> (mysql_reply + ('w, 'm, 'be) bound_session) \<times> ('w, 'm, 'be) handler \<times> 'w" where
  "ensure_session env h w =
     (let failed = (\<lambda>text. let e = classify_error text in ErrPacket (err_code e) (err_message e)) in
      case mh_session h of
        Some b \<Rightarrow> (Inr b, h, w)
      | None \<Rightarrow>
          (case (mh_unopened h, mh_auth h) of
             (Some (Retry be), Some a) \<Rightarrow>
               (case open_tenant_session env be (ca_cache a) w of
                  (Inr b, w1) \<Rightarrow> (Inr b, h\<lparr>mh_session := Some b, mh_unopened := None\<rparr>, w1)
                | (Inl e, w1) \<Rightarrow> (Inl (failed (session_open_failure e)), h, w1))
           | (Some (NotAvailable reason), _) \<Rightarrow> (Inl (failed reason), h, w)
           | _ \<Rightarrow> (Inl (ErrPacket ER_ACCESS_DENIED_ERROR NOT_AUTHENTICATED), h, w)))"

text \<open>Every command starts with both.\<close>

definition with_session ::
  "('w, 'm, 'k, 'b, 'be) mysql_env \<Rightarrow>
     (('w, 'm, 'be) bound_session \<Rightarrow> ('w, 'm, 'be) handler \<Rightarrow> 'w \<Rightarrow> mysql_reply rust_result \<times> ('w, 'm, 'be) handler \<times> 'w) \<Rightarrow>
     ('w, 'm, 'be) handler \<Rightarrow> 'w \<Rightarrow> mysql_reply rust_result \<times> ('w, 'm, 'be) handler \<times> 'w" where
  "with_session env command h w =
     (case apply_pending_reset env h w of
        (Panics, h1, w1) \<Rightarrow> (Panics, h1, w1)
      | (Returns _, h1, w1) \<Rightarrow>
          (case ensure_session env h1 w1 of
             (Inl e, h2, w2) \<Rightarrow> (Returns e, h2, w2)
           | (Inr b, h2, w2) \<Rightarrow> command b h2 w2))"

section \<open>Commands\<close>

definition MAX_PREPARED_STMTS_PER_CONN :: nat where "MAX_PREPARED_STMTS_PER_CONN = 1024"

fun frame_result :: "bool \<Rightarrow> session_result outcome \<Rightarrow> mysql_reply rust_result" where
  "frame_result text_protocol (Fine (Rows rs)) = Returns (write_result_set rs)"
| "frame_result text_protocol (Fine (OkResult r)) =
     (if text_protocol \<and> ok_noop r then Returns (OkPacket 0 0 False) else Returns (ok_response r))"
| "frame_result text_protocol (Fails e) = Returns (write_session_error e)"
| "frame_result text_protocol Panic = Panics"

definition query_command ::
  "('w, 'm, 'k, 'b, 'be) mysql_env \<Rightarrow> string \<Rightarrow> ('w, 'm, 'be) bound_session \<Rightarrow> ('w, 'm, 'be) handler \<Rightarrow> 'w \<Rightarrow>
     mysql_reply rust_result \<times> ('w, 'm, 'be) handler \<times> 'w" where
  "query_command env sql b h w =
     (case in_session env (\<lambda>e. query e sql []) b w of
        (r, b1, w1) \<Rightarrow> (frame_result True r, h\<lparr>mh_session := Some b1\<rparr>, w1))"

definition on_query ::
  "('w, 'm, 'k, 'b, 'be) mysql_env \<Rightarrow> string \<Rightarrow> ('w, 'm, 'be) handler \<Rightarrow> 'w \<Rightarrow> mysql_reply rust_result \<times> ('w, 'm, 'be) handler \<times> 'w" where
  "on_query env sql = with_session env (query_command env sql)"

definition result_columns ::
  "('w, 'm, 'k, 'b, 'be) mysql_env \<Rightarrow> ('w, 'm, 'be) bound_session \<Rightarrow> prepared \<Rightarrow> 'w \<Rightarrow> wire_column list \<times> 'w" where
  "result_columns env b p w =
     (if prep_kind p = Query \<and> sqlite_sql p \<noteq> []
      then (case bound_describe env b (sqlite_sql p) w of
              (Inr cols, w1) \<Rightarrow> (map described_column cols, w1)
            | (Inl e, w1) \<Rightarrow> ([], w1))
      else ([], w))"

definition cap_message :: string where
  "cap_message =
     ''Can'' @ [sq] @ ''t create more than '' @ show_nat MAX_PREPARED_STMTS_PER_CONN @ '' prepared statements on this connection''"

definition store_statement ::
  "prepared \<Rightarrow> wire_column list \<Rightarrow> ('w, 'm, 'be) handler \<Rightarrow> mysql_reply \<times> ('w, 'm, 'be) handler" where
  "store_statement p columns h =
     (if MAX_PREPARED_STMTS_PER_CONN \<le> length (mh_stmts h) then (ErrPacket ER_MAX_PREPARED_STMT_COUNT_REACHED cap_message, h)
      else (StmtPrepared (mh_next_stmt_id h) (replicate (param_count p) \<lparr>wc_name = ''?'', wc_type = MYSQL_TYPE_VAR_STRING\<rparr>) columns,
            h\<lparr>mh_next_stmt_id := mh_next_stmt_id h + 1, mh_stmts := AList.update (mh_next_stmt_id h) p (mh_stmts h)\<rparr>))"

definition prepare_command ::
  "('w, 'm, 'k, 'b, 'be) mysql_env \<Rightarrow> string \<Rightarrow> ('w, 'm, 'be) bound_session \<Rightarrow> ('w, 'm, 'be) handler \<Rightarrow> 'w \<Rightarrow>
     mysql_reply rust_result \<times> ('w, 'm, 'be) handler \<times> 'w" where
  "prepare_command env sql b h w =
     (case in_session env (\<lambda>e. prepare e sql) b w of
        (Panic, b1, w1) \<Rightarrow> (Panics, h\<lparr>mh_session := Some b1\<rparr>, w1)
      | (Fails e, b1, w1) \<Rightarrow> (Returns (ErrPacket ER_PARSE_ERROR (session_error_text e)), h\<lparr>mh_session := Some b1\<rparr>, w1)
      | (Fine p, b1, w1) \<Rightarrow>
          (case result_columns env b1 p w1 of
             (columns, w2) \<Rightarrow>
               (case store_statement p columns (h\<lparr>mh_session := Some b1\<rparr>) of (r, h1) \<Rightarrow> (Returns r, h1, w2))))"

definition on_prepare ::
  "('w, 'm, 'k, 'b, 'be) mysql_env \<Rightarrow> string \<Rightarrow> ('w, 'm, 'be) handler \<Rightarrow> 'w \<Rightarrow> mysql_reply rust_result \<times> ('w, 'm, 'be) handler \<times> 'w" where
  "on_prepare env sql = with_session env (prepare_command env sql)"

definition execute_command ::
  "('w, 'm, 'k, 'b, 'be) mysql_env \<Rightarrow> u32 \<Rightarrow> param_value list \<Rightarrow> ('w, 'm, 'be) bound_session \<Rightarrow> ('w, 'm, 'be) handler \<Rightarrow> 'w \<Rightarrow>
     mysql_reply rust_result \<times> ('w, 'm, 'be) handler \<times> 'w" where
  "execute_command env sid params b h w =
     (case map_of (mh_stmts h) sid of
        None \<Rightarrow> (Returns (ErrPacket ER_UNKNOWN_STMT_HANDLER (''unknown statement id: '' @ show_nat (unat sid))), h, w)
      | Some p \<Rightarrow>
          (case in_session env (\<lambda>e. execute_prepared e p (map param_to_value params)) b w of
             (r, b1, w1) \<Rightarrow> (frame_result False r, h\<lparr>mh_session := Some b1\<rparr>, w1)))"

definition on_execute ::
  "('w, 'm, 'k, 'b, 'be) mysql_env \<Rightarrow> u32 \<Rightarrow> param_value list \<Rightarrow> ('w, 'm, 'be) handler \<Rightarrow> 'w \<Rightarrow>
     mysql_reply rust_result \<times> ('w, 'm, 'be) handler \<times> 'w" where
  "on_execute env sid params = with_session env (execute_command env sid params)"

definition on_close ::
  "('w, 'm, 'k, 'b, 'be) mysql_env \<Rightarrow> u32 \<Rightarrow> ('w, 'm, 'be) handler \<Rightarrow> 'w \<Rightarrow> unit rust_result \<times> ('w, 'm, 'be) handler \<times> 'w" where
  "on_close env sid h w =
     (case apply_pending_reset env h w of
        (Panics, h1, w1) \<Rightarrow> (Panics, h1, w1)
      | (Returns _, h1, w1) \<Rightarrow> (Returns (), h1\<lparr>mh_stmts := AList.delete sid (mh_stmts h1)\<rparr>, w1))"

definition on_init ::
  "('w, 'm, 'k, 'b, 'be) mysql_env \<Rightarrow> string \<Rightarrow> ('w, 'm, 'be) handler \<Rightarrow> 'w \<Rightarrow> mysql_reply rust_result \<times> ('w, 'm, 'be) handler \<times> 'w" where
  "on_init env schema = with_session env (\<lambda>b h w. (Returns InitOk, h, w))"

section \<open>Refusing a connection over the cap\<close>

definition ER_CON_COUNT_ERROR :: u16 where "ER_CON_COUNT_ERROR = 1040"

definition refuse_too_many :: "nat \<Rightarrow> bytes" where
  "refuse_too_many limit =
     (let message = bytes_of_string (''Too many connections (litewire max_connections='' @ show_nat limit @ '')'');
          payload_len = 1 + 2 + length message in
      [of_nat payload_len, of_nat (payload_len div 256), of_nat (payload_len div 65536), 0, 0xff]
      @ le_bytes 2 ER_CON_COUNT_ERROR @ message)"

end
