(* ===== verification/Mysql_Props.thy ===== *)
theory Mysql_Props
  imports Mysql_Handler Lock_Scope
begin

text \<open>
  What the MySQL handler promises: a connection that authenticates reaches only the backend its authenticator
  granted, and only through the tenant screen; one that does not is refused every command; a prepared statement
  is found again under its id; and what a connection reset leaves behind.
\<close>

section \<open>A connection's commands\<close>

datatype mysql_event =
    AuthCmd string bytes bytes
  | QueryCmd string
  | PrepareCmd string
  | ExecuteCmd u32 "param_value list"
  | CloseCmd u32
  | InitCmd string
  | ResetCmd

text \<open>A command's reply, whether a handshake was accepted, nothing (\<^verbatim>\<open>COM_STMT_CLOSE\<close>, a reset), or the end of the task.\<close>

datatype event_reply = Reply mysql_reply | Accepted bool | NoReply | Died

fun reply_of :: "mysql_reply rust_result \<Rightarrow> event_reply" where
  "reply_of (Returns r) = Reply r"
| "reply_of Panics = Died"

fun run_event ::
  "('w, 'm, 'k, 'b, 'be) mysql_env \<Rightarrow> mysql_event \<Rightarrow> ('w, 'm, 'be) handler \<times> 'w \<Rightarrow> event_reply \<times> ('w, 'm, 'be) handler \<times> 'w" where
  "run_event env (AuthCmd plugin username data) (h, w) =
     apfst Accepted (authenticate env plugin username (handler_salt h) data h w)"
| "run_event env (QueryCmd sql) (h, w) = apfst reply_of (on_query env sql h w)"
| "run_event env (PrepareCmd sql) (h, w) = apfst reply_of (on_prepare env sql h w)"
| "run_event env (ExecuteCmd sid params) (h, w) = apfst reply_of (on_execute env sid params h w)"
| "run_event env (CloseCmd sid) (h, w) = apfst (\<lambda>r. if r = Panics then Died else NoReply) (on_close env sid h w)"
| "run_event env (InitCmd schema) (h, w) = apfst reply_of (on_init env schema h w)"
| "run_event env ResetCmd (h, w) = (NoReply, h\<lparr>mh_reset_pending := True\<rparr>, w)"

fun run_events ::
  "('w, 'm, 'k, 'b, 'be) mysql_env \<Rightarrow> mysql_event list \<Rightarrow> ('w, 'm, 'be) handler \<times> 'w \<Rightarrow> event_reply list \<times> ('w, 'm, 'be) handler \<times> 'w" where
  "run_events env [] y = ([], y)"
| "run_events env (e # es) y =
     (case run_event env e y of
        (Died, y1) \<Rightarrow> ([Died], y1)
      | (r, y1) \<Rightarrow> apfst (\<lambda>rs. r # rs) (run_events env es y1))"

section \<open>Recording every access\<close>

datatype 'be access =
    Asked auth_request "'be auth_outcome"
  | Opened 'be
  | Ran 'be string
  | Described 'be string
  | Locked 'be

definition noting :: "'a \<Rightarrow> ('w \<Rightarrow> 'r \<times> 'w) \<Rightarrow> 'w \<times> 'a list \<Rightarrow> 'r \<times> 'w \<times> 'a list" where
  "noting a f y = (case f (fst y) of (r, w) \<Rightarrow> (r, w, snd y @ [a]))"

definition recorded_conn :: "'be \<Rightarrow> 'w conn_api \<Rightarrow> ('w \<times> 'be access list) conn_api" where
  "recorded_conn be api =
     \<lparr>conn_query = (\<lambda>sql ps. noting (Ran be sql) (conn_query api sql ps)),
      conn_execute = (\<lambda>sql ps. noting (Ran be sql) (conn_execute api sql ps)),
      conn_user_lock = (\<lambda>op. noting (Locked be) (conn_user_lock api op))\<rparr>"

definition recorded_session :: "('w, 'm, 'k, 'b) sess_env \<Rightarrow> ('v, 'm, 'k, 'b) sess_env" where
  "recorded_session e =
     \<lparr>es_conn = \<lparr>conn_query = (\<lambda>sql ps w. (Inl (Other []), w)), conn_execute = (\<lambda>sql ps w. (Inl (Other []), w)), conn_user_lock = default_user_lock\<rparr>,
      es_lru = es_lru e, es_text = es_text e, es_parse = es_parse e, es_display = es_display e, es_emit = es_emit e,
      es_translate = es_translate e, es_found_rows_column = es_found_rows_column e,
      es_connection_id_column = es_connection_id_column e, es_count_sql = es_count_sql e, es_metadata_sql = es_metadata_sql e,
      es_rebuild_table = es_rebuild_table e, es_rebuild_statements = es_rebuild_statements e\<rparr>"

definition recorded :: "('w, 'm, 'k, 'b, 'be) mysql_env \<Rightarrow> ('w \<times> 'be access list, 'm, 'k, 'b, 'be) mysql_env" where
  "recorded env =
     \<lparr>me_session = recorded_session (me_session env), me_connect = (\<lambda>be. noting (Opened be) (me_connect env be)),
      me_conn = (\<lambda>be n. recorded_conn be (me_conn env be n)),
      me_describe = (\<lambda>be n sql. noting (Described be sql) (me_describe env be n sql)),
      me_authenticate = (\<lambda>req y. case me_authenticate env req (fst y) of (r, w) \<Rightarrow> (r, w, snd y @ [Asked req r]))\<rparr>"

text \<open>The backends that were granted, and the discipline of a log.\<close>

fun grants :: "'be access \<Rightarrow> 'be set" where
  "grants (Asked r (Granted be)) = {be}"
| "grants a = {}"

definition granted :: "'be access list \<Rightarrow> 'be set" where
  "granted l = (\<Union>a\<in>set l. grants a)"

fun allowed :: "(auth_request \<Rightarrow> bool) \<Rightarrow> 'be set \<Rightarrow> 'be access \<Rightarrow> bool" where
  "allowed mine G (Asked r out) = mine r"
| "allowed mine G (Opened be) = (be \<in> G)"
| "allowed mine G (Ran be sql) = (be \<in> G \<and> screen_sql sql = Inr ())"
| "allowed mine G (Described be sql) = (be \<in> G \<and> screen_sql sql = Inr ())"
| "allowed mine G (Locked be) = (be \<in> G)"

definition guarded :: "(auth_request \<Rightarrow> bool) \<Rightarrow> 'be access list \<Rightarrow> bool" where
  "guarded mine l \<longleftrightarrow> (\<forall>i<length l. allowed mine (granted (take i l)) (l ! i))"

lemma granted_snoc [simp]: "granted (l @ [a]) = granted l \<union> grants a" and granted_Nil [simp]: "granted [] = {}"
  by (auto simp: granted_def)

lemma guarded_Nil [simp]: "guarded mine []"
  by (simp add: guarded_def)

lemma guarded_snoc [simp]: "guarded mine (l @ [a]) \<longleftrightarrow> guarded mine l \<and> allowed mine (granted l) a"
  by (auto simp: guarded_def nth_append less_Suc_eq)

definition tidy :: "(auth_request \<Rightarrow> bool) \<Rightarrow> 'be set \<Rightarrow> 'w \<times> 'be access list \<Rightarrow> bool" where
  "tidy mine G y \<longleftrightarrow> guarded mine (snd y) \<and> G \<subseteq> granted (snd y)"

lemma tidy_noting:
  assumes "noting a f y = (r, y')" and "tidy mine G y" and "allowed mine (granted (snd y)) a"
  shows "tidy mine G y'"
  using assms by (cases "f (fst y)") (auto simp: noting_def tidy_def)

lemma tidy_screened:
  assumes "screened_call (\<lambda>sql ps. noting (A sql) (f sql ps)) sql ps y = (r, y')" and "tidy mine G y"
    and "screen_sql sql = Inr () \<Longrightarrow> allowed mine (granted (snd y)) (A sql)"
  shows "tidy mine G y'"
proof (cases "screen_sql sql")
  case (Inl e)
  with assms(1,2) show ?thesis by (simp add: screened_call_def)
next
  case (Inr u)
  with assms(1) have "noting (A sql) (f sql ps) y = (r, y')" by (simp add: screened_call_def)
  from tidy_noting [OF this assms(2)] assms(3) Inr show ?thesis by simp
qed

lemma tenant_query:
  assumes "be \<in> G" and "tidy mine G y" and "conn_query (screened_conn (recorded_conn be api)) sql ps y = (r, y')"
  shows "tidy mine G y'"
  using assms tidy_screened [of "\<lambda>sql. Ran be sql" "conn_query api" sql ps y r y' mine G]
  by (auto simp: screened_conn_def recorded_conn_def tidy_def)

lemma tenant_execute:
  assumes "be \<in> G" and "tidy mine G y" and "conn_execute (screened_conn (recorded_conn be api)) sql ps y = (r, y')"
  shows "tidy mine G y'"
  using assms tidy_screened [of "\<lambda>sql. Ran be sql" "conn_execute api" sql ps y r y' mine G]
  by (auto simp: screened_conn_def recorded_conn_def tidy_def)

lemma tenant_lock:
  assumes "be \<in> G" and "tidy mine G y" and "conn_user_lock (screened_conn (recorded_conn be api)) opn y = (r, y')"
  shows "tidy mine G y'"
  using assms tidy_noting [of "Locked be" "conn_user_lock api opn" y r y' mine G]
  by (auto simp: screened_conn_def recorded_conn_def tidy_def)

text \<open>A tenant's connection keeps the discipline, through every operation of the session on it.\<close>

interpretation tenant_conn: lock_scope "screened_conn (recorded_conn be api)" "\<lambda>y. be \<in> G \<and> tidy mine G y" "\<lambda>y. False" for be api G mine
  by unfold_locales (auto dest: tenant_query tenant_execute tenant_lock)


section \<open>The discipline of a connection\<close>

definition keeps_tidy :: "(auth_request \<Rightarrow> bool) \<Rightarrow> 'be set \<Rightarrow> ('w \<times> 'be access list, 'm, 'a) action \<Rightarrow> bool" where
  "keeps_tidy mine G act \<longleftrightarrow> (\<forall>s. tidy mine G (conn s) \<longrightarrow> tidy mine G (conn (snd (act s))))"

lemma tenant_sound: "tenant_conn.sound be G mine s \<longleftrightarrow> be \<in> G \<and> tidy mine G (conn s)"
  unfolding tenant_conn.sound_def by simp

lemma tenant_keeps_tidy:
  fixes act :: "('a \<times> 'b access list, 'c, 'd) action"
  assumes "be \<in> G" and "tenant_conn.keeps be G mine act"
  shows "keeps_tidy mine G act"
  unfolding keeps_tidy_def
proof (intro allI impI)
  fix s :: "('a \<times> 'b access list, 'c) session"
  assume "tidy mine G (conn s)"
  with assms(1) have "tenant_conn.sound be G mine s" by (rule tenant_sound [THEN iffD2, OF conjI])
  then have "tenant_conn.sound be G mine (snd (act s))" by (rule tenant_conn.keeps_apply [OF assms(2)])
  then show "tidy mine G (conn (snd (act s)))" by (rule tenant_sound [THEN iffD1, THEN conjunct2])
qed

lemma session_keeps_tidy:
  assumes "be \<in> G" and "es_conn e = screened_conn (recorded_conn be api)"
  shows "keeps_tidy mine G (query e sql ps)" "keeps_tidy mine G (execute_prepared e p ps)" "keeps_tidy mine G (release_user_locks e)"
  by (rule tenant_keeps_tidy [OF assms(1)], rule tenant_conn.keeps_session_query [OF assms(2)])
    (rule tenant_keeps_tidy [OF assms(1)], rule tenant_conn.keeps_execute_prepared [OF assms(2)],
     rule tenant_keeps_tidy [OF assms(1)], rule tenant_conn.keeps_release [OF assms(2)])

text \<open>Preparing a statement does not use the connection.\<close>

definition off_conn :: "('w, 'm, 'a) action \<Rightarrow> bool" where
  "off_conn act \<longleftrightarrow> (\<forall>s. conn (snd (act s)) = conn s)"

lemma off_conn_return: "off_conn (\<lambda>s. (r s, s))"
  by (simp add: off_conn_def)

lemma off_conn_and_then: "off_conn act \<Longrightarrow> (\<And>a. off_conn (f a)) \<Longrightarrow> off_conn (and_then act f)"
  unfolding off_conn_def and_then_def by (simp split: prod.split outcome.split) (metis snd_conv)

lemma off_conn_translate: "off_conn (translate_via_cache e sql)"
  by (simp add: off_conn_def translate_via_cache_def split: prod.split sum.split)

lemma off_conn_translate_sql: "off_conn (translate_sql e sql)"
  unfolding translate_sql_def by (intro off_conn_and_then off_conn_translate off_conn_return)

lemma off_conn_plan:
  "off_conn (and_then (translate_via_cache e sql)
     (\<lambda>translated. if P translated then (\<lambda>s1. (a, s1)) else and_then (translate_sql e sql) (\<lambda>(t, kind) s1. (c t kind, s1))))"
  by (auto intro!: off_conn_and_then off_conn_translate off_conn_translate_sql off_conn_return)

lemma off_conn_prepare_plain: "off_conn (prepare_plain e sql)"
  unfolding off_conn_def prepare_plain_def
  by (intro allI) (simp add: off_conn_plan [unfolded off_conn_def, THEN spec] split: option.split)

lemma prepare_conn: "conn (snd (prepare e sql s)) = conn s"
  using off_conn_prepare_plain [of e sql]
  by (simp add: prepare_def prepare_locks_def off_conn_def split: option.split sum.split rust_result.split)

lemma session_prepare_tidy: "keeps_tidy mine G (prepare e sql)"
  by (simp add: keeps_tidy_def prepare_conn)

lemma in_session_tidy:
  assumes "in_session (recorded env) act b y = (r, b', y')" and "bs_screened b" and "bs_backend b \<in> granted (snd y)"
    and "guarded mine (snd y)"
    and "\<And>e. es_conn e = screened_conn (recorded_conn (bs_backend b) (me_conn env (bs_backend b) (bs_conn b))) \<Longrightarrow>
      keeps_tidy mine (granted (snd y)) (act e)"
  shows "tidy mine (granted (snd y)) y' \<and> bs_screened b' \<and> bs_backend b' = bs_backend b"
proof -
  let ?e = "(me_session (recorded env))\<lparr>es_conn := bound_conn (recorded env) b\<rparr>"
  let ?s = "(bs_session b)\<lparr>conn := y\<rparr>"
  have "bound_conn (recorded env) b = screened_conn (recorded_conn (bs_backend b) (me_conn env (bs_backend b) (bs_conn b)))"
    using assms(2) by (simp add: bound_conn_def recorded_def)
  then have k: "keeps_tidy mine (granted (snd y)) (act ?e)" using assms(5) by simp
  have "tidy mine (granted (snd y)) (conn ?s)" using assms(4) by (simp add: tidy_def)
  with k have "tidy mine (granted (snd y)) (conn (snd (act ?e ?s)))" unfolding keeps_tidy_def by blast
  moreover have "b' = b\<lparr>bs_session := snd (act ?e ?s)\<rparr>" "y' = conn (snd (act ?e ?s))"
    using assms(1) by (auto simp: in_session_def split: prod.splits)
  ultimately show ?thesis using assms(2) by simp
qed


section \<open>The invariant of an authenticating connection\<close>

definition own_request :: "'m conn_auth \<Rightarrow> auth_request \<Rightarrow> bool" where
  "own_request a r \<longleftrightarrow> auth_local_addr r = ca_local_addr a \<and> auth_peer_addr r = ca_peer_addr a \<and> auth_salt r = ca_scramble a"

definition bound_ok :: "'be access list \<Rightarrow> ('w, 'm, 'be) bound_session \<Rightarrow> bool" where
  "bound_ok l b \<longleftrightarrow> bs_screened b \<and> bs_backend b \<in> granted l"

definition handler_ok :: "'m conn_auth \<Rightarrow> ('w \<times> 'be access list, 'm, 'be) handler \<times> 'w \<times> 'be access list \<Rightarrow> bool" where
  "handler_ok a y \<longleftrightarrow> guarded (own_request a) (snd (snd y)) \<and> mh_auth (fst y) = Some a \<and>
     (\<forall>b. mh_session (fst y) = Some b \<longrightarrow> bound_ok (snd (snd y)) b) \<and>
     (\<forall>be. mh_unopened (fst y) = Some (Retry be) \<longrightarrow> be \<in> granted (snd (snd y)))"

lemma bound_ok_tidy: "tidy mine (granted l) y \<Longrightarrow> bound_ok l b \<Longrightarrow> bound_ok (snd y) b"
  by (auto simp: tidy_def bound_ok_def)

lemma handler_ok_tidy:
  assumes "handler_ok a (h, y)" and "tidy (own_request a) (granted (snd y)) y'" and "mh_auth h' = mh_auth h"
    and "\<And>b. mh_session h' = Some b \<Longrightarrow> bound_ok (snd y) b"
    and "\<And>be. mh_unopened h' = Some (Retry be) \<Longrightarrow> be \<in> granted (snd y)"
  shows "handler_ok a (h', y')"
  using assms bound_ok_tidy [OF assms(2)] by (auto simp: handler_ok_def tidy_def)

lemma handler_okD:
  assumes "handler_ok a (h, y)"
  shows "tidy (own_request a) (granted (snd y)) y" "mh_auth h = Some a"
    "\<And>b. mh_session h = Some b \<Longrightarrow> bound_ok (snd y) b" "\<And>be. mh_unopened h = Some (Retry be) \<Longrightarrow> be \<in> granted (snd y)"
  using assms by (simp_all add: handler_ok_def tidy_def)

lemma handler_ok_same:
  assumes "handler_ok a (h, y)" and "mh_auth h' = mh_auth h" and "mh_session h' = mh_session h" and "mh_unopened h' = mh_unopened h"
  shows "handler_ok a (h', y)"
  using assms by (simp add: handler_ok_def)

lemma open_tenant_tidy:
  assumes "open_tenant_session (recorded env) be tc y = (r, y')" and "tidy mine G y" and "be \<in> G"
  shows "tidy mine G y'" "\<And>b. r = Inr b \<Longrightarrow> bs_screened b \<and> bs_backend b = be"
proof -
  obtain q y1 where q: "noting (Opened be) (me_connect env be) y = (q, y1)"
    by (cases "noting (Opened be) (me_connect env be) y")
  have "allowed mine (granted (snd y)) (Opened be)" using assms(2,3) by (auto simp: tidy_def)
  with q have t: "tidy mine G y1" by (intro tidy_noting [OF q assms(2)])
  have "y' = y1" and "\<And>b. r = Inr b \<Longrightarrow> bs_screened b \<and> bs_backend b = be"
    using assms(1) q by (auto simp: open_tenant_session_def recorded_def split: sum.splits)
  with t show "tidy mine G y'" "\<And>b. r = Inr b \<Longrightarrow> bs_screened b \<and> bs_backend b = be" by auto
qed

lemma recorded_authenticate:
  "me_authenticate (recorded env) req y = (case me_authenticate env req (fst y) of (r, w) \<Rightarrow> (r, w, snd y @ [Asked req r]))"
  by (simp add: recorded_def)

lemma authenticate_ok:
  assumes "handler_ok a (h, y)" and "authenticate (recorded env) plugin username (handler_salt h) data h y = (r, h', y')"
  shows "handler_ok a (h', y')"
proof -
  note ok = handler_okD [OF assms(1)]
  define req where "req = \<lparr>auth_plugin = plugin, auth_username = username, auth_salt = handler_salt h, auth_response = data,
    auth_local_addr = ca_local_addr a, auth_peer_addr = ca_peer_addr a\<rparr>"
  obtain out w1 where out: "me_authenticate env req (fst y) = (out, w1)" by force
  let ?l = "snd y @ [Asked req out]"
  have own: "own_request a req" using ok(2) by (simp add: req_def own_request_def handler_salt_def)
  have ok1: "handler_ok a (h, w1, ?l)"
    using assms(1) own by (auto simp: handler_ok_def bound_ok_def)
  have unf: "authenticate (recorded env) plugin username (handler_salt h) data h y =
      (case (out, w1, ?l) of
         (Denied, w1) \<Rightarrow> (False, h, w1)
       | (Unavailable reason, w1) \<Rightarrow>
           (True, (if mh_unopened h = None then h\<lparr>mh_unopened := Some (NotAvailable (database_unavailable reason))\<rparr> else h), w1)
       | (Granted be, w1) \<Rightarrow>
           (case open_tenant_session (recorded env) be (ca_cache a) w1 of
              (Inl e, w2) \<Rightarrow> (True, (if mh_unopened h = None then h\<lparr>mh_unopened := Some (Retry be)\<rparr> else h), w2)
            | (Inr b, w2) \<Rightarrow> if mh_session h = None then (True, h\<lparr>mh_session := Some b\<rparr>, w2) else (False, h, w2)))"
    using out by (simp add: authenticate_def ok(2) recorded_authenticate flip: req_def)
  show ?thesis
  proof (cases out)
    case (Granted be)
    obtain q y2 where q: "open_tenant_session (recorded env) be (ca_cache a) (w1, ?l) = (q, y2)"
      by (cases "open_tenant_session (recorded env) be (ca_cache a) (w1, ?l)")
    have be: "be \<in> granted (snd (w1, ?l))" using Granted by simp
    note opened = open_tenant_tidy [OF q handler_okD(1) [OF ok1] be]
    show ?thesis
      by (rule handler_ok_tidy [OF ok1]) (use assms(2) unf q opened be handler_okD [OF ok1] Granted in \<open>auto simp: bound_ok_def split: sum.splits if_splits\<close>)
  qed (use assms(2) unf ok1 in \<open>auto simp: handler_ok_def split: if_splits\<close>)
qed

section \<open>Every command keeps it\<close>

lemma in_session_bound:
  assumes "in_session (recorded env) act b y = (r, b', y')" and "bound_ok l b" and "tidy mine (granted l) y"
    and "\<And>e be api G. be \<in> G \<Longrightarrow> es_conn e = screened_conn (recorded_conn be api) \<Longrightarrow> keeps_tidy mine G (act e)"
  shows "tidy mine (granted l) y'" "bound_ok l b'"
proof -
  have b: "bs_screened b" "bs_backend b \<in> granted l" and l: "granted l \<subseteq> granted (snd y)" "guarded mine (snd y)"
    using assms(2,3) by (auto simp: bound_ok_def tidy_def)
  then have "tidy mine (granted (snd y)) y' \<and> bs_screened b' \<and> bs_backend b' = bs_backend b"
    using assms(4) by (intro in_session_tidy [OF assms(1)]) auto
  with b l show "tidy mine (granted l) y'" "bound_ok l b'" by (auto simp: bound_ok_def tidy_def)
qed

lemma reset_session_ok:
  assumes "reset_session (recorded env) b y = (r, b', y')" and "bound_ok l b" and "tidy mine (granted l) y"
  shows "tidy mine (granted l) y' \<and> bound_ok l b'"
proof -
  obtain q1 b1 y1 where q1: "in_session (recorded env) (\<lambda>e. query e ''ROLLBACK'' []) b y = (q1, b1, y1)" by (metis prod_cases3)
  obtain q2 b2 y2 where q2: "in_session (recorded env) release_user_locks b y = (q2, b2, y2)" by (metis prod_cases3)
  define b3 where "b3 = b1\<lparr>bs_session := (bs_session b1)\<lparr>in_transaction := False\<rparr>\<rparr>"
  obtain q4 b4 y4 where q4: "in_session (recorded env) release_user_locks b3 y1 = (q4, b4, y4)" by (metis prod_cases3)
  have t1: "tidy mine (granted l) y1" "bound_ok l b1"
    by (rule in_session_bound [OF q1 assms(2,3) session_keeps_tidy(1)]; assumption)+
  have t2: "tidy mine (granted l) y2" "bound_ok l b2"
    by (rule in_session_bound [OF q2 assms(2,3) session_keeps_tidy(3)]; assumption)+
  have b3: "bound_ok l b3" using t1(2) by (simp add: b3_def bound_ok_def)
  have t4: "tidy mine (granted l) y4" "bound_ok l b4"
    by (rule in_session_bound [OF q4 b3 t1(1) session_keeps_tidy(3)]; assumption)+
  show ?thesis
    using assms(1) q1 q2 q4 t1 t2 t4 b3 assms(2,3) unfolding reset_session_def
    by (auto simp: Let_def simp flip: b3_def split: if_splits)
qed

lemma apply_pending_reset_ok:
  assumes "handler_ok a (h, y)" and "apply_pending_reset (recorded env) h y = (r, h', y')"
  shows "handler_ok a (h', y')"
proof (cases "mh_session h")
  case None
  with assms show ?thesis by (auto simp: apply_pending_reset_def Let_def handler_ok_def split: if_splits)
next
  case (Some b)
  note ok = handler_okD [OF assms(1)]
  obtain q b1 y1 where q: "reset_session (recorded env) b y = (q, b1, y1)" by (metis prod_cases3)
  have t: "tidy (own_request a) (granted (snd y)) y1 \<and> bound_ok (snd y) b1"
    using reset_session_ok [OF q ok(3) [OF Some] ok(1)] .
  show ?thesis
  proof (cases "mh_reset_pending h")
    case True
    then show ?thesis
      by (intro handler_ok_tidy [OF assms(1)]) (use assms(2) q t Some ok in \<open>auto simp: apply_pending_reset_def Let_def\<close>)
  qed (use assms in \<open>simp add: apply_pending_reset_def\<close>)
qed

lemma ensure_session_ok:
  assumes "handler_ok a (h, y)" and "ensure_session (recorded env) h y = (r, h', y')"
  shows "handler_ok a (h', y')" "\<And>b. r = Inr b \<Longrightarrow> bound_ok (snd y') b"
proof -
  note ok = handler_okD [OF assms(1)]
  have "handler_ok a (h', y') \<and> (\<forall>b. r = Inr b \<longrightarrow> bound_ok (snd y') b)"
  proof (cases "mh_session h = None \<and> (\<exists>be. mh_unopened h = Some (Retry be))")
    case True
    then obtain be where s: "mh_session h = None" "mh_unopened h = Some (Retry be)" by blast
    obtain q y1 where q: "open_tenant_session (recorded env) be (ca_cache a) y = (q, y1)"
      by (cases "open_tenant_session (recorded env) be (ca_cache a) y")
    note opened = open_tenant_tidy [OF q ok(1) ok(4) [OF s(2)]]
    have "handler_ok a (h', y')"
      by (rule handler_ok_tidy [OF assms(1), of y'])
        (use assms(2) q opened s ok in \<open>auto simp: ensure_session_def Let_def bound_ok_def split: sum.splits\<close>)
    moreover have "mh_session h' = Some b" if "r = Inr b" for b
      using that assms(2) q s ok(2) by (auto simp: ensure_session_def Let_def split: sum.splits)
    ultimately show ?thesis using handler_okD(3) by blast
  next
    case False
    then have "h' = h \<and> y' = y \<and> (\<forall>b. r = Inr b \<longrightarrow> mh_session h = Some b)"
      using assms(2) by (auto simp: ensure_session_def Let_def split: option.splits unopened.splits)
    with assms(1) ok(3) show ?thesis by blast
  qed
  then show "handler_ok a (h', y')" "\<And>b. r = Inr b \<Longrightarrow> bound_ok (snd y') b" by auto
qed

lemma with_session_ok:
  assumes "handler_ok a (h, y)" and "with_session (recorded env) command h y = (r, h', y')"
    and "\<And>b h y r h' y'. handler_ok a (h, y) \<Longrightarrow> bound_ok (snd y) b \<Longrightarrow> command b h y = (r, h', y') \<Longrightarrow> handler_ok a (h', y')"
  shows "handler_ok a (h', y')"
proof -
  obtain q1 h1 y1 where q1: "apply_pending_reset (recorded env) h y = (q1, h1, y1)" by (metis prod_cases3)
  obtain q2 h2 y2 where q2: "ensure_session (recorded env) h1 y1 = (q2, h2, y2)" by (metis prod_cases3)
  note ok1 = apply_pending_reset_ok [OF assms(1) q1]
  note ok2 = ensure_session_ok [OF ok1 q2]
  show ?thesis
    using assms(2) q1 q2 ok1 ok2 assms(3) by (auto simp: with_session_def split: rust_result.splits sum.splits)
qed

text \<open>A command that runs the session once and puts it back.\<close>

lemma handler_ok_put:
  assumes "handler_ok a (h, y)" and "tidy (own_request a) (granted (snd y)) y'" and "bound_ok (snd y) b"
    and "mh_auth h' = mh_auth h" and "mh_unopened h' = mh_unopened h" and "mh_session h' = Some b"
  shows "handler_ok a (h', y')"
  using assms handler_okD [OF assms(1)] by (intro handler_ok_tidy [OF assms(1,2)]) auto

lemma query_command_ok:
  assumes "handler_ok a (h, y)" and "bound_ok (snd y) b" and "query_command (recorded env) sql b h y = (r, h', y')"
  shows "handler_ok a (h', y')"
proof -
  obtain q b1 y1 where q: "in_session (recorded env) (\<lambda>e. query e sql []) b y = (q, b1, y1)" by (metis prod_cases3)
  have t: "tidy (own_request a) (granted (snd y)) y1" "bound_ok (snd y) b1"
    by (rule in_session_bound [OF q assms(2) handler_okD(1) [OF assms(1)] session_keeps_tidy(1)]; assumption)+
  show ?thesis
    by (rule handler_ok_put [OF assms(1) _ t(2)]) (use assms(3) q t in \<open>auto simp: query_command_def\<close>)
qed

lemma execute_command_ok:
  assumes "handler_ok a (h, y)" and "bound_ok (snd y) b" and "execute_command (recorded env) sid params b h y = (r, h', y')"
  shows "handler_ok a (h', y')"
proof (cases "map_of (mh_stmts h) sid")
  case None
  with assms(1,3) show ?thesis by (simp add: execute_command_def)
next
  case (Some p)
  obtain q b1 y1 where q: "in_session (recorded env) (\<lambda>e. execute_prepared e p (map param_to_value params)) b y = (q, b1, y1)"
    by (metis prod_cases3)
  have t: "tidy (own_request a) (granted (snd y)) y1" "bound_ok (snd y) b1"
    by (rule in_session_bound [OF q assms(2) handler_okD(1) [OF assms(1)] session_keeps_tidy(2)]; assumption)+
  show ?thesis
    by (rule handler_ok_put [OF assms(1) _ t(2)]) (use assms(3) q t Some in \<open>auto simp: execute_command_def\<close>)
qed

lemma result_columns_tidy:
  assumes "result_columns (recorded env) b p y = (cols, y')" and "bound_ok l b" and "tidy mine (granted l) y"
  shows "tidy mine (granted l) y'"
proof -
  obtain q y1 where q: "bound_describe (recorded env) b (sqlite_sql p) y = (q, y1)"
    by (cases "bound_describe (recorded env) b (sqlite_sql p) y")
  then have "screened_call (\<lambda>sql _. noting (Described (bs_backend b) sql) (me_describe env (bs_backend b) (bs_conn b) sql)) (sqlite_sql p) () y = (q, y1)"
    using assms(2) by (simp add: bound_describe_def bound_ok_def recorded_def)
  from tidy_screened [OF this assms(3)] have "tidy mine (granted l) y1"
    using assms(2,3) by (auto simp: bound_ok_def tidy_def)
  with assms(1,3) q show ?thesis by (auto simp: result_columns_def split: if_splits sum.splits)
qed

lemma prepare_command_ok:
  assumes "handler_ok a (h, y)" and "bound_ok (snd y) b" and "prepare_command (recorded env) sql b h y = (r, h', y')"
  shows "handler_ok a (h', y')"
proof -
  obtain q b1 y1 where q: "in_session (recorded env) (\<lambda>e. prepare e sql) b y = (q, b1, y1)" by (metis prod_cases3)
  have t: "tidy (own_request a) (granted (snd y)) y1" "bound_ok (snd y) b1"
    by (rule in_session_bound [OF q assms(2) handler_okD(1) [OF assms(1)] session_prepare_tidy])+
  have c: "tidy (own_request a) (granted (snd y)) (snd (result_columns (recorded env) b1 p y1))" for p
    by (rule result_columns_tidy [OF prod.collapse [symmetric] t(2,1)])
  show ?thesis
  proof (cases q)
    case (Fine p)
    show ?thesis
      by (rule handler_ok_put [OF assms(1) _ t(2)])
        (use assms(3) q c [of p] Fine in \<open>auto simp: prepare_command_def store_statement_def split: prod.splits if_splits\<close>)
  qed (rule handler_ok_put [OF assms(1) _ t(2)], use assms(3) q t in \<open>auto simp: prepare_command_def\<close>)+
qed

lemma run_event_ok:
  assumes "handler_ok a (h, y)" and "run_event (recorded env) ev (h, y) = (r, h', y')"
  shows "handler_ok a (h', y')"
proof (cases ev)
  case (AuthCmd plugin username data)
  with assms(2) obtain q where "authenticate (recorded env) plugin username (handler_salt h) data h y = (q, h', y')"
    by (auto simp: apfst_def map_prod_def split: prod.splits)
  from authenticate_ok [OF assms(1) this] show ?thesis .
next
  case (QueryCmd sql)
  with assms(2) obtain q where "with_session (recorded env) (query_command (recorded env) sql) h y = (q, h', y')"
    by (auto simp: on_query_def apfst_def map_prod_def split: prod.splits)
  from with_session_ok [OF assms(1) this query_command_ok] show ?thesis .
next
  case (PrepareCmd sql)
  with assms(2) obtain q where "with_session (recorded env) (prepare_command (recorded env) sql) h y = (q, h', y')"
    by (auto simp: on_prepare_def apfst_def map_prod_def split: prod.splits)
  from with_session_ok [OF assms(1) this prepare_command_ok] show ?thesis .
next
  case (ExecuteCmd sid params)
  with assms(2) obtain q where "with_session (recorded env) (execute_command (recorded env) sid params) h y = (q, h', y')"
    by (auto simp: on_execute_def apfst_def map_prod_def split: prod.splits)
  from with_session_ok [OF assms(1) this execute_command_ok] show ?thesis .
next
  case (CloseCmd sid)
  obtain q h1 y1 where q: "apply_pending_reset (recorded env) h y = (q, h1, y1)" by (metis prod_cases3)
  from apply_pending_reset_ok [OF assms(1) q] show ?thesis
    using CloseCmd assms(2) q by (cases q) (auto simp: on_close_def handler_ok_def)
next
  case (InitCmd schema)
  with assms(2) obtain q where "with_session (recorded env) (\<lambda>b h w. (Returns InitOk, h, w)) h y = (q, h', y')"
    by (auto simp: on_init_def apfst_def map_prod_def split: prod.splits)
  from with_session_ok [OF assms(1) this] show ?thesis by auto
next
  case ResetCmd
  with assms show ?thesis by (auto simp: handler_ok_def)
qed

lemma run_events_ok:
  "handler_ok a y \<Longrightarrow> handler_ok a (snd (run_events (recorded env) es y))"
proof (induction es arbitrary: y)
  case (Cons ev es)
  obtain r h' y' where r: "run_event (recorded env) ev y = (r, h', y')" by (metis prod_cases3)
  have "handler_ok a (h', y')" using run_event_ok [of a "fst y" "snd y" env ev] Cons.prems r by simp
  with Cons.IH r show ?case by (cases r) auto
qed simp

text \<open>
  Property C5 (an authenticating connection stays with its tenant). Whatever the authenticator, the backends and
  the client do, on a connection opened with authentication: the authenticator is asked only about this connection's
  own addresses and its own challenge; a backend is opened, queried, described or asked for locks only after
  the authenticator granted it; and every text that reaches it has passed the tenant screen.
\<close>

theorem tenant_boundary:
  "let (replies, h, w, accesses) = run_events (recorded env) events (new_authenticating tc local_addr peer_addr raw, w0, []) in
   guarded (\<lambda>r. auth_local_addr r = local_addr \<and> auth_peer_addr r = peer_addr \<and> auth_salt r = random_scramble raw) accesses"
proof -
  define a where "a = \<lparr>ca_cache = tc, ca_local_addr = local_addr, ca_peer_addr = peer_addr, ca_scramble = random_scramble raw\<rparr>"
  have "own_request a = (\<lambda>r. auth_local_addr r = local_addr \<and> auth_peer_addr r = peer_addr \<and> auth_salt r = random_scramble raw)"
    by (auto simp: own_request_def a_def)
  moreover have "handler_ok a (new_authenticating tc local_addr peer_addr raw, w0, [])"
    by (simp add: handler_ok_def new_authenticating_def a_def)
  from run_events_ok [OF this, of env events] have "handler_ok a (snd (run_events (recorded env) events (new_authenticating tc local_addr peer_addr raw, w0, [])))" .
  ultimately show ?thesis by (auto simp: handler_ok_def split: prod.split)
qed


section \<open>A connection that was never granted a backend\<close>

fun refusal :: "mysql_event \<Rightarrow> event_reply \<Rightarrow> bool" where
  "refusal (AuthCmd plugin username data) r = (r = Accepted False)"
| "refusal (CloseCmd sid) r = (r = NoReply)"
| "refusal ResetCmd r = (r = NoReply)"
| "refusal ev r = (r = Reply (ErrPacket 1045 NOT_AUTHENTICATED))"

fun is_asked :: "'be access \<Rightarrow> bool" where
  "is_asked (Asked req out) = True"
| "is_asked a = False"

definition locked_out :: "('w \<times> 'be access list, 'm, 'be) handler \<times> 'w \<times> 'be access list \<Rightarrow> bool" where
  "locked_out y \<longleftrightarrow> mh_session (fst y) = None \<and> mh_unopened (fst y) = None \<and> mh_auth (fst y) \<noteq> None \<and> list_all is_asked (snd (snd y))"

lemma locked_out_commands:
  assumes "locked_out (h, y)"
  shows "apply_pending_reset env h y = (Returns (), (if mh_reset_pending h then h\<lparr>mh_reset_pending := False, mh_stmts := []\<rparr> else h), y)"
    and "with_session env command h y =
      (Returns (ErrPacket 1045 NOT_AUTHENTICATED), (if mh_reset_pending h then h\<lparr>mh_reset_pending := False, mh_stmts := []\<rparr> else h), y)"
  using assms by (simp_all add: locked_out_def apply_pending_reset_def with_session_def ensure_session_def Let_def ER_ACCESS_DENIED_ERROR_def)

lemma locked_out_event:
  assumes "locked_out (h, y)" and "\<And>req w. fst (me_authenticate env req w) = Denied"
  shows "refusal ev (fst (run_event (recorded env) ev (h, y)))" "locked_out (snd (run_event (recorded env) ev (h, y)))"
proof -
  note c = locked_out_commands [OF assms(1)]
  obtain a where a: "mh_auth h = Some a" using assms(1) by (auto simp: locked_out_def)
  have q: "\<exists>w. me_authenticate env req (fst y) = (Denied, w)" for req using assms(2) by (metis prod.collapse)
  have "refusal ev (fst (run_event (recorded env) ev (h, y))) \<and> locked_out (snd (run_event (recorded env) ev (h, y)))"
  proof (cases ev)
    case (AuthCmd plugin username data)
    obtain w where "me_authenticate env \<lparr>auth_plugin = plugin, auth_username = username, auth_salt = handler_salt h,
        auth_response = data, auth_local_addr = ca_local_addr a, auth_peer_addr = ca_peer_addr a\<rparr> (fst y) = (Denied, w)"
      using q by blast
    with AuthCmd a assms(1) show ?thesis by (simp add: authenticate_def recorded_authenticate locked_out_def)
  qed (use assms(1) in \<open>auto simp: c on_query_def on_prepare_def on_execute_def on_close_def on_init_def locked_out_def\<close>)
  then show "refusal ev (fst (run_event (recorded env) ev (h, y)))" "locked_out (snd (run_event (recorded env) ev (h, y)))" by auto
qed

lemma locked_out_events:
  assumes "locked_out y" and "\<And>req w. fst (me_authenticate env req w) = Denied"
  shows "list_all2 refusal events (fst (run_events (recorded env) events y)) \<and> locked_out (snd (run_events (recorded env) events y))"
  using assms(1)
proof (induction events arbitrary: y)
  case (Cons ev events)
  note e = locked_out_event [of "fst y" "snd y" env ev, simplified, OF Cons.prems assms(2)]
  obtain r y1 where r: "run_event (recorded env) ev y = (r, y1)" by (cases "run_event (recorded env) ev y")
  moreover have "r \<noteq> Died" using e(1) r by (cases ev) auto
  ultimately have "run_events (recorded env) (ev # events) y = apfst (\<lambda>rs. r # rs) (run_events (recorded env) events y1)"
    by (cases r) auto
  with Cons.IH [of y1] e r show ?case by simp
qed (use assms in simp)

text \<open>
  Property C36 (without a granted backend every command is refused). While the authenticator answers
  \<^verbatim>\<open>Denied\<close> to every handshake of a connection, every command of it that expects an answer gets error 1045, the handshakes are
  not accepted, and no backend is opened or used.
\<close>

theorem unauthenticated_refused:
  assumes "\<And>req w. fst (me_authenticate env req w) = Denied"
  shows "let (replies, h, w, accesses) = run_events (recorded env) events (new_authenticating tc local_addr peer_addr raw, w0, []) in
    list_all2 refusal events replies \<and> list_all is_asked accesses"
proof -
  have "locked_out (new_authenticating tc local_addr peer_addr raw, w0, [])" by (simp add: locked_out_def new_authenticating_def)
  from locked_out_events [OF this assms, of events] show ?thesis by (auto simp: locked_out_def split: prod.split)
qed

section \<open>Prepared statements\<close>

lemma reset_not_pending: "\<not> mh_reset_pending h \<Longrightarrow> apply_pending_reset env h w = (Returns (), h, w)"
  by (simp add: apply_pending_reset_def)

lemma reset_clears: "apply_pending_reset env h w = (r, h1, w1) \<Longrightarrow> \<not> mh_reset_pending h1"
  by (auto simp: apply_pending_reset_def Let_def split: if_splits option.splits prod.splits)

text \<open>What an event may do to the table: nothing, an entry under the next id, or one removal.\<close>

definition table_step :: "('w, 'm, 'be) handler \<Rightarrow> ('w, 'm, 'be) handler \<Rightarrow> bool" where
  "table_step h h' \<longleftrightarrow> mh_reset_pending h' = mh_reset_pending h \<and> mh_next_stmt_id h' = mh_next_stmt_id h \<and> mh_stmts h' = mh_stmts h \<or>
     mh_reset_pending h' = mh_reset_pending h \<and> mh_next_stmt_id h' = mh_next_stmt_id h + 1 \<and> length (mh_stmts h) < MAX_PREPARED_STMTS_PER_CONN \<and>
     (\<exists>p. mh_stmts h' = AList.update (mh_next_stmt_id h) p (mh_stmts h))"

lemma table_step_refl: "table_step h h"
  by (simp add: table_step_def)

lemma ensure_session_table:
  assumes "ensure_session env h w = (r, h', w')"
  shows "mh_reset_pending h' = mh_reset_pending h" "mh_next_stmt_id h' = mh_next_stmt_id h" "mh_stmts h' = mh_stmts h"
  using assms by (auto simp: ensure_session_def Let_def split: option.splits unopened.splits prod.splits sum.splits)

lemma commands_table:
  "query_command env sql b h w = (r, h', w') \<Longrightarrow> table_step h h'"
  "execute_command env sid params b h w = (r, h', w') \<Longrightarrow> table_step h h'"
  "prepare_command env sql b h w = (r, h', w') \<Longrightarrow> table_step h h'"
  by (auto simp: query_command_def execute_command_def prepare_command_def store_statement_def table_step_def not_le
      split: prod.splits option.splits outcome.splits if_splits)

lemma with_session_table:
  assumes "with_session env command h w = (r, h', w')" and "apply_pending_reset env h w = (q, h1, w1)"
    and "\<And>b h w r h' w'. command b h w = (r, h', w') \<Longrightarrow> table_step h h'"
  shows "table_step h1 h'"
proof -
  obtain q2 h2 w2 where q2: "ensure_session env h1 w1 = (q2, h2, w2)" by (metis prod_cases3)
  note e = ensure_session_table [OF q2]
  have "h' = h1 \<or> h' = h2 \<or> table_step h2 h'"
    using assms q2 by (auto simp: with_session_def split: rust_result.splits sum.splits)
  then show ?thesis using e by (auto simp: table_step_def)
qed

lemma run_event_table:
  assumes "run_event env ev (h, w) = (r, h', w')" and "\<And>sid. ev \<noteq> CloseCmd sid" and "ev \<noteq> ResetCmd"
    and "\<And>a b c. ev \<noteq> AuthCmd a b c" and "apply_pending_reset env h w = (q, h1, w1)"
  shows "table_step h1 h'"
proof -
  have "\<exists>r command. with_session env command h w = (r, h', w') \<and> (\<forall>b h w r h' w'. command b h w = (r, h', w') \<longrightarrow> table_step h h')"
  proof (cases ev)
    case (QueryCmd sql)
    with assms(1) have "\<exists>r. with_session env (query_command env sql) h w = (r, h', w')"
      by (auto simp: on_query_def apfst_def map_prod_def split: prod.splits)
    then show ?thesis by (blast intro: commands_table(1))
  next
    case (PrepareCmd sql)
    with assms(1) have "\<exists>r. with_session env (prepare_command env sql) h w = (r, h', w')"
      by (auto simp: on_prepare_def apfst_def map_prod_def split: prod.splits)
    then show ?thesis by (blast intro: commands_table(3))
  next
    case (ExecuteCmd sid params)
    with assms(1) have "\<exists>r. with_session env (execute_command env sid params) h w = (r, h', w')"
      by (auto simp: on_execute_def apfst_def map_prod_def split: prod.splits)
    then show ?thesis by (blast intro: commands_table(2))
  next
    case (InitCmd schema)
    with assms(1) have "\<exists>r. with_session env (\<lambda>b h w. (Returns InitOk, h, w)) h w = (r, h', w')"
      by (auto simp: on_init_def apfst_def map_prod_def split: prod.splits)
    then show ?thesis by (blast intro: table_step_refl)
  qed (use assms(2-4) in simp_all)
  then show ?thesis using with_session_table [OF _ assms(5)] by blast
qed

lemma authenticate_table:
  assumes "authenticate env plugin username salt data h w = (r, h', w')"
  shows "table_step h h'"
  using assms by (auto simp: authenticate_def table_step_def split: option.splits prod.splits auth_outcome.splits sum.splits if_splits)

text \<open>A statement survives every event but its own close and a reset.\<close>

lemma event_keeps_statement:
  assumes "run_event env ev (h, w) = (r, h', w')" and "ev \<noteq> CloseCmd sid" and "ev \<noteq> ResetCmd" and "\<not> mh_reset_pending h"
  shows "\<not> mh_reset_pending h'"
    and "mh_next_stmt_id h' = mh_next_stmt_id h \<and> map_of (mh_stmts h') sid = map_of (mh_stmts h) sid \<or>
         mh_next_stmt_id h' = mh_next_stmt_id h + 1 \<and> (sid \<noteq> mh_next_stmt_id h \<longrightarrow> map_of (mh_stmts h') sid = map_of (mh_stmts h) sid)"
proof -
  note np = reset_not_pending [OF assms(4)]
  have step: "\<not> mh_reset_pending h' \<and>
      (mh_next_stmt_id h' = mh_next_stmt_id h \<and> map_of (mh_stmts h') sid = map_of (mh_stmts h) sid \<or>
       mh_next_stmt_id h' = mh_next_stmt_id h + 1 \<and> (sid \<noteq> mh_next_stmt_id h \<longrightarrow> map_of (mh_stmts h') sid = map_of (mh_stmts h) sid))"
    if "table_step h h'"
    using that assms(4) by (auto simp: table_step_def update_conv')
  have "\<not> mh_reset_pending h' \<and>
      (mh_next_stmt_id h' = mh_next_stmt_id h \<and> map_of (mh_stmts h') sid = map_of (mh_stmts h) sid \<or>
       mh_next_stmt_id h' = mh_next_stmt_id h + 1 \<and> (sid \<noteq> mh_next_stmt_id h \<longrightarrow> map_of (mh_stmts h') sid = map_of (mh_stmts h) sid))"
  proof (cases ev)
    case (CloseCmd k)
    with assms show ?thesis by (auto simp: np on_close_def delete_conv')
  next
    case (AuthCmd plugin username data)
    with assms(1) obtain q where "authenticate env plugin username (handler_salt h) data h w = (q, h', w')"
      by (auto simp: apfst_def map_prod_def split: prod.splits)
    from step [OF authenticate_table [OF this]] show ?thesis .
  next
    case ResetCmd
    with assms(3) show ?thesis by simp
  qed (rule step, rule run_event_table [OF assms(1) _ assms(3) _ np], simp_all)+
  then show "\<not> mh_reset_pending h'"
    and "mh_next_stmt_id h' = mh_next_stmt_id h \<and> map_of (mh_stmts h') sid = map_of (mh_stmts h) sid \<or>
         mh_next_stmt_id h' = mh_next_stmt_id h + 1 \<and> (sid \<noteq> mh_next_stmt_id h \<longrightarrow> map_of (mh_stmts h') sid = map_of (mh_stmts h) sid)"
    by simp_all
qed

lemma fresh_id: "k + 1 < 2 ^ 32 \<Longrightarrow> (sid :: 32 word) \<noteq> sid + 1 + of_nat k"
proof
  assume k: "k + 1 < 2 ^ 32" and "sid = sid + 1 + of_nat k"
  then have "of_nat (k + 1) = (0 :: 32 word)" by (simp add: add.assoc)
  then have "2 ^ 32 dvd k + 1" by (simp only: word_of_nat_eq_0_iff) simp
  with k show False by (auto dest: dvd_imp_le)
qed

lemma events_keep_statement:
  assumes "length es + k < 2 ^ 32" and "\<And>ev. ev \<in> set es \<Longrightarrow> ev \<noteq> CloseCmd sid \<and> ev \<noteq> ResetCmd" and "\<not> mh_reset_pending h"
    and "mh_next_stmt_id h = sid + 1 + of_nat k" and "run_events env es (h, w) = (rs, h', w')"
  shows "map_of (mh_stmts h') sid = map_of (mh_stmts h) sid"
  using assms
proof (induction es arbitrary: k h w rs)
  case (Cons ev es)
  obtain r h1 w1 where r: "run_event env ev (h, w) = (r, h1, w1)" by (metis prod_cases3)
  have ev: "ev \<noteq> CloseCmd sid" "ev \<noteq> ResetCmd" using Cons.prems(2) by auto
  note e = event_keeps_statement [OF r ev Cons.prems(3)]
  have "k + 1 < 2 ^ 32" using Cons.prems(1) by simp
  then have same: "map_of (mh_stmts h1) sid = map_of (mh_stmts h) sid" using e(2) fresh_id [of k sid] Cons.prems(4) by auto
  show ?case
  proof (cases "r = Died")
    case True
    then show ?thesis using Cons.prems(5) r same by simp
  next
    case False
    then obtain rs1 where rest: "run_events env es (h1, w1) = (rs1, h', w')"
      using Cons.prems(5) r by (cases r) (auto simp: apfst_def map_prod_def split: prod.splits)
    obtain j where "j \<le> 1" and j: "mh_next_stmt_id h1 = sid + 1 + of_nat (k + j)"
      using e(2) Cons.prems(4) that [of 0] that [of 1] by (auto simp: add.assoc add.commute)
    have "length es + (k + j) < 2 ^ 32" using \<open>j \<le> 1\<close> Cons.prems(1) by simp
    from Cons.IH [OF this _ e(1) j rest] Cons.prems(2) same show ?thesis by simp
  qed
qed simp


lemma events_keep_unreset:
  assumes "\<And>ev. ev \<in> set es \<Longrightarrow> ev \<noteq> ResetCmd" and "\<not> mh_reset_pending h" and "run_events env es (h, w) = (rs, h', w')"
  shows "\<not> mh_reset_pending h'"
  using assms
proof (induction es arbitrary: h w rs)
  case (Cons ev es)
  obtain r h1 w1 where r: "run_event env ev (h, w) = (r, h1, w1)" by (metis prod_cases3)
  obtain sid where "ev \<noteq> CloseCmd sid" by (metis mysql_event.inject(5) zero_neq_one)
  from event_keeps_statement(1) [OF r this] Cons.prems(1,2) have "\<not> mh_reset_pending h1" by simp
  with Cons.IH [of h1 w1] Cons.prems(1,3) r show ?case by (cases r) (auto simp: apfst_def map_prod_def split: prod.splits)
qed simp

text \<open>What a successful \<^verbatim>\<open>COM_STMT_PREPARE\<close> leaves.\<close>

lemma prepare_stores:
  assumes "run_event env (PrepareCmd sql) (h, w) = (Reply (StmtPrepared sid ps cols), h1, w1)"
  obtains p b w2 where "fst (in_session env (\<lambda>e. prepare e sql) b w2) = Fine p" "map_of (mh_stmts h1) sid = Some p"
    "mh_next_stmt_id h1 = sid + 1" "\<not> mh_reset_pending h1" "length ps = param_count p"
proof -
  obtain q h2 w2 where q: "apply_pending_reset env h w = (q, h2, w2)" by (metis prod_cases3)
  note np = reset_clears [OF q]
  obtain q3 h3 w3 where e: "ensure_session env h2 w2 = (q3, h3, w3)" by (metis prod_cases3)
  note table = ensure_session_table [OF e]
  have run: "on_prepare env sql h w = (Returns (StmtPrepared sid ps cols), h1, w1)"
    using assms by (cases "on_prepare env sql h w") (auto elim!: reply_of.elims)
  have "\<And>m. q3 = Inl m \<Longrightarrow> \<exists>c t. m = ErrPacket c t"
    using e by (auto simp: ensure_session_def Let_def split: option.splits unopened.splits prod.splits sum.splits)
  then obtain b where b: "prepare_command env sql b h3 w3 = (Returns (StmtPrepared sid ps cols), h1, w1)"
    using run q e by (auto simp: on_prepare_def with_session_def split: rust_result.splits sum.splits)
  obtain r b1 w4 where r: "in_session env (\<lambda>e. prepare e sql) b w3 = (r, b1, w4)" by (metis prod_cases3)
  then obtain p where p: "r = Fine p" using b by (cases r) (auto simp: prepare_command_def)
  have "fst (in_session env (\<lambda>e. prepare e sql) b w3) = Fine p" using r p by simp
  moreover have "map_of (mh_stmts h1) sid = Some p" "mh_next_stmt_id h1 = sid + 1" "\<not> mh_reset_pending h1" "length ps = param_count p"
    using b r p np table by (auto simp: prepare_command_def store_statement_def update_conv' split: prod.splits if_splits)
  ultimately show thesis by (rule that)
qed

text \<open>
  Property C37 (a prepared statement is what its id runs). After a statement was prepared under an id, and until that id is
  closed or the connection is reset, fewer than $2^{32}$ commands later, executing the id runs exactly the statement that was
  prepared, with the parameters sent: neither another prepare nor another close disturbs it, and the id is not given out again.
\<close>

theorem prepared_statement_found:
  assumes "run_event env (PrepareCmd sql) (h, w) = (Reply (StmtPrepared sid ps cols), h1, w1)"
    and "run_events env events (h1, w1) = (replies, h2, w2)"
    and "\<And>ev. ev \<in> set events \<Longrightarrow> ev \<noteq> CloseCmd sid \<and> ev \<noteq> ResetCmd" and "length events < 2 ^ 32"
  shows "\<exists>p b0 w0. fst (in_session env (\<lambda>e. prepare e sql) b0 w0) = Fine p \<and> length ps = param_count p \<and>
     (\<forall>b args. mh_session h2 = Some b \<longrightarrow>
        fst (on_execute env sid args h2 w2) =
        frame_result False (fst (in_session env (\<lambda>e. execute_prepared e p (map param_to_value args)) b w2)))"
proof -
  obtain p b0 w0 where p: "fst (in_session env (\<lambda>e. prepare e sql) b0 w0) = Fine p" "map_of (mh_stmts h1) sid = Some p"
    "mh_next_stmt_id h1 = sid + 1" "\<not> mh_reset_pending h1" "length ps = param_count p"
    by (rule prepare_stores [OF assms(1)])
  have found: "map_of (mh_stmts h2) sid = Some p"
    using events_keep_statement [OF _ assms(3) p(4) _ assms(2), of 0] assms(4) p(2,3) by simp
  have "\<not> mh_reset_pending h2" using events_keep_unreset [OF _ p(4) assms(2)] assms(3) by blast
  with found have "fst (on_execute env sid args h2 w2) =
      frame_result False (fst (in_session env (\<lambda>e. execute_prepared e p (map param_to_value args)) b w2))"
    if "mh_session h2 = Some b" for b args
    using that by (simp add: on_execute_def with_session_def reset_not_pending ensure_session_def execute_command_def split: prod.split)
  with p(1,5) show ?thesis by blast
qed

text \<open>The table never holds more than its cap, nor two statements under one id.\<close>

definition table_ok :: "('w, 'm, 'be) handler \<Rightarrow> bool" where
  "table_ok h \<longleftrightarrow> distinct (map fst (mh_stmts h)) \<and> length (mh_stmts h) \<le> MAX_PREPARED_STMTS_PER_CONN"

lemma length_alist_update: "length (AList.update k v al) \<le> Suc (length al)"
  by (induction al) auto

lemma table_step_ok:
  assumes "table_step h h'" and "table_ok h"
  shows "table_ok h'"
proof (cases "mh_stmts h' = mh_stmts h")
  case False
  then obtain p where "mh_stmts h' = AList.update (mh_next_stmt_id h) p (mh_stmts h)" and "length (mh_stmts h) < MAX_PREPARED_STMTS_PER_CONN"
    using assms(1) by (auto simp: table_step_def)
  with assms(2) length_alist_update [of "mh_next_stmt_id h" p "mh_stmts h"] show ?thesis
    by (simp add: table_ok_def distinct_update)
qed (use assms(2) in \<open>simp add: table_ok_def\<close>)

lemma reset_table_ok: "apply_pending_reset env h w = (r, h1, w1) \<Longrightarrow> table_ok h \<Longrightarrow> table_ok h1"
  by (auto simp: apply_pending_reset_def table_ok_def Let_def split: if_splits option.splits prod.splits)

lemma run_event_table_ok:
  assumes "run_event env ev (h, w) = (r, h', w')" and "table_ok h"
  shows "table_ok h'"
proof -
  obtain q h1 w1 where q: "apply_pending_reset env h w = (q, h1, w1)" by (metis prod_cases3)
  note h1 = reset_table_ok [OF q assms(2)]
  show ?thesis
  proof (cases ev)
    case (AuthCmd plugin username data)
    with assms(1) obtain x where "authenticate env plugin username (handler_salt h) data h w = (x, h', w')"
      by (auto simp: apfst_def map_prod_def split: prod.splits)
    from table_step_ok [OF authenticate_table [OF this] assms(2)] show ?thesis .
  next
    case (CloseCmd sid)
    have "table_ok (h1\<lparr>mh_stmts := AList.delete sid (mh_stmts h1)\<rparr>)"
      using h1 length_delete_le [of sid "mh_stmts h1"] by (auto simp: table_ok_def distinct_delete)
    with CloseCmd assms(1) q h1 show ?thesis by (cases q) (auto simp: on_close_def)
  next
    case ResetCmd
    with assms show ?thesis by (auto simp: table_ok_def)
  qed (rule table_step_ok [OF run_event_table [OF assms(1) _ _ _ q] h1], simp_all)+
qed

lemma run_events_table_ok: "table_ok (fst y) \<Longrightarrow> table_ok (fst (snd (run_events env es y)))"
proof (induction es arbitrary: y)
  case (Cons ev es)
  obtain r h1 w1 where r: "run_event env ev y = (r, h1, w1)" by (metis prod_cases3)
  have "table_ok h1" using run_event_table_ok [of env ev "fst y" "snd y"] r Cons.prems by simp
  with Cons.IH [of "(h1, w1)"] r show ?case by (cases r) auto
qed simp

lemma new_table_ok: "table_ok (new_authenticating tc local_addr peer_addr raw)"
  "handler_new env be tc w = (Inr h, w1) \<Longrightarrow> table_ok h"
  by (auto simp: new_authenticating_def handler_new_def table_ok_def split: prod.splits sum.splits)

text \<open>
  Fact (prepared statements are bounded). Whatever a client sends, its connection never holds more than
  \<^verbatim>\<open>MAX_PREPARED_STMTS_PER_CONN\<close> prepared statements, all under different ids, on an authenticating connection
  and on one opened on a fixed backend alike.
\<close>

theorem prepared_statements_bounded:
  "let capped = (\<lambda>y. let stmts = mh_stmts (fst (snd (run_events env events y))) in
         distinct (map fst stmts) \<and> length stmts \<le> MAX_PREPARED_STMTS_PER_CONN) in
   capped (new_authenticating tc local_addr peer_addr raw, w0) \<and>
   (case handler_new env be tc w0 of (Inr h, w) \<Rightarrow> capped (h, w) | (Inl e, w) \<Rightarrow> True)"
  unfolding Let_def table_ok_def [symmetric]
  by (auto simp: run_events_table_ok new_table_ok split: prod.split sum.split)


section \<open>A handler to evaluate with\<close>

definition demo_mysql :: "(string list, nat \<times> (string \<times> (unit, unit) translate_result list) list, unit, unit, nat) mysql_env" where
  "demo_mysql =
     \<lparr>me_session = echo_env, me_connect = (\<lambda>be w. (Inr 0, w)), me_conn = (\<lambda>be n. echo_conn),
      me_describe = (\<lambda>be n sql w. (Inr [], w)), me_authenticate = (\<lambda>req w. (Denied, w))\<rparr>"

definition demo_handler :: "(string list, nat \<times> (string \<times> (unit, unit) translate_result list) list, nat) handler" where
  "demo_handler =
     \<lparr>mh_session = Some \<lparr>bs_backend = 0, bs_conn = 0, bs_screened = False, bs_session = echo_session\<rparr>, mh_auth = None,
      mh_unopened = None, mh_stmts = [], mh_next_stmt_id = 1, mh_reset_pending = False\<rparr>"

lemma demo_handler_new: "handler_new demo_mysql 0 (cache echo_session) [] = (Inr demo_handler, [])"
  by (simp add: handler_new_def demo_mysql_def demo_handler_def echo_session_def session_with_cache_def)

lemma demo_prepare:
  "\<exists>p s1. prepare echo_env ''DELETE FROM t'' echo_session = (Fine p, s1) \<and> prep_kind p \<noteq> Query \<and> conn s1 = []"
proof -
  let ?sql = "''DELETE FROM t''"
  have d: "do_body ?sql = None" "\<not> mentions_lock_function ?sql" "detect_set_sql_mode ?sql = Returns None" "classify ?sql \<noteq> Query"
    by code_simp+
  have dial: "sess_dialect echo_session = MySQL" by (simp add: echo_session_def session_with_cache_def)
  have t: "es_translate echo_env ?sql (sess_dialect echo_session) = Inr [SqlText ?sql]"
    "es_found_rows_column echo_env ?sql (sess_dialect echo_session) = None"
    "es_connection_id_column echo_env ?sql (sess_dialect echo_session) = None"
    by (simp_all add: echo_env_def)
  obtain c where p: "prepare_plain echo_env ?sql echo_session =
      (Fine \<lparr>sqlite_sql = ?sql, prep_kind = classify ?sql,
         special = map_option CalcFoundRows (es_count_sql echo_env ?sql (sess_dialect echo_session))\<rparr>, echo_session\<lparr>cache := c\<rparr>)"
    using prepare_plain_single [OF echo_cache_ok t] by blast
  then have "prepare echo_env ?sql echo_session = prepare_plain echo_env ?sql echo_session"
    using d dial by (simp add: prepare_def detect_locks_def detect_def)
  with p d(4) show ?thesis by (simp add: echo_session_def session_with_cache_def)
qed

lemma demo_prepared:
  "\<exists>ps h1. run_event demo_mysql (PrepareCmd ''DELETE FROM t'') (demo_handler, []) = (Reply (StmtPrepared 1 ps []), h1, []) \<and>
     \<not> mh_reset_pending h1 \<and> mh_session h1 \<noteq> None"
proof -
  obtain p s1 where p: "prepare echo_env ''DELETE FROM t'' echo_session = (Fine p, s1)" "prep_kind p \<noteq> Query" "conn s1 = []"
    using demo_prepare by blast
  have "echo_env\<lparr>es_conn := echo_conn\<rparr> = echo_env" by (simp add: echo_env_def)
  moreover have "echo_session\<lparr>conn := []\<rparr> = echo_session" by (simp add: echo_session_def session_with_cache_def)
  ultimately show ?thesis using p
    by (simp add: on_prepare_def with_session_def apply_pending_reset_def ensure_session_def prepare_command_def in_session_def
        bound_conn_def result_columns_def store_statement_def demo_mysql_def demo_handler_def MAX_PREPARED_STMTS_PER_CONN_def)
qed

theorem unauthenticated_refused_witness:
  "let (replies, h, w, accesses) = run_events (recorded demo_mysql) [AuthCmd ''mysql_native_password'' [] [], QueryCmd ''SELECT 1'']
       (new_authenticating (cache echo_session) ''10.0.0.1:3306'' ''10.0.0.2:5000'' [7, 8], [], []) in
   list_all2 refusal [AuthCmd ''mysql_native_password'' [] [], QueryCmd ''SELECT 1''] replies \<and> list_all is_asked accesses"
  by (rule unauthenticated_refused) (simp add: demo_mysql_def)

theorem prepared_statement_found_witness:
  "\<exists>ps h1 h2 replies. run_event demo_mysql (PrepareCmd ''DELETE FROM t'') (demo_handler, []) = (Reply (StmtPrepared 1 ps []), h1, []) \<and>
     run_events demo_mysql [CloseCmd 2] (h1, []) = (replies, h2, []) \<and> mh_session h2 \<noteq> None \<and>
     (\<exists>p b0 w0. fst (in_session demo_mysql (\<lambda>e. prepare e ''DELETE FROM t'') b0 w0) = Fine p \<and>
       (\<forall>b args. mh_session h2 = Some b \<longrightarrow> fst (on_execute demo_mysql 1 args h2 []) =
          frame_result False (fst (in_session demo_mysql (\<lambda>e. execute_prepared e p (map param_to_value args)) b []))))"
proof -
  obtain ps h1 where h1: "run_event demo_mysql (PrepareCmd ''DELETE FROM t'') (demo_handler, []) = (Reply (StmtPrepared 1 ps []), h1, [])"
    "\<not> mh_reset_pending h1" "mh_session h1 \<noteq> None"
    using demo_prepared by blast
  define h2 where "h2 = h1\<lparr>mh_stmts := AList.delete 2 (mh_stmts h1)\<rparr>"
  have run: "run_events demo_mysql [CloseCmd 2] (h1, []) = ([NoReply], h2, [])"
    using h1(2) by (simp add: on_close_def reset_not_pending h2_def)
  have "mh_session h2 \<noteq> None" using h1(3) by (simp add: h2_def)
  moreover have "\<exists>p b0 w0. fst (in_session demo_mysql (\<lambda>e. prepare e ''DELETE FROM t'') b0 w0) = Fine p \<and> length ps = param_count p \<and>
       (\<forall>b args. mh_session h2 = Some b \<longrightarrow> fst (on_execute demo_mysql 1 args h2 []) =
          frame_result False (fst (in_session demo_mysql (\<lambda>e. execute_prepared e p (map param_to_value args)) b [])))"
    by (rule prepared_statement_found [OF h1(1) run]) auto
  ultimately show ?thesis using h1(1) run by blast
qed

section \<open>Columns and values\<close>

text \<open>
  The values of an untyped column agree with its wire type when they are all of one kind; a declared type, or a
  column of mixed values, may put a value next to a wire type it is not written as.
\<close>

definition conforms :: "column_type \<Rightarrow> backend_value \<Rightarrow> bool" where
  "conforms ty v \<longleftrightarrow> v = Null \<or> mysql_type_for_value v = ty"

lemma untyped_column_conforms:
  assumes "decltype c = None" and "\<And>r v. r \<in> set rows \<Longrightarrow> i < length r \<Longrightarrow> v = r ! i \<Longrightarrow> v \<noteq> Null \<Longrightarrow> mysql_type_for_value v = ty"
    and "r \<in> set rows" and "i < length r"
  shows "conforms (wc_type (result_column rows i c)) (r ! i)"
proof (cases "List.find (\<lambda>v. v \<noteq> Null) (map (\<lambda>r. r ! i) (filter (\<lambda>r. i < length r) rows))")
  case None
  then have "r ! i = Null" using assms(3,4) by (auto simp: find_None_iff)
  then show ?thesis by (simp add: conforms_def)
next
  case (Some v)
  then have "v \<noteq> Null \<and> v \<in> set (map (\<lambda>r. r ! i) (filter (\<lambda>r. i < length r) rows))"
    unfolding find_Some_iff by (metis nth_mem)
  then have "mysql_type_for_value v = ty" using assms(2) by auto
  with Some assms show ?thesis by (auto simp: conforms_def result_column_def)
qed

lemma declared_column_mismatch:
  "\<not> conforms (wc_type (result_column [[Integer 5]] 0 \<lparr>col_name = ''price'', decltype = Some ''DECIMAL(10,2)''\<rparr>)) (Integer 5)"
  by code_simp

lemma mixed_column_mismatch:
  "\<not> conforms (wc_type (result_column [[Integer 5], [Text ''x'']] 0 \<lparr>col_name = ''v'', decltype = None\<rparr>)) (Text ''x'')"
  by code_simp

section \<open>The challenge, and what a reset leaves\<close>

lemma random_scramble_printable: "b \<in> set (random_scramble raw) \<Longrightarrow> 0x21 \<le> b \<and> b \<le> 0x7e"
proof -
  assume "b \<in> set (random_scramble raw)"
  then obtain x :: "8 word" where b: "b = 0x21 + x mod 94" by (auto simp: random_scramble_def)
  have "unat (x mod 94) < 94" by (simp add: unat_mod)
  then have "unat b = 33 + unat (x mod 94)" unfolding b by (subst unat_add_lem [THEN iffD1]) auto
  with \<open>unat (x mod 94) < 94\<close> show ?thesis by (simp add: word_le_nat_alt)
qed

lemma random_scramble_length: "length (random_scramble raw) = length raw"
  by (simp add: random_scramble_def)

text \<open>Outside a transaction a reset leaves the session's \<^verbatim>\<open>sql_mode\<close> as the previous user of the connection set it.\<close>

lemma release_keeps_sql_mode:
  assumes "release_user_locks e s = (r, s')"
  shows "sql_mode s' = sql_mode s \<and> found_rows s' = found_rows s"
proof -
  have "sql_mode (snd (release_user_locks e s)) = sql_mode s \<and> found_rows (snd (release_user_locks e s)) = found_rows s"
    by (auto simp: release_user_locks_def user_lock_def and_then_def backend_def on_conn_def note_user_lock_def split: prod.split sum.split user_lock_op.split)
  with assms show ?thesis by simp
qed

lemma reset_keeps_sql_mode:
  assumes "mh_reset_pending h" and "mh_session h = Some b" and "\<not> in_transaction (bs_session b)"
    and "apply_pending_reset env h w = (r, h', w')"
  shows "\<exists>b'. mh_session h' = Some b' \<and> sql_mode (bs_session b') = sql_mode (bs_session b) \<and> found_rows (bs_session b') = found_rows (bs_session b)"
  using assms
  by (auto simp: apply_pending_reset_def reset_session_def in_session_def Let_def split: prod.splits dest: release_keeps_sql_mode)

end
