(* ===== verification/Postgres_Handler.thy ===== *)
theory Postgres_Handler
  imports Session
begin

text \<open>
  One PostgreSQL client connection (\<^verbatim>\<open>src/crates/litewire-postgres/src/handler.rs\<close>, \<^verbatim>\<open>types.rs\<close>): the simple and the
  extended query protocol over the connection's own backend session, and the description of a statement's columns. The
  protocol library \<^verbatim>\<open>pgwire\<close> calls these operations; its row encoder and the decoding of the parameters of a portal are
  parameters, as are the translator and the backend. Logging is left out.
\<close>

section \<open>Types\<close>

text \<open>The types the handler names; any other type is known by its object id.\<close>

datatype pg_type = BOOL | INT2 | INT4 | INT8 | FLOAT4 | FLOAT8 | BYTEA | TEXT | PgOther nat

definition sqlite_to_pg_type :: "string option \<Rightarrow> pg_type" where
  "sqlite_to_pg_type dt =
     (case dt of
        None \<Rightarrow> TEXT
      | Some d \<Rightarrow>
          (let upper = to_ascii_uppercase d; has = contains_str upper in
           if has ''INT'' then INT8
           else if has ''REAL'' \<or> has ''FLOAT'' \<or> has ''DOUBLE'' then FLOAT8
           else if has ''BLOB'' \<or> has ''BYTEA'' then BYTEA
           else if has ''BOOL'' then BOOL
           else TEXT))"

fun value_to_pg_type :: "backend_value \<Rightarrow> pg_type" where
  "value_to_pg_type Null = TEXT"
| "value_to_pg_type (Integer i) = INT8"
| "value_to_pg_type (Float f) = FLOAT8"
| "value_to_pg_type (Text s) = TEXT"
| "value_to_pg_type (Blob b) = BYTEA"

datatype field_format = FormatText | FormatBinary

text \<open>A \<^verbatim>\<open>Format\<close> is used only through \<^verbatim>\<open>format_for\<close>.\<close>

type_synonym format = "nat \<Rightarrow> field_format"

definition UnifiedText :: format where "UnifiedText idx = FormatText"
definition UnifiedBinary :: format where "UnifiedBinary idx = FormatBinary"

record field_info =
  fi_name :: string
  fi_type :: pg_type
  fi_format :: field_format

text \<open>The column of a result: the declared type first, then the value in the first row.\<close>

definition column_field :: "format \<Rightarrow> backend_value list list \<Rightarrow> nat \<Rightarrow> column \<Rightarrow> field_info" where
  "column_field format rows idx c =
     \<lparr>fi_name = col_name c,
      fi_type =
        (if decltype c \<noteq> None then sqlite_to_pg_type (decltype c)
         else case rows of
             [] \<Rightarrow> TEXT
           | row # _ \<Rightarrow> if idx < length row then value_to_pg_type (row ! idx) else TEXT),
      fi_format = format idx\<rparr>"

definition column_fields :: "format \<Rightarrow> result_set \<Rightarrow> field_info list" where
  "column_fields format rs = map (\<lambda>(idx, c). column_field format (rs_rows rs) idx c) (enumerate 0 (rs_columns rs))"

section \<open>Replies and errors\<close>

text \<open>An error for the client (severity, SQLSTATE, message), or one the protocol library reports.\<close>

datatype pg_wire_error = UserError string string string | ProtocolError string

definition pg_error_of :: "string \<Rightarrow> pg_wire_error" where
  "pg_error_of msg = UserError ''ERROR'' ''XX000'' msg"

definition pg_backend_error :: "backend_error \<Rightarrow> pg_wire_error" where
  "pg_backend_error e = (let mapped = pg_classify (backend_error_to_string e) in UserError ''ERROR'' (pg_sqlstate mapped) (pg_message mapped))"

record tag =
  tag_name :: string
  tag_rows :: "u64 option"

definition new_tag :: "string \<Rightarrow> tag" where
  "new_tag s = \<lparr>tag_name = s, tag_rows = None\<rparr>"

datatype 'row pg_response =
    QueryResponse "field_info list" "(pg_wire_error + 'row) list"
  | Execution tag
  | TransactionStart tag
  | TransactionEnd tag

type_synonym 'a pg_result = "(pg_wire_error + 'a) rust_result"

section \<open>The protocol library, the backend and the translator\<close>

text \<open>What \<^verbatim>\<open>encode_field\<close> is given: the Rust value and so its type.\<close>

datatype pg_value = PgNone | PgBoolean bool | PgI64 u64 | PgF64 f64_bits | PgStr string | PgBytes bytes

record ('w, 'm, 'k, 'b, 'enc, 'row, 'p) pg_env =
  pg_conn :: "'w conn_api"
  pg_describe :: "string \<Rightarrow> 'w \<Rightarrow> (backend_error + column list) \<times> 'w"
  pg_lru :: "('m, ('k, 'b) translate_result list) lru_api"
  pg_translate :: "string \<Rightarrow> dialect \<Rightarrow> translate_error + ('k, 'b) translate_result list"
  pg_metadata_sql :: "'k \<Rightarrow> string"
  encoder_new :: "field_info list \<Rightarrow> 'enc"
  encode_field :: "pg_value \<Rightarrow> 'enc \<Rightarrow> pg_wire_error + 'enc"
  encoder_finish :: "'enc \<Rightarrow> pg_wire_error + 'row"
  parameter_len :: "'p \<Rightarrow> nat"
  parameter_bool :: "'p \<Rightarrow> nat \<Rightarrow> pg_type \<Rightarrow> bool option"
  parameter_i16 :: "'p \<Rightarrow> nat \<Rightarrow> pg_type \<Rightarrow> 16 word option"
  parameter_i32 :: "'p \<Rightarrow> nat \<Rightarrow> pg_type \<Rightarrow> 32 word option"
  parameter_i64 :: "'p \<Rightarrow> nat \<Rightarrow> pg_type \<Rightarrow> 64 word option"
  parameter_f32 :: "'p \<Rightarrow> nat \<Rightarrow> pg_type \<Rightarrow> 32 word option"
  parameter_f64 :: "'p \<Rightarrow> nat \<Rightarrow> pg_type \<Rightarrow> f64_bits option"
  parameter_bytes :: "'p \<Rightarrow> nat \<Rightarrow> pg_type \<Rightarrow> bytes option"
  parameter_string :: "'p \<Rightarrow> nat \<Rightarrow> pg_type \<Rightarrow> string option"
  f64_of_f32 :: "32 word \<Rightarrow> f64_bits"

text \<open>A portal: the statement's text and parameter types, the bound parameters and the result format.\<close>

record 'p portal =
  po_statement :: string
  po_parameter_types :: "pg_type list"
  po_parameters :: 'p
  po_result_format :: format

record ('w, 'm) pg_handler =
  ph_cache :: "'m translate_cache"
  ph_conn :: 'w

definition pg_handler_new ::
  "('w \<Rightarrow> (backend_error + unit) \<times> 'w) \<Rightarrow> 'm translate_cache \<Rightarrow> 'w \<Rightarrow> backend_error + ('w, 'm) pg_handler" where
  "pg_handler_new connect tc w =
     (case connect w of (Inl e, w1) \<Rightarrow> Inl e | (Inr _, w1) \<Rightarrow> Inr \<lparr>ph_cache = tc, ph_conn = w1\<rparr>)"

section \<open>Values\<close>

fun encode_value :: "('w, 'm, 'k, 'b, 'enc, 'row, 'p) pg_env \<Rightarrow> 'enc \<Rightarrow> backend_value \<Rightarrow> field_info \<Rightarrow> pg_wire_error + 'enc" where
  "encode_value env enc Null field = encode_field env PgNone enc"
| "encode_value env enc (Integer i) field =
     (if fi_type field = BOOL then encode_field env (PgBoolean (i \<noteq> 0)) enc else encode_field env (PgI64 i) enc)"
| "encode_value env enc (Float f) field = encode_field env (PgF64 f) enc"
| "encode_value env enc (Text s) field = encode_field env (PgStr s) enc"
| "encode_value env enc (Blob b) field = encode_field env (PgBytes b) enc"

definition extract_param ::
  "('w, 'm, 'k, 'b, 'enc, 'row, 'p) pg_env \<Rightarrow> 'p portal \<Rightarrow> nat \<Rightarrow> backend_value" where
  "extract_param env portal i =
     (let param_type = (if i < length (po_parameter_types portal) then po_parameter_types portal ! i else TEXT);
          p = po_parameters portal in
      case param_type of
        BOOL \<Rightarrow> (case parameter_bool env p i param_type of None \<Rightarrow> Null | Some v \<Rightarrow> Integer (if v then 1 else 0))
      | INT2 \<Rightarrow> (case parameter_i16 env p i param_type of None \<Rightarrow> Null | Some v \<Rightarrow> Integer (scast v))
      | INT4 \<Rightarrow> (case parameter_i32 env p i param_type of None \<Rightarrow> Null | Some v \<Rightarrow> Integer (scast v))
      | INT8 \<Rightarrow> (case parameter_i64 env p i param_type of None \<Rightarrow> Null | Some v \<Rightarrow> Integer v)
      | FLOAT4 \<Rightarrow> (case parameter_f32 env p i param_type of None \<Rightarrow> Null | Some v \<Rightarrow> Float (f64_of_f32 env v))
      | FLOAT8 \<Rightarrow> (case parameter_f64 env p i param_type of None \<Rightarrow> Null | Some v \<Rightarrow> Float v)
      | BYTEA \<Rightarrow> (case parameter_bytes env p i param_type of None \<Rightarrow> Null | Some v \<Rightarrow> Blob v)
      | _ \<Rightarrow> (case parameter_string env p i TEXT of None \<Rightarrow> Null | Some v \<Rightarrow> Text v))"

definition extract_params :: "('w, 'm, 'k, 'b, 'enc, 'row, 'p) pg_env \<Rightarrow> 'p portal \<Rightarrow> backend_value list" where
  "extract_params env portal = map (extract_param env portal) [0..<parameter_len env (po_parameters portal)]"

section \<open>Running a statement\<close>

text \<open>\<^verbatim>\<open>schema[idx]\<close> panics on a row longer than the columns.\<close>

fun encode_row ::
  "('w, 'm, 'k, 'b, 'enc, 'row, 'p) pg_env \<Rightarrow> field_info list \<Rightarrow> nat \<Rightarrow> 'enc \<Rightarrow> backend_value list \<Rightarrow> 'enc pg_result" where
  "encode_row env schema idx enc [] = Returns (Inr enc)"
| "encode_row env schema idx enc (v # vs) =
     (if idx < length schema
      then (case encode_value env enc v (schema ! idx) of
              Inl e \<Rightarrow> Returns (Inl e)
            | Inr enc1 \<Rightarrow> encode_row env schema (idx + 1) enc1 vs)
      else Panics)"

fun encode_rows ::
  "('w, 'm, 'k, 'b, 'enc, 'row, 'p) pg_env \<Rightarrow> field_info list \<Rightarrow> backend_value list list \<Rightarrow> (pg_wire_error + 'row) list \<Rightarrow>
     ((pg_wire_error + 'row) list) pg_result" where
  "encode_rows env schema [] rows = Returns (Inr rows)"
| "encode_rows env schema (r # rs) rows =
     (case encode_row env schema 0 (encoder_new env schema) r of
        Panics \<Rightarrow> Panics
      | Returns (Inl e) \<Rightarrow> Returns (Inl e)
      | Returns (Inr enc) \<Rightarrow> encode_rows env schema rs (rows @ [encoder_finish env enc]))"

definition do_select ::
  "('w, 'm, 'k, 'b, 'enc, 'row, 'p) pg_env \<Rightarrow> string \<Rightarrow> backend_value list \<Rightarrow> format \<Rightarrow> 'w \<Rightarrow> 'row pg_response pg_result \<times> 'w" where
  "do_select env sql params format w =
     (case conn_query (pg_conn env) sql params w of
        (Inl e, w1) \<Rightarrow> (Returns (Inl (pg_backend_error e)), w1)
      | (Inr rs, w1) \<Rightarrow>
          (let schema = column_fields format rs in
           case encode_rows env schema (rs_rows rs) [] of
             Panics \<Rightarrow> (Panics, w1)
           | Returns (Inl e) \<Rightarrow> (Returns (Inl e), w1)
           | Returns (Inr rows) \<Rightarrow> (Returns (Inr (QueryResponse schema rows)), w1)))"

definition transaction_response :: "string \<Rightarrow> 'row pg_response" where
  "transaction_response sql =
     (let upper = to_ascii_uppercase (trim sql) in
      if starts_with upper ''BEGIN'' \<or> starts_with upper ''START'' then TransactionStart (new_tag ''BEGIN'')
      else if starts_with upper ''COMMIT'' then TransactionEnd (new_tag ''COMMIT'')
      else if starts_with upper ''ROLLBACK'' then TransactionEnd (new_tag ''ROLLBACK'')
      else Execution (new_tag ''OK''))"

definition mutation_tag :: "string \<Rightarrow> statement_kind \<Rightarrow> string" where
  "mutation_tag sql kind =
     (let upper = to_ascii_uppercase (trim sql); first = (\<lambda>words. case find (starts_with upper) words of Some s \<Rightarrow> s | None \<Rightarrow> ''OK'') in
      case kind of
        Mutation \<Rightarrow> first [''INSERT'', ''UPDATE'', ''DELETE'']
      | Ddl \<Rightarrow> first [''CREATE'', ''DROP'', ''ALTER'']
      | _ \<Rightarrow> ''OK'')"

definition do_mutation ::
  "('w, 'm, 'k, 'b, 'enc, 'row, 'p) pg_env \<Rightarrow> string \<Rightarrow> backend_value list \<Rightarrow> statement_kind \<Rightarrow> 'w \<Rightarrow>
     'row pg_response pg_result \<times> 'w" where
  "do_mutation env sql params kind w =
     (case conn_execute (pg_conn env) sql params w of
        (Inl e, w1) \<Rightarrow> (Returns (Inl (pg_backend_error e)), w1)
      | (Inr res, w1) \<Rightarrow>
          if kind = Transaction then (Returns (Inr (transaction_response sql)), w1)
          else (Returns (Inr (Execution
                 \<lparr>tag_name = mutation_tag sql kind, tag_rows = (if kind = Mutation then Some (affected_rows res) else None)\<rparr>)), w1))"

definition exec_query ::
  "('w, 'm, 'k, 'b, 'enc, 'row, 'p) pg_env \<Rightarrow> string \<Rightarrow> backend_value list \<Rightarrow> format \<Rightarrow> 'w \<Rightarrow> 'row pg_response pg_result \<times> 'w" where
  "exec_query env sql params format w =
     (let kind = classify sql in
      if kind = Query then do_select env sql params format w else do_mutation env sql params kind w)"

section \<open>The simple protocol\<close>

definition REBUILD_REFUSED :: string where
  "REBUILD_REFUSED = ''table rebuilds are MySQL-only''"

fun simple_statement ::
  "('w, 'm, 'k, 'b, 'enc, 'row, 'p) pg_env \<Rightarrow> ('k, 'b) translate_result \<Rightarrow> 'w \<Rightarrow> 'row pg_response pg_result \<times> 'w" where
  "simple_statement env Noop w = (Returns (Inr (Execution (new_tag ''SET''))), w)"
| "simple_statement env (Metadata meta) w = exec_query env (pg_metadata_sql env meta) [] UnifiedText w"
| "simple_statement env (RebuildTable b) w = (Returns (Inl (pg_error_of REBUILD_REFUSED)), w)"
| "simple_statement env (SqlText sql) w =
     (if sql = [] then (Returns (Inr (Execution (new_tag ''OK''))), w) else exec_query env sql [] UnifiedText w)"

fun simple_loop ::
  "('w, 'm, 'k, 'b, 'enc, 'row, 'p) pg_env \<Rightarrow> ('k, 'b) translate_result list \<Rightarrow> 'row pg_response list \<Rightarrow> 'w \<Rightarrow>
     ('row pg_response list) pg_result \<times> 'w" where
  "simple_loop env [] responses w = (Returns (Inr (if responses = [] then [Execution (new_tag ''OK'')] else responses)), w)"
| "simple_loop env (r # rs) responses w =
     (case simple_statement env r w of
        (Panics, w1) \<Rightarrow> (Panics, w1)
      | (Returns (Inl e), w1) \<Rightarrow> (Returns (Inl e), w1)
      | (Returns (Inr resp), w1) \<Rightarrow> simple_loop env rs (responses @ [resp]) w1)"

definition pg_translated ::
  "('w, 'm, 'k, 'b, 'enc, 'row, 'p) pg_env \<Rightarrow> string \<Rightarrow> ('w, 'm) pg_handler \<Rightarrow>
     (translate_error + ('k, 'b) translate_result list) \<times> ('w, 'm) pg_handler" where
  "pg_translated env sql h =
     (case translate_cached (pg_lru env) (pg_translate env) (ph_cache h) sql PostgreSQL of (r, c) \<Rightarrow> (r, h\<lparr>ph_cache := c\<rparr>))"

definition simple_do_query ::
  "('w, 'm, 'k, 'b, 'enc, 'row, 'p) pg_env \<Rightarrow> string \<Rightarrow> ('w, 'm) pg_handler \<Rightarrow>
     ('row pg_response list) pg_result \<times> ('w, 'm) pg_handler" where
  "simple_do_query env sql h =
     (case pg_translated env sql h of
        (Inl e, h1) \<Rightarrow> (Returns (Inl (pg_error_of (translate_error_text e))), h1)
      | (Inr rs, h1) \<Rightarrow> (case simple_loop env rs [] (ph_conn h1) of (r, w) \<Rightarrow> (r, h1\<lparr>ph_conn := w\<rparr>)))"

section \<open>The extended protocol\<close>

definition pg_translate_sql ::
  "('w, 'm, 'k, 'b, 'enc, 'row, 'p) pg_env \<Rightarrow> string \<Rightarrow> ('w, 'm) pg_handler \<Rightarrow>
     (string + string \<times> statement_kind) \<times> ('w, 'm) pg_handler" where
  "pg_translate_sql env sql h =
     (case pg_translated env sql h of
        (Inl e, h1) \<Rightarrow> (Inl (translate_error_text e), h1)
      | (Inr [], h1) \<Rightarrow> (Inr ([], OtherKind), h1)
      | (Inr (r # _), h1) \<Rightarrow>
          (case r of
             Noop \<Rightarrow> (Inr ([], OtherKind), h1)
           | Metadata meta \<Rightarrow> (Inr (pg_metadata_sql env meta, Query), h1)
           | RebuildTable b \<Rightarrow> (Inl REBUILD_REFUSED, h1)
           | SqlText t \<Rightarrow> (Inr (t, classify t), h1)))"

definition extended_do_query ::
  "('w, 'm, 'k, 'b, 'enc, 'row, 'p) pg_env \<Rightarrow> 'p portal \<Rightarrow> ('w, 'm) pg_handler \<Rightarrow> 'row pg_response pg_result \<times> ('w, 'm) pg_handler" where
  "extended_do_query env portal h =
     (case pg_translate_sql env (po_statement portal) h of
        (Inl e, h1) \<Rightarrow> (Returns (Inl (pg_error_of e)), h1)
      | (Inr (sql, kind), h1) \<Rightarrow>
          if sql = [] then (Returns (Inr (Execution (new_tag ''OK''))), h1)
          else (case exec_query env sql (extract_params env portal) (po_result_format portal) (ph_conn h1) of
                  (r, w) \<Rightarrow> (r, h1\<lparr>ph_conn := w\<rparr>)))"

text \<open>\<^verbatim>\<open>probe_columns\<close> never fails: an error of the backend is an empty description.\<close>

definition probe_columns ::
  "('w, 'm, 'k, 'b, 'enc, 'row, 'p) pg_env \<Rightarrow> string \<Rightarrow> format \<Rightarrow> 'w \<Rightarrow> field_info list \<times> 'w" where
  "probe_columns env sql format w =
     (case pg_describe env sql w of
        (Inl e, w1) \<Rightarrow> ([], w1)
      | (Inr cols, w1) \<Rightarrow>
          if \<not> list_ex (\<lambda>c. decltype c = None) cols
          then (map (\<lambda>(idx, c). \<lparr>fi_name = col_name c, fi_type = sqlite_to_pg_type (decltype c), fi_format = format idx\<rparr>)
                  (enumerate 0 cols), w1)
          else (case conn_query (pg_conn env) (sql @ '' LIMIT 1'') [] w1 of
                  (Inl e, w2) \<Rightarrow> ([], w2)
                | (Inr rs, w2) \<Rightarrow> (column_fields format rs, w2)))"

definition describe_fields ::
  "('w, 'm, 'k, 'b, 'enc, 'row, 'p) pg_env \<Rightarrow> string \<Rightarrow> format \<Rightarrow> ('w, 'm) pg_handler \<Rightarrow>
     (pg_wire_error + field_info list) \<times> ('w, 'm) pg_handler" where
  "describe_fields env statement format h =
     (case pg_translate_sql env statement h of
        (Inl e, h1) \<Rightarrow> (Inl (pg_error_of e), h1)
      | (Inr (sql, kind), h1) \<Rightarrow>
          if kind = Query \<and> sql \<noteq> []
          then (case probe_columns env sql format (ph_conn h1) of (described, w) \<Rightarrow> (Inr described, h1\<lparr>ph_conn := w\<rparr>))
          else (Inr [], h1))"

definition do_describe_statement ::
  "('w, 'm, 'k, 'b, 'enc, 'row, 'p) pg_env \<Rightarrow> string \<Rightarrow> pg_type list \<Rightarrow> ('w, 'm) pg_handler \<Rightarrow>
     (pg_wire_error + pg_type list \<times> field_info list) \<times> ('w, 'm) pg_handler" where
  "do_describe_statement env statement parameter_types h =
     apfst (map_sum id (\<lambda>described. (parameter_types, described))) (describe_fields env statement UnifiedBinary h)"

definition do_describe_portal ::
  "('w, 'm, 'k, 'b, 'enc, 'row, 'p) pg_env \<Rightarrow> 'p portal \<Rightarrow> ('w, 'm) pg_handler \<Rightarrow>
     (pg_wire_error + field_info list) \<times> ('w, 'm) pg_handler" where
  "do_describe_portal env portal h = describe_fields env (po_statement portal) (po_result_format portal) h"

end
