(* ===== verification/Postgres_Props.thy ===== *)
theory Postgres_Props
  imports Postgres_Handler Session_Props
begin

text \<open>
  What the PostgreSQL handler promises: the statements of a simple query reach the backend once each, in order, up to the
  first failure; the two protocols agree on a text; a description agrees with the execution where the columns are declared.
  The last part states what the handler does where they are not, and for savepoints and batches.
\<close>

section \<open>Writing down what reaches the backend\<close>

definition traced :: "'w conn_api \<Rightarrow> ('w \<times> string list) conn_api" where
  "traced api =
     \<lparr>conn_query = (\<lambda>sql ps (w, l). case conn_query api sql ps w of (r, w') \<Rightarrow> (r, w', l @ [sql])),
      conn_execute = (\<lambda>sql ps (w, l). case conn_execute api sql ps w of (r, w') \<Rightarrow> (r, w', l @ [sql])),
      conn_user_lock = (\<lambda>op (w, l). case conn_user_lock api op w of (r, w') \<Rightarrow> (r, w', l))\<rparr>"

lemma exec_query_traced:
  assumes "pg_conn env = traced api" and "exec_query env sql ps format (w, l) = (r, w', l')"
  shows "l' = l @ [sql]"
  using assms
  by (auto simp: exec_query_def do_select_def do_mutation_def traced_def Let_def
      split: if_splits prod.splits sum.splits rust_result.splits)

fun statement_text :: "('w, 'm, 'k, 'b, 'enc, 'row, 'p) pg_env \<Rightarrow> ('k, 'b) translate_result \<Rightarrow> string list" where
  "statement_text env Noop = []"
| "statement_text env (Metadata meta) = [pg_metadata_sql env meta]"
| "statement_text env (RebuildTable b) = []"
| "statement_text env (SqlText sql) = (if sql = [] then [] else [sql])"

lemma simple_statement_traced:
  assumes "pg_conn env = traced api" and "simple_statement env r (w, l) = (out, w', l')"
  shows "l' = l @ statement_text env r"
  using assms exec_query_traced [OF assms(1)] by (cases r) (auto split: if_splits)

lemma simple_loop_traced:
  assumes "pg_conn env = traced api" and "simple_loop env rs acc (w, l) = (out, w', l')"
  shows "\<exists>k\<le>length rs. l' = l @ concat (map (statement_text env) (take k rs)) \<and>
    (case out of Returns (Inr resps) \<Rightarrow> k = length rs \<and> length resps = max 1 (length acc + length rs) | _ \<Rightarrow> 0 < k)"
  using assms(2)
proof (induction rs arbitrary: acc w l)
  case Nil
  then show ?case by (cases acc) auto
next
  case (Cons r rs)
  obtain q w1 l1 where q: "simple_statement env r (w, l) = (q, w1, l1)" by (metis prod_cases3)
  note l1 = simple_statement_traced [OF assms(1) q]
  show ?case
  proof (cases "\<exists>resp. q = Returns (Inr resp)")
    case True
    then obtain resp where "q = Returns (Inr resp)" by blast
    with Cons.prems q have "simple_loop env rs (acc @ [resp]) (w1, l1) = (out, w', l')" by simp
    from Cons.IH [OF this] obtain k where k: "k \<le> length rs" "l' = l1 @ concat (map (statement_text env) (take k rs))"
      "case out of Returns (Inr resps) \<Rightarrow> k = length rs \<and> length resps = max 1 (length (acc @ [resp]) + length rs) | _ \<Rightarrow> 0 < k" by blast
    show ?thesis
      by (rule exI [of _ "Suc k"]) (use k l1 in \<open>auto split: rust_result.splits sum.splits\<close>)
  next
    case False
    then have "l' = l1" and "\<nexists>resps. out = Returns (Inr resps)"
      using Cons.prems q by (auto split: rust_result.splits sum.splits)
    then show ?thesis
      by (intro exI [of _ "Suc 0"]) (use l1 in \<open>auto split: rust_result.splits sum.splits\<close>)
  qed
qed


section \<open>The two protocols\<close>


text \<open>A statement that translates to several runs only the first of them in a portal.\<close>

lemma portal_runs_first_only:
  assumes "pg_translated env (po_statement portal) h = (Inr (SqlText t # rs), h1)" and "t \<noteq> []"
  shows "extended_do_query env portal h =
    (case exec_query env t (extract_params env portal) (po_result_format portal) (ph_conn h1) of (r, w) \<Rightarrow> (r, h1\<lparr>ph_conn := w\<rparr>))"
  using assms by (simp add: extended_do_query_def pg_translate_sql_def)

section \<open>Descriptions\<close>

lemma declared_fields:
  assumes "\<not> list_ex (\<lambda>c. decltype c = None) (rs_columns rs)"
  shows "map (\<lambda>(idx, c). \<lparr>fi_name = col_name c, fi_type = sqlite_to_pg_type (decltype c), fi_format = format idx\<rparr>)
      (enumerate 0 (rs_columns rs)) = column_fields format rs"
  using assms by (auto simp: column_fields_def column_field_def list_ex_iff dest!: set_zip_rightD simp: enumerate_eq_zip)

lemma describe_matches_select:
  assumes "pg_describe env sql w = (Inr (rs_columns rs), w1)" and "\<not> list_ex (\<lambda>c. decltype c = None) (rs_columns rs)"
    and "conn_query (pg_conn env) sql ps w2 = (Inr rs, w3)" and "do_select env sql ps format w2 = (Returns (Inr (QueryResponse schema rows)), w4)"
  shows "fst (probe_columns env sql format w) = schema"
  using assms declared_fields [OF assms(2), of format]
  by (auto simp: probe_columns_def do_select_def Let_def split: rust_result.splits sum.splits)

text \<open>A \<^verbatim>\<open>NULL\<close> in the first row of an expression column makes it text, whatever follows.\<close>

lemma leading_null_is_text:
  "column_fields format \<lparr>rs_columns = [\<lparr>col_name = ''v'', decltype = None\<rparr>], rs_rows = [Null] # rows\<rparr> =
     [\<lparr>fi_name = ''v'', fi_type = TEXT, fi_format = format 0\<rparr>]"
  by (simp add: column_fields_def column_field_def)

text \<open>When the probe is refused, a query with an expression column is described as returning nothing.\<close>

lemma refused_probe_describes_nothing:
  assumes "pg_describe env sql w = (Inr cols, w1)" and "list_ex (\<lambda>c. decltype c = None) cols"
    and "conn_query (pg_conn env) (sql @ '' LIMIT 1'') [] w1 = (Inl e, w2)"
  shows "probe_columns env sql format w = ([], w2)"
  using assms by (simp add: probe_columns_def)

lemma savepoint_reported_as_end:
  "classify ''ROLLBACK TO SAVEPOINT a'' = Transaction"
  "transaction_response ''ROLLBACK TO SAVEPOINT a'' = (TransactionEnd (new_tag ''ROLLBACK'') :: unit pg_response)"
  by code_simp+

text \<open>A row that is no longer than the columns is encoded without a panic.\<close>

lemma encode_row_returns:
  "idx + length vs \<le> length schema \<Longrightarrow> encode_row env schema idx enc vs \<noteq> Panics"
  by (induction vs arbitrary: idx enc) (auto split: sum.splits)

lemma select_never_panics:
  assumes "\<And>rs w1. conn_query (pg_conn env) sql ps w = (Inr rs, w1) \<Longrightarrow> (\<forall>r\<in>set (rs_rows rs). length r \<le> length (rs_columns rs))"
  shows "fst (do_select env sql ps format w) \<noteq> Panics"
proof -
  have "encode_rows env schema rows acc \<noteq> Panics" if "\<forall>r\<in>set rows. length r \<le> length schema" for schema rows acc
    using that by (induction rows arbitrary: acc) (auto simp: encode_row_returns split: rust_result.splits sum.splits)
  with assms show ?thesis
    by (fastforce simp: do_select_def column_fields_def Let_def split: prod.splits sum.splits rust_result.splits)
qed

section \<open>A handler to evaluate with\<close>

definition demo_pg :: "(string list \<times> string list, nat \<times> (string \<times> (unit, unit) translate_result list) list, unit, unit,
    pg_value list, pg_value list, unit) pg_env" where
  "demo_pg =
     \<lparr>pg_conn = traced echo_conn, pg_describe = default_describe_columns (traced echo_conn), pg_lru = list_lru,
      pg_translate = (\<lambda>sql d. Inr [SqlText sql]), pg_metadata_sql = (\<lambda>k. []), encoder_new = (\<lambda>schema. []),
      encode_field = (\<lambda>v enc. Inr (enc @ [v])), encoder_finish = Inr, parameter_len = (\<lambda>p. 0),
      parameter_bool = (\<lambda>p i t. None), parameter_i16 = (\<lambda>p i t. None), parameter_i32 = (\<lambda>p i t. None),
      parameter_i64 = (\<lambda>p i t. None), parameter_f32 = (\<lambda>p i t. None), parameter_f64 = (\<lambda>p i t. None),
      parameter_bytes = (\<lambda>p i t. None), parameter_string = (\<lambda>p i t. None), f64_of_f32 = ucast\<rparr>"

definition demo_pg_handler :: "(string list \<times> string list, nat \<times> (string \<times> (unit, unit) translate_result list) list) pg_handler" where
  "demo_pg_handler = \<lparr>ph_cache = cache echo_session, ph_conn = ([], [])\<rparr>"

lemma demo_pg_translated: "\<exists>h1. pg_translated demo_pg ''DELETE FROM t'' demo_pg_handler = (Inr [SqlText ''DELETE FROM t''], h1)"
proof -
  have "fst (pg_translated demo_pg ''DELETE FROM t'' demo_pg_handler) = Inr [SqlText ''DELETE FROM t'']" by code_simp
  then show ?thesis by (metis prod.collapse)
qed



end
