(* ===== verification/Catalog.thy ===== *)
theory Catalog
  imports Sql_Mode
begin

text \<open>
  The SQL texts with which litewire answers catalog queries (\<^verbatim>\<open>src/crates/litewire-translate/src/catalog.rs\<close>): the rows of
  the emulated \<^verbatim>\<open>information_schema\<close> tables, over all tables or one, and the final splice of such a text over its
  placeholder. The substitution in the syntax tree is the translator's and not part of this theory.
\<close>

text \<open>
  A text of the source, in lines; \<^verbatim>\<open>~\<close>, \<^verbatim>\<open>#\<close> and \<^verbatim>\<open>^\<close> stand for the single quote, the double quote and the backslash,
  and occur in none of them otherwise.
\<close>

definition sql_text :: "string list \<Rightarrow> string" where
  "sql_text ls =
     map (\<lambda>c. if c = CHR ''~'' then sq else if c = CHR ''#'' then dq else if c = CHR ''^'' then backslash else c) (concat ls)"

section \<open>Names\<close>

definition SYSTEM_SCHEMAS :: "string list" where
  "SYSTEM_SCHEMAS =
     [''information_schema'', ''mysql'', ''performance_schema'', ''sys'', ''pg_catalog'', ''sqlite_temp_master'']"

definition SCHEMA_NAME :: string where "SCHEMA_NAME = ''main''"

definition is_system_schema :: "string \<Rightarrow> bool" where
  "is_system_schema name \<longleftrightarrow> list_ex (\<lambda>s. eq_ignore_ascii_case s name) SYSTEM_SCHEMAS"

section \<open>Expressions over a column\<close>

definition DATA_TYPE :: string where
  "DATA_TYPE =
     sql_text [''CASE WHEN upper(p.type) IN (~TINYINT(1)~, ~TINYINT~) THEN ~tinyint~ WHEN upper(p.type) LIKE ~%INT%~ THEN '',
      ''~bigint~ WHEN upper(p.type) IN (~REAL~, ~DOUBLE~, ~FLOAT~, ~NUMERIC~, ~DECIMAL~) THEN ~double~ WHEN '',
      ''upper(p.type) LIKE ~%BLOB%~ THEN ~longblob~ WHEN upper(p.type) LIKE ~%CHAR%~ OR upper(p.type) LIKE '',
      ''~%CLOB%~ OR upper(p.type) LIKE ~%TEXT%~ THEN ~longtext~ WHEN p.type = ~~ THEN ~longtext~ ELSE '',
      ''lower(p.type) END'']"

definition COLUMN_TYPE :: string where
  "COLUMN_TYPE =
     sql_text [''CASE WHEN upper(p.type) IN (~TINYINT(1)~, ~TINYINT~) THEN ~tinyint(1)~ WHEN upper(p.type) LIKE ~%INT%~ '',
      ''THEN ~bigint~ WHEN upper(p.type) IN (~REAL~, ~DOUBLE~, ~FLOAT~, ~NUMERIC~, ~DECIMAL~) THEN ~double~ WHEN '',
      ''upper(p.type) LIKE ~%BLOB%~ THEN ~longblob~ WHEN upper(p.type) LIKE ~%CHAR%~ OR upper(p.type) LIKE '',
      ''~%CLOB%~ OR upper(p.type) LIKE ~%TEXT%~ THEN ~longtext~ WHEN p.type = ~~ THEN ~longtext~ ELSE '',
      ''lower(p.type) END'']"

definition IS_TEXT :: string where
  "IS_TEXT =
     sql_text [''(upper(p.type) LIKE ~%CHAR%~ OR upper(p.type) LIKE ~%CLOB%~ OR upper(p.type) LIKE ~%TEXT%~ OR p.type = '',
      ''~~)'']"

definition COLUMN_DEFAULT :: string where
  "COLUMN_DEFAULT =
     sql_text [''CASE WHEN p.dflt_value IS NULL THEN NULL WHEN upper(p.dflt_value) = ~NULL~ THEN NULL WHEN '',
      ''length(p.dflt_value) >= 2 AND substr(p.dflt_value, 1, 1) = ~~~~ AND substr(p.dflt_value, '',
      ''length(p.dflt_value), 1) = ~~~~ THEN replace(substr(p.dflt_value, 2, length(p.dflt_value) - 2), ~~~~~~, '',
      ''~~~~) ELSE p.dflt_value END'']"

section \<open>Rows\<close>

datatype tables = OneTable string | AllTables

definition SOURCE_BASE :: string where
  "SOURCE_BASE =
     sql_text [''SELECT name, type FROM sqlite_master WHERE type IN (~table~, ~view~) AND name NOT LIKE ~sqlite^_%~ '',
      ''ESCAPE ~^~'']"

fun tables_source :: "tables \<Rightarrow> string" where
  "tables_source (OneTable t) = ''('' @ SOURCE_BASE @ '' AND name = '' @ sql_str t @ '' COLLATE NOCASE) AS m''"
| "tables_source AllTables = ''('' @ SOURCE_BASE @ '') AS m''"

definition TABLE_ROWS_HEAD :: string where
  "TABLE_ROWS_HEAD =
     sql_text [''SELECT ~def~ AS TABLE_CATALOG, ~''] @
     SCHEMA_NAME @
     sql_text [''~ AS TABLE_SCHEMA, m.name COLLATE NOCASE AS TABLE_NAME, CASE m.type WHEN ~view~ THEN ~VIEW~ ELSE ~BASE '',
      ''TABLE~ END AS TABLE_TYPE, CASE m.type WHEN ~view~ THEN NULL ELSE ~InnoDB~ END AS ENGINE, 10 AS VERSION, '',
      ''~Dynamic~ AS ROW_FORMAT, NULL AS TABLE_ROWS, 0 AS AVG_ROW_LENGTH, 0 AS DATA_LENGTH, 0 AS '',
      ''MAX_DATA_LENGTH, 0 AS INDEX_LENGTH, 0 AS DATA_FREE, NULL AS AUTO_INCREMENT, NULL AS CREATE_TIME, NULL AS '',
      ''UPDATE_TIME, NULL AS CHECK_TIME, ~utf8mb4_unicode_ci~ AS TABLE_COLLATION, NULL AS CHECKSUM, ~~ AS '',
      ''CREATE_OPTIONS, ~~ AS TABLE_COMMENT FROM '']"

definition table_rows :: string where
  "table_rows = TABLE_ROWS_HEAD @ tables_source AllTables"

definition COLUMN_UNI :: string where
  "COLUMN_UNI =
     sql_text [''EXISTS (SELECT 1 FROM pragma_index_list(m.name) AS il WHERE il.#unique# = 1 AND (SELECT count(*) FROM '',
      ''pragma_index_info(il.name)) = 1 AND (SELECT ii.name FROM pragma_index_info(il.name) AS ii) = p.name)'']"

definition COLUMN_MUL :: string where
  "COLUMN_MUL =
     sql_text [''EXISTS (SELECT 1 FROM pragma_index_list(m.name) AS il JOIN pragma_index_info(il.name) AS ii WHERE '',
      ''ii.seqno = 0 AND ii.name = p.name)'']"

definition COLUMN_AUTO :: string where
  "COLUMN_AUTO =
     sql_text [''p.pk = 1 AND upper(p.type) = ~INTEGER~ AND (SELECT count(*) FROM pragma_table_info(m.name) AS q WHERE '',
      ''q.pk > 0) = 1'']"

definition COLUMN_ROWS_HEAD :: string where
  "COLUMN_ROWS_HEAD =
     sql_text [''SELECT ~def~ AS TABLE_CATALOG, ~''] @
     SCHEMA_NAME @
     sql_text [''~ AS TABLE_SCHEMA, m.name COLLATE NOCASE AS TABLE_NAME, p.name COLLATE NOCASE AS COLUMN_NAME, p.cid + 1 '',
      ''AS ORDINAL_POSITION, ''] @
     COLUMN_DEFAULT @
     sql_text ['' AS COLUMN_DEFAULT, CASE WHEN p.#notnull# = 1 OR p.pk > 0 THEN ~NO~ ELSE ~YES~ END AS IS_NULLABLE, ''] @
     DATA_TYPE @
     sql_text ['' AS DATA_TYPE, CASE WHEN ''] @
     IS_TEXT @
     sql_text ['' THEN 4294967295 END AS CHARACTER_MAXIMUM_LENGTH, CASE WHEN ''] @
     IS_TEXT @
     sql_text ['' THEN 4294967295 END AS CHARACTER_OCTET_LENGTH, NULL AS NUMERIC_PRECISION, NULL AS NUMERIC_SCALE, NULL '',
      ''AS DATETIME_PRECISION, CASE WHEN ''] @
     IS_TEXT @
     sql_text ['' THEN ~utf8mb4~ END AS CHARACTER_SET_NAME, CASE WHEN ''] @
     IS_TEXT @
     sql_text ['' THEN ~utf8mb4_unicode_ci~ END AS COLLATION_NAME, ''] @
     COLUMN_TYPE @
     sql_text ['' AS COLUMN_TYPE, CASE WHEN p.pk > 0 THEN ~PRI~ WHEN ''] @
     COLUMN_UNI @
     sql_text ['' THEN ~UNI~ WHEN ''] @
     COLUMN_MUL @
     sql_text ['' THEN ~MUL~ ELSE ~~ END AS COLUMN_KEY, CASE WHEN ''] @
     COLUMN_AUTO @
     sql_text ['' THEN ~auto_increment~ ELSE ~~ END AS EXTRA, ~select,insert,update,references~ AS PRIVILEGES, ~~ AS '',
      ''COLUMN_COMMENT, ~~ AS GENERATION_EXPRESSION, NULL AS SRS_ID FROM '']"

definition column_rows :: "tables \<Rightarrow> string" where
  "column_rows tables = COLUMN_ROWS_HEAD @ tables_source tables @ sql_text ['' JOIN pragma_table_info(m.name) AS p'']"

definition INDEX_NAME :: string where
  "INDEX_NAME =
     sql_text [''CASE WHEN il.origin = ~u~ AND il.name LIKE ~sqlite^_autoindex^_%~ ESCAPE ~^~ THEN (SELECT x.name FROM '',
      ''pragma_index_info(il.name) AS x WHERE x.seqno = 0) WHEN length(il.name) > length(m.name) + 2 AND '',
      ''substr(il.name, 1, length(m.name) + 2) = m.name || ~__~ COLLATE NOCASE THEN substr(il.name, '',
      ''length(m.name) + 3) ELSE il.name END'']"

definition PRIMARY_ROWS_HEAD :: string where
  "PRIMARY_ROWS_HEAD =
     sql_text [''SELECT m.name COLLATE NOCASE AS TABLE_NAME, 0 AS NON_UNIQUE, ~PRIMARY~ COLLATE NOCASE AS INDEX_NAME, '',
      ''p.pk AS SEQ_IN_INDEX, p.name COLLATE NOCASE AS COLUMN_NAME, ~~ AS NULLABLE, -1000000000 AS __ord FROM '']"

definition INDEX_ROWS_HEAD :: string where
  "INDEX_ROWS_HEAD =
     sql_text ['' JOIN pragma_table_info(m.name) AS p WHERE p.pk > 0 UNION ALL SELECT m.name, 1 - il.#unique#, ''] @
     INDEX_NAME @
     sql_text ['', ii.seqno + 1, ii.name, CASE WHEN c.#notnull# = 1 OR c.pk > 0 THEN ~~ ELSE ~YES~ END, -il.seq FROM '']"

definition INDEX_ROWS_TAIL :: string where
  "INDEX_ROWS_TAIL =
     sql_text ['' JOIN pragma_index_list(m.name) AS il JOIN pragma_index_info(il.name) AS ii LEFT JOIN '',
      ''pragma_table_info(m.name) AS c ON c.name = ii.name WHERE il.origin <> ~pk~'']"

definition index_rows :: "tables \<Rightarrow> string" where
  "index_rows tables =
     PRIMARY_ROWS_HEAD @ tables_source tables @ INDEX_ROWS_HEAD @ tables_source tables @ INDEX_ROWS_TAIL"

section \<open>Tables of the information schema\<close>

definition statistics_rows :: string where
  "statistics_rows =
     sql_text [''SELECT ~def~ AS TABLE_CATALOG, ~''] @
     SCHEMA_NAME @
     sql_text [''~ AS TABLE_SCHEMA, TABLE_NAME, NON_UNIQUE, ~''] @
     SCHEMA_NAME @
     sql_text [''~ AS INDEX_SCHEMA, INDEX_NAME, SEQ_IN_INDEX, COLUMN_NAME, ~A~ AS COLLATION, NULL AS CARDINALITY, NULL AS '',
      ''SUB_PART, NULL AS PACKED, NULLABLE, ~BTREE~ AS INDEX_TYPE, ~~ AS COMMENT, ~~ AS INDEX_COMMENT, ~YES~ AS '',
      ''IS_VISIBLE, NULL AS EXPRESSION FROM (''] @
     index_rows AllTables @
     sql_text ['') ORDER BY TABLE_NAME, __ord, SEQ_IN_INDEX'']"

definition schemata_rows :: string where
  "schemata_rows =
     sql_text [''SELECT ~def~ AS CATALOG_NAME, ~''] @
     SCHEMA_NAME @
     sql_text [''~ COLLATE NOCASE AS SCHEMA_NAME, ~utf8mb4~ AS DEFAULT_CHARACTER_SET_NAME, ~utf8mb4_unicode_ci~ AS '',
      ''DEFAULT_COLLATION_NAME, NULL AS SQL_PATH, ~NO~ AS DEFAULT_ENCRYPTION'']"

definition FK_NAME :: string where
  "FK_NAME =
     sql_text [''(m.name || ~_ibfk_~ || (f.id + 1)) COLLATE NOCASE'']"

definition key_column_usage_rows :: string where
  "key_column_usage_rows =
     sql_text [''SELECT ~def~ AS CONSTRAINT_CATALOG, ~''] @
     SCHEMA_NAME @
     sql_text [''~ AS CONSTRAINT_SCHEMA, ''] @
     FK_NAME @
     sql_text ['' AS CONSTRAINT_NAME, ~def~ AS TABLE_CATALOG, ~''] @
     SCHEMA_NAME @
     sql_text [''~ AS TABLE_SCHEMA, m.name COLLATE NOCASE AS TABLE_NAME, f.#from# COLLATE NOCASE AS COLUMN_NAME, '',
      ''CAST(f.seq + 1 AS INTEGER) AS ORDINAL_POSITION, CAST(f.seq + 1 AS INTEGER) AS '',
      ''POSITION_IN_UNIQUE_CONSTRAINT, ~''] @
     SCHEMA_NAME @
     sql_text [''~ AS REFERENCED_TABLE_SCHEMA, f.#table# COLLATE NOCASE AS REFERENCED_TABLE_NAME, COALESCE(NULLIF(f.#to#, '',
      ''~~), k.name) COLLATE NOCASE AS REFERENCED_COLUMN_NAME FROM ''] @
     tables_source AllTables @
     sql_text ['' JOIN pragma_foreign_key_list(m.name) AS f LEFT JOIN pragma_table_info(f.#table#) AS k ON k.pk = f.seq + '',
      ''1'']"

definition referential_constraints_rows :: string where
  "referential_constraints_rows =
     sql_text [''SELECT ~def~ AS CONSTRAINT_CATALOG, ~''] @
     SCHEMA_NAME @
     sql_text [''~ AS CONSTRAINT_SCHEMA, ''] @
     FK_NAME @
     sql_text ['' AS CONSTRAINT_NAME, ~def~ AS UNIQUE_CONSTRAINT_CATALOG, ~''] @
     SCHEMA_NAME @
     sql_text [''~ AS UNIQUE_CONSTRAINT_SCHEMA, ~PRIMARY~ AS UNIQUE_CONSTRAINT_NAME, ~NONE~ AS MATCH_OPTION, f.on_update '',
      ''AS UPDATE_RULE, f.on_delete AS DELETE_RULE, m.name COLLATE NOCASE AS TABLE_NAME, f.#table# COLLATE '',
      ''NOCASE AS REFERENCED_TABLE_NAME FROM ''] @
     tables_source AllTables @
     sql_text ['' JOIN pragma_foreign_key_list(m.name) AS f WHERE f.seq = 0'']"

definition table_constraints_rows :: string where
  "table_constraints_rows =
     sql_text [''SELECT ~def~ AS CONSTRAINT_CATALOG, ~''] @
     SCHEMA_NAME @
     sql_text [''~ AS CONSTRAINT_SCHEMA, ~PRIMARY~ COLLATE NOCASE AS CONSTRAINT_NAME, ~''] @
     SCHEMA_NAME @
     sql_text [''~ AS TABLE_SCHEMA, m.name COLLATE NOCASE AS TABLE_NAME, ~PRIMARY KEY~ AS CONSTRAINT_TYPE, ~YES~ AS '',
      ''ENFORCED FROM ''] @
     tables_source AllTables @
     sql_text ['' WHERE m.type = ~table~ AND EXISTS (SELECT 1 FROM pragma_table_info(m.name) AS p WHERE p.pk > 0) UNION '',
      ''ALL SELECT ~def~, ~''] @
     SCHEMA_NAME @
     sql_text [''~, ''] @
     FK_NAME @
     sql_text ['', ~''] @
     SCHEMA_NAME @
     sql_text [''~, m.name COLLATE NOCASE, ~FOREIGN KEY~, ~YES~ FROM ''] @
     tables_source AllTables @
     sql_text ['' JOIN pragma_foreign_key_list(m.name) AS f WHERE f.seq = 0'']"

definition check_constraints_rows :: string where
  "check_constraints_rows =
     sql_text [''SELECT ~def~ AS CONSTRAINT_CATALOG, ~''] @
     SCHEMA_NAME @
     sql_text [''~ AS CONSTRAINT_SCHEMA, ~~ AS CONSTRAINT_NAME, ~~ AS CHECK_CLAUSE WHERE 0'']"

definition PLACEHOLDER_PREFIX :: string where "PLACEHOLDER_PREFIX = ''__litewire_is_''"

definition emulation_for :: "string \<Rightarrow> (string \<times> string) option" where
  "emulation_for table =
     (let t = to_ascii_lowercase table in
      map_option (\<lambda>rows. (t, rows))
        (map_of [(''tables'', table_rows), (''columns'', column_rows AllTables), (''statistics'', statistics_rows),
                 (''schemata'', schemata_rows), (''key_column_usage'', key_column_usage_rows),
                 (''table_constraints'', table_constraints_rows), (''check_constraints'', check_constraints_rows),
                 (''referential_constraints'', referential_constraints_rows)] t))"

definition mentions_information_schema :: "string \<Rightarrow> bool" where
  "mentions_information_schema sql \<longleftrightarrow> contains_str (to_ascii_lowercase sql) ''information_schema''"

text \<open>\<^verbatim>\<open>str::replace\<close>, from left to right; the pattern is not empty.\<close>

function replace_str :: "string \<Rightarrow> string \<Rightarrow> string \<Rightarrow> string" where
  "replace_str [] pat to = []"
| "replace_str (c # s) pat to =
     (if pat \<noteq> [] \<and> starts_with (c # s) pat then to @ replace_str (drop (length pat) (c # s)) pat to
      else c # replace_str s pat to)"
  by pat_completeness auto
termination
  by (relation "measure (\<lambda>(s, pat, to). length s)") auto

fun splice :: "string \<Rightarrow> (string \<times> string) list \<Rightarrow> string" where
  "splice sql [] = sql"
| "splice sql ((placeholder, emulation) # found) = splice (replace_str sql placeholder (''('' @ emulation @ '')'')) found"

section \<open>Reading a text character by character\<close>

text \<open>
  How SQLite reads a text: where a quoted token, a comment or the end of the statement starts. \<open>Cut\<close> is reached at a
  semicolon or a comment outside of quotes.
\<close>

datatype reading = Open | Dash | Slash | Within char | Cut

definition opens :: "char \<Rightarrow> reading" where
  "opens c =
     (if c = CHR '';'' then Cut else if c = sq \<or> c = dq \<or> c = bt then Within c else if c = CHR ''['' then Within (CHR '']'')
      else if c = CHR ''-'' then Dash else if c = CHR ''/'' then Slash else Open)"

fun reads :: "reading \<Rightarrow> char \<Rightarrow> reading" where
  "reads Open c = opens c"
| "reads Dash c = (if c = CHR ''-'' then Cut else opens c)"
| "reads Slash c = (if c = CHR ''*'' then Cut else opens c)"
| "reads (Within q) c = (if c = q then Open else Within q)"
| "reads Cut c = Cut"

definition closed :: "string \<Rightarrow> bool" where
  "closed s \<longleftrightarrow> foldl reads Open s = Open"

lemma closed_append: "closed a \<Longrightarrow> closed b \<Longrightarrow> closed (a @ b)"
  by (simp add: closed_def)

lemma closed_sql_str: "closed (sql_str s)"
proof -
  have o: "opens sq = Within sq" by code_simp
  have "foldl reads (Within sq) (concat (map (\<lambda>c. if c = sq then [sq, sq] else [c]) s)) = Within sq"
    by (induction s) (auto simp: o)
  then show ?thesis by (simp add: closed_def sql_str_def o)
qed

lemma closed_source: "closed (tables_source tables)"
proof (cases tables)
  case (OneTable t)
  have "closed (''('' @ SOURCE_BASE @ '' AND name = '')" "closed ('' COLLATE NOCASE) AS m'')" by code_simp+
  from closed_append [OF this(1) closed_append [OF closed_sql_str this(2)]] show ?thesis by (simp add: OneTable)
next
  case AllTables
  have "closed (tables_source AllTables)" by code_simp
  then show ?thesis by (simp add: AllTables)
qed

lemma closed_rows: "closed table_rows" "closed (column_rows tables)" "closed (index_rows tables)"
proof -
  show "closed table_rows" by code_simp
  have "closed COLUMN_ROWS_HEAD" "closed (sql_text ['' JOIN pragma_table_info(m.name) AS p''])" by code_simp+
  then show "closed (column_rows tables)" unfolding column_rows_def by (intro closed_append closed_source)
  have "closed PRIMARY_ROWS_HEAD" "closed INDEX_ROWS_HEAD" "closed INDEX_ROWS_TAIL" by code_simp+
  then show "closed (index_rows tables)" unfolding index_rows_def by (intro closed_append closed_source)
qed

lemma closed_emulations:
  "closed statistics_rows" "closed schemata_rows" "closed key_column_usage_rows" "closed referential_constraints_rows"
  "closed table_constraints_rows" "closed check_constraints_rows"
  by code_simp+

lemma emulation_closed: "emulation_for table = Some (name, rows) \<Longrightarrow> closed rows"
  using closed_rows closed_emulations by (auto simp: emulation_for_def Let_def split: if_splits)

end
