(* ===== verification/Metadata.thy ===== *)
theory Metadata
  imports Catalog
begin

text \<open>
  Metadata statements (\<^verbatim>\<open>src/crates/litewire-translate/src/metadata.rs\<close>): recognising \<^verbatim>\<open>SHOW\<close>, \<^verbatim>\<open>DESCRIBE\<close>, reads of system variables and the
  PostgreSQL and T-SQL catalog shortcuts, and the SQLite text that answers them. The translation of a filter to a SQLite
  predicate runs on the parser's syntax tree and is a parameter, as are the two uses of \<^verbatim>\<open>{:?}\<close> in error texts and the Unicode
  class of a character that is not ASCII.
\<close>

section \<open>Queries and their SQLite texts\<close>

record system_variable =
  sv_name :: string
  sv_global :: bool
  sv_label :: string

datatype metadata_query =
    ShowTables bool "string option"
  | ShowTableStatus "string option"
  | ShowDatabases
  | ShowColumns string bool "string option"
  | ShowCreateTable string
  | ShowIndex string "string option"
  | SystemVariables "system_variable list"
  | PgCatalogTables
  | PgCatalogColumns string
  | SysTables
  | SysColumns string

definition SHOW_ALIAS :: string where "SHOW_ALIAS = ''__litewire_show''"

definition where_clause :: "string option \<Rightarrow> string" where
  "where_clause f = (case f of None \<Rightarrow> [] | Some f \<Rightarrow> '' WHERE ('' @ f @ '')'')"

definition system_variable_values :: "(string \<times> string) list" where
  "system_variable_values =
     [(''max_allowed_packet'', ''67108864''),
      (''wait_timeout'', ''28800''),
      (''interactive_timeout'', ''28800''),
      (''net_write_timeout'', ''60''),
      (''net_read_timeout'', ''30''),
      (''socket'', sql_text [''~/tmp/litewire.sock~'']),
      (''character_set_client'', sql_text [''~utf8mb4~'']),
      (''character_set_connection'', sql_text [''~utf8mb4~'']),
      (''character_set_results'', sql_text [''~utf8mb4~'']),
      (''character_set_server'', sql_text [''~utf8mb4~'']),
      (''collation_connection'', sql_text [''~utf8mb4_general_ci~'']),
      (''collation_server'', sql_text [''~utf8mb4_general_ci~'']),
      (''version'', sql_text [''~8.0.36-litewire~'']),
      (''version_comment'', sql_text [''~litewire~'']),
      (''sql_mode'', sql_text [''~~'']),
      (''lower_case_table_names'', ''0''),
      (''autocommit'', ''1''),
      (''transaction_isolation'', sql_text [''~SERIALIZABLE~'']),
      (''tx_isolation'', sql_text [''~SERIALIZABLE~'']),
      (''identity'', ''last_insert_rowid()''),
      (''rowcount'', ''changes()'')]"

definition system_variable_value :: "string \<Rightarrow> string" where
  "system_variable_value name =
     (case map_of system_variable_values (to_ascii_lowercase name) of Some v \<Rightarrow> v | None \<Rightarrow> ''NULL'')"

text \<open>The column of a system variable, for a session whose \<^verbatim>\<open>sql_mode\<close> was set to \<open>mode\<close> or never set.\<close>

definition variable_column :: "string option \<Rightarrow> system_variable \<Rightarrow> string" where
  "variable_column mode v =
     (if eq_ignore_ascii_case (sv_name v) ''sql_mode''
      then sql_str (if sv_global v then DEFAULT_SQL_MODE else case mode of Some m \<Rightarrow> m | None \<Rightarrow> DEFAULT_SQL_MODE)
      else system_variable_value (sv_name v)) @
     '' AS '' @ [dq] @ concat (map (\<lambda>c. if c = dq then [dq, dq] else [c]) (sv_label v)) @ [dq]"

fun join_columns :: "string list \<Rightarrow> string" where
  "join_columns [] = []"
| "join_columns [w] = w"
| "join_columns (w # ws) = w @ '', '' @ join_columns ws"

definition SHOW_TABLES_FULL :: string where
  "SHOW_TABLES_FULL =
     sql_text [''#Tables_in_database#, #Table_type#'']"

definition SHOW_TABLES_PLAIN :: string where
  "SHOW_TABLES_PLAIN =
     sql_text [''#Tables_in_database#'']"

definition SHOW_TABLES_HEAD :: string where
  "SHOW_TABLES_HEAD =
     sql_text ['' FROM (SELECT TABLE_NAME AS #Tables_in_database#, TABLE_TYPE AS #Table_type# FROM ('']"

definition SHOW_STATUS_HEAD :: string where
  "SHOW_STATUS_HEAD =
     sql_text [''SELECT #Name#, #Engine#, #Version#, #Row_format#, #Rows#, #Avg_row_length#, #Data_length#, '',
      ''#Max_data_length#, #Index_length#, #Data_free#, #Auto_increment#, #Create_time#, #Update_time#, '',
      ''#Check_time#, #Collation#, #Checksum#, #Create_options#, #Comment# FROM (SELECT TABLE_NAME AS #Name#, '',
      ''ENGINE AS #Engine#, VERSION AS #Version#, ROW_FORMAT AS #Row_format#, TABLE_ROWS AS #Rows#, '',
      ''AVG_ROW_LENGTH AS #Avg_row_length#, DATA_LENGTH AS #Data_length#, MAX_DATA_LENGTH AS #Max_data_length#, '',
      ''INDEX_LENGTH AS #Index_length#, DATA_FREE AS #Data_free#, AUTO_INCREMENT AS #Auto_increment#, '',
      ''CREATE_TIME AS #Create_time#, UPDATE_TIME AS #Update_time#, CHECK_TIME AS #Check_time#, TABLE_COLLATION '',
      ''AS #Collation#, CHECKSUM AS #Checksum#, CREATE_OPTIONS AS #Create_options#, TABLE_COMMENT AS #Comment# '',
      ''FROM ('']"

definition SHOW_COLUMNS_FULL :: string where
  "SHOW_COLUMNS_FULL =
     sql_text [''#Field#, #Type#, #Collation#, #Null#, #Key#, #Default#, #Extra#, #Privileges#, #Comment#'']"

definition SHOW_COLUMNS_PLAIN :: string where
  "SHOW_COLUMNS_PLAIN =
     sql_text [''#Field#, #Type#, #Null#, #Key#, #Default#, #Extra#'']"

definition SHOW_COLUMNS_HEAD :: string where
  "SHOW_COLUMNS_HEAD =
     sql_text ['' FROM (SELECT COLUMN_NAME AS #Field#, COLUMN_TYPE AS #Type#, COLLATION_NAME AS #Collation#, IS_NULLABLE '',
      ''AS #Null#, COLUMN_KEY AS #Key#, COLUMN_DEFAULT AS #Default#, EXTRA AS #Extra#, PRIVILEGES AS '',
      ''#Privileges#, COLUMN_COMMENT AS #Comment#, ORDINAL_POSITION AS __ord FROM ('']"

definition SHOW_CREATE_HEAD :: string where
  "SHOW_CREATE_HEAD =
     sql_text [''SELECT name AS #Table#, sql AS #Create Table# FROM sqlite_master WHERE type = ~table~ AND name = '']"

definition SHOW_INDEX_HEAD :: string where
  "SHOW_INDEX_HEAD =
     sql_text [''SELECT #Table#, #Non_unique#, #Key_name#, #Seq_in_index#, #Column_name#, #Collation#, #Cardinality#, '',
      ''#Sub_part#, #Packed#, #Null#, #Index_type#, #Comment#, #Index_comment#, #Visible#, #Expression# FROM '',
      ''(SELECT TABLE_NAME AS #Table#, NON_UNIQUE AS #Non_unique#, INDEX_NAME AS #Key_name#, SEQ_IN_INDEX AS '',
      ''#Seq_in_index#, COLUMN_NAME AS #Column_name#, ~A~ AS #Collation#, NULL AS #Cardinality#, NULL AS '',
      ''#Sub_part#, NULL AS #Packed#, NULLABLE AS #Null#, ~BTREE~ AS #Index_type#, ~~ AS #Comment#, ~~ AS '',
      ''#Index_comment#, ~YES~ AS #Visible#, NULL AS #Expression#, __ord FROM ('']"

definition PG_TABLES_TEXT :: string where
  "PG_TABLES_TEXT =
     sql_text [''SELECT name AS tablename, ~main~ AS schemaname FROM sqlite_master WHERE type=~table~ AND name NOT LIKE '',
      ''~sqlite_%~ ORDER BY name'']"

definition PG_COLUMNS_MIDDLE :: string where
  "PG_COLUMNS_MIDDLE =
     sql_text [''~ AS table_name, name AS column_name, type AS data_type, CASE WHEN #notnull# = 1 THEN ~NO~ ELSE ~YES~ '',
      ''END AS is_nullable, dflt_value AS column_default FROM pragma_table_info(~'']"

definition SYS_TABLES_TEXT :: string where
  "SYS_TABLES_TEXT =
     sql_text [''SELECT name, ~U~ AS type FROM sqlite_master WHERE type=~table~ AND name NOT LIKE ~sqlite_%~ ORDER BY name'']"

definition SYS_COLUMNS_HEAD :: string where
  "SYS_COLUMNS_HEAD =
     sql_text [''SELECT name AS COLUMN_NAME, type AS DATA_TYPE, CASE WHEN #notnull# = 1 THEN 0 ELSE 1 END AS is_nullable '',
      ''FROM pragma_table_info(~'']"

fun to_sqlite_sql_with :: "metadata_query \<Rightarrow> string option \<Rightarrow> string" where
  "to_sqlite_sql_with (ShowTables full flt) mode =
     ''SELECT '' @ (if full then SHOW_TABLES_FULL else SHOW_TABLES_PLAIN) @ SHOW_TABLES_HEAD @ table_rows @ '')) AS '' @ SHOW_ALIAS @ where_clause flt @
     sql_text ['' ORDER BY #Tables_in_database#'']"
| "to_sqlite_sql_with (ShowTableStatus flt) mode =
     SHOW_STATUS_HEAD @ table_rows @ '')) AS '' @ SHOW_ALIAS @ where_clause flt @ sql_text ['' ORDER BY #Name#'']"
| "to_sqlite_sql_with ShowDatabases mode = sql_text [''SELECT ~main~ AS #Database#'']"
| "to_sqlite_sql_with (ShowColumns table full flt) mode =
     ''SELECT '' @ (if full then SHOW_COLUMNS_FULL else SHOW_COLUMNS_PLAIN) @ SHOW_COLUMNS_HEAD @ column_rows (OneTable table) @
     '')) AS '' @ SHOW_ALIAS @ where_clause flt @ '' ORDER BY __ord''"
| "to_sqlite_sql_with (ShowCreateTable table) mode = SHOW_CREATE_HEAD @ sql_str table @ '' COLLATE NOCASE''"
| "to_sqlite_sql_with (ShowIndex table flt) mode =
     SHOW_INDEX_HEAD @ index_rows (OneTable table) @ '')) AS '' @ SHOW_ALIAS @ where_clause flt @ sql_text ['' ORDER BY __ord, #Seq_in_index#'']"
| "to_sqlite_sql_with (SystemVariables variables) mode = ''SELECT '' @ join_columns (map (variable_column mode) variables)"
| "to_sqlite_sql_with PgCatalogTables mode = PG_TABLES_TEXT"
| "to_sqlite_sql_with (PgCatalogColumns table) mode =
     sql_text [''SELECT ~''] @ table @ PG_COLUMNS_MIDDLE @ table @ sql_text [''~) ORDER BY cid'']"
| "to_sqlite_sql_with SysTables mode = SYS_TABLES_TEXT"
| "to_sqlite_sql_with (SysColumns table) mode = SYS_COLUMNS_HEAD @ table @ sql_text [''~) ORDER BY cid'']"

definition to_sqlite_sql :: "metadata_query \<Rightarrow> string" where
  "to_sqlite_sql q = to_sqlite_sql_with q None"

section \<open>System variables\<close>

text \<open>A name with an optional scope, from token \<open>i\<close> on: the name, whether it is global, and the next token.\<close>

definition variable_name :: "lexed list \<Rightarrow> nat \<Rightarrow> (string \<times> bool \<times> nat) option" where
  "variable_name toks i =
     (case tok_at toks i of
        Some (Word first) \<Rightarrow>
          if tok_at toks (i + 1) = Some Dot
          then (let scope = to_ascii_uppercase first in
                if scope \<notin> {''GLOBAL'', ''SESSION'', ''LOCAL''} then None
                else case tok_at toks (i + 2) of Some (Word n) \<Rightarrow> Some (n, scope = ''GLOBAL'', i + 3) | _ \<Rightarrow> None)
          else Some (first, False, i + 1)
      | _ \<Rightarrow> None)"

text \<open>The label as written or the alias, and the next token.\<close>

definition variable_label :: "string \<Rightarrow> lexed list \<Rightarrow> nat \<Rightarrow> nat \<Rightarrow> string \<times> nat" where
  "variable_label sql toks start i =
     (let last_tok = toks ! (i - 1);
          end_pos = tok_start last_tok + (case tok last_tok of Word w \<Rightarrow> length w | _ \<Rightarrow> 1);
          written = take (end_pos - start) (drop start sql);
          j = (if is_word toks i ''AS'' then i + 1 else i) in
      case tok_at toks j of
        Some (Word a) \<Rightarrow> if eq_ignore_ascii_case a ''LIMIT'' then (written, j) else (a, j + 1)
      | Some (Quoted a) \<Rightarrow> (a, j + 1)
      | Some (Str a) \<Rightarrow> (a, j + 1)
      | _ \<Rightarrow> (written, j))"

lemma variable_name_advances: "variable_name toks i = Some (n, g, j) \<Longrightarrow> i < j \<and> j \<le> i + 3"
  by (auto simp: variable_name_def Let_def split: option.splits tok.splits if_splits)

lemma variable_label_advances: "variable_label sql toks start i = (l, j) \<Longrightarrow> i \<le> j"
  by (auto simp: variable_label_def Let_def split: option.splits tok.splits if_splits)

function variable_items :: "string \<Rightarrow> lexed list \<Rightarrow> nat \<Rightarrow> (system_variable list \<times> nat) option" where
  "variable_items sql toks i =
     (if \<not> (tok_at toks i = Some (OtherTok (CHR ''@'')) \<and> tok_at toks (i + 1) = Some (OtherTok (CHR ''@''))) then None
      else case variable_name toks (i + 2) of
        None \<Rightarrow> None
      | Some (name, global, j) \<Rightarrow>
          (case variable_label sql toks (tok_start (toks ! i)) j of
             (label, k) \<Rightarrow>
               (let item = \<lparr>sv_name = name, sv_global = global, sv_label = label\<rparr> in
                if tok_at toks k = Some (OtherTok (CHR '',''))
                then map_option (\<lambda>(rest, n). (item # rest, n)) (variable_items sql toks (k + 1))
                else Some ([item], k))))"
  by pat_completeness auto
termination
proof (relation "measure (\<lambda>(sql, toks, i). length toks - i)", goal_cases)
  case (2 sql toks i x name y global j label k item)
  then have "i < length toks" "i < k + 1"
    using variable_name_advances [of toks "i + 2"] variable_label_advances [of sql toks _ j label k]
    by (fastforce simp: tok_at_def split: if_splits)+
  then show ?case by simp
qed simp

definition parse_system_variable_select :: "string \<Rightarrow> system_variable list option" where
  "parse_system_variable_select sql =
     (case lex sql of
        Inl e \<Rightarrow> None
      | Inr toks \<Rightarrow>
          if \<not> is_word toks 0 ''SELECT'' then None
          else case variable_items sql toks 1 of
            None \<Rightarrow> None
          | Some (items, i) \<Rightarrow>
              (case (if is_word toks i ''LIMIT''
                     then (case tok_at toks (i + 1) of
                             Some (Word n) \<Rightarrow> if list_all is_ascii_digit n then Some (i + 2) else None
                           | _ \<Rightarrow> None)
                     else Some i) of
                 None \<Rightarrow> None
               | Some j \<Rightarrow>
                   (let k = (if tok_at toks j = Some Semi then j + 1 else j) in
                    if k = length toks then Some items else None)))"

section \<open>SHOW and DESCRIBE\<close>

record metadata_env =
  md_predicate :: "string \<Rightarrow> translate_error + string"
  md_debug :: "tok \<Rightarrow> string"
  md_debug_option :: "tok option \<Rightarrow> string"
  md_alphanumeric :: "string \<Rightarrow> bool"

record cursor =
  cur_sql :: string
  cur_toks :: "lexed list"
  cur_pos :: nat

type_synonym 'a parser = "cursor \<Rightarrow> translate_error + 'a \<times> cursor"

definition and_parse :: "'a parser \<Rightarrow> ('a \<Rightarrow> 'b parser) \<Rightarrow> 'b parser" where
  "and_parse p f cur = (case p cur of Inl e \<Rightarrow> Inl e | Inr (a, cur1) \<Rightarrow> f a cur1)"

definition parsed :: "'a \<Rightarrow> 'a parser" where
  "parsed a cur = Inr (a, cur)"

definition lifted :: "translate_error + 'a \<Rightarrow> 'a parser" where
  "lifted r cur = (case r of Inl e \<Rightarrow> Inl e | Inr a \<Rightarrow> Inr (a, cur))"

definition peek :: "cursor \<Rightarrow> tok option" where
  "peek cur = tok_at (cur_toks cur) (cur_pos cur)"

definition advance :: "cursor \<Rightarrow> cursor" where
  "advance cur = cur\<lparr>cur_pos := cur_pos cur + 1\<rparr>"

definition at_keyword :: "string \<Rightarrow> cursor \<Rightarrow> bool" where
  "at_keyword kw cur = is_word (cur_toks cur) (cur_pos cur) kw"

definition keyword :: "string \<Rightarrow> bool parser" where
  "keyword kw cur = (if at_keyword kw cur then Inr (True, advance cur) else Inr (False, cur))"

text \<open>\<^verbatim>\<open>cur.keyword(a) || cur.keyword(b)\<close>\<close>

definition either_keyword :: "string \<Rightarrow> string \<Rightarrow> bool parser" where
  "either_keyword a b = and_parse (keyword a) (\<lambda>found. if found then parsed True else keyword b)"

definition peek_word :: "cursor \<Rightarrow> string option" where
  "peek_word cur = (case peek cur of Some (Word w) \<Rightarrow> Some (to_ascii_uppercase w) | _ \<Rightarrow> None)"

definition ident :: "metadata_env \<Rightarrow> string parser" where
  "ident env cur =
     (case peek cur of
        Some (Word w) \<Rightarrow> Inr (w, advance cur)
      | Some (Quoted w) \<Rightarrow> Inr (w, advance cur)
      | other \<Rightarrow> Inl (Parse (''expected an identifier, found '' @ md_debug_option env other)))"

definition qualified_name :: "metadata_env \<Rightarrow> (string option \<times> string) parser" where
  "qualified_name env =
     and_parse (ident env) (\<lambda>first cur.
       if peek cur = Some Dot then and_parse (ident env) (\<lambda>second. parsed (Some first, second)) (advance cur)
       else Inr ((None, first), cur))"

definition optional_db :: "metadata_env \<Rightarrow> string option parser" where
  "optional_db env = and_parse (either_keyword ''FROM'' ''IN'') (\<lambda>found. if found then and_parse (ident env) (\<lambda>d. parsed (Some d)) else parsed None)"

definition rest_text :: "cursor \<Rightarrow> string" where
  "rest_text cur =
     (if cur_pos cur < length (cur_toks cur) then trim (drop (tok_start (cur_toks cur ! cur_pos cur)) (cur_sql cur)) else [])"

definition at_end :: "metadata_env \<Rightarrow> unit parser" where
  "at_end env cur =
     (let cur1 = (if peek cur = Some Semi then advance cur else cur) in
      case peek cur1 of
        None \<Rightarrow> Inr ((), cur1)
      | Some t \<Rightarrow> Inl (Unsupported (''unexpected '' @ md_debug env t @ '' in metadata statement: '' @ rest_text cur1)))"

datatype show_filter = NoFilter | LikeFilter string | WhereFilter string

definition filter_clause :: "metadata_env \<Rightarrow> bool \<Rightarrow> show_filter parser" where
  "filter_clause env allow_like =
     and_parse (if allow_like then keyword ''LIKE'' else parsed False) (\<lambda>like cur.
       if like
       then (if rest_text cur = [] then Inl (Parse ''LIKE without a pattern'') else Inr (LikeFilter (rest_text cur), cur))
       else and_parse (keyword ''WHERE'') (\<lambda>wh cur1.
         if wh
         then (if rest_text cur1 = [] then Inl (Parse ''WHERE without a condition'') else Inr (WhereFilter (rest_text cur1), cur1))
         else and_parse (at_end env) (\<lambda>_. parsed NoFilter) cur1) cur)"

definition check_db :: "string option \<Rightarrow> translate_error + unit" where
  "check_db db =
     (case db of
        Some d \<Rightarrow>
          if is_system_schema d
          then Inl (Unsupported (''litewire serves a single user database; schema '' @ [bt] @ d @ [bt] @ '' is not available''))
          else Inr ()
      | None \<Rightarrow> Inr ())"

definition translate_filter :: "metadata_env \<Rightarrow> show_filter \<Rightarrow> string \<Rightarrow> translate_error + string option" where
  "translate_filter env f like_column =
     (let predicate = (\<lambda>expr. case md_predicate env expr of Inl e \<Rightarrow> Inl e | Inr p \<Rightarrow> Inr (Some p)) in
      case f of
        NoFilter \<Rightarrow> Inr None
      | LikeFilter pattern \<Rightarrow> predicate ([bt] @ like_column @ [bt] @ '' LIKE '' @ pattern)
      | WhereFilter expr \<Rightarrow> predicate expr)"

definition unsupported_show :: "string \<Rightarrow> translate_error" where
  "unsupported_show what =
     Unsupported (''SHOW '' @ what @ '' is not supported by litewire (supported: SHOW [FULL] TABLES, '' @
       ''SHOW [FULL] COLUMNS|FIELDS, SHOW INDEX|INDEXES|KEYS, SHOW CREATE TABLE, '' @
       ''SHOW TABLE STATUS, SHOW DATABASES, DESCRIBE)'')"

definition EXPLAINED_WORDS :: "string list" where
  "EXPLAINED_WORDS =
     [''SELECT'', ''INSERT'', ''UPDATE'', ''DELETE'', ''REPLACE'', ''WITH'', ''TABLE'', ''FORMAT'', ''ANALYZE'', ''EXTENDED'',
      ''PARTITIONS'', ''FOR'']"

definition describe_pattern :: "string option parser" where
  "describe_pattern cur =
     (case peek cur of
        Some (Word c) \<Rightarrow> Inr (Some c, advance cur)
      | Some (Quoted c) \<Rightarrow> Inr (Some c, advance cur)
      | Some (Str c) \<Rightarrow> Inr (Some c, advance cur)
      | _ \<Rightarrow> Inr (None, cur))"

definition refuse_explained :: "unit parser" where
  "refuse_explained cur =
     (case peek_word cur of
        Some w \<Rightarrow>
          if w \<in> set EXPLAINED_WORDS then Inl (Unsupported (''DESCRIBE '' @ w @ '' (EXPLAIN) is not supported by litewire''))
          else Inr ((), cur)
      | None \<Rightarrow> Inr ((), cur))"

definition describe :: "metadata_env \<Rightarrow> metadata_query parser" where
  "describe env =
     and_parse refuse_explained (\<lambda>_.
     and_parse (qualified_name env) (\<lambda>(db, table).
     and_parse (lifted (check_db db)) (\<lambda>_.
     and_parse describe_pattern (\<lambda>pattern.
     and_parse (at_end env) (\<lambda>_.
     and_parse (lifted (case pattern of None \<Rightarrow> Inr None | Some p \<Rightarrow> translate_filter env (LikeFilter (sql_str p)) ''Field'')) (\<lambda>f.
     parsed (ShowColumns table False f)))))))"

text \<open>The words \<^verbatim>\<open>FULL\<close> and \<^verbatim>\<open>EXTENDED\<close>: whether the first occurs, and how many tokens they are.\<close>

definition word_is :: "string \<Rightarrow> tok \<Rightarrow> bool" where
  "word_is w t = (case t of Word x \<Rightarrow> eq_ignore_ascii_case x w | _ \<Rightarrow> False)"

fun show_modifiers :: "bool \<Rightarrow> lexed list \<Rightarrow> bool \<times> nat" where
  "show_modifiers full [] = (full, 0)"
| "show_modifiers full (l # ls) =
     (if word_is ''FULL'' (tok l) then apsnd Suc (show_modifiers True ls)
      else if word_is ''EXTENDED'' (tok l) then apsnd Suc (show_modifiers full ls)
      else (full, 0))"

text \<open>\<^verbatim>\<open>[FROM db]\<close>, the filter, and what it becomes.\<close>

definition checked_db :: "metadata_env \<Rightarrow> unit parser" where
  "checked_db env = and_parse (optional_db env) (\<lambda>db. lifted (check_db db))"

definition shown_filter :: "metadata_env \<Rightarrow> bool \<Rightarrow> string \<Rightarrow> string option parser" where
  "shown_filter env allow_like like_column =
     and_parse (filter_clause env allow_like) (\<lambda>f. lifted (translate_filter env f like_column))"

text \<open>\<^verbatim>\<open>FROM [db.]table [FROM db]\<close> of \<^verbatim>\<open>SHOW COLUMNS\<close> and \<^verbatim>\<open>SHOW INDEX\<close>.\<close>

definition shown_table :: "metadata_env \<Rightarrow> string \<Rightarrow> string parser" where
  "shown_table env kw =
     and_parse (either_keyword ''FROM'' ''IN'') (\<lambda>found.
     if \<not> found then lifted (Inl (Parse (''expected FROM after SHOW '' @ kw)))
     else and_parse (qualified_name env) (\<lambda>(db, table).
          and_parse (lifted (check_db db)) (\<lambda>_.
          and_parse (checked_db env) (\<lambda>_. parsed table))))"

definition SHOW_DATABASES_FILTERED :: string where
  "SHOW_DATABASES_FILTERED = ''SHOW DATABASES with LIKE/WHERE is not supported: litewire serves a single database''"

definition show_form :: "metadata_env \<Rightarrow> bool \<Rightarrow> string \<Rightarrow> metadata_query parser" where
  "show_form env full kw cur =
     (if kw = ''TABLE'' \<and> at_keyword ''STATUS'' cur
      then and_parse (checked_db env) (\<lambda>_. and_parse (shown_filter env True ''Name'') (\<lambda>f. parsed (ShowTableStatus f))) (advance cur)
      else if kw = ''TABLES''
      then and_parse (checked_db env) (\<lambda>_. and_parse (shown_filter env True ''Tables_in_database'') (\<lambda>f. parsed (ShowTables full f))) cur
      else if kw = ''DATABASES'' \<or> kw = ''SCHEMAS''
      then and_parse (filter_clause env True) (\<lambda>f.
             if f = NoFilter then parsed ShowDatabases else lifted (Inl (Unsupported SHOW_DATABASES_FILTERED))) cur
      else if kw = ''COLUMNS'' \<or> kw = ''FIELDS''
      then and_parse (shown_table env kw) (\<lambda>table. and_parse (shown_filter env True ''Field'') (\<lambda>f. parsed (ShowColumns table full f))) cur
      else if kw = ''INDEX'' \<or> kw = ''INDEXES'' \<or> kw = ''KEYS''
      then and_parse (shown_table env kw) (\<lambda>table. and_parse (shown_filter env False ''Key_name'') (\<lambda>f. parsed (ShowIndex table f))) cur
      else if kw = ''CREATE'' \<and> at_keyword ''TABLE'' cur
      then and_parse (qualified_name env) (\<lambda>(db, table).
           and_parse (lifted (check_db db)) (\<lambda>_.
           and_parse (at_end env) (\<lambda>_. parsed (ShowCreateTable table)))) (advance cur)
      else Inl (unsupported_show (kw @ '' ...'')))"

definition detect_show :: "metadata_env \<Rightarrow> string \<Rightarrow> translate_error + metadata_query option" where
  "detect_show env sql =
     (let first = to_ascii_uppercase (takeWhile (\<lambda>c. is_ascii_alphanumeric c \<or> c = CHR ''_'') sql) in
      if first \<notin> {''SHOW'', ''DESCRIBE'', ''DESC''} then Inr None
      else case lex sql of
        Inl e \<Rightarrow> Inl e
      | Inr toks \<Rightarrow>
          (let cur = \<lparr>cur_sql = sql, cur_toks = toks, cur_pos = 0\<rparr> in
           if at_keyword ''DESCRIBE'' cur \<or> at_keyword ''DESC'' cur then map_sum (\<lambda>e. e) (\<lambda>(q, _). Some q) (describe env (advance cur))
           else if \<not> at_keyword ''SHOW'' cur then Inr None
           else case show_modifiers False (drop 1 toks) of
             (full, n) \<Rightarrow>
               (let cur1 = cur\<lparr>cur_pos := 1 + n\<rparr> in
                case peek_word cur1 of
                  None \<Rightarrow> Inl (unsupported_show (rest_text cur1))
                | Some kw \<Rightarrow> map_sum (\<lambda>e. e) (\<lambda>(q, _). Some q) (show_form env full kw (advance cur1)))))"

section \<open>Catalog shortcuts\<close>

text \<open>The characters of a text, each as its bytes.\<close>

definition continuation :: "char \<Rightarrow> bool" where
  "continuation c \<longleftrightarrow> 128 \<le> byte_of c \<and> byte_of c < 192"

function chars_of :: "string \<Rightarrow> string list" where
  "chars_of [] = []"
| "chars_of (c # s) = (c # takeWhile continuation s) # chars_of (dropWhile continuation s)"
  by pat_completeness auto
termination
  by (relation "measure length") (auto simp: less_Suc_eq_le length_dropWhile_le)

definition sanitize_identifier :: "metadata_env \<Rightarrow> string \<Rightarrow> string" where
  "sanitize_identifier env name =
     concat (filter (\<lambda>ch. case ch of
          [c] \<Rightarrow> is_ascii_alphanumeric c \<or> c = CHR ''_'' \<or> c = CHR ''.''
        | _ \<Rightarrow> md_alphanumeric env ch) (chars_of name))"

definition extract_where_value_original :: "metadata_env \<Rightarrow> string \<Rightarrow> string \<Rightarrow> string option" where
  "extract_where_value_original env original_sql column =
     (let pattern = column @ '' = '' in
      case find_str (to_ascii_uppercase original_sql) pattern of
        None \<Rightarrow> None
      | Some pos \<Rightarrow>
          (case trim_start (drop (pos + length pattern) original_sql) of
             [] \<Rightarrow> None
           | q # rest \<Rightarrow>
               if q = sq \<or> q = dq
               then (case find_char (\<lambda>c. c = q) rest of None \<Rightarrow> None | Some n \<Rightarrow> Some (sanitize_identifier env (take n rest)))
               else None))"

definition or_default :: "string option \<Rightarrow> string" where
  "or_default v = (case v of Some s \<Rightarrow> s | None \<Rightarrow> [])"

definition trim_matches :: "char \<Rightarrow> string \<Rightarrow> string" where
  "trim_matches q s = trim_end_matches (\<lambda>c. c = q) (dropWhile (\<lambda>c. c = q) s)"

definition procedure_argument :: "metadata_env \<Rightarrow> string \<Rightarrow> string" where
  "procedure_argument env trimmed =
     (let ws = split_ascii_whitespace trimmed in
      if 1 < length ws
      then sanitize_identifier env (trim_end_matches (\<lambda>c. c = CHR '';'') (trim_matches dq (trim_matches sq (ws ! 1))))
      else [])"

definition catalog_shortcut :: "metadata_env \<Rightarrow> string \<Rightarrow> metadata_query option" where
  "catalog_shortcut env trimmed =
     (let upper = to_ascii_uppercase trimmed; has = contains_str upper; begins = starts_with upper;
          value_of = extract_where_value_original env trimmed in
      if has ''PG_CATALOG.PG_TABLES'' \<or> has ''PG_CATALOG.PG_CLASS'' then Some PgCatalogTables
      else if has ''PG_CATALOG.PG_ATTRIBUTE''
      then Some (PgCatalogColumns (or_default
             (case value_of ''TABLE_NAME'' of Some v \<Rightarrow> Some v | None \<Rightarrow> value_of ''ATTRELID'')))
      else if has ''SYS.TABLES'' \<or> has ''SYSOBJECTS'' then Some SysTables
      else if has ''SYS.COLUMNS'' \<or> has ''SYSCOLUMNS'' then Some (SysColumns (or_default (value_of ''TABLE_NAME'')))
      else if begins ''EXEC SP_TABLES'' \<or> begins ''SP_TABLES'' then Some SysTables
      else if begins ''EXEC SP_COLUMNS'' \<or> begins ''SP_COLUMNS'' then Some (SysColumns (procedure_argument env trimmed))
      else None)"

definition detect_metadata_query :: "metadata_env \<Rightarrow> string \<Rightarrow> translate_error + metadata_query option" where
  "detect_metadata_query env sql =
     (let trimmed = trim sql in
      case detect_show env trimmed of
        Inl e \<Rightarrow> Inl e
      | Inr (Some q) \<Rightarrow> Inr (Some q)
      | Inr None \<Rightarrow>
          (case (if starts_with (to_ascii_uppercase trimmed) ''SELECT'' \<and> contains_str trimmed ''@@''
                 then parse_system_variable_select trimmed else None) of
             Some variables \<Rightarrow> Inr (Some (SystemVariables variables))
           | None \<Rightarrow> Inr (catalog_shortcut env trimmed)))"

end
