(* ===== verification/Metadata_Props.thy ===== *)
theory Metadata_Props
  imports Metadata
begin

text \<open>
  What holds of metadata statements: the SQLite text that answers one is a single statement, whatever names, patterns and labels the
  client wrote; and a \<^verbatim>\<open>SHOW\<close> that is answered without a filter had none, every token of it accounted for.
\<close>

section \<open>The answering text is one statement\<close>

definition within_quotes :: "string \<Rightarrow> bool" where
  "within_quotes s \<longleftrightarrow> sq \<notin> set s"

lemma within_quotes_reads: "within_quotes s \<Longrightarrow> foldl reads (Within sq) s = Within sq"
  by (induction s) (auto simp: within_quotes_def)

lemma closed_label: "closed ([dq] @ concat (map (\<lambda>c. if c = dq then [dq, dq] else [c]) s) @ [dq])"
proof -
  have o: "opens dq = Within dq" by code_simp
  have "foldl reads (Within dq) (concat (map (\<lambda>c. if c = dq then [dq, dq] else [c]) s)) = Within dq"
    by (induction s) (auto simp: o)
  then show ?thesis by (simp add: closed_def o)
qed

lemma closed_variable_value: "closed (system_variable_value name)"
proof -
  have "list_all (\<lambda>(n, v). closed v) system_variable_values" and n: "closed ''NULL''" by code_simp+
  then have "closed v" if "map_of system_variable_values k = Some v" for k v
    using map_of_SomeD [OF that] by (auto simp: list_all_iff)
  with n show ?thesis by (simp add: system_variable_value_def split: option.split)
qed

lemma closed_variable_column: "closed (variable_column mode v)"
proof -
  have "closed '' AS ''" by code_simp
  then show ?thesis unfolding variable_column_def
    by (intro closed_append closed_label) (simp_all add: closed_sql_str closed_variable_value)
qed

lemma closed_join: "list_all closed ws \<Longrightarrow> closed (join_columns ws)"
proof (induction ws rule: join_columns.induct)
  case (3 w v va)
  have "closed '', ''" by code_simp
  from closed_append [OF _ closed_append [OF this], of w "join_columns (v # va)"] 3 show ?case by simp
qed (simp_all add: closed_def)

definition closed_filter :: "string option \<Rightarrow> bool" where
  "closed_filter f = (case f of None \<Rightarrow> True | Some p \<Rightarrow> closed p)"

lemma closed_where: "closed_filter f \<Longrightarrow> closed (where_clause f)"
proof (cases f)
  case (Some p)
  have "closed '' WHERE (''" "closed '')''" by code_simp+
  from closed_append [OF this(1) closed_append [OF _ this(2)], of p] Some show "closed_filter f \<Longrightarrow> closed (where_clause f)"
    by (simp add: where_clause_def closed_filter_def)
qed (simp add: where_clause_def closed_def)

fun query_ok :: "metadata_query \<Rightarrow> bool" where
  "query_ok (ShowTables full f) = closed_filter f"
| "query_ok (ShowTableStatus f) = closed_filter f"
| "query_ok (ShowColumns t full f) = closed_filter f"
| "query_ok (ShowIndex t f) = closed_filter f"
| "query_ok (PgCatalogColumns t) = within_quotes t"
| "query_ok (SysColumns t) = within_quotes t"
| "query_ok q = True"

lemma closed_parts:
  "closed ''SELECT ''" "closed SHOW_TABLES_FULL" "closed SHOW_TABLES_PLAIN" "closed SHOW_TABLES_HEAD" "closed '')) AS ''" "closed SHOW_ALIAS"
  "closed (sql_text ['' ORDER BY #Tables_in_database#''])" "closed SHOW_STATUS_HEAD" "closed (sql_text ['' ORDER BY #Name#''])"
  "closed (sql_text [''SELECT ~main~ AS #Database#''])" "closed SHOW_COLUMNS_FULL" "closed SHOW_COLUMNS_PLAIN" "closed SHOW_COLUMNS_HEAD"
  "closed '' ORDER BY __ord''" "closed SHOW_CREATE_HEAD" "closed '' COLLATE NOCASE''" "closed SHOW_INDEX_HEAD"
  "closed (sql_text ['' ORDER BY __ord, #Seq_in_index#''])" "closed PG_TABLES_TEXT" "closed SYS_TABLES_TEXT"
  by code_simp+

lemma quoted_parts:
  "foldl reads Open (sql_text [''SELECT ~'']) = Within sq" "foldl reads (Within sq) PG_COLUMNS_MIDDLE = Within sq"
  "foldl reads (Within sq) (sql_text [''~) ORDER BY cid'']) = Open" "foldl reads Open SYS_COLUMNS_HEAD = Within sq"
  by code_simp+

lemma answer_closed: "query_ok q \<Longrightarrow> closed (to_sqlite_sql_with q mode)"
proof (induction q mode rule: to_sqlite_sql_with.induct)
  case (7 variables mode)
  have "list_all closed (map (variable_column mode) variables)" by (simp add: list_all_iff closed_variable_column)
  from closed_append [OF closed_parts(1) closed_join [OF this]] show ?case by (simp only: to_sqlite_sql_with.simps)
next
  case (9 table mode)
  then show ?case by (simp add: closed_def quoted_parts within_quotes_reads)
next
  case (11 table mode)
  then show ?case by (simp add: closed_def quoted_parts within_quotes_reads)
qed (simp_all only: to_sqlite_sql_with.simps query_ok.simps,
     (intro closed_append closed_rows closed_where closed_sql_str closed_parts; simp add: closed_parts)+)

section \<open>What the recogniser builds\<close>

definition yields :: "('a \<Rightarrow> bool) \<Rightarrow> 'a parser \<Rightarrow> bool" where
  "yields P p \<longleftrightarrow> (\<forall>cur a cur'. p cur = Inr (a, cur') \<longrightarrow> P a)"

lemma yieldsD: "yields P p \<Longrightarrow> p cur = Inr (a, cur') \<Longrightarrow> P a"
  by (auto simp: yields_def)

lemma yields_and_parse:
  assumes "yields R p" and "\<And>a. R a \<Longrightarrow> yields P (f a)"
  shows "yields P (and_parse p f)"
  unfolding yields_def
proof (intro allI impI)
  fix cur b cur'
  assume "and_parse p f cur = Inr (b, cur')"
  then obtain a cur1 where "p cur = Inr (a, cur1)" "f a cur1 = Inr (b, cur')" by (auto simp: and_parse_def split: sum.splits)
  with yieldsD [OF assms(1)] yieldsD [OF assms(2)] show "P b" by blast
qed

lemma yields_then: "(\<And>a. yields P (f a)) \<Longrightarrow> yields P (and_parse p f)"
  by (rule yields_and_parse [of "\<lambda>a. True"]) (simp_all add: yields_def [of "\<lambda>a. True"])

lemma yields_case_prod: "(\<And>a b. yields P (f a b)) \<Longrightarrow> yields P (case x of (a, b) \<Rightarrow> f a b)"
  by (cases x) simp

lemma yields_any: "yields (\<lambda>a. True) p"
  by (simp add: yields_def)

lemma yields_parsed: "P a \<Longrightarrow> yields P (parsed a)"
  by (simp add: yields_def parsed_def)

lemma yields_lifted: "(\<And>a. r = Inr a \<Longrightarrow> P a) \<Longrightarrow> yields P (lifted r)"
  by (auto simp: yields_def lifted_def split: sum.splits)

text \<open>The translator's predicates and the Unicode class of multi-byte characters, as they are relied on.\<close>

definition metadata_laws :: "metadata_env \<Rightarrow> bool" where
  "metadata_laws env \<longleftrightarrow> (\<forall>expr p. md_predicate env expr = Inr p \<longrightarrow> closed p) \<and>
     (\<forall>ch. md_alphanumeric env ch \<longrightarrow> list_all (\<lambda>c. 128 \<le> byte_of c) ch)"

lemma translated_filter_closed:
  "metadata_laws env \<Longrightarrow> translate_filter env f col = Inr g \<Longrightarrow> closed_filter g"
  by (auto simp: metadata_laws_def translate_filter_def closed_filter_def Let_def split: show_filter.splits sum.splits)

lemma shown_filter_closed: "metadata_laws env \<Longrightarrow> yields closed_filter (shown_filter env like col)"
  unfolding shown_filter_def
  by (intro yields_and_parse [OF yields_any] yields_lifted) (rule translated_filter_closed)

lemma yields_from:
  assumes "metadata_laws env" and "\<And>f. closed_filter f \<Longrightarrow> query_ok (mk f)"
  shows "yields query_ok (and_parse (shown_filter env like col) (\<lambda>f. parsed (mk f)))"
  by (intro yields_and_parse [OF shown_filter_closed [OF assms(1)]] yields_parsed assms(2))

lemma describe_ok: "metadata_laws env \<Longrightarrow> yields query_ok (describe env)"
proof -
  assume laws: "metadata_laws env"
  have "yields closed_filter (lifted (case pattern of None \<Rightarrow> Inr None | Some p \<Rightarrow> translate_filter env (LikeFilter (sql_str p)) ''Field''))" for pattern
    by (rule yields_lifted) (auto simp: closed_filter_def [of None] dest: translated_filter_closed [OF laws] split: option.splits)
  then have last: "yields query_ok (and_parse (lifted (case pattern of None \<Rightarrow> Inr None | Some p \<Rightarrow> translate_filter env (LikeFilter (sql_str p)) ''Field''))
      (\<lambda>f. parsed (ShowColumns table False f)))" for pattern table
    by (rule yields_and_parse) (simp add: yields_parsed)
  show ?thesis unfolding describe_def
    by (rule yields_then, rule yields_then, rule yields_case_prod, rule yields_then, rule yields_then, rule yields_then, rule last)
qed

lemma show_form_ok: "metadata_laws env \<Longrightarrow> yields query_ok (show_form env full kw)"
proof -
  assume laws: "metadata_laws env"
  have db: "yields query_ok (and_parse (checked_db env) (\<lambda>_. and_parse (shown_filter env like col) (\<lambda>f. parsed (mk f))))"
    if "\<And>f. closed_filter f \<Longrightarrow> query_ok (mk f)" for like col mk
    by (rule yields_and_parse [OF yields_any yields_from [OF laws that]])
  have tab: "yields query_ok (and_parse (shown_table env kw) (\<lambda>table. and_parse (shown_filter env like col) (\<lambda>f. parsed (mk table f))))"
    if "\<And>table f. closed_filter f \<Longrightarrow> query_ok (mk table f)" for like col mk
    by (rule yields_and_parse [OF yields_any yields_from [OF laws that]])
  have 1: "yields query_ok (and_parse (checked_db env) (\<lambda>_. and_parse (shown_filter env True ''Name'') (\<lambda>f. parsed (ShowTableStatus f))))"
    and 2: "yields query_ok (and_parse (checked_db env) (\<lambda>_. and_parse (shown_filter env True ''Tables_in_database'') (\<lambda>f. parsed (ShowTables full f))))"
    and 3: "yields query_ok (and_parse (shown_table env kw) (\<lambda>table. and_parse (shown_filter env True ''Field'') (\<lambda>f. parsed (ShowColumns table full f))))"
    and 4: "yields query_ok (and_parse (shown_table env kw) (\<lambda>table. and_parse (shown_filter env False ''Key_name'') (\<lambda>f. parsed (ShowIndex table f))))"
    by (rule db tab; simp)+
  have 5: "yields query_ok (and_parse (filter_clause env True) (\<lambda>f.
      if f = NoFilter then parsed ShowDatabases else lifted (Inl (Unsupported SHOW_DATABASES_FILTERED))))"
    by (rule yields_and_parse [OF yields_any]) (auto intro: yields_parsed yields_lifted)
  have 6: "yields query_ok (and_parse (qualified_name env) (\<lambda>(db, table).
      and_parse (lifted (check_db db)) (\<lambda>_. and_parse (at_end env) (\<lambda>_. parsed (ShowCreateTable table)))))"
    by (intro yields_and_parse [OF yields_any] yields_case_prod yields_parsed) simp
  show ?thesis unfolding yields_def
  proof (intro allI impI)
    fix cur q cur'
    assume "show_form env full kw cur = Inr (q, cur')"
    then show "query_ok q"
      by (simp only: show_form_def split: if_split_asm)
        (erule yieldsD [OF 1] | erule yieldsD [OF 2] | erule yieldsD [OF 3] | erule yieldsD [OF 4] | erule yieldsD [OF 5] | erule yieldsD [OF 6] | simp)+
  qed
qed

lemma sanitized_within_quotes:
  assumes "metadata_laws env"
  shows "within_quotes (sanitize_identifier env name)"
proof -
  have q: "\<not> is_ascii_alphanumeric sq" "sq \<noteq> CHR ''_''" "sq \<noteq> CHR ''.''" "\<not> 128 \<le> byte_of sq" by code_simp+
  have "sq \<notin> set ch" if "case ch of [c] \<Rightarrow> is_ascii_alphanumeric c \<or> c = CHR ''_'' \<or> c = CHR ''.'' | _ \<Rightarrow> md_alphanumeric env ch" for ch
  proof
    assume "sq \<in> set ch"
    with that q have "md_alphanumeric env ch" by (auto split: list.splits)
    with assms have "list_all (\<lambda>c. 128 \<le> byte_of c) ch" by (simp add: metadata_laws_def)
    with \<open>sq \<in> set ch\<close> q(4) show False by (auto simp: list_all_iff)
  qed
  then show ?thesis by (auto simp: within_quotes_def sanitize_identifier_def)
qed

lemma catalog_shortcut_ok:
  assumes "metadata_laws env" and "catalog_shortcut env trimmed = Some q"
  shows "query_ok q"
proof -
  have n: "within_quotes []" by (simp add: within_quotes_def)
  have "within_quotes v" if "extract_where_value_original env trimmed col = Some v" for col v
    using that sanitized_within_quotes [OF assms(1)]
    by (auto simp: extract_where_value_original_def Let_def split: option.splits list.splits if_splits)
  then have w: "within_quotes (or_default (extract_where_value_original env trimmed col))"
    "within_quotes (or_default (case extract_where_value_original env trimmed col of Some v \<Rightarrow> Some v | None \<Rightarrow> extract_where_value_original env trimmed col'))"
    for col col'
    using n by (auto simp: or_default_def split: option.split)
  moreover have "within_quotes (procedure_argument env trimmed)"
    using sanitized_within_quotes [OF assms(1)] n by (simp add: procedure_argument_def Let_def)
  ultimately show ?thesis using assms(2)
    by (auto simp: catalog_shortcut_def Let_def split: if_splits)
qed

lemma map_sum_Inr: "map_sum f g x = Inr y \<longleftrightarrow> (\<exists>z. x = Inr z \<and> g z = y)"
  by (cases x) auto

lemma detected_ok:
  assumes "metadata_laws env" and "detect_metadata_query env sql = Inr (Some q)"
  shows "query_ok q"
proof -
  have "query_ok q" if "detect_show env (trim sql) = Inr (Some q)"
    using that yieldsD [OF describe_ok [OF assms(1)]] yieldsD [OF show_form_ok [OF assms(1)]]
    by (auto simp: detect_show_def Let_def map_sum_Inr split: if_splits sum.splits prod.splits option.splits)
  with assms catalog_shortcut_ok [OF assms(1)] show ?thesis
    by (auto simp: detect_metadata_query_def Let_def split: sum.splits option.splits if_splits)
qed



section \<open>Every token of an unfiltered statement\<close>

definition is_name :: "tok \<Rightarrow> string \<Rightarrow> bool" where
  "is_name t w \<longleftrightarrow> t = Word w \<or> t = Quoted w"

inductive table_name :: "string \<Rightarrow> tok list \<Rightarrow> bool" where
  bare: "is_name t w \<Longrightarrow> table_name w [t]"
| with_database: "is_name d x \<Longrightarrow> \<not> is_system_schema x \<Longrightarrow> is_name t w \<Longrightarrow> table_name w [d, Dot, t]"

definition from_word :: "tok \<Rightarrow> bool" where
  "from_word t \<longleftrightarrow> word_is ''FROM'' t \<or> word_is ''IN'' t"

inductive database_clause :: "tok list \<Rightarrow> bool" where
  absent: "database_clause []"
| named: "from_word k \<Longrightarrow> is_name d x \<Longrightarrow> \<not> is_system_schema x \<Longrightarrow> database_clause [k, d]"

definition statement_end :: "tok list \<Rightarrow> bool" where
  "statement_end e \<longleftrightarrow> e = [] \<or> e = [Semi]"

definition modifiers :: "bool \<Rightarrow> tok list \<Rightarrow> bool" where
  "modifiers full ms \<longleftrightarrow> list_all (\<lambda>t. word_is ''FULL'' t \<or> word_is ''EXTENDED'' t) ms \<and> full = list_ex (word_is ''FULL'') ms"

definition word_in :: "string list \<Rightarrow> tok \<Rightarrow> bool" where
  "word_in ws t \<longleftrightarrow> (\<exists>x. t = Word x \<and> to_ascii_uppercase x \<in> set ws)"

text \<open>The statements without a filter, with the query each one is, up to the words after \<^verbatim>\<open>SHOW\<close> and its modifiers.\<close>

inductive show_body :: "bool \<Rightarrow> metadata_query \<Rightarrow> tok list \<Rightarrow> bool" where
  "word_in [''TABLE''] k \<Longrightarrow> word_is ''STATUS'' k2 \<Longrightarrow> database_clause db \<Longrightarrow> statement_end e \<Longrightarrow>
     show_body full (ShowTableStatus None) (k # k2 # db @ e)"
| "word_in [''TABLES''] k \<Longrightarrow> database_clause db \<Longrightarrow> statement_end e \<Longrightarrow> show_body full (ShowTables full None) (k # db @ e)"
| "word_in [''DATABASES'', ''SCHEMAS''] k \<Longrightarrow> statement_end e \<Longrightarrow> show_body full ShowDatabases (k # e)"
| "word_in [''COLUMNS'', ''FIELDS''] k \<Longrightarrow> from_word f \<Longrightarrow> table_name t tn \<Longrightarrow> database_clause db \<Longrightarrow> statement_end e \<Longrightarrow>
     show_body full (ShowColumns t full None) (k # f # tn @ db @ e)"
| "word_in [''INDEX'', ''INDEXES'', ''KEYS''] k \<Longrightarrow> from_word f \<Longrightarrow> table_name t tn \<Longrightarrow> database_clause db \<Longrightarrow> statement_end e \<Longrightarrow>
     show_body full (ShowIndex t None) (k # f # tn @ db @ e)"
| "word_in [''CREATE''] k \<Longrightarrow> word_is ''TABLE'' k2 \<Longrightarrow> table_name t tn \<Longrightarrow> statement_end e \<Longrightarrow>
     show_body full (ShowCreateTable t) (k # k2 # tn @ e)"

inductive whole_statement :: "metadata_query \<Rightarrow> tok list \<Rightarrow> bool" where
  show_stmt: "word_is ''SHOW'' s \<Longrightarrow> modifiers full ms \<Longrightarrow> show_body full q body \<Longrightarrow> whole_statement q (s # ms @ body)"
| describe_stmt: "word_is ''DESCRIBE'' s \<or> word_is ''DESC'' s \<Longrightarrow> table_name t tn \<Longrightarrow> statement_end e \<Longrightarrow>
     whole_statement (ShowColumns t False None) (s # tn @ e)"

text \<open>An answer to \<^verbatim>\<open>SHOW\<close> or \<^verbatim>\<open>DESCRIBE\<close> without a filter.\<close>

fun unfiltered :: "metadata_query \<Rightarrow> bool" where
  "unfiltered (ShowTables full f) = (f = None)"
| "unfiltered (ShowTableStatus f) = (f = None)"
| "unfiltered (ShowColumns t full f) = (f = None)"
| "unfiltered (ShowIndex t f) = (f = None)"
| "unfiltered ShowDatabases = True"
| "unfiltered (ShowCreateTable t) = True"
| "unfiltered q = False"

subsection \<open>What a parser consumes\<close>

definition remaining :: "cursor \<Rightarrow> tok list" where
  "remaining cur = map tok (drop (cur_pos cur) (cur_toks cur))"

definition eats :: "('a \<Rightarrow> tok list \<Rightarrow> tok list \<Rightarrow> bool) \<Rightarrow> 'a parser \<Rightarrow> bool" where
  "eats R p \<longleftrightarrow> (\<forall>cur a cur'. p cur = Inr (a, cur') \<longrightarrow> (\<exists>ts. remaining cur = ts @ remaining cur' \<and> R a ts (remaining cur')))"

lemma eatsE:
  assumes "eats R p" and "p cur = Inr (a, cur')"
  obtains ts where "remaining cur = ts @ remaining cur'" "R a ts (remaining cur')"
  using assms unfolding eats_def by blast

lemma peek_remaining: "peek cur = (case remaining cur of [] \<Rightarrow> None | t # ts \<Rightarrow> Some t)"
proof (cases "cur_pos cur < length (cur_toks cur)")
  case True
  then show ?thesis by (simp add: peek_def tok_at_def remaining_def Cons_nth_drop_Suc [symmetric])
qed (simp add: peek_def tok_at_def remaining_def)

lemma remaining_advance: "remaining cur = t # ts \<Longrightarrow> remaining (advance cur) = ts"
  by (simp add: remaining_def advance_def drop_Suc tl_drop flip: map_tl) (metis list.sel(3) map_tl tl_drop)

lemma peek_Some: "peek cur = Some t \<Longrightarrow> remaining cur = t # remaining (advance cur)"
  by (cases "remaining cur") (auto simp: peek_remaining dest: remaining_advance)

lemma peek_None: "peek cur = None \<longleftrightarrow> remaining cur = []"
  by (simp add: peek_remaining split: list.split)

lemma at_keyword_remaining: "at_keyword w cur \<Longrightarrow> \<exists>t. remaining cur = t # remaining (advance cur) \<and> word_is w t"
proof -
  assume "at_keyword w cur"
  then obtain x where "peek cur = Some (Word x)" "eq_ignore_ascii_case x w"
    by (auto simp: at_keyword_def is_word_def peek_def split: option.splits tok.splits)
  with peek_Some [of cur "Word x"] show ?thesis by (auto simp: word_is_def)
qed

lemma eats_and_parse:
  assumes "eats R p" and "\<And>a. eats (S a) (f a)"
  shows "eats (\<lambda>b ts rest. \<exists>a ts1 ts2. ts = ts1 @ ts2 \<and> R a ts1 (ts2 @ rest) \<and> S a b ts2 rest) (and_parse p f)"
  unfolding eats_def
proof (intro allI impI)
  fix cur b cur'
  assume "and_parse p f cur = Inr (b, cur')"
  then obtain a cur1 where p: "p cur = Inr (a, cur1)" and f: "f a cur1 = Inr (b, cur')"
    by (auto simp: and_parse_def split: sum.splits)
  obtain ts1 where t1: "remaining cur = ts1 @ remaining cur1" "R a ts1 (remaining cur1)" by (rule eatsE [OF assms(1) p])
  obtain ts2 where "remaining cur1 = ts2 @ remaining cur'" "S a b ts2 (remaining cur')" by (rule eatsE [OF assms(2) f])
  with t1 show "\<exists>ts. remaining cur = ts @ remaining cur' \<and>
      (\<exists>a ts1 ts2. ts = ts1 @ ts2 \<and> R a ts1 (ts2 @ remaining cur') \<and> S a b ts2 (remaining cur'))"
    by (intro exI [of _ "ts1 @ ts2"]) auto
qed

lemma eats_weaken: "eats R p \<Longrightarrow> (\<And>a ts rest. R a ts rest \<Longrightarrow> S a ts rest) \<Longrightarrow> eats S p"
  unfolding eats_def by blast

lemma eats_parsed: "eats (\<lambda>b ts rest. b = a \<and> ts = []) (parsed a)"
  by (simp add: eats_def parsed_def)

lemma eats_lifted: "eats (\<lambda>b ts rest. r = Inr b \<and> ts = []) (lifted r)"
  by (auto simp: eats_def lifted_def split: sum.splits)

lemma eats_keyword: "eats (\<lambda>found ts rest. if found then \<exists>t. ts = [t] \<and> word_is w t else ts = []) (keyword w)"
  using at_keyword_remaining [of w] by (fastforce simp: eats_def keyword_def split: if_splits)

lemma eats_either: "eats (\<lambda>found ts rest. if found then \<exists>t. ts = [t] \<and> (word_is a t \<or> word_is b t) else ts = []) (either_keyword a b)"
  unfolding either_keyword_def
  by (rule eats_weaken [OF eats_and_parse [OF eats_keyword, of "\<lambda>found r ts rest. if found then r \<and> ts = [] else
        (if r then \<exists>t. ts = [t] \<and> word_is b t else ts = [])"]])
    (auto simp: eats_parsed [unfolded eats_def] parsed_def eats_def keyword_def dest!: at_keyword_remaining split: if_splits)

lemma eats_ident: "eats (\<lambda>w ts rest. \<exists>t. ts = [t] \<and> is_name t w) (ident env)"
  by (auto simp: eats_def ident_def is_name_def dest!: peek_Some split: option.splits tok.splits)

lemma eats_end: "eats (\<lambda>_ ts rest. statement_end ts \<and> rest = []) (at_end env)"
  by (auto simp: eats_def at_end_def statement_end_def Let_def peek_None dest!: peek_Some split: option.splits if_splits)

subsection \<open>Its parts\<close>

lemma eats_qualified:
  "eats (\<lambda>(db, t) ts rest. case db of None \<Rightarrow> \<exists>k. ts = [k] \<and> is_name k t | Some x \<Rightarrow> \<exists>d k. ts = [d, Dot, k] \<and> is_name d x \<and> is_name k t)
     (qualified_name env)"
  unfolding eats_def
proof (intro allI impI)
  fix cur a cur'
  assume q: "qualified_name env cur = Inr (a, cur')"
  then obtain x cur1 where i: "ident env cur = Inr (x, cur1)" by (auto simp: qualified_name_def and_parse_def split: sum.splits)
  obtain k where k: "remaining cur = k # remaining cur1" "is_name k x"
    using eatsE [OF eats_ident i] by (metis append_Cons append_Nil)
  show "\<exists>ts. remaining cur = ts @ remaining cur' \<and> (case a of (db, t) \<Rightarrow> (\<lambda>ts rest. case db of None \<Rightarrow> \<exists>k. ts = [k] \<and> is_name k t
      | Some x \<Rightarrow> \<exists>d k. ts = [d, Dot, k] \<and> is_name d x \<and> is_name k t)) ts (remaining cur')"
  proof (cases "peek cur1 = Some Dot")
    case True
    with q i obtain y where y: "ident env (advance cur1) = Inr (y, cur')" and a: "a = (Some x, y)"
      by (auto simp: qualified_name_def and_parse_def parsed_def split: sum.splits)
    obtain k2 where k2: "remaining (advance cur1) = k2 # remaining cur'" "is_name k2 y"
      using eatsE [OF eats_ident y] by (metis append_Cons append_Nil)
    from k k2 peek_Some [OF True] a show ?thesis by auto
  next
    case False
    with q i have "a = (None, x)" "cur' = cur1" by (auto simp: qualified_name_def and_parse_def)
    with k show ?thesis by auto
  qed
qed

lemma check_db_ok: "check_db (Some d) = Inr () \<longleftrightarrow> \<not> is_system_schema d"
  by (simp add: check_db_def)

text \<open>A name that passed the check, and the optional database.\<close>

lemma eats_qualified_table:
  "eats (\<lambda>(db, t) ts rest. check_db db = Inr () \<longrightarrow> table_name t ts) (qualified_name env)"
  by (rule eats_weaken [OF eats_qualified]) (auto intro: table_name.intros simp: check_db_ok split: option.splits)

lemma eats_checked_name:
  assumes "\<And>t. eats (S t) (f t)"
  shows "eats (\<lambda>b ts rest. \<exists>t tn ts2. ts = tn @ ts2 \<and> table_name t tn \<and> S t b ts2 rest)
    (and_parse (qualified_name env) (\<lambda>(db, t). and_parse (lifted (check_db db)) (\<lambda>_. f t)))"
proof -
  have "eats (\<lambda>b ts rest. check_db db = Inr () \<and> S t b ts rest) (and_parse (lifted (check_db db)) (\<lambda>_. f t))" for db t
    by (rule eats_weaken [OF eats_and_parse [OF eats_lifted assms]]) auto
  then have "eats (case a of (db, t) \<Rightarrow> \<lambda>b ts rest. check_db db = Inr () \<and> S t b ts rest)
      (case a of (db, t) \<Rightarrow> and_parse (lifted (check_db db)) (\<lambda>_. f t))" for a
    by (cases a) simp
  from eats_and_parse [OF eats_qualified_table this] show ?thesis
    by (rule eats_weaken) (auto split: prod.splits)
qed

lemma eats_checked_db: "eats (\<lambda>_ ts rest. database_clause ts) (checked_db env)"
proof -
  have o: "eats (\<lambda>db ts rest. case db of None \<Rightarrow> ts = [] | Some x \<Rightarrow> \<exists>k d. ts = [k, d] \<and> from_word k \<and> is_name d x) (optional_db env)"
    unfolding optional_db_def
    by (rule eats_weaken [OF eats_and_parse [OF eats_either, of "\<lambda>found r ts rest. if found then \<exists>x d. r = Some x \<and> ts = [d] \<and> is_name d x else r = None \<and> ts = []"]])
      (auto intro!: eats_weaken [OF eats_and_parse [OF eats_ident eats_parsed]] eats_weaken [OF eats_parsed] simp: from_word_def split: if_splits)
  show ?thesis unfolding checked_db_def
    by (rule eats_weaken [OF eats_and_parse [OF o eats_lifted]])
      (auto intro: database_clause.intros simp: check_db_ok split: option.splits)
qed

lemma eats_filter: "eats (\<lambda>f ts rest. f = NoFilter \<longrightarrow> statement_end ts \<and> rest = []) (filter_clause env like)"
proof -
  have w: "eats (\<lambda>f ts rest. f = NoFilter \<longrightarrow> statement_end ts \<and> rest = [])
      (and_parse (keyword ''WHERE'') (\<lambda>wh cur1.
         if wh
         then (if rest_text cur1 = [] then Inl (Parse ''WHERE without a condition'') else Inr (WhereFilter (rest_text cur1), cur1))
         else and_parse (at_end env) (\<lambda>_. parsed NoFilter) cur1))"
    by (rule eats_weaken [OF eats_and_parse [OF eats_keyword, of "\<lambda>wh f ts rest. f = NoFilter \<longrightarrow> \<not> wh \<and> statement_end ts \<and> rest = []"]])
      (auto simp: eats_def and_parse_def parsed_def split: sum.splits if_splits dest: eatsE [OF eats_end])
  have k: "eats (\<lambda>like ts rest. \<not> like \<longrightarrow> ts = []) (if b then keyword ''LIKE'' else parsed False)" for b
    using eats_weaken [OF eats_keyword, of "''LIKE''" "\<lambda>like ts rest. \<not> like \<longrightarrow> ts = []"] by (cases b) (simp_all add: eats_def parsed_def)
  show ?thesis unfolding filter_clause_def
    by (rule eats_weaken [OF eats_and_parse [OF k, of "\<lambda>like f ts rest. f = NoFilter \<longrightarrow> \<not> like \<and> statement_end ts \<and> rest = []"]])
      (use w in \<open>auto simp: eats_def split: if_splits\<close>)
qed

lemma eats_shown_filter: "eats (\<lambda>g ts rest. g = None \<longrightarrow> statement_end ts \<and> rest = []) (shown_filter env like col)"
proof -
  have "f = NoFilter" if "translate_filter env f col = Inr None" for f
    using that by (auto simp: translate_filter_def Let_def split: show_filter.splits sum.splits)
  then show ?thesis unfolding shown_filter_def
    by (intro eats_weaken [OF eats_and_parse [OF eats_filter eats_lifted]]) auto
qed

lemma eats_shown_table:
  "eats (\<lambda>t ts rest. \<exists>f tn db. ts = f # tn @ db \<and> from_word f \<and> table_name t tn \<and> database_clause db) (shown_table env kw)"
proof -
  have tail: "eats (\<lambda>b ts rest. b = t \<and> database_clause ts) (and_parse (checked_db env) (\<lambda>_. parsed t))" for t
    by (rule eats_weaken [OF eats_and_parse [OF eats_checked_db eats_parsed]]) auto
  have inner: "eats (\<lambda>t ts rest. \<exists>tn db. ts = tn @ db \<and> table_name t tn \<and> database_clause db)
      (and_parse (qualified_name env) (\<lambda>(db, t). and_parse (lifted (check_db db)) (\<lambda>_. and_parse (checked_db env) (\<lambda>_. parsed t))))"
    by (rule eats_weaken [OF eats_checked_name [OF tail]]) blast
  have "eats (\<lambda>t ts rest. found \<and> (\<exists>tn db. ts = tn @ db \<and> table_name t tn \<and> database_clause db))
      (if \<not> found then lifted (Inl e) else and_parse (qualified_name env) (\<lambda>(db, t).
         and_parse (lifted (check_db db)) (\<lambda>_. and_parse (checked_db env) (\<lambda>_. parsed t))))" for found e
    using inner by (cases found) (simp_all add: eats_def lifted_def)
  from eats_and_parse [OF eats_either this] show ?thesis
    unfolding shown_table_def by (rule eats_weaken) (force simp: from_word_def)
qed

subsection \<open>The whole statement\<close>

lemma show_modifiers_split:
  "show_modifiers full ls = (full', n) \<Longrightarrow> n \<le> length ls \<and> list_all (\<lambda>t. word_is ''FULL'' t \<or> word_is ''EXTENDED'' t) (map tok (take n ls)) \<and>
     full' = (full \<or> list_ex (word_is ''FULL'') (map tok (take n ls)))"
proof (induction full ls arbitrary: full' n rule: show_modifiers.induct)
  case (2 full l ls)
  show ?case
  proof (cases "word_is ''FULL'' (tok l) \<or> word_is ''EXTENDED'' (tok l)")
    case True
    define b where "b = (word_is ''FULL'' (tok l) \<or> full)"
    from True 2(3) obtain k where k: "show_modifiers b ls = (full', k)" "n = Suc k"
      by (cases "show_modifiers b ls") (auto simp: b_def split: if_splits)
    have "k \<le> length ls \<and> list_all (\<lambda>t. word_is ''FULL'' t \<or> word_is ''EXTENDED'' t) (map tok (take k ls)) \<and>
        full' = (b \<or> list_ex (word_is ''FULL'') (map tok (take k ls)))"
      using 2(1,2) k(1) True by (cases "word_is ''FULL'' (tok l)") (auto simp: b_def)
    with True k(2) show ?thesis by (auto simp: b_def)
  qed (use 2(3) in auto)
qed simp

lemma eats_tail:
  assumes "\<And>f. unfiltered (mk f) \<longleftrightarrow> f = None"
  shows "eats (\<lambda>q ts rest. unfiltered q \<longrightarrow> q = mk None \<and> statement_end ts \<and> rest = []) (and_parse (shown_filter env like col) (\<lambda>f. parsed (mk f)))"
  by (rule eats_weaken [OF eats_and_parse [OF eats_shown_filter eats_parsed]]) (auto simp: assms)

lemma eats_after_db:
  assumes "\<And>f. unfiltered (mk f) \<longleftrightarrow> f = None"
  shows "eats (\<lambda>q ts rest. unfiltered q \<longrightarrow> q = mk None \<and> rest = [] \<and> (\<exists>db e. ts = db @ e \<and> database_clause db \<and> statement_end e))
    (and_parse (checked_db env) (\<lambda>_. and_parse (shown_filter env like col) (\<lambda>f. parsed (mk f))))"
  by (rule eats_weaken [OF eats_and_parse [OF eats_checked_db eats_tail [OF assms]]]) auto

lemma eats_after_table:
  assumes "\<And>t f. unfiltered (mk t f) \<longleftrightarrow> f = None"
  shows "eats (\<lambda>q ts rest. unfiltered q \<longrightarrow> rest = [] \<and> (\<exists>t f tn db e. q = mk t None \<and> ts = f # tn @ db @ e \<and> from_word f \<and> table_name t tn \<and>
      database_clause db \<and> statement_end e))
    (and_parse (shown_table env kw) (\<lambda>t. and_parse (shown_filter env like col) (\<lambda>f. parsed (mk t f))))"
  by (rule eats_weaken [OF eats_and_parse [OF eats_shown_table eats_tail [OF assms]]]) force

lemma eats_databases:
  "eats (\<lambda>q ts rest. q = ShowDatabases \<and> statement_end ts \<and> rest = []) (and_parse (filter_clause env True) (\<lambda>f.
     if f = NoFilter then parsed ShowDatabases else lifted (Inl (Unsupported SHOW_DATABASES_FILTERED))))"
proof -
  have "eats (\<lambda>q ts rest. f = NoFilter \<and> q = ShowDatabases \<and> ts = [])
      (if f = NoFilter then parsed ShowDatabases else lifted (Inl (Unsupported SHOW_DATABASES_FILTERED)))" for f
    by (simp add: eats_def parsed_def lifted_def)
  from eats_and_parse [OF eats_filter this] show ?thesis by (rule eats_weaken) auto
qed

lemma eats_named_end:
  "eats (\<lambda>q ts rest. rest = [] \<and> (\<exists>t tn e. q = mk t \<and> ts = tn @ e \<and> table_name t tn \<and> statement_end e))
    (and_parse (qualified_name env) (\<lambda>(db, t). and_parse (lifted (check_db db)) (\<lambda>_. and_parse (at_end env) (\<lambda>_. parsed (mk t)))))"
proof -
  have "eats (\<lambda>q ts rest. rest = [] \<and> q = mk t \<and> statement_end ts) (and_parse (at_end env) (\<lambda>_. parsed (mk t)))" for t
    by (rule eats_weaken [OF eats_and_parse [OF eats_end eats_parsed]]) auto
  from eats_checked_name [OF this] show ?thesis by (rule eats_weaken) blast
qed

lemma show_form_whole:
  assumes "show_form env full kw cur = Inr (q, cur')" and "unfiltered q" and "k = Word x" and "to_ascii_uppercase x = kw"
  shows "show_body full q (k # remaining cur)"
proof -
  have in1: "word_in ws k" if "kw \<in> set ws" for ws using assms(3,4) that by (simp add: word_in_def)
  show ?thesis
    using assms(1)
  proof (simp only: show_form_def split: if_split_asm, goal_cases)
    case 1
    obtain k2 where k2: "remaining cur = k2 # remaining (advance cur)" "word_is ''STATUS'' k2" using at_keyword_remaining [OF 1(2)] by blast
    obtain db e where d: "q = ShowTableStatus None" "remaining (advance cur) = db @ e" "database_clause db" "statement_end e"
      by (rule eatsE [OF eats_after_db [of ShowTableStatus, OF unfiltered.simps(2)] 1(3)]) (use assms(2) in auto)
    have "word_in [''TABLE''] k" using 1(1) in1 by simp
    from show_body.intros(1) [OF this k2(2) d(3,4)] show ?case by (simp only: k2(1) d(1,2))
  next
    case 2
    show ?case
      by (rule eatsE [OF eats_after_db [of "ShowTables full", OF unfiltered.simps(1)] 2(3)])
        (use assms(2) 2(2) in \<open>auto intro!: show_body.intros(2) in1\<close>)
  next
    case 3
    show ?case by (rule eatsE [OF eats_databases 3(4)]) (use assms(2) 3(3) in \<open>auto intro!: show_body.intros(3) in1\<close>)
  next
    case 4
    show ?case
      by (rule eatsE [OF eats_after_table [of "\<lambda>t. ShowColumns t full", OF unfiltered.simps(3)] 4(5)])
        (use assms(2) 4(4) in \<open>auto intro!: show_body.intros(4) in1\<close>)
  next
    case 5
    show ?case
      by (rule eatsE [OF eats_after_table [of ShowIndex, OF unfiltered.simps(4)] 5(6)])
        (use assms(2) 5(5) in \<open>auto intro!: show_body.intros(5) in1\<close>)
  next
    case 6
    obtain k2 where k2: "remaining cur = k2 # remaining (advance cur)" "word_is ''TABLE'' k2" using at_keyword_remaining [OF 6(7)] by blast
    obtain t tn e where d: "q = ShowCreateTable t" "remaining (advance cur) = tn @ e" "table_name t tn" "statement_end e"
      by (rule eatsE [OF eats_named_end [of ShowCreateTable] 6(8)]) auto
    have "word_in [''CREATE''] k" using 6(6) in1 by simp
    from show_body.intros(6) [OF this k2(2) d(3,4)] show ?case by (simp only: k2(1) d(1,2))
  qed simp
qed

lemma describe_whole:
  assumes "describe env cur = Inr (q, cur')" and "unfiltered q"
  shows "\<exists>t tn e. q = ShowColumns t False None \<and> remaining cur = tn @ e \<and> table_name t tn \<and> statement_end e"
proof -
  have pat: "eats (\<lambda>p ts rest. p = None \<longrightarrow> ts = []) describe_pattern"
    by (auto simp: eats_def describe_pattern_def dest!: peek_Some split: option.splits tok.splits)
  have "p = None" if "(case p of None \<Rightarrow> Inr None | Some p \<Rightarrow> translate_filter env (LikeFilter (sql_str p)) ''Field'') = Inr None" for p
    using that by (auto simp: translate_filter_def Let_def split: option.splits sum.splits)
  then have last: "eats (\<lambda>q ts rest. unfiltered q \<longrightarrow> p = None \<and> q = ShowColumns t False None \<and> ts = [])
      (and_parse (lifted (case p of None \<Rightarrow> Inr None | Some p \<Rightarrow> translate_filter env (LikeFilter (sql_str p)) ''Field'')) (\<lambda>f. parsed (ShowColumns t False f)))" for p t
    by (intro eats_weaken [OF eats_and_parse [OF eats_lifted eats_parsed]]) auto
  have mid: "eats (\<lambda>q ts rest. unfiltered q \<longrightarrow> q = ShowColumns t False None \<and> statement_end ts \<and> rest = [])
      (and_parse describe_pattern (\<lambda>pattern. and_parse (at_end env) (\<lambda>_.
        and_parse (lifted (case pattern of None \<Rightarrow> Inr None | Some p \<Rightarrow> translate_filter env (LikeFilter (sql_str p)) ''Field''))
          (\<lambda>f. parsed (ShowColumns t False f)))))" for t
    by (rule eats_weaken [OF eats_and_parse [OF pat eats_and_parse [OF eats_end last]]]) auto
  have first: "eats (\<lambda>_ ts rest. ts = []) refuse_explained"
    by (auto simp: eats_def refuse_explained_def split: option.splits if_splits)
  obtain ts where "remaining cur = ts @ remaining cur'"
    "\<exists>t tn ts3. ts = tn @ ts3 \<and> table_name t tn \<and>
       (unfiltered q \<longrightarrow> q = ShowColumns t False None \<and> statement_end ts3 \<and> remaining cur' = [])"
    by (rule eatsE [OF eats_and_parse [OF first eats_checked_name [OF mid]] assms(1) [unfolded describe_def]]) auto
  with assms(2) show ?thesis by (metis append_Nil2)
qed

lemma detect_show_whole:
  assumes "lex sql = Inr toks" and "detect_show env sql = Inr (Some q)" and "unfiltered q"
  shows "whole_statement q (map tok toks)"
proof -
  define cur where "cur = \<lparr>cur_sql = sql, cur_toks = toks, cur_pos = 0\<rparr>"
  have all: "remaining cur = map tok toks" by (simp add: cur_def remaining_def)
  show ?thesis
  proof (cases "at_keyword ''DESCRIBE'' cur \<or> at_keyword ''DESC'' cur")
    case True
    then obtain s where s: "remaining cur = s # remaining (advance cur)" "word_is ''DESCRIBE'' s \<or> word_is ''DESC'' s"
      using at_keyword_remaining by blast
    from True assms(1,2) obtain cur' where "describe env (advance cur) = Inr (q, cur')"
      by (auto simp: detect_show_def Let_def map_sum_Inr cur_def split: if_splits)
    from describe_whole [OF this assms(3)] s all show ?thesis by (auto intro: whole_statement.intros)
  next
    case False
    obtain full n where n: "show_modifiers False (drop 1 toks) = (full, n)" by force
    define cur1 where "cur1 = cur\<lparr>cur_pos := 1 + n\<rparr>"
    from False assms(1,2) n obtain kw cur' where s: "at_keyword ''SHOW'' cur" and kw: "peek_word cur1 = Some kw"
      and q: "show_form env full kw (advance cur1) = Inr (q, cur')"
      by (auto simp: detect_show_def Let_def map_sum_Inr cur_def cur1_def split: if_splits option.splits)
    obtain t where t: "map tok toks = t # map tok (drop 1 toks)" "word_is ''SHOW'' t"
      using at_keyword_remaining [OF s] all by (cases toks) auto
    obtain x where x: "peek cur1 = Some (Word x)" "to_ascii_uppercase x = kw"
      using kw by (auto simp: peek_word_def split: option.splits tok.splits)
    note m = show_modifiers_split [OF n]
    have "remaining cur1 = map tok (drop n (drop 1 toks))" by (simp add: cur1_def cur_def remaining_def)
    then have "map tok (drop 1 toks) = map tok (take n (drop 1 toks)) @ remaining cur1"
      by (metis append_take_drop_id map_append)
    moreover have "show_body full q (remaining cur1)"
      using show_form_whole [OF q assms(3) refl x(2)] peek_Some [OF x(1)] by simp
    moreover have "modifiers full (map tok (take n (drop 1 toks)))" using m by (simp add: modifiers_def)
    ultimately show ?thesis using t whole_statement.show_stmt by metis
  qed
qed

text \<open>
  Property C40 (an unfiltered answer means an unfiltered statement). When a \<^verbatim>\<open>SHOW\<close> or \<^verbatim>\<open>DESCRIBE\<close> is answered without a
  filter, the statement is, token for token, one of the supported forms without a \<^verbatim>\<open>LIKE\<close> or \<^verbatim>\<open>WHERE\<close>
  clause, on that table and with that \<^verbatim>\<open>FULL\<close>, naming no system schema, and nothing after it but a semicolon: no clause was skipped.
\<close>

theorem unfiltered_answer_has_no_clause:
  assumes "detect_metadata_query env sql = Inr (Some q)" and "lex (trim sql) = Inr toks" and "unfiltered q"
  shows "whole_statement q (map tok toks)"
proof -
  have "detect_show env (trim sql) = Inr (Some q)"
    using assms(1,3) unfolding detect_metadata_query_def catalog_shortcut_def Let_def
    by (auto split: sum.splits option.splits if_splits)
  from detect_show_whole [OF assms(2) this assms(3)] show ?thesis .
qed

section \<open>Concrete statements\<close>

definition demo_metadata :: metadata_env where
  "demo_metadata =
     \<lparr>md_predicate = (\<lambda>expr. Inl (Unsupported expr)), md_debug = (\<lambda>t. []), md_debug_option = (\<lambda>t. []), md_alphanumeric = (\<lambda>ch. False)\<rparr>"

lemma demo_metadata_laws: "metadata_laws demo_metadata"
  by (simp add: metadata_laws_def demo_metadata_def)

lemma demo_detected:
  "detect_metadata_query demo_metadata (''SHOW FULL COLUMNS FROM '' @ [bt] @ ''a;b'' @ [sq, bt] @ '';'') = Inr (Some (ShowColumns (''a;b'' @ [sq]) True None))"
  "lex (trim (''DESC t'')) = Inr [\<lparr>tok = Word ''DESC'', tok_start = 0\<rparr>, \<lparr>tok = Word ''t'', tok_start = 5\<rparr>]"
  "detect_metadata_query demo_metadata ''DESC t'' = Inr (Some (ShowColumns ''t'' False None))"
  by code_simp+


theorem unfiltered_answer_has_no_clause_witness:
  "whole_statement (ShowColumns ''t'' False None) (map tok [\<lparr>tok = Word ''DESC'', tok_start = 0\<rparr>, \<lparr>tok = Word ''t'', tok_start = 5\<rparr>])"
  by (rule unfiltered_answer_has_no_clause [OF demo_detected(3,2)]) simp_all

text \<open>
  The catalog shortcuts look for a name anywhere in a statement of any dialect: an insert of such a name is answered as a
  catalog query and never runs. The procedure form takes its own name for the table.
\<close>

lemma insert_taken_for_catalog_query:
  "detect_metadata_query demo_metadata (''INSERT INTO log VALUES ('' @ [sq] @ ''see sys.tables'' @ [sq] @ '')'') = Inr (Some SysTables)"
  by code_simp

lemma exec_sp_columns_asks_for_itself:
  "detect_metadata_query demo_metadata (''EXEC sp_columns '' @ [sq] @ ''users'' @ [sq]) = Inr (Some (SysColumns ''sp_columns''))"
  by code_simp

end
