(* ===== verification/Found_Rows.thy ===== *)
theory Found_Rows
  imports Sql_Text
begin

text \<open>
  The textual half of recognising \<^verbatim>\<open>SQL_CALC_FOUND_ROWS\<close>, \<^verbatim>\<open>SELECT FOUND_ROWS()\<close> and \<^verbatim>\<open>SELECT CONNECTION_ID()\<close>
  (\<^verbatim>\<open>found_rows.rs\<close> and \<^verbatim>\<open>connection_id.rs\<close> under \<^verbatim>\<open>src/crates/litewire-translate/src/\<close>): the scans that decide whether a statement
  is parsed at all. What is then found in the syntax tree is a parameter.
\<close>

definition CALC_HINT :: string where "CALC_HINT = ''SQL_CALC_FOUND_ROWS''"

definition contains_ascii_ignore_case :: "string \<Rightarrow> string \<Rightarrow> bool" where
  "contains_ascii_ignore_case h n \<longleftrightarrow>
     length n \<le> length h \<and> list_ex (\<lambda>i. eq_ignore_ascii_case (take (length n) (drop i h)) n) [0..<length h - length n + 1]"

function contains_word_outside_quotes :: "string \<Rightarrow> string \<Rightarrow> bool" where
  "contains_word_outside_quotes [] w = False"
| "contains_word_outside_quotes (c # s) w =
     (if c = sq \<or> c = dq \<or> c = bt then contains_word_outside_quotes (drop 1 (dropWhile (\<lambda>x. x \<noteq> c) s)) w
      else if is_ascii_alphabetic c \<or> c = CHR ''_''
      then eq_ignore_ascii_case (c # takeWhile (\<lambda>x. is_ascii_alphanumeric x \<or> x = CHR ''_'') s) w \<or>
           contains_word_outside_quotes (dropWhile (\<lambda>x. is_ascii_alphanumeric x \<or> x = CHR ''_'') s) w
      else contains_word_outside_quotes s w)"
  by pat_completeness auto
termination
proof (relation "measure (\<lambda>(s, w). length s)", goal_cases)
  case (2 c s w)
  then show ?case using length_dropWhile_le [of "\<lambda>x. x \<noteq> c" s] by simp
qed (auto simp: less_Suc_eq_le length_dropWhile_le)

text \<open>\<open>count_of\<close> parses and rewrites the text without the hint, \<open>bare_call\<close> looks for the bare call in the parsed statement.\<close>

definition calc_found_rows_count_sql :: "(string \<Rightarrow> string option) \<Rightarrow> string \<Rightarrow> dialect \<Rightarrow> string option" where
  "calc_found_rows_count_sql count_of sql d =
     (if d \<noteq> MySQL \<or> \<not> contains_ascii_ignore_case sql CALC_HINT \<or> \<not> contains_word_outside_quotes sql CALC_HINT then None
      else count_of (strip_mysql_select_hints sql))"

definition found_rows_select_column :: "(string \<Rightarrow> string option) \<Rightarrow> string \<Rightarrow> dialect \<Rightarrow> string option" where
  "found_rows_select_column bare_call sql d =
     (if d \<noteq> MySQL \<or> \<not> contains_ascii_ignore_case sql ''FOUND_ROWS'' then None else bare_call sql)"

definition connection_id_select_column :: "(string \<Rightarrow> string option) \<Rightarrow> string \<Rightarrow> dialect \<Rightarrow> string option" where
  "connection_id_select_column bare_call sql d =
     (if d \<noteq> MySQL \<or> \<not> contains_ascii_ignore_case sql ''CONNECTION_ID'' then None else bare_call sql)"

section \<open>The cheap test is only a shortcut\<close>

lemma contains_iff: "contains_ascii_ignore_case h n \<longleftrightarrow> (\<exists>a b c. h = a @ b @ c \<and> length b = length n \<and> eq_ignore_ascii_case b n)"
proof
  assume "contains_ascii_ignore_case h n"
  then obtain i where "i < length h - length n + 1" and i: "length n \<le> length h" "eq_ignore_ascii_case (take (length n) (drop i h)) n"
    unfolding contains_ascii_ignore_case_def list_ex_iff set_upt by auto
  have "h = take i h @ take (length n) (drop i h) @ drop (length n) (drop i h)"
    by (metis append_take_drop_id)
  moreover have "length (take (length n) (drop i h)) = length n" using i(1) \<open>i < _\<close> by simp
  ultimately show "\<exists>a b c. h = a @ b @ c \<and> length b = length n \<and> eq_ignore_ascii_case b n" using i(2) by metis
next
  assume "\<exists>a b c. h = a @ b @ c \<and> length b = length n \<and> eq_ignore_ascii_case b n"
  then obtain a b c where "h = a @ b @ c" "length b = length n" "eq_ignore_ascii_case b n" by blast
  then show "contains_ascii_ignore_case h n"
    by (auto simp: contains_ascii_ignore_case_def list_ex_iff intro!: bexI [of _ "length a"])
qed

lemma contains_suffix: "contains_ascii_ignore_case s n \<Longrightarrow> contains_ascii_ignore_case (a @ s) n"
  unfolding contains_iff by (metis append.assoc)

lemma word_is_contained: "contains_word_outside_quotes s w \<Longrightarrow> contains_ascii_ignore_case s w"
proof (induction s w rule: contains_word_outside_quotes.induct)
  case (2 c s w)
  let ?p = "\<lambda>x. is_ascii_alphanumeric x \<or> x = CHR ''_''"
  have quoted: "c # s = (c # takeWhile (\<lambda>x. x \<noteq> c) s @ take 1 (dropWhile (\<lambda>x. x \<noteq> c) s)) @ drop 1 (dropWhile (\<lambda>x. x \<noteq> c) s)"
    by (simp add: takeWhile_dropWhile_id)
  have word: "c # s = (c # takeWhile ?p s) @ dropWhile ?p s" by simp
  have here: "contains_ascii_ignore_case (c # s) w" if "eq_ignore_ascii_case (c # takeWhile ?p s) w"
  proof -
    have "length (c # takeWhile ?p s) = length w"
      using that by (metis eq_ignore_ascii_case_def length_map to_ascii_lowercase_def)
    with that show ?thesis unfolding contains_iff by (metis append_Nil word)
  qed
  show ?case
  proof (cases "c = sq \<or> c = dq \<or> c = bt")
    case True
    with 2 have "contains_ascii_ignore_case (drop 1 (dropWhile (\<lambda>x. x \<noteq> c) s)) w" by auto
    then show ?thesis by (subst quoted) (rule contains_suffix)
  next
    case False
    show ?thesis
    proof (cases "is_ascii_alphabetic c \<or> c = CHR ''_''")
      case True
      show ?thesis
      proof (cases "eq_ignore_ascii_case (c # takeWhile ?p s) w")
        case False
        with 2 True \<open>\<not> (c = sq \<or> c = dq \<or> c = bt)\<close> have "contains_ascii_ignore_case (dropWhile ?p s) w" by auto
        then show ?thesis by (subst word) (rule contains_suffix)
      qed (rule here)
    next
      case False
      with 2 \<open>\<not> (c = sq \<or> c = dq \<or> c = bt)\<close> have "contains_ascii_ignore_case s w" by auto
      from contains_suffix [OF this, of "[c]"] show ?thesis by simp
    qed
  qed
qed simp

lemma count_sql_decided_by_word:
  "calc_found_rows_count_sql count_of sql d =
     (if d = MySQL \<and> contains_word_outside_quotes sql CALC_HINT then count_of (strip_mysql_select_hints sql) else None)"
  using word_is_contained by (auto simp: calc_found_rows_count_sql_def)

text \<open>
  A backslash before a quote does not keep the quote open here, as it does for the pass that strips the hints: the hint is
  seen inside a string literal.
\<close>

lemma hint_seen_in_literal:
  "let sql = ''SELECT '' @ [sq] @ ''it'' @ [backslash, sq] @ ''s SQL_CALC_FOUND_ROWS'' @ [sq] @ '' FROM t LIMIT 1'' in
   contains_word_outside_quotes sql CALC_HINT \<and> strip_mysql_select_hints sql = sql"
  by code_simp

end
