(* ===== verification/Spec2Isabelle.thy ===== *)
theory Spec2Isabelle
  imports User_Lock Write_Admission Conn_Limit Command_Filter Tds_Packet Tds_Token Tenant_Screen Sql_Text Translate_Cache Wal_Gate Error_Map Native_Password Lock_Calls Session_Locks Sql_Mode Session Session_Props Lock_Scope Tds_Serve Hrana Cdc_Apply Turso_Props Rusqlite_Props Mysql_Props Postgres_Props Metadata_Props Found_Rows
begin

text \<open>
  \<^bold>\<open>litewire\<close> lets clients of other databases talk to SQLite. A frontend (MySQL, PostgreSQL, TDS, Hrana)
  accepts a connection, speaks its wire protocol and hands every statement to a session. The session
  has the statement translated to the SQLite dialect, evaluates what SQLite does not have (named locks,
  \<^verbatim>\<open>FOUND_ROWS()\<close>, \<^verbatim>\<open>sql_mode\<close>, table rebuilds) and runs the rest on its own backend connection. A backend is
  SQLite in process (rusqlite), the Turso engine or a remote Hrana server, behind optional wrappers: a
  tenant screen, named locks, write admission. The Turso backend also checkpoints its log and ships its
  changes to replicas.

  \<^bold>\<open>Parts and theories\<close> (paths under \<^verbatim>\<open>src/crates/\<close>)

  \<^item> Foundations. \<open>LW_Prelude\<close>: machine integers, lists, \<open>rust_result\<close> (a value or a panic), the locales
    \<open>lts_invariant\<close> and \<open>executable_lts\<close> of step relations. \<open>Rust_Str\<close>, \<open>Utf8\<close>, \<open>Utf16\<close>, \<open>Wire_Bytes\<close>: what the
    sources use of \<^verbatim>\<open>str\<close>, \<^verbatim>\<open>from_utf8\<close>, \<^verbatim>\<open>from_utf16\<close> and integers on the wire. A Rust string is the list of its
    UTF-8 bytes.
  \<^item> \<^verbatim>\<open>litewire-backend\<close>. \<open>Backend_Value\<close>, \<open>Backend_Api\<close>: values, result sets and the connection trait of
    \<^verbatim>\<open>lib.rs\<close>. \<open>User_Lock\<close>: the lock registry of \<^verbatim>\<open>user_lock.rs\<close>, with the waiting loop of \<^verbatim>\<open>acquire\<close> interleaved
    over any number of sessions; \<open>Lock_Scope\<close> puts it behind a session. \<open>Write_Admission\<close>: the permit pool
    and the transaction stack of \<^verbatim>\<open>write_admission.rs\<close>. \<open>Conn_Limit\<close>: the compare-exchange loop of
    \<^verbatim>\<open>conn_limit.rs\<close>. \<open>Rusqlite_Conn\<close>, \<open>Rusqlite_System\<close>: the sessions of \<^verbatim>\<open>rusqlite_backend.rs\<close>, their free-list,
    and the worker threads and channels interleaved; \<open>Rusqlite_Props\<close>: what they promise. \<open>Free_List\<close>: the bounded
    list of idle resources this backend and the Turso backend both keep. \<open>Tenant_Screen\<close>: the scanner of \<^verbatim>\<open>tenant_screen.rs\<close>. \<open>Hrana\<close>: \<^verbatim>\<open>hrana_client.rs\<close> together
    with the server of \<^verbatim>\<open>litewire-hrana\<close>.
  \<^item> \<^verbatim>\<open>litewire-translate\<close>. \<open>Sql_Text\<close>: the textual passes and recognisers of \<^verbatim>\<open>lib.rs\<close>. \<open>Translate_Cache\<close>:
    \<^verbatim>\<open>cache.rs\<close>. \<open>Sql_Mode\<close>: the lexer and the \<^verbatim>\<open>sql_mode\<close> part of \<^verbatim>\<open>metadata.rs\<close>; \<open>Metadata\<close>: the rest of it,
    with the texts of \<^verbatim>\<open>catalog.rs\<close> in \<open>Catalog\<close>, and \<open>Metadata_Props\<close>: what holds of them. \<open>Found_Rows\<close>: the scans of \<^verbatim>\<open>found_rows.rs\<close>
    and \<^verbatim>\<open>connection_id.rs\<close>. \<open>Lock_Calls\<close>: \<^verbatim>\<open>user_locks.rs\<close>.
  \<^item> \<^verbatim>\<open>litewire-session\<close>. \<open>Session\<close>: all of \<^verbatim>\<open>lib.rs\<close>, as functions on a session record and an explicit backend
    state; \<open>Session_Locks\<close>: \<^verbatim>\<open>user_locks.rs\<close>; \<open>Error_Map\<close>: \<^verbatim>\<open>error_map.rs\<close> and those of the frontends;
    \<open>Session_Props\<close>: what the session promises.
  \<^item> \<^verbatim>\<open>litewire-mysql\<close>. \<open>Command_Filter\<close>: the byte-level state machine of \<^verbatim>\<open>command_filter.rs\<close>.
    \<open>Native_Password\<close>: \<^verbatim>\<open>native_password.rs\<close>. \<open>Mysql_Handler\<close>: \<^verbatim>\<open>handler.rs\<close>, \<^verbatim>\<open>types.rs\<close>, the refusal packet of
    \<^verbatim>\<open>lib.rs\<close> and \<^verbatim>\<open>auth.rs\<close> of \<^verbatim>\<open>litewire-backend\<close>; \<open>Mysql_Props\<close>: what the handler promises.
  \<^item> \<^verbatim>\<open>litewire-postgres\<close>. \<open>Postgres_Handler\<close>: \<^verbatim>\<open>handler.rs\<close> and \<^verbatim>\<open>types.rs\<close>; \<open>Postgres_Props\<close>: what the handler promises.
  \<^item> \<^verbatim>\<open>litewire-tds\<close>. \<open>Tds_Packet\<close>, \<open>Tds_Token\<close>, \<open>Tds_Handler\<close>: the framing, the response tokens and the handler;
    \<open>Tds_Serve\<close>: what a client sees of them.
  \<^item> \<^verbatim>\<open>litewire-turso\<close>. \<open>Turso_Engine\<close>: the engine as a parameter. \<open>Turso_Conn\<close>, \<open>Turso_Props\<close>: the sessions and the
    idle pool of \<^verbatim>\<open>lib.rs\<close>. \<open>Wal_Gate\<close>: the checkpoint task of \<^verbatim>\<open>wal_gate.rs\<close>. \<open>Sqlite_Record\<close>, \<open>Cdc_Ddl\<close>, \<open>Cdc_Tail\<close>,
    \<open>Cdc_Apply\<close>: the record decoder, the allowlist for schema changes, the tailer and the replay of \<^verbatim>\<open>cdc.rs\<close>.

  \<^bold>\<open>How the code is rendered.\<close> Structs are records and enums datatypes with the source's constructors;
  \<^verbatim>\<open>Result\<close> is a sum with the error on the left; where a slice or an index may be out of range the result type is
  \<open>rust_result\<close> and the panic is a value. Machine integers are words. A method on \<^verbatim>\<open>&mut self\<close> returns the updated
  record. A backend, an engine or a network is an explicit state threaded through every call in the order of
  the source. Concurrency is an \<open>inductive\<close> step relation over the shared state, one atomic access, lock
  section or await per step; its invariants are obtained by interpreting \<open>lts_invariant\<close>, and \<open>executable_lts\<close> ties
  the relation to a function that runs a schedule, on which the witnesses compute.

  \<^bold>\<open>What is shown\<close>

  \<^item> Named locks: the registry refines an abstract lock table, no wakeup is lost, closing a session frees its
    locks, and a session never forgets a lock it may hold.
  \<^item> Admission and limits: permits are conserved, a commit never waits, the connection cap holds in every
    interleaving.
  \<^item> SQL text: the screen refuses every cross-database statement and judges exactly the statements of a text;
    the textual passes keep quoted text; lock calls leave their parameters in line; \<^verbatim>\<open>sql_mode\<close> is read back; the
    cache is transparent.
  \<^item> Metadata: the text that answers a metadata statement is one statement whatever the client wrote, and an answer without
    a filter belongs to a statement without one.
  \<^item> Session: the prepared path agrees with the text path and a table rebuild is bracketed.
  \<^item> Wire: the MySQL filter refines a packet-level specification for every chunking, TDS messages and rows are read
    back, a PostgreSQL query runs its statements once each and in order and both its protocols agree, a TDS conversation is served text by text without a panic, a Hrana session behaves like the server's
    backend.
  \<^item> MySQL connections: a connection reaches only the backend it was granted and only through the screen, one without a
    backend is refused, prepared statements are found under their ids and bounded.
  \<^item> In-process SQLite: a session starts on a connection nobody else has, in the state of a fresh one; requests
    of a session are answered once and in order.
  \<^item> Turso: writes are captured before they run, the gate permit follows the transaction, pooled connections are
    clean, checkpoint stalls are bounded and escalate.
  \<^item> Replication: records are read back, the tailer ships complete transactions in order and terminates, batches are
    applied exactly once, and from end to end the replica follows the primary (below).

  \<^bold>\<open>Parameters and their laws.\<close> Code outside the repository is an argument of the definitions that use it, and
  what is relied on is a named predicate over it: the fair semaphore (\<open>semaphore_laws\<close>), the \<^verbatim>\<open>lru\<close> map
  (\<open>lru_laws\<close>), SHA-1 (digests of 20 bytes), base64 (\<open>base64_law\<close>), the statements, transactions and log of the
  engine (\<open>log_laws\<close>, \<open>apply_laws\<close>, \<open>commits_settle\<close>), the SQLite library
  (\<open>sqlite_laws\<close>), the filters of metadata statements (\<open>metadata_laws\<close>), the authenticator, the clock, the file system, the HTTP exchange and the SQL parser.
  Floats are their bit patterns; their conversions and texts are a parameter. Each law has a concrete instance in
  the witness of the property that assumes it.

  \<^bold>\<open>Loops, bounds and fuel.\<close> Loops are structural recursion on the remaining bytes, rows or statements, or functions with
  a termination measure. \<open>read_windows\<close> of \<open>Cdc_Tail\<close>, whose loop depends on how fast the log grows, is a partial
  function into \<open>option\<close>, and \<open>poll_terminates\<close> says when it returns. The maintenance task of \<open>Wal_Gate\<close> and the system
  runs take the number of ticks or the schedule as an argument and are stated for every such argument. No other
  definition uses fuel.

  \<^bold>\<open>Not modelled.\<close> The translation of a parsed statement (\<^verbatim>\<open>mysql.rs\<close>, \<^verbatim>\<open>postgres.rs\<close>, \<^verbatim>\<open>tds.rs\<close>, \<^verbatim>\<open>alter.rs\<close>,
  \<^verbatim>\<open>common.rs\<close>, \<^verbatim>\<open>emit.rs\<close>, \<^verbatim>\<open>mysql_compat.rs\<close> of \<^verbatim>\<open>litewire-translate\<close>) walks and rebuilds the syntax
  tree of the \<^verbatim>\<open>sqlparser\<close> crate, which is not part of the repository: what such a rewriting preserves depends on that
  crate's types, printer and parser. The session, the cache and the handlers take the translator as an argument instead; \<open>Lock_Calls\<close> models
  the one pass whose use of the tree is small enough to state. For the same reason the parts of \<^verbatim>\<open>found_rows.rs\<close>, \<^verbatim>\<open>connection_id.rs\<close>,
  \<^verbatim>\<open>catalog.rs\<close> and of a \<^verbatim>\<open>SHOW\<close> filter that inspect the tree are parameters. The wire encodings of the \<^verbatim>\<open>opensrv-mysql\<close> and \<^verbatim>\<open>pgwire\<close>
  crates are theirs. The accept loops, socket adapters and start-up code (\<^verbatim>\<open>lib.rs\<close> of the frontends,
  \<^verbatim>\<open>litewire\<close>), \<^verbatim>\<open>offload.rs\<close>, which moves a call to a thread pool, the
  test harness \<^verbatim>\<open>litewire-compat\<close> and logging are left out.
\<close>

section \<open>Replication from end to end\<close>


lemma demo_growing_user: "list_all user_row [demo_row 1 INSERT, demo_row 2 COMMIT, demo_row 3 DELETE, demo_row 4 COMMIT]"
proof -
  have "user_table ''t''" by code_simp
  then show ?thesis by (simp add: demo_row_def user_row_def change_types)
qed


end
